(* ===== verification/Lua_Prelude.thy ===== *)
theory Lua_Prelude
  imports Main "HOL-Library.Word"
begin

text \<open>
  Shared vocabulary of the development: the machine types of the Rust sources, the outcome of
  a fallible Rust call, sequencing of state-changing calls, the ordered map that models
  \<open>BTreeMap\<close>, signer bitmaps and big-endian byte strings, with the lemmas about them that the
  components share.
\<close>

named_theorems outcome_simps \<open>unfolding of the outcome sequencing operators\<close>
named_theorems btree_simps \<open>facts about the ordered map model\<close>
named_theorems bitmap_simps \<open>facts about signer bitmaps\<close>

unbundle bit_operations_syntax

section \<open>Machine types\<close>

text \<open>
  The release profile of the workspace does not enable overflow checks, so \<open>+\<close> on a fixed-width
  integer wraps, as it does on \<open>word\<close>. \<open>usize\<close> values (lengths and positions of in-memory
  collections) are natural numbers.
\<close>

type_synonym u8 = "8 word"
type_synonym u16 = "16 word"
type_synonym u32 = "32 word"
type_synonym u64 = "64 word"
type_synonym u128 = "128 word"
type_synonym usize = nat
type_synonym bytes = "u8 list"

definition sat_sub :: "('a::len) word \<Rightarrow> 'a word \<Rightarrow> 'a word" where
  "sat_sub a b = (if b \<le> a then a - b else 0)"

definition sat_add :: "('a::len) word \<Rightarrow> 'a word \<Rightarrow> 'a word" where
  "sat_add a b = (if a \<le> a + b then a + b else - 1)"

lemma unat_less_exp: "unat (w :: 'a::len word) < 2 ^ LENGTH('a)"
  by (rule unsigned_less)

lemma unat_of_nat_small: "n < 2 ^ LENGTH('a) \<Longrightarrow> unat (of_nat n :: 'a::len word) = n"
  by (simp add: unsigned_of_nat take_bit_nat_eq_self)

lemma unat_of_nat_below: "i < unat (n :: 'a::len word) \<Longrightarrow> unat (of_nat i :: 'a word) = i"
  by (rule unat_of_nat_small) (rule less_trans [OF _ unat_less_exp])

lemma sat_sub_le: "sat_sub a b \<le> a"
  by (simp add: sat_sub_def word_sub_le)

lemma unat_sat_sub: "unat (sat_sub a b) = unat a - unat b"
  by (auto simp: sat_sub_def unat_sub word_le_nat_alt)

section \<open>Outcomes of fallible calls\<close>

text \<open>
  A Rust function that returns \<open>Result<T, E>\<close> returns, returns an error, or panics. Handlers that
  mutate their book through a reference keep the mutation when they return an error, so a
  stateful call yields the outcome together with the state it leaves behind.
\<close>

datatype ('e, 'a) outcome = Ok 'a | Err 'e | Panic string

fun bind_out :: "('e, 'a) outcome \<Rightarrow> ('a \<Rightarrow> ('e, 'b) outcome) \<Rightarrow> ('e, 'b) outcome" where
  "bind_out (Ok a) f = f a"
| "bind_out (Err e) f = Err e"
| "bind_out (Panic m) f = Panic m"

fun bind_st :: "('e, 'a) outcome \<times> 's \<Rightarrow> ('a \<Rightarrow> 's \<Rightarrow> ('e, 'b) outcome \<times> 's) \<Rightarrow>
    ('e, 'b) outcome \<times> 's" where
  "bind_st (Ok a, s) f = f a s"
| "bind_st (Err e, s) f = (Err e, s)"
| "bind_st (Panic m, s) f = (Panic m, s)"

definition call :: "('e, 'a) outcome \<Rightarrow> 's \<Rightarrow> ('a \<Rightarrow> ('e, 'b) outcome \<times> 's) \<Rightarrow>
    ('e, 'b) outcome \<times> 's" where
  "call r s f = (case r of Ok a \<Rightarrow> f a | Err e \<Rightarrow> (Err e, s) | Panic m \<Rightarrow> (Panic m, s))"

definition map_err :: "('e \<Rightarrow> 'f) \<Rightarrow> ('e, 'a) outcome \<Rightarrow> ('f, 'a) outcome" where
  "map_err g r = (case r of Ok a \<Rightarrow> Ok a | Err e \<Rightarrow> Err (g e) | Panic m \<Rightarrow> Panic m)"

definition ok_or :: "'e \<Rightarrow> 'a option \<Rightarrow> ('e, 'a) outcome" where
  "ok_or e v = (case v of None \<Rightarrow> Err e | Some a \<Rightarrow> Ok a)"

fun is_ok :: "('e, 'a) outcome \<Rightarrow> bool" where
  "is_ok (Ok a) = True"
| "is_ok (Err e) = False"
| "is_ok (Panic m) = False"

lemma bind_out_Ok_iff [outcome_simps]: "bind_out r f = Ok b \<longleftrightarrow> (\<exists>a. r = Ok a \<and> f a = Ok b)"
  by (cases r) auto

lemma bind_st_Ok_iff [outcome_simps]:
  "bind_st m f = (Ok b, t) \<longleftrightarrow> (\<exists>a s. m = (Ok a, s) \<and> f a s = (Ok b, t))"
  by (cases m rule: prod.exhaust, rename_tac r s, case_tac r) auto

lemma call_Ok_iff [outcome_simps]: "call r s f = (Ok b, t) \<longleftrightarrow> (\<exists>a. r = Ok a \<and> f a = (Ok b, t))"
  by (cases r) (auto simp: call_def)

lemma call_simps [simp]:
  "call (Ok a) s f = f a"
  "call (Err e) s f = (Err e, s)"
  "call (Panic m) s f = (Panic m, s)"
  by (simp_all add: call_def)

lemma map_err_Ok_iff [outcome_simps]: "map_err g r = Ok a \<longleftrightarrow> r = Ok a"
  by (cases r) (auto simp: map_err_def)

lemma map_err_simps [simp]:
  "map_err g (Ok a) = Ok a"
  "map_err g (Err e) = Err (g e)"
  "map_err g (Panic m) = Panic m"
  by (simp_all add: map_err_def)

lemma ok_or_Ok_iff [outcome_simps]: "ok_or e v = Ok a \<longleftrightarrow> v = Some a"
  by (cases v) (auto simp: ok_or_def)

lemma ok_or_simps [simp]: "ok_or e None = Err e" "ok_or e (Some a) = Ok a"
  by (simp_all add: ok_or_def)

lemma is_ok_iff: "is_ok r \<longleftrightarrow> (\<exists>a. r = Ok a)"
  by (cases r) auto

text \<open>
  The rule every handler proof uses: what holds of the state before a fallible call holds after
  the call, whatever its outcome, when the continuation establishes it.
\<close>

lemma call_state_invar:
  assumes "P s" and "\<And>a. r = Ok a \<Longrightarrow> P (snd (f a))"
  shows "P (snd (call r s f))"
  using assms by (cases r) auto

lemma bind_st_state_invar:
  assumes "P (snd m)" and "\<And>a s. m = (Ok a, s) \<Longrightarrow> P s \<Longrightarrow> P (snd (f a s))"
  shows "P (snd (bind_st m f))"
  using assms by (cases m rule: prod.exhaust, rename_tac r s, case_tac r) auto

text \<open>Calls that return, with a value or with an error.\<close>

definition no_panic :: "('e, 'a) outcome \<Rightarrow> bool" where
  "no_panic r \<longleftrightarrow> (\<forall>m. r \<noteq> Panic m)"

lemma no_panic_simps [simp]: "no_panic (Ok a)" "no_panic (Err e)" "\<not> no_panic (Panic m)"
  by (simp_all add: no_panic_def)

lemma no_panic_bind [intro]:
  "no_panic r \<Longrightarrow> (\<And>a. r = Ok a \<Longrightarrow> no_panic (f a)) \<Longrightarrow> no_panic (bind_out r f)"
  by (cases r) auto

lemma no_panic_map_err [simp]: "no_panic (map_err g r) = no_panic r"
  by (cases r) auto

lemma no_panic_ok_or [simp]: "no_panic (ok_or e v)"
  by (cases v) auto

lemma bind_st_Panic: "fst m = Panic e \<Longrightarrow> fst (bind_st m f) = Panic e"
  by (cases m) auto

section \<open>Ordered maps\<close>

text \<open>
  \<open>BTreeMap\<close> iterates in key order, and several handlers observe that order. The interface fixes
  what they use of it; the model is an association list sorted by key.
\<close>

locale ordered_map =
  fixes empty :: "'m"
    and get :: "'m \<Rightarrow> 'k::linorder \<Rightarrow> 'v option"
    and ins :: "'k \<Rightarrow> 'v \<Rightarrow> 'm \<Rightarrow> 'm"
    and retain :: "('k \<Rightarrow> 'v \<Rightarrow> bool) \<Rightarrow> 'm \<Rightarrow> 'm"
    and keys :: "'m \<Rightarrow> 'k list"
    and invar :: "'m \<Rightarrow> bool"
  assumes get_empty: "get empty k = None"
    and get_ins: "invar m \<Longrightarrow> get (ins k v m) = (get m)(k \<mapsto> v)"
    and get_retain: "invar m \<Longrightarrow> get (retain P m) k =
          (case get m k of None \<Rightarrow> None | Some v \<Rightarrow> if P k v then Some v else None)"
    and set_keys: "invar m \<Longrightarrow> set (keys m) = dom (get m)"
    and sorted_keys: "invar m \<Longrightarrow> sorted_wrt (<) (keys m)"
    and invar_empty: "invar empty"
    and invar_ins: "invar m \<Longrightarrow> invar (ins k v m)"
    and invar_retain: "invar m \<Longrightarrow> invar (retain P m)"
begin

lemma finite_dom: "invar m \<Longrightarrow> finite (dom (get m))"
  using set_keys [of m] by (metis List.finite_set)

lemma length_keys: "invar m \<Longrightarrow> length (keys m) = card (dom (get m))"
  using set_keys [of m] sorted_keys [of m]
  by (metis distinct_card strict_sorted_iff)

text \<open>The iteration order depends on the contents only.\<close>

lemma keys_unique: "invar m \<Longrightarrow> invar m' \<Longrightarrow> dom (get m) = dom (get m') \<Longrightarrow> keys m = keys m'"
  by (metis set_keys sorted_keys strict_sorted_equal)

lemma length_ins: "invar m \<Longrightarrow>
    length (keys (ins k v m)) = (if get m k = None then Suc (length (keys m)) else length (keys m))"
proof -
  assume m: "invar m"
  have "dom (get (ins k v m)) = insert k (dom (get m))"
    using m by (simp add: get_ins)
  then show ?thesis
    using m by (simp add: length_keys invar_ins finite_dom card_insert_if domIff)
qed

lemma length_retain_le: "invar m \<Longrightarrow> length (keys (retain P m)) \<le> length (keys m)"
  by (auto simp: length_keys invar_retain get_retain finite_dom intro!: card_mono
      split: option.splits if_splits)

lemma retain_get_Some: "invar m \<Longrightarrow> get (retain P m) k = Some v \<longleftrightarrow> get m k = Some v \<and> P k v"
  by (auto simp: get_retain split: option.splits if_splits)

end

type_synonym ('k, 'v) btree = "('k \<times> 'v) list"

definition bt_empty :: "('k, 'v) btree" where
  "bt_empty = []"

definition bt_get :: "('k, 'v) btree \<Rightarrow> 'k \<Rightarrow> 'v option" where
  "bt_get m = map_of m"

fun bt_insert :: "'k::linorder \<Rightarrow> 'v \<Rightarrow> ('k, 'v) btree \<Rightarrow> ('k, 'v) btree" where
  "bt_insert k v [] = [(k, v)]"
| "bt_insert k v ((k', v') # m) =
     (if k < k' then (k, v) # (k', v') # m
      else if k = k' then (k, v) # m
      else (k', v') # bt_insert k v m)"

definition bt_retain :: "('k \<Rightarrow> 'v \<Rightarrow> bool) \<Rightarrow> ('k, 'v) btree \<Rightarrow> ('k, 'v) btree" where
  "bt_retain P m = filter (\<lambda>(k, v). P k v) m"

definition bt_keys :: "('k, 'v) btree \<Rightarrow> 'k list" where
  "bt_keys m = map fst m"

definition bt_values :: "('k, 'v) btree \<Rightarrow> 'v list" where
  "bt_values m = map snd m"

definition bt_inv :: "('k::linorder, 'v) btree \<Rightarrow> bool" where
  "bt_inv m \<longleftrightarrow> sorted_wrt (<) (map fst m)"

lemma set_fst_bt_insert: "fst ` set (bt_insert k v m) = insert k (fst ` set m)"
  by (induction k v m rule: bt_insert.induct) auto

lemma bt_get_empty [btree_simps, simp]: "bt_get bt_empty k = None"
  by (simp add: bt_get_def bt_empty_def)

lemma bt_inv_empty [btree_simps, simp]: "bt_inv bt_empty"
  by (simp add: bt_inv_def bt_empty_def)

lemma bt_inv_insert [simp, intro]: "bt_inv m \<Longrightarrow> bt_inv (bt_insert k v m)"
  unfolding bt_inv_def
  by (induction k v m rule: bt_insert.induct) (auto simp: set_fst_bt_insert)

lemma bt_get_list: "bt_get [] x = None" "bt_get ((k, v) # m) x = (if x = k then Some v else bt_get m x)"
  by (simp_all add: bt_get_def)

lemma bt_get_insert: "bt_get (bt_insert k v m) = (bt_get m)(k \<mapsto> v)"
  unfolding bt_get_def
  by (induction k v m rule: bt_insert.induct) (auto simp: fun_eq_iff)

lemma bt_get_insert_apply [simp, btree_simps]:
  "bt_get (bt_insert k v m) k' = (if k' = k then Some v else bt_get m k')"
  by (simp add: bt_get_insert)

lemma bt_inv_retain [simp, intro]: "bt_inv m \<Longrightarrow> bt_inv (bt_retain P m)"
  unfolding bt_inv_def bt_retain_def
  by (induction m) auto

lemma map_of_filter_key:
  assumes "distinct (map fst m)"
  shows "map_of (filter (\<lambda>(k, v). P k v) m) k =
    (case map_of m k of None \<Rightarrow> None | Some v \<Rightarrow> if P k v then Some v else None)"
  using assms
proof (induction m)
  case (Cons x m)
  have "map_of (filter (\<lambda>(k, v). P k v) m) (fst x) = None"
    using Cons.prems by (force simp: map_of_eq_None_iff)
  with Cons show ?case by (cases x) auto
qed simp

lemma bt_inv_distinct: "bt_inv m \<Longrightarrow> distinct (map fst m)"
  by (simp add: bt_inv_def strict_sorted_iff)

lemma bt_get_retain: "bt_inv m \<Longrightarrow> bt_get (bt_retain P m) k =
    (case bt_get m k of None \<Rightarrow> None | Some v \<Rightarrow> if P k v then Some v else None)"
  by (simp add: bt_get_def bt_retain_def map_of_filter_key bt_inv_distinct)

lemma set_bt_keys: "set (bt_keys m) = dom (bt_get m)"
  by (simp add: bt_keys_def bt_get_def dom_map_of_conv_image_fst)

lemma set_bt_values: "bt_inv m \<Longrightarrow> set (bt_values m) = ran (bt_get m)"
  using bt_inv_distinct [of m]
  by (auto simp: bt_values_def bt_get_def ran_distinct)

lemma length_bt_values: "length (bt_values m) = length (bt_keys m)"
  by (simp add: bt_keys_def bt_values_def)

lemma sorted_bt_keys: "bt_inv m \<Longrightarrow> sorted_wrt (<) (bt_keys m)"
  by (simp add: bt_inv_def bt_keys_def)

interpretation bt: ordered_map bt_empty bt_get bt_insert bt_retain bt_keys bt_inv
  by unfold_locales (simp_all add: bt_get_insert bt_get_retain set_bt_keys sorted_bt_keys)

section \<open>Bits of byte strings\<close>

text \<open>
  Signer bitmaps keep slot \<open>i\<close> in bit \<open>i % 8\<close> of byte \<open>i / 8\<close>; the sources set it with
  \<open>bytes[i / 8] |= 1 << (i % 8)\<close> and test it with \<open>bytes[i / 8] & (1 << (i % 8)) != 0\<close>.
\<close>

definition set_slot :: "bytes \<Rightarrow> nat \<Rightarrow> bytes" where
  "set_slot bs i = bs[i div 8 := bs ! (i div 8) OR push_bit (i mod 8) 1]"

definition test_slot :: "bytes \<Rightarrow> nat \<Rightarrow> bool" where
  "test_slot bs i \<longleftrightarrow> (bs ! (i div 8)) AND push_bit (i mod 8) 1 \<noteq> 0"

definition div_ceil :: "nat \<Rightarrow> nat \<Rightarrow> nat" where
  "div_ceil a b = (a + (b - 1)) div b"

lemma and_push_bit_1: "(w AND push_bit k 1 \<noteq> 0) = bit w k" for w :: "'a::len word"
proof
  assume "w AND push_bit k 1 \<noteq> 0"
  then obtain n where "bit (w AND push_bit k 1) n"
    by (auto simp: bit_eq_iff)
  then show "bit w k"
    by (auto simp: bit_simps)
next
  assume a: "bit w k"
  then have "k < LENGTH('a)"
    using bit_imp_le_length by blast
  with a have "bit (w AND push_bit k 1) k"
    by (simp add: bit_simps)
  then show "w AND push_bit k 1 \<noteq> 0"
    by auto
qed

lemma test_slot_bit: "test_slot bs i = bit (bs ! (i div 8)) (i mod 8)"
  unfolding test_slot_def and_push_bit_1 ..

lemma length_set_slot [simp, bitmap_simps]: "length (set_slot bs i) = length bs"
  by (simp add: set_slot_def)

lemma div_mod_8_eq: "i div 8 = j div 8 \<Longrightarrow> i mod 8 = j mod 8 \<Longrightarrow> i = j" for i j :: nat
  by (metis div_mult_mod_eq)

lemma test_set_slot [bitmap_simps]:
  assumes "i div 8 < length bs"
  shows "test_slot (set_slot bs i) j \<longleftrightarrow> j = i \<or> test_slot bs j"
proof (cases "j div 8 = i div 8")
  case True
  then have "j mod 8 = i mod 8 \<longleftrightarrow> j = i"
    using div_mod_8_eq by blast
  with True assms show ?thesis
    by (auto simp: test_slot_bit set_slot_def bit_simps)
next
  case False
  then show ?thesis
    by (auto simp: test_slot_def set_slot_def)
qed

lemma slot_byte_less: "i < n \<Longrightarrow> i div 8 < div_ceil n 8"
  by (simp add: div_ceil_def)

lemma test_zero_slots [bitmap_simps]: "i < n \<Longrightarrow> \<not> test_slot (replicate (div_ceil n 8) 0) i"
  using slot_byte_less by (simp add: test_slot_def)

text \<open>Setting a list of slots one after another sets exactly those slots.\<close>

lemma length_fold_set_slot [simp]: "length (fold (\<lambda>i bs. set_slot bs i) is bs) = length bs"
  by (induction "is" arbitrary: bs) auto

lemma test_fold_set_slot:
  assumes "\<And>i. i \<in> set is \<Longrightarrow> i div 8 < length bs"
  shows "test_slot (fold (\<lambda>i bs. set_slot bs i) is bs) j \<longleftrightarrow> j \<in> set is \<or> test_slot bs j"
  using assms
proof (induction "is" arbitrary: bs)
  case (Cons i "is")
  then show ?case by (auto simp: test_set_slot)
qed simp

lemma filter_test_fold_set_slot:
  assumes "set is \<subseteq> {..<n}"
  shows "filter (test_slot (fold (\<lambda>i bs. set_slot bs i) is (replicate (div_ceil n 8) 0))) [0..<n] =
    filter (\<lambda>i. i \<in> set is) [0..<n]"
proof (rule filter_cong [OF refl])
  fix j assume "j \<in> set [0..<n]"
  then show "test_slot (fold (\<lambda>i bs. set_slot bs i) is (replicate (div_ceil n 8) 0)) j =
      (j \<in> set is)"
    using assms test_zero_slots [of j n]
    by (subst test_fold_set_slot) (auto intro: slot_byte_less)
qed

lemma filter_mem_upt:
  assumes "set is \<subseteq> {..<n}" "sorted_wrt (<) is"
  shows "filter (\<lambda>i. i \<in> set is) [0..<n] = is"
proof (rule strict_sorted_equal)
  show "sorted_wrt (<) (filter (\<lambda>i. i \<in> set is) [0..<n])"
    by (simp add: sorted_wrt_filter)
qed (use assms in auto)

lemma length_filter_mem_upt:
  assumes "set is \<subseteq> {..<n}"
  shows "length (filter (\<lambda>i. i \<in> set is) [0..<n]) = card (set is)"
proof -
  have "length (filter (\<lambda>i. i \<in> set is) [0..<n]) = card (set (filter (\<lambda>i. i \<in> set is) [0..<n]))"
    by (rule distinct_card [symmetric]) simp
  also have "set (filter (\<lambda>i. i \<in> set is) [0..<n]) = set is"
    using assms by auto
  finally show ?thesis .
qed

lemma distinct_map_nth:
  assumes "distinct xs" "distinct is" "set is \<subseteq> {..<length xs}"
  shows "distinct (map ((!) xs) is)" "set (map ((!) xs) is) \<subseteq> set xs"
proof -
  have "inj_on ((!) xs) (set is)"
    using assms(1,3) by (intro inj_onI) (metis lessThan_iff nth_eq_iff_index_eq subsetD)
  then show "distinct (map ((!) xs) is)"
    using assms(2) by (simp add: distinct_map)
  show "set (map ((!) xs) is) \<subseteq> set xs"
    using assms(3) by auto
qed

end
