(* ===== verification/Proto_Types.thy ===== *)
theory Proto_Types
  imports Lua_Prelude
begin

text \<open>
  The wire types of \<open>crates/types\<close>: one record per struct, one datatype per enum, fields in the
  order of the source and prefixed with the initials of their struct. The \<open>u64\<close> newtypes are
  64-bit words. A fixed array of \<open>n\<close> bytes is the \<open>8n\<close>-bit word it spells in big-endian order, so
  that the derived (lexicographic) order of the arrays is the order of the words and equality of
  arrays is equality of words; \<open>be_bytes\<close> gives the bytes back.
\<close>

section \<open>Primitives\<close>

type_synonym Round = u64
type_synonym Height = u64
type_synonym Epoch = u64
type_synonym StakeWeight = u64
type_synonym ValidatorId = "256 word"
type_synonym BlobId = "256 word"

type_synonym BlsPubkey = "384 word"
type_synonym BlsSig = "768 word"
type_synonym VrfProof = "640 word"
type_synonym VrfPubkey = "256 word"
type_synonym Hash32 = "256 word"

definition be_bytes :: "nat \<Rightarrow> 'a::len word \<Rightarrow> bytes" where
  "be_bytes n w = map (\<lambda>i. ucast (drop_bit (8 * (n - 1 - i)) w)) [0..<n]"

definition word_of_be :: "bytes \<Rightarrow> 'a::len word" where
  "word_of_be bs = fold (\<lambda>b w. push_bit 8 w OR ucast b) bs 0"

definition hash_zero :: Hash32 where
  "hash_zero = 0"

definition vrf_pubkey_is_zero :: "VrfPubkey \<Rightarrow> bool" where
  "vrf_pubkey_is_zero k \<longleftrightarrow> k = 0"

definition vrf_proof_zero :: VrfProof where
  "vrf_proof_zero = 0"

record BlsAggSig =
  as_sig :: BlsSig
  as_bitmap :: bytes

section \<open>DAG layer\<close>

record BlobRef =
  br_blob_id :: BlobId
  br_commitment :: Hash32
  br_size_bytes :: u64

record ChunkRef =
  cr_blob_id :: BlobId
  cr_index :: u32

record Vertex =
  v_round :: Round
  v_author :: ValidatorId
  v_parents :: "Hash32 list"
  v_blobs :: "BlobRef list"
  v_hash :: Hash32

record CertifiedVertex =
  cv_vertex :: Vertex
  cv_certificate :: BlsAggSig

record VertexProposal =
  vp_vertex :: Vertex
  vp_proposer_sig :: BlsSig

record VertexPartial =
  pt_vertex_hash :: Hash32
  pt_round :: Round
  pt_author :: ValidatorId
  pt_voter :: ValidatorId
  pt_sig :: BlsSig

section \<open>Micro-ordering outputs\<close>

record MicroCheckpoint =
  uc_anchor_round :: Round
  uc_anchor_author :: ValidatorId
  uc_anchor_hash :: Hash32
  uc_linearized :: "Hash32 list"
  uc_hash :: Hash32

record MicroQc =
  uq_checkpoint_hash :: Hash32
  uq_agg :: BlsAggSig

section \<open>Macro finality\<close>

record MacroCheckpoint =
  mc_height :: Height
  mc_epoch :: Epoch
  mc_parent :: Hash32
  mc_micro_root :: Hash32
  mc_hash :: Hash32

datatype AggregationMode = Mode0Flat | ModeASubnet | ModeBLeaderless

fun mode_discriminant :: "AggregationMode \<Rightarrow> u8" where
  "mode_discriminant Mode0Flat = 0"
| "mode_discriminant ModeASubnet = 1"
| "mode_discriminant ModeBLeaderless = 2"

record MacroQc =
  mq_checkpoint_hash :: Hash32
  mq_mode :: AggregationMode
  mq_agg :: BlsAggSig

record MacroProposal =
  mp_checkpoint :: MacroCheckpoint
  mp_proposer :: ValidatorId
  mp_vrf_proof :: VrfProof
  mp_proposer_sig :: BlsSig

record MacroHeader =
  mh_height :: Height
  mh_epoch :: Epoch
  mh_parent :: Hash32
  mh_checkpoint_hash :: Hash32
  mh_qc :: MacroQc

section \<open>Validators\<close>

record ValidatorIdentity =
  vi_asn :: "u32 option"
  vi_cloud :: "string option"
  vi_region :: "string option"

record ValidatorEntry =
  ve_id :: ValidatorId
  ve_bls_pubkey :: BlsPubkey
  ve_vrf_pubkey :: VrfPubkey
  ve_stake :: StakeWeight
  ve_identity :: ValidatorIdentity

record ValidatorSet =
  vs_epoch :: Epoch
  vs_entries :: "ValidatorEntry list"
  vs_total_stake :: StakeWeight

record DkgCommitment =
  dk_validator :: ValidatorId
  dk_epoch :: Epoch
  dk_bls_pubkey :: BlsPubkey
  dk_shares_root :: Hash32

section \<open>Slashing evidence\<close>

record MacroEquivocation =
  me_validator :: ValidatorId
  me_a :: "MacroCheckpoint \<times> BlsSig"
  me_b :: "MacroCheckpoint \<times> BlsSig"

record SurroundVote =
  sv_validator :: ValidatorId
  sv_a_source :: Epoch
  sv_a_target :: Epoch
  sv_a_sig :: BlsSig
  sv_a_checkpoint :: Hash32
  sv_b_source :: Epoch
  sv_b_target :: Epoch
  sv_b_sig :: BlsSig
  sv_b_checkpoint :: Hash32

record DoubleVote =
  dv_validator :: ValidatorId
  dv_target :: Epoch
  dv_a_checkpoint :: Hash32
  dv_a_sig :: BlsSig
  dv_b_checkpoint :: Hash32
  dv_b_sig :: BlsSig

record VertexEquivocation =
  vx_validator :: ValidatorId
  vx_a :: "Vertex \<times> BlsSig"
  vx_b :: "Vertex \<times> BlsSig"

definition from_proposals ::
    "ValidatorId \<Rightarrow> VertexProposal \<Rightarrow> VertexProposal \<Rightarrow> VertexEquivocation" where
  "from_proposals validator a b = \<lparr>
     vx_validator = validator,
     vx_a = (vp_vertex a, vp_proposer_sig a),
     vx_b = (vp_vertex b, vp_proposer_sig b) \<rparr>"

datatype SlashEvidence =
    EvMacroEquivocation MacroEquivocation
  | EvSurround SurroundVote
  | EvDoubleVote DoubleVote
  | EvVertexEquivocation VertexEquivocation

section \<open>Byte strings of words\<close>

lemma length_be_bytes [simp]: "length (be_bytes n w) = n"
  by (simp add: be_bytes_def)

lemma bit_be_bytes:
  fixes w :: "'a::len word"
  assumes "LENGTH('a) = 8 * n" "k < LENGTH('a)"
  shows "bit w k = bit (be_bytes n w ! (n - 1 - k div 8)) (k mod 8)"
proof -
  have n: "k div 8 < n" "n - 1 - k div 8 < n"
    using assms by auto
  then have "n - 1 - (n - 1 - k div 8) = k div 8"
    by simp
  moreover have "8 * (k div 8) + k mod 8 = k"
    by simp
  moreover have "k mod 8 < LENGTH(8)"
    by simp
  ultimately show ?thesis
    using n assms(2) unfolding be_bytes_def by (simp add: bit_ucast_iff bit_drop_bit_eq add.commute
        del: len_num0 len_bit0 len_bit1)
qed

text \<open>A fixed-size array is determined by its bytes.\<close>

lemma be_bytes_inj:
  fixes v w :: "'a::len word"
  assumes "LENGTH('a) = 8 * n" "be_bytes n v = be_bytes n w"
  shows "v = w"
  using assms by (intro bit_word_eqI) (metis bit_be_bytes)

text \<open>Reading a byte string back, most significant byte first.\<close>

lemma bit_word_of_be:
  assumes "8 * length bs \<le> LENGTH('a)"
  shows "bit (word_of_be bs :: 'a::len word) k \<longleftrightarrow>
    k < 8 * length bs \<and> bit (bs ! (length bs - 1 - k div 8)) (k mod 8)"
  using assms
proof (induction bs arbitrary: k rule: rev_induct)
  case (snoc b bs)
  have step: "word_of_be (bs @ [b]) = (push_bit 8 (word_of_be bs) OR ucast b :: 'a word)"
    by (simp add: word_of_be_def)
  show ?case
  proof (cases "k < 8")
    case True
    then show ?thesis
      using snoc.prems by (auto simp: step bit_simps)
  next
    case False
    then have k: "(k - 8) div 8 = k div 8 - 1" "(k - 8) mod 8 = k mod 8" "\<not> bit b k" "0 < k div 8"
      by (auto simp: le_div_geq le_mod_geq dest: bit_imp_le_length)
    have lt: "k - 8 < 8 * length bs \<longleftrightarrow> k < 8 * length (bs @ [b])"
      using False by auto
    have len: "k < LENGTH('a)" if "bit (word_of_be bs :: 'a word) (k - 8)"
      using that snoc.IH [of "k - 8"] snoc.prems by auto
    have "bit (word_of_be (bs @ [b]) :: 'a word) k = bit (word_of_be bs :: 'a word) (k - 8)"
      using False k(3) len by (auto simp: step bit_or_iff bit_push_bit_iff bit_ucast_iff)
    also have "\<dots> \<longleftrightarrow> k < 8 * length (bs @ [b]) \<and> bit (bs ! (length bs - 1 - (k div 8 - 1))) (k mod 8)"
      using snoc lt k by simp
    also have "length bs - 1 - (k div 8 - 1) = length (bs @ [b]) - 1 - k div 8"
      using k(4) by simp
    also have "k < 8 * length (bs @ [b]) \<and> bit (bs ! (length (bs @ [b]) - 1 - k div 8)) (k mod 8) \<longleftrightarrow>
        k < 8 * length (bs @ [b]) \<and> bit ((bs @ [b]) ! (length (bs @ [b]) - 1 - k div 8)) (k mod 8)"
      using k(4) by (auto simp: nth_append)
    finally show ?thesis .
  qed
qed (simp add: word_of_be_def)

lemma word_of_be_bytes:
  fixes w :: "'a::len word"
  assumes "LENGTH('a) = 8 * n"
  shows "word_of_be (be_bytes n w) = w"
  using assms bit_be_bytes [where w = w] by (intro bit_word_eqI) (simp add: bit_word_of_be)

end
