(* ===== verification/Crypto_Lib.thy ===== *)
theory Crypto_Lib
  imports Proto_Types "HOL-Library.Multiset"
begin

text \<open>
  \<open>crates/crypto\<close>: the domain-separation tags, hashing, signer bitmaps, the BLS wrappers and the
  RFC 9381 VRF. The packages the crate calls (\<open>blake3\<close>, \<open>sha2\<close>, \<open>blst\<close>, \<open>curve25519-dalek\<close>,
  \<open>borsh\<close>) are the fields of the record \<open>crypto_lib\<close>; their in-memory objects (keys, signatures,
  curve points, scalars) have the opaque type \<open>'x\<close>.
\<close>

section \<open>Third-party packages\<close>

record 'x crypto_lib =
  blake3_hash :: "bytes \<Rightarrow> Hash32"
  sha256_digest :: "bytes \<Rightarrow> Hash32"
  sha512_digest :: "bytes \<Rightarrow> bytes"
  blst_key_gen :: "bytes \<Rightarrow> 'x option"
  blst_sk_to_pk :: "'x \<Rightarrow> 'x"
  blst_sign :: "'x \<Rightarrow> bytes \<Rightarrow> bytes \<Rightarrow> 'x"
  blst_pk_compress :: "'x \<Rightarrow> BlsPubkey"
  blst_pk_uncompress :: "BlsPubkey \<Rightarrow> 'x option"
  blst_sig_compress :: "'x \<Rightarrow> BlsSig"
  blst_sig_uncompress :: "BlsSig \<Rightarrow> 'x option"
  blst_sig_verify :: "'x \<Rightarrow> bytes \<Rightarrow> bytes \<Rightarrow> 'x \<Rightarrow> bool"
  blst_agg_sig :: "'x list \<Rightarrow> 'x option"
  blst_agg_pk :: "'x list \<Rightarrow> 'x option"
  ed_decompress :: "bytes \<Rightarrow> 'x option"
  ed_compress :: "'x \<Rightarrow> bytes"
  ed_is_identity :: "'x \<Rightarrow> bool"
  ed_is_small_order :: "'x \<Rightarrow> bool"
  ed_mul_by_cofactor :: "'x \<Rightarrow> 'x"
  ed_mul :: "'x \<Rightarrow> 'x \<Rightarrow> 'x"
  ed_sub :: "'x \<Rightarrow> 'x \<Rightarrow> 'x"
  ed_basepoint :: 'x
  sc_from_bytes_mod_order :: "bytes \<Rightarrow> 'x"
  sc_from_bytes_mod_order_wide :: "bytes \<Rightarrow> 'x"
  sc_from_canonical_bytes :: "bytes \<Rightarrow> 'x option"
  sc_to_bytes :: "'x \<Rightarrow> bytes"
  sc_add :: "'x \<Rightarrow> 'x \<Rightarrow> 'x"
  sc_mul :: "'x \<Rightarrow> 'x \<Rightarrow> 'x"
  sc_eq :: "'x \<Rightarrow> 'x \<Rightarrow> bool"
  borsh_signable_vertex ::
    "Round \<Rightarrow> ValidatorId \<Rightarrow> Hash32 list \<Rightarrow> BlobRef list \<Rightarrow> Hash32 \<Rightarrow> bytes"
  borsh_macro_checkpoint :: "MacroCheckpoint \<Rightarrow> bytes"
  borsh_vote_payload :: "Epoch \<Rightarrow> Epoch \<Rightarrow> Hash32 \<Rightarrow> bytes"
  borsh_hash_vec :: "Hash32 list \<Rightarrow> bytes"
  borsh_checkpoint_preimage :: "u64 \<Rightarrow> u64 \<Rightarrow> Hash32 \<Rightarrow> Hash32 \<Rightarrow> bytes"

section \<open>Errors\<close>

datatype crypto_error =
    BlsVerifyFailed
  | BlsAggregateFailed string
  | PopInvalid
  | VrfVerifyFailed
  | BitmapLength usize usize
  | SortitionRejected
  | TypesError

section \<open>Domain-separation tags\<close>

definition ascii :: "string \<Rightarrow> bytes" where
  "ascii s = map of_char s"

definition DST_CONTENT_HASH :: bytes where
  "DST_CONTENT_HASH = ascii ''lua-dag/v1/content''"
definition DST_MICRO_QC :: bytes where
  "DST_MICRO_QC = ascii ''lua-dag/v1/micro-qc''"
definition DST_MACRO_PROPOSAL :: bytes where
  "DST_MACRO_PROPOSAL = ascii ''lua-dag/v1/macro-proposal''"
definition DST_MACRO_VOTE :: bytes where
  "DST_MACRO_VOTE = ascii ''lua-dag/v1/macro-vote''"
definition DST_BEACON :: bytes where
  "DST_BEACON = ascii ''lua-dag/v1/beacon''"
definition DST_SUBNET_ASSIGN :: bytes where
  "DST_SUBNET_ASSIGN = ascii ''lua-dag/v1/subnet-assign''"
definition DST_POP :: bytes where
  "DST_POP = ascii ''lua-dag/v1/pop''"
definition DST_DEVNET_PEER_IDENTITY :: bytes where
  "DST_DEVNET_PEER_IDENTITY = ascii ''lua-dag/v1/devnet-peer-identity''"
definition DST_SIM_VERTEX_HASH :: bytes where
  "DST_SIM_VERTEX_HASH = ascii ''lua-dag/v1/sim-vertex-hash''"
definition DST_MACRO_CHECKPOINT :: bytes where
  "DST_MACRO_CHECKPOINT = ascii ''lua-dag/v1/macro-checkpoint''"
definition DST_MACRO_MICRO_ROOT :: bytes where
  "DST_MACRO_MICRO_ROOT = ascii ''lua-dag/v1/macro-micro-root''"
definition DST_VALIDATOR_BLS_PARTIAL :: bytes where
  "DST_VALIDATOR_BLS_PARTIAL = ascii ''lua-dag/v1/validator-bls-partial''"
definition DST_MACRO_PROPOSER_SIG :: bytes where
  "DST_MACRO_PROPOSER_SIG = ascii ''lua-dag/v1/macro-proposer-sig''"
definition DST_VERTEX_HASH :: bytes where
  "DST_VERTEX_HASH = ascii ''lua-dag/v1/vertex-hash''"
definition DST_VERTEX_CERT :: bytes where
  "DST_VERTEX_CERT = ascii ''lua-dag/v1/vertex-cert''"
definition DST_BLOB_ID :: bytes where
  "DST_BLOB_ID = ascii ''lua-dag/v1/blob-id''"
definition DST_BLOB_COMMIT :: bytes where
  "DST_BLOB_COMMIT = ascii ''lua-dag/v1/blob-commit''"
definition DST_BLOB_SHARD :: bytes where
  "DST_BLOB_SHARD = ascii ''lua-dag/v1/blob-shard''"
definition DST_BLOB_RS_ROOT :: bytes where
  "DST_BLOB_RS_ROOT = ascii ''lua-dag/v1/blob-rs-root''"
definition DST_BLOB_MERKLE_NODE :: bytes where
  "DST_BLOB_MERKLE_NODE = ascii ''lua-dag/v1/blob-merkle-node''"
definition DST_VERTEX_PROPOSAL :: bytes where
  "DST_VERTEX_PROPOSAL = ascii ''lua-dag/v1/vertex-proposal''"

lemmas dst_defs =
  DST_CONTENT_HASH_def DST_MICRO_QC_def DST_MACRO_PROPOSAL_def DST_MACRO_VOTE_def DST_BEACON_def
  DST_SUBNET_ASSIGN_def DST_POP_def DST_DEVNET_PEER_IDENTITY_def DST_SIM_VERTEX_HASH_def
  DST_MACRO_CHECKPOINT_def DST_MACRO_MICRO_ROOT_def DST_VALIDATOR_BLS_PARTIAL_def
  DST_MACRO_PROPOSER_SIG_def DST_VERTEX_HASH_def DST_VERTEX_CERT_def DST_BLOB_ID_def
  DST_BLOB_COMMIT_def DST_BLOB_SHARD_def DST_BLOB_RS_ROOT_def DST_BLOB_MERKLE_NODE_def
  DST_VERTEX_PROPOSAL_def

definition dst_registry :: "bytes list" where
  "dst_registry = [DST_CONTENT_HASH, DST_MICRO_QC, DST_MACRO_PROPOSAL, DST_MACRO_VOTE, DST_BEACON,
     DST_SUBNET_ASSIGN, DST_POP, DST_DEVNET_PEER_IDENTITY, DST_SIM_VERTEX_HASH,
     DST_MACRO_CHECKPOINT, DST_MACRO_MICRO_ROOT, DST_VALIDATOR_BLS_PARTIAL,
     DST_MACRO_PROPOSER_SIG, DST_VERTEX_HASH, DST_VERTEX_CERT, DST_BLOB_ID, DST_BLOB_COMMIT,
     DST_BLOB_SHARD, DST_BLOB_RS_ROOT, DST_BLOB_MERKLE_NODE, DST_VERTEX_PROPOSAL]"

section \<open>Hashing\<close>

text \<open>What the hasher absorbs: the tag, a zero separator, the data.\<close>

definition dst_preimage :: "bytes \<Rightarrow> bytes \<Rightarrow> bytes" where
  "dst_preimage dst data = dst @ [0] @ data"

definition blake3_with_dst :: "'x crypto_lib \<Rightarrow> bytes \<Rightarrow> bytes \<Rightarrow> Hash32" where
  "blake3_with_dst L dst data = blake3_hash L (dst_preimage dst data)"

definition sha256_with_dst :: "'x crypto_lib \<Rightarrow> bytes \<Rightarrow> bytes \<Rightarrow> Hash32" where
  "sha256_with_dst L dst data = sha256_digest L (dst_preimage dst data)"

definition fixture_bls_sig :: "'x crypto_lib \<Rightarrow> bytes \<Rightarrow> bytes list \<Rightarrow> BlsSig" where
  "fixture_bls_sig L dst parts = (let buf = concat parts in
     word_of_be (concat (map (\<lambda>i. be_bytes 32 (blake3_with_dst L dst (buf @ [of_nat i]))) [0..<3])))"

section \<open>Signer bitmaps\<close>

record Bitmap =
  bm_bytes :: bytes
  bm_bits :: usize

definition bm_new :: "usize \<Rightarrow> Bitmap" where
  "bm_new bits = \<lparr> bm_bytes = replicate (div_ceil bits 8) 0, bm_bits = bits \<rparr>"

definition bm_from_bytes :: "bytes \<Rightarrow> usize \<Rightarrow> (crypto_error, Bitmap) outcome" where
  "bm_from_bytes bs bits =
     (if length bs \<noteq> div_ceil bits 8 then Err (BitmapLength (length bs * 8) bits)
      else Ok \<lparr> bm_bytes = bs, bm_bits = bits \<rparr>)"

definition bm_count_ones :: "Bitmap \<Rightarrow> usize" where
  "bm_count_ones b = sum_list (map (\<lambda>w. length (filter (bit w) [0..<8])) (bm_bytes b))"

definition bm_set :: "usize \<Rightarrow> Bitmap \<Rightarrow> (crypto_error, Bitmap) outcome" where
  "bm_set i b =
     (if bm_bits b \<le> i then Err (BitmapLength (bm_bits b) (i + 1))
      else if length (bm_bytes b) \<le> i div 8 then Panic ''index out of bounds''
      else Ok (b\<lparr>bm_bytes := set_slot (bm_bytes b) i\<rparr>))"

definition bm_test :: "usize \<Rightarrow> Bitmap \<Rightarrow> (crypto_error, bool) outcome" where
  "bm_test i b =
     (if bm_bits b \<le> i then Err (BitmapLength (bm_bits b) (i + 1))
      else if length (bm_bytes b) \<le> i div 8 then Panic ''index out of bounds''
      else Ok (test_slot (bm_bytes b) i))"

section \<open>BLS signatures\<close>

fun mapM_out :: "('a \<Rightarrow> ('e, 'b) outcome) \<Rightarrow> 'a list \<Rightarrow> ('e, 'b list) outcome" where
  "mapM_out f [] = Ok []"
| "mapM_out f (x # xs) =
     bind_out (f x) (\<lambda>y. bind_out (mapM_out f xs) (\<lambda>ys. Ok (y # ys)))"

definition sk_from_ikm :: "'x crypto_lib \<Rightarrow> bytes \<Rightarrow> (crypto_error, 'x) outcome" where
  "sk_from_ikm L ikm = ok_or (BlsAggregateFailed ''key_gen'') (blst_key_gen L ikm)"

definition pk_to_bytes :: "'x crypto_lib \<Rightarrow> 'x \<Rightarrow> BlsPubkey" where
  "pk_to_bytes L pk = blst_pk_compress L pk"

definition pk_from_bytes :: "'x crypto_lib \<Rightarrow> BlsPubkey \<Rightarrow> (crypto_error, 'x) outcome" where
  "pk_from_bytes L b = ok_or BlsVerifyFailed (blst_pk_uncompress L b)"

definition generate_pop :: "'x crypto_lib \<Rightarrow> 'x \<Rightarrow> BlsSig" where
  "generate_pop L sk = (let pk_bytes = pk_to_bytes L (blst_sk_to_pk L sk) in
     blst_sig_compress L (blst_sign L sk (be_bytes 48 pk_bytes) DST_POP))"

definition verify_pop :: "'x crypto_lib \<Rightarrow> 'x \<Rightarrow> BlsSig \<Rightarrow> (crypto_error, unit) outcome" where
  "verify_pop L pk pop = (let pk_bytes = pk_to_bytes L pk in
     bind_out (ok_or PopInvalid (blst_sig_uncompress L pop)) (\<lambda>sig.
       if blst_sig_verify L sig (be_bytes 48 pk_bytes) DST_POP pk then Ok () else Err PopInvalid))"

definition bls_sign :: "'x crypto_lib \<Rightarrow> 'x \<Rightarrow> bytes \<Rightarrow> bytes \<Rightarrow> BlsSig" where
  "bls_sign L sk dst msg = blst_sig_compress L (blst_sign L sk msg dst)"

definition bls_verify :: "'x crypto_lib \<Rightarrow> 'x \<Rightarrow> bytes \<Rightarrow> bytes \<Rightarrow> BlsSig \<Rightarrow>
    (crypto_error, unit) outcome" where
  "bls_verify L pk dst msg sig =
     bind_out (ok_or BlsVerifyFailed (blst_sig_uncompress L sig)) (\<lambda>s.
       if blst_sig_verify L s msg dst pk then Ok () else Err BlsVerifyFailed)"

definition aggregate_sigs :: "'x crypto_lib \<Rightarrow> BlsSig list \<Rightarrow> (crypto_error, BlsSig) outcome" where
  "aggregate_sigs L sigs =
     (if sigs = [] then Err (BlsAggregateFailed ''empty signature set'')
      else bind_out (mapM_out (\<lambda>s. ok_or (BlsAggregateFailed ''invalid sig'')
               (blst_sig_uncompress L s)) sigs) (\<lambda>parsed.
           bind_out (ok_or (BlsAggregateFailed ''aggregate'') (blst_agg_sig L parsed)) (\<lambda>agg.
           Ok (blst_sig_compress L agg))))"

definition verify_aggregate :: "'x crypto_lib \<Rightarrow> 'x list \<Rightarrow> bytes \<Rightarrow> bytes \<Rightarrow> BlsSig \<Rightarrow>
    (crypto_error, unit) outcome" where
  "verify_aggregate L pks dst msg agg =
     (if pks = [] then Err (BlsAggregateFailed ''empty pubkey set'')
      else bind_out (ok_or BlsVerifyFailed (blst_sig_uncompress L agg)) (\<lambda>agg_sig.
           bind_out (ok_or (BlsAggregateFailed ''aggregate pk'') (blst_agg_pk L pks)) (\<lambda>agg_pk.
           if blst_sig_verify L agg_sig msg dst agg_pk then Ok () else Err BlsVerifyFailed)))"

section \<open>ECVRF (RFC 9381, edwards25519, SHA-512, try and increment)\<close>

record 'x VrfKey =
  vk_sk_scalar :: 'x
  vk_nonce :: bytes
  vk_pk_compressed :: bytes

record 'x ParsedProof =
  pp_gamma :: 'x
  pp_c :: 'x
  pp_s :: 'x

definition expand_secret_key :: "'x crypto_lib \<Rightarrow> bytes \<Rightarrow> 'x \<times> bytes" where
  "expand_secret_key L seed = (let
     hash = sha512_digest L seed;
     lower = take 32 hash;
     upper = drop 32 hash;
     lower = lower[0 := lower ! 0 AND 248];
     lower = lower[31 := lower ! 31 AND 63];
     lower = lower[31 := lower ! 31 OR 64]
   in (sc_from_bytes_mod_order L lower, upper))"

definition vrf_key_from_seed :: "'x crypto_lib \<Rightarrow> bytes \<Rightarrow> 'x VrfKey" where
  "vrf_key_from_seed L seed = (let
     (sk_scalar, nonce) = expand_secret_key L seed;
     pk_point = ed_mul L sk_scalar (ed_basepoint L)
   in \<lparr> vk_sk_scalar = sk_scalar, vk_nonce = nonce, vk_pk_compressed = ed_compress L pk_point \<rparr>)"

definition is_valid_curve_point :: "'x crypto_lib \<Rightarrow> 'x \<Rightarrow> bool" where
  "is_valid_curve_point L p \<longleftrightarrow> \<not> ed_is_identity L p \<and> \<not> ed_is_small_order L p"

definition interpret_hash_value_as_a_point :: "'x crypto_lib \<Rightarrow> bytes \<Rightarrow> 'x option" where
  "interpret_hash_value_as_a_point L hash =
     (if list_all (\<lambda>b. b = 255) (take 30 (drop 1 hash))
         \<and> (hash ! 31 = 255 \<or> hash ! 31 = 127)
         \<and> List.member [1, 3, 4, 5, 9, 10, 13, 14, 15, 16] (0 - hash ! 0)
      then None else ed_decompress L hash)"

fun encode_to_curve_from :: "'x crypto_lib \<Rightarrow> bytes \<Rightarrow> bytes \<Rightarrow> nat list \<Rightarrow> 'x option" where
  "encode_to_curve_from L pk alpha [] = None"
| "encode_to_curve_from L pk alpha (ctr # ctrs) = (let
     hash = sha512_digest L ([3, 1] @ pk @ alpha @ [of_nat ctr, 0])
   in case interpret_hash_value_as_a_point L (take 32 hash) of
        None \<Rightarrow> encode_to_curve_from L pk alpha ctrs
      | Some point \<Rightarrow> (let result = ed_mul_by_cofactor L point in
          if is_valid_curve_point L result then Some result
          else encode_to_curve_from L pk alpha ctrs))"

definition encode_to_curve :: "'x crypto_lib \<Rightarrow> bytes \<Rightarrow> bytes \<Rightarrow> 'x option" where
  "encode_to_curve L pk alpha = encode_to_curve_from L pk alpha [0..<256]"

definition scalar_from_nonce :: "'x crypto_lib \<Rightarrow> bytes \<Rightarrow> bytes \<Rightarrow> 'x" where
  "scalar_from_nonce L nonce h_bytes =
     sc_from_bytes_mod_order_wide L (sha512_digest L (nonce @ h_bytes))"

definition hash_points :: "'x crypto_lib \<Rightarrow> bytes \<Rightarrow> bytes \<Rightarrow> 'x list \<Rightarrow> 'x" where
  "hash_points L pk h_bytes points = (let
     hash = sha512_digest L ([3, 2] @ pk @ h_bytes @ concat (map (ed_compress L) points) @ [0])
   in sc_from_bytes_mod_order L (take 16 hash @ replicate 16 0))"

definition gamma_to_hash32 :: "'x crypto_lib \<Rightarrow> 'x \<Rightarrow> Hash32" where
  "gamma_to_hash32 L gamma = word_of_be (take 32 (sha512_digest L
     ([3, 3] @ ed_compress L (ed_mul_by_cofactor L gamma) @ [0])))"

definition parse_proof :: "'x crypto_lib \<Rightarrow> VrfProof \<Rightarrow> 'x ParsedProof option" where
  "parse_proof L proof = (let bs = be_bytes 80 proof in
     case ed_decompress L (take 32 bs) of None \<Rightarrow> None | Some gamma \<Rightarrow>
     if \<not> is_valid_curve_point L gamma then None
     else case sc_from_canonical_bytes L (drop 48 bs) of None \<Rightarrow> None | Some s \<Rightarrow>
       Some \<lparr> pp_gamma = gamma,
              pp_c = sc_from_bytes_mod_order L (take 16 (drop 32 bs) @ replicate 16 0),
              pp_s = s \<rparr>)"

definition pack_proof :: "'x crypto_lib \<Rightarrow> 'x \<Rightarrow> 'x \<Rightarrow> 'x \<Rightarrow> VrfProof" where
  "pack_proof L gamma c s =
     word_of_be (ed_compress L gamma @ take 16 (sc_to_bytes L c) @ sc_to_bytes L s)"

definition prove_internal :: "'x crypto_lib \<Rightarrow> 'x \<Rightarrow> bytes \<Rightarrow> bytes \<Rightarrow> bytes \<Rightarrow>
    (crypto_error, VrfProof) outcome" where
  "prove_internal L sk nonce pk alpha = (case encode_to_curve L pk alpha of
     None \<Rightarrow> Panic ''hash-to-curve failed after 256 tries''
   | Some h_point \<Rightarrow> (let
       h_bytes = ed_compress L h_point;
       k = scalar_from_nonce L nonce h_bytes;
       gamma = ed_mul L sk h_point;
       u = ed_mul L k (ed_basepoint L);
       v = ed_mul L k h_point;
       c = hash_points L pk h_bytes [gamma, u, v];
       s = sc_add L k (sc_mul L c sk)
     in Ok (pack_proof L gamma c s)))"

definition verify_internal ::
    "'x crypto_lib \<Rightarrow> 'x \<Rightarrow> bytes \<Rightarrow> bytes \<Rightarrow> 'x ParsedProof \<Rightarrow> bool" where
  "verify_internal L pk_point pk alpha proof = (case encode_to_curve L pk alpha of
     None \<Rightarrow> False
   | Some h_point \<Rightarrow> (let
       h_bytes = ed_compress L h_point;
       u = ed_sub L (ed_mul L (pp_s proof) (ed_basepoint L)) (ed_mul L (pp_c proof) pk_point);
       v = ed_sub L (ed_mul L (pp_s proof) h_point) (ed_mul L (pp_c proof) (pp_gamma proof));
       c_prime = hash_points L pk h_bytes [pp_gamma proof, u, v]
     in sc_eq L (pp_c proof) c_prime))"

definition decompress_pubkey :: "'x crypto_lib \<Rightarrow> bytes \<Rightarrow> 'x option" where
  "decompress_pubkey L pk = (case ed_decompress L pk of None \<Rightarrow> None
     | Some point \<Rightarrow> if ed_is_small_order L point then None else Some point)"

definition vrf_prove :: "'x crypto_lib \<Rightarrow> 'x VrfKey \<Rightarrow> bytes \<Rightarrow>
    (crypto_error, VrfProof \<times> Hash32) outcome" where
  "vrf_prove L key alpha =
     bind_out (prove_internal L (vk_sk_scalar key) (vk_nonce key) (vk_pk_compressed key) alpha)
       (\<lambda>proof. case parse_proof L proof of
          None \<Rightarrow> Panic ''locally generated proof must parse''
        | Some parsed \<Rightarrow> Ok (proof, gamma_to_hash32 L (pp_gamma parsed)))"

definition vrf_verify :: "'x crypto_lib \<Rightarrow> VrfPubkey \<Rightarrow> bytes \<Rightarrow> VrfProof \<Rightarrow>
    (crypto_error, Hash32) outcome" where
  "vrf_verify L pk alpha proof = (let pk_bytes = be_bytes 32 pk in
     bind_out (ok_or VrfVerifyFailed (decompress_pubkey L pk_bytes)) (\<lambda>pk_point.
     bind_out (ok_or VrfVerifyFailed (parse_proof L proof)) (\<lambda>parsed.
     if \<not> verify_internal L pk_point pk_bytes alpha parsed then Err VrfVerifyFailed
     else Ok (gamma_to_hash32 L (pp_gamma parsed)))))"

section \<open>Domain separation\<close>

lemma distinct_dst_registry: "distinct dst_registry"
  unfolding dst_registry_def dst_defs ascii_def by code_simp

lemma dst_registry_zero_free: "d \<in> set dst_registry \<Longrightarrow> 0 \<notin> set d"
proof -
  have "list_all (\<lambda>d. 0 \<notin> set d) dst_registry"
    unfolding dst_registry_def dst_defs ascii_def by code_simp
  then show "d \<in> set dst_registry \<Longrightarrow> 0 \<notin> set d"
    by (simp add: list_all_iff)
qed

text \<open>The separator byte makes the tagged preimage uniquely decodable for zero-free tags.\<close>

lemma dst_preimage_inj:
  assumes "0 \<notin> set d" "0 \<notin> set d'" "dst_preimage d m = dst_preimage d' m'"
  shows "d = d' \<and> m = m'"
proof -
  have decode: "takeWhile (\<lambda>b. b \<noteq> 0) (dst_preimage e n) = e \<and>
      dropWhile (\<lambda>b. b \<noteq> 0) (dst_preimage e n) = 0 # n" if "0 \<notin> set e" for e n
    using that by (auto simp: dst_preimage_def takeWhile_append2 dropWhile_append2
        takeWhile_tail dropWhile_append)
  show ?thesis
    using decode [OF assms(1)] decode [OF assms(2)] assms(3) by (metis list.inject)
qed

section \<open>Bitmaps\<close>

definition bm_wf :: "Bitmap \<Rightarrow> bool" where
  "bm_wf b \<longleftrightarrow> length (bm_bytes b) = div_ceil (bm_bits b) 8"

lemma bm_wf_new [simp]: "bm_wf (bm_new n)"
  by (simp add: bm_wf_def bm_new_def)

lemma bm_bits_new [simp]: "bm_bits (bm_new n) = n"
  by (simp add: bm_new_def)

lemma bm_from_bytes_Ok_iff [outcome_simps]:
  "bm_from_bytes bs n = Ok b \<longleftrightarrow> length bs = div_ceil n 8 \<and> b = \<lparr> bm_bytes = bs, bm_bits = n \<rparr>"
  by (auto simp: bm_from_bytes_def)

lemma bm_set_wf:
  assumes "bm_wf b"
  shows "bm_set i b = (if i < bm_bits b then Ok (b\<lparr>bm_bytes := set_slot (bm_bytes b) i\<rparr>)
    else Err (BitmapLength (bm_bits b) (i + 1)))"
  using assms slot_byte_less [of i "bm_bits b"] by (auto simp: bm_set_def bm_wf_def)

lemma bm_test_wf:
  assumes "bm_wf b"
  shows "bm_test i b = (if i < bm_bits b then Ok (test_slot (bm_bytes b) i)
    else Err (BitmapLength (bm_bits b) (i + 1)))"
  using assms slot_byte_less [of i "bm_bits b"] by (auto simp: bm_test_def bm_wf_def)

lemma bm_wf_update [simp]: "bm_wf (b\<lparr>bm_bytes := set_slot (bm_bytes b) i\<rparr>) = bm_wf b"
  by (simp add: bm_wf_def)

section \<open>Sequencing and aggregation\<close>

lemma mapM_out_Ok_iff [outcome_simps]:
  "mapM_out f xs = Ok ys \<longleftrightarrow> list_all2 (\<lambda>x y. f x = Ok y) xs ys"
  by (induction xs arbitrary: ys) (auto simp: bind_out_Ok_iff list_all2_Cons1)

lemma mapM_out_map: "(\<And>x. x \<in> set xs \<Longrightarrow> f x = Ok (g x)) \<Longrightarrow> mapM_out f xs = Ok (map g xs)"
  by (induction xs) auto

text \<open>
  What the code relies on in \<open>blst\<close>: compressing and uncompressing a signature is lossless,
  aggregates are sums and do not depend on the order of their operands, and signatures over one
  message that verify one by one aggregate to a signature that verifies under
  the aggregate key. The last law is stated for the public keys of a set \<open>K\<close> no subset of which
  sums to the point at infinity (which \<open>blst\<close> rejects).
\<close>

definition bls_aggregation :: "'x crypto_lib \<Rightarrow> 'x set \<Rightarrow> bool" where
  "bls_aggregation L K \<longleftrightarrow>
     (\<forall>s. blst_sig_uncompress L (blst_sig_compress L s) = Some s) \<and>
     (\<forall>xs ys. mset xs = mset ys \<longrightarrow>
        blst_agg_sig L xs = blst_agg_sig L ys \<and> blst_agg_pk L xs = blst_agg_pk L ys) \<and>
     (\<forall>sigs pks msg dst. sigs \<noteq> [] \<and> distinct pks \<and> set pks \<subseteq> K \<and>
        list_all2 (\<lambda>s pk. blst_sig_verify L s msg dst pk) sigs pks \<longrightarrow>
        (\<exists>agg apk. blst_agg_sig L sigs = Some agg \<and> blst_agg_pk L pks = Some apk \<and>
           blst_sig_verify L agg msg dst apk))"

lemma bls_aggregationD:
  assumes "bls_aggregation L K"
  shows "blst_sig_uncompress L (blst_sig_compress L s) = Some s"
    and "mset xs = mset ys \<Longrightarrow> blst_agg_pk L xs = blst_agg_pk L ys"
    and "sigs \<noteq> [] \<Longrightarrow> distinct pks \<Longrightarrow> set pks \<subseteq> K \<Longrightarrow>
      list_all2 (\<lambda>s pk. blst_sig_verify L s msg dst pk) sigs pks \<Longrightarrow>
      \<exists>agg apk. blst_agg_sig L sigs = Some agg \<and> blst_agg_pk L pks = Some apk \<and>
        blst_sig_verify L agg msg dst apk"
  using assms unfolding bls_aggregation_def by blast+

lemma bls_verify_Ok_iff: "bls_verify L pk dst msg sig = Ok () \<longleftrightarrow>
    (\<exists>s. blst_sig_uncompress L sig = Some s \<and> blst_sig_verify L s msg dst pk)"
  by (auto simp: bls_verify_def bind_out_Ok_iff ok_or_Ok_iff split: if_splits)

lemma aggregate_then_verify:
  assumes agg: "bls_aggregation L K" and pks: "distinct pks" "set pks \<subseteq> K"
    and ver: "list_all2 (\<lambda>sig pk. bls_verify L pk dst msg sig = Ok ()) sigs pks"
    and ne: "sigs \<noteq> []" and perm: "mset pks' = mset pks"
  shows "\<exists>a. aggregate_sigs L sigs = Ok a \<and> verify_aggregate L pks' dst msg a = Ok ()"
proof -
  define us where "us = map (\<lambda>s. the (blst_sig_uncompress L s)) sigs"
  have un: "\<And>s. s \<in> set sigs \<Longrightarrow> blst_sig_uncompress L s = Some (the (blst_sig_uncompress L s))"
    using ver by (auto simp: list_all2_conv_all_nth in_set_conv_nth bls_verify_Ok_iff)
  then have parsed: "mapM_out (\<lambda>s. ok_or (BlsAggregateFailed ''invalid sig'')
      (blst_sig_uncompress L s)) sigs = Ok us"
    unfolding us_def by (intro mapM_out_map) (metis ok_or_simps(2))
  have vv: "list_all2 (\<lambda>s pk. blst_sig_verify L s msg dst pk) us pks"
    using ver unfolding us_def list_all2_map1
    by (rule list_all2_mono) (auto simp: bls_verify_Ok_iff)
  then obtain a apk where "blst_agg_sig L us = Some a" "blst_agg_pk L pks = Some apk"
      "blst_sig_verify L a msg dst apk"
    using bls_aggregationD(3) [OF agg _ pks vv] ne by (auto simp: us_def)
  moreover have "pks' \<noteq> []"
    using ver ne perm by auto
  moreover have "blst_agg_pk L pks' = blst_agg_pk L pks"
    by (rule bls_aggregationD(2) [OF agg perm])
  moreover have "blst_sig_uncompress L (blst_sig_compress L a) = Some a"
    by (rule bls_aggregationD(1) [OF agg])
  ultimately show ?thesis
    using ne parsed by (simp add: aggregate_sigs_def verify_aggregate_def)
qed

lemma no_panic_mapM: "(\<And>x. no_panic (f x)) \<Longrightarrow> no_panic (mapM_out f xs)"
  by (induction xs) (auto intro!: no_panic_bind)

lemma no_panic_aggregate [simp]: "no_panic (aggregate_sigs L sigs)"
  by (auto simp: aggregate_sigs_def intro!: no_panic_bind no_panic_mapM)

lemma no_panic_verify_aggregate [simp]: "no_panic (verify_aggregate L pks dst msg sig)"
  by (auto simp: verify_aggregate_def intro!: no_panic_bind)

end
