(* ===== verification/Float64.thy ===== *)
theory Float64
  imports Complex_Main Lua_Prelude
begin

text \<open>
  The \<open>f64\<close> arithmetic that leader election uses: IEEE 754 binary64 values as exact rationals,
  infinities and NaN, every operation rounding its exact result to nearest, ties to even. The sign
  of zero is not kept: the sources never divide by a zero and compare zeros as equal.
\<close>

datatype f64 = Fin rat | PInf | NInf | NaN

section \<open>Rounding\<close>

definition pow2 :: "int \<Rightarrow> rat" where
  "pow2 e = (if 0 \<le> e then 2 ^ nat e else 1 / 2 ^ nat (- e))"

text \<open>The exponent of a positive rational: \<open>pow2 (ilog2 q) \<le> q < pow2 (ilog2 q + 1)\<close>.\<close>

function int_bits :: "int \<Rightarrow> int" where
  "int_bits n = (if n \<le> 0 then 0 else 1 + int_bits (n div 2))"
  by auto
termination by (relation "measure nat") auto

declare int_bits.simps [simp del]

definition ilog2 :: "rat \<Rightarrow> int" where
  "ilog2 q = (let (n, d) = quotient_of q;
      e = int_bits n - int_bits d
    in if pow2 e \<le> q then e else e - 1)"

definition round_half_even :: "rat \<Rightarrow> int" where
  "round_half_even q = (let f = \<lfloor>q\<rfloor>; r = q - of_int f in
     if r < 1 / 2 then f else if 1 / 2 < r then f + 1 else if even f then f else f + 1)"

definition f64_round :: "rat \<Rightarrow> f64" where
  "f64_round q = (if q = 0 then Fin 0 else let
      ulp = pow2 (max (ilog2 \<bar>q\<bar> - 52) (- 1074));
      r = of_int (round_half_even (q / ulp)) * ulp
    in if pow2 1024 \<le> r then PInf else if r \<le> - pow2 1024 then NInf else Fin r)"

section \<open>Operations\<close>

fun f64_lt :: "f64 \<Rightarrow> f64 \<Rightarrow> bool" where
  "f64_lt (Fin a) (Fin b) = (a < b)"
| "f64_lt NInf (Fin b) = True"
| "f64_lt NInf PInf = True"
| "f64_lt (Fin a) PInf = True"
| "f64_lt _ _ = False"

fun f64_eq :: "f64 \<Rightarrow> f64 \<Rightarrow> bool" where
  "f64_eq (Fin a) (Fin b) = (a = b)"
| "f64_eq PInf PInf = True"
| "f64_eq NInf NInf = True"
| "f64_eq _ _ = False"

definition f64_le :: "f64 \<Rightarrow> f64 \<Rightarrow> bool" where
  "f64_le a b \<longleftrightarrow> f64_lt a b \<or> f64_eq a b"

fun f64_neg :: "f64 \<Rightarrow> f64" where
  "f64_neg (Fin a) = Fin (- a)"
| "f64_neg PInf = NInf"
| "f64_neg NInf = PInf"
| "f64_neg NaN = NaN"

fun f64_add :: "f64 \<Rightarrow> f64 \<Rightarrow> f64" where
  "f64_add (Fin a) (Fin b) = f64_round (a + b)"
| "f64_add NaN _ = NaN"
| "f64_add _ NaN = NaN"
| "f64_add PInf NInf = NaN"
| "f64_add NInf PInf = NaN"
| "f64_add PInf _ = PInf"
| "f64_add NInf _ = NInf"
| "f64_add (Fin a) PInf = PInf"
| "f64_add (Fin a) NInf = NInf"

definition f64_sub :: "f64 \<Rightarrow> f64 \<Rightarrow> f64" where
  "f64_sub a b = f64_add a (f64_neg b)"

definition inf_of_sign :: "rat \<Rightarrow> f64" where
  "inf_of_sign s = (if s = 0 then NaN else if 0 < s then PInf else NInf)"

fun f64_mul :: "f64 \<Rightarrow> f64 \<Rightarrow> f64" where
  "f64_mul (Fin a) (Fin b) = f64_round (a * b)"
| "f64_mul NaN _ = NaN"
| "f64_mul _ NaN = NaN"
| "f64_mul PInf (Fin b) = inf_of_sign b"
| "f64_mul NInf (Fin b) = inf_of_sign (- b)"
| "f64_mul (Fin a) PInf = inf_of_sign a"
| "f64_mul (Fin a) NInf = inf_of_sign (- a)"
| "f64_mul PInf PInf = PInf"
| "f64_mul NInf NInf = PInf"
| "f64_mul PInf NInf = NInf"
| "f64_mul NInf PInf = NInf"

fun f64_div :: "f64 \<Rightarrow> f64 \<Rightarrow> f64" where
  "f64_div (Fin a) (Fin b) = (if b = 0 then inf_of_sign a else f64_round (a / b))"
| "f64_div NaN _ = NaN"
| "f64_div _ NaN = NaN"
| "f64_div PInf (Fin b) = (if b < 0 then NInf else PInf)"
| "f64_div NInf (Fin b) = (if b < 0 then PInf else NInf)"
| "f64_div (Fin a) _ = Fin 0"
| "f64_div PInf _ = NaN"
| "f64_div NInf _ = NaN"

definition f64_of_u64 :: "u64 \<Rightarrow> f64" where
  "f64_of_u64 n = f64_round (of_nat (unat n))"

text \<open>\<open>f64::clamp\<close> asserts \<open>min <= max\<close>.\<close>

definition f64_clamp :: "f64 \<Rightarrow> f64 \<Rightarrow> f64 \<Rightarrow> ('e, f64) outcome" where
  "f64_clamp x lo hi =
     (if \<not> f64_le lo hi then Panic ''min > max, or either was NaN''
      else Ok (if f64_lt x lo then lo else if f64_lt hi x then hi else x))"

section \<open>Facts\<close>

lemma f64_lt_irrefl: "\<not> f64_lt a a"
  by (cases a) auto

lemma f64_le_refl: "a \<noteq> NaN \<Longrightarrow> f64_le a a"
  by (cases a) (auto simp: f64_le_def)

lemma f64_lt_trans: "f64_lt a b \<Longrightarrow> f64_lt b c \<Longrightarrow> f64_lt a c"
  by (cases a; cases b; cases c) auto

lemma f64_trichotomy: "a \<noteq> NaN \<Longrightarrow> b \<noteq> NaN \<Longrightarrow> f64_lt a b \<or> a = b \<or> f64_lt b a"
  by (cases a; cases b) auto

lemma f64_not_lt: "a \<noteq> NaN \<Longrightarrow> b \<noteq> NaN \<Longrightarrow> \<not> f64_lt a b \<longleftrightarrow> f64_le b a"
  by (cases a; cases b) (auto simp: f64_le_def)

text \<open>A value that is a number is clamped into the interval.\<close>

lemma f64_clamp_bounds:
  assumes "f64_clamp x lo hi = Ok y" "x \<noteq> NaN"
  shows "f64_le lo y \<and> f64_le y hi"
proof -
  have le: "f64_le lo hi" and y: "y = (if f64_lt x lo then lo else if f64_lt hi x then hi else x)"
    using assms(1) by (auto simp: f64_clamp_def split: if_splits)
  moreover from le have "lo \<noteq> NaN" "hi \<noteq> NaN"
    by (auto simp: f64_le_def elim: f64_lt.elims f64_eq.elims)
  ultimately show ?thesis
    using assms(2) by (auto simp: f64_not_lt [symmetric] f64_lt_irrefl f64_le_refl)
qed

section \<open>Rounding stays finite\<close>

lemma int_bits_bounds:
  assumes "0 < n"
  shows "2 ^ nat (int_bits n - 1) \<le> n \<and> n < 2 ^ nat (int_bits n) \<and> 1 \<le> int_bits n"
  using assms
proof (induction n rule: int_bits.induct)
  case (1 n)
  show ?case
  proof (cases "n = 1")
    case True
    then show ?thesis
      by (simp add: int_bits.simps)
  next
    case False
    then have half: "0 < n div 2"
      using "1.prems" by simp
    define b where "b = int_bits (n div 2)"
    have IH: "2 ^ nat (b - 1) \<le> n div 2" "n div 2 < 2 ^ nat b" "1 \<le> b"
      using "1.IH" half "1.prems" by (auto simp: b_def)
    have bits: "int_bits n = 1 + b"
      using "1.prems" by (simp add: int_bits.simps [of n] b_def)
    have "nat (1 + b - 1) = Suc (nat (b - 1))" "nat (1 + b) = Suc (nat b)"
      using IH(3) by simp_all
    moreover have "2 * m \<le> n \<longleftrightarrow> m \<le> n div 2" "n < 2 * m \<longleftrightarrow> n div 2 < m" for m
      by presburger+
    ultimately show ?thesis
      using IH by (simp add: bits)
  qed
qed

lemma pow2_pos [simp]: "0 < pow2 e"
  by (simp add: pow2_def)

lemma pow2_diff: "pow2 (int a - int b) = 2 ^ a / 2 ^ b"
proof (cases "b \<le> a")
  case True
  then have "nat (int a - int b) = a - b"
    by simp
  with True show ?thesis
    by (simp add: pow2_def power_diff)
next
  case False
  then have "nat (- (int a - int b)) = b - a"
    by simp
  with False show ?thesis
    by (simp add: pow2_def power_diff)
qed

text \<open>The exponent estimate never exceeds the value.\<close>

lemma pow2_ilog2_le:
  assumes "0 < q"
  shows "pow2 (ilog2 q) \<le> q"
proof -
  obtain n d where nd: "quotient_of q = (n, d)"
    by fastforce
  have d: "0 < d"
    using nd by (rule quotient_of_denom_pos)
  have q: "q = of_int n / of_int d"
    using nd by (rule quotient_of_div)
  have n: "0 < n"
    using assms d by (simp add: q zero_less_divide_iff)
  define a where "a = nat (int_bits n - 1)"
  define b where "b = nat (int_bits d)"
  have e: "int_bits n - int_bits d - 1 = int a - int b"
    using int_bits_bounds [OF n] int_bits_bounds [OF d] by (simp add: a_def b_def)
  have lo: "(2 ^ a :: rat) \<le> of_int n"
    using int_bits_bounds [OF n] unfolding a_def
    by (metis of_int_le_iff of_int_numeral of_int_power)
  have hi: "of_int d \<le> (2 ^ b :: rat)"
    using int_bits_bounds [OF d] unfolding b_def
    by (metis of_int_le_iff of_int_numeral of_int_power less_imp_le)
  have "2 ^ a / 2 ^ b \<le> (of_int n / of_int d :: rat)"
    using lo hi d n by (intro frac_le) auto
  then have "pow2 (int_bits n - int_bits d - 1) \<le> q"
    by (simp add: e pow2_diff q)
  then show ?thesis
    by (simp add: ilog2_def nd Let_def)
qed

lemma round_half_even_bound: "\<bar>of_int (round_half_even x) - x\<bar> \<le> 1"
proof -
  have "of_int \<lfloor>x\<rfloor> \<le> x" "x < of_int \<lfloor>x\<rfloor> + 1"
    by linarith+
  then show ?thesis
    by (auto simp: round_half_even_def Let_def)
qed

text \<open>Rounding moves a value of moderate size by less than its own magnitude, so it stays finite.\<close>

lemma pow2_mono: "a \<le> b \<Longrightarrow> pow2 a \<le> pow2 b"
proof -
  assume "a \<le> b"
  obtain k where k: "b = a + int k"
    using \<open>a \<le> b\<close> zle_iff_zadd by blast
  obtain m n where a: "a = int m - int n"
    using int_diff_cases by blast
  have "b = int (m + k) - int n"
    by (simp add: k a)
  then show ?thesis
    by (simp only: a pow2_diff) (simp add: divide_right_mono power_add)
qed

lemma f64_round_moderate:
  assumes "\<bar>q\<bar> \<le> 2 ^ 1000"
  shows "\<exists>r. f64_round q = Fin r \<and> \<bar>r\<bar> \<le> 2 * \<bar>q\<bar> + 1"
proof (cases "q = 0")
  case True
  then show ?thesis
    by (simp add: f64_round_def)
next
  case False
  define ulp where "ulp = pow2 (max (ilog2 \<bar>q\<bar> - 52) (- 1074))"
  define r where "r = of_int (round_half_even (q / ulp)) * ulp"
  have pos: "0 < ulp"
    by (simp add: ulp_def)
  have "ulp \<le> \<bar>q\<bar> + 1"
  proof (cases "- 1074 \<le> ilog2 \<bar>q\<bar> - 52")
    case True
    then have "ulp \<le> pow2 (ilog2 \<bar>q\<bar>)"
      by (simp add: ulp_def pow2_mono)
    also have "\<dots> \<le> \<bar>q\<bar>"
      using False by (intro pow2_ilog2_le) simp
    finally show ?thesis
      by simp
  next
    case small: False
    then have "ulp \<le> pow2 0"
      unfolding ulp_def by (intro pow2_mono) simp
    then show ?thesis
      by (simp add: pow2_def)
  qed
  moreover have "\<bar>r - q\<bar> \<le> ulp"
  proof -
    have "r - q = (of_int (round_half_even (q / ulp)) - q / ulp) * ulp"
      using pos by (simp add: r_def algebra_simps)
    also have "\<bar>\<dots>\<bar> \<le> 1 * ulp"
      unfolding abs_mult using pos round_half_even_bound [of "q / ulp"]
      by (intro mult_mono) auto
    finally show ?thesis
      by simp
  qed
  ultimately have r: "\<bar>r\<bar> \<le> 2 * \<bar>q\<bar> + 1"
    by linarith
  also have "\<dots> < 2 ^ 1024"
  proof -
    have "2 * \<bar>q\<bar> + 1 \<le> 2 * 2 ^ 1000 + 1"
      using assms by simp
    also have "\<dots> < (2 ^ 1024 :: rat)"
      by simp
    finally show ?thesis .
  qed
  finally have "\<not> pow2 1024 \<le> r" "\<not> r \<le> - pow2 1024"
    by (auto simp: pow2_def)
  then have "f64_round q = Fin r"
    using False by (simp add: f64_round_def Let_def ulp_def r_def)
  with r show ?thesis
    by blast
qed

lemma f64_round_not_NaN [simp]: "f64_round q \<noteq> NaN"
  by (simp add: f64_round_def Let_def)

lemma f64_of_u64_fin: "\<exists>r. f64_of_u64 n = Fin r \<and> \<bar>r\<bar> \<le> 2 ^ 66"
proof -
  have "unat n < 2 ^ 64"
    using unat_less_exp [of n] by simp
  then have lt: "(of_nat (unat n) :: rat) < 2 ^ 64"
    by (metis of_nat_less_iff of_nat_numeral of_nat_power)
  define q :: rat where "q = of_nat (unat n)"
  have q: "0 \<le> q" "q < 2 ^ 64"
    using lt by (simp_all only: q_def of_nat_0_le_iff)
  then obtain r where "f64_round q = Fin r" "\<bar>r\<bar> \<le> 2 * \<bar>q\<bar> + 1"
    using f64_round_moderate [of q] by auto
  with q show ?thesis
    by (auto simp: f64_of_u64_def q_def)
qed

lemma f64_div_not_NaN: "a \<noteq> NaN \<Longrightarrow> b \<noteq> 0 \<Longrightarrow> f64_div a (Fin b) \<noteq> NaN"
  by (cases a) auto

end
