(* ===== verification/Consensus_Base.thy ===== *)
theory Consensus_Base
  imports Crypto_Lib Float64
begin

text \<open>
  What every consensus component shares: configuration (Table 17.1), errors, events, actions, the
  host ports, and the leader helpers (beacon chain, timer allocation, reputation, sortition score).
\<close>

section \<open>Configuration\<close>

record Timing =
  round_duration_ms :: u64
  t_macropropose_ms :: u64
  t_subnet_ms :: u64
  t_canonicalize_ms :: u64

record BullsharkParams =
  micro_committee_size :: u32
  shortcut_round_count :: u32
  slow_path_round_count :: u32
  wave_round_count :: u32

record MacroFinParams =
  macro_window_w :: u32
  two_chain_depth :: u32
  inactivity_leak_bps_per_window :: u32
  inactivity_leak_trigger_windows :: u32

record AggregationParams =
  subnet_flat_threshold :: u32
  subnet_full_threshold :: u32
  sim_force_ke :: "u32 option"

record LeaderParams =
  reputation_floor :: f64
  reputation_ceiling :: f64
  reputation_decay :: f64

record SlashingParams =
  equivocation_bps :: u32
  double_vote_bps :: u32
  da_incident_bps :: u32
  slashing_cap_bps :: u32

record AnchorL4Params =
  btc_confirmations_for_final :: u32

record StorageParams =
  gc_hot_horizon_rounds :: u64
  gc_warm_horizon_rounds :: u64
  snapshot_interval_macros :: u64

record Config =
  cfg_schema_version :: u32
  cfg_timing :: Timing
  cfg_bullshark :: BullsharkParams
  cfg_macro_fin :: MacroFinParams
  cfg_aggregation :: AggregationParams
  cfg_leader :: LeaderParams
  cfg_slashing :: SlashingParams
  cfg_anchor_l4 :: AnchorL4Params
  cfg_storage :: StorageParams

definition SCHEMA_VERSION :: u32 where
  "SCHEMA_VERSION = 1"

definition default_table_17_1 :: Config where
  "default_table_17_1 = \<lparr>
     cfg_schema_version = SCHEMA_VERSION,
     cfg_timing = \<lparr> round_duration_ms = 250, t_macropropose_ms = 4000, t_subnet_ms = 2000,
       t_canonicalize_ms = 8000 \<rparr>,
     cfg_bullshark = \<lparr> micro_committee_size = 256, shortcut_round_count = 2,
       slow_path_round_count = 4, wave_round_count = 4 \<rparr>,
     cfg_macro_fin = \<lparr> macro_window_w = 8, two_chain_depth = 2,
       inactivity_leak_bps_per_window = 50, inactivity_leak_trigger_windows = 4 \<rparr>,
     cfg_aggregation = \<lparr> subnet_flat_threshold = 500, subnet_full_threshold = 1000,
       sim_force_ke = None \<rparr>,
     cfg_leader = \<lparr> reputation_floor = f64_round (8 / 10), reputation_ceiling = f64_round (12 / 10),
       reputation_decay = f64_round (95 / 100) \<rparr>,
     cfg_slashing = \<lparr> equivocation_bps = 10000, double_vote_bps = 5000, da_incident_bps = 500,
       slashing_cap_bps = 5000 \<rparr>,
     cfg_anchor_l4 = \<lparr> btc_confirmations_for_final = 6 \<rparr>,
     cfg_storage = \<lparr> gc_hot_horizon_rounds = 200, gc_warm_horizon_rounds = 10000,
       snapshot_interval_macros = 256 \<rparr> \<rparr>"

definition sim_mode_a_dev :: Config where
  "sim_mode_a_dev = (let c = default_table_17_1 in
     c\<lparr>cfg_aggregation := (cfg_aggregation c)\<lparr>subnet_flat_threshold := 8, sim_force_ke := Some 8\<rparr>\<rparr>)"

section \<open>Errors\<close>

datatype Error =
    InvalidConfig string
  | PersistenceError string
  | CryptoError crypto_error
  | TypesErr
  | LockMacroViolation string

fun dec_digits :: "nat \<Rightarrow> string" where
  "dec_digits n = (if n < 10 then [char_of (48 + n)]
     else dec_digits (n div 10) @ [char_of (48 + n mod 10)])"

declare dec_digits.simps [simp del]

fun crypto_error_display :: "crypto_error \<Rightarrow> string" where
  "crypto_error_display BlsVerifyFailed = ''BLS signature verification failed''"
| "crypto_error_display (BlsAggregateFailed m) = ''BLS aggregation failed: '' @ m"
| "crypto_error_display PopInvalid = ''Proof-of-Possession invalid''"
| "crypto_error_display VrfVerifyFailed = ''VRF proof verification failed''"
| "crypto_error_display (BitmapLength b e) = ''bitmap length mismatch: bitmap covers '' @
     dec_digits b @ '' bits, expected '' @ dec_digits e"
| "crypto_error_display SortitionRejected = ''sortition rejection''"
| "crypto_error_display TypesError = ''types codec error: ''"

text \<open>The schema check of \<open>Config::from_toml_str\<close>; parsing the TOML text is the \<open>toml\<close> package's.\<close>

definition from_toml_str :: "(string \<Rightarrow> (string, Config) outcome) \<Rightarrow> string \<Rightarrow>
    (Error, Config) outcome" where
  "from_toml_str toml_from_str input =
     bind_out (map_err InvalidConfig (toml_from_str input)) (\<lambda>cfg.
       if cfg_schema_version cfg \<noteq> SCHEMA_VERSION then
         Err (InvalidConfig (''unsupported schema_version '' @
           dec_digits (unat (cfg_schema_version cfg)) @ '' (expected '' @
           dec_digits (unat SCHEMA_VERSION) @ '')''))
       else Ok cfg)"

section \<open>Events\<close>

type_synonym SubnetId = u32
type_synonym TimerId = u64

record BlsPartial =
  bp_subnet :: SubnetId
  bp_validator :: ValidatorId
  bp_checkpoint_hash :: Hash32
  bp_sig :: BlsSig

record SubnetAggregate =
  sa_subnet :: SubnetId
  sa_checkpoint_hash :: Hash32
  sa_agg :: BlsAggSig

datatype Event =
    CertifiedVertexReceived CertifiedVertex
  | MicroQcAssembled MicroQc
  | MacroProposalReceived MacroProposal
  | BlsPartialReceived BlsPartial
  | SubnetAggregateReceived SubnetAggregate
  | MacroQcReceived MacroQc
  | TimerFired TimerId
  | ValidatorSetUpdated Epoch ValidatorSet
  | SlashEvidenceFound SlashEvidence
  | VertexProposalReceived VertexProposal
  | VertexPartialReceived VertexPartial

section \<open>Blob status\<close>

datatype BlobStatus = Accepted | SoftConfirmed | Justified | Finalized | EpochFinalized

fun status_rank :: "BlobStatus \<Rightarrow> nat" where
  "status_rank Accepted = 0"
| "status_rank SoftConfirmed = 1"
| "status_rank Justified = 2"
| "status_rank Finalized = 3"
| "status_rank EpochFinalized = 4"

lemma status_rank_inj: "status_rank a = status_rank b \<Longrightarrow> a = b"
  by (cases a; cases b) auto

instantiation BlobStatus :: linorder
begin

definition less_eq_BlobStatus :: "BlobStatus \<Rightarrow> BlobStatus \<Rightarrow> bool" where
  "a \<le> b \<longleftrightarrow> status_rank a \<le> status_rank b"

definition less_BlobStatus :: "BlobStatus \<Rightarrow> BlobStatus \<Rightarrow> bool" where
  "a < b \<longleftrightarrow> status_rank a < status_rank b"

instance
  by standard (auto simp: less_eq_BlobStatus_def less_BlobStatus_def intro: status_rank_inj)

end

section \<open>Actions\<close>

datatype Action =
    BroadcastMicroQc MicroQc
  | BroadcastMacroProposal MacroProposal
  | BroadcastBlsPartial BlsPartial
  | BroadcastSubnetAggregate SubnetAggregate
  | BroadcastMacroQc MacroQc
  | ScheduleTimer TimerId u128
  | CancelTimer TimerId
  | PersistMacroQc MacroQc
  | PersistMacroCheckpoint MacroCheckpoint
  | EmitSlashEvidence ValidatorId SlashEvidence
  | UpdateBlobStatus BlobId BlobStatus
  | NotifyInactivityLeak u32 u32
  | BroadcastVertexProposal VertexProposal
  | BroadcastVertexPartial VertexPartial
  | BroadcastCertifiedVertex CertifiedVertex

type_synonym Actions = "Action list"

section \<open>Host ports\<close>

text \<open>
  The ports the state machine reads. Only the queue of pending blobs has effects; its state has
  type \<open>'s\<close> and is threaded through the handlers that drain it. The \<open>Persistence\<close>
  port is part of the bundle too, but no handler calls it, so it has no field here.
\<close>

record 's HostContext =
  dag_vertex :: "Hash32 \<Rightarrow> (Error, CertifiedVertex option) outcome"
  dag_vertices_at_round :: "Round \<Rightarrow> (Error, CertifiedVertex list) outcome"
  valset_set_for :: "Epoch \<Rightarrow> (Error, ValidatorSet option) outcome"
  valset_index_of :: "Epoch \<Rightarrow> ValidatorId \<Rightarrow> (Error, u32 option) outcome"
  beacon_current :: "(Error, Hash32) outcome"
  signer_sign_bls :: "bytes \<Rightarrow> bytes \<Rightarrow> BlsSig"
  signer_vrf_prove :: "bytes \<Rightarrow> (Error, VrfProof \<times> Hash32) outcome"
  clock_now_nanos :: u128
  blobs_drain :: "'s \<Rightarrow> BlobRef list \<times> 's"
  blobs_confirm_attached :: "BlobRef list \<Rightarrow> 's \<Rightarrow> 's"

definition no_pending_blobs_drain :: "'s \<Rightarrow> BlobRef list \<times> 's" where
  "no_pending_blobs_drain s = ([], s)"

section \<open>Leader helpers\<close>

definition chain_beacon :: "'x crypto_lib \<Rightarrow> Hash32 \<Rightarrow> Hash32 \<Rightarrow> Hash32" where
  "chain_beacon L prev macro_qc_hash =
     blake3_with_dst L DST_BEACON (be_bytes 32 prev @ be_bytes 32 macro_qc_hash)"

record TimerScheduler =
  ts_next :: u64

definition scheduler_default :: TimerScheduler where
  "scheduler_default = \<lparr> ts_next = 0 \<rparr>"

definition allocate :: "TimerScheduler \<Rightarrow> TimerId \<times> TimerScheduler" where
  "allocate s = (ts_next s, s\<lparr>ts_next := ts_next s + 1\<rparr>)"

definition reputation_neutral :: f64 where
  "reputation_neutral = Fin 1"

definition reputation_updated :: "f64 \<Rightarrow> Config \<Rightarrow> f64 \<Rightarrow> (Error, f64) outcome" where
  "reputation_updated rep cfg observation = (let
     decay = reputation_decay (cfg_leader cfg);
     lo = reputation_floor (cfg_leader cfg);
     hi = reputation_ceiling (cfg_leader cfg)
   in bind_out (f64_clamp observation (Fin 0) (Fin 1)) (\<lambda>obs. let
     target = f64_add lo (f64_mul obs (f64_sub hi lo));
     nxt = f64_add (f64_mul decay rep) (f64_mul (f64_sub (Fin 1) decay) target)
   in f64_clamp nxt lo hi))"

definition vrf_to_uniform :: "Hash32 \<Rightarrow> f64" where
  "vrf_to_uniform beta = (let
     n = drop_bit 11 (word_of_be (take 8 (be_bytes 32 beta)) :: u64)
   in f64_div (f64_of_u64 n) (f64_of_u64 (push_bit 53 1)))"

definition vrf_sortition_score :: "Hash32 \<Rightarrow> u64 \<Rightarrow> u64 \<Rightarrow> f64 \<Rightarrow> f64" where
  "vrf_sortition_score vrf_beta total_stake own_stake reputation = (let
     y = vrf_to_uniform vrf_beta;
     denom = f64_mul (f64_of_u64 own_stake) reputation
   in if f64_eq denom (Fin 0) then PInf
      else f64_div (f64_mul y (f64_of_u64 total_stake)) denom)"

section \<open>Facts\<close>

text \<open>A finished update lies in the configured band.\<close>

lemma reputation_updated_band:
  assumes "reputation_updated rep cfg observation = Ok r" "r \<noteq> NaN"
  shows "f64_le (reputation_floor (cfg_leader cfg)) r \<and>
    f64_le r (reputation_ceiling (cfg_leader cfg))"
proof -
  obtain nxt where clamp: "f64_clamp nxt (reputation_floor (cfg_leader cfg))
      (reputation_ceiling (cfg_leader cfg)) = (Ok r :: (Error, f64) outcome)"
    using assms(1) by (auto simp: reputation_updated_def Let_def bind_out_Ok_iff)
  moreover have "nxt \<noteq> NaN"
    using clamp assms(2) by (auto simp: f64_clamp_def split: if_splits)
  ultimately show ?thesis
    by (rule f64_clamp_bounds)
qed

text \<open>Sortition scores of moderate reputations are comparable.\<close>

lemma vrf_to_uniform_fin: "\<exists>y. vrf_to_uniform beta = Fin y"
proof -
  obtain a where a: "f64_of_u64 (drop_bit 11 (word_of_be (take 8 (be_bytes 32 beta)) :: u64)) = Fin a"
      "\<bar>a\<bar> \<le> 2 ^ 66"
    using f64_of_u64_fin by blast
  have "f64_of_u64 (push_bit 53 1) = Fin (2 ^ 53)"
    by (simp add: f64_of_u64_def) code_simp
  moreover have "\<bar>a / 2 ^ 53\<bar> \<le> 2 ^ 1000"
    using a(2) by simp
  ultimately show ?thesis
    using a(1) f64_round_moderate [of "a / 2 ^ 53"] by (auto simp: vrf_to_uniform_def Let_def)
qed

lemma vrf_sortition_score_not_NaN:
  assumes "\<bar>r\<bar> \<le> 2 ^ 100"
  shows "vrf_sortition_score beta total_stake own_stake (Fin r) \<noteq> NaN"
proof -
  obtain y where y: "vrf_to_uniform beta = Fin y"
    using vrf_to_uniform_fin by blast
  obtain t where t: "f64_of_u64 total_stake = Fin t"
    using f64_of_u64_fin by blast
  obtain s where s: "f64_of_u64 own_stake = Fin s" "\<bar>s\<bar> \<le> 2 ^ 66"
    using f64_of_u64_fin by blast
  have "\<bar>s * r\<bar> \<le> 2 ^ 66 * 2 ^ 100"
    unfolding abs_mult using s(2) assms by (intro mult_mono) auto
  also have "\<dots> \<le> (2 ^ 1000 :: rat)"
    by simp
  finally obtain d where "f64_round (s * r) = Fin d"
    using f64_round_moderate by blast
  then show ?thesis
    by (auto simp: vrf_sortition_score_def Let_def y t s(1) f64_div_not_NaN)
qed

lemma allocate_fst [simp]: "fst (allocate s) = ts_next s"
  and allocate_snd [simp]: "ts_next (snd (allocate s)) = ts_next s + 1"
  by (simp_all add: allocate_def)

end
