(* ===== verification/Dag_Cert.thy ===== *)
theory Dag_Cert
  imports Consensus_Base
begin

text \<open>
  \<open>crates/dag\<close>: the canonical signing root and content hash of a vertex, the \<open>2f + 1\<close> quorum
  threshold, and the assembly and verification of quorum certificates.
\<close>

section \<open>Signing roots\<close>

definition signing_bytes :: "'x crypto_lib \<Rightarrow> Vertex \<Rightarrow> bytes" where
  "signing_bytes L v =
     borsh_signable_vertex L (v_round v) (v_author v) (v_parents v) (v_blobs v) hash_zero"

definition content_hash :: "'x crypto_lib \<Rightarrow> Vertex \<Rightarrow> Hash32" where
  "content_hash L v = blake3_with_dst L DST_VERTEX_HASH (signing_bytes L v)"

definition seal_hash :: "'x crypto_lib \<Rightarrow> Vertex \<Rightarrow> Vertex" where
  "seal_hash L v = v\<lparr>v_hash := content_hash L v\<rparr>"

section \<open>Certificates\<close>

datatype CertError =
    HashMismatch
  | InsufficientSigners u32 u32
  | BadIndex u32
  | UnknownDevnetAuthor
  | CertBls crypto_error

fun cert_error_display :: "CertError \<Rightarrow> string" where
  "cert_error_display HashMismatch = ''vertex content hash mismatch''"
| "cert_error_display (InsufficientSigners got need) = ''insufficient signers: got '' @
     dec_digits (unat got) @ '', need '' @ dec_digits (unat need)"
| "cert_error_display (BadIndex i) = ''validator index out of range: '' @ dec_digits (unat i)"
| "cert_error_display UnknownDevnetAuthor = ''unknown devnet author''"
| "cert_error_display (CertBls e) = ''bls: '' @ crypto_error_display e"

definition quorum_threshold :: "u32 \<Rightarrow> u32" where
  "quorum_threshold n = (let f = sat_sub n 1 div 3 in 2 * f + 1)"

text \<open>\<open>u32::try_from\<close> on a length.\<close>

definition u32_try_from :: "usize \<Rightarrow> u32 option" where
  "u32_try_from n = (if n < 2 ^ 32 then Some (of_nat n) else None)"

definition u32_or_zero :: "usize \<Rightarrow> u32" where
  "u32_or_zero n = (case u32_try_from n of None \<Rightarrow> 0 | Some w \<Rightarrow> w)"

fun collect_contributors :: "ValidatorSet \<Rightarrow> (u32 \<times> BlsSig) list \<Rightarrow> BlsSig list \<Rightarrow> Bitmap \<Rightarrow>
    (CertError, BlsSig list \<times> Bitmap) outcome" where
  "collect_contributors valset [] sigs bm = Ok (sigs, bm)"
| "collect_contributors valset ((idx, sig) # cs) sigs bm =
     (if length (vs_entries valset) \<le> unat idx then Err (BadIndex idx)
      else bind_out (map_err (\<lambda>_. BadIndex idx) (bm_set (unat idx) bm)) (\<lambda>bm'.
        collect_contributors valset cs (sigs @ [sig]) bm'))"

definition assemble_cert :: "'x crypto_lib \<Rightarrow> Vertex \<Rightarrow> ValidatorSet \<Rightarrow> (u32 \<times> BlsSig) list \<Rightarrow>
    (CertError, CertifiedVertex) outcome" where
  "assemble_cert L vertex valset contributors =
     bind_out (ok_or (BadIndex 0) (u32_try_from (length (vs_entries valset)))) (\<lambda>n. let
       need = quorum_threshold n;
       got = u32_or_zero (length contributors)
     in if got < need then Err (InsufficientSigners got need)
        else bind_out (collect_contributors valset contributors [] (bm_new (unat n)))
          (\<lambda>(sigs, bm). bind_out (map_err CertBls (aggregate_sigs L sigs)) (\<lambda>agg.
             Ok \<lparr> cv_vertex = vertex,
                  cv_certificate = \<lparr> as_sig = agg, as_bitmap = bm_bytes bm \<rparr> \<rparr>)))"

fun sign_contributors :: "'x crypto_lib \<Rightarrow> ValidatorSet \<Rightarrow> bytes \<Rightarrow>
    (u32 \<Rightarrow> (CertError, 'x) outcome) \<Rightarrow> u32 list \<Rightarrow> (CertError, (u32 \<times> BlsSig) list) outcome" where
  "sign_contributors L valset msg sk_at [] = Ok []"
| "sign_contributors L valset msg sk_at (idx # idxs) =
     (if length (vs_entries valset) \<le> unat idx then Err (BadIndex idx)
      else bind_out (sk_at idx) (\<lambda>sk.
        bind_out (sign_contributors L valset msg sk_at idxs) (\<lambda>cs.
          Ok ((idx, bls_sign L sk DST_VERTEX_CERT msg) # cs))))"

definition build_quorum_cert_with :: "'x crypto_lib \<Rightarrow> Vertex \<Rightarrow> ValidatorSet \<Rightarrow> u32 list \<Rightarrow>
    (u32 \<Rightarrow> (CertError, 'x) outcome) \<Rightarrow> (CertError, CertifiedVertex) outcome" where
  "build_quorum_cert_with L vertex valset signer_indices sk_at =
     bind_out (sign_contributors L valset (signing_bytes L vertex) sk_at signer_indices)
       (\<lambda>contributors. assemble_cert L vertex valset contributors)"

definition devnet_labels :: "string list" where
  "devnet_labels = [''node0'', ''node1'', ''node2'', ''node3'']"

definition devnet_label_for_validator_id :: "'x crypto_lib \<Rightarrow> ValidatorId \<Rightarrow> string option" where
  "devnet_label_for_validator_id L vid =
     find (\<lambda>label. blake3_with_dst L DST_DEVNET_PEER_IDENTITY (ascii label) = vid) devnet_labels"

definition devnet_bls_ikm :: "'x crypto_lib \<Rightarrow> string \<Rightarrow> bytes" where
  "devnet_bls_ikm L label = be_bytes 32 (blake3_with_dst L DST_VALIDATOR_BLS_PARTIAL (ascii label))"

definition build_quorum_cert :: "'x crypto_lib \<Rightarrow> Vertex \<Rightarrow> ValidatorSet \<Rightarrow> u32 list \<Rightarrow>
    (CertError, CertifiedVertex) outcome" where
  "build_quorum_cert L vertex valset signer_indices =
     build_quorum_cert_with L vertex valset signer_indices (\<lambda>idx.
       if length (vs_entries valset) \<le> unat idx then Err (BadIndex idx)
       else bind_out (ok_or UnknownDevnetAuthor
              (devnet_label_for_validator_id L (ve_id (vs_entries valset ! unat idx)))) (\<lambda>label.
            map_err CertBls (sk_from_ikm L (devnet_bls_ikm L label))))"

fun collect_set_bits :: "Bitmap \<Rightarrow> usize list \<Rightarrow> (CertError, u32 list) outcome" where
  "collect_set_bits bm [] = Ok []"
| "collect_set_bits bm (i # is) =
     bind_out (map_err (\<lambda>_. BadIndex (of_nat i)) (bm_test i bm)) (\<lambda>b.
       bind_out (collect_set_bits bm is) (\<lambda>out. Ok (if b then of_nat i # out else out)))"

definition bitmap_indices :: "bytes \<Rightarrow> u32 \<Rightarrow> (CertError, u32 list) outcome" where
  "bitmap_indices bitmap n =
     bind_out (map_err (\<lambda>_. BadIndex 0) (bm_from_bytes bitmap (unat n))) (\<lambda>bm.
       collect_set_bits bm [0..<unat n])"

definition verify_certified_vertex :: "'x crypto_lib \<Rightarrow> CertifiedVertex \<Rightarrow> ValidatorSet \<Rightarrow>
    (CertError, unit) outcome" where
  "verify_certified_vertex L cv valset =
     (if v_hash (cv_vertex cv) \<noteq> content_hash L (cv_vertex cv) then Err HashMismatch
      else bind_out (ok_or (BadIndex 0) (u32_try_from (length (vs_entries valset)))) (\<lambda>n.
        bind_out (bitmap_indices (as_bitmap (cv_certificate cv)) n) (\<lambda>indices. let
          need = quorum_threshold n;
          got = u32_or_zero (length indices)
        in if got < need then Err (InsufficientSigners got need)
           else bind_out (mapM_out (\<lambda>idx.
                    if length (vs_entries valset) \<le> unat idx then Err (BadIndex idx)
                    else map_err CertBls
                      (pk_from_bytes L (ve_bls_pubkey (vs_entries valset ! unat idx)))) indices)
             (\<lambda>pks. map_err CertBls (verify_aggregate L pks DST_VERTEX_CERT
                (signing_bytes L (cv_vertex cv)) (as_sig (cv_certificate cv)))))))"

section \<open>Quorum arithmetic\<close>

text \<open>
  What agreement arguments need of a threshold rule: above \<open>(n + f) / 2\<close> two quorums share more than
  \<open>f\<close> members, and \<open>n - f\<close> correct validators suffice to form one.
\<close>

definition fault_bound :: "u32 \<Rightarrow> nat" where
  "fault_bound n = (unat n - 1) div 3"

locale quorum_rule =
  fixes need :: "u32 \<Rightarrow> u32" and sized :: "u32 \<Rightarrow> bool"
  assumes overlap: "sized n \<Longrightarrow> unat n + fault_bound n < 2 * unat (need n)"
    and reachable: "sized n \<Longrightarrow> unat (need n) + fault_bound n \<le> unat n"
begin

lemma two_quorums_overlap:
  assumes "sized n" "A \<subseteq> {..<unat n}" "B \<subseteq> {..<unat n}"
    "unat (need n) \<le> card A" "unat (need n) \<le> card B"
  shows "fault_bound n < card (A \<inter> B)"
proof -
  have fin: "finite A" "finite B"
    using assms(2,3) finite_subset by blast+
  have "card (A \<union> B) \<le> card {..<unat n}"
    using assms(2,3) by (intro card_mono) auto
  then have "card A + card B \<le> unat n + card (A \<inter> B)"
    using card_Un_Int [OF fin] by simp
  with overlap [OF assms(1)] assms(4,5) show ?thesis
    by linarith
qed

lemma common_correct_member:
  assumes "sized n" "A \<subseteq> {..<unat n}" "B \<subseteq> {..<unat n}"
    "unat (need n) \<le> card A" "unat (need n) \<le> card B" "finite F" "card F \<le> fault_bound n"
  shows "\<exists>i. i \<in> A \<and> i \<in> B \<and> i \<notin> F"
proof (rule ccontr)
  assume "\<not> ?thesis"
  then have "A \<inter> B \<subseteq> F"
    by auto
  then have "card (A \<inter> B) \<le> card F"
    using assms(6) by (rule card_mono [rotated])
  with two_quorums_overlap [OF assms(1-5)] assms(7) show False
    by linarith
qed

lemma correct_members_suffice:
  assumes "sized n" "F \<subseteq> {..<unat n}" "card F \<le> fault_bound n"
  shows "unat (need n) \<le> card ({..<unat n} - F)"
  using assms reachable [OF assms(1)] by (simp add: card_Diff_subset finite_subset)

end

lemma unat_quorum_threshold: "unat (quorum_threshold n) = 2 * fault_bound n + 1"
proof -
  have f: "unat (sat_sub n 1 div 3) = fault_bound n"
    by (simp add: unat_div unat_sat_sub fault_bound_def)
  have "unat n < 2 ^ 32"
    using unat_less_exp [of n] by simp
  then have "2 * fault_bound n + 1 < 2 ^ 32"
    by (simp add: fault_bound_def)
  then have "unat (of_nat (2 * fault_bound n + 1) :: u32) = 2 * fault_bound n + 1"
    by (intro unat_of_nat_small) simp
  moreover have "(of_nat (2 * fault_bound n + 1) :: u32) = 2 * (sat_sub n 1 div 3) + 1"
    unfolding f [symmetric] by simp
  ultimately show ?thesis
    by (simp only: quorum_threshold_def Let_def)
qed

lemma quorum_threshold_pos: "0 < quorum_threshold n"
  using unat_quorum_threshold [of n] by (simp add: word_less_nat_alt)

lemma quorum_threshold_le: "n \<noteq> 0 \<Longrightarrow> unat (quorum_threshold n) \<le> unat n"
  by (simp add: unat_quorum_threshold fault_bound_def unat_eq_zero flip: unat_gt_0)

text \<open>The rule has both laws exactly for committees of \<open>3f + 1\<close> validators.\<close>

interpretation vertex_quorum: quorum_rule quorum_threshold "\<lambda>n. unat n mod 3 = 1"
proof
  fix n :: u32
  assume n: "unat n mod 3 = 1"
  then have "unat n = 3 * fault_bound n + 1"
    unfolding fault_bound_def by presburger
  then show "unat n + fault_bound n < 2 * unat (quorum_threshold n)"
    and "unat (quorum_threshold n) + fault_bound n \<le> unat n"
    by (simp_all add: unat_quorum_threshold)
qed

section \<open>Reading and writing certificates\<close>

lemma u32_try_from_Some_iff: "u32_try_from k = Some n \<longleftrightarrow> k < 2 ^ 32 \<and> unat n = k"
  by (auto simp: u32_try_from_def unat_of_nat_small)

lemma collect_contributors_eq:
  assumes "bm_wf bm" "bm_bits bm = length (vs_entries valset)"
    "\<And>i s. (i, s) \<in> set cs \<Longrightarrow> unat i < length (vs_entries valset)"
  shows "collect_contributors valset cs sigs bm = Ok (sigs @ map snd cs,
    bm\<lparr>bm_bytes := fold (\<lambda>i bs. set_slot bs i) (map (unat \<circ> fst) cs) (bm_bytes bm)\<rparr>)"
  using assms
proof (induction cs arbitrary: sigs bm)
  case (Cons c cs)
  obtain i s where c: "c = (i, s)"
    by (cases c)
  then have "unat i < bm_bits bm"
    using Cons.prems by auto
  then show ?case
    using Cons.prems(1,2) Cons.prems(3) [of i s] Cons.prems(3)
      Cons.IH [of "bm\<lparr>bm_bytes := set_slot (bm_bytes bm) (unat i)\<rparr>" "sigs @ [s]"]
    unfolding c by (auto simp: bm_set_wf)
qed simp

lemma collect_set_bits_eq:
  assumes "bm_wf bm" "\<And>i. i \<in> set is \<Longrightarrow> i < bm_bits bm"
  shows "collect_set_bits bm is = Ok (map of_nat (filter (test_slot (bm_bytes bm)) is))"
  using assms by (induction "is") (auto simp: bm_test_wf)

lemma bitmap_indices_eq: "bitmap_indices bs n =
    (if length bs = div_ceil (unat n) 8 then Ok (map of_nat (filter (test_slot bs) [0..<unat n]))
     else Err (BadIndex 0))"
  using collect_set_bits_eq [of "\<lparr> bm_bytes = bs, bm_bits = unat n \<rparr>" "[0..<unat n]"]
  by (simp add: bitmap_indices_def bm_from_bytes_def bm_wf_def)

text \<open>The validators a certificate names.\<close>

definition cert_signers :: "CertifiedVertex \<Rightarrow> ValidatorSet \<Rightarrow> nat list" where
  "cert_signers cv valset =
     filter (test_slot (as_bitmap (cv_certificate cv))) [0..<length (vs_entries valset)]"

lemma length_cert_signers: "length (cert_signers cv valset) = card (set (cert_signers cv valset))"
  by (rule distinct_card [symmetric]) (simp add: cert_signers_def)

lemma verify_certified_vertex_Ok:
  assumes "verify_certified_vertex L cv valset = Ok ()"
  shows "v_hash (cv_vertex cv) = content_hash L (cv_vertex cv)"
    and "unat (quorum_threshold (of_nat (length (vs_entries valset)))) \<le>
      card (set (cert_signers cv valset))"
    and "\<exists>pks. list_all2 (\<lambda>i pk. pk_from_bytes L (ve_bls_pubkey (vs_entries valset ! i)) = Ok pk)
        (cert_signers cv valset) pks \<and>
      verify_aggregate L pks DST_VERTEX_CERT (signing_bytes L (cv_vertex cv))
        (as_sig (cv_certificate cv)) = Ok ()"
proof -
  show hash: "v_hash (cv_vertex cv) = content_hash L (cv_vertex cv)"
    using assms by (auto simp: verify_certified_vertex_def split: if_splits)
  obtain n where n: "u32_try_from (length (vs_entries valset)) = Some n"
    using assms hash by (auto simp: verify_certified_vertex_def bind_out_Ok_iff ok_or_Ok_iff)
  then have len: "length (vs_entries valset) = unat n" and small: "unat n < 2 ^ 32"
    by (auto simp: u32_try_from_Some_iff)
  then have nn: "of_nat (length (vs_entries valset)) = n"
    by simp
  let ?is = "cert_signers cv valset"
  have idx: "bitmap_indices (as_bitmap (cv_certificate cv)) n = Ok (map of_nat ?is)"
    using assms hash n
    by (auto simp: verify_certified_vertex_def bitmap_indices_eq cert_signers_def len split: if_splits)
  have "length ?is \<le> unat n"
    unfolding cert_signers_def len using length_filter_le [of _ "[0..<unat n]"] by simp
  then have got: "unat (u32_or_zero (length ?is)) = length ?is"
    using small by (simp add: u32_or_zero_def u32_try_from_def unat_of_nat_small)
  show "unat (quorum_threshold (of_nat (length (vs_entries valset)))) \<le> card (set ?is)"
    using assms hash n idx got
    by (auto simp: verify_certified_vertex_def nn Let_def length_cert_signers [symmetric]
        word_less_nat_alt not_less split: if_splits)
  obtain pks where pks: "mapM_out (\<lambda>idx.
        if length (vs_entries valset) \<le> unat idx then Err (BadIndex idx)
        else map_err CertBls (pk_from_bytes L (ve_bls_pubkey (vs_entries valset ! unat idx))))
        (map of_nat ?is) = Ok pks"
    and ver: "verify_aggregate L pks DST_VERTEX_CERT (signing_bytes L (cv_vertex cv))
        (as_sig (cv_certificate cv)) = Ok ()"
    using assms hash n idx
    by (auto simp: verify_certified_vertex_def Let_def outcome_simps split: if_splits)
  have lt: "i < unat n" if "i \<in> set ?is" for i
    using that by (simp add: cert_signers_def len)
  have "list_all2 (\<lambda>i pk. pk_from_bytes L (ve_bls_pubkey (vs_entries valset ! i)) = Ok pk) ?is pks"
    using pks unfolding mapM_out_Ok_iff list_all2_map1
    by (rule list.rel_mono_strong)
      (auto simp: len unat_of_nat_below [OF lt] map_err_Ok_iff split: if_splits)
  with ver show "\<exists>pks. list_all2 (\<lambda>i pk. pk_from_bytes L (ve_bls_pubkey (vs_entries valset ! i)) =
        Ok pk) ?is pks \<and>
      verify_aggregate L pks DST_VERTEX_CERT (signing_bytes L (cv_vertex cv))
        (as_sig (cv_certificate cv)) = Ok ()"
    by blast
qed

lemma verify_certified_vertexI:
  assumes hash: "v_hash (cv_vertex cv) = content_hash L (cv_vertex cv)"
    and small: "length (vs_entries valset) < 2 ^ 32"
    and len: "length (as_bitmap (cv_certificate cv)) = div_ceil (length (vs_entries valset)) 8"
    and quorum: "unat (quorum_threshold (of_nat (length (vs_entries valset)))) \<le>
      length (cert_signers cv valset)"
    and pks: "list_all2 (\<lambda>i pk. pk_from_bytes L (ve_bls_pubkey (vs_entries valset ! i)) = Ok pk)
      (cert_signers cv valset) pks"
    and ver: "verify_aggregate L pks DST_VERTEX_CERT (signing_bytes L (cv_vertex cv))
      (as_sig (cv_certificate cv)) = Ok ()"
  shows "verify_certified_vertex L cv valset = Ok ()"
proof -
  let ?N = "length (vs_entries valset)" and ?is = "cert_signers cv valset"
  have N: "unat (of_nat ?N :: u32) = ?N" "u32_try_from ?N = Some (of_nat ?N)"
    using small by (auto simp: unat_of_nat_small u32_try_from_def)
  have lt: "i < unat (of_nat ?N :: u32)" if "i \<in> set ?is" for i
    using that N by (simp add: cert_signers_def)
  have idx: "bitmap_indices (as_bitmap (cv_certificate cv)) (of_nat ?N) = Ok (map of_nat ?is)"
    by (simp add: bitmap_indices_eq N len cert_signers_def)
  have "length ?is \<le> ?N"
    unfolding cert_signers_def using length_filter_le [of _ "[0..<?N]"] by simp
  then have got: "unat (u32_or_zero (length ?is)) = length ?is"
    using small by (simp add: u32_or_zero_def u32_try_from_def unat_of_nat_small)
  have "mapM_out (\<lambda>idx. if ?N \<le> unat idx then Err (BadIndex idx)
      else map_err CertBls (pk_from_bytes L (ve_bls_pubkey (vs_entries valset ! unat idx))))
      (map of_nat ?is) = Ok pks"
    unfolding mapM_out_Ok_iff list_all2_map1 using pks
    by (rule list.rel_mono_strong)
      (use lt N in \<open>auto simp: unat_of_nat_below [OF lt] simp flip: not_less\<close>)
  then show ?thesis
    using hash N idx got quorum ver
    by (simp add: verify_certified_vertex_def Let_def word_less_nat_alt not_less)
qed

text \<open>
  A validator set whose keys decode to \<open>pks\<close>, and partial signatures that verify one by one under
  the keys of distinct validators.
\<close>

definition valset_keys :: "'x crypto_lib \<Rightarrow> ValidatorSet \<Rightarrow> 'x list \<Rightarrow> bool" where
  "valset_keys L valset pks \<longleftrightarrow> distinct pks \<and> length (vs_entries valset) < 2 ^ 32 \<and>
     list_all2 (\<lambda>e pk. pk_from_bytes L (ve_bls_pubkey e) = Ok pk) (vs_entries valset) pks"

definition valid_contributors :: "'x crypto_lib \<Rightarrow> 'x list \<Rightarrow> bytes \<Rightarrow> bytes \<Rightarrow>
    (u32 \<times> BlsSig) list \<Rightarrow> bool" where
  "valid_contributors L pks dst msg cs \<longleftrightarrow> distinct (map fst cs) \<and>
     (\<forall>(i, s) \<in> set cs. unat i < length pks \<and> bls_verify L (pks ! unat i) dst msg s = Ok ())"

lemma valid_contributors_distinct:
  "valid_contributors L pks dst msg cs \<Longrightarrow> distinct (map (unat \<circ> fst) cs)"
  unfolding valid_contributors_def comp_def
  by (auto simp: distinct_map inj_on_def word_unat_eq_iff [symmetric] simp flip: word_unat_eq_iff)

lemma length_valid_contributors:
  assumes "valid_contributors L pks dst msg cs"
  shows "length cs \<le> length pks"
proof -
  have "set (map (unat \<circ> fst) cs) \<subseteq> {..<length pks}"
    using assms by (auto simp: valid_contributors_def)
  then have "card (set (map (unat \<circ> fst) cs)) \<le> card {..<length pks}"
    by (intro card_mono) auto
  then show ?thesis
    using distinct_card [OF valid_contributors_distinct [OF assms]] by simp
qed

lemma aggregate_contributors:
  assumes agg: "bls_aggregation L (set pks)" and pks: "distinct pks"
    and cs: "valid_contributors L pks dst msg cs" and ne: "cs \<noteq> []"
    and perm: "mset js = mset (map (unat \<circ> fst) cs)"
  shows "\<exists>a. aggregate_sigs L (map snd cs) = Ok a \<and>
    verify_aggregate L (map ((!) pks) js) dst msg a = Ok ()"
proof -
  let ?ks = "map ((!) pks) (map (unat \<circ> fst) cs)"
  have "set (map (unat \<circ> fst) cs) \<subseteq> {..<length pks}"
    using cs by (auto simp: valid_contributors_def)
  note ks = distinct_map_nth [OF pks valid_contributors_distinct [OF cs] this]
  have "list_all2 (\<lambda>sig pk. bls_verify L pk dst msg sig = Ok ()) (map snd cs) ?ks"
    unfolding list_all2_map1 list_all2_map2 using cs
    by (intro list.rel_refl_strong) (auto simp: valid_contributors_def)
  moreover have "mset (map ((!) pks) js) = mset ?ks"
    using perm by (metis mset_map)
  ultimately show ?thesis
    using aggregate_then_verify [OF agg ks] ne by blast
qed

text \<open>Assembling valid partials of distinct validators and verifying the result succeeds.\<close>

lemma assemble_then_verify:
  assumes agg: "bls_aggregation L (set pks)" and keys: "valset_keys L valset pks"
    and sealed: "v_hash v = content_hash L v"
    and cs: "valid_contributors L pks DST_VERTEX_CERT (signing_bytes L v) cs"
    and enough: "unat (quorum_threshold (of_nat (length (vs_entries valset)))) \<le> length cs"
  shows "\<exists>cv. assemble_cert L v valset cs = Ok cv \<and> cv_vertex cv = v \<and>
    verify_certified_vertex L cv valset = Ok () \<and>
    set (cert_signers cv valset) = (unat \<circ> fst) ` set cs"
proof -
  let ?N = "length (vs_entries valset)" and ?n = "of_nat (length (vs_entries valset)) :: u32"
  let ?idx = "map (unat \<circ> fst) cs"
  define bits where "bits = fold (\<lambda>i bs. set_slot bs i) ?idx (replicate (div_ceil ?N 8) 0)"
  have N: "?N < 2 ^ 32" "length pks = ?N" "unat ?n = ?N" "u32_try_from ?N = Some ?n"
    using keys by (auto simp: valset_keys_def list_all2_lengthD unat_of_nat_small u32_try_from_def)
  have idx: "set ?idx \<subseteq> {..<?N}" "distinct ?idx"
    using cs N valid_contributors_distinct [OF cs] by (auto simp: valid_contributors_def)
  have collect: "collect_contributors valset cs [] (bm_new ?N) =
      Ok (map snd cs, (bm_new ?N)\<lparr>bm_bytes := bits\<rparr>)"
    using idx(1) by (subst collect_contributors_eq) (auto simp: bits_def bm_new_def bm_wf_def)
  have got: "unat (u32_or_zero (length cs)) = length cs"
    using length_valid_contributors [OF cs] N
    by (simp add: u32_or_zero_def u32_try_from_def unat_of_nat_small)
  define js where "js = filter (test_slot bits) [0..<?N]"
  have js: "js = filter (\<lambda>i. i \<in> set ?idx) [0..<?N]"
    unfolding js_def bits_def by (rule filter_test_fold_set_slot [OF idx(1)])
  have jset: "set js = set ?idx" "distinct js"
    using idx(1) by (auto simp: js)
  then have perm: "mset js = mset ?idx"
    using idx(2) set_eq_iff_mset_eq_distinct by blast
  then have jlen: "length js = length cs"
    by (metis length_map size_mset)
  have jkeys: "list_all2 (\<lambda>i pk. pk_from_bytes L (ve_bls_pubkey (vs_entries valset ! i)) = Ok pk)
      js (map ((!) pks) js)"
    using keys jset(1) idx(1) N unfolding valset_keys_def list_all2_map2
    by (intro list.rel_refl_strong) (auto simp: list_all2_conv_all_nth)
  have ne: "cs \<noteq> []"
    using enough by (auto simp: unat_quorum_threshold)
  obtain a where a: "aggregate_sigs L (map snd cs) = Ok a"
      "verify_aggregate L (map ((!) pks) js) DST_VERTEX_CERT (signing_bytes L v) a = Ok ()"
    using aggregate_contributors [OF agg _ cs ne perm] keys by (auto simp: valset_keys_def)
  let ?cv = "\<lparr> cv_vertex = v, cv_certificate = \<lparr> as_sig = a, as_bitmap = bits \<rparr> \<rparr>"
  have "assemble_cert L v valset cs = Ok ?cv"
    using N got enough collect a
    by (simp add: assemble_cert_def Let_def word_less_nat_alt not_less)
  moreover have "verify_certified_vertex L ?cv valset = Ok ()"
    using sealed N enough a(2) jkeys jlen
    by (intro verify_certified_vertexI [where pks = "map ((!) pks) js"])
      (simp_all add: cert_signers_def js_def bits_def)
  moreover have "set (cert_signers ?cv valset) = (unat \<circ> fst) ` set cs"
    using jset by (simp add: cert_signers_def js_def)
  ultimately show ?thesis
    by auto
qed

section \<open>Certificates never panic\<close>

lemma no_panic_collect: "bm_wf bm \<Longrightarrow> no_panic (collect_contributors vset cs sigs bm)"
  by (induction cs arbitrary: sigs bm) (auto simp: bm_set_wf)

lemma no_panic_assemble [simp]: "no_panic (assemble_cert L v vset cs)"
  by (auto simp: assemble_cert_def Let_def intro!: no_panic_bind no_panic_collect split: prod.split)

lemma no_panic_verify_cert [simp]: "no_panic (verify_certified_vertex L cv vset)"
  by (auto simp: verify_certified_vertex_def Let_def bitmap_indices_eq pk_from_bytes_def
      intro!: no_panic_bind no_panic_mapM)

end
