(* ===== verification/Slashing.thy ===== *)
theory Slashing
  imports Dag_Cert
begin

text \<open>
  The signed macro messages, the per-validator vote history and the slashing rules: detectors
  (\<open>scan_for_double_vote\<close>, \<open>scan_for_surround\<close>, the two \<open>detect\<close> functions), the evidence
  verifiers, penalties and the inactivity leak.
\<close>

section \<open>Vote history and signed messages\<close>

record VoteRecord =
  vr_source :: Epoch
  vr_target :: Epoch
  vr_checkpoint :: Hash32
  vr_sig :: BlsSig

record VoteBook =
  vk_votes :: "ValidatorId \<rightharpoonup> VoteRecord list"

definition vote_book_new :: VoteBook where
  "vote_book_new = \<lparr> vk_votes = Map.empty \<rparr>"

definition votes_of :: "VoteBook \<Rightarrow> ValidatorId \<Rightarrow> VoteRecord list" where
  "votes_of b validator = (case vk_votes b validator of None \<Rightarrow> [] | Some vs \<Rightarrow> vs)"

definition record_vote :: "ValidatorId \<Rightarrow> VoteRecord \<Rightarrow> VoteBook \<Rightarrow> VoteBook" where
  "record_vote validator r b =
     b\<lparr>vk_votes := (vk_votes b)(validator \<mapsto> votes_of b validator @ [r])\<rparr>"

definition partial_message :: "ValidatorId \<Rightarrow> Hash32 \<Rightarrow> bytes" where
  "partial_message validator checkpoint_hash = be_bytes 32 validator @ be_bytes 32 checkpoint_hash"

definition proposer_message :: "ValidatorId \<Rightarrow> MacroCheckpoint \<Rightarrow> bytes" where
  "proposer_message proposer checkpoint = be_bytes 32 proposer @ be_bytes 32 (mc_hash checkpoint)"

definition checkpoint_message :: "'x crypto_lib \<Rightarrow> MacroCheckpoint \<Rightarrow> bytes" where
  "checkpoint_message L cp = borsh_macro_checkpoint L cp"

definition vote_message :: "'x crypto_lib \<Rightarrow> VoteRecord \<Rightarrow> bytes" where
  "vote_message L r = borsh_vote_payload L (vr_source r) (vr_target r) (vr_checkpoint r)"

section \<open>Lookup of a validator's key\<close>

definition find_entry :: "ValidatorSet \<Rightarrow> ValidatorId \<Rightarrow> ValidatorEntry option" where
  "find_entry vset vid = find (\<lambda>e. ve_id e = vid) (vs_entries vset)"

definition evidence_pk :: "'x crypto_lib \<Rightarrow> ValidatorSet \<Rightarrow> ValidatorId \<Rightarrow> (Error, 'x) outcome" where
  "evidence_pk L vset vid =
     bind_out (ok_or (InvalidConfig ''unknown validator'') (find_entry vset vid)) (\<lambda>entry.
       map_err (\<lambda>_. InvalidConfig ''invalid bls pubkey'') (pk_from_bytes L (ve_bls_pubkey entry)))"

fun verify_all :: "'x crypto_lib \<Rightarrow> 'x \<Rightarrow> bytes \<Rightarrow> string \<Rightarrow> (bytes \<times> BlsSig) list \<Rightarrow>
    (Error, unit) outcome" where
  "verify_all L pk dst err [] = Ok ()"
| "verify_all L pk dst err ((msg, sig) # ms) =
     bind_out (map_err (\<lambda>_. InvalidConfig err) (bls_verify L pk dst msg sig)) (\<lambda>_.
       verify_all L pk dst err ms)"

section \<open>Double votes\<close>

definition scan_for_double_vote :: "VoteBook \<Rightarrow> ValidatorId \<Rightarrow> DoubleVote option" where
  "scan_for_double_vote book validator = (let votes = votes_of book validator in
     if length votes < 2 then None
     else let new = last votes in
       case find (\<lambda>old. vr_target old = vr_target new \<and> vr_checkpoint old \<noteq> vr_checkpoint new)
              (butlast votes) of
         None \<Rightarrow> None
       | Some old \<Rightarrow> Some \<lparr> dv_validator = validator, dv_target = vr_target new,
           dv_a_checkpoint = vr_checkpoint old, dv_a_sig = vr_sig old,
           dv_b_checkpoint = vr_checkpoint new, dv_b_sig = vr_sig new \<rparr>)"

definition verify_double_vote :: "'x crypto_lib \<Rightarrow> DoubleVote \<Rightarrow> ValidatorSet \<Rightarrow>
    (Error, unit) outcome" where
  "verify_double_vote L ev vset =
     (if dv_a_checkpoint ev = dv_b_checkpoint ev
      then Err (InvalidConfig ''double vote requires distinct checkpoints'')
      else bind_out (evidence_pk L vset (dv_validator ev)) (\<lambda>pk. let
        a = \<lparr> vr_source = sat_sub (dv_target ev) 1, vr_target = dv_target ev,
              vr_checkpoint = dv_a_checkpoint ev, vr_sig = dv_a_sig ev \<rparr>;
        b = \<lparr> vr_source = sat_sub (dv_target ev) 1, vr_target = dv_target ev,
              vr_checkpoint = dv_b_checkpoint ev, vr_sig = dv_b_sig ev \<rparr>
      in verify_all L pk DST_MACRO_VOTE ''invalid vote sig''
           [(vote_message L a, vr_sig a), (vote_message L b, vr_sig b)]))"

section \<open>Surround votes\<close>

definition surrounds :: "u64 \<Rightarrow> u64 \<Rightarrow> u64 \<Rightarrow> u64 \<Rightarrow> bool" where
  "surrounds a_source a_target b_source b_target \<longleftrightarrow>
     a_source < b_source \<and> b_source \<le> b_target \<and> b_target < a_target"

definition surround_evidence :: "ValidatorId \<Rightarrow> VoteRecord \<Rightarrow> VoteRecord \<Rightarrow> SurroundVote" where
  "surround_evidence validator a b = \<lparr> sv_validator = validator,
     sv_a_source = vr_source a, sv_a_target = vr_target a, sv_a_sig = vr_sig a,
     sv_a_checkpoint = vr_checkpoint a,
     sv_b_source = vr_source b, sv_b_target = vr_target b, sv_b_sig = vr_sig b,
     sv_b_checkpoint = vr_checkpoint b \<rparr>"

fun scan_surround_against :: "ValidatorId \<Rightarrow> VoteRecord \<Rightarrow> VoteRecord list \<Rightarrow> SurroundVote option" where
  "scan_surround_against validator new [] = None"
| "scan_surround_against validator new (old # olds) =
     (if surrounds (vr_source new) (vr_target new) (vr_source old) (vr_target old)
      then Some (surround_evidence validator new old)
      else if surrounds (vr_source old) (vr_target old) (vr_source new) (vr_target new)
      then Some (surround_evidence validator old new)
      else scan_surround_against validator new olds)"

definition scan_for_surround :: "VoteBook \<Rightarrow> ValidatorId \<Rightarrow> SurroundVote option" where
  "scan_for_surround book validator = (let votes = votes_of book validator in
     if length votes < 2 then None
     else scan_surround_against validator (last votes) (butlast votes))"

definition verify_surround :: "'x crypto_lib \<Rightarrow> SurroundVote \<Rightarrow> ValidatorSet \<Rightarrow>
    (Error, unit) outcome" where
  "verify_surround L ev vset =
     (if \<not> surrounds (sv_a_source ev) (sv_a_target ev) (sv_b_source ev) (sv_b_target ev)
      then Err (InvalidConfig ''not a surround relation'')
      else bind_out (evidence_pk L vset (sv_validator ev)) (\<lambda>pk. let
        outer = \<lparr> vr_source = sv_a_source ev, vr_target = sv_a_target ev,
                  vr_checkpoint = sv_a_checkpoint ev, vr_sig = sv_a_sig ev \<rparr>;
        inner = \<lparr> vr_source = sv_b_source ev, vr_target = sv_b_target ev,
                  vr_checkpoint = sv_b_checkpoint ev, vr_sig = sv_b_sig ev \<rparr>
      in verify_all L pk DST_MACRO_VOTE ''invalid vote sig''
           [(vote_message L outer, vr_sig outer), (vote_message L inner, vr_sig inner)]))"

section \<open>Equivocation\<close>

definition detect_macro_equivocation ::
    "ValidatorId \<Rightarrow> MacroProposal \<Rightarrow> MacroProposal \<Rightarrow> MacroEquivocation" where
  "detect_macro_equivocation validator a b = \<lparr> me_validator = validator,
     me_a = (mp_checkpoint a, mp_proposer_sig a), me_b = (mp_checkpoint b, mp_proposer_sig b) \<rparr>"

definition verify_macro_equivocation :: "'x crypto_lib \<Rightarrow> MacroEquivocation \<Rightarrow> ValidatorSet \<Rightarrow>
    (Error, unit) outcome" where
  "verify_macro_equivocation L ev vset = bind_out (evidence_pk L vset (me_validator ev)) (\<lambda>pk.
     if mc_height (fst (me_a ev)) \<noteq> mc_height (fst (me_b ev))
        \<or> mc_hash (fst (me_a ev)) = mc_hash (fst (me_b ev))
     then Err (InvalidConfig ''equivocation checkpoints must share height and differ in hash'')
     else verify_all L pk DST_MACRO_PROPOSER_SIG ''invalid proposer sig''
       [(proposer_message (me_validator ev) (fst (me_a ev)), snd (me_a ev)),
        (proposer_message (me_validator ev) (fst (me_b ev)), snd (me_b ev))])"

definition detect_vertex_equivocation ::
    "ValidatorId \<Rightarrow> VertexProposal \<Rightarrow> VertexProposal \<Rightarrow> VertexEquivocation" where
  "detect_vertex_equivocation validator a b = from_proposals validator a b"

definition verify_vertex_equivocation :: "'x crypto_lib \<Rightarrow> VertexEquivocation \<Rightarrow> ValidatorSet \<Rightarrow>
    (Error, unit) outcome" where
  "verify_vertex_equivocation L ev vset = bind_out (evidence_pk L vset (vx_validator ev)) (\<lambda>pk.
     if v_author (fst (vx_a ev)) \<noteq> vx_validator ev \<or> v_author (fst (vx_b ev)) \<noteq> vx_validator ev
     then Err (InvalidConfig ''equivocation vertices must be authored by the offender'')
     else if v_round (fst (vx_a ev)) \<noteq> v_round (fst (vx_b ev))
        \<or> v_hash (fst (vx_a ev)) = v_hash (fst (vx_b ev))
     then Err (InvalidConfig ''equivocation vertices must share round and differ in hash'')
     else verify_all L pk DST_VERTEX_PROPOSAL ''invalid proposer sig''
       [(signing_bytes L (fst (vx_a ev)), snd (vx_a ev)),
        (signing_bytes L (fst (vx_b ev)), snd (vx_b ev))])"

fun verify_evidence :: "'x crypto_lib \<Rightarrow> SlashEvidence \<Rightarrow> ValidatorSet \<Rightarrow> (Error, unit) outcome" where
  "verify_evidence L (EvMacroEquivocation e) vset = verify_macro_equivocation L e vset"
| "verify_evidence L (EvSurround e) vset = verify_surround L e vset"
| "verify_evidence L (EvDoubleVote e) vset = verify_double_vote L e vset"
| "verify_evidence L (EvVertexEquivocation e) vset = verify_vertex_equivocation L e vset"

section \<open>Penalties\<close>

datatype Penalty = Equivocation | DoubleVotePenalty | DaIncident | InactivityLeak

fun penalty_bps :: "Penalty \<Rightarrow> Config \<Rightarrow> u32" where
  "penalty_bps Equivocation cfg = equivocation_bps (cfg_slashing cfg)"
| "penalty_bps DoubleVotePenalty cfg = double_vote_bps (cfg_slashing cfg)"
| "penalty_bps DaIncident cfg = da_incident_bps (cfg_slashing cfg)"
| "penalty_bps InactivityLeak cfg = inactivity_leak_bps_per_window (cfg_macro_fin cfg)"

definition penalty_cap :: "Config \<Rightarrow> u32 \<Rightarrow> u32" where
  "penalty_cap cfg cumulative_bps = min cumulative_bps (slashing_cap_bps (cfg_slashing cfg))"

definition leak_compute :: "Config \<Rightarrow> u32 \<Rightarrow> u32 \<times> bool" where
  "leak_compute cfg unfinalized_windows =
     (inactivity_leak_bps_per_window (cfg_macro_fin cfg),
      inactivity_leak_trigger_windows (cfg_macro_fin cfg) \<le> unfinalized_windows)"

section \<open>Facts\<close>

lemma votes_of_record: "votes_of (record_vote v r b) w =
    (if w = v then votes_of b v @ [r] else votes_of b w)"
  by (simp add: votes_of_def record_vote_def)

lemma verify_all_Ok_iff [outcome_simps]: "verify_all L pk dst err ms = Ok () \<longleftrightarrow>
    (\<forall>(msg, sig) \<in> set ms. bls_verify L pk dst msg sig = Ok ())"
  by (induction ms) (auto simp: bind_out_Ok_iff map_err_Ok_iff)

lemma scan_surround_against_Some:
  "scan_surround_against v new olds = Some ev \<Longrightarrow>
    \<exists>old \<in> set olds. (ev = surround_evidence v new old \<and>
        surrounds (vr_source new) (vr_target new) (vr_source old) (vr_target old)) \<or>
      (ev = surround_evidence v old new \<and>
        surrounds (vr_source old) (vr_target old) (vr_source new) (vr_target new))"
  by (induction olds) (auto split: if_splits)

lemma scan_surround_against_None_iff:
  "scan_surround_against v new olds = None \<longleftrightarrow>
    (\<forall>old \<in> set olds. \<not> surrounds (vr_source new) (vr_target new) (vr_source old) (vr_target old) \<and>
      \<not> surrounds (vr_source old) (vr_target old) (vr_source new) (vr_target new))"
  by (induction olds) auto

text \<open>Votes whose source is the predecessor of their target never surround each other.\<close>

lemma surrounds_adjacent:
  assumes "a_s = sat_sub a_t 1" "b_s = sat_sub b_t 1"
  shows "\<not> surrounds a_s a_t b_s b_t"
proof
  assume "surrounds a_s a_t b_s b_t"
  then have "unat a_s < unat b_s" "unat b_t < unat a_t"
    by (simp_all add: surrounds_def word_less_nat_alt)
  then show False
    by (simp add: assms unat_sat_sub)
qed

lemma scan_double_vote_Some:
  assumes "scan_for_double_vote b v = Some ev"
  shows "\<exists>old new. old \<in> set (butlast (votes_of b v)) \<and> new = last (votes_of b v) \<and>
    vr_target old = vr_target new \<and> vr_checkpoint old \<noteq> vr_checkpoint new \<and>
    ev = \<lparr> dv_validator = v, dv_target = vr_target new,
           dv_a_checkpoint = vr_checkpoint old, dv_a_sig = vr_sig old,
           dv_b_checkpoint = vr_checkpoint new, dv_b_sig = vr_sig new \<rparr>"
  using assms
  by (auto simp: scan_for_double_vote_def Let_def find_Some_iff in_set_conv_nth
      split: if_splits option.splits)

end
