(* ===== verification/Vertex_Cert.thy ===== *)
theory Vertex_Cert
  imports Slashing
begin

text \<open>
  Distributed vertex certification (\<open>consensus/src/vertex_cert\<close>): the per-validator book, the
  handlers for proposals, partial votes, certified vertices and the round timer, and round
  advancement. \<open>propose_round\<close>, \<open>try_finalize\<close> and \<open>maybe_advance\<close> call each other without a
  decreasing argument, so they take the depth of the call stack as a parameter; exceeding it is the
  abort of a stack overflow.
\<close>

section \<open>State\<close>

text \<open>
  Maps that are only looked up are partial functions; \<open>my_proposals\<close> is iterated and is an ordered
  map (its iteration order is irrelevant: at most one own proposal per round is ever stored).
\<close>

record VertexBook =
  vb_self_id :: ValidatorId
  vb_current_round :: Round
  vb_started :: bool
  vb_certified_by_round :: "(Round, (ValidatorId, Hash32) btree) btree"
  vb_my_proposals :: "(Hash32, VertexProposal) btree"
  vb_collecting :: "Hash32 \<rightharpoonup> (ValidatorId, BlsSig) btree"
  vb_emitted_certs :: "Hash32 set"
  vb_proposals_seen :: "Round \<times> ValidatorId \<rightharpoonup> VertexProposal list"
  vb_voted :: "(Round \<times> ValidatorId) set"
  vb_round_timer :: "TimerId option"
  vb_timer_retries :: u32
  vb_timers :: TimerScheduler
  vb_rejected_crypto :: u64
  vb_partial_conflicts :: u64
  vb_rounds_stalled :: u64

definition vertex_book_new :: "ValidatorId \<Rightarrow> VertexBook" where
  "vertex_book_new self_id = \<lparr>
     vb_self_id = self_id,
     vb_current_round = 0,
     vb_started = False,
     vb_certified_by_round = bt_empty,
     vb_my_proposals = bt_empty,
     vb_collecting = Map.empty,
     vb_emitted_certs = {},
     vb_proposals_seen = Map.empty,
     vb_voted = {},
     vb_round_timer = None,
     vb_timer_retries = 0,
     vb_timers = scheduler_default,
     vb_rejected_crypto = 0,
     vb_partial_conflicts = 0,
     vb_rounds_stalled = 0 \<rparr>"

definition certified_count_at :: "VertexBook \<Rightarrow> Round \<Rightarrow> usize" where
  "certified_count_at book rnd =
     (case bt_get (vb_certified_by_round book) rnd of None \<Rightarrow> 0 | Some m \<Rightarrow> length m)"

abbreviation reject_crypto :: "VertexBook \<Rightarrow> VertexBook" where
  "reject_crypto book \<equiv> book\<lparr>vb_rejected_crypto := vb_rejected_crypto book + 1\<rparr>"

section \<open>Helpers\<close>

definition active_set :: "'s HostContext \<Rightarrow> (Error, ValidatorSet) outcome" where
  "active_set ctx = bind_out (valset_set_for ctx 0)
     (ok_or (InvalidConfig ''no validator set for epoch 0''))"

definition quorum_need :: "ValidatorSet \<Rightarrow> (Error, usize) outcome" where
  "quorum_need vset =
     bind_out (ok_or (InvalidConfig ''validator set too large'')
       (u32_try_from (length (vs_entries vset)))) (\<lambda>n. Ok (unat (quorum_threshold n)))"

fun position :: "('a \<Rightarrow> bool) \<Rightarrow> 'a list \<Rightarrow> usize option" where
  "position P [] = None"
| "position P (x # xs) = (if P x then Some 0 else map_option Suc (position P xs))"

definition index_of :: "ValidatorSet \<Rightarrow> ValidatorId \<Rightarrow> u32 option" where
  "index_of vset vid = map_option
     (\<lambda>i. case u32_try_from i of None \<Rightarrow> - 1 | Some w \<Rightarrow> w)
     (position (\<lambda>e. ve_id e = vid) (vs_entries vset))"

definition round_in_window :: "VertexBook \<Rightarrow> Round \<Rightarrow> bool" where
  "round_in_window book rnd \<longleftrightarrow>
     vb_current_round book \<le> rnd + 1 \<and> rnd \<le> vb_current_round book + 1"

definition round_delay_nanos :: "Config \<Rightarrow> u32 \<Rightarrow> u128" where
  "round_delay_nanos cfg retries =
     ucast (round_duration_ms (cfg_timing cfg)) * 1000000 * (ucast retries + 1)"

definition pk_for :: "'x crypto_lib \<Rightarrow> ValidatorSet \<Rightarrow> ValidatorId \<Rightarrow> 'x option" where
  "pk_for L vset vid = (case find_entry vset vid of None \<Rightarrow> None
     | Some e \<Rightarrow> (case pk_from_bytes L (ve_bls_pubkey e) of Ok pk \<Rightarrow> Some pk | _ \<Rightarrow> None))"

definition verify_proposal :: "'x crypto_lib \<Rightarrow> ValidatorSet \<Rightarrow> VertexProposal \<Rightarrow> bool" where
  "verify_proposal L vset p = (case pk_for L vset (v_author (vp_vertex p)) of
     None \<Rightarrow> False
   | Some pk \<Rightarrow> is_ok (bls_verify L pk DST_VERTEX_PROPOSAL (signing_bytes L (vp_vertex p))
       (vp_proposer_sig p)))"

definition verify_partial :: "'x crypto_lib \<Rightarrow> ValidatorSet \<Rightarrow> VertexPartial \<Rightarrow> Vertex \<Rightarrow> bool" where
  "verify_partial L vset bp vertex =
     (if pt_vertex_hash bp \<noteq> v_hash vertex \<or> pt_round bp \<noteq> v_round vertex
         \<or> pt_author bp \<noteq> v_author vertex then False
      else case pk_for L vset (pt_voter bp) of
        None \<Rightarrow> False
      | Some pk \<Rightarrow> is_ok (bls_verify L pk DST_VERTEX_CERT (signing_bytes L vertex) (pt_sig bp)))"

section \<open>Voting on proposals\<close>

definition cast_vote :: "'x crypto_lib \<Rightarrow> VertexProposal \<Rightarrow> 's HostContext \<Rightarrow> VertexBook \<Rightarrow>
    (Error, Actions) outcome \<times> VertexBook" where
  "cast_vote L p ctx book = (let
     vertex = vp_vertex p;
     key = (v_round vertex, v_author vertex)
   in if key \<in> vb_voted book then (Ok [], book)
      else (Ok [BroadcastVertexPartial \<lparr>
              pt_vertex_hash = v_hash vertex,
              pt_round = v_round vertex,
              pt_author = v_author vertex,
              pt_voter = vb_self_id book,
              pt_sig = signer_sign_bls ctx DST_VERTEX_CERT (signing_bytes L vertex) \<rparr>],
            book\<lparr>vb_voted := insert key (vb_voted book)\<rparr>))"

definition check_parents_and_vote :: "'x crypto_lib \<Rightarrow> ValidatorSet \<Rightarrow> VertexProposal \<Rightarrow>
    's HostContext \<Rightarrow> VertexBook \<Rightarrow> (Error, Actions) outcome \<times> VertexBook" where
  "check_parents_and_vote L vset p ctx book = (let
     rnd = v_round (vp_vertex p);
     parents = v_parents (vp_vertex p)
   in if 0 < rnd then
        call (quorum_need vset) book (\<lambda>need. let
          prev = bt_get (vb_certified_by_round book) (rnd - 1);
          known = (\<lambda>h. case prev of None \<Rightarrow> False | Some m \<Rightarrow> list_ex (\<lambda>ph. ph = h) (bt_values m))
        in if length parents < need \<or> \<not> list_all known parents then (Ok [], book)
           else cast_vote L p ctx book)
      else if parents \<noteq> [] then (Ok [], reject_crypto book)
      else cast_vote L p ctx book)"

definition on_vertex_proposal :: "'x crypto_lib \<Rightarrow> VertexProposal \<Rightarrow> 's HostContext \<Rightarrow>
    VertexBook \<Rightarrow> (Error, Actions) outcome \<times> VertexBook" where
  "on_vertex_proposal L p ctx book =
     call (active_set ctx) book (\<lambda>vset. let
       rnd = v_round (vp_vertex p);
       author = v_author (vp_vertex p);
       key = (rnd, author)
     in if v_hash (vp_vertex p) \<noteq> content_hash L (vp_vertex p) then (Ok [], reject_crypto book)
        else if \<not> verify_proposal L vset p then (Ok [], reject_crypto book)
        else if author = vb_self_id book then (Ok [], book)
        else if \<not> round_in_window book rnd then (Ok [], book)
        else case vb_proposals_seen book key of
          Some existing \<Rightarrow>
            if list_ex (\<lambda>prev. v_hash (vp_vertex prev) \<noteq> v_hash (vp_vertex p)) existing then
              (Ok [EmitSlashEvidence author
                     (EvVertexEquivocation (detect_vertex_equivocation author (existing ! 0) p))],
               book)
            else check_parents_and_vote L vset p ctx book
        | None \<Rightarrow> check_parents_and_vote L vset p ctx
            (book\<lparr>vb_proposals_seen := (vb_proposals_seen book)(key \<mapsto> [p])\<rparr>))"

section \<open>Certificates and rounds\<close>

definition record_cert :: "CertifiedVertex \<Rightarrow> VertexBook \<Rightarrow> VertexBook" where
  "record_cert cv book = (let
     r = v_round (cv_vertex cv);
     m = (case bt_get (vb_certified_by_round book) r of None \<Rightarrow> bt_empty | Some m \<Rightarrow> m)
   in book\<lparr>vb_certified_by_round :=
        bt_insert r (bt_insert (v_author (cv_vertex cv)) (v_hash (cv_vertex cv)) m)
          (vb_certified_by_round book)\<rparr>)"

text \<open>The certificate \<open>try_finalize\<close> builds for an own proposal, if it may.\<close>

definition contributors_of :: "ValidatorSet \<Rightarrow> (ValidatorId, BlsSig) btree \<Rightarrow> (u32 \<times> BlsSig) list" where
  "contributors_of vset sigs = List.map_filter
     (\<lambda>(voter, sig). map_option (\<lambda>idx. (idx, sig)) (index_of vset voter)) sigs"

definition finalize_cert :: "'x crypto_lib \<Rightarrow> 's HostContext \<Rightarrow> Hash32 \<Rightarrow> VertexBook \<Rightarrow>
    (Error, CertifiedVertex option) outcome" where
  "finalize_cert L ctx hash book =
     (if hash \<in> vb_emitted_certs book then Ok None
      else case bt_get (vb_my_proposals book) hash of
        None \<Rightarrow> Ok None
      | Some proposal \<Rightarrow>
          bind_out (active_set ctx) (\<lambda>vset.
          bind_out (quorum_need vset) (\<lambda>need.
          case vb_collecting book hash of
            None \<Rightarrow> Ok None
          | Some sigs \<Rightarrow>
              if length sigs < need then Ok None
              else bind_out (map_err (\<lambda>e. InvalidConfig (''assemble vertex cert: '' @
                       cert_error_display e))
                     (assemble_cert L (vp_vertex proposal) vset (contributors_of vset sigs))) (\<lambda>cv.
                   bind_out (map_err (\<lambda>e. InvalidConfig (''self-check vertex cert: '' @
                       cert_error_display e))
                     (verify_certified_vertex L cv vset)) (\<lambda>_. Ok (Some cv))))))"

text \<open>Building, signing and seeding the own proposal of a round (\<open>propose_round\<close> up to its call of
  \<open>try_finalize\<close>).\<close>

definition build_proposal :: "'x crypto_lib \<Rightarrow> 's HostContext \<Rightarrow> ValidatorId \<Rightarrow> Round \<Rightarrow>
    Hash32 list \<Rightarrow> BlobRef list \<Rightarrow> VertexProposal" where
  "build_proposal L ctx self_id rnd parents blobs = (let
     vertex = seal_hash L \<lparr> v_round = rnd, v_author = self_id, v_parents = parents,
       v_blobs = blobs, v_hash = hash_zero \<rparr>
   in \<lparr> vp_vertex = vertex,
        vp_proposer_sig = signer_sign_bls ctx DST_VERTEX_PROPOSAL (signing_bytes L vertex) \<rparr>)"

definition seed_proposal :: "VertexProposal \<Rightarrow> BlsSig \<Rightarrow> VertexBook \<Rightarrow> VertexBook" where
  "seed_proposal p self_sig book = (let
     h = v_hash (vp_vertex p);
     rnd = v_round (vp_vertex p);
     slot = (case vb_collecting book h of None \<Rightarrow> bt_empty | Some m \<Rightarrow> m);
     seen = (case vb_proposals_seen book (rnd, vb_self_id book) of None \<Rightarrow> [] | Some ps \<Rightarrow> ps);
     (tid, timers) = allocate (vb_timers book)
   in book\<lparr>
        vb_my_proposals := bt_insert h p (vb_my_proposals book),
        vb_collecting := (vb_collecting book)(h \<mapsto> bt_insert (vb_self_id book) self_sig slot),
        vb_voted := insert (rnd, vb_self_id book) (vb_voted book),
        vb_proposals_seen :=
          (vb_proposals_seen book)((rnd, vb_self_id book) \<mapsto> seen @ [p]),
        vb_current_round := rnd,
        vb_timers := timers,
        vb_round_timer := Some tid,
        vb_timer_retries := 0\<rparr>)"

definition proposal_actions :: "Config \<Rightarrow> VertexProposal \<Rightarrow> VertexBook \<Rightarrow> Actions" where
  "proposal_actions cfg p book =
     (case vb_round_timer book of None \<Rightarrow> [] | Some old \<Rightarrow> [CancelTimer old]) @
     [ScheduleTimer (fst (allocate (vb_timers book))) (round_delay_nanos cfg 0),
      BroadcastVertexProposal p]"

definition start_proposal :: "'x crypto_lib \<Rightarrow> Config \<Rightarrow> 's HostContext \<Rightarrow> Round \<Rightarrow> Hash32 list \<Rightarrow>
    Actions \<Rightarrow> VertexBook \<times> 's \<Rightarrow> Hash32 \<times> Actions \<times> (VertexBook \<times> 's)" where
  "start_proposal L cfg ctx rnd parents actions st = (let
     (book, hs) = st;
     (blobs, hs1) = blobs_drain ctx hs;
     p = build_proposal L ctx (vb_self_id book) rnd parents blobs;
     self_sig = signer_sign_bls ctx DST_VERTEX_CERT (signing_bytes L (vp_vertex p))
   in (v_hash (vp_vertex p), actions @ proposal_actions cfg p book,
       (seed_proposal p self_sig book, blobs_confirm_attached ctx blobs hs1)))"

definition prune :: "VertexBook \<Rightarrow> VertexBook" where
  "prune book = (let
     keep_from = sat_sub (vb_current_round book) 1;
     mine = bt_retain (\<lambda>_ p. keep_from \<le> v_round (vp_vertex p)) (vb_my_proposals book);
     live = set (bt_keys mine)
   in book\<lparr>
        vb_certified_by_round := bt_retain (\<lambda>r _. keep_from \<le> r) (vb_certified_by_round book),
        vb_my_proposals := mine,
        vb_collecting := (\<lambda>h. if h \<in> live then vb_collecting book h else None),
        vb_emitted_certs := {h \<in> vb_emitted_certs book. h \<in> live},
        vb_proposals_seen := (\<lambda>(r, a). if keep_from \<le> r then vb_proposals_seen book (r, a) else None),
        vb_voted := {(r, a) \<in> vb_voted book. keep_from \<le> r}\<rparr>)"

text \<open>
  The three functions, each with its calls of the others going through \<open>callee\<close>; the loop of
  \<open>maybe_advance\<close> is the fourth entry.
\<close>

datatype vc_call =
    CallPropose Round "Hash32 list"
  | CallFinalize Hash32
  | CallAdvance
  | CallLoop usize

type_synonym 's vc_result = "(Error, Actions) outcome \<times> (VertexBook \<times> 's)"
type_synonym 's vc_callee = "vc_call \<Rightarrow> Actions \<Rightarrow> VertexBook \<times> 's \<Rightarrow> 's vc_result"

definition propose_round_body :: "'s vc_callee \<Rightarrow> 'x crypto_lib \<Rightarrow> Config \<Rightarrow> 's HostContext \<Rightarrow>
    Round \<Rightarrow> Hash32 list \<Rightarrow> Actions \<Rightarrow> VertexBook \<times> 's \<Rightarrow> 's vc_result" where
  "propose_round_body callee L cfg ctx rnd parents actions st =
     (case start_proposal L cfg ctx rnd parents actions st of (hash, actions', st') \<Rightarrow>
        callee (CallFinalize hash) actions' st')"

definition try_finalize_body :: "'s vc_callee \<Rightarrow> 'x crypto_lib \<Rightarrow> 's HostContext \<Rightarrow>
    Hash32 \<Rightarrow> Actions \<Rightarrow> VertexBook \<times> 's \<Rightarrow> 's vc_result" where
  "try_finalize_body callee L ctx hash actions st =
     call (finalize_cert L ctx hash (fst st)) st (\<lambda>r. case r of
       None \<Rightarrow> (Ok actions, st)
     | Some cv \<Rightarrow> callee CallAdvance (actions @ [BroadcastCertifiedVertex cv])
         (record_cert cv ((fst st)\<lparr>vb_emitted_certs := insert hash (vb_emitted_certs (fst st))\<rparr>),
          snd st))"

definition maybe_advance_body :: "'s vc_callee \<Rightarrow> 's HostContext \<Rightarrow> Actions \<Rightarrow>
    VertexBook \<times> 's \<Rightarrow> 's vc_result" where
  "maybe_advance_body callee ctx actions st =
     (if \<not> vb_started (fst st) then (Ok actions, st)
      else call (active_set ctx) st (\<lambda>vset.
           call (quorum_need vset) st (\<lambda>need.
           bind_st (callee (CallLoop need) actions st) (\<lambda>actions' st'.
             (Ok actions', (prune (fst st'), snd st'))))))"

definition advance_loop_body :: "'s vc_callee \<Rightarrow> usize \<Rightarrow> Actions \<Rightarrow> VertexBook \<times> 's \<Rightarrow>
    's vc_result" where
  "advance_loop_body callee need actions st =
     (case bt_get (vb_certified_by_round (fst st)) (vb_current_round (fst st)) of
        None \<Rightarrow> (Ok actions, st)
      | Some certs \<Rightarrow>
          if length certs < need then (Ok actions, st)
          else bind_st (callee (CallPropose (vb_current_round (fst st) + 1)
                 (take need (bt_values certs))) actions st) (\<lambda>actions' st'.
               callee (CallLoop need) actions' st'))"

primrec vc_run :: "nat \<Rightarrow> 'x crypto_lib \<Rightarrow> Config \<Rightarrow> 's HostContext \<Rightarrow> 's vc_callee" where
  "vc_run 0 L cfg ctx = (\<lambda>c actions st. (Panic ''stack overflow'', st))"
| "vc_run (Suc depth) L cfg ctx = (\<lambda>c actions st. let callee = vc_run depth L cfg ctx in
     case c of
       CallPropose rnd parents \<Rightarrow> propose_round_body callee L cfg ctx rnd parents actions st
     | CallFinalize hash \<Rightarrow> try_finalize_body callee L ctx hash actions st
     | CallAdvance \<Rightarrow> maybe_advance_body callee ctx actions st
     | CallLoop need \<Rightarrow> advance_loop_body callee need actions st)"

definition propose_round :: "nat \<Rightarrow> 'x crypto_lib \<Rightarrow> Config \<Rightarrow> 's HostContext \<Rightarrow> Round \<Rightarrow>
    Hash32 list \<Rightarrow> Actions \<Rightarrow> VertexBook \<times> 's \<Rightarrow> 's vc_result" where
  "propose_round depth L cfg ctx rnd parents = vc_run depth L cfg ctx (CallPropose rnd parents)"

definition try_finalize :: "nat \<Rightarrow> 'x crypto_lib \<Rightarrow> Config \<Rightarrow> 's HostContext \<Rightarrow> Hash32 \<Rightarrow>
    Actions \<Rightarrow> VertexBook \<times> 's \<Rightarrow> 's vc_result" where
  "try_finalize depth L cfg ctx hash = vc_run depth L cfg ctx (CallFinalize hash)"

definition maybe_advance :: "nat \<Rightarrow> 'x crypto_lib \<Rightarrow> Config \<Rightarrow> 's HostContext \<Rightarrow>
    Actions \<Rightarrow> VertexBook \<times> 's \<Rightarrow> 's vc_result" where
  "maybe_advance depth L cfg ctx = vc_run depth L cfg ctx CallAdvance"

definition genesis_propose :: "nat \<Rightarrow> 'x crypto_lib \<Rightarrow> Config \<Rightarrow> 's HostContext \<Rightarrow>
    VertexBook \<times> 's \<Rightarrow> (Error, Actions) outcome \<times> (VertexBook \<times> 's)" where
  "genesis_propose depth L cfg ctx st =
     (if vb_started (fst st) then (Ok [], st)
      else propose_round depth L cfg ctx 0 [] [] ((fst st)\<lparr>vb_started := True\<rparr>, snd st))"

definition on_certified_vertex :: "nat \<Rightarrow> 'x crypto_lib \<Rightarrow> Config \<Rightarrow> CertifiedVertex \<Rightarrow>
    's HostContext \<Rightarrow> Actions \<Rightarrow> VertexBook \<times> 's \<Rightarrow>
    (Error, Actions) outcome \<times> (VertexBook \<times> 's)" where
  "on_certified_vertex depth L cfg cv ctx actions st =
     maybe_advance depth L cfg ctx actions (record_cert cv (fst st), snd st)"

definition on_vertex_partial :: "nat \<Rightarrow> 'x crypto_lib \<Rightarrow> Config \<Rightarrow> VertexPartial \<Rightarrow>
    's HostContext \<Rightarrow> VertexBook \<times> 's \<Rightarrow> (Error, Actions) outcome \<times> (VertexBook \<times> 's)" where
  "on_vertex_partial depth L cfg bp ctx st = (let book = fst st; hs = snd st in
     if pt_author bp \<noteq> vb_self_id book \<or> pt_voter bp = vb_self_id book then (Ok [], st)
     else case bt_get (vb_my_proposals book) (pt_vertex_hash bp) of
       None \<Rightarrow> (Ok [], st)
     | Some proposal \<Rightarrow> (let
         h = pt_vertex_hash bp;
         slot = (case vb_collecting book h of None \<Rightarrow> bt_empty | Some m \<Rightarrow> m);
         book1 = book\<lparr>vb_collecting := (vb_collecting book)(h \<mapsto> slot)\<rparr>
       in case bt_get slot (pt_voter bp) of
            Some prev \<Rightarrow>
              (Ok [], (if prev \<noteq> pt_sig bp
                       then book1\<lparr>vb_partial_conflicts := vb_partial_conflicts book1 + 1\<rparr>
                       else book1, hs))
          | None \<Rightarrow>
              call (active_set ctx) (book1, hs) (\<lambda>vset.
                if \<not> verify_partial L vset bp (vp_vertex proposal)
                then (Ok [], (reject_crypto book1, hs))
                else try_finalize depth L cfg ctx h []
                  (book1\<lparr>vb_collecting :=
                     (vb_collecting book1)(h \<mapsto> bt_insert (pt_voter bp) (pt_sig bp) slot)\<rparr>, hs))))"

definition vc_on_timer_fired :: "Config \<Rightarrow> 's HostContext \<Rightarrow> TimerId \<Rightarrow> Actions \<Rightarrow> VertexBook \<Rightarrow>
    (Error, Actions) outcome \<times> VertexBook" where
  "vc_on_timer_fired cfg ctx tid actions book =
     (if vb_round_timer book \<noteq> Some tid then (Ok actions, book)
      else let book = book\<lparr>vb_round_timer := None\<rparr> in
        call (active_set ctx) book (\<lambda>vset.
        call (quorum_need vset) book (\<lambda>need.
          if need \<le> certified_count_at book (vb_current_round book) then (Ok actions, book)
          else let
            retries = min (vb_timer_retries book + 1) 8;
            (new_id, timers) = allocate (vb_timers book);
            rebroadcast = (case find (\<lambda>p. v_round (vp_vertex p) = vb_current_round book)
                (bt_values (vb_my_proposals book)) of
              None \<Rightarrow> [] | Some p \<Rightarrow> [BroadcastVertexProposal p])
          in (Ok (actions @ rebroadcast @ [ScheduleTimer new_id (round_delay_nanos cfg retries)]),
              book\<lparr>vb_rounds_stalled := vb_rounds_stalled book + 1,
                   vb_timer_retries := retries,
                   vb_timers := timers,
                   vb_round_timer := Some new_id\<rparr>))))"

end
