(* ===== verification/Sample_Committee.thy ===== *)
theory Sample_Committee
  imports Consensus_Base Dag_Cert
begin

text \<open>
  Concrete values of the parameters of the model, on which its theorems are instantiated: a linear
  signature scheme (a signature is the key times a digest of the message, aggregates are sums), a
  polynomial hash, and committees whose member \<open>i\<close> has identity and key \<open>i\<close>.
\<close>

definition sample_digest :: "bytes \<Rightarrow> bytes \<Rightarrow> 768 word" where
  "sample_digest msg dst = of_nat (2 * length msg + 1)"

definition sample_hash :: "bytes \<Rightarrow> Hash32" where
  "sample_hash bs = fold (\<lambda>b h. h * 257 + ucast b + 1) bs 0"

definition sample_lib :: "768 word crypto_lib" where
  "sample_lib = \<lparr>
     blake3_hash = sample_hash,
     sha256_digest = sample_hash,
     sha512_digest = (\<lambda>bs. replicate 64 0),
     blst_key_gen = (\<lambda>bs. Some (word_of_be bs)),
     blst_sk_to_pk = (\<lambda>sk. sk),
     blst_sign = (\<lambda>sk msg dst. sk * sample_digest msg dst),
     blst_pk_compress = ucast,
     blst_pk_uncompress = (\<lambda>k. Some (ucast k)),
     blst_sig_compress = (\<lambda>s. s),
     blst_sig_uncompress = Some,
     blst_sig_verify = (\<lambda>s msg dst pk. s = pk * sample_digest msg dst),
     blst_agg_sig = (\<lambda>ss. Some (sum_list ss)),
     blst_agg_pk = (\<lambda>ks. Some (sum_list ks)),
     ed_decompress = (\<lambda>bs. None),
     ed_compress = (\<lambda>p. []),
     ed_is_identity = (\<lambda>p. False),
     ed_is_small_order = (\<lambda>p. False),
     ed_mul_by_cofactor = (\<lambda>p. p),
     ed_mul = (*),
     ed_sub = (-),
     ed_basepoint = 1,
     sc_from_bytes_mod_order = word_of_be,
     sc_from_bytes_mod_order_wide = word_of_be,
     sc_from_canonical_bytes = (\<lambda>bs. Some (word_of_be bs)),
     sc_to_bytes = be_bytes 32,
     sc_add = (+),
     sc_mul = (*),
     sc_eq = (=),
     borsh_signable_vertex = (\<lambda>r a ps bs h. be_bytes 2 r @ be_bytes 2 a @ concat (map (be_bytes 2) ps)),
     borsh_macro_checkpoint = (\<lambda>cp. be_bytes 2 (mc_hash cp)),
     borsh_vote_payload = (\<lambda>s t c. be_bytes 2 s @ be_bytes 2 t @ be_bytes 2 c),
     borsh_hash_vec = (\<lambda>hs. concat (map (be_bytes 2) hs)),
     borsh_checkpoint_preimage = (\<lambda>h e p m. be_bytes 2 h @ be_bytes 2 p @ be_bytes 2 m) \<rparr>"

lemma sample_aggregate:
  "list_all2 (\<lambda>s pk. s = pk * (h :: 768 word)) sigs pks \<Longrightarrow> sum_list sigs = sum_list pks * h"
  by (induction rule: list_all2_induct) (auto simp: algebra_simps)

lemma sum_list_perm: "mset xs = mset ys \<Longrightarrow> sum_list xs = sum_list (ys :: 768 word list)"
  by (metis sum_mset_sum_list)

lemma sample_aggregation: "bls_aggregation sample_lib K"
  unfolding bls_aggregation_def
  by (auto simp: sample_lib_def sample_aggregate intro: sum_list_perm)

definition sample_entry :: "nat \<Rightarrow> ValidatorEntry" where
  "sample_entry i = \<lparr> ve_id = of_nat i, ve_bls_pubkey = of_nat i, ve_vrf_pubkey = 0, ve_stake = 100,
     ve_identity = \<lparr> vi_asn = None, vi_cloud = None, vi_region = None \<rparr> \<rparr>"

definition sample_set :: "nat \<Rightarrow> ValidatorSet" where
  "sample_set n = \<lparr> vs_epoch = 0, vs_entries = map sample_entry [1..<Suc n],
     vs_total_stake = 100 * of_nat n \<rparr>"

text \<open>The host of member \<open>i\<close> of a committee of \<open>n\<close>, with an empty blob queue.\<close>

definition sample_host :: "nat \<Rightarrow> nat \<Rightarrow> unit HostContext" where
  "sample_host n i = \<lparr>
     dag_vertex = (\<lambda>h. Ok None),
     dag_vertices_at_round = (\<lambda>r. Ok []),
     valset_set_for = (\<lambda>e. Ok (Some (sample_set n))),
     valset_index_of = (\<lambda>e v. Ok None),
     beacon_current = Ok 0,
     signer_sign_bls = bls_sign sample_lib (of_nat i),
     signer_vrf_prove = (\<lambda>alpha. Ok (0, 0)),
     clock_now_nanos = 0,
     blobs_drain = no_pending_blobs_drain,
     blobs_confirm_attached = (\<lambda>bs s. s) \<rparr>"

lemma sample_entries: "vs_entries (sample_set 4) = [sample_entry 1, sample_entry 2, sample_entry 3, sample_entry 4]"
proof -
  have "[1..<Suc 4] = [1, 2, 3, 4]"
    by code_simp
  then show ?thesis
    by (simp add: sample_set_def)
qed

lemma sample_length: "length (vs_entries (sample_set 4)) = 4" "vs_entries (sample_set 4) \<noteq> []"
  by (simp_all add: sample_entries)

end
