(* ===== verification/Vertex_Runs.thy ===== *)
theory Vertex_Runs
  imports Vertex_Cert Sample_Committee
begin

text \<open>
  Correctness of vertex certification: an induction principle for the mutually recursive round
  functions, the invariant of a validator's run (everything it has emitted, together with its book),
  absence of panics and the stack depth that suffices, progress of rounds, and the exact condition
  under which a validator votes.
\<close>

section \<open>Induction over the call structure\<close>

lemma vc_run_Suc:
  "vc_run (Suc d) L cfg ctx (CallPropose rnd parents) =
     propose_round_body (vc_run d L cfg ctx) L cfg ctx rnd parents"
  "vc_run (Suc d) L cfg ctx (CallFinalize hash) =
     try_finalize_body (vc_run d L cfg ctx) L ctx hash"
  "vc_run (Suc d) L cfg ctx CallAdvance = maybe_advance_body (vc_run d L cfg ctx) ctx"
  "vc_run (Suc d) L cfg ctx (CallLoop need) = advance_loop_body (vc_run d L cfg ctx) need"
  by (simp_all add: fun_eq_iff Let_def)

declare vc_run.simps(2) [simp del]

text \<open>
  \<open>P c actions book\<close> is what a call \<open>c\<close> may rely on, \<open>Q actions book\<close> what it leaves when it
  succeeds and \<open>E book\<close> what it leaves when it does not.
\<close>

definition vc_post :: "(Actions \<Rightarrow> VertexBook \<Rightarrow> bool) \<Rightarrow> (VertexBook \<Rightarrow> bool) \<Rightarrow> 's vc_result \<Rightarrow> bool" where
  "vc_post Q E r \<longleftrightarrow> (case r of (Ok actions, st) \<Rightarrow> Q actions (fst st) | (_, st) \<Rightarrow> E (fst st))"

lemma vc_post_simps [simp]:
  "vc_post Q E (Ok a, st) = Q a (fst st)"
  "vc_post Q E (Err e, st) = E (fst st)"
  "vc_post Q E (Panic m, st) = E (fst st)"
  by (simp_all add: vc_post_def)

lemma vc_post_call:
  "E (fst s) \<Longrightarrow> (\<And>x. r = Ok x \<Longrightarrow> vc_post Q E (f x)) \<Longrightarrow> vc_post Q E (call r s f)"
  by (cases r) auto

lemma vc_post_bind:
  assumes "vc_post R E m" and "\<And>x s. R x (fst s) \<Longrightarrow> vc_post Q E (f x s)"
  shows "vc_post Q E (bind_st m f)"
proof -
  obtain r s where m: "m = (r, s)" by (cases m)
  show ?thesis using assms unfolding m by (cases r) auto
qed

lemma vc_run_rule:
  assumes propose: "\<And>rnd ps a b hs h a' b' hs'. P (CallPropose rnd ps) a b \<Longrightarrow>
      start_proposal L cfg ctx rnd ps a (b, hs) = (h, a', (b', hs')) \<Longrightarrow> P (CallFinalize h) a' b'"
    and finalize: "\<And>h a b cv. P (CallFinalize h) a b \<Longrightarrow> finalize_cert L ctx h b = Ok (Some cv) \<Longrightarrow>
      P CallAdvance (a @ [BroadcastCertifiedVertex cv])
        (record_cert cv (b\<lparr>vb_emitted_certs := insert h (vb_emitted_certs b)\<rparr>))"
    and advance: "\<And>a b vset need. P CallAdvance a b \<Longrightarrow> vb_started b \<Longrightarrow>
      active_set ctx = Ok vset \<Longrightarrow> quorum_need vset = Ok need \<Longrightarrow> P (CallLoop need) a b"
    and loop: "\<And>need a b certs. P (CallLoop need) a b \<Longrightarrow>
      bt_get (vb_certified_by_round b) (vb_current_round b) = Some certs \<Longrightarrow>
      need \<le> length certs \<Longrightarrow>
      P (CallPropose (vb_current_round b + 1) (take need (bt_values certs))) a b"
    and again: "\<And>need a b a' b'. P (CallLoop need) a b \<Longrightarrow> Q a' b' \<Longrightarrow> P (CallLoop need) a' b'"
    and exit: "\<And>c a b. P c a b \<Longrightarrow> Q a b" and fail: "\<And>a b. Q a b \<Longrightarrow> E b"
    and prune: "\<And>a b. Q a b \<Longrightarrow> Q a (prune b)"
  shows "P c a (fst st) \<Longrightarrow> vc_post Q E (vc_run d L cfg ctx c a st)"
proof (induction d arbitrary: c a st)
  case 0
  then show ?case using fail [OF exit] by auto
next
  case (Suc d)
  note pf = fail [OF exit]
  show ?case
  proof (cases c)
    case (CallPropose rnd ps)
    with Suc show ?thesis
      by (cases st) (auto simp: vc_run_Suc propose_round_body_def split: prod.splits
          dest!: propose)
  next
    case (CallFinalize h)
    with Suc.prems have p: "P (CallFinalize h) a (fst st)" by simp
    show ?thesis
      unfolding CallFinalize vc_run_Suc try_finalize_body_def
      by (intro vc_post_call pf [OF p])
        (auto split: option.split intro!: Suc.IH simp: exit [OF p] finalize [OF p])
  next
    case CallAdvance
    with Suc.prems have p: "P CallAdvance a (fst st)" by simp
    have "vc_post Q E (bind_st (vc_run d L cfg ctx (CallLoop need) a st)
        (\<lambda>actions' st'. (Ok actions', prune (fst st'), snd st')))"
      if "vb_started (fst st)" "active_set ctx = Ok vset" "quorum_need vset = Ok need" for vset need
      by (rule vc_post_bind [OF Suc.IH]) (use that in \<open>auto intro: advance [OF p] prune\<close>)
    then show ?thesis
      unfolding CallAdvance vc_run_Suc maybe_advance_body_def
      by (auto intro!: vc_post_call pf [OF p] exit [OF p])
  next
    case (CallLoop need)
    with Suc.prems have p: "P (CallLoop need) a (fst st)" by simp
    have "vc_post Q E (bind_st (vc_run d L cfg ctx (CallPropose (vb_current_round (fst st) + 1)
          (take need (bt_values certs))) a st) (vc_run d L cfg ctx (CallLoop need)))"
      if "bt_get (vb_certified_by_round (fst st)) (vb_current_round (fst st)) = Some certs"
        "need \<le> length certs" for certs
      by (rule vc_post_bind [OF Suc.IH]) (use that in \<open>auto intro: loop [OF p] Suc.IH again [OF p]\<close>)
    then show ?thesis
      unfolding CallLoop vc_run_Suc advance_loop_body_def
      by (auto split: option.split intro: exit [OF p])
  qed
qed

section \<open>The trace of a validator\<close>

fun vote_of :: "Action \<Rightarrow> VertexPartial option" where
  "vote_of (BroadcastVertexPartial pt) = Some pt"
| "vote_of _ = None"

fun proposal_of :: "Action \<Rightarrow> VertexProposal option" where
  "proposal_of (BroadcastVertexProposal p) = Some p"
| "proposal_of _ = None"

fun cert_of :: "Action \<Rightarrow> CertifiedVertex option" where
  "cert_of (BroadcastCertifiedVertex cv) = Some cv"
| "cert_of _ = None"

definition votes_in :: "Actions \<Rightarrow> VertexPartial list" where
  "votes_in tr = List.map_filter vote_of tr"

definition proposals_in :: "Actions \<Rightarrow> VertexProposal list" where
  "proposals_in tr = List.map_filter proposal_of tr"

definition certs_in :: "Actions \<Rightarrow> CertifiedVertex list" where
  "certs_in tr = List.map_filter cert_of tr"

lemma trace_simps [simp]:
  "votes_in [] = []" "votes_in (tr @ tr') = votes_in tr @ votes_in tr'"
  "proposals_in [] = []" "proposals_in (tr @ tr') = proposals_in tr @ proposals_in tr'"
  "certs_in [] = []" "certs_in (tr @ tr') = certs_in tr @ certs_in tr'"
  "votes_in (a # tr) = (case vote_of a of None \<Rightarrow> [] | Some v \<Rightarrow> [v]) @ votes_in tr"
  "proposals_in (a # tr) = (case proposal_of a of None \<Rightarrow> [] | Some v \<Rightarrow> [v]) @ proposals_in tr"
  "certs_in (a # tr) = (case cert_of a of None \<Rightarrow> [] | Some v \<Rightarrow> [v]) @ certs_in tr"
  by (auto simp: votes_in_def proposals_in_def certs_in_def List.map_filter_def split: option.split)

definition vote_key :: "VertexPartial \<Rightarrow> Round \<times> ValidatorId" where
  "vote_key pt = (pt_round pt, pt_author pt)"

section \<open>The invariant of a run\<close>

text \<open>
  \<open>tr\<close> is everything the validator has emitted so far, \<open>vset\<close> the committee and \<open>need\<close> its quorum.
\<close>

definition maps_ok :: "VertexBook \<Rightarrow> bool" where
  "maps_ok b \<longleftrightarrow> bt_inv (vb_certified_by_round b) \<and> bt_inv (vb_my_proposals b) \<and>
     (\<forall>r m. bt_get (vb_certified_by_round b) r = Some m \<longrightarrow> bt_inv m \<and>
        (\<forall>a \<in> dom (bt_get m). a \<noteq> vb_self_id b \<longrightarrow> r < - 2))"

definition own_proposals :: "Actions \<Rightarrow> VertexBook \<Rightarrow> VertexProposal set" where
  "own_proposals tr b = set (proposals_in tr) \<union> ran (bt_get (vb_my_proposals b))"

definition proposals_ok :: "'x crypto_lib \<Rightarrow> usize \<Rightarrow> Actions \<Rightarrow> VertexBook \<Rightarrow> bool" where
  "proposals_ok L need tr b \<longleftrightarrow>
     (\<not> vb_started b \<longrightarrow> own_proposals tr b = {}) \<and>
     inj_on (\<lambda>p. v_round (vp_vertex p)) (own_proposals tr b) \<and>
     (\<forall>p \<in> own_proposals tr b. v_round (vp_vertex p) \<le> vb_current_round b \<and>
        v_author (vp_vertex p) = vb_self_id b \<and>
        v_hash (vp_vertex p) = content_hash L (vp_vertex p) \<and>
        length (v_parents (vp_vertex p)) = (if v_round (vp_vertex p) = 0 then 0 else need))"

definition votes_ok :: "Actions \<Rightarrow> VertexBook \<Rightarrow> bool" where
  "votes_ok tr b \<longleftrightarrow> distinct (map vote_key (votes_in tr)) \<and>
     (\<forall>pt \<in> set (votes_in tr). pt_voter pt = vb_self_id b \<and> pt_author pt \<noteq> vb_self_id b \<and>
        (vote_key pt \<in> vb_voted b \<or> pt_round pt < sat_sub (vb_current_round b) 1))"

definition certs_ok :: "'x crypto_lib \<Rightarrow> ValidatorSet \<Rightarrow> Actions \<Rightarrow> VertexBook \<Rightarrow> bool" where
  "certs_ok L vset tr b \<longleftrightarrow> (\<forall>cv \<in> set (certs_in tr).
     verify_certified_vertex L cv vset = Ok () \<and> v_author (cv_vertex cv) = vb_self_id b)"

definition vb_inv :: "'x crypto_lib \<Rightarrow> ValidatorSet \<Rightarrow> usize \<Rightarrow> ValidatorId \<Rightarrow> Actions \<Rightarrow> VertexBook \<Rightarrow> bool" where
  "vb_inv L vset need me tr b \<longleftrightarrow> vb_self_id b = me \<and> maps_ok b \<and> proposals_ok L need tr b \<and>
     votes_ok tr b \<and> certs_ok L vset tr b \<and> (\<not> vb_started b \<longrightarrow> vb_current_round b = 0)"

lemma proposals_ok_subset:
  assumes "proposals_ok L need tr b" "own_proposals tr' b' \<subseteq> own_proposals tr b"
    "vb_current_round b' = vb_current_round b" "vb_self_id b' = vb_self_id b"
    "vb_started b' = vb_started b"
  shows "proposals_ok L need tr' b'"
proof -
  have "own_proposals tr' b' = {}" if "own_proposals tr b = {}"
    using that assms(2) by simp
  moreover have "inj_on (\<lambda>p. v_round (vp_vertex p)) (own_proposals tr' b')"
    using assms(1,2) inj_on_subset unfolding proposals_ok_def by blast
  ultimately show ?thesis
    using assms unfolding proposals_ok_def by (simp add: subset_iff)
qed

lemma vb_inv_prefix:
  assumes "vb_inv L vset need me (tr @ tr') b"
  shows "vb_inv L vset need me tr b"
proof -
  have "proposals_ok L need tr b"
    using assms by (auto simp: vb_inv_def own_proposals_def intro: proposals_ok_subset)
  moreover have "votes_ok tr b" "certs_ok L vset tr b"
    using assms by (auto simp: vb_inv_def votes_ok_def certs_ok_def)
  ultimately show ?thesis
    using assms by (simp add: vb_inv_def)
qed

subsection \<open>Fields each step touches\<close>

lemma record_cert_fields [simp]:
  "vb_self_id (record_cert cv b) = vb_self_id b"
  "vb_current_round (record_cert cv b) = vb_current_round b"
  "vb_started (record_cert cv b) = vb_started b"
  "vb_my_proposals (record_cert cv b) = vb_my_proposals b"
  "vb_voted (record_cert cv b) = vb_voted b"
  "vb_collecting (record_cert cv b) = vb_collecting b"
  "vb_emitted_certs (record_cert cv b) = vb_emitted_certs b"
  by (simp_all add: record_cert_def Let_def)

lemma prune_fields [simp]:
  "vb_self_id (prune b) = vb_self_id b"
  "vb_current_round (prune b) = vb_current_round b"
  "vb_started (prune b) = vb_started b"
  by (simp_all add: prune_def Let_def)

lemma seed_proposal_fields [simp]:
  "vb_self_id (seed_proposal p s b) = vb_self_id b"
  "vb_current_round (seed_proposal p s b) = v_round (vp_vertex p)"
  "vb_started (seed_proposal p s b) = vb_started b"
  "vb_certified_by_round (seed_proposal p s b) = vb_certified_by_round b"
  "vb_my_proposals (seed_proposal p s b) = bt_insert (v_hash (vp_vertex p)) p (vb_my_proposals b)"
  "vb_voted (seed_proposal p s b) = insert (v_round (vp_vertex p), vb_self_id b) (vb_voted b)"
  "vb_emitted_certs (seed_proposal p s b) = vb_emitted_certs b"
  by (simp_all add: seed_proposal_def Let_def split: prod.split)

lemma build_proposal_fields [simp]:
  "v_round (vp_vertex (build_proposal L ctx me rnd ps blobs)) = rnd"
  "v_author (vp_vertex (build_proposal L ctx me rnd ps blobs)) = me"
  "v_parents (vp_vertex (build_proposal L ctx me rnd ps blobs)) = ps"
  "v_blobs (vp_vertex (build_proposal L ctx me rnd ps blobs)) = blobs"
  "v_hash (vp_vertex (build_proposal L ctx me rnd ps blobs)) =
     content_hash L (vp_vertex (build_proposal L ctx me rnd ps blobs))"
  by (simp_all add: build_proposal_def Let_def seal_hash_def content_hash_def signing_bytes_def)

lemma proposal_actions_trace [simp]:
  "votes_in (proposal_actions cfg p b) = []"
  "certs_in (proposal_actions cfg p b) = []"
  "proposals_in (proposal_actions cfg p b) = [p]"
  by (simp_all add: proposal_actions_def split: option.split)

lemma start_proposalE:
  assumes "start_proposal L cfg ctx rnd ps a (b, hs) = (h, a', (b', hs'))"
  obtains p s where "p = build_proposal L ctx (vb_self_id b) rnd ps (fst (blobs_drain ctx hs))"
    "a' = a @ proposal_actions cfg p b" "b' = seed_proposal p s b" "h = v_hash (vp_vertex p)"
  using assms by (auto simp: start_proposal_def Let_def split: prod.splits)

lemma assemble_cert_vertex: "assemble_cert L v vset cs = Ok cv \<Longrightarrow> cv_vertex cv = v"
  by (auto simp: assemble_cert_def Let_def bind_out_Ok_iff split: if_splits)

lemma finalize_certE:
  assumes "finalize_cert L ctx h b = Ok (Some cv)"
  obtains p vset need sigs where "bt_get (vb_my_proposals b) h = Some p" "cv_vertex cv = vp_vertex p"
    "active_set ctx = Ok vset" "verify_certified_vertex L cv vset = Ok ()" "h \<notin> vb_emitted_certs b"
    "quorum_need vset = Ok need" "vb_collecting b h = Some sigs" "need \<le> length sigs"
  using assms
  by (auto simp: finalize_cert_def bind_out_Ok_iff map_err_Ok_iff assemble_cert_vertex
      split: if_splits option.splits)

subsection \<open>Preservation\<close>

lemma maps_ok_record:
  assumes "maps_ok b" "v_author (cv_vertex cv) = vb_self_id b \<or> v_round (cv_vertex cv) < - 2"
  shows "maps_ok (record_cert cv b)"
proof -
  let ?r = "v_round (cv_vertex cv)"
  define m where "m = (case bt_get (vb_certified_by_round b) ?r of None \<Rightarrow> bt_empty | Some m \<Rightarrow> m)"
  have m: "bt_inv m" "\<And>a h. bt_get m a = Some h \<Longrightarrow> a \<noteq> vb_self_id b \<Longrightarrow> ?r < - 2"
    using assms(1) by (auto simp: m_def maps_ok_def split: option.splits)
  have c: "vb_certified_by_round (record_cert cv b) =
      bt_insert ?r (bt_insert (v_author (cv_vertex cv)) (v_hash (cv_vertex cv)) m)
        (vb_certified_by_round b)"
    by (simp add: record_cert_def Let_def m_def)
  show ?thesis
    unfolding maps_ok_def c
    using assms m(1) by (auto simp: maps_ok_def domIff split: if_splits dest: m(2))
qed

lemma maps_ok_prune:
  assumes "maps_ok b"
  shows "maps_ok (prune b)"
  using assms by (auto simp: maps_ok_def prune_def Let_def bt.retain_get_Some)

lemma own_proposals_prune:
  assumes "maps_ok b"
  shows "own_proposals tr (prune b) \<subseteq> own_proposals tr b"
  using assms by (auto simp: own_proposals_def prune_def Let_def ran_def maps_ok_def bt.retain_get_Some)

lemma votes_ok_prune:
  assumes "votes_ok tr b"
  shows "votes_ok tr (prune b)"
  using assms by (fastforce simp: votes_ok_def prune_def Let_def vote_key_def)

lemma vb_inv_prune:
  assumes "vb_inv L vset need me tr b"
  shows "vb_inv L vset need me tr (prune b)"
  using assms proposals_ok_subset [of L need tr b tr "prune b"]
  by (simp add: vb_inv_def maps_ok_prune own_proposals_prune votes_ok_prune certs_ok_def)

lemma own_proposals_seed:
  "own_proposals (tr @ proposal_actions cfg p b) (seed_proposal p s b) \<subseteq> insert p (own_proposals tr b)"
  by (auto simp: own_proposals_def ran_def split: if_splits)

lemma u64_succ:
  fixes r :: u64
  assumes "r < - 2"
  shows "r < r + 1" "sat_sub (r + 1) 1 = r"
proof -
  have "unat r < unat (- 2 :: u64)"
    using assms by (simp add: word_less_nat_alt)
  then have "unat (r + 1) = unat r + 1"
    by (subst unat_add_lem [THEN iffD1]) (auto simp: unat_word_ariths)
  then show "r < r + 1" "sat_sub (r + 1) 1 = r"
    by (simp_all add: word_less_nat_alt sat_sub_def word_le_nat_alt)
qed


lemma vb_inv_start:
  assumes inv: "vb_inv L vset need me (tr @ a) b" and st: "vb_started b"
    and new: "\<And>p. p \<in> own_proposals (tr @ a) b \<Longrightarrow> v_round (vp_vertex p) < rnd"
    and mono: "sat_sub (vb_current_round b) 1 \<le> sat_sub rnd 1"
    and len: "length ps = (if rnd = 0 then 0 else need)"
    and start: "start_proposal L cfg ctx rnd ps a (b, hs) = (h, a', (b', hs'))"
  shows "vb_inv L vset need me (tr @ a') b'"
proof -
  obtain p s where p: "p = build_proposal L ctx (vb_self_id b) rnd ps (fst (blobs_drain ctx hs))"
    and a': "a' = a @ proposal_actions cfg p b" and b': "b' = seed_proposal p s b"
    using start by (rule start_proposalE)
  have rnd: "v_round (vp_vertex p) = rnd"
    by (simp add: p)
  have "proposals_ok L need (tr @ a') b'"
  proof -
    have sub: "own_proposals (tr @ a') b' \<subseteq> insert p (own_proposals (tr @ a) b)"
      using own_proposals_seed [of "tr @ a" cfg p b s] by (simp add: a' b')
    have "inj_on (\<lambda>p. v_round (vp_vertex p)) (insert p (own_proposals (tr @ a) b))"
      using inv new rnd by (fastforce simp: vb_inv_def proposals_ok_def inj_on_def)
    then have "inj_on (\<lambda>p. v_round (vp_vertex p)) (own_proposals (tr @ a') b')"
      using sub inj_on_subset by blast
    moreover have "v_round (vp_vertex q) \<le> rnd \<and> v_author (vp_vertex q) = vb_self_id b \<and>
        v_hash (vp_vertex q) = content_hash L (vp_vertex q) \<and>
        length (v_parents (vp_vertex q)) = (if v_round (vp_vertex q) = 0 then 0 else need)"
      if "q \<in> own_proposals (tr @ a') b'" for q
    proof (cases "q = p")
      case True
      then show ?thesis using len by (simp add: p)
    next
      case False
      then have "q \<in> own_proposals (tr @ a) b" using that sub by blast
      then show ?thesis using inv new [of q] by (auto simp: vb_inv_def proposals_ok_def)
    qed
    ultimately show ?thesis
      using st by (simp add: proposals_ok_def b' rnd)
  qed
  moreover have "votes_ok (tr @ a') b'"
    using inv mono by (fastforce simp: vb_inv_def votes_ok_def a' b' rnd)
  moreover have "maps_ok b'" "certs_ok L vset (tr @ a') b'"
    using inv by (auto simp: vb_inv_def maps_ok_def certs_ok_def a' b')
  ultimately show ?thesis
    using inv st by (simp add: vb_inv_def b')
qed

lemma vb_inv_finalize:
  assumes inv: "vb_inv L vset need me (tr @ a) b" and set: "active_set ctx = Ok vset"
    and fin: "finalize_cert L ctx h b = Ok (Some cv)"
  shows "vb_inv L vset need me (tr @ a @ [BroadcastCertifiedVertex cv])
    (record_cert cv (b\<lparr>vb_emitted_certs := insert h (vb_emitted_certs b)\<rparr>))"
proof -
  obtain p where p: "bt_get (vb_my_proposals b) h = Some p" "cv_vertex cv = vp_vertex p"
    and ver: "verify_certified_vertex L cv vset = Ok ()"
    using finalize_certE [OF fin] set by (metis outcome.inject(1))
  then have author: "v_author (cv_vertex cv) = vb_self_id b"
    using inv by (auto simp: vb_inv_def proposals_ok_def own_proposals_def ran_def)
  let ?b = "b\<lparr>vb_emitted_certs := insert h (vb_emitted_certs b)\<rparr>"
  have "maps_ok (record_cert cv ?b)"
    using inv author by (intro maps_ok_record) (simp_all add: vb_inv_def maps_ok_def)
  then show ?thesis
    using inv author ver
    by (auto simp: vb_inv_def proposals_ok_def own_proposals_def votes_ok_def certs_ok_def)
qed

lemma length_eq_card_dom: "bt_inv m \<Longrightarrow> length m = card (dom (bt_get m))"
  using bt.length_keys [of m] by (simp add: bt_keys_def)

lemma other_signer:
  assumes "bt_inv m" "2 \<le> length m"
  obtains a where "a \<in> dom (bt_get m)" "a \<noteq> x"
proof -
  have "\<not> dom (bt_get m) \<subseteq> {x}"
    using assms by (auto simp: length_eq_card_dom dest: card_mono [OF finite.insertI [OF finite.emptyI]])
  with that show ?thesis by blast
qed

definition vc_pre :: "'x crypto_lib \<Rightarrow> ValidatorSet \<Rightarrow> usize \<Rightarrow> ValidatorId \<Rightarrow> Actions \<Rightarrow>
    vc_call \<Rightarrow> Actions \<Rightarrow> VertexBook \<Rightarrow> bool" where
  "vc_pre L vset need me tr c a b \<longleftrightarrow> vb_inv L vset need me (tr @ a) b \<and> vb_started b \<and> (case c of
     CallPropose rnd ps \<Rightarrow> (\<forall>p \<in> own_proposals (tr @ a) b. v_round (vp_vertex p) < rnd) \<and>
       sat_sub (vb_current_round b) 1 \<le> sat_sub rnd 1 \<and>
       length ps = (if rnd = 0 then 0 else need)
   | CallLoop n \<Rightarrow> n = need
   | _ \<Rightarrow> True)"

lemma vc_pre_loop:
  assumes pre: "vc_pre L vset need me tr (CallLoop n) a b" and two: "2 \<le> need"
    and certs: "bt_get (vb_certified_by_round b) (vb_current_round b) = Some certs"
    and len: "n \<le> length certs"
  shows "vc_pre L vset need me tr
    (CallPropose (vb_current_round b + 1) (take n (bt_values certs))) a b"
proof -
  have inv: "vb_inv L vset need me (tr @ a) b" and n: "n = need"
    using pre by (auto simp: vc_pre_def)
  have "bt_inv certs"
    using inv certs by (auto simp: vb_inv_def maps_ok_def)
  then obtain x where "x \<in> dom (bt_get certs)" "x \<noteq> vb_self_id b"
    using other_signer [of certs "vb_self_id b"] two n len by auto
  then have "vb_current_round b < - 2"
    using inv certs unfolding vb_inv_def maps_ok_def by blast
  note succ = u64_succ [OF this]
  have pos: "vb_current_round b + 1 \<noteq> 0"
    using succ(1) by auto
  have "v_round (vp_vertex p) < vb_current_round b + 1" if "p \<in> own_proposals (tr @ a) b" for p
    using that inv succ(1) by (auto simp: vb_inv_def proposals_ok_def intro: le_less_trans)
  moreover have "sat_sub (vb_current_round b) 1 \<le> sat_sub (vb_current_round b + 1) 1"
    unfolding succ(2) by (rule sat_sub_le)
  ultimately show ?thesis
    using pre n len pos by (simp add: vc_pre_def bt_values_def)
qed

lemma vc_run_inv:
  assumes set: "active_set ctx = Ok vset" "quorum_need vset = Ok need" and two: "2 \<le> need"
    and pre: "vc_pre L vset need me tr c a (fst st)"
  shows "vc_post (\<lambda>a b. vb_inv L vset need me (tr @ a) b \<and> vb_started b)
    (vb_inv L vset need me tr) (vc_run d L cfg ctx c a st)"
proof (rule vc_run_rule [where P = "vc_pre L vset need me tr", OF _ _ _ _ _ _ _ _ pre])
  fix rnd ps a b hs h a' b' hs'
  assume p: "vc_pre L vset need me tr (CallPropose rnd ps) a b"
    and s: "start_proposal L cfg ctx rnd ps a (b, hs) = (h, a', (b', hs'))"
  then have "vb_inv L vset need me (tr @ a') b'"
    by (auto simp: vc_pre_def intro: vb_inv_start)
  moreover obtain q sg where "b' = seed_proposal q sg b"
    using s by (rule start_proposalE)
  with p have "vb_started b'"
    by (simp add: vc_pre_def)
  ultimately show "vc_pre L vset need me tr (CallFinalize h) a' b'"
    by (simp add: vc_pre_def)
next
  fix h a b cv
  assume "vc_pre L vset need me tr (CallFinalize h) a b" "finalize_cert L ctx h b = Ok (Some cv)"
  then show "vc_pre L vset need me tr CallAdvance (a @ [BroadcastCertifiedVertex cv])
      (record_cert cv (b\<lparr>vb_emitted_certs := insert h (vb_emitted_certs b)\<rparr>))"
    using vb_inv_finalize [OF _ set(1)] by (auto simp: vc_pre_def)
next
  fix n a b certs
  assume "vc_pre L vset need me tr (CallLoop n) a b" "n \<le> length certs"
    "bt_get (vb_certified_by_round b) (vb_current_round b) = Some certs"
  then show "vc_pre L vset need me tr
      (CallPropose (vb_current_round b + 1) (take n (bt_values certs))) a b"
    using two by (intro vc_pre_loop)
next
  fix a b
  assume "vb_inv L vset need me (tr @ a) b \<and> vb_started b"
  then show "vb_inv L vset need me tr b"
    by (blast intro: vb_inv_prefix)
qed (use set in \<open>simp_all add: vc_pre_def vb_inv_prune\<close>)

subsection \<open>Handlers\<close>

text \<open>What the handlers for proposals and timers do not touch.\<close>

lemma vb_inv_fields:
  assumes "vb_inv L vset need me tr b"
    "vb_self_id b' = vb_self_id b" "vb_current_round b' = vb_current_round b"
    "vb_started b' = vb_started b" "vb_certified_by_round b' = vb_certified_by_round b"
    "vb_my_proposals b' = vb_my_proposals b" "vb_voted b' = vb_voted b"
  shows "vb_inv L vset need me tr b'"
  using assms
  by (auto simp: vb_inv_def maps_ok_def proposals_ok_def own_proposals_def votes_ok_def certs_ok_def)

lemma window_not_pruned:
  assumes "round_in_window b r"
  shows "\<not> r < sat_sub (vb_current_round b) 1"
proof
  assume lt: "r < sat_sub (vb_current_round b) 1"
  have w: "vb_current_round b \<le> r + 1"
    using assms by (simp add: round_in_window_def)
  have "unat r < unat (vb_current_round b) - 1"
    using lt by (simp add: word_less_nat_alt unat_sat_sub)
  then have "unat r + 1 < 2 ^ 64"
    using unat_less_exp [of "vb_current_round b"] by simp
  then have "unat (r + 1) = unat r + 1"
    by (simp add: unat_plus_if')
  with w \<open>unat r < unat (vb_current_round b) - 1\<close> show False
    by (simp add: word_le_nat_alt)
qed

lemma cast_vote_inv:
  assumes inv: "vb_inv L vset need me tr b" and win: "round_in_window b (v_round (vp_vertex p))"
    and other: "v_author (vp_vertex p) \<noteq> vb_self_id b"
    and res: "cast_vote L p ctx b = (r, b')"
  shows "\<exists>a. r = Ok a \<and> vb_inv L vset need me (tr @ a) b'"
proof (cases "(v_round (vp_vertex p), v_author (vp_vertex p)) \<in> vb_voted b")
  case True
  with res inv show ?thesis by (auto simp: cast_vote_def Let_def)
next
  case False
  let ?k = "(v_round (vp_vertex p), v_author (vp_vertex p))"
  obtain pt where pt: "r = Ok [BroadcastVertexPartial pt]" "vote_key pt = ?k"
    "pt_voter pt = vb_self_id b" and b': "b' = b\<lparr>vb_voted := insert ?k (vb_voted b)\<rparr>"
    using False res by (auto simp: cast_vote_def Let_def vote_key_def)
  have "?k \<notin> vote_key ` set (votes_in tr)"
    using inv False window_not_pruned [OF win]
    by (auto simp: vb_inv_def votes_ok_def vote_key_def)
  then have "votes_ok (tr @ [BroadcastVertexPartial pt]) b'"
    using inv pt other by (auto simp: vb_inv_def votes_ok_def vote_key_def b')
  moreover have "vb_inv L vset need me tr (b'\<lparr>vb_voted := vb_voted b\<rparr>)"
    by (rule vb_inv_fields [OF inv]) (simp_all add: b')
  ultimately show ?thesis
    using pt by (simp add: vb_inv_def maps_ok_def proposals_ok_def own_proposals_def certs_ok_def b')
qed

lemma check_parents_inv:
  assumes inv: "vb_inv L vset need me tr b" and win: "round_in_window b (v_round (vp_vertex p))"
    and other: "v_author (vp_vertex p) \<noteq> vb_self_id b"
    and res: "check_parents_and_vote L vs p ctx b = (r, b')"
  shows "vb_inv L vset need me (tr @ (case r of Ok a \<Rightarrow> a | _ \<Rightarrow> [])) b'"
proof -
  have rej: "vb_inv L vset need me tr (reject_crypto b)"
    by (rule vb_inv_fields [OF inv]) simp_all
  have vote: "vb_inv L vset need me (tr @ (case r of Ok a \<Rightarrow> a | _ \<Rightarrow> [])) b'"
    if "cast_vote L p ctx b = (r, b')"
    using cast_vote_inv [OF inv win other that] by auto
  show ?thesis
  proof (cases "quorum_need vs")
    case (Ok n)
    then show ?thesis
      using res inv rej vote
      by (auto simp: check_parents_and_vote_def Let_def split: if_splits)
  qed (use res inv rej vote in \<open>auto simp: check_parents_and_vote_def Let_def split: if_splits\<close>)
qed

lemma on_vertex_proposal_inv:
  assumes inv: "vb_inv L vset need me tr b"
    and res: "on_vertex_proposal L p ctx b = (r, b')"
  shows "vb_inv L vset need me (tr @ (case r of Ok a \<Rightarrow> a | _ \<Rightarrow> [])) b'"
proof (cases "active_set ctx")
  case (Ok vs)
  have rej: "vb_inv L vset need me tr (reject_crypto b)"
    by (rule vb_inv_fields [OF inv]) simp_all
  let ?b = "\<lambda>f. b\<lparr>vb_proposals_seen := f\<rparr>"
  have seen: "vb_inv L vset need me tr (?b f)" for f
    by (rule vb_inv_fields [OF inv]) simp_all
  have win: "round_in_window (?b f) x = round_in_window b x" for f x
    by (simp add: round_in_window_def)
  have slash: "vb_inv L vset need me (tr @ [EmitSlashEvidence x e]) b" for x e
    using inv by (auto simp: vb_inv_def proposals_ok_def own_proposals_def votes_ok_def certs_ok_def)
  show ?thesis
    using res inv rej slash check_parents_inv [OF inv] check_parents_inv [OF seen]
    unfolding on_vertex_proposal_def Ok call_simps Let_def
    by (auto simp: win split: if_splits option.splits)
qed (use res inv in \<open>auto simp: on_vertex_proposal_def\<close>)

lemma timer_inv:
  assumes inv: "vb_inv L vset need me tr b"
    and res: "vc_on_timer_fired cfg ctx tid [] b = (r, b')"
  shows "vb_inv L vset need me (tr @ (case r of Ok a \<Rightarrow> a | _ \<Rightarrow> [])) b'"
proof -
  have same: "vb_inv L vset need me tr b'"
    by (rule vb_inv_fields [OF inv])
      (use res in \<open>auto simp: vc_on_timer_fired_def Let_def call_def
        split: if_splits outcome.splits prod.splits\<close>)
  have "r = Ok a \<Longrightarrow> votes_in a = [] \<and> certs_in a = [] \<and>
      set (proposals_in a) \<subseteq> ran (bt_get (vb_my_proposals b'))" for a
    using res inv
    by (auto simp: vc_on_timer_fired_def Let_def call_def find_Some_iff set_bt_values [symmetric]
        vb_inv_def maps_ok_def
        split: if_splits outcome.splits prod.splits option.splits)
  then show ?thesis
    using same by (cases r) (auto simp: vb_inv_def proposals_ok_def own_proposals_def votes_ok_def
        certs_ok_def Un_absorb2 subset_Un_eq [THEN iffD1] Un_assoc)
qed

subsection \<open>Runs\<close>

datatype vc_input =
    InGenesis
  | InProposal VertexProposal
  | InPartial VertexPartial
  | InCertified CertifiedVertex
  | InTimer TimerId

fun vc_step :: "nat \<Rightarrow> 'x crypto_lib \<Rightarrow> Config \<Rightarrow> 's HostContext \<Rightarrow> vc_input \<Rightarrow> VertexBook \<times> 's \<Rightarrow>
    's vc_result" where
  "vc_step d L cfg ctx InGenesis st = genesis_propose d L cfg ctx st"
| "vc_step d L cfg ctx (InProposal p) st =
     (case on_vertex_proposal L p ctx (fst st) of (r, b) \<Rightarrow> (r, (b, snd st)))"
| "vc_step d L cfg ctx (InPartial bp) st = on_vertex_partial d L cfg bp ctx st"
| "vc_step d L cfg ctx (InCertified cv) st = on_certified_vertex d L cfg cv ctx [] st"
| "vc_step d L cfg ctx (InTimer tid) st =
     (case vc_on_timer_fired cfg ctx tid [] (fst st) of (r, b) \<Rightarrow> (r, (b, snd st)))"

definition emitted :: "(Error, Actions) outcome \<Rightarrow> Actions" where
  "emitted r = (case r of Ok a \<Rightarrow> a | _ \<Rightarrow> [])"

text \<open>No peer certifies a vertex in the last two of the \<open>2^64\<close> rounds.\<close>

fun input_ok :: "ValidatorId \<Rightarrow> vc_input \<Rightarrow> bool" where
  "input_ok me (InCertified cv) \<longleftrightarrow> v_author (cv_vertex cv) = me \<or> v_round (cv_vertex cv) < - 2"
| "input_ok me _ \<longleftrightarrow> True"

inductive vc_reach :: "'x crypto_lib \<Rightarrow> Config \<Rightarrow> ValidatorSet \<Rightarrow> ValidatorId \<Rightarrow>
    VertexBook \<times> 's \<Rightarrow> Actions \<Rightarrow> bool" for L cfg vset me where
  init: "vc_reach L cfg vset me (vertex_book_new me, hs) []"
| step: "vc_reach L cfg vset me st tr \<Longrightarrow> active_set ctx = Ok vset \<Longrightarrow> input_ok me inp \<Longrightarrow>
    vc_step d L cfg ctx inp st = (r, st') \<Longrightarrow> vc_reach L cfg vset me st' (tr @ emitted r)"

lemma vc_post_emitted:
  "vc_post (\<lambda>a b. vb_inv L vset need me (tr @ a) b \<and> vb_started b) (vb_inv L vset need me tr)
     (r, st) \<Longrightarrow> vb_inv L vset need me (tr @ emitted r) (fst st)"
  by (cases r) (auto simp: emitted_def)

lemma vb_inv_new: "vb_inv L vset need me [] (vertex_book_new me)"
  by (simp add: vb_inv_def vertex_book_new_def maps_ok_def proposals_ok_def own_proposals_def
      votes_ok_def certs_ok_def ran_def)

lemma genesis_pre:
  assumes "vb_inv L vset need me tr b" "\<not> vb_started b"
  shows "vc_pre L vset need me tr (CallPropose 0 []) [] (b\<lparr>vb_started := True\<rparr>)"
proof -
  have "own_proposals tr (b\<lparr>vb_started := True\<rparr>) = {}" "vb_current_round b = 0"
    using assms by (auto simp: vb_inv_def proposals_ok_def own_proposals_def)
  moreover have "vb_inv L vset need me tr (b\<lparr>vb_started := True\<rparr>)"
    using assms by (auto simp: vb_inv_def maps_ok_def proposals_ok_def own_proposals_def votes_ok_def
        certs_ok_def)
  ultimately show ?thesis
    by (simp add: vc_pre_def)
qed

lemma certified_inv:
  assumes "vb_inv L vset need me tr b" "input_ok me (InCertified cv)"
  shows "vb_inv L vset need me tr (record_cert cv b)"
  using assms maps_ok_record [of b cv]
  by (auto simp: vb_inv_def proposals_ok_def own_proposals_def votes_ok_def certs_ok_def)

lemma partial_pre:
  assumes "vb_inv L vset need me tr b" "bt_get (vb_my_proposals b) h' = Some q"
  shows "vc_pre L vset need me tr (CallFinalize h) [] (b\<lparr>vb_collecting := c\<rparr>)"
proof -
  have "vb_started b"
    using assms by (auto simp: vb_inv_def proposals_ok_def own_proposals_def ran_def)
  moreover have "vb_inv L vset need me tr (b\<lparr>vb_collecting := c\<rparr>)"
    by (rule vb_inv_fields [OF assms(1)]) simp_all
  ultimately show ?thesis
    by (simp add: vc_pre_def)
qed

lemma genesis_inv:
  assumes set: "active_set ctx = Ok vset" "quorum_need vset = Ok need" "2 \<le> need"
    and inv: "vb_inv L vset need me tr (fst st)"
    and res: "genesis_propose d L cfg ctx st = (r, st')"
  shows "vb_inv L vset need me (tr @ emitted r) (fst st')"
proof (cases "vb_started (fst st)")
  case True
  with res inv show ?thesis by (auto simp: genesis_propose_def emitted_def)
next
  case False
  let ?st = "((fst st)\<lparr>vb_started := True\<rparr>, snd st)"
  have "vc_pre L vset need me tr (CallPropose 0 []) [] (fst ?st)"
    using genesis_pre [OF inv False] by simp
  from vc_run_inv [OF set this, where d = d and cfg = cfg] show ?thesis
    using False res by (intro vc_post_emitted) (simp add: genesis_propose_def propose_round_def)
qed

lemma on_certified_unstarted:
  "\<not> vb_started (fst st) \<Longrightarrow> on_certified_vertex (Suc d) L cfg cv ctx a st =
    (Ok a, (record_cert cv (fst st), snd st))"
  by (simp add: on_certified_vertex_def maybe_advance_def vc_run_Suc maybe_advance_body_def)

lemma on_certified_inv:
  assumes set: "active_set ctx = Ok vset" "quorum_need vset = Ok need" "2 \<le> need"
    and inv: "vb_inv L vset need me tr (fst st)" and ok: "input_ok me (InCertified cv)"
    and res: "on_certified_vertex d L cfg cv ctx [] st = (r, st')"
  shows "vb_inv L vset need me (tr @ emitted r) (fst st')"
proof (cases "vb_started (fst st)")
  case True
  then have "vc_pre L vset need me tr CallAdvance [] (fst (record_cert cv (fst st), snd st))"
    using certified_inv [OF inv ok] by (simp add: vc_pre_def)
  from vc_run_inv [OF set this, where d = d and cfg = cfg] show ?thesis
    using res by (intro vc_post_emitted) (simp add: on_certified_vertex_def maybe_advance_def)
next
  case False
  show ?thesis
  proof (cases d)
    case 0
    then show ?thesis
      using res certified_inv [OF inv ok]
      by (auto simp: on_certified_vertex_def maybe_advance_def emitted_def)
  next
    case (Suc d')
    then show ?thesis
      using res certified_inv [OF inv ok] by (auto simp: emitted_def on_certified_unstarted [OF False])
  qed
qed

lemma on_partial_inv:
  assumes set: "active_set ctx = Ok vset" "quorum_need vset = Ok need" "2 \<le> need"
    and inv: "vb_inv L vset need me tr (fst st)"
    and res: "on_vertex_partial d L cfg bp ctx st = (r, st')"
  shows "vb_inv L vset need me (tr @ emitted r) (fst st')"
proof -
  have c: "vb_inv L vset need me tr ((fst st)\<lparr>vb_collecting := c\<rparr>)" for c
    by (rule vb_inv_fields [OF inv]) simp_all
  have cc: "vb_inv L vset need me tr ((fst st)\<lparr>vb_collecting := c, vb_partial_conflicts := y\<rparr>)" for c y
    by (rule vb_inv_fields [OF inv]) simp_all
  have cr: "vb_inv L vset need me tr ((fst st)\<lparr>vb_collecting := c, vb_rejected_crypto := y\<rparr>)" for c y
    by (rule vb_inv_fields [OF inv]) simp_all
  have fin: "vb_inv L vset need me (tr @ emitted r) (fst st')"
    if "try_finalize d L cfg ctx h [] ((fst st)\<lparr>vb_collecting := cl\<rparr>, snd st) = (r, st')"
      "bt_get (vb_my_proposals (fst st)) (pt_vertex_hash bp) = Some q" for h cl q
  proof -
    have "vc_pre L vset need me tr (CallFinalize h) [] (fst ((fst st)\<lparr>vb_collecting := cl\<rparr>, snd st))"
      using partial_pre [OF inv that(2)] by simp
    from vc_run_inv [OF set this, where d = d and cfg = cfg] show ?thesis
      using that(1) by (intro vc_post_emitted) (simp add: try_finalize_def)
  qed
  show ?thesis
    using res inv c cc cr fin
    by (auto simp: on_vertex_partial_def Let_def set(1) emitted_def split: if_splits option.splits)
qed

lemma vc_reach_inv:
  assumes "vc_reach L cfg vset me st tr" "quorum_need vset = Ok need" "2 \<le> need"
  shows "vb_inv L vset need me tr (fst st)"
  using assms(1)
proof (induction rule: vc_reach.induct)
  case (init hs)
  show ?case by (simp add: vb_inv_new)
next
  case (step st tr ctx inp d r st')
  note set = step.hyps(2) assms(2,3)
  show ?case
  proof (cases inp)
    case InGenesis
    with step.hyps genesis_inv [OF set step.IH] show ?thesis by simp
  next
    case (InProposal p)
    with step on_vertex_proposal_inv [of L vset need me tr "fst st" p ctx] show ?thesis
      by (auto simp: emitted_def split: prod.splits)
  next
    case (InPartial bp)
    with step.hyps on_partial_inv [OF set step.IH] show ?thesis by simp
  next
    case (InCertified cv)
    with step.hyps on_certified_inv [OF set step.IH] show ?thesis by simp
  next
    case (InTimer tid)
    with step timer_inv [of L vset need me tr "fst st" cfg ctx tid] show ?thesis
      by (auto simp: emitted_def split: prod.splits)
  qed
qed

section \<open>Absence of panics\<close>

lemma no_panic_finalize:
  assumes "active_set ctx = Ok vset" "quorum_need vset = Ok need"
  shows "no_panic (finalize_cert L ctx h b)"
  using assms by (auto simp: finalize_cert_def intro!: no_panic_bind split: option.split)

section \<open>Stack depth\<close>

definition peer_certified :: "VertexBook \<Rightarrow> Round \<Rightarrow> bool" where
  "peer_certified b r \<longleftrightarrow> (\<exists>m a. bt_get (vb_certified_by_round b) r = Some m \<and> a \<in> dom (bt_get m) \<and>
     a \<noteq> vb_self_id b)"

definition peer_rounds :: "Round \<Rightarrow> VertexBook \<Rightarrow> nat" where
  "peer_rounds from b = card {r. from \<le> r \<and> peer_certified b r}"

fun call_from :: "vc_call \<Rightarrow> VertexBook \<Rightarrow> Round" where
  "call_from (CallPropose rnd _) b = rnd"
| "call_from _ b = vb_current_round b"

fun call_extra :: "vc_call \<Rightarrow> nat" where
  "call_extra (CallPropose _ _) = 4"
| "call_extra (CallFinalize _) = 3"
| "call_extra CallAdvance = 2"
| "call_extra (CallLoop _) = 1"

definition depth_bound :: "vc_call \<Rightarrow> VertexBook \<Rightarrow> nat" where
  "depth_bound c b = 4 * peer_rounds (call_from c b) b + call_extra c"

lemma depth_bound_pos [simp]: "depth_bound c b \<noteq> 0"
  by (cases c) (auto simp: depth_bound_def)

lemma finite_peer_rounds: "maps_ok b \<Longrightarrow> finite {r. from \<le> r \<and> peer_certified b r}"
  by (rule finite_subset [of _ "dom (bt_get (vb_certified_by_round b))"])
    (auto simp: peer_certified_def maps_ok_def bt.finite_dom)

lemma peer_certified_seed [simp]: "peer_certified (seed_proposal p s b) r = peer_certified b r"
  by (simp add: peer_certified_def)

lemma peer_certified_record_own [simp]:
  "v_author (cv_vertex cv) = vb_self_id b \<Longrightarrow> peer_certified (record_cert cv b) r = peer_certified b r"
  by (auto simp: peer_certified_def record_cert_def Let_def domIff split: option.splits)

lemma peer_certified_emitted [simp]:
  "peer_certified (b\<lparr>vb_emitted_certs := x\<rparr>) r = peer_certified b r"
  by (simp add: peer_certified_def)

lemma peer_rounds_prune:
  assumes "maps_ok b"
  shows "peer_rounds from (prune b) \<le> peer_rounds from b"
  unfolding peer_rounds_def using assms
  by (intro card_mono finite_peer_rounds)
    (auto simp: peer_certified_def prune_def Let_def bt.retain_get_Some maps_ok_def)

lemma peer_rounds_succ:
  assumes "maps_ok b" "peer_certified b r" "r < r + 1"
  shows "peer_rounds (r + 1) b < peer_rounds r b"
proof -
  have "r \<in> {s. r \<le> s \<and> peer_certified b s}" "r \<notin> {s. r + 1 \<le> s \<and> peer_certified b s}"
    using assms(2,3) by auto
  moreover have "{s. r + 1 \<le> s \<and> peer_certified b s} \<subseteq> {s. r \<le> s \<and> peer_certified b s}"
    using assms(3) by auto
  ultimately have "{s. r + 1 \<le> s \<and> peer_certified b s} \<subset> {s. r \<le> s \<and> peer_certified b s}"
    by blast
  then show ?thesis
    unfolding peer_rounds_def by (rule psubset_card_mono [OF finite_peer_rounds [OF assms(1)]])
qed

lemma peer_rounds_le: "r \<le> r' \<Longrightarrow> maps_ok b \<Longrightarrow> peer_rounds r' b \<le> peer_rounds r b"
  unfolding peer_rounds_def by (intro card_mono finite_peer_rounds) auto


lemma vc_pre_maps: "vc_pre L vset need me tr c a b \<Longrightarrow> maps_ok b"
  by (simp add: vc_pre_def vb_inv_def)

lemma vc_pre_start:
  assumes p: "vc_pre L vset need me tr (CallPropose rnd ps) a b"
    and s: "start_proposal L cfg ctx rnd ps a (b, hs) = (h, a', (b', hs'))"
  shows "vc_pre L vset need me tr (CallFinalize h) a' b'"
    and "vb_current_round b' = rnd" and "\<And>r. peer_certified b' r = peer_certified b r"
proof -
  obtain q sg where q: "q = build_proposal L ctx (vb_self_id b) rnd ps (fst (blobs_drain ctx hs))"
    "b' = seed_proposal q sg b"
    using s by (rule start_proposalE)
  then show "vb_current_round b' = rnd" "\<And>r. peer_certified b' r = peer_certified b r"
    by simp_all
  have "vb_inv L vset need me (tr @ a') b'"
    using p s by (auto simp: vc_pre_def intro: vb_inv_start)
  then show "vc_pre L vset need me tr (CallFinalize h) a' b'"
    using p q by (simp add: vc_pre_def)
qed

lemma vc_pre_finalize:
  assumes "vc_pre L vset need me tr (CallFinalize h) a b" "active_set ctx = Ok vset"
    and fin: "finalize_cert L ctx h b = Ok (Some cv)"
  defines "b' \<equiv> record_cert cv (b\<lparr>vb_emitted_certs := insert h (vb_emitted_certs b)\<rparr>)"
  shows "vc_pre L vset need me tr CallAdvance (a @ [BroadcastCertifiedVertex cv]) b'"
    and "\<And>r. peer_certified b' r = peer_certified b r"
proof -
  show pre: "vc_pre L vset need me tr CallAdvance (a @ [BroadcastCertifiedVertex cv]) b'"
    using assms(1) vb_inv_finalize [OF _ assms(2) fin] by (auto simp: vc_pre_def b'_def)
  then have "v_author (cv_vertex cv) = vb_self_id b"
    by (simp add: vc_pre_def vb_inv_def certs_ok_def b'_def)
  then show "\<And>r. peer_certified b' r = peer_certified b r"
    by (simp add: b'_def)
qed

lemma vc_pre_peer:
  assumes pre: "vc_pre L vset need me tr (CallLoop n) a b" and two: "2 \<le> need"
    and certs: "bt_get (vb_certified_by_round b) (vb_current_round b) = Some certs"
    and len: "n \<le> length certs"
  shows "peer_certified b (vb_current_round b)" "vb_current_round b < vb_current_round b + 1"
proof -
  have inv: "vb_inv L vset need me (tr @ a) b" and n: "n = need"
    using pre by (auto simp: vc_pre_def)
  then have "bt_inv certs"
    using certs by (auto simp: vb_inv_def maps_ok_def)
  then obtain x where x: "x \<in> dom (bt_get certs)" "x \<noteq> vb_self_id b"
    using other_signer [of certs "vb_self_id b"] two n len by auto
  then show "peer_certified b (vb_current_round b)"
    using certs by (auto simp: peer_certified_def)
  from x have "vb_current_round b < - 2"
    using inv certs unfolding vb_inv_def maps_ok_def by blast
  then show "vb_current_round b < vb_current_round b + 1"
    by (rule u64_succ)
qed

definition bounded_result :: "nat \<Rightarrow> 's vc_result \<Rightarrow> bool" where
  "bounded_result n r \<longleftrightarrow> no_panic (fst r) \<and> (\<forall>a. fst r = Ok a \<longrightarrow>
     peer_rounds (vb_current_round (fst (snd r))) (fst (snd r)) \<le> n)"

lemma bounded_result_simps [simp]:
  "bounded_result n (Ok a, st) \<longleftrightarrow> peer_rounds (vb_current_round (fst st)) (fst st) \<le> n"
  "bounded_result n (Err e, st)"
  by (simp_all add: bounded_result_def)

lemma bounded_result_mono: "bounded_result n r \<Longrightarrow> n \<le> m \<Longrightarrow> bounded_result m r"
  by (auto simp: bounded_result_def)

text \<open>
  Each round the validator enters beyond the first was certified by a peer, so the recursion is at
  most four calls deep per such round.
\<close>

definition depth_ok :: "'x crypto_lib \<Rightarrow> ValidatorSet \<Rightarrow> usize \<Rightarrow> ValidatorId \<Rightarrow> Actions \<Rightarrow> Config \<Rightarrow>
    's HostContext \<Rightarrow> nat \<Rightarrow> bool" where
  "depth_ok L vset need me tr cfg ctx d \<longleftrightarrow> (\<forall>c a st. vc_pre L vset need me tr c a (fst st) \<longrightarrow>
     depth_bound c (fst st) \<le> d \<longrightarrow>
     bounded_result (peer_rounds (call_from c (fst st)) (fst st)) (vc_run d L cfg ctx c a st))"

lemma depth_propose:
  assumes IH: "depth_ok L vset need me tr cfg ctx d"
    and pre: "vc_pre L vset need me tr (CallPropose rnd ps) a (fst st)"
    and d: "depth_bound (CallPropose rnd ps) (fst st) \<le> Suc d"
  shows "bounded_result (peer_rounds rnd (fst st))
    (vc_run (Suc d) L cfg ctx (CallPropose rnd ps) a st)"
proof -
  obtain h a' b' hs' where s: "start_proposal L cfg ctx rnd ps a (fst st, snd st) = (h, a', (b', hs'))"
    by (metis prod_cases4)
  note next' = vc_pre_start [OF pre s]
  then have "peer_rounds (vb_current_round b') b' = peer_rounds rnd (fst st)"
    by (simp add: peer_rounds_def)
  then show ?thesis
    using d IH [unfolded depth_ok_def, rule_format, of "CallFinalize h" a' "(b', hs')"] next'(1) s
    by (simp add: vc_run_Suc propose_round_body_def depth_bound_def)
qed

lemma depth_finalize:
  assumes set: "active_set ctx = Ok vset" "quorum_need vset = Ok need"
    and IH: "depth_ok L vset need me tr cfg ctx d"
    and pre: "vc_pre L vset need me tr (CallFinalize h) a (fst st)"
    and d: "depth_bound (CallFinalize h) (fst st) \<le> Suc d"
  shows "bounded_result (peer_rounds (vb_current_round (fst st)) (fst st))
    (vc_run (Suc d) L cfg ctx (CallFinalize h) a st)"
proof (cases "finalize_cert L ctx h (fst st)")
  case (Ok r)
  show ?thesis
  proof (cases r)
    case (Some cv)
    let ?b' = "record_cert cv ((fst st)\<lparr>vb_emitted_certs := insert h (vb_emitted_certs (fst st))\<rparr>)"
    note fin = vc_pre_finalize [OF pre set(1) Ok [unfolded Some]]
    then have "peer_rounds (vb_current_round ?b') ?b' =
        peer_rounds (vb_current_round (fst st)) (fst st)"
      by (simp add: peer_rounds_def)
    then show ?thesis
      using d IH [unfolded depth_ok_def, rule_format, of CallAdvance
          "a @ [BroadcastCertifiedVertex cv]" "(?b', snd st)"] fin(1)
      by (simp add: vc_run_Suc try_finalize_body_def depth_bound_def Ok Some)
  qed (simp add: vc_run_Suc try_finalize_body_def Ok)
qed (use no_panic_finalize [OF set, of L h "fst st"] in
    \<open>simp_all add: vc_run_Suc try_finalize_body_def\<close>)

lemma depth_advance:
  assumes set: "active_set ctx = Ok vset" "quorum_need vset = Ok need" "2 \<le> need"
    and IH: "depth_ok L vset need me tr cfg ctx d"
    and pre: "vc_pre L vset need me tr CallAdvance a (fst st)"
    and d: "depth_bound CallAdvance (fst st) \<le> Suc d"
  shows "bounded_result (peer_rounds (vb_current_round (fst st)) (fst st))
    (vc_run (Suc d) L cfg ctx CallAdvance a st)"
proof -
  have pre': "vc_pre L vset need me tr (CallLoop need) a (fst st)" and st: "vb_started (fst st)"
    using pre by (simp_all add: vc_pre_def)
  obtain r st1 where run: "vc_run d L cfg ctx (CallLoop need) a st = (r, st1)"
    by (meson surj_pair)
  have bound: "bounded_result (peer_rounds (vb_current_round (fst st)) (fst st)) (r, st1)"
    using d IH [unfolded depth_ok_def, rule_format, OF pre'] run by (simp add: depth_bound_def)
  have maps: "maps_ok (fst st1)" if "r = Ok a'" for a'
    using vc_run_inv [OF set pre', of d cfg] run that by (auto simp: vb_inv_def)
  show ?thesis
    using bound peer_rounds_prune [OF maps]
    by (cases r) (auto simp: vc_run_Suc maybe_advance_body_def st set(1,2) run bounded_result_def
        intro: order_trans)
qed

lemma depth_loop:
  assumes set: "active_set ctx = Ok vset" "quorum_need vset = Ok need" "2 \<le> need"
    and IH: "depth_ok L vset need me tr cfg ctx d"
    and pre: "vc_pre L vset need me tr (CallLoop n) a (fst st)"
    and d: "depth_bound (CallLoop n) (fst st) \<le> Suc d"
    and certs: "bt_get (vb_certified_by_round (fst st)) (vb_current_round (fst st)) = Some certs"
    and len: "n \<le> length certs"
  shows "bounded_result (peer_rounds (vb_current_round (fst st)) (fst st))
    (vc_run (Suc d) L cfg ctx (CallLoop n) a st)"
proof -
  let ?r = "vb_current_round (fst st)"
  let ?c = "CallPropose (?r + 1) (take n (bt_values certs))"
  note IH = IH [unfolded depth_ok_def, rule_format]
  note pre' = vc_pre_loop [OF pre set(3) certs len]
  have less: "peer_rounds (?r + 1) (fst st) < peer_rounds ?r (fst st)"
    using vc_pre_peer [OF pre set(3) certs len] vc_pre_maps [OF pre] by (intro peer_rounds_succ)
  obtain r st1 where run: "vc_run d L cfg ctx ?c a st = (r, st1)"
    by (meson surj_pair)
  have bound: "bounded_result (peer_rounds (?r + 1) (fst st)) (r, st1)"
    using d less IH [OF pre'] run by (simp add: depth_bound_def)
  have again: "bounded_result (peer_rounds ?r (fst st)) (vc_run d L cfg ctx (CallLoop n) a1 st1)"
    if r: "r = Ok a1" for a1
  proof -
    have "vc_pre L vset need me tr (CallLoop n) a1 (fst st1)"
      using vc_run_inv [OF set pre', of d cfg] run r pre by (simp add: vc_pre_def)
    then show ?thesis
      using IH [of "CallLoop n" a1 st1] bound less d r
      by (auto simp: depth_bound_def intro: bounded_result_mono)
  qed
  show ?thesis
    using again bound by (cases r) (auto simp: vc_run_Suc advance_loop_body_def certs len not_less run
        bounded_result_def)
qed

lemma vc_run_enough_depth:
  assumes set: "active_set ctx = Ok vset" "quorum_need vset = Ok need" "2 \<le> need"
  shows "depth_ok L vset need me tr cfg ctx d"
proof (induction d)
  case 0
  show ?case by (simp add: depth_ok_def)
next
  case (Suc d)
  have "bounded_result (peer_rounds (call_from c (fst st)) (fst st)) (vc_run (Suc d) L cfg ctx c a st)"
    if pre: "vc_pre L vset need me tr c a (fst st)" and d: "depth_bound c (fst st) \<le> Suc d"
    for c a st
  proof (cases c)
    case (CallLoop n)
    have "vc_run (Suc d) L cfg ctx (CallLoop n) a st = (Ok a, st)"
      if "\<And>certs. bt_get (vb_certified_by_round (fst st)) (vb_current_round (fst st)) = Some certs \<Longrightarrow>
        length certs < n"
      using that by (auto simp: vc_run_Suc advance_loop_body_def split: option.split)
    with depth_loop [OF set Suc pre [unfolded CallLoop] d [unfolded CallLoop]] show ?thesis
      unfolding CallLoop by (metis bounded_result_simps(1) call_from.simps(4) not_less order_refl)
  qed (use pre d in \<open>simp_all add: depth_propose [OF Suc] depth_finalize [OF set(1,2) Suc]
      depth_advance [OF set Suc]\<close>)
  then show ?case by (simp add: depth_ok_def)
qed

section \<open>Progress\<close>

lemma certified_count_prune:
  assumes "bt_inv (vb_certified_by_round b)"
  shows "certified_count_at (prune b) (vb_current_round b) =
    certified_count_at b (vb_current_round b)"
  using assms sat_sub_le [of "vb_current_round b" 1]
  by (auto simp: certified_count_at_def prune_def Let_def bt_get_retain split: option.split)

lemma loop_exhausted:
  "vc_run d L cfg ctx (CallLoop need) a st = (Ok a', st') \<Longrightarrow> 0 < need \<Longrightarrow>
    certified_count_at (fst st') (vb_current_round (fst st')) < need"
proof (induction d arbitrary: a st)
  case (Suc d)
  then show ?case
    by (auto simp: vc_run_Suc advance_loop_body_def certified_count_at_def bind_st_Ok_iff
        split: option.splits if_splits)
qed simp

lemma prune_memory:
  assumes "maps_ok b"
  shows "\<forall>r \<in> dom (bt_get (vb_certified_by_round (prune b))). sat_sub (vb_current_round b) 1 \<le> r"
    and "\<forall>p \<in> ran (bt_get (vb_my_proposals (prune b))).
      sat_sub (vb_current_round b) 1 \<le> v_round (vp_vertex p)"
    and "dom (vb_collecting (prune b)) \<subseteq> dom (bt_get (vb_my_proposals (prune b)))"
    and "vb_emitted_certs (prune b) \<subseteq> dom (bt_get (vb_my_proposals (prune b)))"
    and "\<forall>k \<in> dom (vb_proposals_seen (prune b)) \<union> vb_voted (prune b).
      sat_sub (vb_current_round b) 1 \<le> fst k"
  using assms
  by (auto simp: prune_def Let_def bt.retain_get_Some maps_ok_def ran_def set_bt_keys
      split: if_splits)

section \<open>When a validator votes\<close>

text \<open>The parent rule as it is checked: the entries of the parent list are counted, repetitions included.\<close>

definition parents_listed :: "ValidatorSet \<Rightarrow> VertexBook \<Rightarrow> Vertex \<Rightarrow> bool" where
  "parents_listed vset b v \<longleftrightarrow>
     (if v_round v = 0 then v_parents v = []
      else \<exists>need m. quorum_need vset = Ok need \<and> need \<le> length (v_parents v) \<and>
        bt_get (vb_certified_by_round b) (v_round v - 1) = Some m \<and>
        set (v_parents v) \<subseteq> set (bt_values m))"

text \<open>The parent rule as it is meant: a quorum of different certified vertices of the previous round.\<close>

definition parent_quorum :: "ValidatorSet \<Rightarrow> VertexBook \<Rightarrow> Vertex \<Rightarrow> bool" where
  "parent_quorum vset b v \<longleftrightarrow>
     (if v_round v = 0 then v_parents v = []
      else \<exists>need m. quorum_need vset = Ok need \<and> need \<le> card (set (v_parents v)) \<and>
        bt_get (vb_certified_by_round b) (v_round v - 1) = Some m \<and>
        set (v_parents v) \<subseteq> set (bt_values m))"

lemma distinct_parents: "distinct (v_parents v) \<Longrightarrow> parents_listed vset b v = parent_quorum vset b v"
  by (simp add: parent_quorum_def parents_listed_def distinct_card)

definition first_seen :: "VertexBook \<Rightarrow> VertexProposal \<Rightarrow> bool" where
  "first_seen b p \<longleftrightarrow> (\<forall>ps. vb_proposals_seen b (v_round (vp_vertex p), v_author (vp_vertex p)) = Some ps \<longrightarrow>
     (\<forall>q \<in> set ps. v_hash (vp_vertex q) = v_hash (vp_vertex p)))"

lemma quorum_need_pos: "quorum_need vset = Ok need \<Longrightarrow> 0 < need"
  by (auto simp: quorum_need_def bind_out_Ok_iff unat_quorum_threshold)

lemma check_parents_votes:
  assumes "check_parents_and_vote L vset p ctx b = (Ok a, b')"
  shows "votes_in a \<noteq> [] \<longleftrightarrow> parents_listed vset b (vp_vertex p) \<and>
    (v_round (vp_vertex p), v_author (vp_vertex p)) \<notin> vb_voted b"
proof (cases "v_round (vp_vertex p) = 0")
  case True
  then show ?thesis
    using assms by (auto simp: check_parents_and_vote_def Let_def cast_vote_def parents_listed_def
        split: if_splits)
next
  case False
  then have "0 < v_round (vp_vertex p)"
    by (simp add: word_neq_0_conv)
  moreover obtain need where need: "quorum_need vset = Ok need"
    using assms calculation by (auto simp: check_parents_and_vote_def Let_def call_Ok_iff)
  moreover have "v_parents (vp_vertex p) \<noteq> []" if "need \<le> length (v_parents (vp_vertex p))"
    using that quorum_need_pos [OF need] by auto
  ultimately show ?thesis
    using assms False
    by (cases "bt_get (vb_certified_by_round b) (v_round (vp_vertex p) - 1)")
      (auto simp: check_parents_and_vote_def Let_def cast_vote_def parents_listed_def list_all_iff
        list_ex_iff subset_iff not_less split: if_splits)
qed

lemma on_vertex_proposal_votes:
  assumes set: "active_set ctx = Ok vset" and res: "on_vertex_proposal L p ctx b = (Ok a, b')"
  shows "votes_in a \<noteq> [] \<longleftrightarrow>
    v_hash (vp_vertex p) = content_hash L (vp_vertex p) \<and> verify_proposal L vset p \<and>
    v_author (vp_vertex p) \<noteq> vb_self_id b \<and> round_in_window b (v_round (vp_vertex p)) \<and>
    first_seen b p \<and> parents_listed vset b (vp_vertex p) \<and>
    (v_round (vp_vertex p), v_author (vp_vertex p)) \<notin> vb_voted b"
proof -
  let ?k = "(v_round (vp_vertex p), v_author (vp_vertex p))"
  define b1 where "b1 = (case vb_proposals_seen b ?k of Some _ \<Rightarrow> b
    | None \<Rightarrow> b\<lparr>vb_proposals_seen := (vb_proposals_seen b)(?k \<mapsto> [p])\<rparr>)"
  have b1: "parents_listed vset b1 (vp_vertex p) = parents_listed vset b (vp_vertex p)"
    "vb_voted b1 = vb_voted b"
    by (simp_all add: b1_def parents_listed_def split: option.split)
  show ?thesis
  proof (cases "v_hash (vp_vertex p) = content_hash L (vp_vertex p) \<and> verify_proposal L vset p \<and>
      v_author (vp_vertex p) \<noteq> vb_self_id b \<and> round_in_window b (v_round (vp_vertex p)) \<and>
      first_seen b p")
    case True
    then have "on_vertex_proposal L p ctx b = check_parents_and_vote L vset p ctx b1"
      by (auto simp: on_vertex_proposal_def set Let_def b1_def first_seen_def list_ex_iff
          split: option.split)
    with res True b1 show ?thesis
      by (simp add: check_parents_votes)
  next
    case False
    then have "votes_in a = []"
      using res by (auto simp: on_vertex_proposal_def set Let_def first_seen_def list_ex_iff
          split: if_splits option.splits)
    with False show ?thesis by blast
  qed
qed

end
