(* ===== verification/Vertex_Properties.thy ===== *)
theory Vertex_Properties
  imports Vertex_Runs
begin

text \<open>
  The properties of vertex certification, each with an instance on the sample committee of four
  validators (one validator for the divergence of small committees).
\<close>

lemma sample_entries_4 [simp]:
  "vs_entries (sample_set 4) = [sample_entry 1, sample_entry 2, sample_entry 3, sample_entry 4]"
  by (simp add: sample_set_def upt_rec numeral_eq_Suc)

lemma sample_need: "quorum_need (sample_set 4) = Ok 3"
  by (simp add: quorum_need_def u32_try_from_def quorum_threshold_def sat_sub_def)

lemma sample_active: "active_set (sample_host n i) = Ok (sample_set n)"
  by (simp add: active_set_def sample_host_def)

text \<open>A signature of member \<open>i\<close> of the sample committee verifies under its key.\<close>

lemma sample_verify [simp]:
  "bls_verify sample_lib pk dst msg (bls_sign sample_lib pk dst msg) = Ok ()"
  by (simp add: bls_verify_def bls_sign_def sample_lib_def)

lemma sample_pk_for: 
  "pk_for sample_lib (sample_set 4) 1 = Some 1" "pk_for sample_lib (sample_set 4) 2 = Some 2"
  "pk_for sample_lib (sample_set 4) 3 = Some 3" "pk_for sample_lib (sample_set 4) 4 = Some 4"
  by (simp_all add: pk_for_def find_entry_def sample_entry_def pk_from_bytes_def sample_lib_def)

definition sample_proposal :: VertexProposal where
  "sample_proposal = build_proposal sample_lib (sample_host 4 2) 2 0 [] []"

definition sample_vote_step :: "unit vc_result" where
  "sample_vote_step = vc_step 0 sample_lib default_table_17_1 (sample_host 4 1)
     (InProposal sample_proposal) (vertex_book_new 1, ())"

lemma sample_reach_vote: "vc_reach sample_lib default_table_17_1 (sample_set 4) 1
    (snd sample_vote_step) (emitted (fst sample_vote_step))"
proof -
  have "vc_step 0 sample_lib default_table_17_1 (sample_host 4 1) (InProposal sample_proposal)
      (vertex_book_new 1, ()) = (fst sample_vote_step, snd sample_vote_step)"
    by (simp add: sample_vote_step_def)
  from vc_reach.step [OF vc_reach.init sample_active _ this] show ?thesis
    by simp
qed

lemma sample_proposal_ok: "verify_proposal sample_lib (sample_set 4) sample_proposal"
  by (simp add: verify_proposal_def sample_proposal_def sample_pk_for)
    (simp add: build_proposal_def sample_host_def Let_def)

lemma sample_votes: "map vote_key (votes_in (emitted (fst sample_vote_step))) = [(0, 2)]"
  using sample_proposal_ok
  by (simp add: sample_vote_step_def on_vertex_proposal_def sample_active Let_def sample_proposal_def
      vertex_book_new_def round_in_window_def check_parents_and_vote_def cast_vote_def emitted_def vote_key_def)


text \<open>
  C8: Over a whole run, in which old state is pruned and rounds advance, a validator of a
  committee with a quorum of at least two never emits two partial votes for the same round and
  author, and every vote it emits carries its own identity.
\<close>

theorem votes_at_most_once:
  assumes "vc_reach L cfg vset me st tr" "quorum_need vset = Ok need" "2 \<le> need"
  shows "distinct (map vote_key (votes_in tr)) \<and> (\<forall>pt \<in> set (votes_in tr). pt_voter pt = me)"
  using vc_reach_inv [OF assms] by (simp add: vb_inv_def votes_ok_def)

theorem votes_at_most_once_witness:
  "vc_reach sample_lib default_table_17_1 (sample_set 4) 1
     (snd sample_vote_step) (emitted (fst sample_vote_step)) \<and>
   map vote_key (votes_in (emitted (fst sample_vote_step))) = [(0, 2)] \<and>
   list_all (\<lambda>pt. pt_voter pt = 1) (votes_in (emitted (fst sample_vote_step)))"
  using sample_reach_vote sample_votes votes_at_most_once [OF sample_reach_vote sample_need]
  by (simp add: list_all_iff)

text \<open>
  C12: Over a whole run a validator never broadcasts two different proposals for one round; each of
  its proposals is authored by itself, carries its content hash and, after round 0, exactly a
  quorum of parents.
\<close>

theorem never_equivocates:
  assumes "vc_reach L cfg vset me st tr" "quorum_need vset = Ok need" "2 \<le> need"
    and "p \<in> set (proposals_in tr)" "q \<in> set (proposals_in tr)"
    and "v_round (vp_vertex p) = v_round (vp_vertex q)"
  shows "p = q \<and> v_author (vp_vertex p) = me \<and>
    v_hash (vp_vertex p) = content_hash L (vp_vertex p) \<and>
    length (v_parents (vp_vertex p)) = (if v_round (vp_vertex p) = 0 then 0 else need)"
proof -
  have inv: "vb_self_id (fst st) = me" "proposals_ok L need tr (fst st)"
    and own: "p \<in> own_proposals tr (fst st)" "q \<in> own_proposals tr (fst st)"
    using vc_reach_inv [OF assms(1-3)] assms(4,5) by (auto simp: vb_inv_def own_proposals_def)
  then have "p = q"
    using assms(6) unfolding proposals_ok_def by (metis (mono_tags, lifting) inj_on_def)
  then show ?thesis
    using inv own by (simp add: proposals_ok_def)
qed

text \<open>A fresh proposal of a committee whose quorum is larger than one waits for votes.\<close>

lemma propose_round_waits:
  assumes set: "active_set ctx = Ok vset" "quorum_need vset = Ok need" "2 \<le> need"
    and start: "start_proposal L cfg ctx rnd ps a (b, hs) = (h, a', st')"
    and fresh: "vb_collecting b h = None"
  shows "propose_round (Suc (Suc d)) L cfg ctx rnd ps a (b, hs) = (Ok a', st')"
proof -
  obtain b' hs' where st': "st' = (b', hs')"
    by (cases st')
  obtain p s where "b' = seed_proposal p s b" "h = v_hash (vp_vertex p)"
    using start unfolding st' by (rule start_proposalE)
  then have "vb_collecting b' h = Some [(vb_self_id b, s)]" "bt_get (vb_my_proposals b') h = Some p"
    using fresh by (simp_all add: seed_proposal_def Let_def bt_empty_def split: prod.split)
  then have "finalize_cert L ctx h b' = Ok None"
    using set by (simp add: finalize_cert_def)
  then show ?thesis
    using start by (simp add: propose_round_def vc_run_Suc propose_round_body_def try_finalize_body_def
        st')
qed

definition sample_genesis :: "unit vc_result" where
  "sample_genesis = vc_step (Suc (Suc 0)) sample_lib default_table_17_1 (sample_host 4 1) InGenesis
     (vertex_book_new 1, ())"

lemma sample_reach_genesis: "vc_reach sample_lib default_table_17_1 (sample_set 4) 1
    (snd sample_genesis) (emitted (fst sample_genesis))"
proof -
  have "vc_step (Suc (Suc 0)) sample_lib default_table_17_1 (sample_host 4 1) InGenesis
      (vertex_book_new 1, ()) = (fst sample_genesis, snd sample_genesis)"
    by (simp add: sample_genesis_def)
  from vc_reach.step [OF vc_reach.init sample_active _ this] show ?thesis
    by simp
qed

lemma sample_genesis_proposals: "proposals_in (emitted (fst sample_genesis)) =
    [build_proposal sample_lib (sample_host 4 1) 1 0 [] []]"
proof -
  let ?b = "(vertex_book_new 1)\<lparr>vb_started := True\<rparr>"
  obtain h a st where start: "start_proposal sample_lib default_table_17_1 (sample_host 4 1) 0 [] []
      (?b, ()) = (h, a, st)"
    by (metis prod_cases3)
  then have "proposals_in a = [build_proposal sample_lib (sample_host 4 1) 1 0 [] []]"
    by (auto simp: start_proposal_def Let_def sample_host_def no_pending_blobs_drain_def
        vertex_book_new_def)
  moreover have "fst sample_genesis = Ok a"
    using propose_round_waits [OF sample_active sample_need _ start, of 0]
    by (simp add: sample_genesis_def genesis_propose_def vertex_book_new_def)
  ultimately show ?thesis
    by (simp add: emitted_def)
qed

theorem never_equivocates_witness:
  "\<exists>p. proposals_in (emitted (fst sample_genesis)) = [p] \<and> v_author (vp_vertex p) = 1 \<and>
     v_hash (vp_vertex p) = content_hash sample_lib (vp_vertex p) \<and> v_parents (vp_vertex p) = []"
  using never_equivocates [OF sample_reach_genesis sample_need, of "build_proposal sample_lib
      (sample_host 4 1) 1 0 [] []"] sample_genesis_proposals by auto


lemma quorum_need_Ok:
  "quorum_need vset = Ok need \<Longrightarrow> need = unat (quorum_threshold (of_nat (length (vs_entries vset))))"
  by (auto simp: quorum_need_def u32_try_from_def split: if_splits)

text \<open>
  C13: Every certified vertex a validator broadcasts passes the verification its peers run, and
  names at least a quorum of distinct signers.
\<close>

theorem broadcast_certificates_verify:
  assumes "vc_reach L cfg vset me st tr" "quorum_need vset = Ok need" "2 \<le> need"
    and "cv \<in> set (certs_in tr)"
  shows "verify_certified_vertex L cv vset = Ok () \<and> v_author (cv_vertex cv) = me \<and>
    need \<le> card (set (cert_signers cv vset))"
proof -
  have ver: "verify_certified_vertex L cv vset = Ok ()" "v_author (cv_vertex cv) = me"
    using vc_reach_inv [OF assms(1-3)] assms(4) by (auto simp: vb_inv_def certs_ok_def)
  then show ?thesis
    using verify_certified_vertex_Ok(2) [of L cv vset] quorum_need_Ok [OF assms(2)] by simp
qed

lemma peer_rounds_le_dom:
  assumes "maps_ok b"
  shows "peer_rounds from b \<le> card (dom (bt_get (vb_certified_by_round b)))"
  unfolding peer_rounds_def using assms
  by (intro card_mono) (auto simp: maps_ok_def bt.finite_dom peer_certified_def)

lemma card_record_cert:
  assumes "maps_ok b"
  shows "card (dom (bt_get (vb_certified_by_round (record_cert cv b)))) \<le>
    Suc (card (dom (bt_get (vb_certified_by_round b))))"
proof -
  have "dom (bt_get (vb_certified_by_round (record_cert cv b))) =
      insert (v_round (cv_vertex cv)) (dom (bt_get (vb_certified_by_round b)))"
    by (auto simp: record_cert_def Let_def split: if_splits)
  then show ?thesis
    using assms by (simp add: card_insert_if maps_ok_def bt.finite_dom)
qed

lemma vc_run_returns:
  assumes set: "active_set ctx = Ok vset" "quorum_need vset = Ok need" "2 \<le> need"
    and pre: "vc_pre L vset need me tr c a b"
    and d: "4 * card (dom (bt_get (vb_certified_by_round b))) + 4 \<le> d"
  shows "no_panic (fst (vc_run d L cfg ctx c a (b, hs)))"
proof -
  have "call_extra c \<le> 4"
    by (cases c) auto
  then have "depth_bound c b \<le> d"
    using d peer_rounds_le_dom [OF vc_pre_maps [OF pre], of "call_from c b"] by (simp add: depth_bound_def)
  then show ?thesis
    using vc_run_enough_depth [OF set, of L me tr cfg d] pre
    by (auto simp: depth_ok_def bounded_result_def)
qed

lemma on_vertex_proposal_returns:
  assumes "active_set ctx = Ok vset" "quorum_need vset = Ok need"
  shows "no_panic (fst (on_vertex_proposal L p ctx b))"
  using assms by (simp add: on_vertex_proposal_def check_parents_and_vote_def cast_vote_def Let_def
      split: option.split)

lemma timer_returns:
  assumes "active_set ctx = Ok vset" "quorum_need vset = Ok need"
  shows "no_panic (fst (vc_on_timer_fired cfg ctx tid a b))"
  using assms by (simp add: vc_on_timer_fired_def Let_def split: prod.split)

text \<open>
  C14: Every handler of the component returns, with a value or an error but without a panic or a
  stack overflow, in every reachable state and on every input, when the stack allows four calls
  per round with stored certificates plus eight.
\<close>

theorem handlers_return:
  assumes reach: "vc_reach L cfg vset me st tr" and need: "quorum_need vset = Ok need" "2 \<le> need"
    and set: "active_set ctx = Ok vset" and ok: "input_ok me inp"
    and depth: "4 * card (dom (bt_get (vb_certified_by_round (fst st)))) + 8 \<le> d"
  shows "no_panic (fst (vc_step d L cfg ctx inp st))"
proof -
  note inv = vc_reach_inv [OF reach need]
  note run = vc_run_returns [OF set need]
  obtain d' where d': "d = Suc d'"
    using depth by (cases d) auto
  show ?thesis
  proof (cases inp)
    case InGenesis
    then show ?thesis
      using run [OF genesis_pre [OF inv]] depth by (simp add: genesis_propose_def propose_round_def)
  next
    case (InProposal p)
    then show ?thesis
      using on_vertex_proposal_returns [OF set need(1)] by (simp add: split_beta)
  next
    case (InPartial bp)
    then show ?thesis
      using run [OF partial_pre [OF inv]] depth
      by (auto simp: on_vertex_partial_def Let_def set try_finalize_def split: option.split)
  next
    case (InCertified cv)
    show ?thesis
    proof (cases "vb_started (fst st)")
      case True
      then have pre: "vc_pre L vset need me tr CallAdvance [] (record_cert cv (fst st))"
        using certified_inv [OF inv ok [unfolded InCertified]] by (simp add: vc_pre_def)
      have "maps_ok (fst st)"
        using inv by (simp add: vb_inv_def)
      then have "4 * card (dom (bt_get (vb_certified_by_round (record_cert cv (fst st))))) + 4 \<le> d"
        using card_record_cert [of "fst st" cv] depth by simp
      from run [OF pre this] show ?thesis
        by (simp add: InCertified on_certified_vertex_def maybe_advance_def)
    qed (simp add: InCertified d' on_certified_unstarted)
  next
    case (InTimer tid)
    then show ?thesis
      using timer_returns [OF set need(1)] by (simp add: split_beta)
  qed
qed

theorem handlers_return_witness:
  "no_panic (fst (vc_step 8 sample_lib default_table_17_1 (sample_host 4 1) InGenesis
     (vertex_book_new 1, ())))"
proof -
  have "no_panic (fst (vc_step 8 sample_lib default_table_17_1 (sample_host 4 1) InGenesis
      (vertex_book_new 1, ())))"
    by (rule handlers_return [OF vc_reach.init sample_need _ sample_active])
      (simp_all add: vertex_book_new_def bt_get_def bt_empty_def)
  then show ?thesis .
qed

lemma maybe_advance_Ok:
  assumes set: "active_set ctx = Ok vset" "quorum_need vset = Ok need"
    and st: "vb_started (fst st)"
    and res: "maybe_advance d L cfg ctx a st = (Ok a', st')"
  obtains d' st1 where "d = Suc d'" "vc_run d' L cfg ctx (CallLoop need) a st = (Ok a', st1)"
    "st' = (prune (fst st1), snd st1)"
proof (cases d)
  case 0
  then show ?thesis using res by (simp add: maybe_advance_def)
next
  case (Suc d')
  then show ?thesis
    using that [of d'] res st
    by (auto simp: maybe_advance_def vc_run_Suc maybe_advance_body_def set bind_st_Ok_iff)
qed

lemma on_certified_Ok:
  assumes reach: "vc_reach L cfg vset me st tr" and need: "quorum_need vset = Ok need" "2 \<le> need"
    and set: "active_set ctx = Ok vset" and ok: "input_ok me (InCertified cv)"
    and started: "vb_started (fst st)"
    and res: "on_certified_vertex d L cfg cv ctx [] st = (Ok a, (b, hs))"
  obtains b1 where "b = prune b1" "maps_ok b1" "certified_count_at b1 (vb_current_round b1) < need"
proof -
  let ?st = "(record_cert cv (fst st), snd st)"
  have adv: "maybe_advance d L cfg ctx [] ?st = (Ok a, (b, hs))" and st: "vb_started (fst ?st)"
    using res started by (simp_all add: on_certified_vertex_def)
  obtain d' st1 where run: "vc_run d' L cfg ctx (CallLoop need) [] ?st = (Ok a, st1)"
    and b: "b = prune (fst st1)"
    using maybe_advance_Ok [OF set need(1) st adv] by (metis prod.inject)
  have pre: "vc_pre L vset need me tr (CallLoop need) [] (fst ?st)"
    using certified_inv [OF vc_reach_inv [OF reach need] ok] started by (simp add: vc_pre_def)
  have maps: "maps_ok (fst st1)"
    using vc_run_inv [OF set need pre, of d' cfg] run by (simp add: vb_inv_def)
  show ?thesis
    using that [OF b maps] loop_exhausted [OF run] need(2) by simp
qed

text \<open>
  C15: When a started validator has processed a certified vertex, its current round lacks a quorum
  of certificates: it has advanced through every round that has one.
\<close>

theorem rounds_advance_until_stuck:
  assumes "vc_reach L cfg vset me st tr" "quorum_need vset = Ok need" "2 \<le> need"
    and "active_set ctx = Ok vset" "input_ok me (InCertified cv)" "vb_started (fst st)"
    and "on_certified_vertex d L cfg cv ctx [] st = (Ok a, (b, hs))"
  shows "certified_count_at b (vb_current_round b) < need"
  using on_certified_Ok [OF assms] by (metis certified_count_prune maps_ok_def prune_fields(2))

text \<open>
  C16: After a certified vertex is processed nothing older than the round before the current one is
  kept, and partial signatures and emission marks are kept for live own proposals only.
\<close>

theorem pruned_memory:
  assumes "vc_reach L cfg vset me st tr" "quorum_need vset = Ok need" "2 \<le> need"
    and "active_set ctx = Ok vset" "input_ok me (InCertified cv)" "vb_started (fst st)"
    and "on_certified_vertex d L cfg cv ctx [] st = (Ok a, (b, hs))"
  shows "(\<forall>r \<in> dom (bt_get (vb_certified_by_round b)). sat_sub (vb_current_round b) 1 \<le> r) \<and>
    (\<forall>p \<in> ran (bt_get (vb_my_proposals b)).
       sat_sub (vb_current_round b) 1 \<le> v_round (vp_vertex p)) \<and>
    (\<forall>k \<in> dom (vb_proposals_seen b) \<union> vb_voted b. sat_sub (vb_current_round b) 1 \<le> fst k) \<and>
    dom (vb_collecting b) \<union> vb_emitted_certs b \<subseteq> dom (bt_get (vb_my_proposals b))"
proof -
  obtain b1 where b: "b = prune b1" and maps: "maps_ok b1"
    using on_certified_Ok [OF assms] by metis
  then show ?thesis
    using prune_memory [OF maps] unfolding b prune_fields by blast
qed

text \<open>An observation of a peer's round-0 certificate right after genesis.\<close>

definition sample_cv :: "nat \<Rightarrow> Round \<Rightarrow> CertifiedVertex" where
  "sample_cv i r = \<lparr> cv_vertex = vp_vertex (build_proposal sample_lib (sample_host 4 i) (of_nat i) r [] []),
     cv_certificate = \<lparr> as_sig = 0, as_bitmap = [0] \<rparr> \<rparr>"

lemma on_certified_waits:
  assumes "active_set ctx = Ok vset" "quorum_need vset = Ok need" "vb_started (fst st)"
    and "certified_count_at (record_cert cv (fst st)) (vb_current_round (fst st)) < need"
  shows "on_certified_vertex (Suc (Suc d)) L cfg cv ctx a st =
    (Ok a, (prune (record_cert cv (fst st)), snd st))"
  using assms by (auto simp: on_certified_vertex_def maybe_advance_def vc_run_Suc maybe_advance_body_def
      advance_loop_body_def certified_count_at_def split: option.splits)

lemma sample_genesis_book:
  "vb_started (fst (snd sample_genesis))" "vb_certified_by_round (fst (snd sample_genesis)) = []"
  "vb_current_round (fst (snd sample_genesis)) = 0"
proof -
  let ?b = "(vertex_book_new 1)\<lparr>vb_started := True\<rparr>"
  obtain h a b' hs where start: "start_proposal sample_lib default_table_17_1 (sample_host 4 1) 0 [] []
      (?b, ()) = (h, a, (b', hs))"
    by (metis prod_cases4)
  then obtain p s where p: "p = build_proposal sample_lib (sample_host 4 1) 1 0 [] (fst
      (blobs_drain (sample_host 4 1) ()))" "b' = seed_proposal p s ?b"
    by (rule start_proposalE) (simp add: vertex_book_new_def)
  have "snd sample_genesis = (b', hs)"
    using propose_round_waits [OF sample_active sample_need _ start, of 0]
    by (simp add: sample_genesis_def genesis_propose_def vertex_book_new_def)
  then show "vb_started (fst (snd sample_genesis))" "vb_certified_by_round (fst (snd sample_genesis)) = []"
      "vb_current_round (fst (snd sample_genesis)) = 0"
    using p by (simp_all add: vertex_book_new_def bt_empty_def)
qed

definition sample_observed :: VertexBook where
  "sample_observed = prune (record_cert (sample_cv 2 0) (fst (snd sample_genesis)))"

lemma sample_observe: "on_certified_vertex (Suc (Suc 0)) sample_lib default_table_17_1 (sample_cv 2 0)
    (sample_host 4 1) [] (snd sample_genesis) = (Ok [], (sample_observed, ()))"
  by (subst on_certified_waits [OF sample_active sample_need sample_genesis_book(1)])
    (simp_all add: certified_count_at_def record_cert_def sample_genesis_book sample_cv_def
      sample_observed_def bt_get_def bt_empty_def)

lemma sample_cv_ok: "input_ok 1 (InCertified (sample_cv 2 0))"
proof -
  have "(0 :: u64) < - 2"
    by code_simp
  then show ?thesis
    by (simp add: sample_cv_def)
qed

theorem rounds_advance_until_stuck_witness:
  "certified_count_at sample_observed (vb_current_round sample_observed) < 3"
  by (rule rounds_advance_until_stuck [OF sample_reach_genesis sample_need _ sample_active
        sample_cv_ok sample_genesis_book(1) sample_observe]) simp

theorem pruned_memory_witness:
  "dom (bt_get (vb_certified_by_round sample_observed)) \<subseteq>
     {r. sat_sub (vb_current_round sample_observed) 1 \<le> r}"
  using pruned_memory [OF sample_reach_genesis sample_need _ sample_active sample_cv_ok
        sample_genesis_book(1) sample_observe] by auto

text \<open>What a proposal has to satisfy apart from its parents.\<close>

definition acceptable :: "'x crypto_lib \<Rightarrow> ValidatorSet \<Rightarrow> VertexBook \<Rightarrow> VertexProposal \<Rightarrow> bool" where
  "acceptable L vset b p \<longleftrightarrow> v_hash (vp_vertex p) = content_hash L (vp_vertex p) \<and> verify_proposal L vset p \<and>
     v_author (vp_vertex p) \<noteq> vb_self_id b \<and> round_in_window b (v_round (vp_vertex p)) \<and> first_seen b p \<and>
     (v_round (vp_vertex p), v_author (vp_vertex p)) \<notin> vb_voted b"

text \<open>
  C17: A validator votes on a proposal exactly when the hash is the content hash, the proposer signature
  verifies, the author is a peer, the round is next to its own, no conflicting proposal was seen, it has not
  voted for that round and author, and the parent list has at least 2f + 1 entries, all certified in the
  previous round (none in round 0). When no parent is repeated this is what the comment of the code asks for,
  a quorum of certified vertices. The list is counted with repetitions, so that one certified vertex named
  2f + 1 times is voted for as well.
\<close>

theorem votes_iff_valid:
  assumes "active_set ctx = Ok vset" "on_vertex_proposal L p ctx b = (Ok a, b')"
  shows "(votes_in a \<noteq> [] \<longleftrightarrow> acceptable L vset b p \<and> parents_listed vset b (vp_vertex p)) \<and>
    (distinct (v_parents (vp_vertex p)) \<longrightarrow>
      (votes_in a \<noteq> [] \<longleftrightarrow> acceptable L vset b p \<and> parent_quorum vset b (vp_vertex p))) \<and>
    (acceptable L vset b p \<and> v_round (vp_vertex p) \<noteq> 0 \<and> quorum_need vset = Ok need \<and>
      bt_get (vb_certified_by_round b) (v_round (vp_vertex p) - 1) = Some m \<and> h \<in> set (bt_values m) \<and>
      v_parents (vp_vertex p) = replicate need h \<longrightarrow>
      votes_in a \<noteq> [] \<and> card (set (v_parents (vp_vertex p))) = 1)"
proof -
  have exact: "votes_in a \<noteq> [] \<longleftrightarrow> acceptable L vset b p \<and> parents_listed vset b (vp_vertex p)"
    using on_vertex_proposal_votes [OF assms] by (auto simp: acceptable_def)
  moreover have "parents_listed vset b (vp_vertex p)" "card (set (v_parents (vp_vertex p))) = 1"
    if "v_round (vp_vertex p) \<noteq> 0" "quorum_need vset = Ok need" "v_parents (vp_vertex p) = replicate need h"
      "bt_get (vb_certified_by_round b) (v_round (vp_vertex p) - 1) = Some m" "h \<in> set (bt_values m)"
    using that quorum_need_pos [OF that(2)] by (auto simp: parents_listed_def)
  ultimately show ?thesis
    using distinct_parents [of "vp_vertex p" vset b] by blast
qed

lemma unat_round_delay:
  "unat (round_delay_nanos cfg retries) =
     unat (round_duration_ms (cfg_timing cfg)) * 1000000 * (unat retries + 1)"
proof -
  let ?ms = "round_duration_ms (cfg_timing cfg)"
  have r: "unat retries + 1 \<le> 2 ^ 32" and ms: "unat ?ms < 2 ^ 64"
    using unat_less_exp [of retries] unat_less_exp [of ?ms] by simp_all
  have "unat ?ms * 1000000 * (unat retries + 1) \<le> 2 ^ 64 * 1000000 * 2 ^ 32"
    using r ms by (intro mult_le_mono) auto
  then have small: "unat ?ms * 1000000 * (unat retries + 1) < 2 ^ LENGTH(128)"
    by simp
  have "round_delay_nanos cfg retries =
      of_nat (unat ?ms * 1000000 * (unat retries + 1))"
    by (simp add: round_delay_nanos_def unsigned_ucast_eq algebra_simps)
  then show ?thesis
    using unat_of_nat_small [OF small] by simp
qed


text \<open>
  A round timer that fires in a stalled round is re-armed with a linear back-off that never
  exceeds nine round durations, rebroadcasts only the own proposal of the current round and never
  changes the round.
\<close>

theorem round_timer_backoff:
  assumes set: "active_set ctx = Ok vset" "quorum_need vset = Ok need"
    and fired: "vb_round_timer b = Some tid" and retries: "vb_timer_retries b \<le> 8"
    and stuck: "certified_count_at b (vb_current_round b) < need"
  shows "\<exists>a new delay b'. vc_on_timer_fired cfg ctx tid acts b = (Ok (acts @ a @ [ScheduleTimer new delay]), b') \<and>
    vb_round_timer b' = Some new \<and> vb_current_round b' = vb_current_round b \<and>
    vb_timer_retries b' = min (vb_timer_retries b + 1) 8 \<and>
    unat delay = unat (round_duration_ms (cfg_timing cfg)) * 1000000 * (unat (vb_timer_retries b') + 1) \<and>
    unat delay \<le> 9 * 1000000 * unat (round_duration_ms (cfg_timing cfg)) \<and>
    (\<forall>p \<in> set (proposals_in a). v_round (vp_vertex p) = vb_current_round b)"
proof -
  let ?r = "min (vb_timer_retries b + 1) 8" and ?ms = "unat (round_duration_ms (cfg_timing cfg))"
  have "unat ?r \<le> 8"
    using word_le_nat_alt [of ?r 8] by simp
  then have "?ms * 1000000 * (unat ?r + 1) \<le> 9 * 1000000 * ?ms"
    by simp
  moreover have "\<not> need \<le> certified_count_at (b\<lparr>vb_round_timer := None\<rparr>) (vb_current_round b)"
    using stuck by (simp add: certified_count_at_def)
  ultimately show ?thesis
    using fired set
    by (auto simp: vc_on_timer_fired_def Let_def allocate_def unat_round_delay find_Some_iff
        split: option.split)
qed

text \<open>A committee whose quorum is one validator.\<close>

definition hashes_before :: "'x crypto_lib \<Rightarrow> Round \<Rightarrow> Hash32 set" where
  "hashes_before L r = {content_hash L v | v. v_round v < r}"

lemma self_quorum:
  assumes agg: "bls_aggregation L (set pks)" and keys: "valset_keys L vset pks"
    and idx: "index_of vset me = Some i" "unat i < length pks"
    and one: "quorum_need vset = Ok 1" and set: "active_set ctx = Ok vset"
    and sig: "bls_verify L (pks ! unat i) DST_VERTEX_CERT (signing_bytes L (vp_vertex p)) s = Ok ()"
    and sealed: "v_hash (vp_vertex p) = content_hash L (vp_vertex p)"
    and fresh: "v_hash (vp_vertex p) \<notin> vb_emitted_certs b" "vb_collecting b (v_hash (vp_vertex p)) = None"
    and me: "vb_self_id b = me"
  shows "\<exists>cv. finalize_cert L ctx (v_hash (vp_vertex p)) (seed_proposal p s b) = Ok (Some cv) \<and>
    cv_vertex cv = vp_vertex p"
proof -
  have "valid_contributors L pks DST_VERTEX_CERT (signing_bytes L (vp_vertex p)) [(i, s)]"
    using idx sig by (simp add: valid_contributors_def)
  moreover have "unat (quorum_threshold (of_nat (length (vs_entries vset)))) \<le> length [(i, s)]"
    using quorum_need_Ok [OF one] by simp
  ultimately obtain cv where cv: "assemble_cert L (vp_vertex p) vset [(i, s)] = Ok cv"
    "cv_vertex cv = vp_vertex p" "verify_certified_vertex L cv vset = Ok ()"
    using assemble_then_verify [OF agg keys sealed] by blast
  have "vb_collecting (seed_proposal p s b) (v_hash (vp_vertex p)) = Some [(me, s)]"
    using fresh me by (simp add: seed_proposal_def Let_def bt_empty_def split: prod.split)
  moreover have "contributors_of vset [(me, s)] = [(i, s)]"
    using idx by (simp add: contributors_of_def List.map_filter_def)
  ultimately have "finalize_cert L ctx (v_hash (vp_vertex p)) (seed_proposal p s b) = Ok (Some cv)"
    using cv fresh set one by (simp add: finalize_cert_def)
  with cv(2) show ?thesis by blast
qed


lemma bt_insert_not_Nil: "bt_insert k v m \<noteq> []"
  by (cases "(k, v, m)" rule: bt_insert.cases) auto

lemma record_cert_quorum_one:
  "\<exists>m. bt_get (vb_certified_by_round (record_cert cv b)) (v_round (cv_vertex cv)) = Some m \<and> 1 \<le> length m"
  by (auto simp: record_cert_def Let_def bt_insert_not_Nil Suc_le_eq)

lemma hashes_before_succ:
  assumes "X \<subseteq> hashes_before L r" "unat r + 1 < 2 ^ 64" "v_round v = r"
  shows "insert (content_hash L v) X \<subseteq> hashes_before L (r + 1)"
proof -
  have "r < r + 1"
    using assms(2) by (simp add: word_less_nat_alt unat_plus_if')
  then show ?thesis
    using assms(1,3) by (fastforce simp: hashes_before_def intro: less_trans)
qed

lemma seed_collecting_dom:
  "dom (vb_collecting (seed_proposal p s b)) = insert (v_hash (vp_vertex p)) (dom (vb_collecting b))"
  by (simp add: seed_proposal_def Let_def split: prod.split)

text \<open>Four nested calls from one proposal to the next.\<close>

lemma propose_unroll:
  assumes set: "active_set ctx = Ok vset" "quorum_need vset = Ok need"
    and start: "start_proposal L cfg ctx r ps a (b, hs) = (h, a', (b2, hs'))"
    and fin: "finalize_cert L ctx h b2 = Ok (Some cv)"
    and b3: "b3 = record_cert cv (b2\<lparr>vb_emitted_certs := insert h (vb_emitted_certs b2)\<rparr>)"
    and st: "vb_started b3"
    and m: "bt_get (vb_certified_by_round b3) (vb_current_round b3) = Some m" "need \<le> length m"
    and deeper: "\<And>e. d = Suc (Suc (Suc (Suc e))) \<Longrightarrow>
      fst (vc_run e L cfg ctx (CallPropose (vb_current_round b3 + 1) (take need (bt_values m)))
        (a' @ [BroadcastCertifiedVertex cv]) (b3, hs')) = Panic ''stack overflow''"
  shows "fst (vc_run d L cfg ctx (CallPropose r ps) a (b, hs)) = Panic ''stack overflow''"
proof -
  have loop: "fst (vc_run d3 L cfg ctx (CallLoop need) (a' @ [BroadcastCertifiedVertex cv]) (b3, hs')) =
      Panic ''stack overflow''" if "d = Suc (Suc (Suc d3))" for d3
    using that deeper m by (cases d3) (auto simp: vc_run_Suc advance_loop_body_def bind_st_Panic)
  have adv: "fst (vc_run d2 L cfg ctx CallAdvance (a' @ [BroadcastCertifiedVertex cv]) (b3, hs')) =
      Panic ''stack overflow''" if "d = Suc (Suc d2)" for d2
    using that loop set st by (cases d2) (auto simp: vc_run_Suc maybe_advance_body_def bind_st_Panic)
  have "fst (vc_run d1 L cfg ctx (CallFinalize h) a' (b2, hs')) = Panic ''stack overflow''"
    if "d = Suc d1" for d1
    using that adv fin by (cases d1) (auto simp: vc_run_Suc try_finalize_body_def b3)
  then show ?thesis
    using start by (cases d) (auto simp: vc_run_Suc propose_round_body_def)
qed

lemma propose_diverges:
  assumes agg: "bls_aggregation L (set pks)" and keys: "valset_keys L vset pks"
    and idx: "index_of vset me = Some i" "unat i < length pks"
    and one: "quorum_need vset = Ok 1" and set: "active_set ctx = Ok vset"
    and sig: "\<And>msg. bls_verify L (pks ! unat i) DST_VERTEX_CERT msg
      (signer_sign_bls ctx DST_VERTEX_CERT msg) = Ok ()"
    and inj: "\<And>v w. v_round v \<noteq> v_round w \<Longrightarrow> content_hash L v \<noteq> content_hash L w"
  shows "unat r + d < 2 ^ 64 \<Longrightarrow> vb_self_id b = me \<Longrightarrow> vb_started b \<Longrightarrow>
    vb_emitted_certs b \<union> dom (vb_collecting b) \<subseteq> hashes_before L r \<Longrightarrow>
    fst (vc_run d L cfg ctx (CallPropose r ps) a (b, hs)) = Panic ''stack overflow''"
proof (induction d arbitrary: r ps a b hs rule: less_induct)
  case (less d)
  obtain h a' b2 hs' where start: "start_proposal L cfg ctx r ps a (b, hs) = (h, a', (b2, hs'))"
    by (metis prod_cases4)
  let ?p = "build_proposal L ctx me r ps (fst (blobs_drain ctx hs))"
  let ?s = "signer_sign_bls ctx DST_VERTEX_CERT (signing_bytes L (vp_vertex ?p))"
  have h: "h = v_hash (vp_vertex ?p)" and b2: "b2 = seed_proposal ?p ?s b"
    using start less.prems(2) by (auto simp: start_proposal_def Let_def split: prod.splits)
  have new: "content_hash L (vp_vertex ?p) \<notin> hashes_before L r"
    using inj by (force simp: hashes_before_def)
  then obtain cv where fin: "finalize_cert L ctx h b2 = Ok (Some cv)" "cv_vertex cv = vp_vertex ?p"
    using self_quorum [OF agg keys idx one set sig, where p = ?p and b = b] less.prems(2,4)
    unfolding h b2 by auto
  define b3 where "b3 = record_cert cv (b2\<lparr>vb_emitted_certs := insert h (vb_emitted_certs b2)\<rparr>)"
  obtain m where m: "bt_get (vb_certified_by_round b3) r = Some m" "1 \<le> length m"
    using record_cert_quorum_one [of cv] fin(2) unfolding b3_def by (metis build_proposal_fields(1))
  have cur: "vb_current_round b3 = r" "vb_started b3" "vb_self_id b3 = me"
    using less.prems by (simp_all add: b3_def b2)
  have IH: "fst (vc_run e L cfg ctx (CallPropose (r + 1) qs) a3 (b3, hs')) = Panic ''stack overflow''"
    if e: "d = e + 4" for e qs a3
  proof (rule less.IH)
    have small: "unat r + 1 < 2 ^ 64"
      using less.prems(1) e by simp
    then show "unat (r + 1) + e < 2 ^ 64"
      using less.prems(1) e by (simp add: unat_plus_if')
    show "vb_emitted_certs b3 \<union> dom (vb_collecting b3) \<subseteq> hashes_before L (r + 1)"
      using hashes_before_succ [OF less.prems(4) small, of "vp_vertex ?p"]
      by (auto simp: b3_def b2 h seed_collecting_dom)
  qed (use e cur in auto)
  show ?case
    by (rule propose_unroll [OF set one start fin(1) b3_def])
      (use cur m IH in \<open>auto simp: numeral_eq_Suc\<close>)
qed


text \<open>
  C18: In a committee whose quorum is one validator (one to three members) the first proposal never
  returns: proposing certifies itself, which proposes the next round, at any stack depth.
\<close>

theorem small_committee_diverges:
  assumes "bls_aggregation L (set pks)" "valset_keys L vset pks"
    and "index_of vset me = Some i" "unat i < length pks"
    and "quorum_need vset = Ok 1" "active_set ctx = Ok vset"
    and "\<And>msg. bls_verify L (pks ! unat i) DST_VERTEX_CERT msg
      (signer_sign_bls ctx DST_VERTEX_CERT msg) = Ok ()"
    and "\<And>v w. v_round v \<noteq> v_round w \<Longrightarrow> content_hash L v \<noteq> content_hash L w"
    and "d < 2 ^ 64"
  shows "fst (genesis_propose d L cfg ctx (vertex_book_new me, hs)) = Panic ''stack overflow''"
proof -
  have "fst (vc_run d L cfg ctx (CallPropose 0 []) [] ((vertex_book_new me)\<lparr>vb_started := True\<rparr>, hs)) =
      Panic ''stack overflow''"
    by (rule propose_diverges [OF assms(1-8)]) (use assms(9) in \<open>auto simp: vertex_book_new_def\<close>)
  then show ?thesis
    by (simp add: genesis_propose_def propose_round_def vertex_book_new_def)
qed

text \<open>A sample library whose vertex hash is the round.\<close>

definition round_hash_lib :: "768 word crypto_lib" where
  "round_hash_lib = sample_lib\<lparr>
     blake3_hash := (\<lambda>bs. word_of_be (drop (length DST_VERTEX_HASH + 1) bs)),
     borsh_signable_vertex := (\<lambda>r a ps bs h. be_bytes 8 r)\<rparr>"

lemma round_hash_inj:
  assumes "v_round v \<noteq> v_round w"
  shows "content_hash round_hash_lib v \<noteq> content_hash round_hash_lib w"
proof
  have eq: "content_hash round_hash_lib u = word_of_be (be_bytes 8 (v_round u))" for u
    by (simp add: content_hash_def blake3_with_dst_def dst_preimage_def round_hash_lib_def
        signing_bytes_def)
  have "(ucast (word_of_be (be_bytes 8 r) :: 256 word) :: u64) = r" for r :: u64
    by (rule bit_word_eqI)
      (use bit_word_of_be [where bs = "be_bytes 8 r" and 'a = 256] bit_be_bytes [of 8 _ r]
        in \<open>simp add: bit_ucast_iff\<close>)
  moreover assume "content_hash round_hash_lib v = content_hash round_hash_lib w"
  ultimately show False
    using assms unfolding eq by metis
qed

theorem small_committee_diverges_witness:
  "fst (genesis_propose 1000000 round_hash_lib default_table_17_1 (sample_host 1 1)
     (vertex_book_new 1, ())) = Panic ''stack overflow''"
proof (rule small_committee_diverges [where pks = "[1]" and vset = "sample_set 1" and i = 0])
  have "bls_aggregation sample_lib K = bls_aggregation round_hash_lib K" for K
    by (simp add: bls_aggregation_def round_hash_lib_def)
  then show "bls_aggregation round_hash_lib (set [1])"
    by (metis sample_aggregation)
  show "\<And>msg. bls_verify round_hash_lib ([1] ! unat 0) DST_VERTEX_CERT msg
      (signer_sign_bls (sample_host 1 1) DST_VERTEX_CERT msg) = Ok ()"
    by (simp add: bls_verify_def round_hash_lib_def sample_lib_def sample_host_def bls_sign_def)
  show "\<And>v w. v_round v \<noteq> v_round w \<Longrightarrow>
      content_hash round_hash_lib v \<noteq> content_hash round_hash_lib w"
    by (rule round_hash_inj)
qed (simp_all add: valset_keys_def sample_set_def sample_entry_def pk_from_bytes_def round_hash_lib_def
    sample_lib_def index_of_def u32_try_from_def quorum_need_def quorum_threshold_def sat_sub_def
    sample_active)

text \<open>The sample committee certifies the genesis vertex of member 1.\<close>

definition sample_p1 :: VertexProposal where
  "sample_p1 = build_proposal sample_lib (sample_host 4 1) 1 0 [] []"

definition sample_sig :: "nat \<Rightarrow> BlsSig" where
  "sample_sig i = bls_sign sample_lib (of_nat i) DST_VERTEX_CERT (signing_bytes sample_lib (vp_vertex sample_p1))"

definition sample_partial :: "nat \<Rightarrow> VertexPartial" where
  "sample_partial i = \<lparr> pt_vertex_hash = v_hash (vp_vertex sample_p1), pt_round = 0, pt_author = 1,
     pt_voter = of_nat i, pt_sig = sample_sig i \<rparr>"

definition sample_book :: "(ValidatorId, BlsSig) btree \<Rightarrow> VertexBook" where
  "sample_book sigs = (seed_proposal sample_p1 (sample_sig 1) ((vertex_book_new 1)\<lparr>vb_started := True\<rparr>))
     \<lparr>vb_collecting := [v_hash (vp_vertex sample_p1) \<mapsto> sigs]\<rparr>"

lemma sample_genesis_eq: "snd sample_genesis = (sample_book [(1, sample_sig 1)], ())"
proof -
  let ?b = "(vertex_book_new 1)\<lparr>vb_started := True\<rparr>"
  obtain h a b' where start: "start_proposal sample_lib default_table_17_1 (sample_host 4 1) 0 [] []
      (?b, ()) = (h, a, (b', ()))"
    by (metis prod_cases4 unit.exhaust)
  have "b' = sample_book [(1, sample_sig 1)]"
    using start by (auto simp: start_proposal_def Let_def sample_host_def no_pending_blobs_drain_def
        sample_book_def sample_p1_def sample_sig_def vertex_book_new_def seed_proposal_def
        allocate_def bt_empty_def)
  moreover have "snd sample_genesis = (b', ())"
    using propose_round_waits [OF sample_active sample_need _ start, of 0]
    by (simp add: sample_genesis_def genesis_propose_def vertex_book_new_def)
  ultimately show ?thesis
    by simp
qed

lemma sample_book_fields [simp]:
  "vb_self_id (sample_book sigs) = 1" "vb_started (sample_book sigs)"
  "vb_current_round (sample_book sigs) = 0" "vb_certified_by_round (sample_book sigs) = []"
  "vb_collecting (sample_book sigs) = [v_hash (vp_vertex sample_p1) \<mapsto> sigs]"
  "vb_emitted_certs (sample_book sigs) = {}"
  "bt_get (vb_my_proposals (sample_book sigs)) (v_hash (vp_vertex sample_p1)) = Some sample_p1"
  by (simp_all add: sample_book_def vertex_book_new_def sample_p1_def bt_empty_def bt_get_list)

lemma sample_book_collect [simp]:
  "(sample_book sigs)\<lparr>vb_collecting := [v_hash (vp_vertex sample_p1) \<mapsto> sigs']\<rparr> = sample_book sigs'"
  by (simp add: sample_book_def)

lemma sample_partial_ok:
  "i \<in> {2, 3} \<Longrightarrow> verify_partial sample_lib (sample_set 4) (sample_partial i) (vp_vertex sample_p1)"
  by (auto simp: verify_partial_def sample_partial_def sample_p1_def sample_pk_for)
    (simp_all add: sample_sig_def sample_p1_def)

lemma sample_step2: "vc_step (Suc (Suc 0)) sample_lib default_table_17_1 (sample_host 4 1)
    (InPartial (sample_partial 2)) (sample_book [(1, sample_sig 1)], ()) =
  (Ok [], (sample_book [(1, sample_sig 1), (2, sample_sig 2)], ()))"
  using sample_partial_ok [of 2]
  by (simp add: on_vertex_partial_def Let_def sample_active sample_partial_def try_finalize_def vc_run_Suc
      try_finalize_body_def finalize_cert_def sample_need bt_get_list)

lemma sample_keys: "valset_keys sample_lib (sample_set 4) [1, 2, 3, 4]"
  by (simp add: valset_keys_def sample_entry_def pk_from_bytes_def sample_lib_def)

lemma sample_cert: "\<exists>cv. finalize_cert sample_lib (sample_host 4 1) (v_hash (vp_vertex sample_p1))
    (sample_book [(1, sample_sig 1), (2, sample_sig 2), (3, sample_sig 3)]) = Ok (Some cv) \<and>
    cv_vertex cv = vp_vertex sample_p1"
proof -
  let ?cs = "[(0, sample_sig 1), (1, sample_sig 2), (2, sample_sig 3)]"
  have "valid_contributors sample_lib [1, 2, 3, 4] DST_VERTEX_CERT
      (signing_bytes sample_lib (vp_vertex sample_p1)) ?cs"
    by (auto simp: valid_contributors_def sample_sig_def)
  moreover have "unat (quorum_threshold (of_nat (length (vs_entries (sample_set 4))))) \<le> length ?cs"
    using quorum_need_Ok [OF sample_need] by simp
  moreover have "v_hash (vp_vertex sample_p1) = content_hash sample_lib (vp_vertex sample_p1)"
    by (simp add: sample_p1_def)
  ultimately obtain cv where "assemble_cert sample_lib (vp_vertex sample_p1) (sample_set 4) ?cs = Ok cv"
    "cv_vertex cv = vp_vertex sample_p1" "verify_certified_vertex sample_lib cv (sample_set 4) = Ok ()"
    using assemble_then_verify [OF sample_aggregation sample_keys] by blast
  moreover have "contributors_of (sample_set 4) [(1, sample_sig 1), (2, sample_sig 2), (3, sample_sig 3)] = ?cs"
    by (simp add: contributors_of_def List.map_filter_def index_of_def u32_try_from_def sample_entry_def)
  ultimately show ?thesis
    by (simp add: finalize_cert_def sample_active sample_need)
qed

lemma sample_step3: "\<exists>cv st. cv_vertex cv = vp_vertex sample_p1 \<and>
  vc_step (Suc (Suc (Suc 0))) sample_lib default_table_17_1 (sample_host 4 1)
    (InPartial (sample_partial 3)) (sample_book [(1, sample_sig 1), (2, sample_sig 2)], ()) =
  (Ok [BroadcastCertifiedVertex cv], st)"
proof -
  obtain cv where cv: "finalize_cert sample_lib (sample_host 4 1) (v_hash (vp_vertex sample_p1))
      (sample_book [(1, sample_sig 1), (2, sample_sig 2), (3, sample_sig 3)]) = Ok (Some cv)"
    "cv_vertex cv = vp_vertex sample_p1"
    using sample_cert by blast
  have "bt_get (vb_certified_by_round (record_cert cv (b\<lparr>vb_emitted_certs := x\<rparr>))) 0 =
      Some [(1, v_hash (vp_vertex sample_p1))]" if "vb_certified_by_round b = []" for b x
    using that cv(2) by (simp add: record_cert_def Let_def sample_p1_def bt_get_list bt_empty_def)
  then show ?thesis
    using sample_partial_ok [of 3] cv
    by (simp add: on_vertex_partial_def Let_def sample_active sample_partial_def try_finalize_def vc_run_Suc
        try_finalize_body_def maybe_advance_body_def advance_loop_body_def sample_need bt_get_list)
qed

lemma sample_genesis_certs: "certs_in (emitted (fst sample_genesis)) = []"
proof -
  let ?b = "(vertex_book_new 1)\<lparr>vb_started := True\<rparr>"
  obtain h a st where start: "start_proposal sample_lib default_table_17_1 (sample_host 4 1) 0 [] []
      (?b, ()) = (h, a, st)"
    by (metis prod_cases3)
  then have "certs_in a = []"
    by (auto simp: start_proposal_def Let_def split: prod.splits)
  moreover have "fst sample_genesis = Ok a"
    using propose_round_waits [OF sample_active sample_need _ start, of 0]
    by (simp add: sample_genesis_def genesis_propose_def vertex_book_new_def)
  ultimately show ?thesis
    by (simp add: emitted_def)
qed

theorem broadcast_certificates_verify_witness:
  "\<exists>tr st cv. vc_reach sample_lib default_table_17_1 (sample_set 4) 1 (st :: VertexBook \<times> unit) tr \<and>
     certs_in tr = [cv] \<and> verify_certified_vertex sample_lib cv (sample_set 4) = Ok () \<and>
     3 \<le> card (set (cert_signers cv (sample_set 4)))"
proof -
  let ?tr = "emitted (fst sample_genesis)"
  have "vc_reach sample_lib default_table_17_1 (sample_set 4) 1
      (sample_book [(1, sample_sig 1)], ()) ?tr"
    using sample_reach_genesis by (simp only: sample_genesis_eq)
  from vc_reach.step [OF this sample_active _ sample_step2]
  have r2: "vc_reach sample_lib default_table_17_1 (sample_set 4) 1
      (sample_book [(1, sample_sig 1), (2, sample_sig 2)], ()) ?tr"
    by (simp add: emitted_def)
  obtain cv and st :: "VertexBook \<times> unit" where
    "vc_step (Suc (Suc (Suc 0))) sample_lib default_table_17_1 (sample_host 4 1)
      (InPartial (sample_partial 3)) (sample_book [(1, sample_sig 1), (2, sample_sig 2)], ()) =
      (Ok [BroadcastCertifiedVertex cv], st)"
    using sample_step3 by blast
  from vc_reach.step [OF r2 sample_active _ this]
  have r3: "vc_reach sample_lib default_table_17_1 (sample_set 4) 1 st
      (?tr @ [BroadcastCertifiedVertex cv])"
    by (simp add: emitted_def)
  have "certs_in ?tr = []"
    by (rule sample_genesis_certs)
  with r3 broadcast_certificates_verify [OF r3 sample_need] show ?thesis
    by (intro exI [of _ "?tr @ [BroadcastCertifiedVertex cv]"] exI [of _ st] exI [of _ cv]) simp
qed


text \<open>A proposal of round 1 that names one certified vertex three times is voted for.\<close>

definition sample_repeat :: VertexProposal where
  "sample_repeat = build_proposal sample_lib (sample_host 4 2) 2 1 (replicate 3 7) []"

definition sample_repeat_book :: VertexBook where
  "sample_repeat_book = (vertex_book_new 1)\<lparr>vb_certified_by_round := [(0, [(3, 7)])]\<rparr>"

theorem votes_iff_valid_witness:
  "\<exists>a b'. on_vertex_proposal sample_lib sample_repeat (sample_host 4 1) sample_repeat_book = (Ok a, b') \<and>
     votes_in a \<noteq> [] \<and> card (set (v_parents (vp_vertex sample_repeat))) = 1"
proof -
  have ver: "verify_proposal sample_lib (sample_set 4) sample_repeat"
    by (simp add: verify_proposal_def sample_repeat_def sample_pk_for)
      (simp add: build_proposal_def sample_host_def Let_def)
  obtain a b' where res: "on_vertex_proposal sample_lib sample_repeat (sample_host 4 1)
      sample_repeat_book = (Ok a, b')"
    using ver by (simp add: on_vertex_proposal_def sample_active Let_def sample_repeat_def sample_repeat_book_def
        vertex_book_new_def round_in_window_def check_parents_and_vote_def cast_vote_def sample_need
        bt_get_list bt_values_def list_all_iff)
  have "acceptable sample_lib (sample_set 4) sample_repeat_book sample_repeat"
    using ver by (simp add: acceptable_def sample_repeat_def sample_repeat_book_def vertex_book_new_def round_in_window_def first_seen_def)
  moreover have "v_round (vp_vertex sample_repeat) \<noteq> 0" "v_parents (vp_vertex sample_repeat) = replicate 3 7"
    "bt_get (vb_certified_by_round sample_repeat_book) (v_round (vp_vertex sample_repeat) - 1) = Some [(3, 7)]" "7 \<in> set (bt_values [(3, 7 :: Hash32)])"
    by (simp_all add: sample_repeat_def sample_repeat_book_def bt_get_list bt_values_def)
  ultimately have "votes_in a \<noteq> [] \<and> card (set (v_parents (vp_vertex sample_repeat))) = 1"
    using votes_iff_valid [OF sample_active res, of 3 "[(3, 7)]" 7] sample_need by blast
  with res show ?thesis by blast
qed

theorem round_timer_backoff_witness:
  "\<exists>a new delay b'. vc_on_timer_fired default_table_17_1 (sample_host 4 1) 0 []
     ((vertex_book_new 1)\<lparr>vb_round_timer := Some 0\<rparr>) = (Ok (a @ [ScheduleTimer new delay]), b') \<and>
     unat delay = 500000000"
  using round_timer_backoff [OF sample_active sample_need, of "(vertex_book_new 1)\<lparr>vb_round_timer := Some 0\<rparr>" 0
      default_table_17_1 1 "[]"]
  by (auto simp: vertex_book_new_def certified_count_at_def default_table_17_1_def)

section \<open>Certified vertices do not conflict\<close>

text \<open>What a correct validator's signature in a certificate means: it voted for that vertex, or
  proposed it.\<close>

definition endorses :: "Actions \<Rightarrow> CertifiedVertex \<Rightarrow> bool" where
  "endorses tr cv \<longleftrightarrow>
     (\<exists>pt \<in> set (votes_in tr). pt_vertex_hash pt = v_hash (cv_vertex cv) \<and>
        vote_key pt = (v_round (cv_vertex cv), v_author (cv_vertex cv))) \<or>
     (\<exists>p \<in> set (proposals_in tr). vp_vertex p = cv_vertex cv)"

lemma endorses_unique:
  assumes reach: "vc_reach L cfg vset me st tr" and need: "quorum_need vset = Ok need" "2 \<le> need"
    and e: "endorses tr c" "endorses tr d"
    and same: "v_round (cv_vertex c) = v_round (cv_vertex d)"
      "v_author (cv_vertex c) = v_author (cv_vertex d)"
  shows "v_hash (cv_vertex c) = v_hash (cv_vertex d)"
proof -
  have inv: "votes_ok tr (fst st)" "proposals_ok L need tr (fst st)"
    using vc_reach_inv [OF reach need] by (auto simp: vb_inv_def)
  have vote: "pt_author pt \<noteq> vb_self_id (fst st)" if "pt \<in> set (votes_in tr)" for pt
    using that inv(1) by (auto simp: votes_ok_def)
  have own: "v_author (vp_vertex p) = vb_self_id (fst st)" "p \<in> own_proposals tr (fst st)"
    if "p \<in> set (proposals_in tr)" for p
    using that inv(2) by (auto simp: proposals_ok_def own_proposals_def)
  have inj: "inj_on vote_key (set (votes_in tr))"
    "inj_on (\<lambda>p. v_round (vp_vertex p)) (own_proposals tr (fst st))"
    using inv by (auto simp: votes_ok_def proposals_ok_def distinct_map)
  show ?thesis
    using e(1) unfolding endorses_def
  proof
    assume "\<exists>pt \<in> set (votes_in tr). pt_vertex_hash pt = v_hash (cv_vertex c) \<and>
        vote_key pt = (v_round (cv_vertex c), v_author (cv_vertex c))"
    then show ?thesis
      using e(2) vote own same inj(1) unfolding endorses_def vote_key_def inj_on_def
      by (metis prod.inject)
  next
    assume "\<exists>p \<in> set (proposals_in tr). vp_vertex p = cv_vertex c"
    then show ?thesis
      using e(2) vote own same inj(2) unfolding endorses_def vote_key_def inj_on_def
      by (metis prod.inject)
  qed
qed

text \<open>
  C1: In a committee of 3f + 1 validators of which at most f are faulty, two certified vertices of
  the same author and round have the same hash, when correct validators sign only what they voted
  for or proposed.
\<close>

theorem certified_vertices_agree:
  assumes size: "length (vs_entries vset) mod 3 = 1" "4 \<le> length (vs_entries vset)"
    and faulty: "finite F" "3 * card F < length (vs_entries vset)"
    and correct: "\<And>i. i < length (vs_entries vset) \<Longrightarrow> i \<notin> F \<Longrightarrow>
      vc_reach L cfg vset (ve_id (vs_entries vset ! i)) (state i) (trace i)"
    and unforged: "\<And>cv i. cv \<in> {c, d} \<Longrightarrow> i \<in> set (cert_signers cv vset) \<Longrightarrow> i \<notin> F \<Longrightarrow>
      endorses (trace i) cv"
    and ver: "verify_certified_vertex L c vset = Ok ()" "verify_certified_vertex L d vset = Ok ()"
    and same: "v_round (cv_vertex c) = v_round (cv_vertex d)"
      "v_author (cv_vertex c) = v_author (cv_vertex d)"
  shows "v_hash (cv_vertex c) = v_hash (cv_vertex d)"
proof -
  let ?N = "length (vs_entries vset)" and ?n = "of_nat (length (vs_entries vset)) :: u32"
  have "u32_try_from ?N \<noteq> None"
    using ver(1) by (auto simp: verify_certified_vertex_def outcome_simps split: if_splits)
  then have n: "unat ?n = ?N" and fits: "u32_try_from ?N = Some ?n"
    by (auto simp: u32_try_from_def unat_of_nat_small split: if_splits)
  define need where "need = unat (quorum_threshold ?n)"
  have need: "quorum_need vset = Ok need"
    by (simp add: quorum_need_def fits need_def)
  have two: "2 \<le> need"
    using size(2) n by (simp add: need_def unat_quorum_threshold fault_bound_def)
  have sub: "set (cert_signers cv vset) \<subseteq> {..<unat ?n}" for cv
    by (auto simp: cert_signers_def n)
  have q: "unat (quorum_threshold ?n) \<le> card (set (cert_signers c vset))"
    "unat (quorum_threshold ?n) \<le> card (set (cert_signers d vset))"
    using verify_certified_vertex_Ok(2) ver by blast+
  have "card F \<le> fault_bound ?n" "unat ?n mod 3 = 1"
    using faulty(2) size n by (auto simp: fault_bound_def)
  then obtain i where i: "i \<in> set (cert_signers c vset)" "i \<in> set (cert_signers d vset)" "i \<notin> F"
    using vertex_quorum.common_correct_member [of ?n, OF _ sub sub q faulty(1)] by blast
  then have "i < ?N"
    using sub [of c] n by auto
  then show ?thesis
    using endorses_unique [OF correct [OF _ i(3)] need two unforged unforged same] i by blast
qed


text \<open>All four members endorse the genesis vertex of member 1; two different quorums certify it.\<close>

definition sample_endorse_step :: "nat \<Rightarrow> unit vc_result" where
  "sample_endorse_step i = (if i = 0 then sample_genesis
     else vc_step 0 sample_lib default_table_17_1 (sample_host 4 (Suc i)) (InProposal sample_p1)
       (vertex_book_new (of_nat (Suc i)), ()))"

abbreviation sample_trace :: "nat \<Rightarrow> Actions" where
  "sample_trace i \<equiv> emitted (fst (sample_endorse_step i))"

lemma sample_p1_ok: "verify_proposal sample_lib (sample_set 4) sample_p1"
  by (simp add: verify_proposal_def sample_p1_def sample_pk_for)
    (simp add: build_proposal_def sample_host_def Let_def)

lemma sample_endorse_reach:
  "i < 4 \<Longrightarrow> vc_reach sample_lib default_table_17_1 (sample_set 4) (of_nat (Suc i))
    (snd (sample_endorse_step i)) (sample_trace i)"
proof (cases "i = 0")
  case False
  have "vc_step 0 sample_lib default_table_17_1 (sample_host 4 (Suc i)) (InProposal sample_p1)
      (vertex_book_new (of_nat (Suc i)), ()) = (fst (sample_endorse_step i), snd (sample_endorse_step i))"
    using False by (simp add: sample_endorse_step_def)
  from vc_reach.step [OF vc_reach.init sample_active _ this] show ?thesis
    by simp
qed (use sample_reach_genesis in \<open>simp add: sample_endorse_step_def\<close>)

lemma sample_endorses:
  assumes "i < 4" "cv_vertex cv = vp_vertex sample_p1"
  shows "endorses (sample_trace i) cv"
proof -
  consider "i = 0" | "i = 1" | "i = 2" | "i = 3"
    using assms(1) by linarith
  then show ?thesis
  proof cases
    case 1
    then show ?thesis
      using assms(2) sample_genesis_proposals
      by (simp add: endorses_def sample_endorse_step_def sample_p1_def)
  qed (use assms(2) sample_p1_ok in \<open>simp_all add: endorses_def sample_endorse_step_def
      on_vertex_proposal_def sample_active Let_def sample_p1_def vertex_book_new_def round_in_window_def
      check_parents_and_vote_def cast_vote_def emitted_def vote_key_def\<close>)
qed

lemma sample_quorum_cert:
  assumes "distinct is" "set is \<subseteq> {..<4}" "3 \<le> length is"
  shows "\<exists>cv. cv_vertex cv = vp_vertex sample_p1 \<and>
    verify_certified_vertex sample_lib cv (sample_set 4) = Ok () \<and>
    set (cert_signers cv (sample_set 4)) = set is"
proof -
  let ?cs = "map (\<lambda>i. (of_nat i :: u32, sample_sig (Suc i))) is"
  have lt: "i < 2 ^ 32" "[1, 2, 3, 4] ! i = (of_nat (Suc i) :: 768 word)" if "i \<in> set is" for i
  proof -
    have "i = 0 \<or> i = 1 \<or> i = 2 \<or> i = 3"
      using that assms(2) by fastforce
    then show "i < 2 ^ 32" "[1, 2, 3, 4] ! i = (of_nat (Suc i) :: 768 word)"
      by auto
  qed
  then have un: "unat (of_nat i :: u32) = i" if "i \<in> set is" for i
    using that by (intro unat_of_nat_small) simp
  then have "inj_on (of_nat :: nat \<Rightarrow> u32) (set is)"
    by (metis inj_onI)
  then have "valid_contributors sample_lib [1, 2, 3, 4] DST_VERTEX_CERT
      (signing_bytes sample_lib (vp_vertex sample_p1)) ?cs"
    using assms(1,2) lt by (auto simp: valid_contributors_def un comp_def distinct_map sample_sig_def)
  moreover have "unat (quorum_threshold (of_nat (length (vs_entries (sample_set 4))))) \<le> length ?cs"
    using quorum_need_Ok [OF sample_need] assms(3) by simp
  moreover have "v_hash (vp_vertex sample_p1) = content_hash sample_lib (vp_vertex sample_p1)"
    by (simp add: sample_p1_def)
  moreover have "(unat \<circ> fst) ` set ?cs = set is"
  proof -
    have "(unat \<circ> fst) ` set ?cs = (\<lambda>i. unat (of_nat i :: u32)) ` set is"
      by (simp add: image_image)
    also have "\<dots> = (\<lambda>i. i) ` set is"
      by (rule image_cong) (auto simp: un)
    finally show ?thesis
      by simp
  qed
  ultimately show ?thesis
    using assemble_then_verify [OF sample_aggregation sample_keys, of "vp_vertex sample_p1" ?cs]
    by auto
qed

theorem certified_vertices_agree_witness:
  "\<exists>c d. c \<noteq> d \<and> verify_certified_vertex sample_lib c (sample_set 4) = Ok () \<and>
     verify_certified_vertex sample_lib d (sample_set 4) = Ok () \<and>
     v_hash (cv_vertex c) = v_hash (cv_vertex d)"
proof -
  obtain c where c: "cv_vertex c = vp_vertex sample_p1"
      "verify_certified_vertex sample_lib c (sample_set 4) = Ok ()"
      "set (cert_signers c (sample_set 4)) = {0, 1, 2}"
    using sample_quorum_cert [of "[0, 1, 2]"] by auto
  obtain d where d: "cv_vertex d = vp_vertex sample_p1"
      "verify_certified_vertex sample_lib d (sample_set 4) = Ok ()"
      "set (cert_signers d (sample_set 4)) = {0, 1, 3}"
    using sample_quorum_cert [of "[0, 1, 3]"] by auto
  have ids: "ve_id (vs_entries (sample_set 4) ! i) = of_nat (Suc i)" if "i < 4" for i
    using that by (simp add: sample_set_def sample_entry_def del: sample_entries_4)
  have "v_hash (cv_vertex c) = v_hash (cv_vertex d)"
  proof (rule certified_vertices_agree [where F = "{}" and trace = sample_trace and
        state = "\<lambda>i. snd (sample_endorse_step i)" and cfg = default_table_17_1, OF _ _ _ _ _ _ c(2) d(2)])
    fix i assume "i < length (vs_entries (sample_set 4))"
    then have "i < 4" by simp
    then show "vc_reach sample_lib default_table_17_1 (sample_set 4)
        (ve_id (vs_entries (sample_set 4) ! i)) (snd (sample_endorse_step i)) (sample_trace i)"
      unfolding ids [OF \<open>i < 4\<close>] by (rule sample_endorse_reach)
  next
    fix cv i assume "cv \<in> {c, d}" "i \<in> set (cert_signers cv (sample_set 4))"
    then show "endorses (sample_trace i) cv"
      using c d by (intro sample_endorses) auto
  qed (use c(1) d(1) in simp_all)
  moreover have "c \<noteq> d"
    using c(3) d(3) by auto
  ultimately show ?thesis
    using c d by blast
qed

end
