(* ===== verification/Bullshark.thy ===== *)
theory Bullshark
  imports Consensus_Base
begin

text \<open>
  Micro-ordering (\<open>consensus/src/bullshark\<close>): four-round waves, the anchor lottery, the two commit
  rules, the linearization of an anchor's causal history, the micro quorum certificate and the
  handlers that tie them to the wave book and its slow-path timers.
\<close>

section \<open>Waves\<close>

type_synonym WaveId = u64

definition wave_first_round :: "WaveId \<Rightarrow> Round" where
  "wave_first_round w = w * 4"

definition wave_last_round :: "WaveId \<Rightarrow> Round" where
  "wave_last_round w = w * 4 + 3"

definition wave_of_round :: "Round \<Rightarrow> WaveId" where
  "wave_of_round r = r div 4"

section \<open>Anchor lottery\<close>

record AnchorChoice =
  ac_wave :: WaveId
  ac_author :: ValidatorId
  ac_anchor_hash :: Hash32

definition sortition_beta :: "'x crypto_lib \<Rightarrow> Hash32 \<Rightarrow> WaveId \<Rightarrow> ValidatorId \<Rightarrow> Hash32" where
  "sortition_beta L beacon wave validator =
     blake3_with_dst L DST_BEACON (be_bytes 32 beacon @ be_bytes 8 wave @ be_bytes 32 validator)"

text \<open>\<open>partial_cmp\<close> with \<open>Equal\<close> for incomparable values: a NaN score ties with everything.\<close>

datatype Ordering = Less | Equal | Greater

definition f64_cmp :: "f64 \<Rightarrow> f64 \<Rightarrow> Ordering" where
  "f64_cmp a b = (if f64_lt a b then Less else if f64_lt b a then Greater else Equal)"

fun better_anchor :: "ValidatorId \<times> f64 \<Rightarrow> (ValidatorId \<times> f64) option \<Rightarrow> ValidatorId \<times> f64" where
  "better_anchor (eid, score) None = (eid, score)"
| "better_anchor (eid, score) (Some (prev_id, prev_score)) =
     (case f64_cmp score prev_score of
        Less \<Rightarrow> (eid, score)
      | Equal \<Rightarrow> if eid < prev_id then (eid, score) else (prev_id, prev_score)
      | Greater \<Rightarrow> (prev_id, prev_score))"

definition anchor_score :: "'x crypto_lib \<Rightarrow> Hash32 \<Rightarrow> WaveId \<Rightarrow> u64 \<Rightarrow> ValidatorEntry \<Rightarrow> f64" where
  "anchor_score L beacon wave total_stake e =
     vrf_sortition_score (sortition_beta L beacon wave (ve_id e)) total_stake (ve_stake e) (Fin 1)"

definition select_anchor :: "'x crypto_lib \<Rightarrow> WaveId \<Rightarrow> ValidatorSet \<Rightarrow> 's HostContext \<Rightarrow>
    (Error, AnchorChoice) outcome" where
  "select_anchor L wave vset ctx =
     (if vs_entries vset = [] then Err (InvalidConfig ''anchor selection on empty validator set'')
      else bind_out (beacon_current ctx) (\<lambda>beacon_val. let
        best = fold (\<lambda>e best. Some (better_anchor
                 (ve_id e, anchor_score L beacon_val wave (vs_total_stake vset) e) best))
               (vs_entries vset) None
      in case best of
           None \<Rightarrow> Panic ''non-empty set guarantees a winner''
         | Some (author, _) \<Rightarrow>
             Ok \<lparr> ac_wave = wave, ac_author = author, ac_anchor_hash = hash_zero \<rparr>))"

section \<open>Reachability in the DAG\<close>

text \<open>
  The breadth-first searches: \<open>push_new\<close> appends the parents not yet visited to the queue. Every
  push marks a hash as visited, so the number of unvisited hashes plus the queue length decreases
  in every iteration.
\<close>

fun push_new :: "Hash32 list \<Rightarrow> Hash32 set \<Rightarrow> Hash32 list \<Rightarrow> Hash32 set \<times> Hash32 list" where
  "push_new [] visited queue = (visited, queue)"
| "push_new (p # ps) visited queue =
     (if p \<in> visited then push_new ps visited queue
      else push_new ps (insert p visited) (queue @ [p]))"

lemma push_new_measure:
  "push_new ps visited queue = (visited', queue') \<Longrightarrow>
     card (- visited') + length queue' = card (- visited) + length queue"
proof (induction ps visited queue rule: push_new.induct)
  case (2 p ps visited queue)
  show ?case
  proof (cases "p \<in> visited")
    case False
    then have "card (- visited) = Suc (card (- insert p visited))"
      by (metis Compl_insert ComplI card_Suc_Diff1 finite)
    with False 2 show ?thesis by simp
  qed (use 2 in simp)
qed simp

function reaches_loop :: "'s HostContext \<Rightarrow> Hash32 \<Rightarrow> Hash32 list \<Rightarrow> Hash32 set \<Rightarrow>
    (Error, bool) outcome" where
  "reaches_loop ctx target [] visited = Ok False"
| "reaches_loop ctx target (h # queue) visited =
     (if h = target then Ok True
      else case dag_vertex ctx h of
        Err e \<Rightarrow> Err e
      | Panic m \<Rightarrow> Panic m
      | Ok None \<Rightarrow> reaches_loop ctx target queue visited
      | Ok (Some v) \<Rightarrow> (case push_new (v_parents (cv_vertex v)) visited queue of
          (visited', queue') \<Rightarrow> reaches_loop ctx target queue' visited'))"
  by pat_completeness auto
termination
  by (relation "measure (\<lambda>(ctx, target, queue, visited). card (- visited) + length queue)")
     (auto dest: push_new_measure [OF sym])

definition vertex_reaches :: "'s HostContext \<Rightarrow> CertifiedVertex \<Rightarrow> Hash32 \<Rightarrow>
    (Error, bool) outcome" where
  "vertex_reaches ctx start target =
     (if v_hash (cv_vertex start) = target then Ok True
      else reaches_loop ctx target (v_parents (cv_vertex start))
             (set (v_parents (cv_vertex start))))"

section \<open>Commit rules\<close>

datatype CommitPath = Shortcut | SlowPath

record CommitDecision =
  cd_wave :: WaveId
  cd_path :: CommitPath
  cd_anchor_hash :: Hash32

fun supporters_in :: "'s HostContext \<Rightarrow> Hash32 \<Rightarrow> CertifiedVertex list \<Rightarrow> ValidatorId set \<Rightarrow>
    (Error, ValidatorId set) outcome" where
  "supporters_in ctx anchor_hash [] supporters = Ok supporters"
| "supporters_in ctx anchor_hash (v # vs) supporters =
     bind_out (vertex_reaches ctx v anchor_hash) (\<lambda>r.
       supporters_in ctx anchor_hash vs
         (if r then insert (v_author (cv_vertex v)) supporters else supporters))"

fun supporters_over :: "'s HostContext \<Rightarrow> Hash32 \<Rightarrow> Round \<Rightarrow> nat list \<Rightarrow> ValidatorId set \<Rightarrow>
    (Error, ValidatorId set) outcome" where
  "supporters_over ctx anchor_hash anchor_round [] supporters = Ok supporters"
| "supporters_over ctx anchor_hash anchor_round (offset # offsets) supporters =
     bind_out (dag_vertices_at_round ctx (anchor_round + of_nat offset)) (\<lambda>vs.
     bind_out (supporters_in ctx anchor_hash vs supporters) (\<lambda>supporters'.
       supporters_over ctx anchor_hash anchor_round offsets supporters'))"

definition count_supporters :: "Hash32 \<Rightarrow> Round \<Rightarrow> u32 \<Rightarrow> 's HostContext \<Rightarrow>
    (Error, ValidatorId set) outcome" where
  "count_supporters anchor_hash anchor_round window_rounds ctx =
     supporters_over ctx anchor_hash anchor_round [1..<Suc (unat window_rounds)] {}"

definition commit_need :: "usize \<Rightarrow> usize" where
  "commit_need n = 2 * ((n - 1) div 3) + 1"

definition try_commit_wave :: "'x crypto_lib \<Rightarrow> WaveId \<Rightarrow> Config \<Rightarrow> ValidatorSet \<Rightarrow>
    's HostContext \<Rightarrow> bool \<Rightarrow> (Error, CommitDecision option) outcome" where
  "try_commit_wave L wave cfg vset ctx timed_out =
     (if vs_entries vset = [] then Ok None
      else bind_out (select_anchor L wave vset ctx) (\<lambda>anchor_choice.
      let anchor_round = wave_first_round wave in
      bind_out (dag_vertices_at_round ctx anchor_round) (\<lambda>vs.
      case find (\<lambda>v. v_author (cv_vertex v) = ac_author anchor_choice) vs of
        None \<Rightarrow> Ok None
      | Some anchor_vertex \<Rightarrow> (let
          anchor_hash = v_hash (cv_vertex anchor_vertex);
          need = commit_need (length (vs_entries vset))
        in bind_out (count_supporters anchor_hash anchor_round
               (shortcut_round_count (cfg_bullshark cfg)) ctx) (\<lambda>shortcut_supporters.
           if need \<le> card shortcut_supporters then
             Ok (Some \<lparr> cd_wave = wave, cd_path = Shortcut, cd_anchor_hash = anchor_hash \<rparr>)
           else if timed_out then
             bind_out (count_supporters anchor_hash anchor_round
               (slow_path_round_count (cfg_bullshark cfg)) ctx) (\<lambda>slow_supporters.
             if need \<le> card slow_supporters then
               Ok (Some \<lparr> cd_wave = wave, cd_path = SlowPath, cd_anchor_hash = anchor_hash \<rparr>)
             else Ok None)
           else Ok None)))))"

section \<open>Linearization\<close>

record Linearization =
  lin_order :: "Hash32 list"

function closure_loop :: "'s HostContext \<Rightarrow> Hash32 list \<Rightarrow> Hash32 set \<Rightarrow> Hash32 list \<Rightarrow>
    (Error, Hash32 list) outcome" where
  "closure_loop ctx [] visited order = Ok order"
| "closure_loop ctx (h # queue) visited order =
     (case dag_vertex ctx h of
        Err e \<Rightarrow> Err e
      | Panic m \<Rightarrow> Panic m
      | Ok None \<Rightarrow> closure_loop ctx queue visited (order @ [h])
      | Ok (Some cv) \<Rightarrow> (case push_new (sort (v_parents (cv_vertex cv))) visited queue of
          (visited', queue') \<Rightarrow> closure_loop ctx queue' visited' (order @ [h])))"
  by pat_completeness auto
termination
  by (relation "measure (\<lambda>(ctx, queue, visited, order). card (- visited) + length queue)")
     (auto dest: push_new_measure [OF sym])

definition closure_of_anchor :: "Hash32 \<Rightarrow> 's HostContext \<Rightarrow> (Error, Linearization) outcome" where
  "closure_of_anchor anchor_hash ctx =
     bind_out (closure_loop ctx [anchor_hash] {anchor_hash} []) (\<lambda>order. Ok \<lparr> lin_order = order \<rparr>)"

definition checkpoint_hash_from_rounds :: "'x crypto_lib \<Rightarrow> CertifiedVertex list \<Rightarrow> Hash32" where
  "checkpoint_hash_from_rounds L vertices =
     blake3_with_dst L DST_MICRO_QC (borsh_hash_vec L (map (\<lambda>cv. v_hash (cv_vertex cv)) vertices))"

definition checkpoint_hash_from_linearization :: "'x crypto_lib \<Rightarrow> Linearization \<Rightarrow> Hash32" where
  "checkpoint_hash_from_linearization L lin =
     blake3_with_dst L DST_MICRO_QC (borsh_hash_vec L (lin_order lin))"

section \<open>Micro quorum certificates\<close>

type_synonym EmittedSet = "Hash32 set"

definition placeholder_sig :: BlsSig where
  "placeholder_sig = word_of_be (replicate 96 171)"

definition micro_try_finalize :: "Hash32 \<Rightarrow> CertifiedVertex list \<Rightarrow> 's HostContext \<Rightarrow>
    (Error, MicroQc option) outcome" where
  "micro_try_finalize checkpoint_hash linearized ctx =
     bind_out (bind_out (valset_set_for ctx 0)
       (ok_or (InvalidConfig ''no validator set for epoch 0''))) (\<lambda>vset. let
         n = length (vs_entries vset)
       in if n = 0 then Ok None
          else let
            authors = set (map (\<lambda>cv. v_author (cv_vertex cv)) linearized);
            need = 2 * ((n - 1) div 3) + 1
          in if card authors < need then Ok None
             else let
               slots = filter (\<lambda>i. ve_id (vs_entries vset ! i) \<in> authors) [0..<n];
               bitmap = fold (\<lambda>i bs. set_slot bs i) slots (replicate (div_ceil n 8) 0)
             in Ok (Some \<lparr> uq_checkpoint_hash = checkpoint_hash,
                  uq_agg = \<lparr> as_sig = placeholder_sig, as_bitmap = bitmap \<rparr> \<rparr>))"

section \<open>Wave book and handlers\<close>

record WaveBook =
  wb_committed_waves :: "u64 set"
  wb_slow_timer_by_wave :: "u64 \<rightharpoonup> TimerId"
  wb_timer_to_wave :: "u64 \<rightharpoonup> WaveId"
  wb_timers :: TimerScheduler

definition wave_book_new :: WaveBook where
  "wave_book_new = \<lparr> wb_committed_waves = {}, wb_slow_timer_by_wave = Map.empty,
     wb_timer_to_wave = Map.empty, wb_timers = scheduler_default \<rparr>"

type_synonym BullState = "EmittedSet \<times> WaveBook"

definition slow_path_delay_nanos :: "Config \<Rightarrow> u128" where
  "slow_path_delay_nanos cfg =
     ucast (shortcut_round_count (cfg_bullshark cfg)) *
     ucast (round_duration_ms (cfg_timing cfg)) * 1000000"

definition anchor_present :: "'x crypto_lib \<Rightarrow> WaveId \<Rightarrow> ValidatorSet \<Rightarrow> 's HostContext \<Rightarrow>
    (Error, bool) outcome" where
  "anchor_present L wave vset ctx =
     bind_out (select_anchor L wave vset ctx) (\<lambda>choice.
     bind_out (dag_vertices_at_round ctx (wave_first_round wave)) (\<lambda>vs.
       Ok (list_ex (\<lambda>v. v_author (cv_vertex v) = ac_author choice) vs)))"

text \<open>Scheduling the slow-path timer of a wave whose anchor is present but not yet committed.\<close>

definition schedule_slow_timer :: "Config \<Rightarrow> WaveId \<Rightarrow> BullState \<Rightarrow> Actions \<times> BullState" where
  "schedule_slow_timer cfg wave st = (let
     waves = snd st;
     (tid, timers) = allocate (wb_timers waves)
   in ([ScheduleTimer tid (slow_path_delay_nanos cfg)],
       (fst st, waves\<lparr>wb_timers := timers,
          wb_slow_timer_by_wave := (wb_slow_timer_by_wave waves)(wave \<mapsto> tid),
          wb_timer_to_wave := (wb_timer_to_wave waves)(tid \<mapsto> wave)\<rparr>)))"

text \<open>Marking a wave as committed and dropping its slow-path timer.\<close>

definition mark_committed :: "WaveId \<Rightarrow> WaveBook \<Rightarrow> Actions \<times> WaveBook" where
  "mark_committed wave waves = (let
     waves1 = waves\<lparr>wb_committed_waves := insert wave (wb_committed_waves waves)\<rparr>
   in case wb_slow_timer_by_wave waves1 wave of
        None \<Rightarrow> ([], waves1)
      | Some tid \<Rightarrow> ([CancelTimer tid],
          waves1\<lparr>wb_slow_timer_by_wave := (wb_slow_timer_by_wave waves1)(wave := None),
                 wb_timer_to_wave := (wb_timer_to_wave waves1)(tid := None)\<rparr>))"

definition lookup_all :: "'s HostContext \<Rightarrow> Hash32 list \<Rightarrow> (Error, CertifiedVertex list) outcome" where
  "lookup_all ctx hs = bind_out (mapM_out (dag_vertex ctx) hs)
     (\<lambda>rs. Ok (List.map_filter (\<lambda>r. r) rs))"

text \<open>The certificate of a committed anchor: the checkpoint of its history and the QC, if any.\<close>

definition emit_checkpoint :: "'x crypto_lib \<Rightarrow> Hash32 \<Rightarrow> 's HostContext \<Rightarrow> Actions \<Rightarrow>
    BullState \<Rightarrow> (Error, Actions) outcome \<times> BullState" where
  "emit_checkpoint L anchor_hash ctx actions st =
     call (closure_of_anchor anchor_hash ctx) st (\<lambda>lin. let
       checkpoint = checkpoint_hash_from_linearization L lin
     in if checkpoint \<in> fst st then (Ok actions, st)
        else call (lookup_all ctx (lin_order lin)) st (\<lambda>linearized.
             call (micro_try_finalize checkpoint linearized ctx) st (\<lambda>r. case r of
               None \<Rightarrow> (Ok actions, st)
             | Some qc \<Rightarrow> (Ok (actions @ [BroadcastMicroQc qc]),
                  (insert checkpoint (fst st), snd st)))))"

definition try_emit_for_wave :: "'x crypto_lib \<Rightarrow> WaveId \<Rightarrow> Config \<Rightarrow> 's HostContext \<Rightarrow> bool \<Rightarrow>
    BullState \<Rightarrow> (Error, Actions) outcome \<times> BullState" where
  "try_emit_for_wave L wave cfg ctx timed_out st =
     (if wave \<in> wb_committed_waves (snd st) then (Ok [], st)
      else call (valset_set_for ctx 0) st (\<lambda>r. case r of
        None \<Rightarrow> (Ok [], st)
      | Some vset \<Rightarrow>
          call (try_commit_wave L wave cfg vset ctx timed_out) st (\<lambda>d. case d of
            None \<Rightarrow>
              if timed_out \<or> wb_slow_timer_by_wave (snd st) wave \<noteq> None then (Ok [], st)
              else call (anchor_present L wave vset ctx) st (\<lambda>present.
                if present then
                  (case schedule_slow_timer cfg wave st of (actions, st') \<Rightarrow> (Ok actions, st'))
                else (Ok [], st))
          | Some decision \<Rightarrow>
              (case mark_committed wave (snd st) of (actions, waves') \<Rightarrow>
                 emit_checkpoint L (cd_anchor_hash decision) ctx actions (fst st, waves')))))"

fun emit_for_waves :: "'x crypto_lib \<Rightarrow> Config \<Rightarrow> 's HostContext \<Rightarrow> WaveId list \<Rightarrow> Actions \<Rightarrow>
    BullState \<Rightarrow> (Error, Actions) outcome \<times> BullState" where
  "emit_for_waves L cfg ctx [] actions st = (Ok actions, st)"
| "emit_for_waves L cfg ctx (w # ws) actions st =
     (if w \<in> wb_committed_waves (snd st) then emit_for_waves L cfg ctx ws actions st
      else bind_st (try_emit_for_wave L w cfg ctx False st) (\<lambda>src st'.
        emit_for_waves L cfg ctx ws (actions @ src) st'))"

definition bull_on_certified_vertex :: "'x crypto_lib \<Rightarrow> Config \<Rightarrow> CertifiedVertex \<Rightarrow>
    's HostContext \<Rightarrow> BullState \<Rightarrow> (Error, Actions) outcome \<times> BullState" where
  "bull_on_certified_vertex L cfg cv ctx st =
     emit_for_waves L cfg ctx
       (map of_nat [0..<Suc (unat (wave_of_round (v_round (cv_vertex cv))))]) [] st"

definition bull_on_micro_qc_assembled :: "EmittedSet \<Rightarrow> MicroQc \<Rightarrow> (Error, Actions) outcome" where
  "bull_on_micro_qc_assembled emitted qc = Ok []"

definition bull_on_timer_fired :: "'x crypto_lib \<Rightarrow> Config \<Rightarrow> TimerId \<Rightarrow> 's HostContext \<Rightarrow>
    BullState \<Rightarrow> (Error, Actions) outcome \<times> BullState" where
  "bull_on_timer_fired L cfg tid ctx st = (let waves = snd st in
     case wb_timer_to_wave waves tid of
       None \<Rightarrow> (Ok [], st)
     | Some wave \<Rightarrow> try_emit_for_wave L wave cfg ctx True
         (fst st, waves\<lparr>wb_timer_to_wave := (wb_timer_to_wave waves)(tid := None),
                        wb_slow_timer_by_wave := (wb_slow_timer_by_wave waves)(wave := None)\<rparr>))"

lemma f64_cmp_refl: "f64_cmp a a = Equal"
  by (cases a) (simp_all add: f64_cmp_def)

end
