(* ===== verification/Bullshark_Facts.thy ===== *)
theory Bullshark_Facts
  imports Bullshark
begin

text \<open>
  What micro-ordering computes: the anchor lottery picks the least score, the breadth-first
  searches compute reachability over parent edges, the commit rules count the authors in their
  window, and the wave book keeps its timers consistent.
\<close>

section \<open>The anchor lottery\<close>

definition anchor_le :: "ValidatorId \<times> f64 \<Rightarrow> ValidatorId \<times> f64 \<Rightarrow> bool" where
  "anchor_le a b \<longleftrightarrow> f64_lt (snd a) (snd b) \<or> f64_eq (snd a) (snd b) \<and> fst a \<le> fst b"

lemma f64_lt_asym: "f64_lt a b \<Longrightarrow> \<not> f64_lt b a"
  by (cases a; cases b) auto

lemma f64_eq_iff: "f64_eq a b \<longleftrightarrow> a = b \<and> a \<noteq> NaN"
  by (cases a; cases b) auto

lemma anchor_le_refl: "snd a \<noteq> NaN \<Longrightarrow> anchor_le a a"
  by (simp add: anchor_le_def f64_eq_iff)

lemma anchor_le_trans: "anchor_le a b \<Longrightarrow> anchor_le b c \<Longrightarrow> anchor_le a c"
  by (auto simp: anchor_le_def f64_eq_iff intro: f64_lt_trans)

lemma anchor_le_antisym: "anchor_le a b \<Longrightarrow> anchor_le b a \<Longrightarrow> a = b"
  by (cases a; cases b) (auto simp: anchor_le_def f64_eq_iff dest: f64_lt_asym)

lemma better_anchor_le:
  assumes "snd a \<noteq> NaN" "snd b \<noteq> NaN"
  shows "anchor_le (better_anchor a (Some b)) a \<and> anchor_le (better_anchor a (Some b)) b \<and>
    better_anchor a (Some b) \<in> {a, b}"
proof (cases a, cases b)
  fix i s j t
  assume a: "a = (i, s)" and b: "b = (j, t)"
  show ?thesis
  proof (cases "f64_lt s t \<or> f64_lt t s")
    case True
    then show ?thesis
      using assms by (auto simp: a b f64_cmp_def anchor_le_def f64_eq_iff dest: f64_lt_asym)
  next
    case False
    then have "s = t"
      using f64_trichotomy assms a b by auto
    then show ?thesis
      using assms False by (auto simp: a b f64_cmp_def anchor_le_def f64_eq_iff)
  qed
qed

lemma fold_better_anchor:
  assumes "snd b \<noteq> NaN" "\<And>a. a \<in> set as \<Longrightarrow> snd a \<noteq> NaN"
  shows "\<exists>w. fold (\<lambda>a best. Some (better_anchor a best)) as (Some b) = Some w \<and>
    w \<in> insert b (set as) \<and> anchor_le w b \<and> (\<forall>a \<in> set as. anchor_le w a)"
  using assms
proof (induction as arbitrary: b)
  case Nil
  then show ?case
    by (simp add: anchor_le_refl)
next
  case (Cons a as)
  define c where "c = better_anchor a (Some b)"
  have c: "anchor_le c a" "anchor_le c b" "c \<in> {a, b}"
    using better_anchor_le [of a b] Cons.prems by (auto simp: c_def)
  then have "snd c \<noteq> NaN"
    using Cons.prems(1) Cons.prems(2) [of a] by auto
  with Cons.IH [of c] Cons.prems(2) obtain w where
    "fold (\<lambda>a best. Some (better_anchor a best)) as (Some c) = Some w"
    "w \<in> insert c (set as)" "anchor_le w c" "\<forall>x \<in> set as. anchor_le w x"
    by auto
  with c show ?case
    by (auto simp: c_def intro: anchor_le_trans)
qed

definition anchor_bids :: "'x crypto_lib \<Rightarrow> Hash32 \<Rightarrow> WaveId \<Rightarrow> ValidatorSet \<Rightarrow> (ValidatorId \<times> f64) set" where
  "anchor_bids L beacon wave vset =
     (\<lambda>e. (ve_id e, anchor_score L beacon wave (vs_total_stake vset) e)) ` set (vs_entries vset)"

lemma anchor_score_not_NaN: "anchor_score L beacon wave total_stake e \<noteq> NaN"
  by (simp add: anchor_score_def vrf_sortition_score_not_NaN)

lemma anchor_bids_not_NaN: "a \<in> anchor_bids L beacon wave vset \<Longrightarrow> snd a \<noteq> NaN"
  by (auto simp: anchor_bids_def anchor_score_not_NaN)

text \<open>The lottery returns the author of the unique least bid.\<close>

lemma select_anchor_least:
  assumes "vs_entries vset \<noteq> []" "beacon_current ctx = Ok beacon"
  shows "\<exists>w \<in> anchor_bids L beacon wave vset.
    select_anchor L wave vset ctx =
      Ok \<lparr> ac_wave = wave, ac_author = fst w, ac_anchor_hash = hash_zero \<rparr> \<and>
    (\<forall>a \<in> anchor_bids L beacon wave vset. anchor_le w a)"
proof -
  define bid where "bid e = (ve_id e, anchor_score L beacon wave (vs_total_stake vset) e)" for e
  obtain e es where es: "vs_entries vset = e # es"
    using assms(1) by (cases "vs_entries vset") auto
  have bids: "anchor_bids L beacon wave vset = insert (bid e) (set (map bid es))"
    by (simp add: anchor_bids_def bid_def es)
  have "\<exists>w. fold (\<lambda>a best. Some (better_anchor a best)) (map bid es) (Some (bid e)) = Some w \<and>
      w \<in> insert (bid e) (set (map bid es)) \<and> anchor_le w (bid e) \<and>
      (\<forall>a \<in> set (map bid es). anchor_le w a)"
    by (rule fold_better_anchor) (auto simp: bid_def anchor_score_not_NaN)
  then obtain w where w:
    "fold (\<lambda>a best. Some (better_anchor a best)) (map bid es) (Some (bid e)) = Some w"
    "w \<in> anchor_bids L beacon wave vset" "\<forall>a \<in> anchor_bids L beacon wave vset. anchor_le w a"
    unfolding bids by blast
  have "fold (\<lambda>e best. Some (better_anchor (bid e) best)) es (Some (bid e)) = Some w"
    using w(1) by (simp add: fold_map comp_def)
  then have "select_anchor L wave vset ctx =
      Ok \<lparr> ac_wave = wave, ac_author = fst w, ac_anchor_hash = hash_zero \<rparr>"
    using assms(2) es by (cases w) (simp add: select_anchor_def bid_def Let_def)
  with w show ?thesis
    by blast
qed

lemma select_anchor_no_panic: "no_panic (beacon_current ctx) \<Longrightarrow> no_panic (select_anchor L wave vset ctx)"
proof (cases "vs_entries vset = [] \<or> (\<forall>b. beacon_current ctx \<noteq> Ok b)")
  case True
  assume "no_panic (beacon_current ctx)"
  with True show ?thesis
    by (cases "beacon_current ctx") (auto simp: select_anchor_def)
next
  case False
  then show ?thesis
    using select_anchor_least [of vset ctx _ L wave] by fastforce
qed

section \<open>The DAG behind a view\<close>

definition dag_parents :: "'s HostContext \<Rightarrow> Hash32 \<Rightarrow> Hash32 list" where
  "dag_parents ctx h = (case dag_vertex ctx h of Ok (Some cv) \<Rightarrow> v_parents (cv_vertex cv) | _ \<Rightarrow> [])"

definition dag_edges :: "'s HostContext \<Rightarrow> (Hash32 \<times> Hash32) set" where
  "dag_edges ctx = {(h, p). p \<in> set (dag_parents ctx h)}"

lemma dag_edge_iff: "(h, p) \<in> dag_edges ctx \<longleftrightarrow>
    (\<exists>cv. dag_vertex ctx h = Ok (Some cv) \<and> p \<in> set (v_parents (cv_vertex cv)))"
proof (cases "dag_vertex ctx h")
  case (Ok r)
  then show ?thesis
    by (cases r) (simp_all add: dag_edges_def dag_parents_def)
qed (simp_all add: dag_edges_def dag_parents_def)

text \<open>The causal history of a hash: everything its parent edges reach, itself included.\<close>

definition history :: "'s HostContext \<Rightarrow> Hash32 \<Rightarrow> Hash32 set" where
  "history ctx h = (dag_edges ctx)\<^sup>* `` {h}"

lemma history_refl [simp]: "h \<in> history ctx h"
  by (simp add: history_def)

lemma push_new_spec:
  "push_new ps visited queue = (visited', queue') \<Longrightarrow>
    visited' = visited \<union> set ps \<and>
    (\<exists>new. queue' = queue @ new \<and> distinct new \<and> set new = set ps - visited)"
proof (induction ps visited queue rule: push_new.induct)
  case (2 p ps visited queue)
  show ?case
  proof (cases "p \<in> visited")
    case True
    with 2 show ?thesis by auto
  next
    case False
    with 2 obtain new where "visited' = insert p visited \<union> set ps" "queue' = (queue @ [p]) @ new"
      "distinct new" "set new = set ps - insert p visited"
      by auto
    with False show ?thesis
      by (auto intro!: exI [of _ "p # new"])
  qed
qed simp

lemma history_step: "h \<in> visited \<Longrightarrow>
    (dag_edges ctx)\<^sup>* `` (visited \<union> set (dag_parents ctx h)) = (dag_edges ctx)\<^sup>* `` visited"
  by (auto simp: dag_edges_def intro: converse_rtrancl_into_rtrancl)

text \<open>
  A view that answers every query: the interface the searches rely on. A node and the simulator
  provide it with their own index.
\<close>

locale dag_port =
  fixes ctx :: "'s HostContext"
  assumes lookup_returns: "\<exists>r. dag_vertex ctx h = Ok r"
    and round_returns: "\<exists>vs. dag_vertices_at_round ctx r = Ok vs"
begin

lemma lookup_cases:
  obtains (absent) "dag_vertex ctx h = Ok None" "dag_parents ctx h = []"
  | (present) cv where "dag_vertex ctx h = Ok (Some cv)" "dag_parents ctx h = v_parents (cv_vertex cv)"
proof -
  obtain r where r: "dag_vertex ctx h = Ok r"
    using lookup_returns by blast
  with absent present show thesis
    by (cases r) (simp_all add: dag_parents_def)
qed

lemma closure_loop_correct:
  assumes "distinct (order @ queue)" "visited = set (order @ queue)"
    "\<And>h. h \<in> set order \<Longrightarrow> set (dag_parents ctx h) \<subseteq> visited"
  shows "\<exists>out. closure_loop ctx queue visited order = Ok out \<and> distinct out \<and>
    set out = (dag_edges ctx)\<^sup>* `` visited \<and> (\<exists>rest. out = order @ queue @ rest)"
  using assms
proof (induction "card (- visited) + length queue" arbitrary: queue visited order rule: less_induct)
  case less
  show ?case
  proof (cases queue)
    case Nil
    have "dag_edges ctx `` visited \<subseteq> visited"
      using less.prems Nil by (auto simp: dag_edges_def)
    then show ?thesis
      using Nil less.prems by (simp add: Image_closed_trancl)
  next
    case (Cons h rest)
    show ?thesis
    proof (cases rule: lookup_cases [of h])
      case absent
      have "\<exists>out. closure_loop ctx rest visited (order @ [h]) = Ok out \<and> distinct out \<and>
          set out = (dag_edges ctx)\<^sup>* `` visited \<and> (\<exists>more. out = (order @ [h]) @ rest @ more)"
        by (rule less.hyps) (use less.prems Cons absent in auto)
      then show ?thesis
        using absent Cons by auto
    next
      case (present cv)
      obtain visited' queue' where
        push: "push_new (sort (v_parents (cv_vertex cv))) visited rest = (visited', queue')"
        by fastforce
      note spec = push_new_spec [OF push]
      obtain new where new: "queue' = rest @ new" "distinct new" "set new = set (dag_parents ctx h) - visited"
        using spec present by auto
      have v': "visited' = visited \<union> set (dag_parents ctx h)"
        using spec present by auto
      have "\<exists>out. closure_loop ctx queue' visited' (order @ [h]) = Ok out \<and> distinct out \<and>
          set out = (dag_edges ctx)\<^sup>* `` visited' \<and> (\<exists>more. out = (order @ [h]) @ queue' @ more)"
        by (rule less.hyps)
          (use less.prems Cons new v' push_new_measure [OF push] in auto)
      moreover have "(dag_edges ctx)\<^sup>* `` visited' = (dag_edges ctx)\<^sup>* `` visited"
        unfolding v' by (rule history_step) (use less.prems(2) Cons in simp)
      ultimately show ?thesis
        using present push Cons new by auto
    qed
  qed
qed

text \<open>The linearization enumerates the anchor's history once, anchor first.\<close>

lemma closure_of_anchor_correct:
  "\<exists>lin. closure_of_anchor a ctx = Ok lin \<and> distinct (lin_order lin) \<and>
    set (lin_order lin) = history ctx a \<and> (\<exists>rest. lin_order lin = a # rest)"
proof -
  have "\<exists>out. closure_loop ctx [a] {a} [] = Ok out \<and> distinct out \<and>
      set out = (dag_edges ctx)\<^sup>* `` {a} \<and> (\<exists>rest. out = [] @ [a] @ rest)"
    by (rule closure_loop_correct) auto
  then show ?thesis
    by (auto simp: closure_of_anchor_def history_def)
qed

lemma reaches_loop_correct:
  assumes "set queue \<subseteq> visited"
    "\<And>h. h \<in> visited - set queue \<Longrightarrow> h \<noteq> target \<and> set (dag_parents ctx h) \<subseteq> visited"
  shows "reaches_loop ctx target queue visited = Ok (target \<in> (dag_edges ctx)\<^sup>* `` visited)"
  using assms
proof (induction "card (- visited) + length queue" arbitrary: queue visited rule: less_induct)
  case less
  show ?case
  proof (cases queue)
    case Nil
    have "dag_edges ctx `` visited \<subseteq> visited" "target \<notin> visited"
      using less.prems Nil by (auto simp: dag_edges_def)
    then show ?thesis
      using Nil by (simp add: Image_closed_trancl)
  next
    case (Cons h rest)
    have h: "h \<in> visited"
      using less.prems Cons by simp
    show ?thesis
    proof (cases "h = target")
      case True
      then show ?thesis
        using Cons h by auto
    next
      case False
      have inv: "x \<noteq> target \<and> set (dag_parents ctx x) \<subseteq> visited \<union> set (dag_parents ctx h)"
        if "x \<in> visited - set rest" for x
        using that less.prems(2) [of x] Cons False by (cases "x = h") auto
      show ?thesis
      proof (cases rule: lookup_cases [of h])
        case absent
        have "reaches_loop ctx target rest visited = Ok (target \<in> (dag_edges ctx)\<^sup>* `` visited)"
          by (rule less.hyps) (use less.prems(1) Cons absent inv in auto)
        then show ?thesis
          using absent Cons False by simp
      next
        case (present cv)
        obtain visited' queue' where
          push: "push_new (v_parents (cv_vertex cv)) visited rest = (visited', queue')"
          by fastforce
        obtain new where new: "queue' = rest @ new" "set new = set (dag_parents ctx h) - visited"
          using push_new_spec [OF push] present by auto
        have v': "visited' = visited \<union> set (dag_parents ctx h)"
          using push_new_spec [OF push] present by auto
        have "reaches_loop ctx target queue' visited' = Ok (target \<in> (dag_edges ctx)\<^sup>* `` visited')"
        proof (rule less.hyps)
          show "card (- visited') + length queue' < card (- visited) + length queue"
            using push_new_measure [OF push] Cons by (simp only: list.size)
          show "set queue' \<subseteq> visited'"
            using new v' less.prems(1) Cons by auto
        next
          fix x
          assume "x \<in> visited' - set queue'"
          then have "x \<in> visited - set rest"
            by (simp add: new v') blast
          then show "x \<noteq> target \<and> set (dag_parents ctx x) \<subseteq> visited'"
            unfolding v' by (rule inv)
        qed
        moreover have "(dag_edges ctx)\<^sup>* `` visited' = (dag_edges ctx)\<^sup>* `` visited"
          unfolding v' by (rule history_step [OF h])
        ultimately show ?thesis
          using present push Cons False by simp
      qed
    qed
  qed
qed

text \<open>A vertex supports a target it is, or whose history one of its parents holds.\<close>

lemma vertex_reaches_correct:
  "vertex_reaches ctx v target = Ok (v_hash (cv_vertex v) = target \<or>
     (\<exists>p \<in> set (v_parents (cv_vertex v)). target \<in> history ctx p))"
proof -
  let ?ps = "v_parents (cv_vertex v)"
  have "reaches_loop ctx target ?ps (set ?ps) = Ok (target \<in> (dag_edges ctx)\<^sup>* `` set ?ps)"
    by (rule reaches_loop_correct) auto
  then show ?thesis
    by (auto simp: vertex_reaches_def history_def)
qed

definition supports :: "Hash32 \<Rightarrow> CertifiedVertex \<Rightarrow> bool" where
  "supports target v \<longleftrightarrow> v_hash (cv_vertex v) = target \<or>
     (\<exists>p \<in> set (v_parents (cv_vertex v)). target \<in> history ctx p)"

lemma supporters_in_correct:
  "supporters_in ctx target vs acc =
     Ok (acc \<union> {v_author (cv_vertex v) | v. v \<in> set vs \<and> supports target v})"
  by (induction vs arbitrary: acc) (auto simp: vertex_reaches_correct supports_def)

lemma supporters_over_correct:
  "supporters_over ctx target rnd offsets acc =
     Ok (acc \<union> {v_author (cv_vertex v) | v k vs. k \<in> set offsets \<and>
        dag_vertices_at_round ctx (rnd + of_nat k) = Ok vs \<and> v \<in> set vs \<and> supports target v})"
proof (induction offsets arbitrary: acc)
  case (Cons k ks)
  obtain vs where "dag_vertices_at_round ctx (rnd + of_nat k) = Ok vs"
    using round_returns by blast
  then show ?case
    by (auto simp: supporters_in_correct Cons.IH)
qed simp

lemma count_supporters_correct:
  "count_supporters target rnd w ctx = Ok {v_author (cv_vertex v) | v k vs. k \<in> {1..unat w} \<and>
     dag_vertices_at_round ctx (rnd + of_nat k) = Ok vs \<and> v \<in> set vs \<and> supports target v}"
  unfolding count_supporters_def supporters_over_correct
  by (simp only: Un_empty_left set_upt atLeastLessThanSuc_atLeastAtMost)

text \<open>A longer window counts at least the same authors.\<close>

lemma count_supporters_mono:
  assumes "w \<le> w'" "count_supporters target rnd w ctx = Ok S" "count_supporters target rnd w' ctx = Ok S'"
  shows "S \<subseteq> S'"
proof -
  have "unat w \<le> unat w'"
    using assms(1) by (simp add: word_le_nat_alt)
  then show ?thesis
    using assms(2,3) unfolding count_supporters_correct by fastforce
qed

text \<open>Along a linearization the rounds never increase when every parent is one round older.\<close>

lemma closure_loop_layered:
  fixes rnd :: "Hash32 \<Rightarrow> nat"
  assumes "\<And>h p. (h, p) \<in> dag_edges ctx \<Longrightarrow> rnd h = Suc (rnd p)"
    and "sorted_wrt (\<lambda>x y. rnd y \<le> rnd x) (order @ queue)"
    and "\<And>x y. x \<in> set queue \<Longrightarrow> y \<in> set queue \<Longrightarrow> rnd x \<le> Suc (rnd y)"
    and "closure_loop ctx queue visited order = Ok out"
  shows "sorted_wrt (\<lambda>x y. rnd y \<le> rnd x) out"
  using assms(2-4)
proof (induction "card (- visited) + length queue" arbitrary: queue visited order rule: less_induct)
  case less
  show ?case
  proof (cases queue)
    case Nil
    then show ?thesis
      using less.prems by simp
  next
    case (Cons h rest)
    show ?thesis
    proof (cases rule: lookup_cases [of h])
      case absent
      show ?thesis
        by (rule less.hyps [of visited rest "order @ [h]"])
          (use less.prems Cons absent in auto)
    next
      case (present cv)
      obtain visited' queue' where
        push: "push_new (sort (v_parents (cv_vertex cv))) visited rest = (visited', queue')"
        by fastforce
      obtain new where new: "queue' = rest @ new" "set new = set (dag_parents ctx h) - visited"
        using push_new_spec [OF push] present by auto
      have newer: "rnd h = Suc (rnd p)" if "p \<in> set new" for p
        using that new assms(1) by (simp add: dag_edges_def)
      have older: "rnd y \<le> rnd h" "rnd h \<le> Suc (rnd y)" if "y \<in> set rest" for y
        using that less.prems(1) less.prems(2) [of h y] by (auto simp: Cons sorted_wrt_append)
      have before: "rnd h \<le> rnd y" if "y \<in> set order" for y
        using that less.prems(1) by (auto simp: Cons sorted_wrt_append)
      show ?thesis
      proof (rule less.hyps [of visited' queue' "order @ [h]"])
        show "card (- visited') + length queue' < card (- visited) + length queue"
          using push_new_measure [OF push] Cons by (simp only: list.size)
        have level: "rnd x = rnd y" if "x \<in> set new" "y \<in> set new" for x y
          using newer [OF that(1)] newer [OF that(2)] by simp
        have "sorted_wrt (\<lambda>x y. rnd y \<le> rnd x) new"
          unfolding sorted_wrt_iff_nth_less by (intro allI impI eq_refl level) simp_all
        moreover have "rnd p \<le> rnd y" if "p \<in> set new" "y \<in> set (order @ [h] @ rest)" for p y
          using newer [OF that(1)] older [of y] before [of y] that(2) by auto
        ultimately show "sorted_wrt (\<lambda>x y. rnd y \<le> rnd x) ((order @ [h]) @ queue')"
          using less.prems(1) by (auto simp: Cons new(1) sorted_wrt_append)
        show "rnd x \<le> Suc (rnd y)" if "x \<in> set queue'" "y \<in> set queue'" for x y
        proof -
          have "x \<in> set rest \<or> x \<in> set new" "y \<in> set rest \<or> y \<in> set new"
            using that by (simp_all add: new(1))
          then show ?thesis
            using newer [of x] newer [of y] older [of x] older [of y] by linarith
        qed
        show "closure_loop ctx queue' visited' (order @ [h]) = Ok out"
          using less.prems(3) present push Cons by simp
      qed
    qed
  qed
qed

lemma closure_of_anchor_layered:
  fixes rnd :: "Hash32 \<Rightarrow> nat"
  assumes "\<And>h p. (h, p) \<in> dag_edges ctx \<Longrightarrow> rnd h = Suc (rnd p)" "closure_of_anchor a ctx = Ok lin"
  shows "sorted_wrt (\<lambda>x y. rnd y \<le> rnd x) (lin_order lin)"
proof -
  have "closure_loop ctx [a] {a} [] = Ok (lin_order lin)"
    using assms(2) by (auto simp: closure_of_anchor_def bind_out_Ok_iff)
  then show ?thesis
    using closure_loop_layered [of rnd "[]" "[a]" "{a}" "lin_order lin"] assms(1) by simp
qed

end

section \<open>The commit decision\<close>

text \<open>The authors of the vertices of a window that support a target.\<close>

definition support_in_window :: "'s HostContext \<Rightarrow> Hash32 \<Rightarrow> Round \<Rightarrow> u32 \<Rightarrow> ValidatorId set" where
  "support_in_window ctx target rnd w = {v_author (cv_vertex v) | v k vs. k \<in> {1..unat w} \<and>
     dag_vertices_at_round ctx (rnd + of_nat k) = Ok vs \<and> v \<in> set vs \<and>
     (v_hash (cv_vertex v) = target \<or> (\<exists>p \<in> set (v_parents (cv_vertex v)). target \<in> history ctx p))}"

definition anchor_vertex_of :: "'s HostContext \<Rightarrow> WaveId \<Rightarrow> ValidatorId \<Rightarrow> CertifiedVertex option" where
  "anchor_vertex_of ctx wave author = (case dag_vertices_at_round ctx (wave_first_round wave) of
     Ok vs \<Rightarrow> find (\<lambda>v. v_author (cv_vertex v) = author) vs | _ \<Rightarrow> None)"

context dag_port
begin

lemma count_supporters_window: "count_supporters target rnd w ctx = Ok (support_in_window ctx target rnd w)"
  unfolding count_supporters_correct support_in_window_def supports_def ..

text \<open>The commit rule, branch by branch.\<close>

lemma try_commit_wave_eq:
  assumes "vs_entries vset \<noteq> []" "select_anchor L wave vset ctx = Ok ac"
  shows "try_commit_wave L wave cfg vset ctx timed_out = Ok (
    case anchor_vertex_of ctx wave (ac_author ac) of
      None \<Rightarrow> None
    | Some v \<Rightarrow> (let
        decide = (\<lambda>path. Some \<lparr> cd_wave = wave, cd_path = path, cd_anchor_hash = v_hash (cv_vertex v) \<rparr>);
        need = commit_need (length (vs_entries vset));
        support = (\<lambda>w. card (support_in_window ctx (v_hash (cv_vertex v)) (wave_first_round wave) w))
      in if need \<le> support (shortcut_round_count (cfg_bullshark cfg)) then decide Shortcut
         else if timed_out \<and> need \<le> support (slow_path_round_count (cfg_bullshark cfg)) then decide SlowPath
         else None))"
proof -
  obtain vs where "dag_vertices_at_round ctx (wave_first_round wave) = Ok vs"
    using round_returns by blast
  then show ?thesis
    using assms
    by (auto simp: try_commit_wave_def anchor_vertex_of_def count_supporters_window Let_def
        split: option.splits)
qed

end

section \<open>What the handlers send and remember\<close>

fun micro_hash :: "Action \<Rightarrow> Hash32 option" where
  "micro_hash (BroadcastMicroQc qc) = Some (uq_checkpoint_hash qc)"
| "micro_hash _ = None"

text \<open>The checkpoints of the micro certificates an outcome broadcasts.\<close>

definition micro_hashes :: "Actions \<Rightarrow> Hash32 list" where
  "micro_hashes acts = List.map_filter micro_hash acts"

lemma micro_hashes_simps [simp]:
  "micro_hashes [] = []"
  "micro_hashes (a # acts) = (case micro_hash a of None \<Rightarrow> micro_hashes acts | Some h \<Rightarrow> h # micro_hashes acts)"
  "micro_hashes (acts @ acts') = micro_hashes acts @ micro_hashes acts'"
  by (auto simp: micro_hashes_def List.map_filter_def split: option.splits)

fun sent :: "(Error, Actions) outcome \<Rightarrow> Hash32 list" where
  "sent (Ok acts) = micro_hashes acts"
| "sent (Err e) = []"
| "sent (Panic m) = []"

lemma sent_kept: "(\<And>acts. r = Ok acts \<Longrightarrow> acts = actions) \<Longrightarrow> micro_hashes actions = [] \<Longrightarrow> sent r = []"
  by (cases r) auto

lemma micro_try_finalize_hash:
  "micro_try_finalize h vs ctx = Ok (Some qc) \<Longrightarrow> uq_checkpoint_hash qc = h"
  by (auto simp: micro_try_finalize_def Let_def bind_out_Ok_iff split: if_splits)

lemma emit_checkpoint_cases:
  obtains (kept) r where "emit_checkpoint L a ctx actions st = (r, st)" "\<And>acts. r = Ok acts \<Longrightarrow> acts = actions"
  | (emitted) qc lin where "emit_checkpoint L a ctx actions st =
        (Ok (actions @ [BroadcastMicroQc qc]), (insert (uq_checkpoint_hash qc) (fst st), snd st))"
      "uq_checkpoint_hash qc \<notin> fst st" "closure_of_anchor a ctx = Ok lin"
      "uq_checkpoint_hash qc = checkpoint_hash_from_linearization L lin"
proof (cases "closure_of_anchor a ctx")
  case (Ok lin)
  define h where "h = checkpoint_hash_from_linearization L lin"
  show thesis
  proof (cases "h \<in> fst st")
    case True
    then show thesis
      by (intro kept) (auto simp: emit_checkpoint_def Ok h_def)
  next
    case fresh: False
    show thesis
    proof (cases "lookup_all ctx (lin_order lin)")
      case vs: (Ok vs)
      show thesis
      proof (cases "micro_try_finalize h vs ctx")
        case qc: (Ok r)
        show thesis
        proof (cases r)
          case None
          then show thesis
            using Ok vs qc fresh by (intro kept) (auto simp: emit_checkpoint_def h_def)
        next
          case (Some q)
          then have "uq_checkpoint_hash q = h"
            using micro_try_finalize_hash qc by blast
          then show thesis
            using Ok vs qc fresh Some by (intro emitted [of q lin]) (auto simp: emit_checkpoint_def h_def)
        qed
      qed (use Ok vs fresh in \<open>auto simp: emit_checkpoint_def h_def intro!: kept\<close>)
    qed (use Ok fresh in \<open>auto simp: emit_checkpoint_def h_def intro!: kept\<close>)
  qed
qed (auto simp: emit_checkpoint_def intro!: kept)

text \<open>One attempt at a wave leaves the book alone, schedules its timer, or commits it.\<close>

lemma try_emit_cases:
  obtains (idle) r where "try_emit_for_wave L wave cfg ctx late st = (r, st)" "sent r = []"
  | (scheduled) "wave \<notin> wb_committed_waves (snd st)" "wb_slow_timer_by_wave (snd st) wave = None" "\<not> late"
      "try_emit_for_wave L wave cfg ctx late st =
        (Ok (fst (schedule_slow_timer cfg wave st)), snd (schedule_slow_timer cfg wave st))"
  | (committed) vset d where "wave \<notin> wb_committed_waves (snd st)" "valset_set_for ctx 0 = Ok (Some vset)"
      "try_commit_wave L wave cfg vset ctx late = Ok (Some d)"
      "try_emit_for_wave L wave cfg ctx late st =
        emit_checkpoint L (cd_anchor_hash d) ctx (fst (mark_committed wave (snd st)))
          (fst st, snd (mark_committed wave (snd st)))"
proof (cases "wave \<in> wb_committed_waves (snd st)")
  case True
  then show thesis
    by (intro idle [of "Ok []"]) (simp_all add: try_emit_for_wave_def)
next
  case fresh: False
  show thesis
  proof (cases "valset_set_for ctx 0")
    case (Ok s)
    show thesis
    proof (cases s)
      case None
      then show thesis
        using Ok fresh by (intro idle [of "Ok []"]) (simp_all add: try_emit_for_wave_def)
    next
      case (Some vset)
      show thesis
      proof (cases "try_commit_wave L wave cfg vset ctx late")
        case d: (Ok d)
        show thesis
        proof (cases d)
          case None
          show thesis
          proof (cases "late \<or> wb_slow_timer_by_wave (snd st) wave \<noteq> None")
            case True
            then show thesis
              using Ok Some d None fresh by (intro idle) (auto simp: try_emit_for_wave_def)
          next
            case pending: False
            show thesis
            proof (cases "anchor_present L wave vset ctx")
              case (Ok present)
              show thesis
              proof (cases present)
                case True
                then show thesis
                  using \<open>valset_set_for ctx 0 = Ok s\<close> Some d None fresh pending Ok
                  by (intro scheduled) (auto simp: try_emit_for_wave_def split: prod.splits)
              next
                case False
                then show thesis
                  using \<open>valset_set_for ctx 0 = Ok s\<close> Some d None fresh pending Ok
                  by (intro idle) (auto simp: try_emit_for_wave_def)
              qed
            qed (use Ok Some d None fresh pending in \<open>auto simp: try_emit_for_wave_def intro!: idle\<close>)
          qed
        next
          case (Some e)
          then show thesis
            using Ok \<open>s = Some vset\<close> d fresh
            by (intro committed [of vset e]) (auto simp: try_emit_for_wave_def split: prod.splits)
        qed
      qed (use Ok Some fresh in \<open>auto simp: try_emit_for_wave_def intro!: idle\<close>)
    qed
  qed (use fresh in \<open>auto simp: try_emit_for_wave_def intro!: idle\<close>)
qed

lemma schedule_slow_timer_sent [simp]: "micro_hashes (fst (schedule_slow_timer cfg wave st)) = []"
  and schedule_slow_timer_fst [simp]: "fst (snd (schedule_slow_timer cfg wave st)) = fst st"
  and schedule_slow_timer_committed [simp]:
    "wb_committed_waves (snd (snd (schedule_slow_timer cfg wave st))) = wb_committed_waves (snd st)"
  by (simp_all add: schedule_slow_timer_def allocate_def Let_def)

lemma mark_committed_sent [simp]: "micro_hashes (fst (mark_committed wave waves)) = []"
  and mark_committed_committed [simp]:
    "wb_committed_waves (snd (mark_committed wave waves)) = insert wave (wb_committed_waves waves)"
  by (auto simp: mark_committed_def Let_def split: option.splits)

text \<open>Attempts send only new checkpoints, and remember exactly those they send.\<close>

lemma try_emit_sent:
  assumes "try_emit_for_wave L wave cfg ctx late st = (r, st')"
  shows "distinct (sent r) \<and> set (sent r) \<inter> fst st = {} \<and> fst st' = fst st \<union> set (sent r) \<and>
    wb_committed_waves (snd st) \<subseteq> wb_committed_waves (snd st')"
proof (cases rule: try_emit_cases [of L wave cfg ctx late st])
  case (committed vset d)
  show ?thesis
  proof (cases rule: emit_checkpoint_cases [of L "cd_anchor_hash d" ctx
        "fst (mark_committed wave (snd st))" "(fst st, snd (mark_committed wave (snd st)))"])
    case (kept r')
    then have "sent r' = []"
      by (intro sent_kept) auto
    with kept(1) committed(4) assms show ?thesis
      by auto
  qed (use committed(4) assms in auto)
qed (use assms in auto)

lemma emit_for_waves_sent:
  assumes "emit_for_waves L cfg ctx ws actions st = (r, st')"
  shows "fst st \<subseteq> fst st' \<and> wb_committed_waves (snd st) \<subseteq> wb_committed_waves (snd st') \<and>
    (\<forall>acts. r = Ok acts \<longrightarrow> (\<exists>new. acts = actions @ new \<and> distinct (micro_hashes new) \<and>
       set (micro_hashes new) \<inter> fst st = {} \<and> fst st' = fst st \<union> set (micro_hashes new)))"
  using assms
proof (induction L cfg ctx ws actions st rule: emit_for_waves.induct)
  case (2 L cfg ctx w ws actions st)
  show ?case
  proof (cases "w \<in> wb_committed_waves (snd st)")
    case True
    with 2 show ?thesis by simp
  next
    case False
    obtain r1 st1 where step: "try_emit_for_wave L w cfg ctx False st = (r1, st1)"
      by (cases "try_emit_for_wave L w cfg ctx False st") auto
    note one = try_emit_sent [OF step]
    show ?thesis
    proof (cases r1)
      case (Ok src)
      with "2.prems" False step have rest: "emit_for_waves L cfg ctx ws (actions @ src) st1 = (r, st')"
        by simp
      have IH: "fst st1 \<subseteq> fst st' \<and> wb_committed_waves (snd st1) \<subseteq> wb_committed_waves (snd st') \<and>
        (\<forall>acts. r = Ok acts \<longrightarrow> (\<exists>new. acts = (actions @ src) @ new \<and> distinct (micro_hashes new) \<and>
           set (micro_hashes new) \<inter> fst st1 = {} \<and> fst st' = fst st1 \<union> set (micro_hashes new)))"
        using "2.IH"(2) [OF False rest] .
      show ?thesis
      proof (intro conjI allI impI)
        show "fst st \<subseteq> fst st'" "wb_committed_waves (snd st) \<subseteq> wb_committed_waves (snd st')"
          using one IH by auto
        fix acts
        assume "r = Ok acts"
        then obtain new where new: "acts = (actions @ src) @ new" "distinct (micro_hashes new)"
          "set (micro_hashes new) \<inter> fst st1 = {}" "fst st' = fst st1 \<union> set (micro_hashes new)"
          using IH by blast
        then show "\<exists>new. acts = actions @ new \<and> distinct (micro_hashes new) \<and>
            set (micro_hashes new) \<inter> fst st = {} \<and> fst st' = fst st \<union> set (micro_hashes new)"
          using one by (intro exI [of _ "src @ new"]) (auto simp: Ok)
      qed
    qed (use "2.prems" False step one in auto)
  qed
qed auto

section \<open>Runs\<close>

text \<open>
  The micro-ordering part of a validator's life: certified vertices and timers arrive in any order,
  each with the host of that moment; the list collects the checkpoints broadcast so far.
\<close>

inductive bull_reach :: "'x crypto_lib \<Rightarrow> Config \<Rightarrow> 's HostContext set \<Rightarrow> Hash32 list \<Rightarrow> BullState \<Rightarrow> bool"
  for L :: "'x crypto_lib" and cfg :: Config and hosts :: "'s HostContext set" where
  start: "bull_reach L cfg hosts [] ({}, wave_book_new)"
| vertex: "bull_reach L cfg hosts hs st \<Longrightarrow> ctx \<in> hosts \<Longrightarrow>
    bull_on_certified_vertex L cfg cv ctx st = (r, st') \<Longrightarrow> bull_reach L cfg hosts (hs @ sent r) st'"
| timer: "bull_reach L cfg hosts hs st \<Longrightarrow> ctx \<in> hosts \<Longrightarrow>
    bull_on_timer_fired L cfg tid ctx st = (r, st') \<Longrightarrow> bull_reach L cfg hosts (hs @ sent r) st'"

lemma certified_vertex_sent:
  assumes "bull_on_certified_vertex L cfg cv ctx st = (r, st')"
  shows "distinct (sent r) \<and> set (sent r) \<inter> fst st = {} \<and> fst st \<union> set (sent r) \<subseteq> fst st'"
  using emit_for_waves_sent [OF assms [unfolded bull_on_certified_vertex_def]] by (cases r) auto

lemma timer_fired_sent:
  assumes "bull_on_timer_fired L cfg tid ctx st = (r, st')"
  shows "distinct (sent r) \<and> set (sent r) \<inter> fst st = {} \<and> fst st \<union> set (sent r) \<subseteq> fst st'"
proof (cases "wb_timer_to_wave (snd st) tid")
  case None
  with assms show ?thesis by (auto simp: bull_on_timer_fired_def)
next
  case (Some w)
  then show ?thesis
    using assms by (auto simp: bull_on_timer_fired_def Let_def dest!: try_emit_sent)
qed

lemma bull_reach_once:
  "bull_reach L cfg hosts hs st \<Longrightarrow> distinct hs \<and> set hs \<subseteq> fst st"
proof (induction rule: bull_reach.induct)
  case (vertex hs st ctx cv r st')
  with certified_vertex_sent [OF vertex.hyps(3)] show ?case by auto
next
  case (timer hs st ctx tid r st')
  with timer_fired_sent [OF timer.hyps(3)] show ?case by auto
qed simp

section \<open>Slow-path timers\<close>

definition wb_inv :: "WaveBook \<Rightarrow> bool" where
  "wb_inv w \<longleftrightarrow>
     (\<forall>v t. wb_slow_timer_by_wave w v = Some t \<longleftrightarrow> wb_timer_to_wave w t = Some v) \<and>
     (\<forall>t \<in> dom (wb_timer_to_wave w). t < ts_next (wb_timers w)) \<and>
     wb_committed_waves w \<inter> dom (wb_slow_timer_by_wave w) = {}"

lemma wb_inv_new: "wb_inv wave_book_new"
  by (simp add: wb_inv_def wave_book_new_def)

lemma wb_inv_schedule:
  assumes "wb_inv (snd st)" "wave \<notin> wb_committed_waves (snd st)"
    "wb_slow_timer_by_wave (snd st) wave = None" "ts_next (wb_timers (snd st)) \<noteq> - 1"
  shows "wb_inv (snd (snd (schedule_slow_timer cfg wave st)))"
proof -
  define n where "n = ts_next (wb_timers (snd st))"
  have old: "t < n" if "wb_timer_to_wave (snd st) t = Some v" for t v
    using assms(1) that by (auto simp: wb_inv_def n_def)
  have "1 + n \<noteq> 0"
    using assms(4) by (simp add: n_def add_eq_0_iff)
  then have "n < n + 1"
    by (simp add: word_less_nat_alt unatSuc add.commute [of n])
  then have up: "t < n + 1" if "t < n" for t
    using that by simp
  have "wb_timer_to_wave (snd st) n = None"
    using old by (cases "wb_timer_to_wave (snd st) n") auto
  moreover have inverse: "wb_slow_timer_by_wave (snd st) v = Some u \<longleftrightarrow> wb_timer_to_wave (snd st) u = Some v" for v u
    using assms(1) by (simp add: wb_inv_def)
  ultimately have "((wb_slow_timer_by_wave (snd st))(wave \<mapsto> n)) v = Some u \<longleftrightarrow>
      ((wb_timer_to_wave (snd st))(n \<mapsto> wave)) u = Some v" for v u
    using inverse [of v u] inverse [of wave u] assms(3) by auto
  moreover have "u < n + 1" if "u \<in> insert n (dom (wb_timer_to_wave (snd st)))" for u
    using that \<open>n < n + 1\<close> up old by auto
  moreover have "wb_committed_waves (snd st) \<inter> insert wave (dom (wb_slow_timer_by_wave (snd st))) = {}"
    using assms(1,2) by (simp add: wb_inv_def)
  ultimately show ?thesis
    unfolding wb_inv_def schedule_slow_timer_def
    by (simp add: allocate_def Let_def n_def [symmetric])
qed

lemma wb_inv_mark_committed:
  assumes "wb_inv w"
  shows "wb_inv (snd (mark_committed wave w))"
proof (cases "wb_slow_timer_by_wave w wave")
  case None
  with assms show ?thesis
    by (auto simp: wb_inv_def mark_committed_def)
next
  case (Some t)
  have inverse: "wb_slow_timer_by_wave w v = Some u \<longleftrightarrow> wb_timer_to_wave w u = Some v" for v u
    using assms by (simp add: wb_inv_def)
  have only: "u = t" if "wb_timer_to_wave w u = Some wave" for u
    using that Some by (simp add: inverse [symmetric])
  have "snd (mark_committed wave w) = w\<lparr>wb_committed_waves := insert wave (wb_committed_waves w),
      wb_slow_timer_by_wave := (wb_slow_timer_by_wave w)(wave := None),
      wb_timer_to_wave := (wb_timer_to_wave w)(t := None)\<rparr>"
    using Some by (simp add: mark_committed_def)
  moreover have "((wb_slow_timer_by_wave w)(wave := None)) v = Some u \<longleftrightarrow>
      ((wb_timer_to_wave w)(t := None)) u = Some v" for v u
  proof -
    have t: "wb_timer_to_wave w t = Some wave"
      using Some by (simp add: inverse)
    show ?thesis
    proof (cases "v = wave")
      case True
      then show ?thesis
        using only [of u] by (cases "u = t") auto
    next
      case False
      then show ?thesis
        using inverse [of v u] t by (cases "u = t") auto
    qed
  qed
  ultimately show ?thesis
    using assms by (auto simp: wb_inv_def)
qed

lemma wb_inv_fired:
  assumes "wb_inv w" "wb_timer_to_wave w t = Some wave"
  shows "wb_inv (w\<lparr>wb_timer_to_wave := (wb_timer_to_wave w)(t := None),
    wb_slow_timer_by_wave := (wb_slow_timer_by_wave w)(wave := None)\<rparr>)"
proof -
  have "wb_slow_timer_by_wave w wave = Some t"
    using assms by (simp add: wb_inv_def)
  moreover from this have "wave \<in> dom (wb_slow_timer_by_wave w)"
    by blast
  then have "wave \<notin> wb_committed_waves w"
    using assms(1) unfolding wb_inv_def by blast
  ultimately show ?thesis
    using wb_inv_mark_committed [OF assms(1), of wave] by (simp add: mark_committed_def wb_inv_def)
qed

lemma ts_next_room: "unat (n :: u64) + 1 < 2 ^ 64 \<Longrightarrow> n \<noteq> - 1"
proof
  assume "unat n + 1 < 2 ^ 64" "n = - 1"
  moreover have "unat (- 1 :: u64) = 2 ^ 64 - 1"
    by (simp add: unsigned_minus_1_eq_mask mask_eq_exp_minus_1)
  ultimately show False
    by simp
qed

lemma emit_checkpoint_waves: "snd (snd (emit_checkpoint L a ctx actions st)) = snd st"
  by (cases rule: emit_checkpoint_cases [of L a ctx actions st]) auto

lemma mark_committed_timers [simp]: "wb_timers (snd (mark_committed wave w)) = wb_timers w"
  by (auto simp: mark_committed_def Let_def split: option.splits)

lemma try_emit_timers:
  assumes "wb_inv (snd st)" "ts_next (wb_timers (snd st)) \<noteq> - 1"
  shows "wb_inv (snd (snd (try_emit_for_wave L wave cfg ctx late st))) \<and>
    ts_next (wb_timers (snd (snd (try_emit_for_wave L wave cfg ctx late st)))) \<in>
      {ts_next (wb_timers (snd st)), ts_next (wb_timers (snd st)) + 1}"
proof (cases rule: try_emit_cases [of L wave cfg ctx late st])
  case scheduled
  then show ?thesis
    using wb_inv_schedule [of st wave] assms by (auto simp: schedule_slow_timer_def allocate_def Let_def)
next
  case (committed vset d)
  then show ?thesis
    using assms by (simp add: emit_checkpoint_waves wb_inv_mark_committed)
qed (use assms in auto)

lemma emit_for_waves_timers:
  assumes "wb_inv (snd st)" "unat (ts_next (wb_timers (snd st))) + length ws < 2 ^ 64"
  shows "wb_inv (snd (snd (emit_for_waves L cfg ctx ws actions st)))"
  using assms
proof (induction L cfg ctx ws actions st rule: emit_for_waves.induct)
  case (2 L cfg ctx w ws actions st)
  show ?case
  proof (cases "w \<in> wb_committed_waves (snd st)")
    case True
    with 2 show ?thesis by simp
  next
    case False
    obtain r1 st1 where step: "try_emit_for_wave L w cfg ctx False st = (r1, st1)"
      by (cases "try_emit_for_wave L w cfg ctx False st") auto
    have room: "unat (ts_next (wb_timers (snd st))) < 2 ^ 64 - 1"
      using "2.prems"(2) by simp
    then have "ts_next (wb_timers (snd st)) \<noteq> - 1"
      by (intro ts_next_room) simp
    note one = try_emit_timers [OF "2.prems"(1) this, of L w cfg ctx False, unfolded step, simplified]
    have "unat (ts_next (wb_timers (snd st1))) \<le> Suc (unat (ts_next (wb_timers (snd st))))"
      using one by (auto simp: unat_word_ariths)
    then have "unat (ts_next (wb_timers (snd st1))) + length ws < 2 ^ 64"
      using "2.prems"(2) by simp
    then show ?thesis
      using "2.IH"(2) [OF False, of st1] one False step by (cases r1) auto
  qed
qed simp

section \<open>No wave is forgotten\<close>

text \<open>A wave is settled when it is committed, has a timer pending, or has no anchor vertex yet.\<close>

definition wave_settled :: "'x crypto_lib \<Rightarrow> ValidatorSet \<Rightarrow> 's HostContext \<Rightarrow> WaveBook \<Rightarrow> WaveId \<Rightarrow> bool" where
  "wave_settled L vset ctx waves w \<longleftrightarrow> w \<in> wb_committed_waves waves \<or>
     wb_slow_timer_by_wave waves w \<noteq> None \<or> anchor_present L w vset ctx \<noteq> Ok True"

lemma mark_committed_settled:
  "wave_settled L vset ctx waves w \<Longrightarrow> wave_settled L vset ctx (snd (mark_committed v waves)) w"
  by (auto simp: wave_settled_def mark_committed_def Let_def split: option.splits)

lemma schedule_settled:
  "wave_settled L vset ctx (snd st) w \<Longrightarrow> wave_settled L vset ctx (snd (snd (schedule_slow_timer cfg v st))) w"
  by (auto simp: wave_settled_def schedule_slow_timer_def allocate_def Let_def)

lemma try_emit_settled_mono:
  "wave_settled L vset ctx (snd st) w \<Longrightarrow>
    wave_settled L vset ctx (snd (snd (try_emit_for_wave L v cfg ctx late st))) w"
  by (cases rule: try_emit_cases [of L v cfg ctx late st])
     (simp_all add: emit_checkpoint_waves mark_committed_settled schedule_settled)

lemma try_emit_settles:
  assumes "valset_set_for ctx 0 = Ok (Some vset)" "try_emit_for_wave L w cfg ctx False st = (Ok acts, st')"
  shows "wave_settled L vset ctx (snd st') w"
proof (cases "w \<in> wb_committed_waves (snd st) \<or> wb_slow_timer_by_wave (snd st) w \<noteq> None")
  case True
  then have "wave_settled L vset ctx (snd st) w"
    by (auto simp: wave_settled_def)
  from try_emit_settled_mono [OF this, of w cfg False] assms(2) show ?thesis
    by simp
next
  case False
  obtain d where d: "try_commit_wave L w cfg vset ctx False = Ok d"
    using assms False by (auto simp: try_emit_for_wave_def call_Ok_iff)
  show ?thesis
  proof (cases d)
    case None
    then obtain present where "anchor_present L w vset ctx = Ok present"
      using assms False d by (auto simp: try_emit_for_wave_def call_Ok_iff)
    then show ?thesis
      using assms False d None
      by (cases present) (auto simp: try_emit_for_wave_def wave_settled_def schedule_slow_timer_def
          allocate_def Let_def)
  next
    case (Some e)
    then have "emit_checkpoint L (cd_anchor_hash e) ctx (fst (mark_committed w (snd st)))
        (fst st, snd (mark_committed w (snd st))) = (Ok acts, st')"
      using assms False d by (simp add: try_emit_for_wave_def case_prod_unfold)
    then have "snd st' = snd (mark_committed w (snd st))"
      using emit_checkpoint_waves [of L "cd_anchor_hash e" ctx "fst (mark_committed w (snd st))"
          "(fst st, snd (mark_committed w (snd st)))"] by simp
    then show ?thesis
      by (simp add: wave_settled_def)
  qed
qed

lemma emit_for_waves_settles:
  assumes "valset_set_for ctx 0 = Ok (Some vset)" "emit_for_waves L cfg ctx ws actions st = (Ok acts, st')"
    "w \<in> set ws \<or> wave_settled L vset ctx (snd st) w"
  shows "wave_settled L vset ctx (snd st') w"
  using assms
proof (induction L cfg ctx ws actions st rule: emit_for_waves.induct)
  case (2 L cfg ctx v ws actions st)
  show ?case
  proof (cases "v \<in> wb_committed_waves (snd st)")
    case True
    then have "w \<in> set ws \<or> wave_settled L vset ctx (snd st) w"
      using "2.prems"(3) by (auto simp: wave_settled_def)
    with True 2 show ?thesis by simp
  next
    case False
    obtain src st1 where step: "try_emit_for_wave L v cfg ctx False st = (Ok src, st1)"
      "emit_for_waves L cfg ctx ws (actions @ src) st1 = (Ok acts, st')"
      using "2.prems"(2) False by (auto simp: bind_st_Ok_iff)
    have "w \<in> set ws \<or> wave_settled L vset ctx (snd st1) w"
      using "2.prems"(3) try_emit_settles [OF "2.prems"(1) step(1)]
        try_emit_settled_mono [of L vset ctx st w v cfg False] step(1) by auto
    then show ?thesis
      by (rule "2.IH"(2) [OF False "2.prems"(1) step(2)])
  qed
qed simp

section \<open>The micro certificate\<close>

lemma micro_try_finalize_exact:
  assumes "valset_set_for ctx 0 = Ok (Some vset)"
  shows "micro_try_finalize h vs ctx = Ok (Some qc) \<longleftrightarrow>
    vs_entries vset \<noteq> [] \<and>
    commit_need (length (vs_entries vset)) \<le> card ((\<lambda>cv. v_author (cv_vertex cv)) ` set vs) \<and>
    qc = \<lparr> uq_checkpoint_hash = h, uq_agg = \<lparr> as_sig = placeholder_sig, as_bitmap =
      fold (\<lambda>i bs. set_slot bs i)
        (filter (\<lambda>i. ve_id (vs_entries vset ! i) \<in> (\<lambda>cv. v_author (cv_vertex cv)) ` set vs)
          [0..<length (vs_entries vset)])
        (replicate (div_ceil (length (vs_entries vset)) 8) 0) \<rparr> \<rparr>"
  using assms by (auto simp: micro_try_finalize_def commit_need_def Let_def)

lemma micro_bitmap_slots:
  assumes "i < n"
  shows "test_slot (fold (\<lambda>i bs. set_slot bs i) (filter P [0..<n]) (replicate (div_ceil n 8) 0)) i \<longleftrightarrow> P i"
  using assms slot_byte_less
  by (subst test_fold_set_slot) (auto simp: test_zero_slots)

text \<open>The vertices a view holds of a list of hashes.\<close>

definition known_vertices :: "'s HostContext \<Rightarrow> Hash32 set \<Rightarrow> CertifiedVertex set" where
  "known_vertices ctx H = {cv. \<exists>h \<in> H. dag_vertex ctx h = Ok (Some cv)}"

definition history_authors :: "'s HostContext \<Rightarrow> Hash32 \<Rightarrow> ValidatorId set" where
  "history_authors ctx a = (\<lambda>cv. v_author (cv_vertex cv)) ` known_vertices ctx (history ctx a)"

context dag_port
begin

lemma lookup_all_correct: "\<exists>cvs. lookup_all ctx hs = Ok cvs \<and> set cvs = known_vertices ctx (set hs)"
proof (induction hs)
  case Nil
  then show ?case
    by (simp add: lookup_all_def known_vertices_def List.map_filter_def)
next
  case (Cons h hs)
  obtain rs where rs: "mapM_out (dag_vertex ctx) hs = Ok rs" "set (List.map_filter (\<lambda>r. r) rs) = known_vertices ctx (set hs)"
    using Cons by (auto simp: lookup_all_def bind_out_Ok_iff)
  obtain r where "dag_vertex ctx h = Ok r"
    using lookup_returns by blast
  with rs show ?case
    by (cases r) (auto simp: lookup_all_def known_vertices_def List.map_filter_def)
qed

lemma micro_try_finalize_returns:
  assumes "valset_set_for ctx 0 = Ok (Some vset)"
  shows "\<exists>r. micro_try_finalize h vs ctx = Ok r"
  using assms by (auto simp: micro_try_finalize_def Let_def)

lemma emit_checkpoint_returns:
  assumes "valset_set_for ctx 0 = Ok (Some vset)"
  shows "\<exists>acts st'. emit_checkpoint L a ctx actions st = (Ok acts, st')"
proof -
  obtain lin where lin: "closure_of_anchor a ctx = Ok lin"
    using closure_of_anchor_correct by blast
  obtain cvs where cvs: "lookup_all ctx (lin_order lin) = Ok cvs"
    using lookup_all_correct by blast
  obtain r where "micro_try_finalize (checkpoint_hash_from_linearization L lin) cvs ctx = Ok r"
    using micro_try_finalize_returns assms by blast
  with lin cvs show ?thesis
    by (cases r; cases st) (simp_all add: emit_checkpoint_def Let_def)
qed

lemma try_emit_returns:
  assumes "valset_set_for ctx 0 = Ok r" "\<And>vset. r = Some vset \<Longrightarrow> vs_entries vset \<noteq> []" "beacon_current ctx = Ok b"
  shows "\<exists>acts st'. try_emit_for_wave L wave cfg ctx late st = (Ok acts, st')"
proof (cases "wave \<in> wb_committed_waves (snd st) \<or> r = None")
  case True
  then show ?thesis
    using assms by (auto simp: try_emit_for_wave_def)
next
  case False
  then obtain vset where vset: "r = Some vset" "vs_entries vset \<noteq> []"
    using assms(2) by auto
  obtain ac where ac: "select_anchor L wave vset ctx = Ok ac"
    using select_anchor_least [OF vset(2) assms(3)] by blast
  obtain vs where vs: "dag_vertices_at_round ctx (wave_first_round wave) = Ok vs"
    using round_returns by blast
  show ?thesis
  proof (cases "try_commit_wave L wave cfg vset ctx late")
    case (Ok d)
    have "\<exists>acts st'. emit_checkpoint L a ctx actions st1 = (Ok acts, st')" for a actions st1
      using emit_checkpoint_returns assms(1) vset by blast
    then show ?thesis
      using Ok assms(1) vset False ac vs
      by (cases d) (auto simp: try_emit_for_wave_def anchor_present_def case_prod_unfold)
  qed (use try_commit_wave_eq [OF vset(2) ac] in auto)
qed

lemma emit_for_waves_returns:
  assumes "valset_set_for ctx 0 = Ok r" "\<And>vset. r = Some vset \<Longrightarrow> vs_entries vset \<noteq> []" "beacon_current ctx = Ok b"
  shows "\<exists>acts st'. emit_for_waves L cfg ctx ws actions st = (Ok acts, st')"
proof (induction ws arbitrary: actions st)
  case (Cons w ws)
  obtain acts st1 where "try_emit_for_wave L w cfg ctx False st = (Ok acts, st1)"
    using try_emit_returns [OF assms] by blast
  with Cons show ?case
    by auto
qed simp

end

end
