(* ===== verification/Dag_View.thy ===== *)
theory Dag_View
  imports Bullshark_Facts
begin

text \<open>
  The in-memory DAG index of the simulator (\<open>apps/sim/src/virtual_dag.rs\<close>), a provider of the
  view micro-ordering reads.
\<close>

section \<open>The index\<close>

record VirtualDag =
  vd_by_hash :: "Hash32 \<rightharpoonup> CertifiedVertex"
  vd_by_round :: "Round \<rightharpoonup> CertifiedVertex list"

definition virtual_dag_new :: VirtualDag where
  "virtual_dag_new = \<lparr> vd_by_hash = Map.empty, vd_by_round = Map.empty \<rparr>"

definition vd_insert :: "CertifiedVertex \<Rightarrow> VirtualDag \<Rightarrow> VirtualDag" where
  "vd_insert v d = (let
     h = v_hash (cv_vertex v);
     rnd = v_round (cv_vertex v);
     slot = (case vd_by_round d rnd of None \<Rightarrow> [] | Some vs \<Rightarrow> vs)
   in d\<lparr>vd_by_round := (vd_by_round d)(rnd \<mapsto> slot @ [v]),
        vd_by_hash := (vd_by_hash d)(h \<mapsto> v)\<rparr>)"

definition vd_vertex :: "VirtualDag \<Rightarrow> Hash32 \<Rightarrow> (Error, CertifiedVertex option) outcome" where
  "vd_vertex d h = Ok (vd_by_hash d h)"

definition vd_vertices_at_round :: "VirtualDag \<Rightarrow> Round \<Rightarrow> (Error, CertifiedVertex list) outcome" where
  "vd_vertices_at_round d r = Ok (case vd_by_round d r of None \<Rightarrow> [] | Some vs \<Rightarrow> vs)"

text \<open>A host whose DAG port is the index.\<close>

definition with_virtual_dag :: "VirtualDag \<Rightarrow> 's HostContext \<Rightarrow> 's HostContext" where
  "with_virtual_dag d ctx =
     ctx\<lparr>dag_vertex := vd_vertex d, dag_vertices_at_round := vd_vertices_at_round d\<rparr>"

section \<open>Facts\<close>

text \<open>Both indexes hold the inserted vertices, under their own hash and round.\<close>

definition vd_slot :: "VirtualDag \<Rightarrow> Round \<Rightarrow> CertifiedVertex list" where
  "vd_slot d r = (case vd_by_round d r of None \<Rightarrow> [] | Some vs \<Rightarrow> vs)"

definition vd_inv :: "VirtualDag \<Rightarrow> bool" where
  "vd_inv d \<longleftrightarrow>
     (\<forall>h v. vd_by_hash d h = Some v \<longrightarrow>
        v_hash (cv_vertex v) = h \<and> v \<in> set (vd_slot d (v_round (cv_vertex v)))) \<and>
     (\<forall>r v. v \<in> set (vd_slot d r) \<longrightarrow>
        v_round (cv_vertex v) = r \<and> vd_by_hash d (v_hash (cv_vertex v)) \<noteq> None)"

lemma vd_slot_insert: "vd_slot (vd_insert v d) r =
    (if r = v_round (cv_vertex v) then vd_slot d r @ [v] else vd_slot d r)"
  by (simp add: vd_slot_def vd_insert_def Let_def)

lemma vd_by_hash_insert: "vd_by_hash (vd_insert v d) = (vd_by_hash d)(v_hash (cv_vertex v) \<mapsto> v)"
  by (simp add: vd_insert_def Let_def)

lemma vd_inv_new: "vd_inv virtual_dag_new"
  by (simp add: vd_inv_def virtual_dag_new_def vd_slot_def)

lemma vd_inv_insert: "vd_inv d \<Longrightarrow> vd_inv (vd_insert v d)"
  unfolding vd_inv_def vd_slot_insert vd_by_hash_insert
  by (simp split: if_split) metis

interpretation vd: dag_port "with_virtual_dag d ctx" for d ctx
  by unfold_locales (simp_all add: with_virtual_dag_def vd_vertex_def vd_vertices_at_round_def)

end
