(* ===== verification/Bullshark_Properties.thy ===== *)
theory Bullshark_Properties
  imports Dag_View Sample_Committee
begin

text \<open>
  The properties of micro-ordering, each with its instance on a small committee and DAG.
\<close>

section \<open>Sample DAGs\<close>

text \<open>A hash that is constant, so that every lottery is a tie and the least identity wins.\<close>

definition tie_lib :: "768 word crypto_lib" where
  "tie_lib = sample_lib\<lparr>blake3_hash := (\<lambda>bs. 0)\<rparr>"

definition sample_vertex :: "Round \<Rightarrow> ValidatorId \<Rightarrow> Hash32 list \<Rightarrow> Hash32 \<Rightarrow> CertifiedVertex" where
  "sample_vertex r a ps h = \<lparr> cv_vertex = \<lparr> v_round = r, v_author = a, v_parents = ps, v_blobs = [],
     v_hash = h \<rparr>, cv_certificate = \<lparr> as_sig = 0, as_bitmap = [15] \<rparr> \<rparr>"

text \<open>Three layers below a vertex: \<open>9\<close> references \<open>1\<close> and \<open>2\<close>, which reference \<open>5\<close> and \<open>4\<close>.\<close>

definition sample_fan :: VirtualDag where
  "sample_fan = fold vd_insert
     [sample_vertex 0 1 [] 5, sample_vertex 0 2 [] 4, sample_vertex 1 1 [5] 1, sample_vertex 1 2 [4] 2,
      sample_vertex 2 1 [2, 1] 9] virtual_dag_new"

definition fan_host :: "unit HostContext" where
  "fan_host = with_virtual_dag sample_fan (sample_host 4 1)"

lemma fan_vertex: "dag_vertex fan_host h = Ok
    (if h = 9 then Some (sample_vertex 2 1 [2, 1] 9) else if h = 2 then Some (sample_vertex 1 2 [4] 2)
     else if h = 1 then Some (sample_vertex 1 1 [5] 1) else if h = 4 then Some (sample_vertex 0 2 [] 4)
     else if h = 5 then Some (sample_vertex 0 1 [] 5) else None)"
  by (simp add: fan_host_def with_virtual_dag_def vd_vertex_def sample_fan_def vd_by_hash_insert
      virtual_dag_new_def sample_vertex_def)

lemma fan_port: "dag_port fan_host"
  unfolding fan_host_def by (rule vd.dag_port_axioms)

section \<open>Linearization\<close>

text \<open>
  C19: The linearization of an anchor enumerates its causal history: it returns whenever the DAG view
  answers, starts with the anchor, repeats nothing and contains exactly the hashes the parent edges
  reach.
\<close>

theorem linearization_exact:
  assumes "dag_port ctx"
  shows "\<exists>lin. closure_of_anchor a ctx = Ok lin \<and> distinct (lin_order lin) \<and>
    set (lin_order lin) = history ctx a \<and> hd (lin_order lin) = a"
  using dag_port.closure_of_anchor_correct [OF assms, of a] by auto

theorem linearization_exact_witness:
  "\<exists>lin. closure_of_anchor 9 fan_host = Ok lin \<and> distinct (lin_order lin) \<and>
    set (lin_order lin) = history fan_host 9 \<and> hd (lin_order lin) = 9"
  by (rule linearization_exact [OF fan_port])

text \<open>
  C20: When every parent is a known vertex of the previous round, the linearization is ordered by
  causality: no vertex is followed by one that references it, directly or through other vertices.
\<close>

theorem linearization_causal:
  assumes "dag_port ctx" "closure_of_anchor a ctx = Ok lin"
    and "\<And>h cv p. dag_vertex ctx h = Ok (Some cv) \<Longrightarrow> p \<in> set (v_parents (cv_vertex cv)) \<Longrightarrow>
      \<exists>pv. dag_vertex ctx p = Ok (Some pv) \<and>
        unat (v_round (cv_vertex cv)) = Suc (unat (v_round (cv_vertex pv)))"
  shows "sorted_wrt (\<lambda>x y. (y, x) \<notin> (dag_edges ctx)\<^sup>+) (lin_order lin)"
proof -
  define rnd where "rnd h = (case dag_vertex ctx h of Ok (Some cv) \<Rightarrow> unat (v_round (cv_vertex cv)) | _ \<Rightarrow> 0)" for h
  have edge: "rnd h = Suc (rnd p)" if hp: "(h, p) \<in> dag_edges ctx" for h p
  proof -
    obtain cv where cv: "dag_vertex ctx h = Ok (Some cv)" "p \<in> set (v_parents (cv_vertex cv))"
      using hp by (auto simp: dag_edge_iff)
    then obtain pv where "dag_vertex ctx p = Ok (Some pv)"
      "unat (v_round (cv_vertex cv)) = Suc (unat (v_round (cv_vertex pv)))"
      using assms(3) by blast
    with cv show ?thesis
      by (simp add: rnd_def)
  qed
  have path: "rnd p < rnd h" if "(h, p) \<in> (dag_edges ctx)\<^sup>+" for h p
    using that by induction (auto dest: edge)
  have "sorted_wrt (\<lambda>x y. rnd y \<le> rnd x) (lin_order lin)"
    by (rule dag_port.closure_of_anchor_layered [OF assms(1) edge assms(2)])
  then show ?thesis
    by (rule sorted_wrt_mono_rel [rotated]) (use path in fastforce)
qed

text \<open>The layers are not sorted by hash: parents are sorted per vertex.\<close>

lemma fan_linearization: "closure_of_anchor 9 fan_host = Ok \<lparr> lin_order = [9, 1, 2, 5, 4] \<rparr>"
  by (simp add: closure_of_anchor_def fan_vertex sample_vertex_def word_le_nat_alt)

lemma fan_rounds:
  assumes "dag_vertex fan_host h = Ok (Some cv)" "p \<in> set (v_parents (cv_vertex cv))"
  shows "\<exists>pv. dag_vertex fan_host p = Ok (Some pv) \<and>
    unat (v_round (cv_vertex cv)) = Suc (unat (v_round (cv_vertex pv)))"
  using assms by (auto simp: fan_vertex sample_vertex_def split: if_splits)

theorem linearization_causal_witness:
  "sorted_wrt (\<lambda>x y. (y, x) \<notin> (dag_edges fan_host)\<^sup>+) [9, 1, 2, 5, 4]"
  using linearization_causal [OF fan_port fan_linearization fan_rounds] by simp

section \<open>The anchor lottery and the commit rules\<close>

text \<open>
  C22: The anchor of a wave is the validator with the least sortition score, ties going to the least
  identity; scores are always comparable, so the choice does not depend on the order in which the
  validator set lists its entries.
\<close>

theorem anchor_lottery:
  assumes "vs_entries vset \<noteq> []" "beacon_current ctx = Ok beacon"
    "set (vs_entries vset') = set (vs_entries vset)" "vs_total_stake vset' = vs_total_stake vset"
  shows "\<exists>e \<in> set (vs_entries vset).
    select_anchor L wave vset ctx =
      Ok \<lparr> ac_wave = wave, ac_author = ve_id e, ac_anchor_hash = hash_zero \<rparr> \<and>
    select_anchor L wave vset' ctx = select_anchor L wave vset ctx \<and>
    (\<forall>e' \<in> set (vs_entries vset).
       f64_lt (anchor_score L beacon wave (vs_total_stake vset) e)
         (anchor_score L beacon wave (vs_total_stake vset) e') \<or>
       anchor_score L beacon wave (vs_total_stake vset) e' = anchor_score L beacon wave (vs_total_stake vset) e \<and>
       ve_id e \<le> ve_id e')"
proof -
  obtain w where w: "w \<in> anchor_bids L beacon wave vset"
    "select_anchor L wave vset ctx = Ok \<lparr> ac_wave = wave, ac_author = fst w, ac_anchor_hash = hash_zero \<rparr>"
    "\<And>a. a \<in> anchor_bids L beacon wave vset \<Longrightarrow> anchor_le w a"
    using select_anchor_least [OF assms(1,2)] by blast
  have same: "anchor_bids L beacon wave vset' = anchor_bids L beacon wave vset"
    using assms(3,4) by (simp add: anchor_bids_def)
  have "vs_entries vset' \<noteq> []"
    using assms(1,3) by auto
  then obtain w' where w': "w' \<in> anchor_bids L beacon wave vset"
    "select_anchor L wave vset' ctx = Ok \<lparr> ac_wave = wave, ac_author = fst w', ac_anchor_hash = hash_zero \<rparr>"
    "\<And>a. a \<in> anchor_bids L beacon wave vset \<Longrightarrow> anchor_le w' a"
    using select_anchor_least [OF _ assms(2), of vset' L wave] unfolding same by blast
  have "w' = w"
    using w(3) [OF w'(1)] w'(3) [OF w(1)] by (rule anchor_le_antisym [symmetric])
  moreover obtain e where e: "e \<in> set (vs_entries vset)"
    "w = (ve_id e, anchor_score L beacon wave (vs_total_stake vset) e)"
    using w(1) by (auto simp: anchor_bids_def)
  moreover have "f64_lt (anchor_score L beacon wave (vs_total_stake vset) e)
         (anchor_score L beacon wave (vs_total_stake vset) e') \<or>
       anchor_score L beacon wave (vs_total_stake vset) e' = anchor_score L beacon wave (vs_total_stake vset) e \<and>
       ve_id e \<le> ve_id e'" if "e' \<in> set (vs_entries vset)" for e'
    using w(3) [of "(ve_id e', anchor_score L beacon wave (vs_total_stake vset) e')"] that e(2)
    by (auto simp: anchor_bids_def anchor_le_def f64_eq_iff)
  ultimately show ?thesis
    using w(2) w'(2) by auto
qed

theorem anchor_lottery_witness:
  "select_anchor sample_lib 0 ((sample_set 4)\<lparr>vs_entries := rev (vs_entries (sample_set 4))\<rparr>) fan_host =
     select_anchor sample_lib 0 (sample_set 4) fan_host"
proof -
  have "vs_entries (sample_set 4) \<noteq> []"
    by (simp add: sample_set_def)
  moreover have "beacon_current fan_host = Ok 0"
    by (simp add: fan_host_def with_virtual_dag_def sample_host_def)
  ultimately show ?thesis
    using anchor_lottery [of "sample_set 4" fan_host 0
        "(sample_set 4)\<lparr>vs_entries := rev (vs_entries (sample_set 4))\<rparr>" sample_lib 0]
    by auto
qed

text \<open>
  C21: The commit rule decides a wave exactly when its anchor vertex is present and at least
  2f + 1 distinct authors in the rounds of the window reference it, directly or through other
  vertices: over the shortcut window always, over the slow-path window only after the timeout.
\<close>

theorem commit_rule:
  assumes "dag_port ctx" "vs_entries vset \<noteq> []" "select_anchor L wave vset ctx = Ok ac"
  shows "try_commit_wave L wave cfg vset ctx timed_out = Ok (
    case anchor_vertex_of ctx wave (ac_author ac) of
      None \<Rightarrow> None
    | Some v \<Rightarrow> (let
        decide = (\<lambda>path. Some \<lparr> cd_wave = wave, cd_path = path, cd_anchor_hash = v_hash (cv_vertex v) \<rparr>);
        need = commit_need (length (vs_entries vset));
        support = (\<lambda>w. card (support_in_window ctx (v_hash (cv_vertex v)) (wave_first_round wave) w))
      in if need \<le> support (shortcut_round_count (cfg_bullshark cfg)) then decide Shortcut
         else if timed_out \<and> need \<le> support (slow_path_round_count (cfg_bullshark cfg)) then decide SlowPath
         else None))"
  by (rule dag_port.try_commit_wave_eq [OF assms])

text \<open>Under a constant hash the first validator of the sample committee wins every wave.\<close>

lemma tie_score: "anchor_score tie_lib beacon wave total_stake (sample_entry i) =
    vrf_sortition_score 0 total_stake 100 (Fin 1)"
  by (simp add: anchor_score_def sortition_beta_def blake3_with_dst_def tie_lib_def sample_entry_def)

lemma tie_anchor:
  assumes "beacon_current ctx = Ok beacon"
  shows "select_anchor tie_lib wave (sample_set 4) ctx =
    Ok \<lparr> ac_wave = wave, ac_author = 1, ac_anchor_hash = hash_zero \<rparr>"
proof -
  have "ve_id (sample_entry 1) = 1" "ve_id (sample_entry 2) = 2" "ve_id (sample_entry 3) = 3"
    "ve_id (sample_entry 4) = 4"
    by (simp_all add: sample_entry_def)
  then show ?thesis
    using assms
    by (simp add: select_anchor_def sample_entries tie_score f64_cmp_refl word_less_nat_alt)
qed

text \<open>A DAG whose wave 0 has its anchor and three supporters in the next round.\<close>

definition sample_wave :: VirtualDag where
  "sample_wave = fold vd_insert
     [sample_vertex 0 1 [] 1, sample_vertex 1 1 [1] 11, sample_vertex 1 2 [1] 12, sample_vertex 1 3 [1] 13,
      sample_vertex 2 1 [11, 12, 13] 21] virtual_dag_new"

definition wave_host :: "nat \<Rightarrow> unit HostContext" where
  "wave_host i = with_virtual_dag sample_wave (sample_host 4 i)"

lemma wave_vertex: "dag_vertex (wave_host i) h = Ok
    (if h = 21 then Some (sample_vertex 2 1 [11, 12, 13] 21) else if h = 13 then Some (sample_vertex 1 3 [1] 13) else if h = 12 then Some (sample_vertex 1 2 [1] 12)
     else if h = 11 then Some (sample_vertex 1 1 [1] 11) else if h = 1 then Some (sample_vertex 0 1 [] 1)
     else None)"
  by (simp add: wave_host_def with_virtual_dag_def vd_vertex_def sample_wave_def vd_by_hash_insert
      virtual_dag_new_def sample_vertex_def)

lemma wave_rounds: "dag_vertices_at_round (wave_host i) r = Ok
    (if r = 0 then [sample_vertex 0 1 [] 1]
     else if r = 1 then [sample_vertex 1 1 [1] 11, sample_vertex 1 2 [1] 12, sample_vertex 1 3 [1] 13]
     else if r = 2 then [sample_vertex 2 1 [11, 12, 13] 21] else [])"
  by (simp add: wave_host_def with_virtual_dag_def vd_vertices_at_round_def sample_wave_def vd_insert_def
      virtual_dag_new_def sample_vertex_def)

lemma wave_port: "dag_port (wave_host i)"
  unfolding wave_host_def by (rule vd.dag_port_axioms)

lemma wave_ports [simp]:
  "beacon_current (wave_host i) = Ok 0"
  "valset_set_for (wave_host i) e = Ok (Some (sample_set 4))"
  by (simp_all add: wave_host_def with_virtual_dag_def sample_host_def)

lemma wave_support: "count_supporters 1 0 2 (wave_host i) = Ok {1, 3, 2, 1}"
proof -
  have "[1..<Suc (unat (2 :: u32))] = [1, 2]"
    by code_simp
  then show ?thesis
    by (simp add: count_supporters_def wave_rounds vertex_reaches_def sample_vertex_def wave_vertex)
qed

lemma wave_commits: "try_commit_wave tie_lib 0 default_table_17_1 (sample_set 4) (wave_host i) late =
    Ok (Some \<lparr> cd_wave = 0, cd_path = Shortcut, cd_anchor_hash = 1 \<rparr>)"
  by (simp add: try_commit_wave_def tie_anchor sample_entries wave_first_round_def wave_rounds
      sample_vertex_def default_table_17_1_def wave_support commit_need_def card_insert_if)

theorem commit_rule_witness:
  "anchor_vertex_of (wave_host 1) 0 1 \<noteq> None"
proof -
  have "vs_entries (sample_set 4) \<noteq> []"
    by (simp add: sample_entries)
  from commit_rule [OF wave_port [of 1] this tie_anchor [OF wave_ports(1)], of 0 default_table_17_1 False]
  show ?thesis
    by (cases "anchor_vertex_of (wave_host 1) 0 1") (simp_all add: wave_commits)
qed

section \<open>Micro certificates\<close>

text \<open>What a round of emission that did append a certificate has computed on the way.\<close>

lemma emitted_certificate:
  assumes "dag_port ctx" "valset_set_for ctx 0 = Ok (Some vset)"
    "emit_checkpoint L a ctx actions st = (Ok (actions @ [BroadcastMicroQc qc]), st')"
  obtains lin cvs where "closure_of_anchor a ctx = Ok lin" "set cvs = known_vertices ctx (history ctx a)"
    "micro_try_finalize (checkpoint_hash_from_linearization L lin) cvs ctx = Ok (Some qc)"
    "checkpoint_hash_from_linearization L lin \<notin> fst st"
    "fst st' = insert (checkpoint_hash_from_linearization L lin) (fst st)"
    "commit_need (length (vs_entries vset)) \<le> card (history_authors ctx a)"
proof -
  obtain lin where lin: "closure_of_anchor a ctx = Ok lin" "set (lin_order lin) = history ctx a"
    using dag_port.closure_of_anchor_correct [OF assms(1), of a] by blast
  obtain cvs where cvs: "lookup_all ctx (lin_order lin) = Ok cvs" "set cvs = known_vertices ctx (history ctx a)"
    using dag_port.lookup_all_correct [OF assms(1), of "lin_order lin"] lin(2) by auto
  obtain r where r: "micro_try_finalize (checkpoint_hash_from_linearization L lin) cvs ctx = Ok r"
    using dag_port.micro_try_finalize_returns [OF assms(1,2)] by blast
  have fresh: "checkpoint_hash_from_linearization L lin \<notin> fst st"
    and some: "r = Some qc" and st': "fst st' = insert (checkpoint_hash_from_linearization L lin) (fst st)"
    using assms(3) lin(1) cvs(1) r
    by (auto simp: emit_checkpoint_def Let_def split: if_splits option.splits)
  have "commit_need (length (vs_entries vset)) \<le> card (history_authors ctx a)"
    using iffD1 [OF micro_try_finalize_exact [OF assms(2)] r [unfolded some]]
    by (simp add: history_authors_def cvs(2))
  with that lin(1) cvs(2) r [unfolded some] fresh st' show thesis
    by blast
qed

text \<open>
  C23: A micro certificate names the checkpoint of its anchor's linearized history and marks exactly
  the validators that authored a known vertex of that history, and at least 2f + 1 distinct authors
  did. An anchor whose history has fewer authors is committed without a certificate.
\<close>

theorem micro_qc_exact:
  assumes "dag_port ctx" "valset_set_for ctx 0 = Ok (Some vset)"
    "emit_checkpoint L a ctx actions st = (Ok (actions @ [BroadcastMicroQc qc]), st')"
  shows "(\<exists>lin. closure_of_anchor a ctx = Ok lin \<and>
      uq_checkpoint_hash qc = checkpoint_hash_from_linearization L lin \<and>
      uq_checkpoint_hash qc \<notin> fst st \<and> fst st' = insert (uq_checkpoint_hash qc) (fst st)) \<and>
    commit_need (length (vs_entries vset)) \<le> card (history_authors ctx a) \<and>
    (\<forall>i < length (vs_entries vset).
      test_slot (as_bitmap (uq_agg qc)) i = (ve_id (vs_entries vset ! i) \<in> history_authors ctx a))"
proof (rule emitted_certificate [OF assms])
  fix lin cvs
  assume lin: "closure_of_anchor a ctx = Ok lin" and cvs: "set cvs = known_vertices ctx (history ctx a)"
    and final: "micro_try_finalize (checkpoint_hash_from_linearization L lin) cvs ctx = Ok (Some qc)"
    and fresh: "checkpoint_hash_from_linearization L lin \<notin> fst st"
    "fst st' = insert (checkpoint_hash_from_linearization L lin) (fst st)"
  have "\<exists>lin. closure_of_anchor a ctx = Ok lin \<and>
      uq_checkpoint_hash qc = checkpoint_hash_from_linearization L lin \<and>
      uq_checkpoint_hash qc \<notin> fst st \<and> fst st' = insert (uq_checkpoint_hash qc) (fst st)"
    using lin fresh micro_try_finalize_hash [OF final] by auto
  then show ?thesis
    using iffD1 [OF micro_try_finalize_exact [OF assms(2)] final]
    by (simp add: history_authors_def cvs micro_bitmap_slots)
qed

lemma wave_linearization: "closure_of_anchor 21 (wave_host i) = Ok \<lparr> lin_order = [21, 11, 12, 13, 1] \<rparr>"
  by (simp add: closure_of_anchor_def wave_vertex sample_vertex_def word_le_nat_alt)

lemma wave_emits: "emit_checkpoint tie_lib 21 (wave_host i) [] ({}, wave_book_new) =
    (Ok ([] @ [BroadcastMicroQc \<lparr> uq_checkpoint_hash = 0,
       uq_agg = \<lparr> as_sig = placeholder_sig, as_bitmap = [7] \<rparr> \<rparr>]), ({0}, wave_book_new))"
proof -
  have upt: "[0..<4] = [0, 1, 2, 3 :: nat]"
    by code_simp
  have "checkpoint_hash_from_linearization tie_lib lin = 0" for lin
    by (simp add: checkpoint_hash_from_linearization_def blake3_with_dst_def tie_lib_def)
  then show ?thesis
    by (simp add: emit_checkpoint_def wave_linearization lookup_all_def wave_vertex List.map_filter_def
        micro_try_finalize_def sample_length sample_vertex_def upt Let_def)
      (simp add: sample_entries sample_entry_def set_slot_def div_ceil_def card_insert_if)
qed

theorem micro_qc_exact_witness:
  "commit_need 4 \<le> card (history_authors (wave_host 1) 21)"
  using micro_qc_exact [OF wave_port wave_ports(2) wave_emits [of 1]] by (simp only: sample_length)

text \<open>An anchor without parents has one author in its history: its wave is committed silently.\<close>

theorem first_wave_silent:
  assumes "dag_port ctx" "valset_set_for ctx 0 = Ok (Some vset)" "4 \<le> length (vs_entries vset)"
    "dag_vertex ctx a = Ok (Some cv)" "v_parents (cv_vertex cv) = []"
  shows "emit_checkpoint L a ctx actions st = (Ok actions, st)"
proof -
  have "(dag_edges ctx)\<^sup>* `` {a} = {a}"
    by (rule Image_closed_trancl) (use assms(4,5) in \<open>auto simp: dag_edge_iff\<close>)
  then have "history_authors ctx a = {v_author (cv_vertex cv)}"
    using assms(4) by (auto simp: history_authors_def known_vertices_def history_def)
  moreover have "2 \<le> commit_need (length (vs_entries vset))"
    using assms(3) unfolding commit_need_def by linarith
  ultimately have few: "\<not> commit_need (length (vs_entries vset)) \<le> card (history_authors ctx a)"
    by simp
  obtain acts st' where "emit_checkpoint L a ctx actions st = (Ok acts, st')"
    using dag_port.emit_checkpoint_returns [OF assms(1,2)] by blast
  moreover have "emit_checkpoint L a ctx actions st \<noteq> (Ok (actions @ [BroadcastMicroQc qc]), st')" for qc st'
    using few by (auto elim: emitted_certificate [OF assms(1,2)])
  ultimately show ?thesis
    by (cases rule: emit_checkpoint_cases [of L a ctx actions st]) auto
qed

section \<open>Waves and timers over a run\<close>

lemma wave_step: "bull_on_certified_vertex tie_lib default_table_17_1 (sample_vertex 0 1 [] 1) (wave_host 1)
    ({}, wave_book_new) = (Ok [], ({}, wave_book_new\<lparr>wb_committed_waves := {0}\<rparr>))"
proof -
  have "emit_checkpoint tie_lib 1 (wave_host 1) actions st = (Ok actions, st)" for actions st
    by (rule first_wave_silent [OF wave_port wave_ports(2), where cv = "sample_vertex 0 1 [] 1"])
      (simp_all add: sample_length wave_vertex sample_vertex_def)
  moreover have "mark_committed 0 wave_book_new = ([], wave_book_new\<lparr>wb_committed_waves := {0}\<rparr>)"
    by (simp add: mark_committed_def wave_book_new_def)
  ultimately show ?thesis
    by (simp add: bull_on_certified_vertex_def sample_vertex_def wave_of_round_def try_emit_for_wave_def
        wave_commits) (simp add: wave_book_new_def)
qed

text \<open>
  C25: The wave book keeps its timers consistent: the two timer maps are inverse to each other, no
  committed wave has a timer, and identifiers handed out are never handed out again, as long as the
  64-bit identifiers last.
\<close>

theorem wave_timers_consistent:
  assumes "wb_inv (snd st)"
    "unat (ts_next (wb_timers (snd st))) + unat (wave_of_round (v_round (cv_vertex cv))) + 1 < 2 ^ 64"
  shows "wb_inv (snd (snd (bull_on_certified_vertex L cfg cv ctx st))) \<and>
    wb_inv (snd (snd (bull_on_timer_fired L cfg tid ctx st)))"
proof
  show "wb_inv (snd (snd (bull_on_certified_vertex L cfg cv ctx st)))"
    unfolding bull_on_certified_vertex_def using assms by (intro emit_for_waves_timers) simp_all
  show "wb_inv (snd (snd (bull_on_timer_fired L cfg tid ctx st)))"
  proof (cases "wb_timer_to_wave (snd st) tid")
    case None
    then show ?thesis
      using assms(1) by (simp add: bull_on_timer_fired_def)
  next
    case (Some w)
    let ?w = "(snd st)\<lparr>wb_timer_to_wave := (wb_timer_to_wave (snd st))(tid := None),
        wb_slow_timer_by_wave := (wb_slow_timer_by_wave (snd st))(w := None)\<rparr>"
    have "wb_inv ?w"
      by (rule wb_inv_fired [OF assms(1) Some])
    moreover have "ts_next (wb_timers (snd st)) \<noteq> - 1"
      using assms(2) by (intro ts_next_room) simp
    ultimately have "wb_inv (snd (snd (try_emit_for_wave L w cfg ctx True (fst st, ?w))))"
      using try_emit_timers [of "(fst st, ?w)" L w cfg ctx True] by simp
    then show ?thesis
      by (simp add: bull_on_timer_fired_def Some Let_def)
  qed
qed

theorem wave_timers_consistent_witness:
  "wb_inv (snd (snd (bull_on_certified_vertex tie_lib default_table_17_1 (sample_vertex 0 1 [] 1) (wave_host 1)
     ({}, wave_book_new))))"
  using wave_timers_consistent [of "({}, wave_book_new)" "sample_vertex 0 1 [] 1" tie_lib default_table_17_1
      "wave_host 1"] wb_inv_new
  by (simp add: wave_book_new_def scheduler_default_def sample_vertex_def wave_of_round_def)

text \<open>
  C26: No wave is forgotten: after a certified vertex was processed, every wave up to its own is
  committed, or has a slow-path timer pending, or has no anchor vertex in the DAG yet.
\<close>

theorem no_wave_forgotten:
  assumes "valset_set_for ctx 0 = Ok (Some vset)" "bull_on_certified_vertex L cfg cv ctx st = (Ok acts, st')"
    "w \<le> wave_of_round (v_round (cv_vertex cv))"
  shows "w \<in> wb_committed_waves (snd st') \<or> wb_slow_timer_by_wave (snd st') w \<noteq> None \<or>
    anchor_present L w vset ctx \<noteq> Ok True"
proof -
  have "unat w \<in> set [0..<Suc (unat (wave_of_round (v_round (cv_vertex cv))))]"
    using assms(3) unfolding word_le_nat_alt set_upt by simp
  then have "w \<in> set (map of_nat [0..<Suc (unat (wave_of_round (v_round (cv_vertex cv))))])"
    unfolding set_map by (rule image_eqI [rotated]) simp
  then have "wave_settled L vset ctx (snd st') w"
    using emit_for_waves_settles [OF assms(1) assms(2) [unfolded bull_on_certified_vertex_def]] by blast
  then show ?thesis
    by (simp add: wave_settled_def)
qed

theorem no_wave_forgotten_witness:
  "0 \<in> wb_committed_waves (wave_book_new\<lparr>wb_committed_waves := {0}\<rparr>) \<or>
    wb_slow_timer_by_wave (wave_book_new\<lparr>wb_committed_waves := {0}\<rparr>) 0 \<noteq> None \<or>
    anchor_present tie_lib 0 (sample_set 4) (wave_host 1) \<noteq> Ok True"
  using no_wave_forgotten [OF wave_ports(2) wave_step, of 0] by simp

section \<open>Errors\<close>

text \<open>
  Micro-ordering never fails on its own: when the DAG view, the beacon and the validator-set port
  answer and the set is not empty, both handlers return actions. On an empty set the handler returns
  an error before it touches the book.
\<close>

lemma bull_handlers_return:
  assumes "dag_port ctx" "beacon_current ctx = Ok b" "valset_set_for ctx 0 = Ok (Some vset)"
  shows "(if vs_entries vset \<noteq> [] then
      (\<exists>acts st'. bull_on_certified_vertex L cfg cv ctx st = (Ok acts, st')) \<and>
      (\<exists>acts st'. bull_on_timer_fired L cfg tid ctx st = (Ok acts, st'))
    else 0 \<notin> wb_committed_waves (snd st) \<and> wb_slow_timer_by_wave (snd st) 0 = None \<longrightarrow>
      bull_on_certified_vertex L cfg cv ctx st =
        (Err (InvalidConfig ''anchor selection on empty validator set''), st))"
proof (cases "vs_entries vset = []")
  case True
  have "try_emit_for_wave L 0 cfg ctx False st =
      (Err (InvalidConfig ''anchor selection on empty validator set''), st)"
    if "0 \<notin> wb_committed_waves (snd st)" "wb_slow_timer_by_wave (snd st) 0 = None"
    using that True assms(3)
    by (simp add: try_emit_for_wave_def try_commit_wave_def anchor_present_def select_anchor_def)
  moreover have "map of_nat [0..<Suc (unat (wave_of_round (v_round (cv_vertex cv))))] =
      (0 :: WaveId) # map of_nat [1..<Suc (unat (wave_of_round (v_round (cv_vertex cv))))]"
    by (subst upt_conv_Cons) simp_all
  ultimately show ?thesis
    using True by (simp add: bull_on_certified_vertex_def)
next
  case False
  have ne: "vset' = vset \<Longrightarrow> vs_entries vset' \<noteq> []" for vset'
    using False by simp
  obtain acts st' where "bull_on_certified_vertex L cfg cv ctx st = (Ok acts, st')"
    unfolding bull_on_certified_vertex_def
    using dag_port.emit_for_waves_returns [OF assms(1,3) _ assms(2)] ne by blast
  moreover have "\<exists>acts st'. try_emit_for_wave L w cfg ctx True st1 = (Ok acts, st')" for w st1
    using dag_port.try_emit_returns [OF assms(1,3) _ assms(2)] ne by blast
  then have "\<exists>acts st'. bull_on_timer_fired L cfg tid ctx st = (Ok acts, st')"
    by (cases "wb_timer_to_wave (snd st) tid") (auto simp: bull_on_timer_fired_def Let_def)
  ultimately show ?thesis
    using False by auto
qed

lemma bull_handlers_return_sample:
  "\<exists>acts st'. bull_on_timer_fired tie_lib default_table_17_1 3 (wave_host 1) ({}, wave_book_new) = (Ok acts, st')"
  using bull_handlers_return [OF wave_port [of 1] wave_ports(1,2), of tie_lib default_table_17_1 "sample_vertex 0 1 [] 1"
      "({}, wave_book_new)" 3]
  by (simp add: sample_length)

text \<open>
  A wave is marked as committed before its history is read: if that read fails, the error reaches
  the caller, but the wave stays committed, no certificate was sent, and no later attempt sends one.
\<close>

lemma commit_lost_on_error:
  assumes "wave \<notin> wb_committed_waves (snd st)" "valset_set_for ctx 0 = Ok (Some vset)"
    "try_commit_wave L wave cfg vset ctx late = Ok (Some d)" "closure_of_anchor (cd_anchor_hash d) ctx = Err e"
  shows "\<exists>st'. try_emit_for_wave L wave cfg ctx late st = (Err e, st') \<and> fst st' = fst st \<and>
    (\<forall>ctx' late'. try_emit_for_wave L wave cfg (ctx' :: 's HostContext) late' st' = (Ok [], st'))"
  using assms
  by (simp add: try_emit_for_wave_def emit_checkpoint_def case_prod_unfold)

text \<open>The index of the sample wave, failing on the lookup of the anchor.\<close>

definition broken_host :: "unit HostContext" where
  "broken_host = (wave_host 1)\<lparr>dag_vertex := (\<lambda>h. if h = 1 then Err (PersistenceError ''io'')
     else dag_vertex (wave_host 1) h)\<rparr>"

lemma broken_commits: "try_commit_wave tie_lib 0 default_table_17_1 (sample_set 4) broken_host late =
    Ok (Some \<lparr> cd_wave = 0, cd_path = Shortcut, cd_anchor_hash = 1 \<rparr>)"
proof -
  have rounds: "dag_vertices_at_round broken_host = dag_vertices_at_round (wave_host 1)"
    and beacon: "beacon_current broken_host = Ok 0"
    by (simp_all add: broken_host_def)
  have "[1..<Suc (unat (2 :: u32))] = [1, 2]"
    by code_simp
  then have "count_supporters 1 0 2 broken_host = Ok {1, 3, 2, 1}"
    by (simp add: count_supporters_def rounds wave_rounds vertex_reaches_def sample_vertex_def)
      (simp add: broken_host_def wave_vertex sample_vertex_def)
  then show ?thesis
    by (simp add: try_commit_wave_def tie_anchor [OF beacon] sample_entries wave_first_round_def rounds
        wave_rounds sample_vertex_def default_table_17_1_def commit_need_def card_insert_if)
qed

lemma commit_lost_sample:
  "\<exists>st'. try_emit_for_wave tie_lib 0 default_table_17_1 broken_host False ({}, wave_book_new) =
      (Err (PersistenceError ''io''), st') \<and>
    try_emit_for_wave tie_lib 0 default_table_17_1 (wave_host 1) False st' = (Ok [], st')"
proof -
  let ?d = "\<lparr> cd_wave = 0, cd_path = Shortcut, cd_anchor_hash = 1 \<rparr>"
  have "closure_of_anchor (cd_anchor_hash ?d) broken_host = Err (PersistenceError ''io'')"
    by (simp add: closure_of_anchor_def broken_host_def)
  moreover have "0 \<notin> wb_committed_waves (snd ({} :: Hash32 set, wave_book_new))"
    "valset_set_for broken_host 0 = Ok (Some (sample_set 4))"
    by (simp_all add: wave_book_new_def broken_host_def)
  ultimately show ?thesis
    using commit_lost_on_error [OF _ _ broken_commits] by blast
qed

end
