(* ===== verification/Wave_Agreement.thy ===== *)
theory Wave_Agreement
  imports Bullshark_Properties
begin

text \<open>
  Agreement of committed waves across validators. A wave that one validator commits on the shortcut is in
  the causal history of every later vertex any validator knows, because the supporters of its anchor and
  the parents of a vertex are overlapping quorums. The theorems are instantiated on a DAG of any height in
  which three of four validators certify a vertex in every round.
\<close>

section \<open>Views of one certified DAG\<close>

definition parent_authors :: "'s HostContext \<Rightarrow> CertifiedVertex \<Rightarrow> ValidatorId set" where
  "parent_authors ctx v = {v_author (cv_vertex pv) | p pv. p \<in> set (v_parents (cv_vertex v)) \<and> dag_vertex ctx p = Ok (Some pv)}"

text \<open>
  A view of a certified DAG: both indexes hold the same vertices, authors are members, every parent is
  known and one round older, and beyond round 0 the parents have 2f + 1 different authors.
\<close>

definition quorum_view :: "ValidatorSet \<Rightarrow> 's HostContext \<Rightarrow> bool" where
  "quorum_view vset ctx \<longleftrightarrow>
     (\<forall>r vs. dag_vertices_at_round ctx r = Ok vs \<longrightarrow>
       (\<forall>v \<in> set vs. v_round (cv_vertex v) = r \<and> dag_vertex ctx (v_hash (cv_vertex v)) = Ok (Some v))) \<and>
     (\<forall>h v. dag_vertex ctx h = Ok (Some v) \<longrightarrow> v_hash (cv_vertex v) = h \<and>
       v_author (cv_vertex v) \<in> ve_id ` set (vs_entries vset) \<and>
       (\<forall>p \<in> set (v_parents (cv_vertex v)). \<exists>pv. dag_vertex ctx p = Ok (Some pv) \<and>
         unat (v_round (cv_vertex v)) = Suc (unat (v_round (cv_vertex pv)))) \<and>
       (v_round (cv_vertex v) \<noteq> 0 \<longrightarrow> commit_need (length (vs_entries vset)) \<le> card (parent_authors ctx v)))"

text \<open>Two views of one DAG: a hash names one vertex, and an author has one vertex in a round.\<close>

definition one_dag :: "'s HostContext \<Rightarrow> 's HostContext \<Rightarrow> bool" where
  "one_dag ctx ctx' \<longleftrightarrow> (\<forall>h h' v v'. dag_vertex ctx h = Ok (Some v) \<longrightarrow> dag_vertex ctx' h' = Ok (Some v') \<longrightarrow>
     h = h' \<or> v_round (cv_vertex v) = v_round (cv_vertex v') \<and> v_author (cv_vertex v) = v_author (cv_vertex v') \<longrightarrow>
     cv_vertex v = cv_vertex v')"

lemma one_dag_sym: "one_dag ctx ctx' \<Longrightarrow> one_dag ctx' ctx"
  unfolding one_dag_def by metis

lemma one_dagD:
  assumes "one_dag ctx ctx'" "dag_vertex ctx h = Ok (Some v)" "dag_vertex ctx' h' = Ok (Some v')"
  shows "h = h' \<Longrightarrow> cv_vertex v = cv_vertex v'"
    "v_round (cv_vertex v) = v_round (cv_vertex v') \<Longrightarrow> v_author (cv_vertex v) = v_author (cv_vertex v') \<Longrightarrow> cv_vertex v = cv_vertex v'"
  using assms unfolding one_dag_def by blast+

lemma quorum_viewD:
  assumes "quorum_view vset ctx"
  shows "dag_vertices_at_round ctx r = Ok vs \<Longrightarrow> v \<in> set vs \<Longrightarrow>
      v_round (cv_vertex v) = r \<and> dag_vertex ctx (v_hash (cv_vertex v)) = Ok (Some v)"
    and "dag_vertex ctx h = Ok (Some v) \<Longrightarrow> v_hash (cv_vertex v) = h \<and> v_author (cv_vertex v) \<in> ve_id ` set (vs_entries vset)"
    and "dag_vertex ctx h = Ok (Some v) \<Longrightarrow> p \<in> set (v_parents (cv_vertex v)) \<Longrightarrow>
      \<exists>pv. dag_vertex ctx p = Ok (Some pv) \<and> unat (v_round (cv_vertex v)) = Suc (unat (v_round (cv_vertex pv)))"
    and "dag_vertex ctx h = Ok (Some v) \<Longrightarrow> v_round (cv_vertex v) \<noteq> 0 \<Longrightarrow>
      commit_need (length (vs_entries vset)) \<le> card (parent_authors ctx v)"
  using assms unfolding quorum_view_def by blast+

lemma history_known:
  assumes "quorum_view vset ctx" "dag_vertex ctx h = Ok (Some v)" "x \<in> history ctx h"
  shows "\<exists>y. dag_vertex ctx x = Ok (Some y)"
proof -
  have "(h, x) \<in> (dag_edges ctx)\<^sup>*"
    using assms(3) by (simp add: history_def)
  then show ?thesis
    by (cases rule: rtranclE) (use assms(2) quorum_viewD(3) [OF assms(1)] in \<open>auto simp: dag_edge_iff, metis\<close>)
qed

text \<open>A vertex both views know has the same history in both.\<close>

lemma history_transfer:
  assumes views: "quorum_view vset ctx" "quorum_view vset ctx'" "one_dag ctx ctx'"
    and h: "dag_vertex ctx h = Ok (Some v)" "dag_vertex ctx' h = Ok (Some v')" and x: "x \<in> history ctx h"
  shows "x \<in> history ctx' h \<and> dag_parents ctx' x = dag_parents ctx x"
proof -
  have "(h, x) \<in> (dag_edges ctx)\<^sup>*"
    using x by (simp add: history_def)
  then have "(h, x) \<in> (dag_edges ctx')\<^sup>* \<and> (\<exists>y y'. dag_vertex ctx x = Ok (Some y) \<and> dag_vertex ctx' x = Ok (Some y'))"
  proof induction
    case base
    then show ?case
      using h by blast
  next
    case (step x p)
    then obtain y y' where y: "dag_vertex ctx x = Ok (Some y)" "dag_vertex ctx' x = Ok (Some y')" "(h, x) \<in> (dag_edges ctx')\<^sup>*"
      by blast
    have p: "p \<in> set (v_parents (cv_vertex y))"
      using step.hyps(2) y(1) by (auto simp: dag_edge_iff)
    have "cv_vertex y = cv_vertex y'"
      by (rule one_dagD(1) [OF views(3) y(1,2) refl])
    with p y(2) have "(x, p) \<in> dag_edges ctx'" "p \<in> set (v_parents (cv_vertex y'))"
      by (auto simp: dag_edge_iff)
    moreover obtain z where "dag_vertex ctx p = Ok (Some z)"
      using quorum_viewD(3) [OF views(1) y(1) p] by blast
    moreover obtain z' where "dag_vertex ctx' p = Ok (Some z')"
      using quorum_viewD(3) [OF views(2) y(2)] calculation(2) by blast
    ultimately show ?case
      using y(3) by (simp add: rtrancl.rtrancl_into_rtrancl)
  qed
  then obtain y y' where y: "dag_vertex ctx x = Ok (Some y)" "dag_vertex ctx' x = Ok (Some y')" "x \<in> history ctx' h"
    by (auto simp: history_def)
  moreover have "cv_vertex y = cv_vertex y'"
    by (rule one_dagD(1) [OF views(3) y(1,2) refl])
  ultimately show ?thesis
    by (simp add: dag_parents_def)
qed

lemma history_same:
  assumes "quorum_view vset ctx" "quorum_view vset ctx'" "one_dag ctx ctx'"
    "dag_vertex ctx h = Ok (Some v)" "dag_vertex ctx' h = Ok (Some v')"
  shows "history ctx' h = history ctx h"
  using history_transfer [OF assms] history_transfer [OF assms(2,1) one_dag_sym [OF assms(3)] assms(5,4)] by blast

section \<open>Linearizations of one history\<close>

lemma closure_loop_step:
  assumes "dag_port ctx"
  shows "closure_loop ctx (h # queue) visited order =
    (case push_new (sort (dag_parents ctx h)) visited queue of (visited', queue') \<Rightarrow> closure_loop ctx queue' visited' (order @ [h]))"
proof -
  obtain r where "dag_vertex ctx h = Ok r"
    using dag_port.lookup_returns [OF assms] by blast
  then show ?thesis
    by (cases r) (simp_all add: dag_parents_def)
qed

lemma closure_loop_agree:
  assumes ports: "dag_port ctx" "dag_port ctx'"
    and "\<And>h. h \<in> (dag_edges ctx)\<^sup>* `` set queue \<Longrightarrow> dag_parents ctx' h = dag_parents ctx h"
  shows "closure_loop ctx' queue visited order = closure_loop ctx queue visited order"
  using assms(3)
proof (induction "card (- visited) + length queue" arbitrary: queue visited order rule: less_induct)
  case less
  show ?case
  proof (cases queue)
    case (Cons h rest)
    obtain visited' queue' where push: "push_new (sort (dag_parents ctx h)) visited rest = (visited', queue')"
      by fastforce
    have "set queue' \<subseteq> set queue \<union> set (dag_parents ctx h)"
      using push_new_spec [OF push] Cons by auto
    then have "(dag_edges ctx)\<^sup>* `` set queue' \<subseteq> (dag_edges ctx)\<^sup>* `` (set queue \<union> set (dag_parents ctx h))"
      by (intro Image_mono order_refl)
    also have "\<dots> = (dag_edges ctx)\<^sup>* `` set queue"
      by (rule history_step) (simp add: Cons)
    finally have sub: "(dag_edges ctx)\<^sup>* `` set queue' \<subseteq> (dag_edges ctx)\<^sup>* `` set queue" .
    have "closure_loop ctx' queue' visited' (order @ [h]) = closure_loop ctx queue' visited' (order @ [h])"
    proof (rule less.hyps)
      show "card (- visited') + length queue' < card (- visited) + length queue"
        using push_new_measure [OF push] Cons by (simp only: list.size)
      show "dag_parents ctx' x = dag_parents ctx x" if "x \<in> (dag_edges ctx)\<^sup>* `` set queue'" for x
        using that sub less.prems by blast
    qed
    moreover have "dag_parents ctx' h = dag_parents ctx h"
      by (rule less.prems) (auto simp: Cons)
    ultimately show ?thesis
      unfolding Cons closure_loop_step [OF ports(1)] closure_loop_step [OF ports(2)] by (simp add: push)
  qed simp
qed

lemma closure_of_anchor_agree:
  assumes "dag_port ctx" "dag_port ctx'" "\<And>h. h \<in> history ctx a \<Longrightarrow> dag_parents ctx' h = dag_parents ctx h"
  shows "closure_of_anchor a ctx' = closure_of_anchor a ctx"
  using closure_loop_agree [OF assms(1,2), of "[a]" "{a}" "[]"] assms(3) by (simp add: closure_of_anchor_def history_def)

section \<open>Support spreads\<close>

lemma quorums_meet:
  assumes "A \<subseteq> ids" "B \<subseteq> ids" "finite ids" "card ids < card A + card B"
  shows "A \<inter> B \<noteq> {}"
proof
  assume "A \<inter> B = {}"
  then have "card (A \<union> B) = card A + card B"
    using assms(1-3) by (intro card_Un_disjoint) (auto intro: finite_subset)
  moreover have "card (A \<union> B) \<le> card ids"
    using assms(1-3) by (intro card_mono) auto
  ultimately show False
    using assms(4) by simp
qed

text \<open>The authors of a round whose vertices have the target in their history.\<close>

definition round_support :: "'s HostContext \<Rightarrow> Hash32 \<Rightarrow> Round \<Rightarrow> ValidatorId set" where
  "round_support ctx target r = {v_author (cv_vertex v) | v vs. dag_vertices_at_round ctx r = Ok vs \<and> v \<in> set vs \<and>
     target \<in> history ctx (v_hash (cv_vertex v))}"

lemma supported_parent:
  assumes views: "quorum_view vset ctx" "quorum_view vset ctx'" "one_dag ctx ctx'"
    and size: "length (vs_entries vset) mod 3 = 1" and many: "(length (vs_entries vset) - 1) div 3 < card (round_support ctx target r)"
    and u: "dag_vertex ctx' h = Ok (Some u)" "unat (v_round (cv_vertex u)) = Suc (unat r)"
  shows "target \<in> history ctx' h"
proof -
  let ?ids = "ve_id ` set (vs_entries vset)"
  have "card ?ids \<le> length (vs_entries vset)"
    by (rule order_trans [OF card_image_le]) (simp_all add: card_length)
  moreover have "commit_need (length (vs_entries vset)) \<le> card (parent_authors ctx' u)"
    using quorum_viewD(4) [OF views(2) u(1)] u(2) by force
  ultimately have "card ?ids < card (round_support ctx target r) + card (parent_authors ctx' u)"
    using many size unfolding commit_need_def by presburger
  moreover have "round_support ctx target r \<subseteq> ?ids"
    unfolding round_support_def using quorum_viewD(1) [OF views(1)] quorum_viewD(2) [OF views(1)] by blast
  moreover have "parent_authors ctx' u \<subseteq> ?ids"
    unfolding parent_authors_def using quorum_viewD(2) [OF views(2)] by blast
  ultimately obtain a where "a \<in> round_support ctx target r" "a \<in> parent_authors ctx' u"
    using quorums_meet [of "round_support ctx target r" ?ids "parent_authors ctx' u"] by auto
  then obtain v vs p pv where v: "dag_vertices_at_round ctx r = Ok vs" "v \<in> set vs" "target \<in> history ctx (v_hash (cv_vertex v))"
      and p: "p \<in> set (v_parents (cv_vertex u))" "dag_vertex ctx' p = Ok (Some pv)" "v_author (cv_vertex pv) = v_author (cv_vertex v)"
    by (auto simp: round_support_def parent_authors_def)
  have known: "v_round (cv_vertex v) = r" "dag_vertex ctx (v_hash (cv_vertex v)) = Ok (Some v)"
    using quorum_viewD(1) [OF views(1) v(1,2)] by simp_all
  have "v_round (cv_vertex pv) = r"
    using quorum_viewD(3) [OF views(2) u(1) p(1)] p(2) u(2) by (auto simp: word_unat_eq_iff)
  then have "cv_vertex v = cv_vertex pv"
    using one_dagD(2) [OF views(3) known(2) p(2)] known(1) p(3) by simp
  then have "v_hash (cv_vertex v) = p"
    using quorum_viewD(2) [OF views(2) p(2)] by simp
  then have "target \<in> history ctx' p"
    using history_transfer [OF views known(2) _ v(3)] p(2) by blast
  moreover have "(h, p) \<in> dag_edges ctx'"
    using u(1) p(1) by (auto simp: dag_edge_iff)
  ultimately show ?thesis
    by (auto simp: history_def intro: converse_rtrancl_into_rtrancl)
qed

lemma support_spreads:
  assumes views: "quorum_view vset ctx" "quorum_view vset ctx'" "one_dag ctx ctx'"
    and size: "length (vs_entries vset) mod 3 = 1" and many: "(length (vs_entries vset) - 1) div 3 < card (round_support ctx target r)"
    and u: "dag_vertex ctx' h = Ok (Some u)" "unat r < unat (v_round (cv_vertex u))"
  shows "target \<in> history ctx' h"
  using u
proof (induction "unat (v_round (cv_vertex u))" arbitrary: h u rule: less_induct)
  case less
  show ?case
  proof (cases "unat (v_round (cv_vertex u)) = Suc (unat r)")
    case True
    then show ?thesis
      by (rule supported_parent [OF views size many less.prems(1)])
  next
    case False
    have "0 < card (parent_authors ctx' u)"
      using quorum_viewD(4) [OF views(2) less.prems(1)] less.prems(2) by (force simp: commit_need_def)
    then obtain p where p: "p \<in> set (v_parents (cv_vertex u))"
      by (auto simp: parent_authors_def card_gt_0_iff)
    then obtain pv where pv: "dag_vertex ctx' p = Ok (Some pv)" "unat (v_round (cv_vertex u)) = Suc (unat (v_round (cv_vertex pv)))"
      using quorum_viewD(3) [OF views(2) less.prems(1)] by blast
    then have "target \<in> history ctx' p"
      using less.hyps [OF _ pv(1)] less.prems(2) False by simp
    moreover have "(h, p) \<in> dag_edges ctx'"
      using less.prems(1) p by (auto simp: dag_edge_iff)
    ultimately show ?thesis
      by (auto simp: history_def intro: converse_rtrancl_into_rtrancl)
  qed
qed

text \<open>A quorum of supporters in a window of two rounds leaves f + 1 of them in one round.\<close>

lemma window_round:
  assumes view: "quorum_view vset ctx" and "unat w \<le> 2" "2 * f + 1 \<le> card (support_in_window ctx target rnd w)"
  obtains k where "k \<in> {1, 2 :: nat}" "f < card (round_support ctx target (rnd + of_nat k))"
proof -
  have "support_in_window ctx target rnd w \<subseteq> (\<Union>k \<in> {1, 2 :: nat}. round_support ctx target (rnd + of_nat k))"
  proof
    fix a
    assume "a \<in> support_in_window ctx target rnd w"
    then obtain v k vs where v: "a = v_author (cv_vertex v)" "1 \<le> k" "k \<le> unat w" "dag_vertices_at_round ctx (rnd + of_nat k) = Ok vs" "v \<in> set vs"
        "v_hash (cv_vertex v) = target \<or> (\<exists>p \<in> set (v_parents (cv_vertex v)). target \<in> history ctx p)"
      by (auto simp: support_in_window_def)
    have "dag_vertex ctx (v_hash (cv_vertex v)) = Ok (Some v)"
      using quorum_viewD(1) [OF view v(4,5)] by blast
    then have "target \<in> history ctx (v_hash (cv_vertex v))"
      using v(6) by (auto simp: history_def dag_edge_iff intro: converse_rtrancl_into_rtrancl)
    moreover have "k \<in> {1, 2}"
      using v(2,3) assms(2) by auto
    ultimately show "a \<in> (\<Union>k \<in> {1, 2 :: nat}. round_support ctx target (rnd + of_nat k))"
      using v(1,4,5) unfolding round_support_def by blast
  qed
  then have "card (support_in_window ctx target rnd w) \<le> card (\<Union>k \<in> {1, 2 :: nat}. round_support ctx target (rnd + of_nat k))"
    by (intro card_mono) simp_all
  also have "\<dots> \<le> (\<Sum>k \<in> {1, 2 :: nat}. card (round_support ctx target (rnd + of_nat k)))"
    by (rule card_UN_le) simp
  finally have "2 * f + 1 \<le> card (round_support ctx target (rnd + of_nat 1)) + card (round_support ctx target (rnd + of_nat 2))"
    using assms(3) by simp
  then consider "f < card (round_support ctx target (rnd + of_nat 1))" | "f < card (round_support ctx target (rnd + of_nat 2))"
    by linarith
  then show thesis
    using that by cases blast+
qed

lemma later_round:
  assumes "(w :: WaveId) < w'" "unat w' < 2 ^ 62" "k \<le> 2"
  shows "unat (wave_first_round w + of_nat k) < unat (wave_first_round w')"
proof -
  have w: "unat w < unat w'"
    using assms(1) by (simp add: word_less_nat_alt)
  then have "unat (wave_first_round w + of_nat k) = unat w * 4 + k"
    using assms(2,3) by (simp add: wave_first_round_def unat_word_ariths unat_of_nat)
  moreover have "unat (wave_first_round w') = unat w' * 4"
    using assms(2) by (simp add: wave_first_round_def unat_word_ariths)
  ultimately show ?thesis
    using w assms(3) by linarith
qed

text \<open>What a commit says of the view it was taken on.\<close>

lemma commit_anchor:
  assumes port: "dag_port ctx" and view: "quorum_view vset ctx" and commit: "try_commit_wave L w cfg vset ctx late = Ok (Some d)"
  obtains ac v where "select_anchor L w vset ctx = Ok ac" "dag_vertex ctx (cd_anchor_hash d) = Ok (Some v)"
    "v_round (cv_vertex v) = wave_first_round w" "v_author (cv_vertex v) = ac_author ac"
    "cd_path d = Shortcut \<longrightarrow> commit_need (length (vs_entries vset)) \<le>
      card (support_in_window ctx (cd_anchor_hash d) (wave_first_round w) (shortcut_round_count (cfg_bullshark cfg)))"
proof -
  have ne: "vs_entries vset \<noteq> []"
    using commit by (auto simp: try_commit_wave_def split: if_splits)
  obtain ac where ac: "select_anchor L w vset ctx = Ok ac"
    using commit ne by (auto simp: try_commit_wave_def bind_out_Ok_iff)
  obtain v where v: "anchor_vertex_of ctx w (ac_author ac) = Some v" and d: "cd_anchor_hash d = v_hash (cv_vertex v)"
      "cd_path d = Shortcut \<longrightarrow> commit_need (length (vs_entries vset)) \<le>
        card (support_in_window ctx (v_hash (cv_vertex v)) (wave_first_round w) (shortcut_round_count (cfg_bullshark cfg)))"
    using commit dag_port.try_commit_wave_eq [OF port ne ac] by (auto simp: Let_def split: option.splits if_splits)
  obtain vs where vs: "dag_vertices_at_round ctx (wave_first_round w) = Ok vs" "v \<in> set vs" "v_author (cv_vertex v) = ac_author ac"
    using v by (auto simp: anchor_vertex_of_def find_Some_iff split: outcome.splits)
  show thesis
    by (rule that [OF ac]) (use vs d quorum_viewD(1) [OF view vs(1,2)] in auto)
qed

text \<open>
  C4: Two validators with views of one certified DAG of 3f + 1 validators (parents known and of 2f + 1 authors,
  one vertex per author and round), each of which commits a wave, whatever their beacons. If the first one
  committed the earlier wave on the shortcut, over at most two rounds as configured, then its linearization is
  contained in that of the second: nothing committed is ever left out of a later commit. If both committed the
  same wave with the same beacon, they committed the same anchor and derive the same linearization, whichever
  path each took. For waves committed on the slow path, over four rounds, containment is not claimed.
\<close>

theorem committed_waves_agree:
  assumes ports: "dag_port ctx" "dag_port ctx'"
    and views: "quorum_view vset ctx" "quorum_view vset ctx'" "one_dag ctx ctx'"
    and size: "length (vs_entries vset) mod 3 = 1"
    and commits: "try_commit_wave L w cfg vset ctx late = Ok (Some d)" "try_commit_wave L w' cfg vset ctx' late' = Ok (Some d')"
      "unat w' < 2 ^ 62"
  shows "\<exists>lin lin'. closure_of_anchor (cd_anchor_hash d) ctx = Ok lin \<and> closure_of_anchor (cd_anchor_hash d') ctx' = Ok lin' \<and>
    (w < w' \<and> cd_path d = Shortcut \<and> shortcut_round_count (cfg_bullshark cfg) \<le> 2 \<longrightarrow>
      cd_anchor_hash d \<in> set (lin_order lin') \<and> set (lin_order lin) \<subseteq> set (lin_order lin')) \<and>
    (w' = w \<and> beacon_current ctx' = beacon_current ctx \<longrightarrow> cd_anchor_hash d' = cd_anchor_hash d \<and> lin' = lin)"
proof -
  let ?a = "cd_anchor_hash d" and ?a' = "cd_anchor_hash d'"
  obtain ac v where v: "select_anchor L w vset ctx = Ok ac" "dag_vertex ctx ?a = Ok (Some v)" "v_round (cv_vertex v) = wave_first_round w"
      "v_author (cv_vertex v) = ac_author ac" and support: "cd_path d = Shortcut \<longrightarrow> commit_need (length (vs_entries vset)) \<le>
        card (support_in_window ctx ?a (wave_first_round w) (shortcut_round_count (cfg_bullshark cfg)))"
    by (rule commit_anchor [OF ports(1) views(1) commits(1)])
  obtain ac' v' where v': "select_anchor L w' vset ctx' = Ok ac'" "dag_vertex ctx' ?a' = Ok (Some v')"
      "v_round (cv_vertex v') = wave_first_round w'" "v_author (cv_vertex v') = ac_author ac'"
    by (rule commit_anchor [OF ports(2) views(2) commits(2)])
  obtain lin lin' where lin: "closure_of_anchor ?a ctx = Ok lin" "set (lin_order lin) = history ctx ?a"
      and lin': "closure_of_anchor ?a' ctx' = Ok lin'" "set (lin_order lin') = history ctx' ?a'"
    using dag_port.closure_of_anchor_correct [OF ports(1), of ?a] dag_port.closure_of_anchor_correct [OF ports(2), of ?a'] by blast
  have "?a \<in> history ctx' ?a' \<and> history ctx ?a \<subseteq> history ctx' ?a'"
    if later: "w < w'" "cd_path d = Shortcut" "shortcut_round_count (cfg_bullshark cfg) \<le> 2"
  proof -
    have "unat (shortcut_round_count (cfg_bullshark cfg)) \<le> 2"
      using later(3) by (simp add: word_le_nat_alt)
    then obtain k where k: "k \<in> {1, 2 :: nat}" "(length (vs_entries vset) - 1) div 3 < card (round_support ctx ?a (wave_first_round w + of_nat k))"
      using window_round [OF views(1) _ mp [OF support later(2), unfolded commit_need_def]] by blast
    have reached: "?a \<in> history ctx' ?a'"
      by (rule support_spreads [OF views size k(2) v'(2)]) (use later_round [OF later(1) commits(3), of k] k(1) v'(3) in auto)
    have "\<exists>y. dag_vertex ctx' ?a = Ok (Some y)"
      by (rule history_known [OF views(2) v'(2) reached])
    then have "history ctx' ?a = history ctx ?a"
      using history_same [OF views v(2)] by blast
    moreover have "history ctx' ?a \<subseteq> history ctx' ?a'"
      using reached by (auto simp: history_def intro: rtrancl_trans)
    ultimately show ?thesis
      using reached by simp
  qed
  moreover have "?a' = ?a \<and> lin' = lin" if same: "w' = w" "beacon_current ctx' = beacon_current ctx"
  proof -
    have "select_anchor L w vset ctx' = select_anchor L w vset ctx"
      unfolding select_anchor_def same(2) ..
    then have "ac' = ac"
      using v(1) v'(1) same(1) by simp
    then have "cv_vertex v = cv_vertex v'"
      using one_dagD(2) [OF views(3) v(2) v'(2)] v(3,4) v'(3,4) same(1) by simp
    then have hash: "?a' = ?a"
      using quorum_viewD(2) [OF views(1) v(2)] quorum_viewD(2) [OF views(2) v'(2)] by simp
    have "closure_of_anchor ?a ctx' = closure_of_anchor ?a ctx"
      by (rule closure_of_anchor_agree [OF ports]) (use history_transfer [OF views v(2)] v'(2) hash in auto)
    with hash lin(1) lin'(1) show ?thesis
      by simp
  qed
  ultimately show ?thesis
    using lin lin' by blast
qed

section \<open>A DAG of any height\<close>

text \<open>Validators 1 to 3 certify a vertex in each of the first \<open>k\<close> rounds, on all vertices of the round before.\<close>

definition rung_hash :: "nat \<Rightarrow> nat \<Rightarrow> Hash32" where
  "rung_hash r a = of_nat (10 * r + a)"

definition crew :: "nat set" where
  "crew = {1, 2, 3}"

definition rung :: "nat \<Rightarrow> nat \<Rightarrow> CertifiedVertex" where
  "rung r a = sample_vertex (of_nat r) (of_nat a) (if r = 0 then [] else map (rung_hash (r - 1)) [1, 2, 3]) (rung_hash r a)"

primrec ladder :: "nat \<Rightarrow> VirtualDag" where
  "ladder 0 = virtual_dag_new"
| "ladder (Suc k) = fold vd_insert (map (rung k) [1, 2, 3]) (ladder k)"

definition ladder_host :: "nat \<Rightarrow> unit HostContext" where
  "ladder_host k = with_virtual_dag (ladder k) (sample_host 4 1)"

lemma rung_simps [simp]:
  "v_hash (cv_vertex (rung r a)) = rung_hash r a" "v_round (cv_vertex (rung r a)) = of_nat r"
  "v_author (cv_vertex (rung r a)) = of_nat a"
  "v_parents (cv_vertex (rung r a)) = (if r = 0 then [] else map (rung_hash (r - 1)) [1, 2, 3])"
  by (simp_all add: rung_def sample_vertex_def)

lemma set_crew: "set (map f [1, 2, 3]) = f ` crew"
  by (simp add: crew_def)

lemma unat_small: "n < 2 ^ 64 \<Longrightarrow> unat (of_nat n :: u64) = n"
  by (rule unat_of_nat_small) simp

lemma rung_hash_inj:
  assumes "r < 100" "r' < 100" "a \<in> crew" "a' \<in> crew" "rung_hash r a = rung_hash r' a'"
  shows "r = r' \<and> a = a'"
proof -
  have "unat (rung_hash r a) = 10 * r + a" "unat (rung_hash r' a') = 10 * r' + a'"
    unfolding rung_hash_def by (rule unat_of_nat_small; use assms(1-4) in \<open>auto simp: crew_def\<close>)+
  then have "10 * r + a = 10 * r' + a'"
    using assms(5) by simp
  moreover have "a < 10" "a' < 10"
    using assms(3,4) by (auto simp: crew_def)
  ultimately show ?thesis
    by presburger
qed

lemma ladder_slot: "k \<le> 100 \<Longrightarrow> vd_slot (ladder k) r = (if unat r < k then map (rung (unat r)) [1, 2, 3] else [])"
proof (induction k)
  case (Suc k)
  have "r = of_nat k \<longleftrightarrow> unat r = k"
    using Suc.prems unat_small [of k] by (auto simp: word_unat_eq_iff)
  with Suc show ?case
    by (auto simp: vd_slot_insert less_Suc_eq)
qed (simp add: virtual_dag_new_def vd_slot_def)

lemma ladder_members: "k \<le> 100 \<Longrightarrow> v \<in> set (vd_slot (ladder k) r) \<longleftrightarrow> unat r < k \<and> (\<exists>a \<in> crew. v = rung (unat r) a)"
  by (auto simp: ladder_slot crew_def)

lemma ladder_inv: "vd_inv (ladder k)"
  by (induction k) (simp_all add: vd_inv_new vd_inv_insert)

lemma ladder_lookup:
  assumes "k \<le> 100"
  shows "vd_by_hash (ladder k) h = Some v \<longleftrightarrow> (\<exists>r < k. \<exists>a \<in> crew. h = rung_hash r a \<and> v = rung r a)"
proof
  assume "vd_by_hash (ladder k) h = Some v"
  then have "v_hash (cv_vertex v) = h" "v \<in> set (vd_slot (ladder k) (v_round (cv_vertex v)))"
    using ladder_inv unfolding vd_inv_def by blast+
  then show "\<exists>r < k. \<exists>a \<in> crew. h = rung_hash r a \<and> v = rung r a"
    unfolding ladder_members [OF assms] by (metis rung_simps(1))
next
  assume "\<exists>r < k. \<exists>a \<in> crew. h = rung_hash r a \<and> v = rung r a"
  then obtain r a where ra: "r < k" "a \<in> crew" "h = rung_hash r a" "v = rung r a"
    by blast
  then have "v \<in> set (vd_slot (ladder k) (of_nat r))"
    using assms unat_small [of r] by (auto simp: ladder_members)
  then obtain v' where v': "vd_by_hash (ladder k) h = Some v'"
    using ladder_inv [of k] ra(3,4) unfolding vd_inv_def by fastforce
  then have "v_hash (cv_vertex v') = h" "v' \<in> set (vd_slot (ladder k) (v_round (cv_vertex v')))"
    using ladder_inv unfolding vd_inv_def by blast+
  then obtain r' a' where "r' < k" "a' \<in> crew" "v' = rung r' a'" "h = rung_hash r' a'"
    unfolding ladder_members [OF assms] by (metis rung_simps(1))
  then have "v' = v"
    using rung_hash_inj [of r r' a a'] ra assms by auto
  with v' show "vd_by_hash (ladder k) h = Some v"
    by simp
qed

lemma ladder_ports [simp]:
  "dag_vertex (ladder_host k) h = Ok (vd_by_hash (ladder k) h)"
  "dag_vertices_at_round (ladder_host k) r = Ok (vd_slot (ladder k) r)"
  "beacon_current (ladder_host k) = Ok 0"
  "valset_set_for (ladder_host k) e = Ok (Some (sample_set 4))"
  by (simp_all add: ladder_host_def with_virtual_dag_def vd_vertex_def vd_vertices_at_round_def vd_slot_def sample_host_def)

lemma ladder_port: "dag_port (ladder_host k)"
  unfolding ladder_host_def by (rule vd.dag_port_axioms)

lemma ladder_view:
  assumes "k \<le> 100"
  shows "quorum_view (sample_set 4) (ladder_host k)"
  unfolding quorum_view_def
proof (intro conjI allI impI ballI)
  fix r vs v
  assume "dag_vertices_at_round (ladder_host k) r = Ok vs" "v \<in> set vs"
  then obtain a where a: "unat r < k" "a \<in> crew" "v = rung (unat r) a"
    using assms by (auto simp: ladder_members)
  then show "v_round (cv_vertex v) = r"
    by simp
  show "dag_vertex (ladder_host k) (v_hash (cv_vertex v)) = Ok (Some v)"
    unfolding ladder_ports outcome.inject ladder_lookup [OF assms] a(3) rung_simps(1) using a(1,2) by blast
next
  fix h v
  assume "dag_vertex (ladder_host k) h = Ok (Some v)"
  then obtain r a where ra: "r < k" "a \<in> crew" "h = rung_hash r a" "v = rung r a"
    unfolding ladder_ports outcome.inject ladder_lookup [OF assms] by blast
  then show "v_hash (cv_vertex v) = h"
    by simp
  show "v_author (cv_vertex v) \<in> ve_id ` set (vs_entries (sample_set 4))"
    using ra by (auto simp: sample_entries sample_entry_def crew_def)
  have known: "vd_by_hash (ladder k) (rung_hash (r - 1) b) = Some (rung (r - 1) b)" if "b \<in> crew" for b
    unfolding ladder_lookup [OF assms] using ra(1) that by (intro exI [of _ "r - 1"]) auto
  show "\<exists>pv. dag_vertex (ladder_host k) p = Ok (Some pv) \<and> unat (v_round (cv_vertex v)) = Suc (unat (v_round (cv_vertex pv)))"
    if p: "p \<in> set (v_parents (cv_vertex v))" for p
  proof -
    obtain b where "0 < r" "b \<in> crew" "p = rung_hash (r - 1) b"
      using p ra(4) by (auto simp: crew_def split: if_splits)
    then show ?thesis
      using known [of b] ra assms unat_small [of r] unat_small [of "r - 1"] by auto
  qed
  assume "v_round (cv_vertex v) \<noteq> 0"
  then have "0 < r"
    using ra(4) by (cases r) auto
  have "{1, 2, 3} \<subseteq> parent_authors (ladder_host k) v"
  proof
    fix x :: ValidatorId
    assume "x \<in> {1, 2, 3}"
    then obtain b where b: "b \<in> crew" "x = of_nat b"
      by (force simp: crew_def)
    then have "rung_hash (r - 1) b \<in> set (v_parents (cv_vertex v))"
      using \<open>0 < r\<close> ra(4) by (auto simp: crew_def)
    moreover have "x = v_author (cv_vertex (rung (r - 1) b))" "dag_vertex (ladder_host k) (rung_hash (r - 1) b) = Ok (Some (rung (r - 1) b))"
      using b known by simp_all
    ultimately show "x \<in> parent_authors (ladder_host k) v"
      unfolding parent_authors_def by blast
  qed
  then have "card {1, 2, 3 :: ValidatorId} \<le> card (parent_authors (ladder_host k) v)"
    by (intro card_mono) simp_all
  then show "commit_need (length (vs_entries (sample_set 4))) \<le> card (parent_authors (ladder_host k) v)"
    by (simp add: sample_length commit_need_def)
qed

lemma ladder_one_dag:
  assumes "k \<le> 100" "k' \<le> 100"
  shows "one_dag (ladder_host k) (ladder_host k')"
  unfolding one_dag_def
proof (intro allI impI)
  fix h h' v v'
  assume "dag_vertex (ladder_host k) h = Ok (Some v)" "dag_vertex (ladder_host k') h' = Ok (Some v')"
    and same: "h = h' \<or> v_round (cv_vertex v) = v_round (cv_vertex v') \<and> v_author (cv_vertex v) = v_author (cv_vertex v')"
  then obtain r a r' a' where ra: "r < k" "a \<in> crew" "h = rung_hash r a" "v = rung r a"
      "r' < k'" "a' \<in> crew" "h' = rung_hash r' a'" "v' = rung r' a'"
    unfolding ladder_ports outcome.inject ladder_lookup [OF assms(1)] ladder_lookup [OF assms(2)] by blast
  have "r = r' \<and> a = a'"
    using same
  proof
    assume "h = h'"
    then show ?thesis
      using rung_hash_inj [of r r' a a'] ra assms by auto
  next
    assume eq: "v_round (cv_vertex v) = v_round (cv_vertex v') \<and> v_author (cv_vertex v) = v_author (cv_vertex v')"
    have "r = r'"
      using eq ra assms unat_small [of r] unat_small [of r'] by (simp add: word_unat_eq_iff)
    moreover have "a = a'"
      using eq ra by (auto simp: crew_def)
    ultimately show ?thesis
      by simp
  qed
  then show "cv_vertex v = cv_vertex v'"
    using ra by simp
qed

text \<open>Every wave below the top is committed on the shortcut, and its anchor is the vertex of validator 1.\<close>

lemma ladder_commits:
  assumes "4 * w + 1 < k" "k \<le> 100"
  shows "try_commit_wave tie_lib (of_nat w) default_table_17_1 (sample_set 4) (ladder_host k) late =
    Ok (Some \<lparr> cd_wave = of_nat w, cd_path = Shortcut, cd_anchor_hash = rung_hash (4 * w) 1 \<rparr>)"
proof -
  have first: "wave_first_round (of_nat w) = of_nat (4 * w)"
    by (simp add: wave_first_round_def)
  have slots: "vd_slot (ladder k) (of_nat (4 * w)) = map (rung (4 * w)) [1, 2, 3]"
      "vd_slot (ladder k) (of_nat (4 * w + 1)) = map (rung (4 * w + 1)) [1, 2, 3]"
    using assms unat_small [of "4 * w"] unat_small [of "4 * w + 1"] by (simp_all add: ladder_slot del: of_nat_add of_nat_mult)
  have anchor: "anchor_vertex_of (ladder_host k) (of_nat w) 1 = Some (rung (4 * w) 1)"
    unfolding anchor_vertex_of_def first by (simp add: slots del: of_nat_mult)
  have "{1, 2, 3} \<subseteq> support_in_window (ladder_host k) (rung_hash (4 * w) 1) (of_nat (4 * w)) 2"
  proof
    fix x :: ValidatorId
    assume "x \<in> {1, 2, 3}"
    then obtain a where a: "a \<in> crew" "x = of_nat a"
      by (force simp: crew_def)
    have "dag_vertices_at_round (ladder_host k) (of_nat (4 * w) + of_nat 1) = Ok (map (rung (4 * w + 1)) [1, 2, 3])"
      unfolding of_nat_add [symmetric] by (simp only: ladder_ports slots)
    moreover have "rung_hash (4 * w) 1 \<in> set (v_parents (cv_vertex (rung (4 * w + 1) a)))" "rung (4 * w + 1) a \<in> set (map (rung (4 * w + 1)) [1, 2, 3])"
      using a(1) by (auto simp: crew_def)
    moreover have "1 \<in> {1..unat (2 :: u32)}" "x = v_author (cv_vertex (rung (4 * w + 1) a))"
      using a(2) by simp_all
    ultimately show "x \<in> support_in_window (ladder_host k) (rung_hash (4 * w) 1) (of_nat (4 * w)) 2"
      unfolding support_in_window_def using history_refl by blast
  qed
  then have "card {1, 2, 3 :: ValidatorId} \<le> card (support_in_window (ladder_host k) (rung_hash (4 * w) 1) (of_nat (4 * w)) 2)"
    by (intro card_mono) simp_all
  then have "commit_need 4 \<le> card (support_in_window (ladder_host k) (rung_hash (4 * w) 1) (of_nat (4 * w)) 2)"
    by (simp add: commit_need_def)
  moreover have "shortcut_round_count (cfg_bullshark default_table_17_1) = 2"
    by (simp add: default_table_17_1_def)
  ultimately show ?thesis
    using dag_port.try_commit_wave_eq [OF ladder_port sample_length(2) tie_anchor [OF ladder_ports(3)], of "of_nat w" default_table_17_1 k late]
    by (simp add: anchor first sample_length Let_def del: of_nat_mult)
qed

text \<open>The view of the first two rounds commits wave 0; what it committed is in wave 1 of the view of six rounds.\<close>

theorem committed_waves_agree_witness:
  "\<exists>lin lin'. closure_of_anchor (rung_hash 0 1) (ladder_host 2) = Ok lin \<and> closure_of_anchor (rung_hash 4 1) (ladder_host 6) = Ok lin' \<and>
    set (lin_order lin) \<subseteq> set (lin_order lin')"
  using committed_waves_agree [OF ladder_port ladder_port ladder_view ladder_view ladder_one_dag _
      ladder_commits [of 0 2 False] ladder_commits [of 1 6 True]]
  by (auto simp: sample_length default_table_17_1_def)

section \<open>Certificates are broadcast once\<close>

text \<open>
  C24: Over any run, whatever the DAG views, beacons and errors met, a validator broadcasts a micro
  certificate for a checkpoint at most once.
\<close>

theorem micro_qc_once:
  assumes "bull_reach L cfg hosts hs st"
  shows "distinct hs \<and> set hs \<subseteq> fst st"
  by (rule bull_reach_once [OF assms])

lemma tie_checkpoint: "checkpoint_hash_from_linearization tie_lib lin = 0"
  by (simp add: checkpoint_hash_from_linearization_def blake3_with_dst_def tie_lib_def)

lemma ladder_history_authors:
  assumes "0 < r" "r < k" "k \<le> 100"
  shows "{1, 2, 3} \<subseteq> history_authors (ladder_host k) (rung_hash r 1)"
proof
  fix x :: ValidatorId
  assume "x \<in> {1, 2, 3}"
  then obtain a where a: "a \<in> crew" "x = of_nat a"
    by (force simp: crew_def)
  have known: "dag_vertex (ladder_host k) (rung_hash r' b) = Ok (Some (rung r' b))" if "r' < k" "b \<in> crew" for r' b
    unfolding ladder_ports outcome.inject ladder_lookup [OF assms(3)] using that by blast
  have "(rung_hash r 1, rung_hash (r - 1) a) \<in> dag_edges (ladder_host k)"
    unfolding dag_edge_iff by (rule exI [of _ "rung r 1"]) (use known [of r 1] assms a(1) in \<open>auto simp: crew_def\<close>)
  then have "rung_hash (r - 1) a \<in> history (ladder_host k) (rung_hash r 1)"
    by (auto simp: history_def)
  moreover have "dag_vertex (ladder_host k) (rung_hash (r - 1) a) = Ok (Some (rung (r - 1) a))"
    by (rule known) (use assms a(1) in auto)
  ultimately have "rung (r - 1) a \<in> known_vertices (ladder_host k) (history (ladder_host k) (rung_hash r 1))"
    unfolding known_vertices_def by blast
  then show "x \<in> history_authors (ladder_host k) (rung_hash r 1)"
    unfolding history_authors_def by (rule rev_image_eqI) (simp add: a(2))
qed

lemma ladder_emits:
  assumes "0 < r" "r < k" "k \<le> 100" "0 \<notin> fst st"
  shows "\<exists>qc. emit_checkpoint tie_lib (rung_hash r 1) (ladder_host k) actions st =
    (Ok (actions @ [BroadcastMicroQc qc]), (insert 0 (fst st), snd st)) \<and> uq_checkpoint_hash qc = 0"
proof -
  obtain lin where lin: "closure_of_anchor (rung_hash r 1) (ladder_host k) = Ok lin" "set (lin_order lin) = history (ladder_host k) (rung_hash r 1)"
    using dag_port.closure_of_anchor_correct [OF ladder_port] by blast
  obtain cvs where cvs: "lookup_all (ladder_host k) (lin_order lin) = Ok cvs"
      "set cvs = known_vertices (ladder_host k) (history (ladder_host k) (rung_hash r 1))"
    using dag_port.lookup_all_correct [OF ladder_port, of k "lin_order lin"] lin(2) by auto
  have "card {1, 2, 3 :: ValidatorId} \<le> card (history_authors (ladder_host k) (rung_hash r 1))"
    by (rule card_mono) (use ladder_history_authors [OF assms(1-3)] in simp_all)
  then have "3 \<le> card (set (map (\<lambda>cv. v_author (cv_vertex cv)) cvs))"
    by (simp add: cvs(2) history_authors_def)
  then obtain qc where "micro_try_finalize 0 cvs (ladder_host k) = Ok (Some qc)" "uq_checkpoint_hash qc = 0"
    by (auto simp: micro_try_finalize_def sample_length Let_def)
  then show ?thesis
    using assms(4) lin(1) cvs(1) by (simp add: emit_checkpoint_def tie_checkpoint)
qed

text \<open>Three waves are committed; under the constant hash they have one checkpoint, and one certificate is broadcast.\<close>

definition wave_book_upto :: "u64 set \<Rightarrow> WaveBook" where
  "wave_book_upto ws = wave_book_new\<lparr>wb_committed_waves := ws\<rparr>"

lemma committed_upto [simp]: "wb_committed_waves (wave_book_upto ws) = ws"
  by (simp add: wave_book_upto_def)

lemma ladder_try_emit:
  assumes "4 * w + 1 < k" "k \<le> 100" "of_nat w \<notin> ws"
  shows "try_emit_for_wave tie_lib (of_nat w) default_table_17_1 (ladder_host k) False (es, wave_book_upto ws) =
    emit_checkpoint tie_lib (rung_hash (4 * w) 1) (ladder_host k) [] (es, wave_book_upto (insert (of_nat w) ws))"
proof -
  have "mark_committed (of_nat w) (wave_book_upto ws) = ([], wave_book_upto (insert (of_nat w) ws))"
    by (simp add: mark_committed_def wave_book_upto_def wave_book_new_def)
  then show ?thesis
    using assms by (simp add: try_emit_for_wave_def ladder_commits wave_book_upto_def)
qed

lemma ladder_first_step: "\<exists>qc. bull_on_certified_vertex tie_lib default_table_17_1 (rung 5 1) (ladder_host 6) ({}, wave_book_new) =
    (Ok [BroadcastMicroQc qc], ({0}, wave_book_upto {0, 1})) \<and> uq_checkpoint_hash qc = 0"
proof -
  have "vd_by_hash (ladder 6) (rung_hash 0 1) = Some (rung 0 1)"
    by (subst ladder_lookup) (auto simp: crew_def intro: exI [of _ 0])
  then have silent: "emit_checkpoint tie_lib (rung_hash 0 1) (ladder_host 6) acts st = (Ok acts, st)" for acts st
    by (intro first_wave_silent [OF ladder_port ladder_ports(4), where cv = "rung 0 1"]) (simp_all add: sample_length)
  obtain qc where qc: "emit_checkpoint tie_lib (rung_hash (4 * 1) 1) (ladder_host 6) [] ({}, wave_book_upto {1, 0}) =
      (Ok [BroadcastMicroQc qc], ({0}, wave_book_upto {1, 0}))" "uq_checkpoint_hash qc = 0"
    using ladder_emits [of "4 * 1" 6 "({}, wave_book_upto {1, 0})" "[]"] by auto
  have waves: "map of_nat [0..<Suc (unat (wave_of_round (v_round (cv_vertex (rung 5 1)))))] = [of_nat 0, of_nat 1 :: u64]"
    by (simp add: wave_of_round_def unat_div)
  have new: "wave_book_new = wave_book_upto {}"
    by (simp add: wave_book_upto_def wave_book_new_def)
  show ?thesis
    using ladder_try_emit [of 0 6 "{}" "{}"] ladder_try_emit [of 1 6 "{0}" "{}"] silent qc
    unfolding bull_on_certified_vertex_def waves new by (auto simp: insert_commute)
qed

lemma ladder_second_step: "bull_on_certified_vertex tie_lib default_table_17_1 (rung 9 1) (ladder_host 10) ({0}, wave_book_upto {0, 1}) =
    (Ok [], ({0}, wave_book_upto {0, 1, 2}))"
proof -
  have seen: "emit_checkpoint tie_lib h (ladder_host 10) acts ({0}, b) = (Ok acts, ({0}, b))" for h acts b
    using dag_port.closure_of_anchor_correct [OF ladder_port, of h 10] by (auto simp: emit_checkpoint_def tie_checkpoint)
  have waves: "map of_nat [0..<Suc (unat (wave_of_round (v_round (cv_vertex (rung 9 1)))))] = [of_nat 0, of_nat 1, of_nat 2 :: u64]"
  proof -
    have "[0..<3] = [0, 1, 2 :: nat]"
      by code_simp
    then show ?thesis
      by (simp add: wave_of_round_def unat_div)
  qed
  show ?thesis
    using ladder_try_emit [of 2 10 "{0, 1}" "{0}"] seen
    unfolding bull_on_certified_vertex_def waves
    by (simp add: insert_commute)
qed

theorem micro_qc_once_witness:
  "\<exists>hs st. bull_reach tie_lib default_table_17_1 (UNIV :: unit HostContext set) hs st \<and> hs = [0] \<and> wb_committed_waves (snd st) = {0, 1, 2} \<and>
    distinct hs \<and> set hs \<subseteq> fst st"
proof -
  obtain qc where qc: "bull_on_certified_vertex tie_lib default_table_17_1 (rung 5 1) (ladder_host 6) ({}, wave_book_new) =
      (Ok [BroadcastMicroQc qc], ({0}, wave_book_upto {0, 1}))" "uq_checkpoint_hash qc = 0"
    using ladder_first_step by blast
  have run: "bull_reach tie_lib default_table_17_1 (UNIV :: unit HostContext set) [0] ({0}, wave_book_upto {0, 1, 2})"
    using bull_reach.vertex [OF bull_reach.vertex [OF bull_reach.start UNIV_I qc(1)] UNIV_I ladder_second_step] qc(2) by simp
  then show ?thesis
    using micro_qc_once [OF run] by (intro exI [of _ "[0]"] exI [of _ "({0}, wave_book_upto {0, 1, 2})"]) (simp add: wave_book_upto_def)
qed

end
