(* ===== verification/Macro_State.thy ===== *)
theory Macro_State
  imports Slashing Bullshark
begin

text \<open>
  The parts of macro finality (\<open>consensus/src/macro_fin\<close>, \<open>lock_macro.rs\<close>) that the handlers are
  built from: the vote lock, the two-chain rule, macro windows, the macro timers, the proposer
  schedule, aggregation modes, checkpoint construction, the verifiers and the builders of macro
  quorum certificates.
\<close>

section \<open>The vote lock\<close>

record LockMacro =
  lm_locks :: "ValidatorId \<rightharpoonup> Height \<times> Hash32"

definition lock_macro_new :: LockMacro where
  "lock_macro_new = \<lparr> lm_locks = Map.empty \<rparr>"

definition try_lock :: "ValidatorId \<Rightarrow> Height \<Rightarrow> Hash32 \<Rightarrow> LockMacro \<Rightarrow>
    (string, unit) outcome \<times> LockMacro" where
  "try_lock validator height checkpoint lm = (let
     fresh = (Ok (), lm\<lparr>lm_locks := (lm_locks lm)(validator \<mapsto> (height, checkpoint))\<rparr>)
   in case lm_locks lm validator of
        Some (h, prev) \<Rightarrow>
          if h = height \<and> prev \<noteq> checkpoint
          then (Err ''validator already locked to a conflicting checkpoint at this height'', lm)
          else fresh
      | None \<Rightarrow> fresh)"

definition lock_get :: "ValidatorId \<Rightarrow> LockMacro \<Rightarrow> (Height \<times> Hash32) option" where
  "lock_get validator lm = lm_locks lm validator"

section \<open>The two-chain rule\<close>

record TwoChainRule =
  tc_adopted :: "(Height, MacroCheckpoint) btree"
  tc_justified_head :: "Hash32 option"
  tc_finalized_head :: "Hash32 option"

definition two_chain_default :: TwoChainRule where
  "two_chain_default = \<lparr> tc_adopted = bt_empty, tc_justified_head = None, tc_finalized_head = None \<rparr>"

definition adopt :: "MacroCheckpoint \<Rightarrow> TwoChainRule \<Rightarrow> TwoChainRule" where
  "adopt cp r = (let
     r1 = (case bt_get (tc_adopted r) (mc_height cp) of
             None \<Rightarrow> r\<lparr>tc_adopted := bt_insert (mc_height cp) cp (tc_adopted r)\<rparr>
           | Some _ \<Rightarrow> r)
   in case bt_get (tc_adopted r1) (mc_height cp) of
        Some entry \<Rightarrow> if mc_hash entry = mc_hash cp then r1\<lparr>tc_justified_head := Some (mc_hash cp)\<rparr> else r1
      | None \<Rightarrow> r1)"

definition justified_head_height :: "TwoChainRule \<Rightarrow> Height option" where
  "justified_head_height r = (case tc_justified_head r of None \<Rightarrow> None
     | Some head_hash \<Rightarrow> map_option fst (find (\<lambda>(h, cp). mc_hash cp = head_hash) (rev (tc_adopted r))))"

definition is_justified :: "Height \<Rightarrow> TwoChainRule \<Rightarrow> bool" where
  "is_justified height r \<longleftrightarrow> bt_get (tc_adopted r) height \<noteq> None"

definition newly_finalized_height :: "TwoChainRule \<Rightarrow> Height option" where
  "newly_finalized_height r = (case justified_head_height r of None \<Rightarrow> None
     | Some head \<Rightarrow> if head = 0 then None else (let prev = head - 1 in
         case (bt_get (tc_adopted r) head, bt_get (tc_adopted r) prev) of
           (Some head_cp, Some prev_cp) \<Rightarrow>
             if mc_parent head_cp = mc_hash prev_cp \<and> tc_finalized_head r \<noteq> Some (mc_hash prev_cp)
             then Some prev else None
         | _ \<Rightarrow> None))"

definition mark_finalized :: "Height \<Rightarrow> TwoChainRule \<Rightarrow> TwoChainRule" where
  "mark_finalized prev r = (case bt_get (tc_adopted r) prev of
     None \<Rightarrow> r | Some cp \<Rightarrow> r\<lparr>tc_finalized_head := Some (mc_hash cp)\<rparr>)"

section \<open>Windows\<close>

text \<open>The divisor is the configured window, unchecked.\<close>

definition window_of_round :: "Config \<Rightarrow> Round \<Rightarrow> (Error, Height) outcome" where
  "window_of_round cfg rnd = (let w = ucast (macro_window_w (cfg_macro_fin cfg)) in
     if w = 0 then Panic ''attempt to divide by zero'' else Ok (rnd div w))"

section \<open>Timers\<close>

text \<open>
  The two maps are searched by value; an identifier is stored for one height only, so the hash
  order of that search does not matter and the model searches in key order.
\<close>

record MacroTimerBook =
  mt_seq :: TimerScheduler
  mt_backup_by_height :: "(u64, TimerId) btree"
  mt_mode_b_by_height :: "(u64, TimerId) btree"

definition macro_timers_new :: MacroTimerBook where
  "macro_timers_new = \<lparr> mt_seq = scheduler_default, mt_backup_by_height = bt_empty,
     mt_mode_b_by_height = bt_empty \<rparr>"

definition schedule_backup_propose :: "Height \<Rightarrow> TimerId \<Rightarrow> MacroTimerBook \<Rightarrow> MacroTimerBook" where
  "schedule_backup_propose height tid t =
     t\<lparr>mt_backup_by_height := bt_insert height tid (mt_backup_by_height t)\<rparr>"

definition backup_timer_for :: "Height \<Rightarrow> MacroTimerBook \<Rightarrow> TimerId option" where
  "backup_timer_for height t = bt_get (mt_backup_by_height t) height"

definition clear_backup :: "Height \<Rightarrow> MacroTimerBook \<Rightarrow> MacroTimerBook" where
  "clear_backup height t =
     t\<lparr>mt_backup_by_height := bt_retain (\<lambda>h _. h \<noteq> height) (mt_backup_by_height t)\<rparr>"

definition schedule_mode_b_deadline :: "Height \<Rightarrow> TimerId \<Rightarrow> MacroTimerBook \<Rightarrow> MacroTimerBook" where
  "schedule_mode_b_deadline height tid t =
     t\<lparr>mt_mode_b_by_height := bt_insert height tid (mt_mode_b_by_height t)\<rparr>"

definition mode_b_timer_for :: "Height \<Rightarrow> MacroTimerBook \<Rightarrow> TimerId option" where
  "mode_b_timer_for height t = bt_get (mt_mode_b_by_height t) height"

definition clear_mode_b :: "Height \<Rightarrow> MacroTimerBook \<Rightarrow> MacroTimerBook" where
  "clear_mode_b height t =
     t\<lparr>mt_mode_b_by_height := bt_retain (\<lambda>h _. h \<noteq> height) (mt_mode_b_by_height t)\<rparr>"

definition height_for_backup_timer :: "TimerId \<Rightarrow> MacroTimerBook \<Rightarrow> Height option" where
  "height_for_backup_timer tid t =
     map_option fst (find (\<lambda>(h, x). x = tid) (mt_backup_by_height t))"

definition height_for_mode_b_timer :: "TimerId \<Rightarrow> MacroTimerBook \<Rightarrow> Height option" where
  "height_for_mode_b_timer tid t =
     map_option fst (find (\<lambda>(h, x). x = tid) (mt_mode_b_by_height t))"

definition mt_alloc_id :: "MacroTimerBook \<Rightarrow> TimerId \<times> MacroTimerBook" where
  "mt_alloc_id t = (case allocate (mt_seq t) of (tid, seq) \<Rightarrow> (tid, t\<lparr>mt_seq := seq\<rparr>))"

definition backup_propose_action :: "Config \<Rightarrow> Height \<Rightarrow> MacroTimerBook \<Rightarrow> Action \<times> MacroTimerBook" where
  "backup_propose_action cfg height t = (case mt_alloc_id t of (tid, t1) \<Rightarrow>
     (ScheduleTimer tid (ucast (t_macropropose_ms (cfg_timing cfg)) * 1000000),
      schedule_backup_propose height tid t1))"

definition mode_b_deadline_action :: "Config \<Rightarrow> Height \<Rightarrow> MacroTimerBook \<Rightarrow> Action \<times> MacroTimerBook" where
  "mode_b_deadline_action cfg height t = (case mt_alloc_id t of (tid, t1) \<Rightarrow>
     (ScheduleTimer tid (ucast (t_macropropose_ms (cfg_timing cfg)) * 2000000),
      schedule_mode_b_deadline height tid t1))"

section \<open>Proposer schedule\<close>

record ProposerSchedule =
  ps_height :: Height
  ps_primary :: ValidatorId
  ps_backup :: ValidatorId

definition vrf_alpha :: "Hash32 \<Rightarrow> Height \<Rightarrow> ValidatorId \<Rightarrow> bytes" where
  "vrf_alpha beacon height validator =
     be_bytes 32 beacon @ be_bytes 8 height @ be_bytes 32 validator"

definition macro_sortition_beta :: "'x crypto_lib \<Rightarrow> Hash32 \<Rightarrow> Height \<Rightarrow> ValidatorId \<Rightarrow> Hash32" where
  "macro_sortition_beta L beacon height validator = blake3_with_dst L DST_MACRO_PROPOSAL
     (be_bytes 32 beacon @ be_bytes 8 height @ be_bytes 32 validator)"

definition round_robin :: "ValidatorSet \<Rightarrow> Height \<Rightarrow> (Error, ProposerSchedule) outcome" where
  "round_robin vset height = (let n = length (vs_entries vset) in
     if n = 0 then Panic ''attempt to calculate the remainder with a divisor of zero''
     else Ok \<lparr> ps_height = height,
       ps_primary = ve_id (vs_entries vset ! (unat height mod n)),
       ps_backup = ve_id (vs_entries vset ! (unat (height + 1) mod n)) \<rparr>)"

text \<open>
  The comparator of the sort: score first (incomparable scores are equal), then identity. Sorting is
  stable insertion; on comparable scores any stable sort gives the same list.
\<close>

fun scored_cmp :: "ValidatorId \<times> f64 \<Rightarrow> ValidatorId \<times> f64 \<Rightarrow> Ordering" where
  "scored_cmp (i, s) (j, t) = (case f64_cmp s t of
     Equal \<Rightarrow> if i < j then Less else if i = j then Equal else Greater | c \<Rightarrow> c)"

fun insert_scored :: "ValidatorId \<times> f64 \<Rightarrow> (ValidatorId \<times> f64) list \<Rightarrow> (ValidatorId \<times> f64) list" where
  "insert_scored x [] = [x]"
| "insert_scored x (y # ys) = (if scored_cmp x y = Greater then y # insert_scored x ys else x # y # ys)"

definition sort_scored :: "(ValidatorId \<times> f64) list \<Rightarrow> (ValidatorId \<times> f64) list" where
  "sort_scored xs = foldr insert_scored xs []"

definition scored_entries :: "'x crypto_lib \<Rightarrow> Hash32 \<Rightarrow> ValidatorSet \<Rightarrow> Height \<Rightarrow>
    (ValidatorId \<rightharpoonup> f64) \<Rightarrow> (ValidatorId \<times> f64) list" where
  "scored_entries L beacon vset height reputation = map (\<lambda>e. let
       beta = macro_sortition_beta L beacon height (ve_id e);
       rep = (case reputation (ve_id e) of None \<Rightarrow> reputation_neutral | Some r \<Rightarrow> r)
     in (ve_id e, vrf_sortition_score beta (vs_total_stake vset) (ve_stake e) rep)) (vs_entries vset)"

definition vrf_sortition :: "'x crypto_lib \<Rightarrow> Hash32 \<Rightarrow> ValidatorSet \<Rightarrow> Height \<Rightarrow>
    (ValidatorId \<rightharpoonup> f64) \<Rightarrow> (Error, ProposerSchedule) outcome" where
  "vrf_sortition L beacon vset height reputation =
     (case sort_scored (scored_entries L beacon vset height reputation) of
        primary # backup # _ \<Rightarrow>
          Ok \<lparr> ps_height = height, ps_primary = fst primary, ps_backup = fst backup \<rparr>
      | _ \<Rightarrow> Panic ''index out of bounds'')"

definition vrf_proof_for :: "'x crypto_lib \<Rightarrow> Hash32 \<Rightarrow> Height \<Rightarrow> ValidatorId \<Rightarrow> VrfProof" where
  "vrf_proof_for L beacon height proposer =
     word_of_be (be_bytes 32 (macro_sortition_beta L beacon height proposer) @ replicate 48 0)"

section \<open>Aggregation modes\<close>

type_synonym Ke = u32

definition compute_ke :: "Config \<Rightarrow> u32 \<Rightarrow> Ke" where
  "compute_ke cfg n_e = (case sim_force_ke (cfg_aggregation cfg) of
     Some k \<Rightarrow> k
   | None \<Rightarrow> if n_e < subnet_flat_threshold (cfg_aggregation cfg) then 0
       else min (of_nat (div_ceil (unat n_e) 128)) 32)"

definition mode_a_active :: "Ke \<Rightarrow> bool" where
  "mode_a_active ke \<longleftrightarrow> 4 \<le> ke"

definition select_mode :: "Config \<Rightarrow> u32 \<Rightarrow> AggregationMode" where
  "select_mode cfg n_e = (if mode_a_active (compute_ke cfg n_e) then ModeASubnet else Mode0Flat)"

record SubnetAssign =
  sn_k_e :: Ke
  sn_r_macro :: Hash32

definition index_for :: "'x crypto_lib \<Rightarrow> SubnetAssign \<Rightarrow> ValidatorId \<Rightarrow> u32" where
  "index_for L assign validator = (let
     h = blake3_with_dst L DST_SUBNET_ASSIGN (be_bytes 32 validator @ be_bytes 32 (sn_r_macro assign));
     n = word_of_be (take 4 (be_bytes 32 h))
   in n mod max (sn_k_e assign) 1)"

section \<open>Checkpoints\<close>

definition build_checkpoint :: "'x crypto_lib \<Rightarrow> Height \<Rightarrow> Epoch \<Rightarrow> Hash32 \<Rightarrow> Hash32 \<Rightarrow> MacroCheckpoint" where
  "build_checkpoint L height epoch parent micro_root = \<lparr>
     mc_height = height, mc_epoch = epoch, mc_parent = parent, mc_micro_root = micro_root,
     mc_hash = blake3_with_dst L DST_MACRO_CHECKPOINT
       (borsh_checkpoint_preimage L height epoch parent micro_root) \<rparr>"

definition micro_root_of_ring :: "'x crypto_lib \<Rightarrow> Hash32 list \<Rightarrow> Hash32" where
  "micro_root_of_ring L ring = blake3_with_dst L DST_MACRO_MICRO_ROOT (concat (map (be_bytes 32) ring))"

definition fixture_partial_sig :: "'x crypto_lib \<Rightarrow> ValidatorId \<Rightarrow> Hash32 \<Rightarrow> BlsSig" where
  "fixture_partial_sig L validator checkpoint_hash = fixture_bls_sig L DST_VALIDATOR_BLS_PARTIAL
     [be_bytes 32 validator, be_bytes 32 checkpoint_hash]"

definition fixture_proposer_sig :: "'x crypto_lib \<Rightarrow> ValidatorId \<Rightarrow> Hash32 \<Rightarrow> BlsSig" where
  "fixture_proposer_sig L proposer checkpoint_hash = fixture_bls_sig L DST_MACRO_PROPOSER_SIG
     [be_bytes 32 proposer, be_bytes 32 checkpoint_hash]"

text \<open>The first sixteen bytes of the checkpoint hash, then zeros.\<close>

definition blob_id_of_checkpoint :: "MacroCheckpoint \<Rightarrow> BlobId" where
  "blob_id_of_checkpoint cp = word_of_be (take 16 (be_bytes 32 (mc_hash cp)) @ replicate 16 0)"

section \<open>Verification\<close>

definition pk_from_entry :: "'x crypto_lib \<Rightarrow> ValidatorEntry \<Rightarrow> 'x option" where
  "pk_from_entry L e = (case pk_from_bytes L (ve_bls_pubkey e) of Ok pk \<Rightarrow> Some pk | _ \<Rightarrow> None)"

definition macro_verify_partial :: "'x crypto_lib \<Rightarrow> ValidatorSet \<Rightarrow> BlsPartial \<Rightarrow> MacroCheckpoint \<Rightarrow> bool" where
  "macro_verify_partial L vset bp checkpoint =
     (if bp_checkpoint_hash bp \<noteq> mc_hash checkpoint then False
      else case find_entry vset (bp_validator bp) of None \<Rightarrow> False | Some e \<Rightarrow>
        (case pk_from_entry L e of None \<Rightarrow> False | Some pk \<Rightarrow>
          is_ok (bls_verify L pk DST_MACRO_CHECKPOINT (checkpoint_message L checkpoint) (bp_sig bp))))"

definition macro_verify_proposal :: "'x crypto_lib \<Rightarrow> ValidatorSet \<Rightarrow> MacroProposal \<Rightarrow> bytes \<Rightarrow> bool" where
  "macro_verify_proposal L vset p alpha =
     (case find_entry vset (mp_proposer p) of None \<Rightarrow> False | Some e \<Rightarrow>
       (case pk_from_entry L e of None \<Rightarrow> False | Some pk \<Rightarrow>
         is_ok (bls_verify L pk DST_MACRO_PROPOSER_SIG
           (proposer_message (mp_proposer p) (mp_checkpoint p)) (mp_proposer_sig p)) \<and>
         (vrf_pubkey_is_zero (ve_vrf_pubkey e) \<or>
          is_ok (vrf_verify L (ve_vrf_pubkey e) alpha (mp_vrf_proof p)))))"

text \<open>\<open>bitmap.get(i / 8).copied().unwrap_or(0) & (1 << (i % 8)) != 0\<close>.\<close>

definition bitmap_bit :: "bytes \<Rightarrow> nat \<Rightarrow> bool" where
  "bitmap_bit bs i \<longleftrightarrow> i div 8 < length bs \<and> test_slot bs i"

definition marked_entries :: "ValidatorSet \<Rightarrow> bytes \<Rightarrow> ValidatorEntry list" where
  "marked_entries vset bs = map ((!) (vs_entries vset))
     (filter (bitmap_bit bs) [0..<length (vs_entries vset)])"

text \<open>\<open>collect\<close> of a loop that returns early on the first \<open>None\<close>.\<close>

fun all_some :: "('a \<Rightarrow> 'b option) \<Rightarrow> 'a list \<Rightarrow> 'b list option" where
  "all_some f [] = Some []"
| "all_some f (x # xs) = (case f x of None \<Rightarrow> None | Some y \<Rightarrow>
     (case all_some f xs of None \<Rightarrow> None | Some ys \<Rightarrow> Some (y # ys)))"

definition verify_subnet_agg :: "'x crypto_lib \<Rightarrow> ValidatorSet \<Rightarrow> SubnetAggregate \<Rightarrow> MacroCheckpoint \<Rightarrow>
    (Hash32 \<times> ValidatorId \<rightharpoonup> BlsSig) \<Rightarrow> bool" where
  "verify_subnet_agg L vset agg checkpoint partial_sigs = (let
     msg = checkpoint_message L checkpoint;
     pks = all_some (\<lambda>e. case pk_from_entry L e of None \<Rightarrow> None | Some pk \<Rightarrow>
             (case partial_sigs (sa_checkpoint_hash agg, ve_id e) of None \<Rightarrow> None | Some sig \<Rightarrow>
               if is_ok (bls_verify L pk DST_MACRO_CHECKPOINT msg sig) then Some pk else None))
           (marked_entries vset (as_bitmap (sa_agg agg)))
   in case pks of None \<Rightarrow> False | Some pks \<Rightarrow>
        if pks = [] then False
        else is_ok (verify_aggregate L pks DST_MACRO_CHECKPOINT msg (as_sig (sa_agg agg))))"

definition verify_macro_qc :: "'x crypto_lib \<Rightarrow> ValidatorSet \<Rightarrow> MacroQc \<Rightarrow> MacroCheckpoint \<Rightarrow> bool" where
  "verify_macro_qc L vset qc checkpoint =
     (if mq_checkpoint_hash qc \<noteq> mc_hash checkpoint then False
      else case all_some (pk_from_entry L) (marked_entries vset (as_bitmap (mq_agg qc))) of
        None \<Rightarrow> False
      | Some pks \<Rightarrow> if pks = [] then False
          else is_ok (verify_aggregate L pks DST_MACRO_CHECKPOINT (checkpoint_message L checkpoint)
            (as_sig (mq_agg qc))))"

definition pubkeys_for_signers :: "'x crypto_lib \<Rightarrow> ValidatorSet \<Rightarrow> ValidatorId set \<Rightarrow> 'x list" where
  "pubkeys_for_signers L vset signers =
     List.map_filter (pk_from_entry L) (filter (\<lambda>e. ve_id e \<in> signers) (vs_entries vset))"

section \<open>Building quorum certificates\<close>

definition signer_slots :: "ValidatorSet \<Rightarrow> ValidatorId set \<Rightarrow> nat list" where
  "signer_slots vset signers =
     filter (\<lambda>i. ve_id (vs_entries vset ! i) \<in> signers) [0..<length (vs_entries vset)]"

definition slots_bitmap :: "nat \<Rightarrow> nat list \<Rightarrow> bytes" where
  "slots_bitmap n slots = fold (\<lambda>i bs. set_slot bs i) slots (replicate (div_ceil n 8) 0)"

definition try_finalize_mode0 :: "'x crypto_lib \<Rightarrow> Hash32 \<Rightarrow> ValidatorId set \<Rightarrow>
    (Hash32 \<times> ValidatorId \<rightharpoonup> BlsSig) \<Rightarrow> ValidatorSet \<Rightarrow> MacroQc option" where
  "try_finalize_mode0 L target signers partial_sigs vset = (let n = length (vs_entries vset) in
     if n = 0 then None
     else if card signers < 2 * ((n - 1) div 3) + 1 then None
     else let slots = signer_slots vset signers in
       case all_some (\<lambda>i. partial_sigs (target, ve_id (vs_entries vset ! i))) slots of
         None \<Rightarrow> None
       | Some sigs \<Rightarrow> (case aggregate_sigs L sigs of
           Ok agg \<Rightarrow> Some \<lparr> mq_checkpoint_hash = target, mq_mode = Mode0Flat,
             mq_agg = \<lparr> as_sig = agg, as_bitmap = slots_bitmap n slots \<rparr> \<rparr>
         | _ \<Rightarrow> None))"

definition try_finalize_mode_b :: "'x crypto_lib \<Rightarrow> Hash32 \<Rightarrow> ValidatorId set \<Rightarrow>
    (Hash32 \<times> ValidatorId \<rightharpoonup> BlsSig) \<Rightarrow> ValidatorSet \<Rightarrow> MacroQc option" where
  "try_finalize_mode_b L target signers partial_sigs vset =
     map_option (\<lambda>qc. qc\<lparr>mq_mode := ModeBLeaderless\<rparr>)
       (try_finalize_mode0 L target signers partial_sigs vset)"

definition try_build_aggregate :: "'x crypto_lib \<Rightarrow> Hash32 \<Rightarrow> SubnetId \<Rightarrow> ValidatorId set \<Rightarrow>
    ValidatorSet \<Rightarrow> SubnetAssign \<Rightarrow> (Hash32 \<times> ValidatorId \<rightharpoonup> BlsSig) \<Rightarrow> SubnetAggregate option" where
  "try_build_aggregate L target subnet signers vset assign partial_sigs = (let
     n = length (filter (\<lambda>e. index_for L assign (ve_id e) = subnet) (vs_entries vset))
   in if n = 0 then None
      else if card signers < 2 * ((n - 1) div 3) + 1 then None
      else let slots = signer_slots vset signers in
        case all_some (\<lambda>i. partial_sigs (target, ve_id (vs_entries vset ! i))) slots of
          None \<Rightarrow> None
        | Some sigs \<Rightarrow> (case aggregate_sigs L sigs of
            Ok agg \<Rightarrow> Some \<lparr> sa_subnet = subnet, sa_checkpoint_hash = target,
              sa_agg = \<lparr> as_sig = agg, as_bitmap = slots_bitmap (length (vs_entries vset)) slots \<rparr> \<rparr>
          | _ \<Rightarrow> None))"

definition aggregator_for :: "'x crypto_lib \<Rightarrow> SubnetId \<Rightarrow> ValidatorSet \<Rightarrow> SubnetAssign \<Rightarrow>
    ValidatorId option" where
  "aggregator_for L subnet vset assign = (let
     ids = map ve_id (filter (\<lambda>e. index_for L assign (ve_id e) = subnet) (vs_entries vset))
   in case ids of [] \<Rightarrow> None | x # xs \<Rightarrow> Some (fold min xs x))"

definition count_ones :: "bytes \<Rightarrow> nat" where
  "count_ones bs = sum_list (map (\<lambda>w. length (filter (bit w) [0..<8])) bs)"

definition try_finalize_mode_a :: "'x crypto_lib \<Rightarrow> Hash32 \<Rightarrow> (SubnetId, SubnetAggregate) btree \<Rightarrow>
    ValidatorSet \<Rightarrow> (Hash32 \<times> ValidatorId \<rightharpoonup> BlsSig) \<Rightarrow> MacroQc option" where
  "try_finalize_mode_a L target aggs vset partial_sigs = (let n = length (vs_entries vset) in
     if n = 0 then None
     else let
       bitmap = slots_bitmap n (concat (map (\<lambda>agg. filter (bitmap_bit (as_bitmap (sa_agg agg))) [0..<n])
         (bt_values aggs)))
     in if unat (of_nat (count_ones bitmap) :: u32) < 2 * ((n - 1) div 3) + 1 then None
        else case all_some (\<lambda>i. partial_sigs (target, ve_id (vs_entries vset ! i)))
               (filter (bitmap_bit bitmap) [0..<n]) of
          None \<Rightarrow> None
        | Some sigs \<Rightarrow> (case aggregate_sigs L sigs of
            Ok agg \<Rightarrow> Some \<lparr> mq_checkpoint_hash = target, mq_mode = ModeASubnet,
              mq_agg = \<lparr> as_sig = agg, as_bitmap = bitmap \<rparr> \<rparr>
          | _ \<Rightarrow> None))"

text \<open>\<open>Vec<u8>\<close> comparison is lexicographic; \<open>max_by\<close> keeps the last of the greatest elements.\<close>

fun bytes_cmp :: "bytes \<Rightarrow> bytes \<Rightarrow> Ordering" where
  "bytes_cmp [] [] = Equal"
| "bytes_cmp [] (y # ys) = Less"
| "bytes_cmp (x # xs) [] = Greater"
| "bytes_cmp (x # xs) (y # ys) = (if x < y then Less else if y < x then Greater else bytes_cmp xs ys)"

definition signed_stake_from_bitmap :: "bytes \<Rightarrow> u64" where
  "signed_stake_from_bitmap bitmap = ucast (of_nat (count_ones bitmap) :: u32)"

definition canonical_cmp :: "MacroQc \<Rightarrow> MacroQc \<Rightarrow> Ordering" where
  "canonical_cmp a b = (let
     sa = signed_stake_from_bitmap (as_bitmap (mq_agg a));
     sb = signed_stake_from_bitmap (as_bitmap (mq_agg b))
   in if sa < sb then Less else if sb < sa then Greater
      else bytes_cmp (as_bitmap (mq_agg b)) (as_bitmap (mq_agg a)))"

definition pick_canonical :: "MacroQc list \<Rightarrow> MacroQc option" where
  "pick_canonical candidates = (case candidates of [] \<Rightarrow> None | q # qs \<Rightarrow>
     Some (fold (\<lambda>x best. if canonical_cmp best x = Greater then best else x) qs q))"

end
