(* ===== verification/Macro_Fin.thy ===== *)
theory Macro_Fin
  imports Macro_State
begin

text \<open>
  Macro finality (\<open>consensus/src/macro_fin/mod.rs\<close>): the per-validator macro book and the handlers
  that build candidates from local micro certificates, vote on proposals, assemble and adopt macro
  quorum certificates, and react to macro timers.
\<close>

section \<open>The macro book\<close>

text \<open>
  \<open>BTreeSet\<close>s of signers are sets; the one loop over them runs in ascending order. The aggregates of a
  checkpoint are iterated, in an order that does not matter, and are an ordered map.
\<close>

record MacroBook =
  mb_self_id :: ValidatorId
  mb_micro_ring :: "Hash32 list"
  mb_next_height :: Height
  mb_last_macro_hash :: Hash32
  mb_candidate :: "(Height, MacroCheckpoint) btree"
  mb_candidate_beacon :: "(Height, Hash32) btree"
  mb_partials :: "Hash32 \<rightharpoonup> ValidatorId set"
  mb_emitted_macro_qc :: "Hash32 set"
  mb_two_chain :: TwoChainRule
  mb_locks :: LockMacro
  mb_suppressed_conflicts :: u64
  mb_proposal_seen :: "Height set"
  mb_mode_b_active :: "Height set"
  mb_reputation :: "ValidatorId \<rightharpoonup> f64"
  mb_timers :: MacroTimerBook
  mb_subnet_aggs :: "Hash32 \<rightharpoonup> (SubnetId, SubnetAggregate) btree"
  mb_subnet_partials :: "Hash32 \<times> SubnetId \<rightharpoonup> ValidatorId set"
  mb_votes :: VoteBook
  mb_partial_sigs :: "Hash32 \<times> ValidatorId \<rightharpoonup> BlsSig"
  mb_proposals_seen :: "Height \<times> ValidatorId \<rightharpoonup> MacroProposal list"
  mb_rejected_crypto :: u64
  mb_unfinalized_windows :: u32
  mb_leak_notified :: bool

definition macro_book_new :: "ValidatorId \<Rightarrow> MacroBook" where
  "macro_book_new self_id = \<lparr>
     mb_self_id = self_id,
     mb_micro_ring = [],
     mb_next_height = 0,
     mb_last_macro_hash = hash_zero,
     mb_candidate = bt_empty,
     mb_candidate_beacon = bt_empty,
     mb_partials = Map.empty,
     mb_emitted_macro_qc = {},
     mb_two_chain = two_chain_default,
     mb_locks = lock_macro_new,
     mb_suppressed_conflicts = 0,
     mb_proposal_seen = {},
     mb_mode_b_active = {},
     mb_reputation = Map.empty,
     mb_timers = macro_timers_new,
     mb_subnet_aggs = Map.empty,
     mb_subnet_partials = Map.empty,
     mb_votes = vote_book_new,
     mb_partial_sigs = Map.empty,
     mb_proposals_seen = Map.empty,
     mb_rejected_crypto = 0,
     mb_unfinalized_windows = 0,
     mb_leak_notified = False \<rparr>"

definition macro_reject :: "MacroBook \<Rightarrow> MacroBook" where
  "macro_reject book = book\<lparr>mb_rejected_crypto := mb_rejected_crypto book + 1\<rparr>"

section \<open>Helpers\<close>

definition macro_set :: "'s HostContext \<Rightarrow> (Error, ValidatorSet) outcome" where
  "macro_set ctx = bind_out (valset_set_for ctx 0)
     (ok_or (InvalidConfig ''no validator set for epoch 0''))"

definition validator_count :: "ValidatorSet \<Rightarrow> (Error, u32) outcome" where
  "validator_count vset = (case u32_try_from (length (vs_entries vset)) of
     None \<Rightarrow> Panic ''validator count fits u32'' | Some n \<Rightarrow> Ok n)"

definition active_mode :: "MacroBook \<Rightarrow> Config \<Rightarrow> ValidatorSet \<Rightarrow> Height \<Rightarrow>
    (Error, AggregationMode) outcome" where
  "active_mode book cfg vset height =
     (if height \<in> mb_mode_b_active book then Ok ModeBLeaderless
      else bind_out (validator_count vset) (\<lambda>n_e.
        Ok (if mode_a_active (compute_ke cfg n_e) then ModeASubnet else Mode0Flat)))"

definition beacon_for_height :: "MacroBook \<Rightarrow> 's HostContext \<Rightarrow> Height \<Rightarrow> (Error, Hash32) outcome" where
  "beacon_for_height book ctx height = (case bt_get (mb_candidate_beacon book) height of
     Some b \<Rightarrow> Ok b | None \<Rightarrow> beacon_current ctx)"

definition subnet_assign :: "Config \<Rightarrow> ValidatorSet \<Rightarrow> Hash32 \<Rightarrow> (Error, SubnetAssign) outcome" where
  "subnet_assign cfg vset beacon = bind_out (validator_count vset) (\<lambda>n_e.
     Ok \<lparr> sn_k_e = compute_ke cfg n_e, sn_r_macro = beacon \<rparr>)"

definition should_assemble_qc :: "MacroBook \<Rightarrow> ValidatorId set \<Rightarrow> bool" where
  "should_assemble_qc book signers \<longleftrightarrow>
     mb_self_id book \<in> signers \<and> (\<forall>v \<in> signers. mb_self_id book \<le> v)"

definition signers_of :: "MacroBook \<Rightarrow> Hash32 \<Rightarrow> ValidatorId set" where
  "signers_of book h = (case mb_partials book h of None \<Rightarrow> {} | Some s \<Rightarrow> s)"

definition add_signer :: "Hash32 \<Rightarrow> ValidatorId \<Rightarrow> MacroBook \<Rightarrow> MacroBook" where
  "add_signer h v book = book\<lparr>mb_partials := (mb_partials book)(h \<mapsto> insert v (signers_of book h))\<rparr>"

definition candidate_height :: "MacroBook \<Rightarrow> Hash32 \<Rightarrow> Height option" where
  "candidate_height book h = map_option fst (find (\<lambda>(_, c). mc_hash c = h) (mb_candidate book))"

fun bump_each :: "Config \<Rightarrow> ValidatorId list \<Rightarrow> MacroBook \<Rightarrow> (Error, unit) outcome \<times> MacroBook" where
  "bump_each cfg [] book = (Ok (), book)"
| "bump_each cfg (v # vs) book = (let
     entry = (case mb_reputation book v of None \<Rightarrow> reputation_neutral | Some r \<Rightarrow> r);
     book1 = book\<lparr>mb_reputation := (mb_reputation book)(v \<mapsto> entry)\<rparr>
   in call (reputation_updated entry cfg (Fin 1)) book1 (\<lambda>r.
        bump_each cfg vs (book\<lparr>mb_reputation := (mb_reputation book)(v \<mapsto> r)\<rparr>)))"

definition bump_reputation :: "Config \<Rightarrow> ValidatorId set \<Rightarrow> MacroBook \<Rightarrow>
    (Error, unit) outcome \<times> MacroBook" where
  "bump_reputation cfg signers book = bump_each cfg (sorted_list_of_set signers) book"

definition note_inactivity_leak_on_adoption :: "Config \<Rightarrow> bool \<Rightarrow> Actions \<Rightarrow> MacroBook \<Rightarrow>
    Actions \<times> MacroBook" where
  "note_inactivity_leak_on_adoption cfg finalized_this_step actions book =
     (if finalized_this_step then
        (actions, book\<lparr>mb_unfinalized_windows := 0, mb_leak_notified := False\<rparr>)
      else let
        windows = sat_add (mb_unfinalized_windows book) 1;
        (bps, apply_leak) = leak_compute cfg windows;
        book1 = book\<lparr>mb_unfinalized_windows := windows\<rparr>
      in if apply_leak \<and> \<not> mb_leak_notified book then
           (actions @ [NotifyInactivityLeak windows bps], book1\<lparr>mb_leak_notified := True\<rparr>)
         else (actions, book1))"

section \<open>Adopting a certificate\<close>

text \<open>The bookkeeping both adoption paths share, up to the reputation update.\<close>

definition record_adoption :: "Height \<Rightarrow> MacroCheckpoint \<Rightarrow> MacroQc \<Rightarrow> MacroBook \<Rightarrow> MacroBook" where
  "record_adoption height candidate qc book = book\<lparr>
     mb_emitted_macro_qc := insert (mq_checkpoint_hash qc) (mb_emitted_macro_qc book),
     mb_two_chain := adopt candidate (mb_two_chain book),
     mb_last_macro_hash := mc_hash candidate,
     mb_next_height := height + 1,
     mb_proposal_seen := insert height (mb_proposal_seen book),
     mb_timers := clear_mode_b height (clear_backup height (mb_timers book))\<rparr>"

text \<open>The inactivity leak and the two-chain rule, after the checkpoint is adopted.\<close>

definition settle_finality :: "Config \<Rightarrow> Actions \<Rightarrow> MacroBook \<Rightarrow> Actions \<times> MacroBook" where
  "settle_finality cfg actions book = (let
     newly = newly_finalized_height (mb_two_chain book);
     (actions1, book1) = note_inactivity_leak_on_adoption cfg (newly \<noteq> None) actions book
   in case newly of
        None \<Rightarrow> (actions1, book1)
      | Some prev \<Rightarrow>
          ((case bt_get (mb_candidate book1) prev of
              None \<Rightarrow> actions1
            | Some prev_cp \<Rightarrow> actions1 @ [UpdateBlobStatus (blob_id_of_checkpoint prev_cp) Finalized]),
           book1\<lparr>mb_two_chain := mark_finalized prev (mb_two_chain book1)\<rparr>))"

definition finish_macro_qc_adoption :: "Config \<Rightarrow> Height \<Rightarrow> MacroCheckpoint \<Rightarrow> MacroQc \<Rightarrow>
    ValidatorId set \<Rightarrow> MacroBook \<Rightarrow> (Error, Actions) outcome \<times> MacroBook" where
  "finish_macro_qc_adoption cfg height candidate qc signers book =
     bind_st (bump_reputation cfg signers (record_adoption height candidate qc book)) (\<lambda>_ book1.
       case settle_finality cfg
         [BroadcastMacroQc qc, PersistMacroCheckpoint candidate, PersistMacroQc qc,
          UpdateBlobStatus (blob_id_of_checkpoint candidate) Justified] book1 of
       (actions, book2) \<Rightarrow> (Ok actions, book2))"

definition probe_step :: "'x crypto_lib \<Rightarrow> Config \<Rightarrow> nat \<Rightarrow> Actions \<times> MacroBook \<Rightarrow> Actions \<times> MacroBook" where
  "probe_step L cfg i s = (let
     (actions, book) = s;
     parent = (if i = 0 then hash_zero else word_of_be (replicate 32 153));
     cp = build_checkpoint L (of_nat i) 0 parent (word_of_be (replicate 32 (of_nat i + 1)));
     book1 = book\<lparr>mb_candidate := bt_insert (of_nat i) cp (mb_candidate book),
                  mb_two_chain := adopt cp (mb_two_chain book)\<rparr>;
     newly = newly_finalized_height (mb_two_chain book1);
     (actions2, book2) = note_inactivity_leak_on_adoption cfg (newly \<noteq> None) actions book1
   in (actions2, case newly of None \<Rightarrow> book2
        | Some prev \<Rightarrow> book2\<lparr>mb_two_chain := mark_finalized prev (mb_two_chain book2)\<rparr>))"

fun is_leak :: "Action \<Rightarrow> bool" where
  "is_leak (NotifyInactivityLeak w b) = True"
| "is_leak _ = False"

definition probe_inactivity_leak_streak :: "'x crypto_lib \<Rightarrow> Config \<Rightarrow> bool" where
  "probe_inactivity_leak_streak L cfg =
     list_ex is_leak (fst (fold (probe_step L cfg) [0, 1, 2, 3] ([], macro_book_new 0)))"

definition try_emit_mode_a_qc :: "'x crypto_lib \<Rightarrow> Config \<Rightarrow> Hash32 \<Rightarrow> Height \<Rightarrow> 's HostContext \<Rightarrow>
    MacroBook \<Rightarrow> (Error, Actions) outcome \<times> MacroBook" where
  "try_emit_mode_a_qc L cfg checkpoint_hash height ctx book =
     call (macro_set ctx) book (\<lambda>vset.
     if height \<in> mb_mode_b_active book then (Ok [], book)
     else call (beacon_for_height book ctx height) book (\<lambda>beacon.
     call (vrf_sortition L beacon vset height (mb_reputation book)) book (\<lambda>schedule.
     if mb_self_id book \<noteq> ps_primary schedule then (Ok [], book)
     else let aggs = (case mb_subnet_aggs book checkpoint_hash of None \<Rightarrow> bt_empty | Some m \<Rightarrow> m) in
       case try_finalize_mode_a L checkpoint_hash aggs vset (mb_partial_sigs book) of
         None \<Rightarrow> (Ok [], book)
       | Some qc \<Rightarrow>
           if checkpoint_hash \<in> mb_emitted_macro_qc book then (Ok [], book)
           else (case bt_get (mb_candidate book) height of
             None \<Rightarrow> (Panic ''candidate for subnet finalize'', book)
           | Some candidate \<Rightarrow> finish_macro_qc_adoption cfg height candidate qc
               (signers_of book checkpoint_hash) book))))"

section \<open>Candidates from local micro certificates\<close>

definition micro_qc_hash_of :: "Action \<Rightarrow> Hash32 option" where
  "micro_qc_hash_of a = (case a of BroadcastMicroQc qc \<Rightarrow> Some (uq_checkpoint_hash qc) | _ \<Rightarrow> None)"

text \<open>The own proposal for a candidate, as the primary and the backup build it.\<close>

definition sign_macro_proposal :: "'s HostContext \<Rightarrow> Hash32 \<Rightarrow> Height \<Rightarrow> ValidatorId \<Rightarrow>
    MacroCheckpoint \<Rightarrow> (Error, MacroProposal) outcome" where
  "sign_macro_proposal ctx beacon height self_id candidate =
     bind_out (signer_vrf_prove ctx (vrf_alpha beacon height self_id)) (\<lambda>(vrf_proof, _).
       Ok \<lparr> mp_checkpoint = candidate, mp_proposer = self_id, mp_vrf_proof = vrf_proof,
            mp_proposer_sig = signer_sign_bls ctx DST_MACRO_PROPOSER_SIG
              (proposer_message self_id candidate) \<rparr>)"

text \<open>What the primary and the backup of a candidate do.\<close>

definition propose_candidate :: "Config \<Rightarrow> 's HostContext \<Rightarrow> Hash32 \<Rightarrow> Height \<Rightarrow> MacroCheckpoint \<Rightarrow>
    ProposerSchedule \<Rightarrow> Actions \<Rightarrow> MacroBook \<Rightarrow> (Error, Actions) outcome \<times> MacroBook" where
  "propose_candidate cfg ctx beacon height candidate schedule actions book =
     (if ps_primary schedule = mb_self_id book then
        call (sign_macro_proposal ctx beacon height (mb_self_id book) candidate) book (\<lambda>p.
          (Ok (actions @ [BroadcastMacroProposal p]),
           book\<lparr>mb_proposal_seen := insert height (mb_proposal_seen book)\<rparr>))
      else if ps_backup schedule = mb_self_id book then
        (case backup_propose_action cfg height (mb_timers book) of (a, timers) \<Rightarrow>
          (Ok (actions @ [a]), book\<lparr>mb_timers := timers\<rparr>))
      else (Ok actions, book))"

definition push_micro_hash :: "'x crypto_lib \<Rightarrow> Config \<Rightarrow> 's HostContext \<Rightarrow> ValidatorSet \<Rightarrow> Hash32 \<Rightarrow>
    Actions \<Rightarrow> MacroBook \<Rightarrow> (Error, Actions) outcome \<times> MacroBook" where
  "push_micro_hash L cfg ctx vset h actions book0 = (let
     book = book0\<lparr>mb_micro_ring := mb_micro_ring book0 @ [h]\<rparr>
   in if length (mb_micro_ring book) < unat (macro_window_w (cfg_macro_fin cfg)) then (Ok actions, book)
      else let
        height = mb_next_height book;
        candidate = build_checkpoint L height 0 (mb_last_macro_hash book)
          (micro_root_of_ring L (mb_micro_ring book));
        book1 = book\<lparr>mb_micro_ring := [], mb_candidate := bt_insert height candidate (mb_candidate book)\<rparr>
      in call (beacon_current ctx) book1 (\<lambda>beacon. let
           book2 = book1\<lparr>mb_candidate_beacon := bt_insert height beacon (mb_candidate_beacon book1)\<rparr>
         in call (vrf_sortition L beacon vset height (mb_reputation book2)) book2 (\<lambda>schedule.
           bind_st (propose_candidate cfg ctx beacon height candidate schedule actions book2) (\<lambda>actions2 book3.
             if sim_force_ke (cfg_aggregation cfg) = None then
               (case mode_b_deadline_action cfg height (mb_timers book3) of (a, timers) \<Rightarrow>
                 (Ok (actions2 @ [a]), book3\<lparr>mb_timers := timers\<rparr>))
             else (Ok actions2, book3)))))"

fun push_micro_hashes :: "'x crypto_lib \<Rightarrow> Config \<Rightarrow> 's HostContext \<Rightarrow> ValidatorSet \<Rightarrow> Hash32 list \<Rightarrow>
    Actions \<Rightarrow> MacroBook \<Rightarrow> (Error, Actions) outcome \<times> MacroBook" where
  "push_micro_hashes L cfg ctx vset [] actions book = (Ok actions, book)"
| "push_micro_hashes L cfg ctx vset (h # hs) actions book =
     bind_st (push_micro_hash L cfg ctx vset h actions book) (\<lambda>actions' book'.
       push_micro_hashes L cfg ctx vset hs actions' book')"

definition on_local_micro_qcs :: "'x crypto_lib \<Rightarrow> Config \<Rightarrow> 's HostContext \<Rightarrow> Actions \<Rightarrow>
    MacroBook \<Rightarrow> (Error, Actions) outcome \<times> MacroBook" where
  "on_local_micro_qcs L cfg ctx actions book = (let
     new_hashes = List.map_filter micro_qc_hash_of actions
   in if new_hashes = [] then (Ok actions, book)
      else call (macro_set ctx) book (\<lambda>vset.
        push_micro_hashes L cfg ctx vset new_hashes actions book))"

section \<open>Proposals\<close>

definition own_vote :: "'x crypto_lib \<Rightarrow> 's HostContext \<Rightarrow> Height \<Rightarrow> Hash32 \<Rightarrow> VoteRecord" where
  "own_vote L ctx height h = (let
     unsigned = \<lparr> vr_source = sat_sub height 1, vr_target = height, vr_checkpoint = h, vr_sig = 0 \<rparr>
   in unsigned\<lparr>vr_sig := signer_sign_bls ctx DST_MACRO_VOTE (vote_message L unsigned)\<rparr>)"

definition self_scan :: "VoteBook \<Rightarrow> ValidatorId \<Rightarrow> Actions" where
  "self_scan votes self_id =
     (case scan_for_surround votes self_id of None \<Rightarrow> []
        | Some ev \<Rightarrow> [EmitSlashEvidence self_id (EvSurround ev)]) @
     (case scan_for_double_vote votes self_id of None \<Rightarrow> []
        | Some ev \<Rightarrow> [EmitSlashEvidence self_id (EvDoubleVote ev)])"

text \<open>The vote on an accepted proposal: from the successful lock to the end of the handler.\<close>

definition vote_on_checkpoint :: "'x crypto_lib \<Rightarrow> Config \<Rightarrow> 's HostContext \<Rightarrow> ValidatorSet \<Rightarrow> Hash32 \<Rightarrow>
    AggregationMode \<Rightarrow> MacroCheckpoint \<Rightarrow> MacroBook \<Rightarrow> (Error, Actions) outcome \<times> MacroBook" where
  "vote_on_checkpoint L cfg ctx vset beacon mode cp book0 = (let
     height = mc_height cp;
     self_id = mb_self_id book0;
     book1 = book0\<lparr>
       mb_proposal_seen := insert height (mb_proposal_seen book0),
       mb_timers := clear_backup height (mb_timers book0),
       mb_two_chain := adopt cp (mb_two_chain book0),
       mb_candidate := bt_insert height cp (mb_candidate book0)\<rparr>;
     book2 = add_signer (mc_hash cp) self_id book1;
     book3 = book2\<lparr>mb_votes := record_vote self_id (own_vote L ctx height (mc_hash cp)) (mb_votes book2)\<rparr>;
     evidence = self_scan (mb_votes book3) self_id
   in call (subnet_assign cfg vset beacon) book3 (\<lambda>assign. let
        subnet = index_for L assign self_id;
        sig = signer_sign_bls ctx DST_MACRO_CHECKPOINT (checkpoint_message L cp);
        book4 = book3\<lparr>mb_partial_sigs := (mb_partial_sigs book3)((mc_hash cp, self_id) \<mapsto> sig)\<rparr>;
        actions = evidence @
          [BroadcastBlsPartial \<lparr> bp_subnet = (if mode = ModeASubnet then subnet else 0),
             bp_validator = self_id, bp_checkpoint_hash = mc_hash cp, bp_sig = sig \<rparr>,
           UpdateBlobStatus (blob_id_of_checkpoint cp) SoftConfirmed]
      in if mode = ModeASubnet then let
           signers = insert self_id (case mb_subnet_partials book4 (mc_hash cp, subnet) of
             None \<Rightarrow> {} | Some s \<Rightarrow> s);
           book5 = book4\<lparr>mb_subnet_partials :=
             (mb_subnet_partials book4)((mc_hash cp, subnet) \<mapsto> signers)\<rparr>
         in (Ok (actions @ (case try_build_aggregate L (mc_hash cp) subnet signers vset assign
                 (mb_partial_sigs book5) of
               None \<Rightarrow> []
             | Some agg \<Rightarrow> if aggregator_for L subnet vset assign = Some self_id
                 then [BroadcastSubnetAggregate agg] else [])), book5)
         else (Ok actions, book4)))"

definition on_macro_proposal :: "'x crypto_lib \<Rightarrow> Config \<Rightarrow> MacroProposal \<Rightarrow> 's HostContext \<Rightarrow>
    MacroBook \<Rightarrow> (Error, Actions) outcome \<times> MacroBook" where
  "on_macro_proposal L cfg p ctx book0 =
     call (macro_set ctx) book0 (\<lambda>vset. let
       cp = mp_checkpoint p;
       height = mc_height cp
     in bind_st (if bt_get (mb_candidate_beacon book0) height = None
                 then call (beacon_current ctx) book0 (\<lambda>b.
                   (Ok (), book0\<lparr>mb_candidate_beacon := bt_insert height b (mb_candidate_beacon book0)\<rparr>))
                 else (Ok (), book0)) (\<lambda>_ book.
     call (beacon_for_height book ctx height) book (\<lambda>beacon.
     if \<not> macro_verify_proposal L vset p (vrf_alpha beacon height (mp_proposer p)) then
       (Ok [], macro_reject book)
     else let
       key = (height, mp_proposer p);
       existing = (case mb_proposals_seen book key of None \<Rightarrow> [] | Some ps \<Rightarrow> ps)
     in if list_ex (\<lambda>prev. mc_hash (mp_checkpoint prev) \<noteq> mc_hash cp) existing then
          (Ok [EmitSlashEvidence (mp_proposer p) (EvMacroEquivocation
             (detect_macro_equivocation (mp_proposer p) (existing ! 0) p))], book)
        else if list_ex (\<lambda>prev. mc_hash (mp_checkpoint prev) = mc_hash cp) existing then (Ok [], book)
        else let
          book1 = book\<lparr>mb_proposals_seen := (mb_proposals_seen book)(key \<mapsto> existing @ [p])\<rparr>
        in call (vrf_sortition L beacon vset height (mb_reputation book1)) book1 (\<lambda>schedule.
           call (active_mode book1 cfg vset height) book1 (\<lambda>mode.
           if mode \<noteq> ModeBLeaderless \<and> mp_proposer p \<noteq> ps_primary schedule
              \<and> mp_proposer p \<noteq> ps_backup schedule then (Ok [], book1)
           else if mc_parent cp \<noteq> mb_last_macro_hash book1 then (Ok [], book1)
           else (case bt_get (mb_candidate book1) height of
             None \<Rightarrow> (Ok [], book1)
           | Some c \<Rightarrow>
               if mc_micro_root c \<noteq> mc_micro_root cp \<or> mc_hash c \<noteq> mc_hash cp then (Ok [], book1)
               else (case try_lock (mb_self_id book1) height (mc_hash cp) (mb_locks book1) of
                 (Ok _, locks) \<Rightarrow> vote_on_checkpoint L cfg ctx vset beacon mode cp (book1\<lparr>mb_locks := locks\<rparr>)
               | (_, locks) \<Rightarrow> (Ok [], book1\<lparr>mb_locks := locks,
                   mb_suppressed_conflicts := sat_add (mb_suppressed_conflicts book1) 1\<rparr>))))))))"

section \<open>Partial signatures\<close>

definition collect_subnet_partial :: "'x crypto_lib \<Rightarrow> Config \<Rightarrow> BlsPartial \<Rightarrow> 's HostContext \<Rightarrow>
    ValidatorSet \<Rightarrow> Hash32 \<Rightarrow> SubnetAssign \<Rightarrow> Height \<Rightarrow> MacroBook \<Rightarrow>
    (Error, Actions) outcome \<times> MacroBook" where
  "collect_subnet_partial L cfg bp ctx vset beacon assign height book = (let
     h = bp_checkpoint_hash bp;
     subnet = bp_subnet bp;
     signers = insert (bp_validator bp) (case mb_subnet_partials book (h, subnet) of
       None \<Rightarrow> {} | Some s \<Rightarrow> s);
     book1 = add_signer h (bp_validator bp)
       (book\<lparr>mb_subnet_partials := (mb_subnet_partials book)((h, subnet) \<mapsto> signers)\<rparr>);
     actions = (case try_build_aggregate L h subnet signers vset assign (mb_partial_sigs book1) of
         None \<Rightarrow> []
       | Some agg \<Rightarrow> if aggregator_for L subnet vset assign = Some (mb_self_id book1)
           then [BroadcastSubnetAggregate agg] else [])
   in call (vrf_sortition L beacon vset height (mb_reputation book1)) book1 (\<lambda>schedule.
      if mb_self_id book1 = ps_primary schedule then
        bind_st (try_emit_mode_a_qc L cfg h height ctx book1) (\<lambda>extra book2.
          (Ok (actions @ extra), book2))
      else (Ok actions, book1)))"

definition collect_flat_partial :: "'x crypto_lib \<Rightarrow> Config \<Rightarrow> BlsPartial \<Rightarrow> ValidatorSet \<Rightarrow>
    AggregationMode \<Rightarrow> Height \<Rightarrow> MacroCheckpoint \<Rightarrow> MacroBook \<Rightarrow>
    (Error, Actions) outcome \<times> MacroBook" where
  "collect_flat_partial L cfg bp vset mode height candidate book =
     (if mode = Mode0Flat \<and> bp_subnet bp \<noteq> 0 then (Ok [], book)
      else let
        h = bp_checkpoint_hash bp;
        book1 = add_signer h (bp_validator bp) book;
        signers = signers_of book1 h
      in if \<not> should_assemble_qc book1 signers then (Ok [], book1)
         else case (if mode = ModeBLeaderless
                    then try_finalize_mode_b L h signers (mb_partial_sigs book1) vset
                    else try_finalize_mode0 L h signers (mb_partial_sigs book1) vset) of
           None \<Rightarrow> (Ok [], book1)
         | Some qc \<Rightarrow> finish_macro_qc_adoption cfg height candidate qc signers book1)"

definition on_bls_partial :: "'x crypto_lib \<Rightarrow> Config \<Rightarrow> BlsPartial \<Rightarrow> 's HostContext \<Rightarrow>
    MacroBook \<Rightarrow> (Error, Actions) outcome \<times> MacroBook" where
  "on_bls_partial L cfg bp ctx book =
     (case candidate_height book (bp_checkpoint_hash bp) of
        None \<Rightarrow> (Ok [], book)
      | Some height \<Rightarrow>
          call (macro_set ctx) book (\<lambda>vset.
          case bt_get (mb_candidate book) height of
            None \<Rightarrow> (Panic ''checkpoint for partial'', book)
          | Some checkpoint \<Rightarrow>
              if \<not> macro_verify_partial L vset bp checkpoint then (Ok [], macro_reject book)
              else let
                book1 = book\<lparr>mb_partial_sigs := (mb_partial_sigs book)
                  ((bp_checkpoint_hash bp, bp_validator bp) \<mapsto> bp_sig bp)\<rparr>
              in if bp_checkpoint_hash bp \<in> mb_emitted_macro_qc book1 then (Ok [], book1)
                 else call (active_mode book1 cfg vset height) book1 (\<lambda>mode.
                   call (beacon_for_height book1 ctx height) book1 (\<lambda>beacon.
                   call (subnet_assign cfg vset beacon) book1 (\<lambda>assign.
                   if mode = ModeASubnet
                   then collect_subnet_partial L cfg bp ctx vset beacon assign height book1
                   else collect_flat_partial L cfg bp vset mode height checkpoint book1)))))"

section \<open>Received certificates and aggregates\<close>

definition on_macro_qc_received :: "'x crypto_lib \<Rightarrow> Config \<Rightarrow> MacroQc \<Rightarrow> 's HostContext \<Rightarrow>
    MacroBook \<Rightarrow> (Error, Actions) outcome \<times> MacroBook" where
  "on_macro_qc_received L cfg qc ctx book =
     (if mq_checkpoint_hash qc \<in> mb_emitted_macro_qc book then (Ok [], book)
      else call (macro_set ctx) book (\<lambda>vset. let
        signers = signers_of book (mq_checkpoint_hash qc)
      in case candidate_height book (mq_checkpoint_hash qc) of
           None \<Rightarrow> (Ok [], book)
         | Some height \<Rightarrow>
             (case bt_get (mb_candidate book) height of
                None \<Rightarrow> (Panic ''candidate present at height'', book)
              | Some candidate \<Rightarrow>
                  if \<not> verify_macro_qc L vset qc candidate then (Ok [], macro_reject book)
                  else bind_st (bump_reputation cfg signers (record_adoption height candidate qc book)) (\<lambda>_ book1.
                    case settle_finality cfg
                      [PersistMacroCheckpoint candidate, PersistMacroQc qc,
                       UpdateBlobStatus (blob_id_of_checkpoint candidate) Justified] book1 of
                    (actions, book2) \<Rightarrow> (Ok actions, book2)))))"

definition on_subnet_aggregate :: "'x crypto_lib \<Rightarrow> Config \<Rightarrow> SubnetAggregate \<Rightarrow> 's HostContext \<Rightarrow>
    MacroBook \<Rightarrow> (Error, Actions) outcome \<times> MacroBook" where
  "on_subnet_aggregate L cfg agg ctx book = (let h = sa_checkpoint_hash agg in
     case candidate_height book h of
       None \<Rightarrow> (Ok [], book)
     | Some height \<Rightarrow>
         call (macro_set ctx) book (\<lambda>vset.
         case find (\<lambda>c. mc_hash c = h) (bt_values (mb_candidate book)) of
           None \<Rightarrow> (Panic ''checkpoint for aggregate'', book)
         | Some checkpoint \<Rightarrow>
             if \<not> verify_subnet_agg L vset agg checkpoint (mb_partial_sigs book)
             then (Ok [], macro_reject book)
             else try_emit_mode_a_qc L cfg h height ctx
               (book\<lparr>mb_subnet_aggs := (mb_subnet_aggs book)(h \<mapsto>
                  bt_insert (sa_subnet agg) agg (case mb_subnet_aggs book h of
                    None \<Rightarrow> bt_empty | Some m \<Rightarrow> m))\<rparr>)))"

section \<open>Timers\<close>

definition on_backup_timer :: "'x crypto_lib \<Rightarrow> 's HostContext \<Rightarrow> Height \<Rightarrow> Actions \<Rightarrow> MacroBook \<Rightarrow>
    (Error, Actions) outcome \<times> MacroBook" where
  "on_backup_timer L ctx height actions book0 = (let
     book = book0\<lparr>mb_timers := clear_backup height (mb_timers book0)\<rparr>
   in if height \<in> mb_proposal_seen book then (Ok actions, book)
      else case bt_get (mb_candidate book) height of
        None \<Rightarrow> (Ok actions, book)
      | Some candidate \<Rightarrow>
          call (macro_set ctx) book (\<lambda>vset.
          call (beacon_for_height book ctx height) book (\<lambda>beacon.
          call (vrf_sortition L beacon vset height (mb_reputation book)) book (\<lambda>schedule.
          if ps_backup schedule = mb_self_id book then
            call (sign_macro_proposal ctx beacon height (mb_self_id book) candidate) book (\<lambda>p.
              (Ok (actions @ [BroadcastMacroProposal p]),
               book\<lparr>mb_proposal_seen := insert height (mb_proposal_seen book)\<rparr>))
          else (Ok actions, book)))))"

text \<open>The leaderless partial signature over the own candidate, if the lock allows it.\<close>

definition mode_b_sign :: "'x crypto_lib \<Rightarrow> Config \<Rightarrow> 's HostContext \<Rightarrow> Height \<Rightarrow> MacroCheckpoint \<Rightarrow>
    Actions \<Rightarrow> MacroBook \<Rightarrow> (Error, Actions) outcome \<times> MacroBook" where
  "mode_b_sign L cfg ctx height cp actions book = (let self_id = mb_self_id book in
     case try_lock self_id height (mc_hash cp) (mb_locks book) of
       (Ok _, locks) \<Rightarrow> (let bookL = book\<lparr>mb_locks := locks\<rparr> in
         call (macro_set ctx) bookL (\<lambda>vset.
         call (beacon_for_height bookL ctx height) bookL (\<lambda>beacon.
         call (subnet_assign cfg vset beacon) bookL (\<lambda>assign. let
           sig = signer_sign_bls ctx DST_MACRO_CHECKPOINT (checkpoint_message L cp);
           bookP = add_signer (mc_hash cp) self_id bookL;
           bookS = bookP\<lparr>mb_partial_sigs :=
             (mb_partial_sigs bookP)((mc_hash cp, self_id) \<mapsto> sig)\<rparr>
         in call (active_mode bookS cfg vset height) bookS (\<lambda>mode.
           (Ok (actions @ [BroadcastBlsPartial \<lparr>
              bp_subnet = (if mode = ModeASubnet then index_for L assign self_id else 0),
              bp_validator = self_id, bp_checkpoint_hash = mc_hash cp, bp_sig = sig \<rparr>]),
            bookS))))))
     | (_, locks) \<Rightarrow> (Ok actions, book\<lparr>mb_locks := locks\<rparr>))"

definition on_mode_b_timer :: "'x crypto_lib \<Rightarrow> Config \<Rightarrow> 's HostContext \<Rightarrow> Height \<Rightarrow> Actions \<Rightarrow>
    MacroBook \<Rightarrow> (Error, Actions) outcome \<times> MacroBook" where
  "on_mode_b_timer L cfg ctx height actions book0 = (let
     book1 = book0\<lparr>mb_timers := clear_mode_b height (mb_timers book0)\<rparr>;
     already_finalized = (case bt_get (mb_candidate book1) height of
       None \<Rightarrow> False | Some c \<Rightarrow> mc_hash c \<in> mb_emitted_macro_qc book1);
     book = (if already_finalized then book1
             else book1\<lparr>mb_mode_b_active := insert height (mb_mode_b_active book1)\<rparr>)
   in if height \<notin> mb_mode_b_active book then (Ok actions, book)
      else case bt_get (mb_candidate book) height of
        None \<Rightarrow> (Ok actions, book)
      | Some cp \<Rightarrow> mode_b_sign L cfg ctx height cp actions book)"

definition macro_on_timer_fired :: "'x crypto_lib \<Rightarrow> Config \<Rightarrow> 's HostContext \<Rightarrow> TimerId \<Rightarrow> Actions \<Rightarrow>
    MacroBook \<Rightarrow> (Error, Actions) outcome \<times> MacroBook" where
  "macro_on_timer_fired L cfg ctx tid actions book =
     (case height_for_backup_timer tid (mb_timers book) of
        Some height \<Rightarrow> on_backup_timer L ctx height actions book
      | None \<Rightarrow>
          (case height_for_mode_b_timer tid (mb_timers book) of
             Some height \<Rightarrow> on_mode_b_timer L cfg ctx height actions book
           | None \<Rightarrow> (Ok actions, book)))"

end
