(* ===== verification/State_Machine.thy ===== *)
theory State_Machine
  imports Vertex_Cert Macro_Fin
begin

text \<open>
  The deterministic state machine (\<open>consensus/src/state_machine.rs\<close>): one book per layer, one event
  at a time. An event that several layers handle runs them in order; a layer that fails keeps its
  changes and stops the layers after it, and the actions collected so far are dropped.
\<close>

section \<open>State\<close>

record StateMachine =
  sm_cfg :: Config
  sm_emitted :: EmittedSet
  sm_waves :: WaveBook
  sm_macros :: MacroBook
  sm_vertices :: VertexBook

definition state_machine_new :: "Config \<Rightarrow> ValidatorId \<Rightarrow> StateMachine" where
  "state_machine_new cfg self_id = \<lparr> sm_cfg = cfg, sm_emitted = {}, sm_waves = wave_book_new,
     sm_macros = macro_book_new self_id, sm_vertices = vertex_book_new self_id \<rparr>"

definition current_vertex_round :: "StateMachine \<Rightarrow> u64" where
  "current_vertex_round sm = vb_current_round (sm_vertices sm)"

section \<open>Running one layer\<close>

text \<open>A layer's handler, applied to its part of the machine.\<close>

definition on_vertices :: "(VertexBook \<times> 's \<Rightarrow> (Error, 'a) outcome \<times> (VertexBook \<times> 's)) \<Rightarrow>
    StateMachine \<times> 's \<Rightarrow> (Error, 'a) outcome \<times> (StateMachine \<times> 's)" where
  "on_vertices f st = (case f (sm_vertices (fst st), snd st) of
     (r, (book, hs)) \<Rightarrow> (r, ((fst st)\<lparr>sm_vertices := book\<rparr>, hs)))"

definition on_waves :: "(BullState \<Rightarrow> (Error, 'a) outcome \<times> BullState) \<Rightarrow>
    StateMachine \<times> 's \<Rightarrow> (Error, 'a) outcome \<times> (StateMachine \<times> 's)" where
  "on_waves f st = (case f (sm_emitted (fst st), sm_waves (fst st)) of
     (r, (emitted, waves)) \<Rightarrow> (r, ((fst st)\<lparr>sm_emitted := emitted, sm_waves := waves\<rparr>, snd st)))"

definition on_macros :: "(MacroBook \<Rightarrow> (Error, 'a) outcome \<times> MacroBook) \<Rightarrow>
    StateMachine \<times> 's \<Rightarrow> (Error, 'a) outcome \<times> (StateMachine \<times> 's)" where
  "on_macros f st = (case f (sm_macros (fst st)) of
     (r, book) \<Rightarrow> (r, ((fst st)\<lparr>sm_macros := book\<rparr>, snd st)))"

definition vertex_only :: "(VertexBook \<Rightarrow> (Error, 'a) outcome \<times> VertexBook) \<Rightarrow>
    VertexBook \<times> 's \<Rightarrow> (Error, 'a) outcome \<times> (VertexBook \<times> 's)" where
  "vertex_only f st = (case f (fst st) of (r, book) \<Rightarrow> (r, (book, snd st)))"

section \<open>Steps\<close>

definition sm_genesis_propose :: "nat \<Rightarrow> 'x crypto_lib \<Rightarrow> 's HostContext \<Rightarrow> StateMachine \<times> 's \<Rightarrow>
    (Error, Actions) outcome \<times> (StateMachine \<times> 's)" where
  "sm_genesis_propose depth L ctx st =
     on_vertices (genesis_propose depth L (sm_cfg (fst st)) ctx) st"

fun step :: "nat \<Rightarrow> 'x crypto_lib \<Rightarrow> Event \<Rightarrow> 's HostContext \<Rightarrow> StateMachine \<times> 's \<Rightarrow>
    (Error, Actions) outcome \<times> (StateMachine \<times> 's)" where
  "step depth L (CertifiedVertexReceived cv) ctx st = (let cfg = sm_cfg (fst st) in
     bind_st (on_vertices (on_certified_vertex depth L cfg cv ctx []) st) (\<lambda>actions st1.
     bind_st (on_waves (bull_on_certified_vertex L cfg cv ctx) st1) (\<lambda>bull st2.
     on_macros (on_local_micro_qcs L cfg ctx (actions @ bull)) st2)))"
| "step depth L (MicroQcAssembled qc) ctx st = (bull_on_micro_qc_assembled (sm_emitted (fst st)) qc, st)"
| "step depth L (TimerFired tid) ctx st = (let cfg = sm_cfg (fst st) in
     bind_st (on_waves (bull_on_timer_fired L cfg tid ctx) st) (\<lambda>actions st1.
     bind_st (on_macros (macro_on_timer_fired L cfg ctx tid actions) st1) (\<lambda>actions2 st2.
     on_vertices (vertex_only (vc_on_timer_fired cfg ctx tid actions2)) st2)))"
| "step depth L (MacroProposalReceived p) ctx st =
     on_macros (on_macro_proposal L (sm_cfg (fst st)) p ctx) st"
| "step depth L (BlsPartialReceived bp) ctx st =
     on_macros (on_bls_partial L (sm_cfg (fst st)) bp ctx) st"
| "step depth L (SubnetAggregateReceived a) ctx st =
     on_macros (on_subnet_aggregate L (sm_cfg (fst st)) a ctx) st"
| "step depth L (MacroQcReceived qc) ctx st =
     on_macros (on_macro_qc_received L (sm_cfg (fst st)) qc ctx) st"
| "step depth L (ValidatorSetUpdated e vset) ctx st = (Ok [], st)"
| "step depth L (SlashEvidenceFound ev) ctx st = (Ok [], st)"
| "step depth L (VertexProposalReceived p) ctx st =
     on_vertices (vertex_only (on_vertex_proposal L p ctx)) st"
| "step depth L (VertexPartialReceived bp) ctx st =
     on_vertices (on_vertex_partial depth L (sm_cfg (fst st)) bp ctx) st"

end
