(* ===== verification/Macro_Runs.thy ===== *)
theory Macro_Runs
  imports Macro_Fin
begin

text \<open>
  Runs of macro finality. The inputs of the layer are one datatype, a run is a sequence of inputs
  with every action the validator emitted on the way, and the invariant of a run describes the chain
  of adopted checkpoints: consecutive heights, linked by parent hashes, each adopted once, with the
  candidates, the two-chain rule and the reports of finality in step with it.
\<close>

section \<open>Inputs and runs\<close>

datatype macro_input = MicroCertificates Actions | ProposalIn MacroProposal | PartialIn BlsPartial
  | CertificateIn MacroQc | AggregateIn SubnetAggregate | TimerIn TimerId Actions

fun macro_step :: "'x crypto_lib \<Rightarrow> Config \<Rightarrow> 's HostContext \<Rightarrow> macro_input \<Rightarrow> MacroBook \<Rightarrow>
    (Error, Actions) outcome \<times> MacroBook" where
  "macro_step L cfg ctx (MicroCertificates acts) = on_local_micro_qcs L cfg ctx acts"
| "macro_step L cfg ctx (ProposalIn p) = on_macro_proposal L cfg p ctx"
| "macro_step L cfg ctx (PartialIn bp) = on_bls_partial L cfg bp ctx"
| "macro_step L cfg ctx (CertificateIn qc) = on_macro_qc_received L cfg qc ctx"
| "macro_step L cfg ctx (AggregateIn a) = on_subnet_aggregate L cfg a ctx"
| "macro_step L cfg ctx (TimerIn tid acts) = macro_on_timer_fired L cfg ctx tid acts"

text \<open>The adopted checkpoints, their certificates and the blobs reported final, in the order of the actions.\<close>

fun adopted_by :: "Action \<Rightarrow> MacroCheckpoint option" where
  "adopted_by (PersistMacroCheckpoint cp) = Some cp"
| "adopted_by _ = None"

fun certificate_by :: "Action \<Rightarrow> MacroQc option" where
  "certificate_by (PersistMacroQc qc) = Some qc"
| "certificate_by _ = None"

fun final_report :: "Action \<Rightarrow> BlobId option" where
  "final_report (UpdateBlobStatus b Finalized) = Some b"
| "final_report _ = None"

definition adopted :: "Actions \<Rightarrow> MacroCheckpoint list" where
  "adopted acts = List.map_filter adopted_by acts"

definition certificates :: "Actions \<Rightarrow> MacroQc list" where
  "certificates acts = List.map_filter certificate_by acts"

definition final_blobs :: "Actions \<Rightarrow> BlobId list" where
  "final_blobs acts = List.map_filter final_report acts"

lemma map_filter_append: "List.map_filter f (xs @ ys) = List.map_filter f xs @ List.map_filter f ys"
  by (simp add: List.map_filter_def)

lemma adopted_simps [simp]:
  "adopted [] = []"
  "adopted (a # as) = (case adopted_by a of None \<Rightarrow> adopted as | Some cp \<Rightarrow> cp # adopted as)"
  "adopted (as @ bs) = adopted as @ adopted bs"
  by (simp_all add: adopted_def map_filter_append List.map_filter_def split: option.splits)

lemma certificates_simps [simp]:
  "certificates [] = []"
  "certificates (a # as) = (case certificate_by a of None \<Rightarrow> certificates as | Some qc \<Rightarrow> qc # certificates as)"
  "certificates (as @ bs) = certificates as @ certificates bs"
  by (simp_all add: certificates_def map_filter_append List.map_filter_def split: option.splits)

lemma final_blobs_simps [simp]:
  "final_blobs [] = []"
  "final_blobs (a # as) = (case final_report a of None \<Rightarrow> final_blobs as | Some b \<Rightarrow> b # final_blobs as)"
  "final_blobs (as @ bs) = final_blobs as @ final_blobs bs"
  by (simp_all add: final_blobs_def map_filter_append List.map_filter_def split: option.splits)

text \<open>Actions of the layers below, which macro finality passes on.\<close>

definition quiet :: "Actions \<Rightarrow> bool" where
  "quiet acts \<longleftrightarrow> adopted acts = [] \<and> certificates acts = [] \<and> final_blobs acts = []"

lemma quiet_simps [simp]:
  "quiet []"
  "quiet (a # as) \<longleftrightarrow> adopted_by a = None \<and> certificate_by a = None \<and> final_report a = None \<and> quiet as"
  "quiet (as @ bs) \<longleftrightarrow> quiet as \<and> quiet bs"
  by (auto simp: quiet_def split: option.splits)

fun quiet_input :: "macro_input \<Rightarrow> bool" where
  "quiet_input (MicroCertificates acts) = quiet acts"
| "quiet_input (TimerIn tid acts) = quiet acts"
| "quiet_input _ = True"

text \<open>A panic ends the process, so a run goes on after an error only.\<close>

inductive macro_reach :: "'x crypto_lib \<Rightarrow> Config \<Rightarrow> ValidatorId \<Rightarrow> 's HostContext set \<Rightarrow>
    (MacroBook \<Rightarrow> macro_input \<Rightarrow> bool) \<Rightarrow> Actions \<Rightarrow> MacroBook \<Rightarrow> bool"
  for L :: "'x crypto_lib" and cfg :: Config and me :: ValidatorId and hosts :: "'s HostContext set"
    and ok :: "MacroBook \<Rightarrow> macro_input \<Rightarrow> bool" where
  start: "macro_reach L cfg me hosts ok [] (macro_book_new me)"
| step: "macro_reach L cfg me hosts ok tr book \<Longrightarrow> ctx \<in> hosts \<Longrightarrow> quiet_input inp \<Longrightarrow> ok book inp \<Longrightarrow>
    macro_step L cfg ctx inp book = (Ok acts, book') \<Longrightarrow> macro_reach L cfg me hosts ok (tr @ acts) book'"
| fail: "macro_reach L cfg me hosts ok tr book \<Longrightarrow> ctx \<in> hosts \<Longrightarrow> quiet_input inp \<Longrightarrow> ok book inp \<Longrightarrow>
    macro_step L cfg ctx inp book = (Err e, book') \<Longrightarrow> macro_reach L cfg me hosts ok tr book'"

section \<open>Postconditions of handlers\<close>

text \<open>\<open>Q\<close> holds of the actions and the book of a success, \<open>E\<close> of the book an error leaves.\<close>

definition macro_post :: "('a \<Rightarrow> MacroBook \<Rightarrow> bool) \<Rightarrow> (MacroBook \<Rightarrow> bool) \<Rightarrow>
    (Error, 'a) outcome \<times> MacroBook \<Rightarrow> bool" where
  "macro_post Q E r \<longleftrightarrow> (case r of (Ok a, b) \<Rightarrow> Q a b | (Err e, b) \<Rightarrow> E b | (Panic m, b) \<Rightarrow> True)"

lemma macro_post_simps [simp]:
  "macro_post Q E (Ok a, b) = Q a b"
  "macro_post Q E (Err e, b) = E b"
  "macro_post Q E (Panic m, b)"
  by (simp_all add: macro_post_def)

lemma macro_post_call [intro!]:
  "E s \<Longrightarrow> (\<And>x. r = Ok x \<Longrightarrow> macro_post Q E (f x)) \<Longrightarrow> macro_post Q E (call r s f)"
  by (cases r) auto

lemma macro_post_bind:
  assumes "macro_post R E m" and "\<And>x s. R x s \<Longrightarrow> macro_post Q E (f x s)"
  shows "macro_post Q E (bind_st m f)"
proof -
  obtain r s where m: "m = (r, s)" by (cases m)
  show ?thesis using assms unfolding m by (cases r) auto
qed

lemma macro_post_mono:
  assumes "macro_post Q E r" "\<And>a b. Q a b \<Longrightarrow> Q' a b" "\<And>b. E b \<Longrightarrow> E' b"
  shows "macro_post Q' E' r"
  using assms by (auto simp: macro_post_def split: prod.splits outcome.splits)

section \<open>The chain of adopted checkpoints\<close>

definition tip :: "MacroCheckpoint list \<Rightarrow> Hash32" where
  "tip cps = (if cps = [] then hash_zero else mc_hash (last cps))"

definition hash_chain :: "MacroCheckpoint list \<Rightarrow> bool" where
  "hash_chain cps \<longleftrightarrow> distinct (map mc_hash cps) \<and>
     (\<forall>i < length cps. mc_height (cps ! i) = of_nat i \<and> mc_parent (cps ! i) = tip (take i cps))"

definition candidate_ok :: "MacroCheckpoint list \<Rightarrow> MacroCheckpoint \<Rightarrow> bool" where
  "candidate_ok cps c \<longleftrightarrow> (let i = unat (mc_height c) in
     i < length cps \<and> mc_hash c = mc_hash (cps ! i) \<or> i = length cps \<and> mc_parent c = tip cps)"

definition two_chain_ok :: "MacroCheckpoint list \<Rightarrow> TwoChainRule \<Rightarrow> bool" where
  "two_chain_ok cps r \<longleftrightarrow> bt_inv (tc_adopted r) \<and>
     (\<forall>h e. bt_get (tc_adopted r) h = Some e \<longrightarrow>
        mc_height e = h \<and> unat h \<le> length cps \<and> mc_parent e = tip (take (unat h) cps)) \<and>
     (\<forall>i < length cps. bt_get (tc_adopted r) (of_nat i) \<noteq> None) \<and>
     (\<forall>x. tc_finalized_head r = Some x \<longrightarrow> (\<exists>i. Suc i < length cps \<and> mc_hash (cps ! i) = x))"

definition chain_inv :: "MacroCheckpoint list \<Rightarrow> MacroBook \<Rightarrow> bool" where
  "chain_inv cps book \<longleftrightarrow> hash_chain cps \<and>
     mb_next_height book = of_nat (length cps) \<and> mb_last_macro_hash book = tip cps \<and>
     mb_emitted_macro_qc book = mc_hash ` set cps \<and>
     bt_inv (mb_candidate book) \<and>
     (\<forall>h c. bt_get (mb_candidate book) h = Some c \<longrightarrow> mc_height c = h \<and> candidate_ok cps c) \<and>
     two_chain_ok cps (mb_two_chain book)"

definition reports_ok :: "MacroCheckpoint list \<Rightarrow> BlobId list \<Rightarrow> bool" where
  "reports_ok cps bs \<longleftrightarrow>
     (\<forall>b \<in> set bs. \<exists>i. Suc i < length cps \<and> b = blob_id_of_checkpoint (cps ! i))"

text \<open>
  Heights are 64-bit numbers: the chain is claimed of the first \<open>2 ^ 64\<close> checkpoints, the order of the
  candidate map always.
\<close>

definition macro_inv :: "Actions \<Rightarrow> MacroBook \<Rightarrow> bool" where
  "macro_inv tr book \<longleftrightarrow> bt_inv (mb_candidate book) \<and>
     map mq_checkpoint_hash (certificates tr) = map mc_hash (adopted tr) \<and> (length (adopted tr) < 2 ^ 64 \<longrightarrow>
     chain_inv (adopted tr) book \<and> reports_ok (adopted tr) (final_blobs tr))"

lemma macro_inv_quiet [simp]: "quiet a \<Longrightarrow> macro_inv (tr @ a) book = macro_inv tr book"
  by (simp add: macro_inv_def quiet_def)

lemma macro_inv_quiet_mid [simp]: "quiet a \<Longrightarrow> macro_inv (tr @ a @ b) book = macro_inv (tr @ b) book"
  by (simp add: macro_inv_def quiet_def)

lemma macro_inv_frame [simp]:
  "macro_inv tr (book\<lparr>mb_micro_ring := x1\<rparr>) = macro_inv tr book"
  "macro_inv tr (book\<lparr>mb_candidate_beacon := x2\<rparr>) = macro_inv tr book"
  "macro_inv tr (book\<lparr>mb_partials := x3\<rparr>) = macro_inv tr book"
  "macro_inv tr (book\<lparr>mb_locks := x4\<rparr>) = macro_inv tr book"
  "macro_inv tr (book\<lparr>mb_suppressed_conflicts := x5\<rparr>) = macro_inv tr book"
  "macro_inv tr (book\<lparr>mb_proposal_seen := x6\<rparr>) = macro_inv tr book"
  "macro_inv tr (book\<lparr>mb_mode_b_active := x7\<rparr>) = macro_inv tr book"
  "macro_inv tr (book\<lparr>mb_reputation := x8\<rparr>) = macro_inv tr book"
  "macro_inv tr (book\<lparr>mb_timers := x9\<rparr>) = macro_inv tr book"
  "macro_inv tr (book\<lparr>mb_subnet_aggs := x10\<rparr>) = macro_inv tr book"
  "macro_inv tr (book\<lparr>mb_subnet_partials := x11\<rparr>) = macro_inv tr book"
  "macro_inv tr (book\<lparr>mb_votes := x12\<rparr>) = macro_inv tr book"
  "macro_inv tr (book\<lparr>mb_partial_sigs := x13\<rparr>) = macro_inv tr book"
  "macro_inv tr (book\<lparr>mb_proposals_seen := x14\<rparr>) = macro_inv tr book"
  "macro_inv tr (book\<lparr>mb_rejected_crypto := x15\<rparr>) = macro_inv tr book"
  "macro_inv tr (book\<lparr>mb_unfinalized_windows := x16\<rparr>) = macro_inv tr book"
  "macro_inv tr (book\<lparr>mb_leak_notified := x17\<rparr>) = macro_inv tr book"
  by (simp_all add: macro_inv_def chain_inv_def)

lemma macro_inv_helpers [simp]:
  "macro_inv tr (macro_reject book) = macro_inv tr book"
  "macro_inv tr (add_signer h v book) = macro_inv tr book"
  by (simp_all add: macro_reject_def add_signer_def)

text \<open>How the chain and its tip read at a position.\<close>

lemma tip_snoc [simp]: "tip (cps @ [c]) = mc_hash c"
  by (simp add: tip_def)

lemma tip_take: "0 < i \<Longrightarrow> i \<le> length cps \<Longrightarrow> tip (take i cps) = mc_hash (cps ! (i - 1))"
  by (auto simp: tip_def last_conv_nth min_def)

lemma hash_chain_snoc:
  assumes "hash_chain cps" "mc_hash c \<notin> mc_hash ` set cps" "mc_height c = of_nat (length cps)"
    "mc_parent c = tip cps"
  shows "hash_chain (cps @ [c])"
  using assms by (auto simp: hash_chain_def nth_append less_Suc_eq)

lemma candidate_ok_fresh:
  assumes "candidate_ok cps c" "mc_hash c \<notin> mc_hash ` set cps"
  shows "unat (mc_height c) = length cps" "mc_parent c = tip cps"
  using assms by (auto simp: candidate_ok_def Let_def)

lemma candidate_ok_snoc:
  assumes "candidate_ok cps d" "unat (mc_height d) = length cps \<Longrightarrow> d = c"
  shows "candidate_ok (cps @ [c]) d"
  using assms by (auto simp: candidate_ok_def Let_def nth_append)

lemma candidate_height_Some:
  assumes "bt_inv (mb_candidate book)" "candidate_height book h = Some height"
  shows "\<exists>c. bt_get (mb_candidate book) height = Some c \<and> mc_hash c = h"
proof -
  obtain c where c: "(height, c) \<in> set (mb_candidate book)" "mc_hash c = h"
    using assms(2) unfolding candidate_height_def by (auto simp: find_Some_iff) (metis nth_mem)
  then show ?thesis
    using assms(1) by (auto simp: bt_get_def bt_inv_distinct)
qed

section \<open>The two-chain rule along the chain\<close>

lemma adopt_adopted: "tc_adopted (adopt cp r) = (case bt_get (tc_adopted r) (mc_height cp) of
    None \<Rightarrow> bt_insert (mc_height cp) cp (tc_adopted r) | Some _ \<Rightarrow> tc_adopted r)"
  by (simp add: adopt_def Let_def split: option.splits)

lemma adopt_finalized [simp]: "tc_finalized_head (adopt cp r) = tc_finalized_head r"
  by (simp add: adopt_def Let_def split: option.splits)

lemma adopt_ok:
  assumes "two_chain_ok cps r" "unat (mc_height cp) \<le> length cps"
    "unat (mc_height cp) = length cps \<Longrightarrow> mc_parent cp = tip cps"
  shows "two_chain_ok cps (adopt cp r)"
proof -
  have "unat (mc_height cp) = length cps" if "bt_get (tc_adopted r) (mc_height cp) = None"
  proof (rule ccontr)
    assume "unat (mc_height cp) \<noteq> length cps"
    then have "bt_get (tc_adopted r) (of_nat (unat (mc_height cp))) \<noteq> None"
      using assms(1,2) unfolding two_chain_ok_def by (metis le_neq_implies_less)
    with that show False
      by simp
  qed
  with assms show ?thesis
    unfolding two_chain_ok_def adopt_adopted adopt_finalized by (auto split: option.splits)
qed

lemma two_chain_extend:
  assumes "two_chain_ok cps r" "bt_get (tc_adopted r) (of_nat (length cps)) \<noteq> None"
  shows "two_chain_ok (cps @ [c]) r"
  unfolding two_chain_ok_def
proof (intro conjI allI impI)
  fix h e
  assume "bt_get (tc_adopted r) h = Some e"
  with assms(1) show "mc_height e = h" "unat h \<le> length (cps @ [c])"
      "mc_parent e = tip (take (unat h) (cps @ [c]))"
    by (auto simp: two_chain_ok_def intro: le_SucI)
next
  fix i
  assume "i < length (cps @ [c])"
  with assms show "bt_get (tc_adopted r) (of_nat i) \<noteq> None"
    by (cases "i = length cps") (auto simp: two_chain_ok_def)
next
  fix x
  assume "tc_finalized_head r = Some x"
  then obtain i where "Suc i < length cps" "mc_hash (cps ! i) = x"
    using assms(1) by (auto simp: two_chain_ok_def)
  then show "\<exists>i. Suc i < length (cps @ [c]) \<and> mc_hash ((cps @ [c]) ! i) = x"
    by (intro exI [of _ i]) (simp add: nth_append)
qed (use assms(1) in \<open>simp add: two_chain_ok_def\<close>)

text \<open>What the rule finalizes is an adopted checkpoint with an adopted child.\<close>

lemma newly_finalized_on_chain:
  assumes "two_chain_ok cps r" "newly_finalized_height r = Some prev"
  obtains i e where "i < length cps" "unat prev = i" "bt_get (tc_adopted r) prev = Some e"
    "mc_hash e = mc_hash (cps ! i)"
proof -
  obtain head head_cp prev_cp where h: "head \<noteq> 0" "prev = head - 1"
      "bt_get (tc_adopted r) head = Some head_cp" "bt_get (tc_adopted r) prev = Some prev_cp"
      "mc_parent head_cp = mc_hash prev_cp"
    using assms(2) by (auto simp: newly_finalized_height_def Let_def split: option.splits if_splits)
  have head: "unat head \<le> length cps" "mc_parent head_cp = tip (take (unat head) cps)"
    using assms(1) h(3) by (auto simp: two_chain_ok_def)
  have pos: "0 < unat head" "unat prev = unat head - 1"
    using h(1,2) by (simp_all add: unat_gt_0 unat_minus_one)
  then have "mc_hash prev_cp = mc_hash (cps ! (unat head - 1))"
    using head h(5) by (simp add: tip_take)
  then show thesis
    using that [of "unat head - 1" prev_cp] head(1) pos h(4) by simp
qed

section \<open>Adopting a certificate extends the chain\<close>

lemma bump_each_frame:
  "bump_each cfg vs book = (r, book') \<Longrightarrow> (\<exists>rep. book' = book\<lparr>mb_reputation := rep\<rparr>) \<and> (\<forall>e. r \<noteq> Err e)"
proof (induction vs arbitrary: book)
  case Nil
  then show ?case
    by (auto intro!: exI [of _ "mb_reputation book"])
next
  case (Cons v vs)
  define entry where "entry = (case mb_reputation book v of None \<Rightarrow> reputation_neutral | Some r \<Rightarrow> r)"
  show ?case
  proof (cases "reputation_updated entry cfg (Fin 1)")
    case (Ok x)
    then show ?thesis
      using Cons by (fastforce simp: entry_def Let_def)
  next
    case (Err e)
    then show ?thesis
      by (auto simp: reputation_updated_def f64_clamp_def Let_def split: if_splits)
  next
    case (Panic m)
    then show ?thesis
      using Cons.prems by (auto simp: entry_def Let_def)
  qed
qed

lemma bump_reputation_post:
  assumes "\<And>rep. Q () (book\<lparr>mb_reputation := rep\<rparr>)"
  shows "macro_post Q E (bump_reputation cfg signers book)"
proof -
  obtain r book' where b: "bump_each cfg (sorted_list_of_set signers) book = (r, book')"
    by (cases "bump_each cfg (sorted_list_of_set signers) book")
  then show ?thesis
    using bump_each_frame [OF b] assms by (cases r) (auto simp: bump_reputation_def)
qed

lemma record_adoption_chain:
  assumes inv: "chain_inv cps book" and len: "length cps < 2 ^ 64"
    and c: "bt_get (mb_candidate book) height = Some c" "mc_hash c \<notin> mb_emitted_macro_qc book"
      "mq_checkpoint_hash qc = mc_hash c"
  shows "chain_inv (cps @ [c]) (record_adoption height c qc book)"
    and "two_chain_ok cps (adopt c (mb_two_chain book))"
proof -
  have cand: "mc_height c = height" "candidate_ok cps c" "mc_hash c \<notin> mc_hash ` set cps"
    using inv c by (auto simp: chain_inv_def)
  note fresh = candidate_ok_fresh [OF cand(2,3)]
  have of_unat: "h = of_nat (length cps)" if "unat h = length cps" for h :: Height
    using that [symmetric] by simp
  have height: "height = of_nat (length cps)"
    using fresh(1) cand(1) of_unat by simp
  show two: "two_chain_ok cps (adopt c (mb_two_chain book))"
    using inv fresh by (intro adopt_ok) (auto simp: chain_inv_def)
  have "bt_get (tc_adopted (adopt c (mb_two_chain book))) (of_nat (length cps)) \<noteq> None"
    using cand(1) height by (auto simp: adopt_adopted split: option.splits)
  then have "two_chain_ok (cps @ [c]) (adopt c (mb_two_chain book))"
    by (rule two_chain_extend [OF two])
  moreover have "candidate_ok (cps @ [c]) d \<and> mc_height d = h"
    if "bt_get (mb_candidate book) h = Some d" for h d
  proof -
    have d: "mc_height d = h" "candidate_ok cps d"
      using inv that by (auto simp: chain_inv_def)
    moreover have "d = c" if "unat (mc_height d) = length cps"
      using of_unat [OF that] d(1) height c(1) \<open>bt_get (mb_candidate book) h = Some d\<close> by simp
    ultimately show ?thesis
      by (auto intro: candidate_ok_snoc)
  qed
  moreover have "hash_chain (cps @ [c])"
    using inv fresh cand height by (intro hash_chain_snoc) (auto simp: chain_inv_def)
  ultimately show "chain_inv (cps @ [c]) (record_adoption height c qc book)"
    using inv c(3) height by (simp add: chain_inv_def record_adoption_def)
qed

lemma blob_id_hash: "mc_hash a = mc_hash b \<Longrightarrow> blob_id_of_checkpoint a = blob_id_of_checkpoint b"
  by (simp add: blob_id_of_checkpoint_def)

lemma note_leak_frame:
  assumes "note_inactivity_leak_on_adoption cfg fin actions book = (actions', book')"
  shows "mb_two_chain book' = mb_two_chain book \<and> mb_candidate book' = mb_candidate book \<and>
    macro_inv tr book' = macro_inv tr book \<and> chain_inv cps book' = chain_inv cps book \<and>
    (\<exists>extra. actions' = actions @ extra \<and> quiet extra)"
  using assms
  by (auto simp: note_inactivity_leak_on_adoption_def Let_def leak_compute_def chain_inv_def split: if_splits)

text \<open>
  Settling finality right after an adoption: the chain stays as the adoption left it, and a blob is
  reported final only for a checkpoint below the adopted one.
\<close>

lemma settle_finality_chain:
  assumes two: "two_chain_ok cps (mb_two_chain book)" and inv: "chain_inv (cps @ [c]) book"
    and len: "Suc (length cps) < 2 ^ 64"
    and settle: "settle_finality cfg actions book = (actions', book')"
  shows "chain_inv (cps @ [c]) book' \<and> adopted actions' = adopted actions \<and>
    (\<forall>b \<in> set (final_blobs actions'). b \<in> set (final_blobs actions) \<or>
      (\<exists>i < length cps. b = blob_id_of_checkpoint ((cps @ [c]) ! i)))"
proof -
  define newly where "newly = newly_finalized_height (mb_two_chain book)"
  obtain actions1 book1 where noted: "note_inactivity_leak_on_adoption cfg (newly \<noteq> None) actions book
      = (actions1, book1)"
    by (cases "note_inactivity_leak_on_adoption cfg (newly \<noteq> None) actions book")
  then obtain extra where extra: "actions1 = actions @ extra" "quiet extra"
    and frame: "mb_two_chain book1 = mb_two_chain book" "mb_candidate book1 = mb_candidate book"
      "chain_inv cps' book1 = chain_inv cps' book" for cps'
    using note_leak_frame by blast
  show ?thesis
  proof (cases newly)
    case None
    then show ?thesis
      using settle noted frame extra inv by (auto simp: settle_finality_def newly_def quiet_def)
  next
    case (Some prev)
    obtain i e where e: "i < length cps" "unat prev = i" "bt_get (tc_adopted (mb_two_chain book)) prev = Some e"
        "mc_hash e = mc_hash (cps ! i)"
      using newly_finalized_on_chain [OF two] Some newly_def by metis
    have book': "book' = book1\<lparr>mb_two_chain := mark_finalized prev (mb_two_chain book)\<rparr>"
      and actions': "actions' = (case bt_get (mb_candidate book) prev of None \<Rightarrow> actions1
        | Some cp \<Rightarrow> actions1 @ [UpdateBlobStatus (blob_id_of_checkpoint cp) Finalized])"
      using settle noted frame Some by (auto simp: settle_finality_def newly_def Let_def)
    have "mc_hash cp = mc_hash ((cps @ [c]) ! i)" if "bt_get (mb_candidate book) prev = Some cp" for cp
    proof -
      have "mc_height cp = prev" "candidate_ok (cps @ [c]) cp"
        using inv that by (auto simp: chain_inv_def)
      then show ?thesis
        using e(1,2) by (auto simp: candidate_ok_def Let_def)
    qed
    then have "blob_id_of_checkpoint cp = blob_id_of_checkpoint ((cps @ [c]) ! i)"
      if "bt_get (mb_candidate book) prev = Some cp" for cp
      using that by (intro blob_id_hash)
    then have reports: "adopted actions' = adopted actions" "\<forall>b \<in> set (final_blobs actions').
        b \<in> set (final_blobs actions) \<or> (\<exists>i < length cps. b = blob_id_of_checkpoint ((cps @ [c]) ! i))"
      using extra e(1) by (auto simp: actions' quiet_def split: option.splits)
    have "two_chain_ok (cps @ [c]) (mark_finalized prev (mb_two_chain book))"
      using inv e by (auto simp: chain_inv_def two_chain_ok_def mark_finalized_def nth_append
          intro!: exI [of _ i])
    moreover have "chain_inv (cps @ [c]) book1"
      using frame(3) inv by blast
    ultimately have "chain_inv (cps @ [c]) book'"
      by (simp add: book' chain_inv_def)
    with reports show ?thesis
      by blast
  qed
qed

lemma settle_finality_adopted:
  "settle_finality cfg actions book = (actions', book') \<Longrightarrow>
    adopted actions' = adopted actions \<and> certificates actions' = certificates actions"
  by (auto simp: settle_finality_def note_inactivity_leak_on_adoption_def Let_def leak_compute_def
      split: if_splits option.splits)

lemma settle_finality_candidate:
  "settle_finality cfg actions book = (actions', book') \<Longrightarrow> mb_candidate book' = mb_candidate book"
  by (auto simp: settle_finality_def note_inactivity_leak_on_adoption_def Let_def leak_compute_def
      split: if_splits option.splits)

text \<open>Both ways to adopt a certificate run this sequence.\<close>

lemma adoption_post:
  assumes inv: "macro_inv tr book"
    and c: "bt_get (mb_candidate book) height = Some c" "mc_hash c \<notin> mb_emitted_macro_qc book"
      "mq_checkpoint_hash qc = mc_hash c"
    and acts: "adopted acts = [c]" "final_blobs acts = []" "certificates acts = [qc]"
  shows "macro_post (\<lambda>a b. macro_inv (tr @ a) b) E
    (bind_st (bump_reputation cfg signers (record_adoption height c qc book)) (\<lambda>_ book1.
       case settle_finality cfg acts book1 of (actions, book2) \<Rightarrow> (Ok actions, book2)))"
proof (rule macro_post_bind)
  let ?book = "record_adoption height c qc book"
  show "macro_post (\<lambda>_ b. \<exists>rep. b = ?book\<lparr>mb_reputation := rep\<rparr>) E (bump_reputation cfg signers ?book)"
    by (rule bump_reputation_post) blast
next
  fix x b
  assume "\<exists>rep. b = record_adoption height c qc book\<lparr>mb_reputation := rep\<rparr>"
  then obtain rep where b: "b = record_adoption height c qc book\<lparr>mb_reputation := rep\<rparr>" ..
  obtain actions book2 where settle: "settle_finality cfg acts b = (actions, book2)"
    by (cases "settle_finality cfg acts b")
  have ad: "adopted actions = [c]" "certificates actions = [qc]"
    using settle_finality_adopted [OF settle] acts(1,3) by simp_all
  let ?cps = "adopted tr"
  have "macro_inv (tr @ actions) book2"
    unfolding macro_inv_def
  proof (intro conjI impI)
    show "bt_inv (mb_candidate book2)"
      using settle_finality_candidate [OF settle] inv by (simp add: b record_adoption_def macro_inv_def)
    show "map mq_checkpoint_hash (certificates (tr @ actions)) = map mc_hash (adopted (tr @ actions))"
      using inv c(3) by (simp add: ad macro_inv_def)
    assume "length (adopted (tr @ actions)) < 2 ^ 64"
    then have len: "Suc (length ?cps) < 2 ^ 64"
      by (simp add: ad)
    with inv have chain: "chain_inv ?cps book" and rep: "reports_ok ?cps (final_blobs tr)"
      by (auto simp: macro_inv_def)
    note rec = record_adoption_chain [OF chain _ c]
    have "chain_inv (?cps @ [c]) b" "two_chain_ok ?cps (mb_two_chain b)"
      using rec len by (simp_all add: b chain_inv_def record_adoption_def)
    note settled = settle_finality_chain [OF this(2,1) len settle]
    have "reports_ok (?cps @ [c]) (final_blobs (tr @ actions))"
      unfolding reports_ok_def
    proof
      fix x
      assume "x \<in> set (final_blobs (tr @ actions))"
      then consider "x \<in> set (final_blobs tr)" | "x \<in> set (final_blobs actions)"
        by auto
      then show "\<exists>i. Suc i < length (?cps @ [c]) \<and> x = blob_id_of_checkpoint ((?cps @ [c]) ! i)"
      proof cases
        case 1
        with rep obtain i where "Suc i < length ?cps" "x = blob_id_of_checkpoint (?cps ! i)"
          by (auto simp: reports_ok_def)
        then show ?thesis
          by (intro exI [of _ i]) (simp add: nth_append)
      next
        case 2
        then show ?thesis
          using settled acts(2) by auto
      qed
    qed
    moreover have "adopted (tr @ actions) = ?cps @ [c]"
      by (simp add: ad)
    ultimately show "chain_inv (adopted (tr @ actions)) book2"
        "reports_ok (adopted (tr @ actions)) (final_blobs (tr @ actions))"
      using settled by metis+
  qed
  then show "macro_post (\<lambda>a b. macro_inv (tr @ a) b) E
      (case settle_finality cfg acts b of (actions, book2) \<Rightarrow> (Ok actions, book2))"
    by (simp add: settle)
qed

lemma finish_adoption_inv:
  assumes "macro_inv tr book" "bt_get (mb_candidate book) height = Some c"
    "mc_hash c \<notin> mb_emitted_macro_qc book" "mq_checkpoint_hash qc = mc_hash c"
  shows "macro_post (\<lambda>a b. macro_inv (tr @ a) b) (macro_inv tr)
    (finish_macro_qc_adoption cfg height c qc signers book)"
  unfolding finish_macro_qc_adoption_def by (rule adoption_post [OF assms]) simp_all

section \<open>Every input keeps the invariant\<close>

lemma macro_inv_candidate:
  assumes "macro_inv tr book" "candidate_height book h = Some height"
  obtains c where "bt_get (mb_candidate book) height = Some c" "mc_hash c = h"
  using assms candidate_height_Some [of book h height] by (auto simp: macro_inv_def)

lemma try_finalize_hash:
  "try_finalize_mode0 L h signers sigs vset = Some qc \<Longrightarrow> mq_checkpoint_hash qc = h"
  "try_finalize_mode_b L h signers sigs vset = Some qc \<Longrightarrow> mq_checkpoint_hash qc = h"
  "try_finalize_mode_a L h aggs vset sigs = Some qc \<Longrightarrow> mq_checkpoint_hash qc = h"
  by (auto simp: try_finalize_mode0_def try_finalize_mode_b_def try_finalize_mode_a_def Let_def
      split: if_splits option.splits outcome.splits)

lemma try_emit_mode_a_inv:
  assumes inv: "macro_inv tr book" and c: "bt_get (mb_candidate book) height = Some c" "mc_hash c = h"
  shows "macro_post (\<lambda>a b. macro_inv (tr @ a) b) (macro_inv tr)
    (try_emit_mode_a_qc L cfg h height ctx book)"
  using inv c unfolding try_emit_mode_a_qc_def
  by (auto simp: Let_def split: option.splits
      intro!: finish_adoption_inv dest!: try_finalize_hash(3))

lemma collect_flat_inv:
  assumes inv: "macro_inv tr book" and c: "bt_get (mb_candidate book) height = Some c"
    "mc_hash c = bp_checkpoint_hash bp" "bp_checkpoint_hash bp \<notin> mb_emitted_macro_qc book"
  shows "macro_post (\<lambda>a b. macro_inv (tr @ a) b) (macro_inv tr)
    (collect_flat_partial L cfg bp vset mode height c book)"
  using inv c unfolding collect_flat_partial_def
  by (auto simp: Let_def add_signer_def split: option.splits if_splits
      intro!: finish_adoption_inv dest: try_finalize_hash)

lemma collect_subnet_inv:
  assumes inv: "macro_inv tr book" and c: "bt_get (mb_candidate book) height = Some c"
    "mc_hash c = bp_checkpoint_hash bp"
  shows "macro_post (\<lambda>a b. macro_inv (tr @ a) b) (macro_inv tr)
    (collect_subnet_partial L cfg bp ctx vset beacon assign height book)"
proof -
  have "quiet (case agg of None \<Rightarrow> [] | Some agg \<Rightarrow> if P then [BroadcastSubnetAggregate agg] else [])" for agg P
    by (simp split: option.splits)
  note this [simp]
  show ?thesis
    using inv c unfolding collect_subnet_partial_def
    by (auto simp: Let_def add_signer_def intro!: macro_post_bind [OF try_emit_mode_a_inv [of tr _ height c]])
qed

lemma on_bls_partial_inv:
  assumes inv: "macro_inv tr book"
  shows "macro_post (\<lambda>a b. macro_inv (tr @ a) b) (macro_inv tr) (on_bls_partial L cfg bp ctx book)"
proof (cases "candidate_height book (bp_checkpoint_hash bp)")
  case None
  then show ?thesis
    using inv by (simp add: on_bls_partial_def)
next
  case (Some height)
  then obtain c where c: "bt_get (mb_candidate book) height = Some c" "mc_hash c = bp_checkpoint_hash bp"
    using macro_inv_candidate [OF inv] by blast
  then show ?thesis
    using inv unfolding on_bls_partial_def
    by (auto simp: Some Let_def intro!: collect_subnet_inv [of tr _ height c] collect_flat_inv)
qed

lemma on_macro_qc_received_inv:
  assumes inv: "macro_inv tr book"
  shows "macro_post (\<lambda>a b. macro_inv (tr @ a) b) (macro_inv tr) (on_macro_qc_received L cfg qc ctx book)"
proof (cases "candidate_height book (mq_checkpoint_hash qc)")
  case None
  then show ?thesis
    using inv by (auto simp: on_macro_qc_received_def Let_def)
next
  case (Some height)
  then obtain c where c: "bt_get (mb_candidate book) height = Some c" "mc_hash c = mq_checkpoint_hash qc"
    using macro_inv_candidate [OF inv] by blast
  then show ?thesis
    using inv unfolding on_macro_qc_received_def
    by (auto simp: Some Let_def intro!: adoption_post)
qed

lemma on_subnet_aggregate_inv:
  assumes inv: "macro_inv tr book"
  shows "macro_post (\<lambda>a b. macro_inv (tr @ a) b) (macro_inv tr) (on_subnet_aggregate L cfg agg ctx book)"
proof (cases "candidate_height book (sa_checkpoint_hash agg)")
  case None
  then show ?thesis
    using inv by (simp add: on_subnet_aggregate_def)
next
  case (Some height)
  then obtain c where c: "bt_get (mb_candidate book) height = Some c" "mc_hash c = sa_checkpoint_hash agg"
    using macro_inv_candidate [OF inv] by blast
  then show ?thesis
    using inv unfolding on_subnet_aggregate_def
    by (auto simp: Some Let_def split: option.splits intro!: try_emit_mode_a_inv [of tr _ height c])
qed

text \<open>A vote leaves the chain as it is: the checkpoint voted for is the known candidate.\<close>

lemma vote_chain:
  assumes inv: "macro_inv tr book" and c: "bt_get (mb_candidate book) (mc_height cp) = Some c"
    "mc_hash c = mc_hash cp" "mc_parent cp = mb_last_macro_hash book"
  shows "macro_inv tr (book\<lparr>mb_two_chain := adopt cp (mb_two_chain book),
    mb_candidate := bt_insert (mc_height cp) cp (mb_candidate book)\<rparr>)"
  unfolding macro_inv_def
proof (intro conjI impI)
  let ?cps = "adopted tr"
  assume "length ?cps < 2 ^ 64"
  with inv have chain: "chain_inv ?cps book" and rep: "reports_ok ?cps (final_blobs tr)"
    by (auto simp: macro_inv_def)
  show "reports_ok ?cps (final_blobs tr)"
    by (rule rep)
  have old: "mc_height c = mc_height cp" "candidate_ok ?cps c"
    using chain c(1) by (auto simp: chain_inv_def)
  have parent: "mc_parent cp = tip ?cps"
    using chain c(3) by (simp add: chain_inv_def)
  have "candidate_ok ?cps cp" "unat (mc_height cp) \<le> length ?cps"
    using old c(2) parent by (auto simp: candidate_ok_def Let_def)
  moreover have "two_chain_ok ?cps (adopt cp (mb_two_chain book))"
    using chain calculation(2) parent by (intro adopt_ok) (auto simp: chain_inv_def)
  ultimately show "chain_inv ?cps (book\<lparr>mb_two_chain := adopt cp (mb_two_chain book),
      mb_candidate := bt_insert (mc_height cp) cp (mb_candidate book)\<rparr>)"
    using chain by (auto simp: chain_inv_def)
qed (use inv in \<open>simp_all add: macro_inv_def\<close>)

lemma quiet_evidence [simp]: "quiet (self_scan votes v)"
  by (simp add: self_scan_def split: option.splits)

lemma quiet_aggregate [simp]:
  "quiet (case agg of None \<Rightarrow> [] | Some a \<Rightarrow> if P a then [BroadcastSubnetAggregate a] else [])"
  by (simp split: option.splits)

lemma vote_on_checkpoint_inv:
  assumes "macro_inv tr book" "bt_get (mb_candidate book) (mc_height cp) = Some c"
    "mc_hash c = mc_hash cp" "mc_parent cp = mb_last_macro_hash book"
  shows "macro_post (\<lambda>a b. quiet a \<and> macro_inv tr b) (macro_inv tr)
    (vote_on_checkpoint L cfg ctx vset beacon mode cp book)"
proof -
  have "macro_inv tr (book\<lparr>mb_proposal_seen := x, mb_timers := y, mb_two_chain := adopt cp (mb_two_chain book),
      mb_candidate := bt_insert (mc_height cp) cp (mb_candidate book)\<rparr>)" for x y
    using vote_chain [of tr "book\<lparr>mb_proposal_seen := x, mb_timers := y\<rparr>" cp c] assms by simp
  then show ?thesis
    unfolding vote_on_checkpoint_def Let_def by auto
qed

lemma on_macro_proposal_inv:
  assumes inv: "macro_inv tr book"
  shows "macro_post (\<lambda>a b. quiet a \<and> macro_inv tr b) (macro_inv tr) (on_macro_proposal L cfg p ctx book)"
proof -
  have beacon: "macro_post (\<lambda>_. macro_inv tr) (macro_inv tr)
      (if bt_get (mb_candidate_beacon book) height = None
       then call (beacon_current ctx) book (\<lambda>b.
         (Ok (), book\<lparr>mb_candidate_beacon := bt_insert height b (mb_candidate_beacon book)\<rparr>))
       else (Ok (), book))" for height
    using inv by auto
  show ?thesis
    unfolding on_macro_proposal_def Let_def
    by (intro macro_post_call inv macro_post_bind [OF beacon])
      (auto split: option.splits prod.splits outcome.splits intro!: vote_on_checkpoint_inv)
qed

lemma propose_candidate_inv:
  assumes "macro_inv tr book" "quiet actions"
  shows "macro_post (\<lambda>a b. quiet a \<and> macro_inv tr b) (macro_inv tr)
    (propose_candidate cfg ctx beacon height candidate schedule actions book)"
  using assms unfolding propose_candidate_def
  by (auto simp: backup_propose_action_def split: prod.splits)

lemma push_micro_hash_inv:
  assumes "macro_inv tr book" "quiet actions"
  shows "macro_post (\<lambda>a b. quiet a \<and> macro_inv tr b) (macro_inv tr)
    (push_micro_hash L cfg ctx vset h actions book)"
proof -
  have "macro_inv tr (book\<lparr>mb_micro_ring := x, mb_candidate := bt_insert (mb_next_height book)
      (build_checkpoint L (mb_next_height book) 0 (mb_last_macro_hash book) root) (mb_candidate book)\<rparr>)" for x root
    using assms(1)
    by (auto simp: macro_inv_def chain_inv_def build_checkpoint_def candidate_ok_def Let_def unat_of_nat_small)
  then show ?thesis
    using assms unfolding push_micro_hash_def Let_def
    by (auto simp: mode_b_deadline_action_def split: prod.splits
        intro!: macro_post_bind [OF propose_candidate_inv])
qed

lemma push_micro_hashes_inv:
  assumes "macro_inv tr book" "quiet actions"
  shows "macro_post (\<lambda>a b. quiet a \<and> macro_inv tr b) (macro_inv tr)
    (push_micro_hashes L cfg ctx vset hs actions book)"
  using assms
  by (induction hs arbitrary: actions book) (auto intro!: macro_post_bind [OF push_micro_hash_inv])

lemma on_backup_timer_inv:
  assumes "macro_inv tr book" "quiet actions"
  shows "macro_post (\<lambda>a b. quiet a \<and> macro_inv tr b) (macro_inv tr)
    (on_backup_timer L ctx height actions book)"
  using assms unfolding on_backup_timer_def Let_def by (auto split: option.splits)

lemma mode_b_sign_inv:
  assumes "macro_inv tr book" "quiet actions"
  shows "macro_post (\<lambda>a b. quiet a \<and> macro_inv tr b) (macro_inv tr)
    (mode_b_sign L cfg ctx height cp actions book)"
  using assms unfolding mode_b_sign_def Let_def
  by (auto simp: add_signer_def split: prod.splits outcome.splits)

lemma on_mode_b_timer_inv:
  assumes "macro_inv tr book" "quiet actions"
  shows "macro_post (\<lambda>a b. quiet a \<and> macro_inv tr b) (macro_inv tr)
    (on_mode_b_timer L cfg ctx height actions book)"
  using assms unfolding on_mode_b_timer_def Let_def
  by (auto split: option.splits intro!: mode_b_sign_inv)

lemma macro_step_inv:
  assumes "macro_inv tr book" "quiet_input inp"
  shows "macro_post (\<lambda>a b. macro_inv (tr @ a) b) (macro_inv tr) (macro_step L cfg ctx inp book)"
proof -
  have quiet: "macro_post (\<lambda>a b. macro_inv (tr @ a) b) (macro_inv tr) r"
    if "macro_post (\<lambda>a b. quiet a \<and> macro_inv tr b) (macro_inv tr) r" for r
    using that by (rule macro_post_mono) auto
  show ?thesis
  proof (cases inp)
    case (MicroCertificates acts)
    with assms show ?thesis
      by (auto simp: on_local_micro_qcs_def Let_def intro!: quiet push_micro_hashes_inv)
  next
    case (TimerIn tid acts)
    with assms show ?thesis
      by (auto simp: macro_on_timer_fired_def split: option.splits
          intro!: quiet on_backup_timer_inv on_mode_b_timer_inv)
  qed (use assms in \<open>auto intro: quiet on_macro_proposal_inv on_bls_partial_inv
        on_macro_qc_received_inv on_subnet_aggregate_inv\<close>)
qed

lemma macro_inv_new: "macro_inv [] (macro_book_new me)"
  by (simp add: macro_inv_def chain_inv_def macro_book_new_def hash_chain_def tip_def two_chain_ok_def
      two_chain_default_def reports_ok_def)

theorem macro_reach_inv:
  assumes "macro_reach L cfg me hosts ok tr book"
  shows "macro_inv tr book"
  using assms
proof induction
  case start
  show ?case by (rule macro_inv_new)
next
  case (step tr book ctx inp acts book')
  then show ?case
    using macro_step_inv [of tr book inp L cfg ctx] by simp
next
  case (fail tr book ctx inp e book')
  then show ?case
    using macro_step_inv [of tr book inp L cfg ctx] by simp
qed

end
