(* ===== verification/Macro_Votes.thy ===== *)
theory Macro_Votes
  imports Macro_Runs
begin

text \<open>
  What a validator signs in macro finality: over a run in which the proposals it receives carry the
  parent their hash commits to and checkpoint hashes do not collide, it signs one checkpoint per
  height, by proposal or by the leaderless fallback, and its vote history never incriminates it.
\<close>

section \<open>Own partial signatures\<close>

fun own_partial :: "ValidatorId \<Rightarrow> Action \<Rightarrow> Hash32 option" where
  "own_partial me (BroadcastBlsPartial bp) = (if bp_validator bp = me then Some (bp_checkpoint_hash bp) else None)"
| "own_partial me _ = None"

text \<open>The checkpoints signed since the last adoption.\<close>

definition track :: "ValidatorId \<Rightarrow> Hash32 set \<Rightarrow> Action \<Rightarrow> Hash32 set" where
  "track me S a = (if adopted_by a \<noteq> None then {} else
     case own_partial me a of None \<Rightarrow> S | Some x \<Rightarrow> insert x S)"

definition open_partials :: "ValidatorId \<Rightarrow> Actions \<Rightarrow> Hash32 set" where
  "open_partials me tr = foldl (track me) {} tr"

definition silent :: "ValidatorId \<Rightarrow> Actions \<Rightarrow> bool" where
  "silent me acts \<longleftrightarrow> quiet acts \<and> (\<forall>a \<in> set acts. own_partial me a = None)"

lemma silent_simps [simp]:
  "silent me []"
  "silent me (a # as) \<longleftrightarrow> adopted_by a = None \<and> certificate_by a = None \<and> final_report a = None \<and>
     own_partial me a = None \<and> silent me as"
  "silent me (as @ bs) \<longleftrightarrow> silent me as \<and> silent me bs"
  by (auto simp: silent_def)

lemma silent_quiet: "silent me acts \<Longrightarrow> quiet acts" and silent_adopted [simp]: "silent me acts \<Longrightarrow> adopted acts = []"
  by (simp_all add: silent_def quiet_def)

lemma foldl_track_silent:
  "(\<And>a. a \<in> set acts \<Longrightarrow> adopted_by a = None \<and> own_partial me a = None) \<Longrightarrow> foldl (track me) S acts = S"
  by (induction acts arbitrary: S) (auto simp: track_def)

lemma adopted_Nil_iff: "adopted acts = [] \<longleftrightarrow> (\<forall>a \<in> set acts. adopted_by a = None)"
  by (induction acts) (auto split: option.splits)

lemma track_silent [simp]: "silent me acts \<Longrightarrow> foldl (track me) S acts = S"
  by (rule foldl_track_silent) (auto simp: silent_def quiet_def adopted_Nil_iff)

lemma open_partials_silent [simp]: "silent me a \<Longrightarrow> open_partials me (tr @ a) = open_partials me tr"
  by (simp add: open_partials_def)

fun silent_input :: "ValidatorId \<Rightarrow> macro_input \<Rightarrow> bool" where
  "silent_input me (MicroCertificates acts) = silent me acts"
| "silent_input me (TimerIn tid acts) = silent me acts"
| "silent_input me _ = True"

text \<open>A proposal that names the hash of the local candidate names its parent too.\<close>

fun honest_input :: "ValidatorId \<Rightarrow> MacroBook \<Rightarrow> macro_input \<Rightarrow> bool" where
  "honest_input me book (ProposalIn p) \<longleftrightarrow>
     (\<forall>c. bt_get (mb_candidate book) (mc_height (mp_checkpoint p)) = Some c \<longrightarrow>
        mc_hash c = mc_hash (mp_checkpoint p) \<longrightarrow> mc_parent c = mc_parent (mp_checkpoint p))"
| "honest_input me book inp \<longleftrightarrow> silent_input me inp"

section \<open>The invariant\<close>

definition votes_consistent :: "MacroCheckpoint list \<Rightarrow> ValidatorId \<Rightarrow> MacroBook \<Rightarrow> bool" where
  "votes_consistent cps me book \<longleftrightarrow>
     (\<forall>v \<in> set (votes_of (mb_votes book) me). unat (vr_target v) \<le> length cps \<and>
        vr_source v = sat_sub (vr_target v) 1 \<and>
        (unat (vr_target v) = length cps \<longrightarrow>
           lock_get me (mb_locks book) = Some (vr_target v, vr_checkpoint v))) \<and>
     (\<forall>v \<in> set (votes_of (mb_votes book) me). \<forall>w \<in> set (votes_of (mb_votes book) me).
        vr_target v = vr_target w \<longrightarrow> vr_checkpoint v = vr_checkpoint w)"

definition vote_inv :: "ValidatorId \<Rightarrow> Actions \<Rightarrow> MacroBook \<Rightarrow> bool" where
  "vote_inv me tr book \<longleftrightarrow> mb_self_id book = me \<and>
     (length (adopted tr) < 2 ^ 64 \<and> distinct (hash_zero # map mc_hash (adopted tr)) \<longrightarrow>
       (\<forall>h c. bt_get (mb_candidate book) h = Some c \<longrightarrow> mc_parent c = tip (take (unat h) (adopted tr))) \<and>
       fst ` set (mt_mode_b_by_height (mb_timers book)) \<subseteq> {mb_next_height book} \<and>
       votes_consistent (adopted tr) me book \<and>
       (\<forall>x \<in> open_partials me tr. lock_get me (mb_locks book) = Some (mb_next_height book, x)))"

lemma votes_consistent_frame [simp]:
  "votes_consistent cps me (book\<lparr>mb_candidate := x1\<rparr>) = votes_consistent cps me book"
  "votes_consistent cps me (book\<lparr>mb_timers := x2\<rparr>) = votes_consistent cps me book"
  by (simp_all add: votes_consistent_def)

lemma vote_inv_silent [simp]: "silent me a \<Longrightarrow> vote_inv me (tr @ a) book = vote_inv me tr book"
  by (simp add: vote_inv_def)

lemma vote_inv_frame [simp]:
  "vote_inv me tr (book\<lparr>mb_micro_ring := x1\<rparr>) = vote_inv me tr book"
  "vote_inv me tr (book\<lparr>mb_candidate_beacon := x2\<rparr>) = vote_inv me tr book"
  "vote_inv me tr (book\<lparr>mb_partials := x3\<rparr>) = vote_inv me tr book"
  "vote_inv me tr (book\<lparr>mb_suppressed_conflicts := x5\<rparr>) = vote_inv me tr book"
  "vote_inv me tr (book\<lparr>mb_proposal_seen := x6\<rparr>) = vote_inv me tr book"
  "vote_inv me tr (book\<lparr>mb_mode_b_active := x7\<rparr>) = vote_inv me tr book"
  "vote_inv me tr (book\<lparr>mb_reputation := x8\<rparr>) = vote_inv me tr book"
  "vote_inv me tr (book\<lparr>mb_subnet_aggs := x10\<rparr>) = vote_inv me tr book"
  "vote_inv me tr (book\<lparr>mb_subnet_partials := x11\<rparr>) = vote_inv me tr book"
  "vote_inv me tr (book\<lparr>mb_partial_sigs := x13\<rparr>) = vote_inv me tr book"
  "vote_inv me tr (book\<lparr>mb_proposals_seen := x14\<rparr>) = vote_inv me tr book"
  "vote_inv me tr (book\<lparr>mb_rejected_crypto := x15\<rparr>) = vote_inv me tr book"
  "vote_inv me tr (book\<lparr>mb_unfinalized_windows := x16\<rparr>) = vote_inv me tr book"
  "vote_inv me tr (book\<lparr>mb_leak_notified := x17\<rparr>) = vote_inv me tr book"
  "vote_inv me tr (book\<lparr>mb_two_chain := x18\<rparr>) = vote_inv me tr book"
  by (simp_all add: vote_inv_def votes_consistent_def)

lemma vote_inv_helpers [simp]:
  "vote_inv me tr (macro_reject book) = vote_inv me tr book"
  "vote_inv me tr (add_signer h v book) = vote_inv me tr book"
  "vote_inv me tr (book\<lparr>mb_timers := clear_backup height (mb_timers book)\<rparr>) = vote_inv me tr book"
  by (simp_all add: macro_reject_def add_signer_def vote_inv_def votes_consistent_def clear_backup_def)

section \<open>Adoption\<close>

lemma tip_take_append: "i \<le> length cps \<Longrightarrow> tip (take i (cps @ [c])) = tip (take i cps)"
  by simp

lemma candidate_height_le:
  assumes "chain_inv cps book" "bt_get (mb_candidate book) h = Some c"
  shows "unat h \<le> length cps"
proof -
  have "mc_height c = h" "candidate_ok cps c"
    using assms by (auto simp: chain_inv_def)
  then show ?thesis
    by (auto simp: candidate_ok_def Let_def)
qed

lemma votes_consistentD:
  assumes "votes_consistent cps me book" "v \<in> set (votes_of (mb_votes book) me)"
  shows "unat (vr_target v) \<le> length cps" "vr_source v = sat_sub (vr_target v) 1"
    and "unat (vr_target v) = length cps \<Longrightarrow> lock_get me (mb_locks book) = Some (vr_target v, vr_checkpoint v)"
    and "w \<in> set (votes_of (mb_votes book) me) \<Longrightarrow> vr_target v = vr_target w \<Longrightarrow> vr_checkpoint v = vr_checkpoint w"
  using assms unfolding votes_consistent_def by blast+

lemma votes_consistent_grow:
  assumes "votes_consistent cps me book" "mb_votes book' = mb_votes book"
  shows "votes_consistent (cps @ [c]) me book'"
proof -
  have "unat (vr_target v) \<le> length cps \<and> vr_source v = sat_sub (vr_target v) 1"
    if "v \<in> set (votes_of (mb_votes book) me)" for v
    using assms(1) that unfolding votes_consistent_def by blast
  moreover have "\<forall>v \<in> set (votes_of (mb_votes book) me). \<forall>w \<in> set (votes_of (mb_votes book) me).
      vr_target v = vr_target w \<longrightarrow> vr_checkpoint v = vr_checkpoint w"
    using assms(1) unfolding votes_consistent_def by blast
  ultimately show ?thesis
    unfolding votes_consistent_def assms(2) by fastforce
qed

lemma record_adoption_votes:
  assumes inv: "macro_inv tr book" "vote_inv me tr book"
    and c: "bt_get (mb_candidate book) height = Some c" "mc_hash c \<notin> mb_emitted_macro_qc book"
    and acts: "adopted acts = [c]" "open_partials me (tr @ acts) = {}"
  shows "vote_inv me (tr @ acts) (record_adoption height c qc book)"
proof -
  let ?cps = "adopted tr"
  have self: "mb_self_id (record_adoption height c qc book) = me"
    using inv(2) by (simp add: vote_inv_def record_adoption_def)
  show ?thesis
    unfolding vote_inv_def
  proof (intro conjI impI self)
    assume "length (adopted (tr @ acts)) < 2 ^ 64 \<and> distinct (hash_zero # map mc_hash (adopted (tr @ acts)))"
    then have len: "Suc (length ?cps) < 2 ^ 64" and dist: "distinct (hash_zero # map mc_hash ?cps)"
      by (auto simp: acts)
    then have chain: "chain_inv ?cps book"
      using inv(1) by (simp add: macro_inv_def)
    have old: "\<And>h d. bt_get (mb_candidate book) h = Some d \<Longrightarrow> mc_parent d = tip (take (unat h) ?cps)"
        "fst ` set (mt_mode_b_by_height (mb_timers book)) \<subseteq> {mb_next_height book}"
        "votes_consistent ?cps me book"
      using inv(2) len dist by (auto simp: vote_inv_def)
    have cand: "mc_height c = height" "candidate_ok ?cps c" "mc_hash c \<notin> mc_hash ` set ?cps"
      using chain c by (auto simp: chain_inv_def)
    then have "unat height = length ?cps"
      using candidate_ok_fresh(1) by blast
    then have height: "mb_next_height book = height"
      using chain by (simp add: chain_inv_def) (metis of_nat_unat ucast_id)
    show "\<forall>h d. bt_get (mb_candidate (record_adoption height c qc book)) h = Some d \<longrightarrow>
        mc_parent d = tip (take (unat h) (adopted (tr @ acts)))"
      using old(1) candidate_height_le [OF chain] by (simp add: record_adoption_def acts)
    show "fst ` set (mt_mode_b_by_height (mb_timers (record_adoption height c qc book)))
        \<subseteq> {mb_next_height (record_adoption height c qc book)}"
      using old(2) by (auto simp: record_adoption_def clear_mode_b_def clear_backup_def bt_retain_def height)
    show "votes_consistent (adopted (tr @ acts)) me (record_adoption height c qc book)"
      unfolding adopted_simps acts
      by (rule votes_consistent_grow [OF old(3)]) (simp add: record_adoption_def)
    show "\<forall>x \<in> open_partials me (tr @ acts). lock_get me (mb_locks (record_adoption height c qc book)) =
        Some (mb_next_height (record_adoption height c qc book), x)"
      by (simp add: acts)
  qed
qed

lemma settle_finality_extra:
  assumes "settle_finality cfg actions book = (actions', book')"
  shows "\<exists>extra. actions' = actions @ extra \<and> adopted extra = [] \<and>
      (\<forall>a \<in> set extra. adopted_by a = None \<and> own_partial me a = None) \<and>
      (\<forall>tr. vote_inv me tr book' = vote_inv me tr book)"
  using assms
  by (auto simp: settle_finality_def note_inactivity_leak_on_adoption_def Let_def leak_compute_def
      split: if_splits option.splits)

lemma adoption_votes:
  assumes inv: "macro_inv tr book" "vote_inv me tr book"
    and c: "bt_get (mb_candidate book) height = Some c" "mc_hash c \<notin> mb_emitted_macro_qc book"
    and acts: "adopted acts = [c]" "open_partials me (tr @ acts) = {}"
  shows "macro_post (\<lambda>a b. vote_inv me (tr @ a) b) E
    (bind_st (bump_reputation cfg signers (record_adoption height c qc book)) (\<lambda>_ book1.
       case settle_finality cfg acts book1 of (actions, book2) \<Rightarrow> (Ok actions, book2)))"
proof (rule macro_post_bind)
  let ?book = "record_adoption height c qc book"
  have rec: "vote_inv me (tr @ acts @ extra) ?book" if "adopted extra = []"
    "\<forall>a \<in> set extra. adopted_by a = None \<and> own_partial me a = None" for extra
  proof (rule record_adoption_votes [OF inv c])
    have "open_partials me (tr @ acts @ extra) = open_partials me (tr @ acts)"
      using that(2) unfolding open_partials_def append_assoc [symmetric] foldl_append [of _ _ _ extra]
      by (intro foldl_track_silent) blast
    then show "open_partials me (tr @ acts @ extra) = {}"
      by (simp add: acts(2))
  qed (simp add: acts(1) that(1))
  show "macro_post (\<lambda>_ b. \<exists>rep. b = ?book\<lparr>mb_reputation := rep\<rparr>) E (bump_reputation cfg signers ?book)"
    by (rule bump_reputation_post) blast
  fix x b
  assume "\<exists>rep. b = ?book\<lparr>mb_reputation := rep\<rparr>"
  then have b: "vote_inv me tr' b = vote_inv me tr' ?book" for tr'
    by auto
  obtain actions book2 where settle: "settle_finality cfg acts b = (actions, book2)"
    by (cases "settle_finality cfg acts b")
  then have "vote_inv me (tr @ actions) book2"
    using settle_finality_extra [OF settle, of me] rec b by auto
  then show "macro_post (\<lambda>a b. vote_inv me (tr @ a) b) E
      (case settle_finality cfg acts b of (actions, book2) \<Rightarrow> (Ok actions, book2))"
    by (simp add: settle)
qed

lemma finish_adoption_votes:
  assumes "macro_inv tr book" "vote_inv me tr book" "bt_get (mb_candidate book) height = Some c"
    "mc_hash c \<notin> mb_emitted_macro_qc book"
  shows "macro_post (\<lambda>a b. vote_inv me (tr @ a) b) (vote_inv me tr)
    (finish_macro_qc_adoption cfg height c qc signers book)"
  unfolding finish_macro_qc_adoption_def
  by (rule adoption_votes [OF assms]) (simp_all add: open_partials_def track_def)

lemma try_emit_mode_a_votes:
  assumes "macro_inv tr book" "vote_inv me tr book" "bt_get (mb_candidate book) height = Some c" "mc_hash c = h"
  shows "macro_post (\<lambda>a b. vote_inv me (tr @ a) b) (vote_inv me tr)
    (try_emit_mode_a_qc L cfg h height ctx book)"
  using assms unfolding try_emit_mode_a_qc_def
  by (auto simp: Let_def split: option.splits intro!: finish_adoption_votes)

lemma collect_flat_votes:
  assumes "macro_inv tr book" "vote_inv me tr book" "bt_get (mb_candidate book) height = Some c"
    "mc_hash c = bp_checkpoint_hash bp" "bp_checkpoint_hash bp \<notin> mb_emitted_macro_qc book"
  shows "macro_post (\<lambda>a b. vote_inv me (tr @ a) b) (vote_inv me tr)
    (collect_flat_partial L cfg bp vset mode height c book)"
  using assms unfolding collect_flat_partial_def
  by (auto simp: Let_def add_signer_def split: option.splits if_splits intro!: finish_adoption_votes)

lemma silent_aggregate [simp]:
  "silent me (case agg of None \<Rightarrow> [] | Some a \<Rightarrow> if P a then [BroadcastSubnetAggregate a] else [])"
  by (simp split: option.splits)

lemma vote_inv_silent_mid [simp]: "silent me a \<Longrightarrow> vote_inv me (tr @ a @ b) book = vote_inv me (tr @ b) book"
  by (simp add: vote_inv_def open_partials_def)

lemma collect_subnet_votes:
  assumes "macro_inv tr book" "vote_inv me tr book" "bt_get (mb_candidate book) height = Some c"
    "mc_hash c = bp_checkpoint_hash bp"
  shows "macro_post (\<lambda>a b. vote_inv me (tr @ a) b) (vote_inv me tr)
    (collect_subnet_partial L cfg bp ctx vset beacon assign height book)"
  using assms unfolding collect_subnet_partial_def
  by (auto simp: Let_def add_signer_def intro!: macro_post_bind [OF try_emit_mode_a_votes [of tr _ me height c]])

lemma on_bls_partial_votes:
  assumes inv: "macro_inv tr book" "vote_inv me tr book"
  shows "macro_post (\<lambda>a b. vote_inv me (tr @ a) b) (vote_inv me tr) (on_bls_partial L cfg bp ctx book)"
proof (cases "candidate_height book (bp_checkpoint_hash bp)")
  case None
  then show ?thesis
    using inv by (simp add: on_bls_partial_def)
next
  case (Some height)
  then obtain c where c: "bt_get (mb_candidate book) height = Some c" "mc_hash c = bp_checkpoint_hash bp"
    using macro_inv_candidate [OF inv(1)] by blast
  then show ?thesis
    using inv unfolding on_bls_partial_def
    by (auto simp: Some Let_def intro!: collect_subnet_votes [of tr _ me height c] collect_flat_votes)
qed

lemma on_macro_qc_received_votes:
  assumes inv: "macro_inv tr book" "vote_inv me tr book"
  shows "macro_post (\<lambda>a b. vote_inv me (tr @ a) b) (vote_inv me tr) (on_macro_qc_received L cfg qc ctx book)"
proof (cases "candidate_height book (mq_checkpoint_hash qc)")
  case None
  then show ?thesis
    using inv by (auto simp: on_macro_qc_received_def Let_def)
next
  case (Some height)
  then obtain c where c: "bt_get (mb_candidate book) height = Some c" "mc_hash c = mq_checkpoint_hash qc"
    using macro_inv_candidate [OF inv(1)] by blast
  then show ?thesis
    using inv unfolding on_macro_qc_received_def
    by (auto simp: Some Let_def open_partials_def track_def intro!: adoption_votes)
qed

lemma on_subnet_aggregate_votes:
  assumes inv: "macro_inv tr book" "vote_inv me tr book"
  shows "macro_post (\<lambda>a b. vote_inv me (tr @ a) b) (vote_inv me tr) (on_subnet_aggregate L cfg agg ctx book)"
proof (cases "candidate_height book (sa_checkpoint_hash agg)")
  case None
  then show ?thesis
    using inv by (simp add: on_subnet_aggregate_def)
next
  case (Some height)
  then obtain c where c: "bt_get (mb_candidate book) height = Some c" "mc_hash c = sa_checkpoint_hash agg"
    using macro_inv_candidate [OF inv(1)] by blast
  then show ?thesis
    using inv unfolding on_subnet_aggregate_def
    by (auto simp: Some Let_def split: option.splits intro!: try_emit_mode_a_votes [of tr _ me height c])
qed

section \<open>Signing\<close>

lemma try_lock_Ok:
  assumes "try_lock v height x lm = (Ok u, lm')"
  shows "lock_get v lm' = Some (height, x)"
    and "lock_get v lm = Some (height, y) \<Longrightarrow> y = x"
  using assms by (auto simp: try_lock_def lock_get_def Let_def split: option.splits if_splits)

lemma open_partials_one:
  assumes "\<forall>a \<in> set acts. adopted_by a = None \<and> own_partial me a \<in> {None, Some x}"
  shows "open_partials me (tr @ acts) \<subseteq> insert x (open_partials me tr)"
proof -
  have "foldl (track me) S acts \<subseteq> insert x S" for S
    using assms
  proof (induction acts arbitrary: S)
    case (Cons a acts)
    then have "track me S a \<subseteq> insert x S"
      by (auto simp: track_def split: option.splits)
    moreover have "foldl (track me) (track me S a) acts \<subseteq> insert x (track me S a)"
      using Cons by simp
    ultimately show ?case
      by auto
  qed auto
  then show ?thesis
    by (simp add: open_partials_def)
qed

text \<open>
  Signing the checkpoint \<open>x\<close> of the current height once the lock is taken, with or without
  recording a vote, keeps the invariant.
\<close>

lemma sign_votes:
  assumes inv: "macro_inv tr book" "vote_inv me tr book"
    and lock: "try_lock me height x (mb_locks book) = (Ok u, locks)"
    and now: "length (adopted tr) < 2 ^ 64 \<Longrightarrow> distinct (hash_zero # map mc_hash (adopted tr)) \<Longrightarrow>
      height = mb_next_height book"
    and acts: "\<forall>a \<in> set acts. adopted_by a = None \<and> own_partial me a \<in> {None, Some x}"
    and votes: "votes = mb_votes book \<or> (\<exists>r. votes = record_vote me r (mb_votes book) \<and>
      vr_target r = height \<and> vr_checkpoint r = x \<and> vr_source r = sat_sub height 1)"
  shows "vote_inv me (tr @ acts) (book\<lparr>mb_locks := locks, mb_votes := votes\<rparr>)"
proof -
  let ?book = "book\<lparr>mb_locks := locks, mb_votes := votes\<rparr>" and ?cps = "adopted tr"
  have ad: "adopted (tr @ acts) = ?cps"
    using acts by (simp add: adopted_Nil_iff)
  show ?thesis
    unfolding vote_inv_def ad
  proof (intro conjI impI)
    show "mb_self_id ?book = me"
      using inv(2) by (simp add: vote_inv_def)
    assume cond: "length ?cps < 2 ^ 64 \<and> distinct (hash_zero # map mc_hash ?cps)"
    then have chain: "mb_next_height book = of_nat (length ?cps)"
      using inv(1) by (simp add: macro_inv_def chain_inv_def)
    have old: "\<And>h d. bt_get (mb_candidate book) h = Some d \<Longrightarrow> mc_parent d = tip (take (unat h) ?cps)"
        "fst ` set (mt_mode_b_by_height (mb_timers book)) \<subseteq> {mb_next_height book}"
        "votes_consistent ?cps me book"
        "\<And>y. y \<in> open_partials me tr \<Longrightarrow> lock_get me (mb_locks book) = Some (mb_next_height book, y)"
      using inv(2) cond by (auto simp: vote_inv_def)
    have height: "height = mb_next_height book" "unat height = length ?cps"
      using now cond chain by (auto simp: unat_of_nat_small)
    show "\<forall>h d. bt_get (mb_candidate ?book) h = Some d \<longrightarrow> mc_parent d = tip (take (unat h) ?cps)"
      using old(1) by simp
    show "fst ` set (mt_mode_b_by_height (mb_timers ?book)) \<subseteq> {mb_next_height ?book}"
      using old(2) by simp
    show "\<forall>y \<in> open_partials me (tr @ acts). lock_get me (mb_locks ?book) = Some (mb_next_height ?book, y)"
      using open_partials_one [OF acts, of tr] old(4) try_lock_Ok [OF lock] height(1) by fastforce
    have same: "vr_checkpoint v = x" if "v \<in> set (votes_of (mb_votes book) me)" "vr_target v = height" for v
      using votes_consistentD(3) [OF old(3) that(1)] that(2) height(2) try_lock_Ok(2) [OF lock] by simp
    have members: "v \<in> set (votes_of (mb_votes book) me) \<or>
        vr_target v = height \<and> vr_checkpoint v = x \<and> vr_source v = sat_sub height 1"
      if "v \<in> set (votes_of votes me)" for v
      using votes that by (auto simp: votes_of_record)
    have eq: "vr_target v = height" if "unat (vr_target v) = length ?cps" for v
      using that height(2) by (simp add: word_unat_eq_iff)
    show "votes_consistent ?cps me ?book"
      unfolding votes_consistent_def
    proof (intro conjI ballI impI)
      fix v assume v: "v \<in> set (votes_of (mb_votes ?book) me)"
      show "unat (vr_target v) \<le> length ?cps" "vr_source v = sat_sub (vr_target v) 1"
        using members [of v] v votes_consistentD(1,2) [OF old(3)] height(2) by auto
      show "lock_get me (mb_locks ?book) = Some (vr_target v, vr_checkpoint v)"
        if "unat (vr_target v) = length ?cps"
        using members [of v] v eq [OF that] same try_lock_Ok(1) [OF lock] by auto
      fix w assume w: "w \<in> set (votes_of (mb_votes ?book) me)" "vr_target v = vr_target w"
      show "vr_checkpoint v = vr_checkpoint w"
      proof (cases "vr_target v = height")
        case True
        then show ?thesis
          using members [of v] members [of w] v w same by auto
      next
        case False
        then have "v \<in> set (votes_of (mb_votes book) me)" "w \<in> set (votes_of (mb_votes book) me)"
          using members [of v] members [of w] v w by auto
        then show ?thesis
          using votes_consistentD(4) [OF old(3)] w(2) by blast
      qed
    qed
  qed
qed

lemma vote_inv_cong:
  assumes "mb_self_id b = mb_self_id b'" "mb_candidate b = mb_candidate b'" "mb_votes b = mb_votes b'"
    "mt_mode_b_by_height (mb_timers b) = mt_mode_b_by_height (mb_timers b')"
    "mb_locks b = mb_locks b'" "mb_next_height b = mb_next_height b'"
  shows "vote_inv me tr b \<longleftrightarrow> vote_inv me tr b'"
  using assms by (simp add: vote_inv_def votes_consistent_def)

lemma vote_inv_insert:
  assumes "vote_inv me tr book"
    "length (adopted tr) < 2 ^ 64 \<Longrightarrow> mc_parent cp = tip (take (unat h) (adopted tr))"
  shows "vote_inv me tr (book\<lparr>mb_candidate := bt_insert h cp (mb_candidate book)\<rparr>)"
  using assms by (auto simp: vote_inv_def)

lemma vote_inv_candidate:
  assumes "vote_inv me tr book" "bt_get (mb_candidate book) h = Some c" "mc_parent cp = mc_parent c"
  shows "vote_inv me tr (book\<lparr>mb_candidate := bt_insert h cp (mb_candidate book)\<rparr>)"
  using assms by (auto simp: vote_inv_def)

text \<open>Under the hypotheses of the invariant only the current height's candidate extends the tip.\<close>

lemma votable_height:
  assumes inv: "macro_inv tr book" "vote_inv me tr book"
    and c: "bt_get (mb_candidate book) h = Some c" "mc_parent c = mb_last_macro_hash book"
    and cond: "length (adopted tr) < 2 ^ 64" "distinct (hash_zero # map mc_hash (adopted tr))"
  shows "h = mb_next_height book"
proof -
  let ?cps = "adopted tr"
  have chain: "chain_inv ?cps book"
    using inv(1) cond by (simp add: macro_inv_def)
  then have eq: "tip (take (unat h) ?cps) = tip ?cps" and le: "unat h \<le> length ?cps"
    using inv(2) c cond candidate_height_le [OF chain c(1)] by (auto simp: vote_inv_def chain_inv_def)
  define hs where "hs = hash_zero # map mc_hash ?cps"
  have tip: "tip (take i ?cps) = hs ! i" if "i \<le> length ?cps" for i
    using that tip_take [of i ?cps] by (cases i) (auto simp: hs_def tip_def)
  have "hs ! unat h = hs ! length ?cps"
    using eq le tip [of "unat h"] tip [of "length ?cps"] by simp
  then have "unat h = length ?cps"
    using cond(2) le by (subst (asm) nth_eq_iff_index_eq) (auto simp: hs_def)
  then show ?thesis
    using chain by (simp add: chain_inv_def) (metis of_nat_unat ucast_id)
qed

lemma vote_on_checkpoint_votes:
  assumes inv: "macro_inv tr book" "vote_inv me tr book"
    and c: "bt_get (mb_candidate book) (mc_height cp) = Some c" "mc_hash c = mc_hash cp"
      "mc_parent c = mc_parent cp" "mc_parent cp = mb_last_macro_hash book"
    and lock: "try_lock me (mc_height cp) (mc_hash cp) (mb_locks book) = (Ok u, locks)"
  shows "macro_post (\<lambda>a b. vote_inv me (tr @ a) b) (vote_inv me tr)
    (vote_on_checkpoint L cfg ctx vset beacon mode cp (book\<lparr>mb_locks := locks\<rparr>))"
proof -
  define base where "base = book\<lparr>mb_candidate := bt_insert (mc_height cp) cp (mb_candidate book),
    mb_two_chain := adopt cp (mb_two_chain book)\<rparr>"
  define votes where "votes = record_vote me (own_vote L ctx (mc_height cp) (mc_hash cp)) (mb_votes book)"
  have self: "mb_self_id book = me"
    using inv(2) by (simp add: vote_inv_def)
  have vb: "vote_inv me tr base"
    using vote_inv_candidate [OF inv(2) c(1)] c(3) by (simp add: base_def)
  have mb: "macro_inv tr base"
  proof -
    have "base = book\<lparr>mb_two_chain := adopt cp (mb_two_chain book),
        mb_candidate := bt_insert (mc_height cp) cp (mb_candidate book)\<rparr>"
      by (simp add: base_def)
    then show ?thesis
      using vote_chain [OF inv(1) c(1,2,4)] by simp
  qed
  have now: "mc_height cp = mb_next_height base"
    if "length (adopted tr) < 2 ^ 64" "distinct (hash_zero # map mc_hash (adopted tr))"
    using votable_height [OF inv c(1) _ that] c(3,4) by (simp add: base_def)
  have signed: "vote_inv me (tr @ acts) (base\<lparr>mb_locks := locks, mb_votes := votes\<rparr>)"
    if "\<forall>a \<in> set acts. adopted_by a = None \<and> own_partial me a \<in> {None, Some (mc_hash cp)}" for acts
    using lock by (intro sign_votes [OF mb vb _ now that])
      (auto simp: base_def votes_def own_vote_def Let_def)
  have cong: "vote_inv me tr' b = vote_inv me tr' (base\<lparr>mb_locks := locks, mb_votes := votes\<rparr>)"
    if "mb_self_id b = me" "mb_candidate b = mb_candidate base" "mb_votes b = votes"
      "mt_mode_b_by_height (mb_timers b) = mt_mode_b_by_height (mb_timers base)" "mb_locks b = locks"
      "mb_next_height b = mb_next_height base" for tr' b
    using that self by (intro vote_inv_cong) (simp_all add: base_def)
  have quiet: "\<forall>a \<in> set (self_scan vs v). adopted_by a = None \<and> own_partial me a = None" for vs v
    by (auto simp: self_scan_def split: option.splits)
  show ?thesis
    unfolding vote_on_checkpoint_def Let_def
  proof (rule macro_post_call, goal_cases)
    case 1
    show ?case
      using signed [of "[]"] by (subst cong) (simp_all add: self base_def votes_def add_signer_def clear_backup_def)
  next
    case (2 assign)
    show ?case
    proof (cases "mode = ModeASubnet")
      case True
      show ?thesis
        unfolding if_P [OF True] macro_post_simps
        by (rule iffD2 [OF cong signed])
          (use quiet in \<open>auto simp: self base_def votes_def add_signer_def clear_backup_def split: option.splits\<close>)
    next
      case False
      show ?thesis
        unfolding if_not_P [OF False] macro_post_simps
        by (rule iffD2 [OF cong signed])
          (use quiet in \<open>auto simp: self base_def votes_def add_signer_def clear_backup_def\<close>)
    qed
  qed
qed

definition agrees_with_candidate :: "MacroCheckpoint \<Rightarrow> MacroBook \<Rightarrow> bool" where
  "agrees_with_candidate cp book \<longleftrightarrow> (\<forall>c. bt_get (mb_candidate book) (mc_height cp) = Some c \<longrightarrow>
     mc_hash c = mc_hash cp \<longrightarrow> mc_parent c = mc_parent cp)"

lemma silent_slash [simp]: "silent me [EmitSlashEvidence v ev]"
  by simp

lemma vote_inv_suppressed:
  assumes "vote_inv me tr book" "try_lock me h x (mb_locks book) = (r, locks)" "\<forall>u. r \<noteq> Ok u"
  shows "vote_inv me tr (book\<lparr>mb_locks := locks\<rparr>)"
proof -
  have "locks = mb_locks book"
    using assms(2,3) by (auto simp: try_lock_def Let_def split: option.splits if_splits)
  then show ?thesis
    using assms(1) by simp
qed

lemma on_macro_proposal_votes:
  assumes inv: "macro_inv tr book" "vote_inv me tr book" and honest: "agrees_with_candidate (mp_checkpoint p) book"
  shows "macro_post (\<lambda>a b. vote_inv me (tr @ a) b) (vote_inv me tr) (on_macro_proposal L cfg p ctx book)"
proof -
  let ?I = "\<lambda>b. macro_inv tr b \<and> vote_inv me tr b \<and> agrees_with_candidate (mp_checkpoint p) b"
  have beacon: "macro_post (\<lambda>_. ?I) (vote_inv me tr)
      (if bt_get (mb_candidate_beacon book) height = None
       then call (beacon_current ctx) book (\<lambda>b.
         (Ok (), book\<lparr>mb_candidate_beacon := bt_insert height b (mb_candidate_beacon book)\<rparr>))
       else (Ok (), book))" for height
    using inv honest by (auto simp: agrees_with_candidate_def)
  have vote: "macro_post (\<lambda>a b. vote_inv me (tr @ a) b) (vote_inv me tr)
      (case try_lock (mb_self_id b) (mc_height cp) (mc_hash cp) (mb_locks b) of
         (Ok _, locks) \<Rightarrow> vote_on_checkpoint L cfg ctx vset beacon mode cp (b\<lparr>mb_locks := locks\<rparr>)
       | (_, locks) \<Rightarrow> (Ok [], b\<lparr>mb_locks := locks, mb_suppressed_conflicts := n\<rparr>))"
    if "?I b" "bt_get (mb_candidate b) (mc_height cp) = Some c" "mc_hash c = mc_hash cp"
      "mc_parent cp = mb_last_macro_hash b" "cp = mp_checkpoint p" for b cp c vset beacon mode n
  proof -
    have self: "mb_self_id b = me" "mc_parent c = mc_parent cp"
      using that by (auto simp: vote_inv_def agrees_with_candidate_def)
    obtain r locks where lock: "try_lock me (mc_height cp) (mc_hash cp) (mb_locks b) = (r, locks)"
      by (cases "try_lock me (mc_height cp) (mc_hash cp) (mb_locks b)")
    show ?thesis
    proof (cases r)
      case (Ok u)
      with that self lock show ?thesis
        by (auto intro!: vote_on_checkpoint_votes)
    qed (use that self lock vote_inv_suppressed [of me tr b, OF _ lock] in auto)
  qed
  have vote': "macro_post (\<lambda>a b. vote_inv me (tr @ a) b) (vote_inv me tr)
      (case try_lock (mb_self_id b) (mc_height cp) (mc_hash cp) (mb_locks b) of
         (Ok _, locks) \<Rightarrow> vote_on_checkpoint L cfg ctx vset beacon mode cp
           (b\<lparr>mb_proposals_seen := q, mb_locks := locks\<rparr>)
       | (_, locks) \<Rightarrow> (Ok [], b\<lparr>mb_proposals_seen := q, mb_locks := locks, mb_suppressed_conflicts := n\<rparr>))"
    if "?I b" "bt_get (mb_candidate b) (mc_height cp) = Some c" "mc_hash c = mc_hash cp"
      "mc_parent cp = mb_last_macro_hash b" "cp = mp_checkpoint p" for b cp c vset beacon mode n q
    using vote [of "b\<lparr>mb_proposals_seen := q\<rparr>" cp c vset beacon mode n] that
    by (simp add: agrees_with_candidate_def)
  show ?thesis
    unfolding on_macro_proposal_def Let_def
    by (intro macro_post_call inv macro_post_bind [OF beacon])
      (auto split: option.splits intro!: vote')
qed

section \<open>Candidates and timers\<close>

lemma backup_action_frame:
  assumes "vote_inv me tr book" "backup_propose_action cfg height (mb_timers book) = (a, timers)"
  shows "vote_inv me tr (book\<lparr>mb_timers := timers\<rparr>)" "silent me [a]"
proof -
  have "mt_mode_b_by_height timers = mt_mode_b_by_height (mb_timers book)" and "silent me [a]"
    using assms(2)
    by (auto simp: backup_propose_action_def mt_alloc_id_def schedule_backup_propose_def split: prod.splits)
  moreover have "vote_inv me tr (book\<lparr>mb_timers := timers\<rparr>) = vote_inv me tr book"
    by (rule vote_inv_cong) (simp_all add: calculation)
  ultimately show "vote_inv me tr (book\<lparr>mb_timers := timers\<rparr>)" "silent me [a]"
    using assms(1) by auto
qed

lemma propose_candidate_votes:
  assumes "vote_inv me tr book" "silent me actions" "macro_inv tr book"
  shows "macro_post (\<lambda>a b. silent me a \<and> vote_inv me tr b \<and> macro_inv tr b \<and>
      mb_next_height b = mb_next_height book) (vote_inv me tr)
    (propose_candidate cfg ctx beacon height candidate schedule actions book)"
  using assms unfolding propose_candidate_def
  by (auto dest: backup_action_frame split: prod.splits)

lemma mode_b_action_frame:
  assumes "vote_inv me tr book" "mode_b_deadline_action cfg (mb_next_height book) (mb_timers book) = (a, timers)"
  shows "vote_inv me tr (book\<lparr>mb_timers := timers\<rparr>)" "silent me [a]"
proof -
  obtain tid where "mt_mode_b_by_height timers =
      bt_insert (mb_next_height book) tid (mt_mode_b_by_height (mb_timers book))"
    using assms(2)
    by (auto simp: mode_b_deadline_action_def mt_alloc_id_def schedule_mode_b_deadline_def split: prod.splits)
  then have "fst ` set (mt_mode_b_by_height timers) =
      insert (mb_next_height book) (fst ` set (mt_mode_b_by_height (mb_timers book)))"
    by (simp add: set_fst_bt_insert)
  then show "vote_inv me tr (book\<lparr>mb_timers := timers\<rparr>)"
    using assms(1) by (auto simp: vote_inv_def)
  show "silent me [a]"
    using assms(2) by (auto simp: mode_b_deadline_action_def split: prod.splits)
qed

lemma push_micro_hash_votes:
  assumes inv: "macro_inv tr book" "vote_inv me tr book" and acts: "silent me actions"
  shows "macro_post (\<lambda>a b. silent me a \<and> vote_inv me tr b) (vote_inv me tr)
    (push_micro_hash L cfg ctx vset h actions book)"
proof (cases "Suc (length (mb_micro_ring book)) < unat (macro_window_w (cfg_macro_fin cfg))")
  case True
  then show ?thesis
    using inv acts by (simp add: push_micro_hash_def Let_def)
next
  case False
  let ?h = "mb_next_height book"
  define book1 where "book1 x root = book\<lparr>mb_micro_ring := x, mb_candidate := bt_insert ?h
      (build_checkpoint L ?h 0 (mb_last_macro_hash book) root) (mb_candidate book)\<rparr>" for x root
  have m: "macro_inv tr (book1 x root)" for x root
    using inv(1)
    by (auto simp: book1_def macro_inv_def chain_inv_def build_checkpoint_def candidate_ok_def Let_def
        unat_of_nat_small)
  have v: "vote_inv me tr (book1 x root)" for x root
    using inv vote_inv_insert [of me tr "book\<lparr>mb_micro_ring := x\<rparr>"]
    by (simp add: book1_def macro_inv_def chain_inv_def build_checkpoint_def unat_of_nat_small)
  have next_h: "mb_next_height (book1 x root) = ?h" for x root
    by (simp add: book1_def)
  have finish: "macro_post (\<lambda>a b. silent me a \<and> vote_inv me tr b) (vote_inv me tr)
      (bind_st (propose_candidate cfg ctx beacon ?h candidate schedule actions b) (\<lambda>actions2 book3.
         if sim_force_ke (cfg_aggregation cfg) = None then
           (case mode_b_deadline_action cfg ht (mb_timers book3) of (a, timers) \<Rightarrow>
             (Ok (actions2 @ [a]), book3\<lparr>mb_timers := timers\<rparr>))
         else (Ok actions2, book3)))"
    if "vote_inv me tr b" "macro_inv tr b" "mb_next_height b = ht" for b beacon candidate schedule ht
    using that mode_b_action_frame
    by (intro macro_post_bind [OF propose_candidate_votes [OF that(1) acts that(2)]])
      (auto split: prod.splits)
  show ?thesis
    using False m v next_h unfolding push_micro_hash_def Let_def
    by (auto simp: book1_def intro!: finish)
qed

lemma push_micro_hashes_votes:
  assumes "macro_inv tr book" "vote_inv me tr book" "silent me actions"
  shows "macro_post (\<lambda>a b. silent me a \<and> vote_inv me tr b) (vote_inv me tr)
    (push_micro_hashes L cfg ctx vset hs actions book)"
  using assms
proof (induction hs arbitrary: actions book)
  case (Cons h hs)
  have "macro_post (\<lambda>a b. (silent me a \<and> vote_inv me tr b) \<and> (quiet a \<and> macro_inv tr b)) (vote_inv me tr)
      (push_micro_hash L cfg ctx vset h actions book)"
    using push_micro_hash_votes [OF Cons.prems, of L cfg ctx vset h]
      push_micro_hash_inv [OF Cons.prems(1), of actions L cfg ctx vset h] Cons.prems(3)
    by (auto simp: macro_post_def silent_quiet split: prod.splits outcome.splits)
  then show ?case
    using Cons.IH by (auto intro!: macro_post_bind)
qed simp

lemma on_backup_timer_votes:
  assumes "vote_inv me tr book" "silent me actions"
  shows "macro_post (\<lambda>a b. silent me a \<and> vote_inv me tr b) (vote_inv me tr)
    (on_backup_timer L ctx height actions book)"
  using assms unfolding on_backup_timer_def Let_def by (auto split: option.splits)

lemma vote_inv_clear_mode_b:
  assumes "vote_inv me tr book"
  shows "vote_inv me tr (book\<lparr>mb_timers := clear_mode_b height (mb_timers book)\<rparr>)"
proof -
  let ?heights = "\<lambda>b. fst ` set (mt_mode_b_by_height (mb_timers b))"
  have "?heights (book\<lparr>mb_timers := clear_mode_b height (mb_timers book)\<rparr>) \<subseteq> ?heights book"
    by (auto simp: clear_mode_b_def bt_retain_def)
  then have "?heights (book\<lparr>mb_timers := clear_mode_b height (mb_timers book)\<rparr>) \<subseteq> {mb_next_height book}"
    if "?heights book \<subseteq> {mb_next_height book}"
    using that by (rule subset_trans)
  with assms show ?thesis
    by (simp add: vote_inv_def)
qed

lemma mode_b_sign_votes:
  assumes inv: "macro_inv tr book" "vote_inv me tr book" and acts: "silent me actions"
    and now: "length (adopted tr) < 2 ^ 64 \<Longrightarrow> distinct (hash_zero # map mc_hash (adopted tr)) \<Longrightarrow>
      height = mb_next_height book"
  shows "macro_post (\<lambda>a b. vote_inv me (tr @ a) b) (vote_inv me tr)
    (mode_b_sign L cfg ctx height cp actions book)"
proof -
  have self: "mb_self_id book = me"
    using inv(2) by (simp add: vote_inv_def)
  obtain r locks where lock: "try_lock me height (mc_hash cp) (mb_locks book) = (r, locks)"
    by (cases "try_lock me height (mc_hash cp) (mb_locks book)")
  have quiet: "\<forall>a \<in> set actions. adopted_by a = None \<and> own_partial me a = None"
    using acts by (auto simp: silent_def quiet_def adopted_Nil_iff)
  show ?thesis
  proof (cases "\<exists>u. r = Ok u")
    case False
    with vote_inv_suppressed [OF inv(2) lock] acts show ?thesis
      by (cases r) (auto simp: mode_b_sign_def Let_def self lock)
  next
    case True
    then obtain u where u: "r = Ok u" ..
    have signed: "vote_inv me (tr @ as) (book\<lparr>mb_locks := locks\<rparr>)"
      if "\<forall>a \<in> set as. adopted_by a = None \<and> own_partial me a \<in> {None, Some (mc_hash cp)}" for as
      using sign_votes [OF inv lock [unfolded u] now that, of "mb_votes book"] by simp
    show ?thesis
      using quiet signed [of "[]"]
      by (auto simp: mode_b_sign_def Let_def self lock u intro!: signed)
  qed
qed

lemma on_mode_b_timer_votes:
  assumes inv: "macro_inv tr book" "vote_inv me tr book" and acts: "silent me actions"
    and timer: "height \<in> fst ` set (mt_mode_b_by_height (mb_timers book))"
  shows "macro_post (\<lambda>a b. vote_inv me (tr @ a) b) (vote_inv me tr)
    (on_mode_b_timer L cfg ctx height actions book)"
proof -
  have "height = mb_next_height book"
    if "length (adopted tr) < 2 ^ 64" "distinct (hash_zero # map mc_hash (adopted tr))"
    using inv(2) timer that by (auto simp: vote_inv_def)
  then show ?thesis
    using inv acts vote_inv_clear_mode_b [OF inv(2), of height] unfolding on_mode_b_timer_def Let_def
    by (auto split: option.splits intro!: mode_b_sign_votes)
qed

lemma macro_step_votes:
  assumes inv: "macro_inv tr book" "vote_inv me tr book" and inp: "honest_input me book inp"
  shows "macro_post (\<lambda>a b. vote_inv me (tr @ a) b) (vote_inv me tr) (macro_step L cfg ctx inp book)"
proof -
  have silent: "macro_post (\<lambda>a b. vote_inv me (tr @ a) b) (vote_inv me tr) r"
    if "macro_post (\<lambda>a b. silent me a \<and> vote_inv me tr b) (vote_inv me tr) r" for r
    using that by (rule macro_post_mono) auto
  show ?thesis
  proof (cases inp)
    case (MicroCertificates acts)
    with inv inp show ?thesis
      by (auto simp: on_local_micro_qcs_def Let_def intro!: silent push_micro_hashes_votes)
  next
    case (TimerIn tid acts)
    have "height \<in> fst ` set (mt_mode_b_by_height (mb_timers book))"
      if "height_for_mode_b_timer tid (mb_timers book) = Some height" for height
      using that unfolding height_for_mode_b_timer_def by (auto simp: find_Some_iff) (metis fst_conv image_eqI nth_mem)
    with TimerIn inv inp show ?thesis
      by (auto simp: macro_on_timer_fired_def split: option.splits
          intro!: on_mode_b_timer_votes intro: silent on_backup_timer_votes)
  next
    case (ProposalIn p)
    with inv inp show ?thesis
      by (auto simp: agrees_with_candidate_def intro!: on_macro_proposal_votes)
  qed (use inv in \<open>auto intro: on_bls_partial_votes on_macro_qc_received_votes on_subnet_aggregate_votes\<close>)
qed

theorem macro_reach_votes:
  assumes "macro_reach L cfg me hosts (honest_input me) tr book"
  shows "vote_inv me tr book"
  using assms
proof induction
  case start
  show ?case
    by (simp add: vote_inv_def macro_book_new_def macro_timers_new_def votes_consistent_def
        votes_of_def vote_book_new_def open_partials_def) (simp add: bt_empty_def)
next
  case (step tr book ctx inp acts book')
  then show ?case
    using macro_step_votes [OF macro_reach_inv, of L cfg me hosts _ tr book me inp L cfg ctx] by simp
next
  case (fail tr book ctx inp e book')
  then show ?case
    using macro_step_votes [OF macro_reach_inv, of L cfg me hosts _ tr book me inp L cfg ctx] by simp
qed

end
