(* ===== verification/Macro_Samples.thy ===== *)
theory Macro_Samples
  imports Macro_Votes Sample_Committee
begin

text \<open>
  A concrete run of macro finality for validator 3 of a committee of four, on which the theorems are
  instantiated. The preimage of a checkpoint is its encoding, height, epoch, parent and micro root, and its
  digest is the micro root plus the parent minus ten times the height, so a checkpoint of height \<open>h\<close> on
  parent \<open>10 * h\<close> has its micro root as hash, and a checkpoint on another parent another hash. The micro root
  of one micro checkpoint is its hash, and every proposer lottery is a tie, won by the least identities.
  A window is one micro checkpoint long.
\<close>

definition checkpoint_bytes :: "Height \<Rightarrow> Epoch \<Rightarrow> Hash32 \<Rightarrow> Hash32 \<Rightarrow> bytes" where
  "checkpoint_bytes h e p m = rev (be_bytes 8 h) @ rev (be_bytes 8 e) @ be_bytes 32 p @ be_bytes 32 m"

definition checkpoint_digest :: "bytes \<Rightarrow> Hash32" where
  "checkpoint_digest bs = word_of_be (drop 48 bs) + word_of_be (take 32 (drop 16 bs)) -
     10 * ucast (word_of_be (rev (take 8 bs)) :: u64)"

text \<open>The preimages are told apart by their lengths: 108 bytes for a checkpoint, 98 for the lottery.\<close>

definition macro_lib :: "768 word crypto_lib" where
  "macro_lib = sample_lib\<lparr>
     blake3_hash := (\<lambda>bs. if length bs = 108 then checkpoint_digest (drop 28 bs) else if 80 \<le> length bs then 0
       else word_of_be (drop (length bs - 32) bs)),
     borsh_checkpoint_preimage := checkpoint_bytes\<rparr>"

definition macro_cfg :: Config where
  "macro_cfg = default_table_17_1\<lparr>
     cfg_macro_fin := (cfg_macro_fin default_table_17_1)\<lparr>macro_window_w := 1\<rparr>,
     cfg_aggregation := (cfg_aggregation default_table_17_1)\<lparr>sim_force_ke := Some 0\<rparr>\<rparr>"

abbreviation macro_host :: "unit HostContext" where
  "macro_host \<equiv> sample_host 4 3"

lemma macro_cfg_simps [simp]:
  "macro_window_w (cfg_macro_fin macro_cfg) = 1"
  "sim_force_ke (cfg_aggregation macro_cfg) = Some 0"
  "inactivity_leak_trigger_windows (cfg_macro_fin macro_cfg) = 4"
  by (simp_all add: macro_cfg_def default_table_17_1_def)

lemma macro_ports [simp]:
  "macro_set macro_host = Ok (sample_set 4)"
  "beacon_current macro_host = Ok 0"
  by (simp_all add: macro_set_def sample_host_def)

lemma length_ascii [simp]: "length (ascii s) = length s"
  by (simp add: ascii_def)

lemma checkpoint_digest_bytes: "checkpoint_digest (checkpoint_bytes h e p m) = m + p - 10 * ucast h"
  by (simp add: checkpoint_digest_def checkpoint_bytes_def word_of_be_bytes)

lemma macro_hashes:
  "macro_sortition_beta macro_lib b h v = 0"
  "micro_root_of_ring macro_lib [q] = q"
  "mc_hash (build_checkpoint macro_lib h e p m) = m + p - 10 * ucast h"
proof -
  have "length (checkpoint_bytes h e p m) = 80"
    by (simp add: checkpoint_bytes_def)
  then show "mc_hash (build_checkpoint macro_lib h e p m) = m + p - 10 * ucast h"
    by (simp add: build_checkpoint_def blake3_with_dst_def dst_preimage_def macro_lib_def dst_defs checkpoint_digest_bytes)
qed (simp_all add: macro_sortition_beta_def micro_root_of_ring_def blake3_with_dst_def dst_preimage_def
    macro_lib_def dst_defs word_of_be_bytes)

lemma macro_schedule:
  "vrf_sortition macro_lib 0 (sample_set 4) h Map.empty = Ok \<lparr> ps_height = h, ps_primary = 1, ps_backup = 2 \<rparr>"
proof -
  define s where "s = vrf_sortition_score 0 (vs_total_stake (sample_set 4)) 100 reputation_neutral"
  have "scored_entries macro_lib 0 (sample_set 4) h Map.empty = [(1, s), (2, s), (3, s), (4, s)]"
    by (simp add: scored_entries_def sample_entries sample_entry_def macro_hashes s_def)
  then show ?thesis
    by (simp add: vrf_sortition_def sort_scored_def f64_cmp_refl word_less_nat_alt)
qed

section \<open>Steps of the sample run\<close>

text \<open>The checkpoint of height \<open>h\<close> over micro checkpoint \<open>q\<close>, its certificate by validators 1 to 3, and a
  proposal of it by validator \<open>v\<close>.\<close>

definition ck :: "Height \<Rightarrow> Hash32 \<Rightarrow> Hash32 \<Rightarrow> MacroCheckpoint" where
  "ck h p q = \<lparr> mc_height = h, mc_epoch = 0, mc_parent = p, mc_micro_root = q, mc_hash = q \<rparr>"

definition micro :: "Hash32 \<Rightarrow> macro_input" where
  "micro q = MicroCertificates [BroadcastMicroQc \<lparr> uq_checkpoint_hash = q,
     uq_agg = \<lparr> as_sig = 0, as_bitmap = [7] \<rparr> \<rparr>]"

definition cert :: "Hash32 \<Rightarrow> MacroQc" where
  "cert q = \<lparr> mq_checkpoint_hash = q, mq_mode = Mode0Flat, mq_agg = \<lparr> as_sig = 30, as_bitmap = [7] \<rparr> \<rparr>"

definition offer :: "MacroCheckpoint \<Rightarrow> nat \<Rightarrow> MacroProposal" where
  "offer cp v = \<lparr> mp_checkpoint = cp, mp_proposer = of_nat v, mp_vrf_proof = 0, mp_proposer_sig = of_nat (129 * v) \<rparr>"

lemma ck_simps [simp]: "mc_height (ck h p q) = h" "mc_parent (ck h p q) = p" "mc_hash (ck h p q) = q"
  "mc_micro_root (ck h p q) = q" "mc_epoch (ck h p q) = 0"
  by (simp_all add: ck_def)

lemma build_ck:
  "p = 10 * ucast h \<Longrightarrow> build_checkpoint macro_lib h 0 p (micro_root_of_ring macro_lib [q]) = ck h p q"
  using macro_hashes(3) [of h 0 p q] by (simp add: macro_hashes(2)) (simp add: build_checkpoint_def ck_def)

lemma micro_step:
  assumes "mb_last_macro_hash b = 10 * ucast (mb_next_height b)" "mb_micro_ring b = []" "mb_reputation b = Map.empty" "mb_self_id b = 3"
  shows "macro_step macro_lib macro_cfg macro_host (micro q) b = (Ok [BroadcastMicroQc \<lparr> uq_checkpoint_hash = q,
      uq_agg = \<lparr> as_sig = 0, as_bitmap = [7] \<rparr> \<rparr>],
    b\<lparr>mb_micro_ring := [],
      mb_candidate := bt_insert (mb_next_height b) (ck (mb_next_height b) (mb_last_macro_hash b) q) (mb_candidate b),
      mb_candidate_beacon := bt_insert (mb_next_height b) 0 (mb_candidate_beacon b)\<rparr>)"
  using assms
  by (simp add: micro_def on_local_micro_qcs_def List.map_filter_def micro_qc_hash_of_def push_micro_hash_def
      Let_def build_ck macro_schedule propose_candidate_def)

lemma sample_marked: "marked_entries (sample_set 4) [7] = [sample_entry 1, sample_entry 2, sample_entry 3]"
proof -
  have upt: "[0..<4] = [0, 1, 2, 3 :: nat]"
    by code_simp
  show ?thesis
    by (simp add: marked_entries_def sample_length upt bitmap_bit_def test_slot_def sample_entries)
qed

lemma macro_lib_fields [simp]:
  "blst_pk_uncompress macro_lib = (\<lambda>k. Some (ucast k))"
  "blst_sig_uncompress macro_lib = Some"
  "blst_sig_verify macro_lib = (\<lambda>s msg dst pk. s = pk * sample_digest msg dst)"
  "blst_agg_pk macro_lib = (\<lambda>ks. Some (sum_list ks))"
  "blst_agg_sig macro_lib = (\<lambda>ks. Some (sum_list ks))"
  "borsh_macro_checkpoint macro_lib = (\<lambda>cp. be_bytes 2 (mc_hash cp))"
  by (simp_all add: macro_lib_def sample_lib_def)

lemma sample_key:
  "pk_from_entry macro_lib (sample_entry 1) = Some 1" "pk_from_entry macro_lib (sample_entry 2) = Some 2"
  "pk_from_entry macro_lib (sample_entry 3) = Some 3"
  by (simp_all add: pk_from_entry_def pk_from_bytes_def sample_entry_def)

lemma cert_verifies: "mc_hash c = q \<Longrightarrow> verify_macro_qc macro_lib (sample_set 4) (cert q) c"
  by (simp add: verify_macro_qc_def cert_def sample_marked sample_key verify_aggregate_def checkpoint_message_def
      sample_digest_def del: One_nat_def)

lemma cert_step:
  assumes "candidate_height b q = Some h" "bt_get (mb_candidate b) h = Some c" "mc_hash c = q"
    "q \<notin> mb_emitted_macro_qc b" "mb_partials b q = None"
  shows "macro_step macro_lib macro_cfg macro_host (CertificateIn (cert q)) b =
    (case settle_finality macro_cfg [PersistMacroCheckpoint c, PersistMacroQc (cert q),
       UpdateBlobStatus (blob_id_of_checkpoint c) Justified] (record_adoption h c (cert q) b) of
     (actions, b') \<Rightarrow> (Ok actions, b'))"
proof -
  have "mq_checkpoint_hash (cert q) = q"
    by (simp add: cert_def)
  then show ?thesis
    using assms by (simp add: on_macro_qc_received_def Let_def signers_of_def bump_reputation_def cert_verifies)
qed

lemma offer_verifies:
  assumes "v = 1 \<or> v = 2"
  shows "macro_verify_proposal macro_lib (sample_set 4) (offer cp v) alpha"
proof -
  have "find_entry (sample_set 4) (of_nat v) = Some (sample_entry v)"
    using assms by (auto simp: find_entry_def sample_entries sample_entry_def)
  moreover have "vrf_pubkey_is_zero (ve_vrf_pubkey (sample_entry v))"
    by (simp add: sample_entry_def vrf_pubkey_is_zero_def)
  ultimately show ?thesis
    using assms sample_key
    by (auto simp: macro_verify_proposal_def offer_def bls_verify_def proposer_message_def sample_digest_def
        simp del: One_nat_def)
qed

lemma vote_step:
  assumes v: "v = 1 \<or> v = 2" and b: "bt_get (mb_candidate_beacon b) (mc_height cp) = Some 0"
      "mb_reputation b = Map.empty" "mb_proposals_seen b (mc_height cp, of_nat v) = None" "mb_self_id b = 3"
      "mb_mode_b_active b = {}"
    and c: "mc_parent cp = mb_last_macro_hash b" "bt_get (mb_candidate b) (mc_height cp) = Some c"
      "mc_micro_root c = mc_micro_root cp" "mc_hash c = mc_hash cp"
    and lock: "try_lock 3 (mc_height cp) (mc_hash cp) (mb_locks b) = (Ok u, locks)"
  shows "macro_step macro_lib macro_cfg macro_host (ProposalIn (offer cp v)) b =
    vote_on_checkpoint macro_lib macro_cfg macro_host (sample_set 4) 0 Mode0Flat cp
      (b\<lparr>mb_proposals_seen := (mb_proposals_seen b)((mc_height cp, of_nat v) \<mapsto> [offer cp v]),
         mb_locks := locks\<rparr>)"
proof -
  have "active_mode b' macro_cfg (sample_set 4) h = Ok Mode0Flat" if "mb_mode_b_active b' = {}" for b' h
    using that by (simp add: active_mode_def validator_count_def sample_length u32_try_from_def compute_ke_def
        mode_a_active_def)
  moreover have "mp_proposer (offer cp v) = of_nat v" "mp_checkpoint (offer cp v) = cp"
    by (simp_all add: offer_def)
  moreover have "of_nat v = (1 :: ValidatorId) \<or> of_nat v = (2 :: ValidatorId)"
    using v by auto
  ultimately show ?thesis
    using b c lock offer_verifies [OF v]
    by (auto simp: on_macro_proposal_def Let_def beacon_for_height_def macro_schedule)
qed

lemma vote_result:
  assumes "mb_self_id b = 3"
  shows "\<exists>b'. vote_on_checkpoint macro_lib macro_cfg macro_host (sample_set 4) 0 Mode0Flat cp b =
      (Ok (self_scan (mb_votes b') 3 @ [BroadcastBlsPartial \<lparr> bp_subnet = 0, bp_validator = 3,
          bp_checkpoint_hash = mc_hash cp, bp_sig = signer_sign_bls macro_host DST_MACRO_CHECKPOINT
            (checkpoint_message macro_lib cp) \<rparr>, UpdateBlobStatus (blob_id_of_checkpoint cp) SoftConfirmed]), b') \<and>
    mb_votes b' = record_vote 3 (own_vote macro_lib macro_host (mc_height cp) (mc_hash cp)) (mb_votes b) \<and>
    mb_candidate b' = bt_insert (mc_height cp) cp (mb_candidate b) \<and>
    mb_two_chain b' = adopt cp (mb_two_chain b) \<and>
    mb_self_id b' = 3 \<and> mb_micro_ring b' = mb_micro_ring b \<and> mb_reputation b' = mb_reputation b \<and>
    mb_next_height b' = mb_next_height b \<and> mb_last_macro_hash b' = mb_last_macro_hash b \<and>
    mb_candidate_beacon b' = mb_candidate_beacon b \<and> mb_proposals_seen b' = mb_proposals_seen b \<and>
    mb_mode_b_active b' = mb_mode_b_active b \<and> mb_locks b' = mb_locks b \<and>
    mb_emitted_macro_qc b' = mb_emitted_macro_qc b"
  using assms
  by (simp add: vote_on_checkpoint_def Let_def subnet_assign_def validator_count_def sample_length
      u32_try_from_def add_signer_def)

section \<open>A run that adopts two checkpoints\<close>

definition book1 :: MacroBook where
  "book1 = (macro_book_new 3)\<lparr>mb_candidate := [(0, ck 0 0 10)], mb_candidate_beacon := [(0, 0)]\<rparr>"

definition book2 :: MacroBook where
  "book2 = (record_adoption 0 (ck 0 0 10) (cert 10) book1)\<lparr>mb_unfinalized_windows := 1\<rparr>"

definition book3 :: MacroBook where
  "book3 = book2\<lparr>mb_candidate := [(0, ck 0 0 10), (1, ck 1 10 20)], mb_candidate_beacon := [(0, 0), (1, 0)]\<rparr>"

definition micro_acts :: "Hash32 \<Rightarrow> Actions" where
  "micro_acts q = [BroadcastMicroQc \<lparr> uq_checkpoint_hash = q, uq_agg = \<lparr> as_sig = 0, as_bitmap = [7] \<rparr> \<rparr>]"

definition adopt_acts :: "MacroCheckpoint \<Rightarrow> Actions" where
  "adopt_acts c = [PersistMacroCheckpoint c, PersistMacroQc (cert (mc_hash c)),
     UpdateBlobStatus (blob_id_of_checkpoint c) Justified]"

lemma step1: "macro_step macro_lib macro_cfg macro_host (micro 10) (macro_book_new 3) = (Ok (micro_acts 10), book1)"
  by (subst micro_step) (simp_all add: micro_acts_def macro_book_new_def book1_def bt_empty_def hash_zero_def)

lemma step2: "macro_step macro_lib macro_cfg macro_host (CertificateIn (cert 10)) book1 =
    (Ok (adopt_acts (ck 0 0 10)), book2)"
  by (subst cert_step [of _ _ 0 "ck 0 0 10"])
    (simp_all add: book1_def book2_def macro_book_new_def candidate_height_def bt_get_list adopt_acts_def
      settle_finality_def record_adoption_def adopt_def two_chain_default_def bt_empty_def
      newly_finalized_height_def justified_head_height_def note_inactivity_leak_on_adoption_def leak_compute_def
      sat_add_def Let_def word_le_nat_alt)

lemma step3: "macro_step macro_lib macro_cfg macro_host (micro 20) book2 = (Ok (micro_acts 20), book3)"
  by (subst micro_step) (simp_all add: micro_acts_def book3_def book2_def book1_def macro_book_new_def
    record_adoption_def)

definition book4 :: MacroBook where
  "book4 = (record_adoption 1 (ck 1 10 20) (cert 20) book3)\<lparr>mb_unfinalized_windows := 0,
     mb_two_chain := \<lparr> tc_adopted = [(0, ck 0 0 10), (1, ck 1 10 20)], tc_justified_head = Some 20,
       tc_finalized_head = Some 10 \<rparr>\<rparr>"

lemma step4: "macro_step macro_lib macro_cfg macro_host (CertificateIn (cert 20)) book3 =
    (Ok (adopt_acts (ck 1 10 20) @ [UpdateBlobStatus (blob_id_of_checkpoint (ck 0 0 10)) Finalized]), book4)"
  by (subst cert_step [of _ _ 1 "ck 1 10 20"])
    (simp_all add: book4_def book3_def book2_def book1_def macro_book_new_def candidate_height_def bt_get_list
      adopt_acts_def cert_def settle_finality_def record_adoption_def adopt_def two_chain_default_def bt_empty_def
      newly_finalized_height_def justified_head_height_def mark_finalized_def
      note_inactivity_leak_on_adoption_def Let_def)

definition trace3 :: Actions where
  "trace3 = micro_acts 10 @ adopt_acts (ck 0 0 10) @ micro_acts 20"

definition trace4 :: Actions where
  "trace4 = trace3 @ adopt_acts (ck 1 10 20) @ [UpdateBlobStatus (blob_id_of_checkpoint (ck 0 0 10)) Finalized]"

lemma run3:
  assumes "\<And>b q. ok b (micro q)" "\<And>b q. ok b (CertificateIn q)"
  shows "macro_reach macro_lib macro_cfg 3 {macro_host} ok trace3 book3"
proof -
  have quiet: "quiet_input (micro q)" for q
    by (simp add: micro_def)
  have "macro_reach macro_lib macro_cfg 3 {macro_host} ok ([] @ micro_acts 10) book1"
    by (rule macro_reach.step [OF macro_reach.start _ _ _ step1]) (simp_all add: assms quiet)
  then have "macro_reach macro_lib macro_cfg 3 {macro_host} ok (([] @ micro_acts 10) @ adopt_acts (ck 0 0 10)) book2"
    by (rule macro_reach.step [OF _ _ _ _ step2]) (simp_all add: assms)
  then have "macro_reach macro_lib macro_cfg 3 {macro_host} ok
      ((([] @ micro_acts 10) @ adopt_acts (ck 0 0 10)) @ micro_acts 20) book3"
    by (rule macro_reach.step [OF _ _ _ _ step3]) (simp_all add: assms quiet)
  then show ?thesis
    by (simp add: trace3_def)
qed

lemma run4:
  assumes "\<And>b q. ok b (micro q)" "\<And>b q. ok b (CertificateIn q)"
  shows "macro_reach macro_lib macro_cfg 3 {macro_host} ok trace4 book4"
  unfolding trace4_def by (rule macro_reach.step [OF run3 [OF assms] _ _ _ step4]) (simp_all add: assms)

section \<open>Runs that vote\<close>

lemma vote4: "\<exists>b acts. macro_step macro_lib macro_cfg macro_host (ProposalIn (offer (ck 1 10 20) 1)) book3 = (Ok acts, b) \<and>
    mb_votes b = record_vote 3 (own_vote macro_lib macro_host 1 20) vote_book_new \<and>
    mb_candidate b = [(0, ck 0 0 10), (1, ck 1 10 20)] \<and> mb_self_id b = 3 \<and> mb_micro_ring b = [] \<and>
    mb_reputation b = Map.empty \<and> mb_next_height b = 1 \<and> mb_last_macro_hash b = 10 \<and>
    mb_candidate_beacon b = [(0, 0), (1, 0)] \<and> mb_mode_b_active b = {} \<and>
    mb_proposals_seen b = [(1, 1) \<mapsto> [offer (ck 1 10 20) 1]] \<and> lm_locks (mb_locks b) = [3 \<mapsto> (1, 20)] \<and>
    acts = self_scan (mb_votes b) 3 @ [BroadcastBlsPartial \<lparr> bp_subnet = 0, bp_validator = 3,
          bp_checkpoint_hash = 20, bp_sig = signer_sign_bls macro_host DST_MACRO_CHECKPOINT
            (checkpoint_message macro_lib (ck 1 10 20)) \<rparr>,
        UpdateBlobStatus (blob_id_of_checkpoint (ck 1 10 20)) SoftConfirmed]"
proof -
  let ?b = "book3\<lparr>mb_proposals_seen := (mb_proposals_seen book3)((mc_height (ck 1 10 20), of_nat 1) \<mapsto>
      [offer (ck 1 10 20) 1]), mb_locks := \<lparr> lm_locks = [3 \<mapsto> (1, 20)] \<rparr>\<rparr>"
  note book_defs = book3_def book2_def book1_def macro_book_new_def record_adoption_def
  have "macro_step macro_lib macro_cfg macro_host (ProposalIn (offer (ck 1 10 20) 1)) book3 =
      vote_on_checkpoint macro_lib macro_cfg macro_host (sample_set 4) 0 Mode0Flat (ck 1 10 20) ?b"
    by (rule vote_step [of _ _ _ "ck 1 10 20" "()"])
      (simp_all add: book_defs bt_get_list try_lock_def lock_macro_new_def Let_def)
  moreover have "mb_self_id ?b = 3"
    by (simp add: book_defs)
  note vote_result [OF this, of "ck 1 10 20"]
  ultimately show ?thesis
    by (auto simp: book_defs)
qed

text \<open>
  The same validator, shown next a proposal that repeats the hash of the adopted checkpoint of height
  0 under a different parent, and then a proposal for height 1 over a newer micro checkpoint.
\<close>

lemma attack_vote:
  assumes b: "mb_votes b = record_vote 3 (own_vote macro_lib macro_host 1 20) vote_book_new"
    "mb_candidate b = [(0, ck 0 0 10), (1, ck 1 10 20)]" "mb_self_id b = 3" "mb_micro_ring b = []"
    "mb_reputation b = Map.empty" "mb_next_height b = 1" "mb_last_macro_hash b = 10"
    "mb_candidate_beacon b = [(0, 0), (1, 0)]" "mb_mode_b_active b = {}"
    "mb_proposals_seen b = [(1, 1) \<mapsto> [offer (ck 1 10 20) 1]]" "lm_locks (mb_locks b) = [3 \<mapsto> (1, 20)]"
  shows "\<exists>b' acts. macro_step macro_lib macro_cfg macro_host (ProposalIn (offer (ck 0 10 10) 1)) b = (Ok acts, b') \<and>
    mb_votes b' = record_vote 3 (own_vote macro_lib macro_host 0 10) (mb_votes b) \<and>
    mb_candidate b' = [(0, ck 0 10 10), (1, ck 1 10 20)] \<and> mb_self_id b' = 3 \<and> mb_micro_ring b' = [] \<and>
    mb_reputation b' = Map.empty \<and> mb_next_height b' = 1 \<and> mb_last_macro_hash b' = 10 \<and>
    mb_candidate_beacon b' = [(0, 0), (1, 0)] \<and> mb_mode_b_active b' = {} \<and>
    mb_proposals_seen b' = [(1, 1) \<mapsto> [offer (ck 1 10 20) 1], (0, 1) \<mapsto> [offer (ck 0 10 10) 1]] \<and>
    lm_locks (mb_locks b') = [3 \<mapsto> (0, 10)]"
proof -
  let ?b = "b\<lparr>mb_proposals_seen := (mb_proposals_seen b)((mc_height (ck 0 10 10), of_nat 1) \<mapsto>
      [offer (ck 0 10 10) 1]), mb_locks := \<lparr> lm_locks = [3 \<mapsto> (0, 10)] \<rparr>\<rparr>"
  have "try_lock 3 0 10 (mb_locks b) = (Ok (), \<lparr> lm_locks = [3 \<mapsto> (0, 10)] \<rparr>)"
    using b(11) by (cases "mb_locks b") (auto simp: try_lock_def Let_def)
  then have "macro_step macro_lib macro_cfg macro_host (ProposalIn (offer (ck 0 10 10) 1)) b =
      vote_on_checkpoint macro_lib macro_cfg macro_host (sample_set 4) 0 Mode0Flat (ck 0 10 10) ?b"
    by (intro vote_step [of _ _ _ "ck 0 0 10" "()"]) (simp_all add: b bt_get_list)
  moreover have "mb_self_id ?b = 3"
    by (simp add: b)
  note vote_result [OF this, of "ck 0 10 10"]
  ultimately show ?thesis
    by (auto simp: b)
qed

lemma double_vote:
  assumes b: "mb_votes b = record_vote 3 (own_vote macro_lib macro_host 0 10)
      (record_vote 3 (own_vote macro_lib macro_host 1 20) vote_book_new)"
    "mb_candidate b = [(0, ck 0 10 10), (1, ck 1 10 20)]" "mb_self_id b = 3" "mb_micro_ring b = []"
    "mb_reputation b = Map.empty" "mb_next_height b = 1" "mb_last_macro_hash b = 10"
    "mb_candidate_beacon b = [(0, 0), (1, 0)]" "mb_mode_b_active b = {}"
    "mb_proposals_seen b = [(1, 1) \<mapsto> [offer (ck 1 10 20) 1], (0, 1) \<mapsto> [offer (ck 0 10 10) 1]]"
    "lm_locks (mb_locks b) = [3 \<mapsto> (0, 10)]"
  shows "\<exists>b1 b2 acts ev. macro_step macro_lib macro_cfg macro_host (micro 30) b = (Ok (micro_acts 30), b1) \<and>
    macro_step macro_lib macro_cfg macro_host (ProposalIn (offer (ck 1 10 30) 2)) b1 = (Ok acts, b2) \<and>
    EmitSlashEvidence 3 (EvDoubleVote ev) \<in> set acts \<and>
    verify_evidence macro_lib (EvDoubleVote ev) (sample_set 4) = Ok ()"
proof -
  let ?b1 = "b\<lparr>mb_micro_ring := [], mb_candidate := [(0, ck 0 10 10), (1, ck 1 10 30)],
      mb_candidate_beacon := [(0, 0), (1, 0)]\<rparr>"
  have m: "macro_step macro_lib macro_cfg macro_host (micro 30) b = (Ok (micro_acts 30), ?b1)"
    by (subst micro_step) (simp_all add: b micro_acts_def)
  let ?b = "?b1\<lparr>mb_proposals_seen := (mb_proposals_seen ?b1)((mc_height (ck 1 10 30), of_nat 2) \<mapsto>
      [offer (ck 1 10 30) 2]), mb_locks := \<lparr> lm_locks = [3 \<mapsto> (1, 30)] \<rparr>\<rparr>"
  have "try_lock 3 1 30 (mb_locks b) = (Ok (), \<lparr> lm_locks = [3 \<mapsto> (1, 30)] \<rparr>)"
    using b(11) by (cases "mb_locks b") (auto simp: try_lock_def Let_def)
  then have v: "macro_step macro_lib macro_cfg macro_host (ProposalIn (offer (ck 1 10 30) 2)) ?b1 =
      vote_on_checkpoint macro_lib macro_cfg macro_host (sample_set 4) 0 Mode0Flat (ck 1 10 30) ?b"
    by (intro vote_step [of _ _ _ "ck 1 10 30" "()"]) (simp_all add: b bt_get_list)
  have "mb_self_id ?b = 3"
    by (simp add: b)
  from vote_result [OF this, of "ck 1 10 30"] obtain b2 acts where
    r: "vote_on_checkpoint macro_lib macro_cfg macro_host (sample_set 4) 0 Mode0Flat (ck 1 10 30) ?b =
        (Ok (self_scan (mb_votes b2) 3 @ acts), b2)"
      "mb_votes b2 = record_vote 3 (own_vote macro_lib macro_host 1 30) (mb_votes b)"
    by auto
  have votes: "votes_of (mb_votes b2) 3 = [own_vote macro_lib macro_host 1 20, own_vote macro_lib macro_host 0 10,
      own_vote macro_lib macro_host 1 30]"
    by (simp add: r(2) b(1) votes_of_record) (simp add: votes_of_def vote_book_new_def)
  obtain ev where ev: "scan_for_double_vote (mb_votes b2) 3 = Some ev" and
    evd: "ev = \<lparr> dv_validator = 3, dv_target = 1, dv_a_checkpoint = 20, dv_a_sig = vr_sig (own_vote macro_lib macro_host 1 20),
      dv_b_checkpoint = 30, dv_b_sig = vr_sig (own_vote macro_lib macro_host 1 30) \<rparr>"
    by (simp add: scan_for_double_vote_def votes) (simp add: own_vote_def Let_def)
  have "evidence_pk macro_lib (sample_set 4) 3 = Ok 3"
    by (simp add: evidence_pk_def find_entry_def sample_entries sample_entry_def pk_from_bytes_def)
  moreover have "vr_sig (own_vote macro_lib macro_host 1 q) = 39" for q
    by (simp add: own_vote_def Let_def sample_host_def bls_sign_def vote_message_def macro_lib_def sample_lib_def
        sample_digest_def)
  moreover have "length (vote_message macro_lib r) = 6" for r
    by (simp add: vote_message_def macro_lib_def sample_lib_def)
  ultimately have "verify_evidence macro_lib (EvDoubleVote ev) (sample_set 4) = Ok ()"
    by (simp add: evd verify_double_vote_def bls_verify_def sample_digest_def)
  then show ?thesis
    using m v r(1) ev by (auto simp: self_scan_def)
qed

end
