(* ===== verification/Macro_Rules.thy ===== *)
theory Macro_Rules
  imports Macro_Fin
begin

text \<open>
  The rules of macro finality taken one by one: the proposer lottery as a sort by score, macro quorum
  certificates as aggregates over signer bitmaps, and the inactivity leak as a counter.
\<close>

section \<open>The proposer lottery\<close>

lemma f64_cmp_cases:
  "f64_cmp a b = Less \<longleftrightarrow> f64_lt a b" "f64_cmp a b = Greater \<longleftrightarrow> \<not> f64_lt a b \<and> f64_lt b a"
  by (simp_all add: f64_cmp_def)

abbreviation comparable :: "ValidatorId \<times> f64 \<Rightarrow> bool" where
  "comparable x \<equiv> snd x \<noteq> NaN"

definition scored_le :: "ValidatorId \<times> f64 \<Rightarrow> ValidatorId \<times> f64 \<Rightarrow> bool" where
  "scored_le x y \<longleftrightarrow> scored_cmp x y \<noteq> Greater"

lemma scored_le_iff:
  assumes "comparable x" "comparable y"
  shows "scored_le x y \<longleftrightarrow> f64_lt (snd x) (snd y) \<or> snd x = snd y \<and> fst x \<le> fst y"
  using assms f64_trichotomy [of "snd x" "snd y"] f64_lt_irrefl [of "snd x"] f64_lt_trans [of "snd x" "snd y" "snd x"]
  by (cases x; cases y) (auto simp: scored_le_def f64_cmp_def)

lemma scored_less_iff:
  assumes "comparable x" "comparable y"
  shows "scored_cmp x y = Less \<longleftrightarrow> f64_lt (snd x) (snd y) \<or> snd x = snd y \<and> fst x < fst y"
  using assms f64_trichotomy [of "snd x" "snd y"] f64_lt_irrefl [of "snd x"] f64_lt_trans [of "snd x" "snd y" "snd x"]
  by (cases x; cases y) (auto simp: f64_cmp_def)

lemma scored_le_trans:
  assumes "comparable x" "comparable y" "comparable z" "scored_le x y" "scored_le y z"
  shows "scored_le x z"
  using assms by (auto simp: scored_le_iff intro: f64_lt_trans)

lemma scored_le_linear: "comparable x \<Longrightarrow> comparable y \<Longrightarrow> scored_le x y \<or> scored_le y x"
  using f64_trichotomy [of "snd x" "snd y"] by (auto simp: scored_le_iff)

lemma mset_insert_scored [simp]: "mset (insert_scored x xs) = add_mset x (mset xs)"
  by (induction x xs rule: insert_scored.induct) auto

lemma mset_sort_scored [simp]: "mset (sort_scored xs) = mset xs"
  by (induction xs) (simp_all add: sort_scored_def)

lemma set_sort_scored [simp]: "set (sort_scored xs) = set xs"
  and length_sort_scored [simp]: "length (sort_scored xs) = length xs"
  using mset_eq_setD [OF mset_sort_scored [of xs]] mset_eq_length [OF mset_sort_scored [of xs]] by simp_all

lemma sorted_insert_scored:
  assumes "\<forall>y \<in> set (x # xs). comparable y" "sorted_wrt scored_le xs"
  shows "sorted_wrt scored_le (insert_scored x xs)"
  using assms
proof (induction xs)
  case (Cons y ys)
  have set: "set (insert_scored x ys) = insert x (set ys)"
    by (metis mset_insert_scored set_mset_add_mset_insert set_mset_mset)
  show ?case
  proof (cases "scored_cmp x y = Greater")
    case True
    then have "scored_le y x"
      using Cons.prems(1) scored_le_linear [of x y] by (auto simp: scored_le_def)
    with True Cons set show ?thesis
      by auto
  next
    case False
    then have "scored_le x y"
      by (simp add: scored_le_def)
    with False Cons.prems show ?thesis
      by (auto intro: scored_le_trans [of x y])
  qed
qed simp

lemma sorted_sort_scored: "\<forall>y \<in> set xs. comparable y \<Longrightarrow> sorted_wrt scored_le (sort_scored xs)"
proof (induction xs)
  case (Cons x xs)
  have "sort_scored (x # xs) = insert_scored x (sort_scored xs)"
    by (simp add: sort_scored_def)
  with Cons show ?case
    by (simp add: sorted_insert_scored)
qed (simp add: sort_scored_def)

lemma scored_entries_comparable:
  assumes "\<And>e r. e \<in> set (vs_entries vset) \<Longrightarrow> reputation (ve_id e) = Some r \<Longrightarrow> \<exists>x. r = Fin x \<and> \<bar>x\<bar> \<le> 2 ^ 100"
  shows "\<forall>y \<in> set (scored_entries L beacon vset height reputation). comparable y"
proof -
  have "vrf_sortition_score beta t s (case reputation (ve_id e) of None \<Rightarrow> reputation_neutral | Some r \<Rightarrow> r) \<noteq> NaN"
    if "e \<in> set (vs_entries vset)" for e beta t s
  proof (cases "reputation (ve_id e)")
    case None
    then show ?thesis
      by (simp add: reputation_neutral_def vrf_sortition_score_not_NaN)
  next
    case (Some r)
    then show ?thesis
      using assms [OF that] vrf_sortition_score_not_NaN by auto
  qed
  then show ?thesis
    by (auto simp: scored_entries_def Let_def)
qed

lemma fst_scored_entries: "map fst (scored_entries L beacon vset height reputation) = map ve_id (vs_entries vset)"
  by (simp add: scored_entries_def Let_def comp_def)

section \<open>Aggregated certificates\<close>

lemma all_some_Some_iff: "all_some f xs = Some ys \<longleftrightarrow> list_all2 (\<lambda>x y. f x = Some y) xs ys"
proof (induction xs arbitrary: ys)
  case (Cons x xs)
  then show ?case
    by (cases ys) (auto simp: Cons.IH [symmetric] split: option.splits)
qed auto

lemma all_some_map: "(\<And>x. x \<in> set xs \<Longrightarrow> f x = Some (g x)) \<Longrightarrow> all_some f xs = Some (map g xs)"
  by (induction xs) auto

lemma bitmap_bit_slots:
  assumes "set slots \<subseteq> {..<n}" "i < n"
  shows "bitmap_bit (slots_bitmap n slots) i \<longleftrightarrow> i \<in> set slots"
proof -
  have "test_slot (slots_bitmap n slots) i \<longleftrightarrow> i \<in> set slots \<or> test_slot (replicate (div_ceil n 8) 0) i"
    unfolding slots_bitmap_def using assms by (intro test_fold_set_slot) (auto intro: slot_byte_less)
  then show ?thesis
    using assms test_zero_slots [of i n] slot_byte_less [of i n] by (auto simp: bitmap_bit_def slots_bitmap_def)
qed

lemma marked_slots:
  assumes "set slots \<subseteq> {..<length (vs_entries vset)}" "sorted_wrt (<) slots"
  shows "marked_entries vset (slots_bitmap (length (vs_entries vset)) slots) = map ((!) (vs_entries vset)) slots"
proof -
  let ?n = "length (vs_entries vset)"
  have "filter (bitmap_bit (slots_bitmap ?n slots)) [0..<?n] = filter (\<lambda>i. i \<in> set slots) [0..<?n]"
    by (rule filter_cong) (use assms in \<open>auto simp: bitmap_bit_slots\<close>)
  then show ?thesis
    using assms by (simp add: marked_entries_def filter_mem_upt)
qed

lemma signer_slots_props:
  "set (signer_slots vset signers) \<subseteq> {..<length (vs_entries vset)}" "sorted_wrt (<) (signer_slots vset signers)"
  "map ((!) (vs_entries vset)) (signer_slots vset signers) = filter (\<lambda>e. ve_id e \<in> signers) (vs_entries vset)"
proof -
  show "map ((!) (vs_entries vset)) (signer_slots vset signers) = filter (\<lambda>e. ve_id e \<in> signers) (vs_entries vset)"
    using filter_map [of "\<lambda>e. ve_id e \<in> signers" "(!) (vs_entries vset)" "[0..<length (vs_entries vset)]"]
    by (simp add: signer_slots_def map_nth comp_def)
qed (auto simp: signer_slots_def sorted_wrt_filter)

text \<open>
  Keys of a validator set as aggregation needs them: every entry has a usable key of \<open>K\<close>, no two
  entries share one.
\<close>

definition keys_ok :: "'x crypto_lib \<Rightarrow> 'x set \<Rightarrow> ValidatorSet \<Rightarrow> bool" where
  "keys_ok L K vset \<longleftrightarrow> distinct (map (pk_from_entry L) (vs_entries vset)) \<and>
     (\<forall>e \<in> set (vs_entries vset). pk_from_entry L e \<in> Some ` K)"

lemma aggregate_over_slots:
  assumes agg: "bls_aggregation L K" and keys: "keys_ok L K vset"
    and slots: "set slots \<subseteq> {..<length (vs_entries vset)}" "sorted_wrt (<) slots" "slots \<noteq> []"
    and sigs: "list_all2 (\<lambda>i sig. \<exists>pk. pk_from_entry L (vs_entries vset ! i) = Some pk \<and>
        bls_verify L pk DST_MACRO_CHECKPOINT (checkpoint_message L cp) sig = Ok ()) slots sigs"
  shows "\<exists>a. aggregate_sigs L sigs = Ok a \<and> verify_macro_qc L vset \<lparr> mq_checkpoint_hash = mc_hash cp,
      mq_mode = mode, mq_agg = \<lparr> as_sig = a, as_bitmap = slots_bitmap (length (vs_entries vset)) slots \<rparr> \<rparr> cp"
proof -
  define es where "es = map ((!) (vs_entries vset)) slots"
  define pks where "pks = map (\<lambda>e. the (pk_from_entry L e)) es"
  have sub: "set es \<subseteq> set (vs_entries vset)"
    using slots(1) by (auto simp: es_def)
  have pk: "pk_from_entry L e = Some (the (pk_from_entry L e))" "the (pk_from_entry L e) \<in> K"
    if "e \<in> set es" for e
  proof -
    have "pk_from_entry L e \<in> Some ` K"
      using keys sub that by (auto simp: keys_ok_def)
    then show "pk_from_entry L e = Some (the (pk_from_entry L e))" "the (pk_from_entry L e) \<in> K"
      by auto
  qed
  have "distinct (map (\<lambda>i. map (pk_from_entry L) (vs_entries vset) ! i) slots)"
    using keys slots distinct_map_nth(1) [of "map (pk_from_entry L) (vs_entries vset)" slots]
    by (simp add: keys_ok_def strict_sorted_iff)
  also have "map (\<lambda>i. map (pk_from_entry L) (vs_entries vset) ! i) slots = map Some pks"
    using pk(1) slots(1) by (auto simp: pks_def es_def intro!: map_cong)
  finally have dist: "distinct pks"
    by (simp add: distinct_map)
  have ver: "list_all2 (\<lambda>sig pk. bls_verify L pk DST_MACRO_CHECKPOINT (checkpoint_message L cp) sig = Ok ()) sigs pks"
    using sigs by (auto simp: list_all2_conv_all_nth pks_def es_def)
  have "sigs \<noteq> []"
    using sigs slots(3) by auto
  from aggregate_then_verify [OF agg dist _ ver this refl] obtain a where
    a: "aggregate_sigs L sigs = Ok a"
      "verify_aggregate L pks DST_MACRO_CHECKPOINT (checkpoint_message L cp) a = Ok ()"
    using pk(2) by (auto simp: pks_def)
  moreover have "all_some (pk_from_entry L) es = Some pks"
    unfolding pks_def by (rule all_some_map) (rule pk(1))
  moreover have "pks \<noteq> []"
    using slots(3) by (simp add: pks_def es_def)
  ultimately show ?thesis
    using slots by (simp add: verify_macro_qc_def marked_slots es_def)
qed

section \<open>The inactivity leak\<close>

text \<open>Adoptions that finalize nothing, one after another.\<close>

definition leak_streak :: "Config \<Rightarrow> nat \<Rightarrow> MacroBook \<Rightarrow> Actions \<times> MacroBook" where
  "leak_streak cfg k book =
     ((\<lambda>(actions, b). note_inactivity_leak_on_adoption cfg False actions b) ^^ k) ([], book)"

lemma sat_add_one: "Suc k < 2 ^ 32 \<Longrightarrow> sat_add (of_nat k) 1 = (of_nat (Suc k) :: u32)"
proof -
  assume k: "Suc k < 2 ^ 32"
  have "of_nat k + 1 = (of_nat (Suc k) :: u32)"
    by simp
  moreover have "(of_nat k :: u32) \<le> of_nat (Suc k)"
    using k by (simp add: word_le_nat_alt unat_of_nat_small del: of_nat_Suc)
  ultimately show ?thesis
    by (simp add: sat_add_def del: of_nat_Suc)
qed

lemma leak_streak_state:
  assumes "mb_unfinalized_windows book = 0" "\<not> mb_leak_notified book" "k < 2 ^ 32"
  shows "leak_streak cfg k book =
    (if 0 < k \<and> unat (inactivity_leak_trigger_windows (cfg_macro_fin cfg)) \<le> k
     then [NotifyInactivityLeak (max 1 (inactivity_leak_trigger_windows (cfg_macro_fin cfg)))
             (inactivity_leak_bps_per_window (cfg_macro_fin cfg))] else [],
     book\<lparr>mb_unfinalized_windows := of_nat k,
       mb_leak_notified := (0 < k \<and> unat (inactivity_leak_trigger_windows (cfg_macro_fin cfg)) \<le> k)\<rparr>)"
  using assms(3)
proof (induction k)
  case 0
  then show ?case
    using assms(1,2) by (cases book) (simp add: leak_streak_def)
next
  case (Suc k)
  let ?t = "inactivity_leak_trigger_windows (cfg_macro_fin cfg)"
  have "leak_streak cfg (Suc k) book =
      (\<lambda>(actions, b). note_inactivity_leak_on_adoption cfg False actions b) (leak_streak cfg k book)"
    by (simp add: leak_streak_def)
  moreover note sat_add_one [OF Suc.prems]
  moreover have "?t \<le> of_nat (Suc k) \<longleftrightarrow> unat ?t \<le> Suc k"
    using Suc.prems by (simp add: word_le_nat_alt unat_of_nat_small del: of_nat_Suc)
  moreover have "of_nat (Suc k) = max 1 ?t" if "unat ?t \<le> Suc k" "\<not> (0 < k \<and> unat ?t \<le> k)"
  proof (cases k)
    case 0
    then show ?thesis
      using that by (auto simp: max_def word_le_nat_alt word_unat_eq_iff)
  next
    case (Suc j)
    then have t: "unat ?t = Suc k"
      using that by auto
    then have "?t = of_nat (Suc k)"
      by (metis of_nat_unat ucast_id)
    moreover have "1 \<le> ?t"
      by (simp add: word_le_nat_alt t)
    ultimately show ?thesis
      by (simp add: max_def)
  qed
  ultimately show ?case
    using Suc by (auto simp: note_inactivity_leak_on_adoption_def leak_compute_def Let_def simp del: of_nat_Suc)
qed

end
