(* ===== verification/Macro_Progress.thy ===== *)
theory Macro_Progress
  imports Macro_Runs
begin

text \<open>
  How the two-chain rule of a validator moves. A step leaves it alone, or enters a checkpoint the validator
  votes for, or enters an adopted checkpoint and settles finality. Over a run every entry is an adopted
  checkpoint or one the validator voted for.
\<close>

section \<open>What one step does to the two-chain rule\<close>

definition settle_rule :: "TwoChainRule \<Rightarrow> TwoChainRule" where
  "settle_rule r = (case newly_finalized_height r of None \<Rightarrow> r | Some p \<Rightarrow> mark_finalized p r)"

lemma settle_rule_adopted [simp]: "tc_adopted (settle_rule r) = tc_adopted r"
  by (simp add: settle_rule_def mark_finalized_def split: option.splits)

definition rule_moves :: "MacroBook \<Rightarrow> Actions \<Rightarrow> MacroBook \<Rightarrow> bool" where
  "rule_moves b acts b' \<longleftrightarrow> mb_self_id b' = mb_self_id b \<and>
     (adopted acts = [] \<and> mb_two_chain b' = mb_two_chain b \<and> mb_votes b' = mb_votes b \<or>
      adopted acts = [] \<and> (\<exists>cp r. mb_two_chain b' = adopt cp (mb_two_chain b) \<and>
        mb_votes b' = record_vote (mb_self_id b) r (mb_votes b) \<and> vr_target r = mc_height cp \<and> vr_checkpoint r = mc_hash cp) \<or>
      (\<exists>c. adopted acts = [c] \<and> mb_two_chain b' = settle_rule (adopt c (mb_two_chain b)) \<and> mb_votes b' = mb_votes b))"

abbreviation rule_post :: "MacroBook \<Rightarrow> (Error, Actions) outcome \<times> MacroBook \<Rightarrow> bool" where
  "rule_post b \<equiv> macro_post (rule_moves b) (rule_moves b [])"

lemma rule_moves_frame:
  assumes "mb_self_id a = mb_self_id b" "mb_two_chain a = mb_two_chain b" "mb_votes a = mb_votes b"
  shows "rule_moves a = rule_moves b"
  using assms by (simp add: rule_moves_def fun_eq_iff)

text \<open>A step that only touches the rest of the book.\<close>

lemma rule_moves_still:
  assumes "adopted acts = []" "mb_self_id b' = mb_self_id b" "mb_two_chain b' = mb_two_chain b" "mb_votes b' = mb_votes b"
  shows "rule_moves b acts b'"
  using assms by (simp add: rule_moves_def)

lemma settle_finality_rule:
  assumes "settle_finality cfg actions book = (actions', book')"
  shows "mb_two_chain book' = settle_rule (mb_two_chain book) \<and> mb_votes book' = mb_votes book \<and> mb_self_id book' = mb_self_id book"
  using assms
  by (auto simp: settle_finality_def settle_rule_def note_inactivity_leak_on_adoption_def Let_def leak_compute_def
      split: if_splits option.splits)

lemma adoption_moves:
  assumes "adopted acts = [c]" "mb_self_id a = mb_self_id b" "mb_two_chain a = mb_two_chain b" "mb_votes a = mb_votes b"
  shows "macro_post (rule_moves b) E
    (bind_st (bump_reputation cfg signers (record_adoption height c qc a)) (\<lambda>_ book1.
       case settle_finality cfg acts book1 of (actions, book2) \<Rightarrow> (Ok actions, book2)))"
proof (rule macro_post_bind)
  let ?book = "record_adoption height c qc a"
  show "macro_post (\<lambda>_ b. \<exists>rep. b = ?book\<lparr>mb_reputation := rep\<rparr>) E (bump_reputation cfg signers ?book)"
    by (rule bump_reputation_post) blast
  fix x b1
  assume "\<exists>rep. b1 = ?book\<lparr>mb_reputation := rep\<rparr>"
  then obtain rep where b1: "b1 = ?book\<lparr>mb_reputation := rep\<rparr>" ..
  obtain actions book2 where settle: "settle_finality cfg acts b1 = (actions, book2)"
    by (cases "settle_finality cfg acts b1")
  have "rule_moves b actions book2"
    using settle_finality_adopted [OF settle] settle_finality_rule [OF settle] assms
    by (simp add: rule_moves_def b1 record_adoption_def)
  then show "macro_post (rule_moves b) E (case settle_finality cfg acts b1 of (actions, book2) \<Rightarrow> (Ok actions, book2))"
    by (simp add: settle)
qed

lemma finish_adoption_moves:
  assumes "mb_self_id a = mb_self_id b" "mb_two_chain a = mb_two_chain b" "mb_votes a = mb_votes b"
  shows "macro_post (rule_moves b) E (finish_macro_qc_adoption cfg height c qc signers a)"
  unfolding finish_macro_qc_adoption_def by (rule adoption_moves [OF _ assms]) simp

section \<open>Every handler\<close>

lemma try_emit_mode_a_moves:
  assumes "mb_self_id a = mb_self_id b" "mb_two_chain a = mb_two_chain b" "mb_votes a = mb_votes b"
  shows "rule_post b (try_emit_mode_a_qc L cfg h height ctx a)"
  using assms unfolding try_emit_mode_a_qc_def
  by (auto simp: Let_def split: option.splits intro!: rule_moves_still finish_adoption_moves)

lemma collect_flat_moves:
  assumes "mb_self_id a = mb_self_id b" "mb_two_chain a = mb_two_chain b" "mb_votes a = mb_votes b"
  shows "rule_post b (collect_flat_partial L cfg bp vset mode height c a)"
  using assms unfolding collect_flat_partial_def
  by (auto simp: Let_def add_signer_def split: option.splits if_splits intro!: rule_moves_still finish_adoption_moves)

lemma adopted_aggregate [simp]:
  "adopted (case agg of None \<Rightarrow> [] | Some a \<Rightarrow> if P a then [BroadcastSubnetAggregate a] else []) = []"
  by (simp split: option.splits)

lemma collect_subnet_moves:
  assumes "mb_self_id a = mb_self_id b" "mb_two_chain a = mb_two_chain b" "mb_votes a = mb_votes b"
  shows "rule_post b (collect_subnet_partial L cfg bp ctx vset beacon assign height a)"
proof -
  have prefix: "rule_moves b (acts @ extra) b'" if "adopted acts = []" "rule_moves b extra b'" for acts extra b'
    using that by (simp add: rule_moves_def)
  show ?thesis
    using assms unfolding collect_subnet_partial_def
    by (auto simp: Let_def add_signer_def intro!: rule_moves_still macro_post_bind [OF try_emit_mode_a_moves [where b = b]] prefix)
qed

lemma on_bls_partial_moves: "rule_post b (on_bls_partial L cfg bp ctx b)"
  unfolding on_bls_partial_def
  by (auto simp: Let_def macro_reject_def split: option.splits intro!: rule_moves_still collect_subnet_moves collect_flat_moves)

lemma on_macro_qc_received_moves: "rule_post b (on_macro_qc_received L cfg qc ctx b)"
  unfolding on_macro_qc_received_def
  by (auto simp: Let_def macro_reject_def split: option.splits intro!: rule_moves_still adoption_moves)

lemma on_subnet_aggregate_moves: "rule_post b (on_subnet_aggregate L cfg agg ctx b)"
  unfolding on_subnet_aggregate_def
  by (auto simp: Let_def macro_reject_def split: option.splits intro!: rule_moves_still try_emit_mode_a_moves)

lemma adopted_self_scan [simp]: "adopted (self_scan votes v) = []"
  by (simp add: self_scan_def split: option.splits)

lemma vote_on_checkpoint_moves:
  assumes "mb_self_id a = mb_self_id b" "mb_two_chain a = mb_two_chain b" "mb_votes a = mb_votes b"
  shows "rule_post b (vote_on_checkpoint L cfg ctx vset beacon mode cp a)"
proof -
  have voted: "rule_moves b acts b'" if "adopted acts = []" "mb_self_id b' = mb_self_id b" "mb_two_chain b' = adopt cp (mb_two_chain b)"
    "mb_votes b' = record_vote (mb_self_id b) (own_vote L ctx (mc_height cp) (mc_hash cp)) (mb_votes b)" for acts b'
    using that unfolding rule_moves_def by (auto simp: own_vote_def Let_def intro!: exI)
  show ?thesis
    using assms unfolding vote_on_checkpoint_def Let_def by (auto simp: add_signer_def intro!: voted)
qed

lemma on_macro_proposal_moves: "rule_post b (on_macro_proposal L cfg p ctx b)"
proof -
  let ?same = "\<lambda>a. mb_self_id a = mb_self_id b \<and> mb_two_chain a = mb_two_chain b \<and> mb_votes a = mb_votes b"
  have beacon: "macro_post (\<lambda>_. ?same) (rule_moves b [])
      (if bt_get (mb_candidate_beacon b) height = None
       then call (beacon_current ctx) b (\<lambda>x.
         (Ok (), b\<lparr>mb_candidate_beacon := bt_insert height x (mb_candidate_beacon b)\<rparr>))
       else (Ok (), b))" for height
    by (auto intro!: rule_moves_still)
  show ?thesis
    unfolding on_macro_proposal_def Let_def
    by (intro macro_post_call macro_post_bind [OF beacon])
      (auto simp: macro_reject_def split: option.splits prod.splits outcome.splits intro!: rule_moves_still vote_on_checkpoint_moves)
qed

text \<open>The handlers that neither vote nor adopt.\<close>

abbreviation still_post :: "MacroBook \<Rightarrow> (Error, Actions) outcome \<times> MacroBook \<Rightarrow> bool" where
  "still_post b \<equiv> macro_post (\<lambda>acts b'. adopted acts = [] \<and> mb_self_id b' = mb_self_id b \<and> mb_two_chain b' = mb_two_chain b \<and>
     mb_votes b' = mb_votes b) (rule_moves b [])"

lemma still_moves: "still_post b r \<Longrightarrow> rule_post b r"
  by (erule macro_post_mono) (auto intro: rule_moves_still)

lemma propose_candidate_still:
  assumes "adopted actions = []" "mb_self_id a = mb_self_id b" "mb_two_chain a = mb_two_chain b" "mb_votes a = mb_votes b"
  shows "still_post b (propose_candidate cfg ctx beacon height candidate schedule actions a)"
  using assms unfolding propose_candidate_def
  by (auto simp: backup_propose_action_def split: prod.splits intro!: rule_moves_still)

lemma push_micro_hash_still:
  assumes "adopted actions = []" "mb_self_id a = mb_self_id b" "mb_two_chain a = mb_two_chain b" "mb_votes a = mb_votes b"
  shows "still_post b (push_micro_hash L cfg ctx vset h actions a)"
  using assms unfolding push_micro_hash_def Let_def
  by (auto simp: mode_b_deadline_action_def split: prod.splits intro!: rule_moves_still macro_post_bind [OF propose_candidate_still [where b = b]])

lemma push_micro_hashes_still:
  assumes "adopted actions = []" "mb_self_id a = mb_self_id b" "mb_two_chain a = mb_two_chain b" "mb_votes a = mb_votes b"
  shows "still_post b (push_micro_hashes L cfg ctx vset hs actions a)"
  using assms
  by (induction hs arbitrary: actions a) (auto intro!: macro_post_bind [OF push_micro_hash_still [where b = b]])

lemma on_backup_timer_still:
  assumes "adopted actions = []"
  shows "still_post b (on_backup_timer L ctx height actions b)"
  using assms unfolding on_backup_timer_def Let_def by (auto split: option.splits intro!: rule_moves_still)

lemma mode_b_sign_still:
  assumes "adopted actions = []" "mb_self_id a = mb_self_id b" "mb_two_chain a = mb_two_chain b" "mb_votes a = mb_votes b"
  shows "still_post b (mode_b_sign L cfg ctx height cp actions a)"
  using assms unfolding mode_b_sign_def Let_def
  by (auto simp: add_signer_def split: prod.splits outcome.splits intro!: rule_moves_still)

lemma on_mode_b_timer_still:
  assumes "adopted actions = []"
  shows "still_post b (on_mode_b_timer L cfg ctx height actions b)"
  using assms unfolding on_mode_b_timer_def Let_def by (auto split: option.splits intro!: mode_b_sign_still)

lemma macro_step_moves:
  assumes "quiet_input inp"
  shows "rule_post b (macro_step L cfg ctx inp b)"
proof (cases inp)
  case (MicroCertificates acts)
  then show ?thesis
    using assms by (auto simp: on_local_micro_qcs_def Let_def quiet_def intro!: still_moves push_micro_hashes_still rule_moves_still)
next
  case (TimerIn tid acts)
  then show ?thesis
    using assms by (auto simp: macro_on_timer_fired_def quiet_def split: option.splits
        intro!: still_moves on_backup_timer_still on_mode_b_timer_still rule_moves_still)
qed (simp_all add: on_macro_proposal_moves on_bls_partial_moves on_macro_qc_received_moves on_subnet_aggregate_moves)

section \<open>Over a run\<close>

text \<open>Every entry of the rule is the adopted checkpoint of its height or was voted for by the validator.\<close>

definition entries_inv :: "ValidatorId \<Rightarrow> MacroCheckpoint list \<Rightarrow> MacroBook \<Rightarrow> bool" where
  "entries_inv me cps b \<longleftrightarrow> mb_self_id b = me \<and>
     (\<forall>h v. bt_get (tc_adopted (mb_two_chain b)) h = Some v \<longrightarrow>
        unat h < length cps \<and> mc_hash v = mc_hash (cps ! unat h) \<or>
        (\<exists>r \<in> set (votes_of (mb_votes b) me). vr_target r = h \<and> vr_checkpoint r = mc_hash v))"

lemma bt_get_adopt:
  "bt_get (tc_adopted (adopt cp r)) h =
     (if h = mc_height cp \<and> bt_get (tc_adopted r) h = None then Some cp else bt_get (tc_adopted r) h)"
  by (auto simp: adopt_adopted split: option.splits)

lemma entries_inv_moves:
  assumes inv: "entries_inv me cps b" and moves: "rule_moves b acts b'"
    and height: "\<And>c. adopted acts = [c] \<Longrightarrow> unat (mc_height c) = length cps"
  shows "entries_inv me (cps @ adopted acts) b'"
  using moves unfolding rule_moves_def
proof (elim conjE disjE exE)
  assume "mb_self_id b' = mb_self_id b" "adopted acts = []" "mb_two_chain b' = mb_two_chain b" "mb_votes b' = mb_votes b"
  then show ?thesis
    using inv by (simp add: entries_inv_def)
next
  fix cp r
  assume m: "mb_self_id b' = mb_self_id b" "adopted acts = []" "mb_two_chain b' = adopt cp (mb_two_chain b)"
    "mb_votes b' = record_vote (mb_self_id b) r (mb_votes b)" "vr_target r = mc_height cp" "vr_checkpoint r = mc_hash cp"
  have "mb_self_id b = me"
    using inv by (simp add: entries_inv_def)
  then show ?thesis
    using inv m by (auto simp: entries_inv_def bt_get_adopt votes_of_record split: if_splits)
next
  fix c
  assume m: "mb_self_id b' = mb_self_id b" "adopted acts = [c]" "mb_two_chain b' = settle_rule (adopt c (mb_two_chain b))"
    "mb_votes b' = mb_votes b"
  show ?thesis
    using inv m height [OF m(2)] by (auto simp: entries_inv_def bt_get_adopt nth_append split: if_splits)
qed

lemma macro_reach_entries:
  assumes "macro_reach L cfg me hosts ok tr book" "length (adopted tr) < 2 ^ 64"
  shows "entries_inv me (adopted tr) book"
  using assms
proof induction
  case start
  then show ?case
    by (simp add: entries_inv_def macro_book_new_def two_chain_default_def)
next
  case (step tr book ctx inp acts book')
  have "macro_inv (tr @ acts) book'"
    by (rule macro_reach_inv [OF macro_reach.step [OF step.hyps]])
  then have chain: "hash_chain (adopted tr @ adopted acts)"
    using step.prems by (simp add: macro_inv_def chain_inv_def)
  have "unat (mc_height c) = length (adopted tr)" if "adopted acts = [c]" for c
  proof -
    have "mc_height c = of_nat (length (adopted tr))"
      using chain that by (auto simp: hash_chain_def nth_append)
    then show ?thesis
      using step.prems that by (simp add: unat_of_nat_small)
  qed
  moreover have "rule_moves book acts book'"
    using macro_step_moves [OF step.hyps(3), of book L cfg ctx] step.hyps(5) by simp
  ultimately show ?case
    using entries_inv_moves [of me "adopted tr" book acts book'] step.IH step.prems by simp
next
  case (fail tr book ctx inp e book')
  have "rule_moves book [] book'"
    using macro_step_moves [OF fail.hyps(3), of book L cfg ctx] fail.hyps(5) by simp
  then show ?case
    using entries_inv_moves [of me "adopted tr" book "[]" book'] fail.IH fail.prems by simp
qed

end
