(* ===== verification/Macro_Properties.thy ===== *)
theory Macro_Properties
  imports Macro_Samples Macro_Rules Macro_Progress
begin

text \<open>
  The theorems about macro finality: the chain of adopted checkpoints and its finality, what a
  validator signs, certificates and their quorums, the proposer schedule and the inactivity leak,
  each with an instance on the sample committee.
\<close>

section \<open>The chain of adopted checkpoints\<close>

text \<open>
  C5: Over any run of a validator, whatever certificates, proposals, signatures and timers it is shown
  and whatever errors it meets, the checkpoints it adopts have heights 0, 1, 2 and so on, each names
  the hash of the one before it as its parent, the first one the zero hash, none is adopted twice,
  and the next candidate is built on the last of them (for the first 2^64 of them: heights are 64-bit
  numbers).
\<close>

theorem adopted_chain:
  assumes "macro_reach L cfg me hosts ok tr book" "length (adopted tr) < 2 ^ 64"
  shows "(\<forall>i < length (adopted tr). mc_height (adopted tr ! i) = of_nat i \<and>
      mc_parent (adopted tr ! i) = (if i = 0 then hash_zero else mc_hash (adopted tr ! (i - 1)))) \<and>
    distinct (map mc_hash (adopted tr)) \<and>
    mb_next_height book = of_nat (length (adopted tr)) \<and>
    mb_last_macro_hash book = (if adopted tr = [] then hash_zero else mc_hash (last (adopted tr)))"
proof -
  let ?cps = "adopted tr"
  have chain: "chain_inv ?cps book"
    using macro_reach_inv [OF assms(1)] assms(2) by (simp add: macro_inv_def)
  have "tip (take i ?cps) = (if i = 0 then hash_zero else mc_hash (?cps ! (i - 1)))" if "i < length ?cps" for i
    using that tip_take [of i ?cps] by (auto simp: tip_def)
  with chain show ?thesis
    by (simp add: chain_inv_def hash_chain_def tip_def)
qed

lemma trace4_adopted: "adopted trace4 = [ck 0 0 10, ck 1 10 20]"
  "final_blobs trace4 = [blob_id_of_checkpoint (ck 0 0 10)]"
  by (simp_all add: trace4_def trace3_def micro_acts_def adopt_acts_def)

theorem adopted_chain_witness: "adopted trace4 = [ck 0 0 10, ck 1 10 20] \<and> mb_next_height book4 = of_nat 2 \<and>
    mb_last_macro_hash book4 = 20"
  using adopted_chain [OF run4 [where ok = "\<lambda>_ _. True"]] by (simp add: trace4_adopted)

text \<open>
  C6: A blob is reported final, and a checkpoint becomes the finalized head, only when the checkpoint
  was adopted and the checkpoint of the next height, which names it as its parent, was adopted too.
\<close>

theorem final_means_two_chain:
  assumes "macro_reach L cfg me hosts ok tr book" "length (adopted tr) < 2 ^ 64"
  shows "(\<forall>b \<in> set (final_blobs tr). \<exists>i. Suc i < length (adopted tr) \<and>
      b = blob_id_of_checkpoint (adopted tr ! i) \<and> mc_parent (adopted tr ! Suc i) = mc_hash (adopted tr ! i)) \<and>
    (\<forall>x. tc_finalized_head (mb_two_chain book) = Some x \<longrightarrow> (\<exists>i. Suc i < length (adopted tr) \<and>
      x = mc_hash (adopted tr ! i) \<and> mc_parent (adopted tr ! Suc i) = mc_hash (adopted tr ! i)))"
proof -
  let ?cps = "adopted tr"
  have chain: "chain_inv ?cps book" and reports: "reports_ok ?cps (final_blobs tr)"
    using macro_reach_inv [OF assms(1)] assms(2) by (simp_all add: macro_inv_def)
  have "mc_parent (?cps ! Suc i) = mc_hash (?cps ! i)" if "Suc i < length ?cps" for i
    using chain that tip_take [of "Suc i" ?cps] by (simp add: chain_inv_def hash_chain_def)
  moreover have "\<exists>i. Suc i < length ?cps \<and> mc_hash (?cps ! i) = x"
    if "tc_finalized_head (mb_two_chain book) = Some x" for x
    using chain that by (simp add: chain_inv_def two_chain_ok_def)
  ultimately show ?thesis
    using reports unfolding reports_ok_def by metis
qed

theorem final_means_two_chain_witness:
  "\<exists>i. Suc i < length (adopted trace4) \<and> 10 = mc_hash (adopted trace4 ! i)"
proof -
  have "tc_finalized_head (mb_two_chain book4) = Some 10" "length (adopted trace4) < 2 ^ 64"
    by (simp_all add: book4_def trace4_adopted)
  then show ?thesis
    using final_means_two_chain [OF run4 [where ok = "\<lambda>_ _. True"]] by metis
qed

section \<open>What a validator signs\<close>

text \<open>
  C7: When the proposals a validator is shown carry the parent their hash commits to and adopted
  checkpoints do not collide with each other or with the zero hash, then between two adoptions the
  validator signs at most one checkpoint, by vote or by the leaderless fallback; its votes for one
  target agree, and the scan of its own vote history finds neither a double vote nor a surround.
\<close>

theorem one_signature_per_height:
  assumes "macro_reach L cfg me hosts (honest_input me) tr book" "length (adopted tr) < 2 ^ 64"
    "distinct (hash_zero # map mc_hash (adopted tr))"
  shows "(\<exists>x. open_partials me tr \<subseteq> {x}) \<and>
    (\<forall>v \<in> set (votes_of (mb_votes book) me). \<forall>w \<in> set (votes_of (mb_votes book) me).
       vr_target v = vr_target w \<longrightarrow> vr_checkpoint v = vr_checkpoint w) \<and>
    self_scan (mb_votes book) me = []"
proof -
  have inv: "votes_consistent (adopted tr) me book"
      "\<And>x. x \<in> open_partials me tr \<Longrightarrow> lock_get me (mb_locks book) = Some (mb_next_height book, x)"
    using macro_reach_votes [OF assms(1)] assms(2,3) by (auto simp: vote_inv_def)
  have one: "\<exists>x. open_partials me tr \<subseteq> {x}"
    using inv(2) by (cases "lock_get me (mb_locks book)") auto
  have members: "v \<in> set (votes_of (mb_votes book) me)"
    if "v \<in> set (butlast (votes_of (mb_votes book) me)) \<or> v = last (votes_of (mb_votes book) me) \<and>
      2 \<le> length (votes_of (mb_votes book) me)" for v
    using that by (auto dest: in_set_butlastD intro!: last_in_set)
  have double: "scan_for_double_vote (mb_votes book) me = None"
  proof (rule ccontr)
    assume "scan_for_double_vote (mb_votes book) me \<noteq> None"
    then obtain old where old: "old \<in> set (butlast (votes_of (mb_votes book) me))"
        "vr_target old = vr_target (last (votes_of (mb_votes book) me))"
        "vr_checkpoint old \<noteq> vr_checkpoint (last (votes_of (mb_votes book) me))"
      using scan_double_vote_Some by blast
    have "last (votes_of (mb_votes book) me) \<in> set (votes_of (mb_votes book) me)"
      using old(1) by (intro last_in_set) auto
    then show False
      using votes_consistentD(4) [OF inv(1) in_set_butlastD [OF old(1)]] old(2,3) by blast
  qed
  have surround: "scan_for_surround (mb_votes book) me = None"
    using votes_consistentD(2) [OF inv(1)] members
    by (auto simp: scan_for_surround_def Let_def scan_surround_against_None_iff surrounds_adjacent [OF refl refl])
  have "self_scan (mb_votes book) me = []"
    by (simp add: self_scan_def double surround)
  then show ?thesis
    using one inv(1) unfolding votes_consistent_def by blast
qed

lemma voting_run: "\<exists>tr book. macro_reach macro_lib macro_cfg 3 {macro_host} (honest_input 3) tr book \<and>
    adopted tr = [ck 0 0 10] \<and> open_partials 3 tr = {20} \<and>
    votes_of (mb_votes book) 3 = [own_vote macro_lib macro_host 1 20]"
proof -
  obtain b acts where v: "macro_step macro_lib macro_cfg macro_host (ProposalIn (offer (ck 1 10 20) 1)) book3 = (Ok acts, b)"
      "mb_votes b = record_vote 3 (own_vote macro_lib macro_host 1 20) vote_book_new"
      "acts = self_scan (mb_votes b) 3 @ [BroadcastBlsPartial \<lparr> bp_subnet = 0, bp_validator = 3,
          bp_checkpoint_hash = 20, bp_sig = signer_sign_bls macro_host DST_MACRO_CHECKPOINT
            (checkpoint_message macro_lib (ck 1 10 20)) \<rparr>,
        UpdateBlobStatus (blob_id_of_checkpoint (ck 1 10 20)) SoftConfirmed]"
    using vote4 by auto
  have votes: "votes_of (mb_votes b) 3 = [own_vote macro_lib macro_host 1 20]"
    by (simp add: v(2) votes_of_record) (simp add: votes_of_def vote_book_new_def)
  then have scan: "self_scan (mb_votes b) 3 = []"
    by (simp add: self_scan_def scan_for_surround_def scan_for_double_vote_def Let_def)
  have "macro_reach macro_lib macro_cfg 3 {macro_host} (honest_input 3) (trace3 @ acts) b"
    by (rule macro_reach.step [OF run3 _ _ _ v(1)])
      (simp_all add: micro_def silent_def offer_def book3_def bt_get_list)
  moreover have "open_partials 3 (trace3 @ acts) = {20}"
    by (simp add: v(3) scan trace3_def micro_acts_def adopt_acts_def open_partials_def track_def)
  moreover have "adopted (trace3 @ acts) = [ck 0 0 10]"
    by (simp add: v(3) scan trace3_def micro_acts_def adopt_acts_def)
  ultimately show ?thesis
    using votes by blast
qed

theorem one_signature_per_height_witness:
  "\<exists>tr book. macro_reach macro_lib macro_cfg 3 {macro_host} (honest_input 3) tr book \<and>
    open_partials 3 tr = {20} \<and> self_scan (mb_votes book) 3 = []"
proof -
  obtain tr book where r: "macro_reach macro_lib macro_cfg 3 {macro_host} (honest_input 3) tr book"
      "adopted tr = [ck 0 0 10]" "open_partials 3 tr = {20}"
    using voting_run by blast
  then have "self_scan (mb_votes book) 3 = []"
    using one_signature_per_height [OF r(1)] by (simp add: hash_zero_def)
  with r show ?thesis
    by blast
qed

lemma proposal_extends:
  assumes "macro_reach L cfg me hosts ok tr book" "ctx \<in> hosts" "ok book (ProposalIn p)"
    "macro_step L cfg ctx (ProposalIn p) book = (Ok acts, book')"
  shows "macro_reach L cfg me hosts ok (tr @ acts) book'" "adopted (tr @ acts) = adopted tr"
proof -
  show "macro_reach L cfg me hosts ok (tr @ acts) book'"
    by (rule macro_reach.step [OF assms(1,2) _ assms(3,4)]) simp
  show "adopted (tr @ acts) = adopted tr"
    using on_macro_proposal_inv [OF macro_reach_inv [OF assms(1)], of L cfg p ctx] assms(4)
    by (simp add: quiet_def)
qed

text \<open>A proposal whose checkpoint carries the hash of its content, and one that does not.\<close>

fun content_hashed :: "'x crypto_lib \<Rightarrow> macro_input \<Rightarrow> bool" where
  "content_hashed L (ProposalIn p) \<longleftrightarrow> (let cp = mp_checkpoint p in
     cp = build_checkpoint L (mc_height cp) (mc_epoch cp) (mc_parent cp) (mc_micro_root cp))"
| "content_hashed L _ \<longleftrightarrow> True"

definition replayed :: MacroProposal where
  "replayed = offer (ck 0 10 10) 1"

lemma content_hashed_ck: "content_hashed macro_lib (ProposalIn (offer (ck h p q) v)) \<longleftrightarrow> p = 10 * ucast h"
proof -
  have "ck h p q = build_checkpoint macro_lib h 0 p q \<longleftrightarrow> q = mc_hash (build_checkpoint macro_lib h 0 p q)"
    by (auto simp: build_checkpoint_def ck_def)
  then show ?thesis
    by (auto simp: offer_def macro_hashes(3) eq_diff_eq)
qed

text \<open>
  C27: Without that assumption on proposals the property fails, because the content of a proposed
  checkpoint is never hashed again. In a run in which every proposal but one carries the hash of its content,
  the scheduled proposer of height 0 proposes once more: the hash and the micro root of the adopted checkpoint
  under a new parent, so that the hash is not that of the content. This moves the vote lock back to height 0,
  and the validator then votes for a second checkpoint of height 1. The evidence it emits against itself
  passes the verifier.
\<close>

theorem honest_validator_double_votes:
  "\<exists>tr book ev. macro_reach macro_lib macro_cfg 3 {macro_host}
      (\<lambda>_ inp. content_hashed macro_lib inp \<or> inp = ProposalIn replayed) tr book \<and>
    adopted tr = [ck 0 0 10] \<and> EmitSlashEvidence 3 (EvDoubleVote ev) \<in> set tr \<and>
    verify_evidence macro_lib (EvDoubleVote ev) (sample_set 4) = Ok () \<and>
    \<not> content_hashed macro_lib (ProposalIn replayed) \<and>
    mc_hash (mp_checkpoint replayed) = mc_hash (ck 0 0 10) \<and> mc_parent (mp_checkpoint replayed) \<noteq> mc_parent (ck 0 0 10)"
proof -
  let ?ok = "\<lambda>_ inp. content_hashed macro_lib inp \<or> inp = ProposalIn replayed"
  let ?R = "macro_reach macro_lib macro_cfg 3 {macro_host} ?ok"
  have r3: "?R trace3 book3"
    by (rule run3) (simp_all add: micro_def)
  have a3: "adopted trace3 = [ck 0 0 10]"
    by (simp add: trace3_def micro_acts_def adopt_acts_def)
  obtain b4 acts4 where v4: "macro_step macro_lib macro_cfg macro_host (ProposalIn (offer (ck 1 10 20) 1)) book3 = (Ok acts4, b4)"
      and b4: "\<exists>b' acts. macro_step macro_lib macro_cfg macro_host (ProposalIn (offer (ck 0 10 10) 1)) b4 = (Ok acts, b') \<and>
        (\<exists>b1 b2 acts' ev. macro_step macro_lib macro_cfg macro_host (micro 30) b' = (Ok (micro_acts 30), b1) \<and>
          macro_step macro_lib macro_cfg macro_host (ProposalIn (offer (ck 1 10 30) 2)) b1 = (Ok acts', b2) \<and>
          EmitSlashEvidence 3 (EvDoubleVote ev) \<in> set acts' \<and>
          verify_evidence macro_lib (EvDoubleVote ev) (sample_set 4) = Ok ())"
    using vote4 attack_vote double_vote by metis
  have hashed: "content_hashed macro_lib (ProposalIn (offer (ck 1 10 q) v))" for q v
    unfolding content_hashed_ck by simp
  note r4 = proposal_extends [OF r3 singletonI disjI1 [OF hashed] v4]
  obtain b5 b6 b7 acts5 acts7 ev where
      v5: "macro_step macro_lib macro_cfg macro_host (ProposalIn replayed) b4 = (Ok acts5, b5)"
      and v6: "macro_step macro_lib macro_cfg macro_host (micro 30) b5 = (Ok (micro_acts 30), b6)"
      and v7: "macro_step macro_lib macro_cfg macro_host (ProposalIn (offer (ck 1 10 30) 2)) b6 = (Ok acts7, b7)"
      and ev: "EmitSlashEvidence 3 (EvDoubleVote ev) \<in> set acts7"
        "verify_evidence macro_lib (EvDoubleVote ev) (sample_set 4) = Ok ()"
    using b4 unfolding replayed_def by blast
  note r5 = proposal_extends [OF r4(1) singletonI disjI2 [OF refl] v5]
  have r6: "?R (((trace3 @ acts4) @ acts5) @ micro_acts 30) b6"
    by (rule macro_reach.step [OF r5(1) _ _ _ v6]) (simp_all add: micro_def)
  note r7 = proposal_extends [OF r6 singletonI disjI1 [OF hashed] v7]
  have "adopted ((((trace3 @ acts4) @ acts5) @ micro_acts 30) @ acts7) = [ck 0 0 10]"
    using a3 r4(2) r5(2) r7(2) by (simp add: micro_acts_def)
  moreover have "\<not> content_hashed macro_lib (ProposalIn replayed)"
    unfolding replayed_def content_hashed_ck by simp
  moreover have "mc_hash (mp_checkpoint replayed) = mc_hash (ck 0 0 10)" "mc_parent (mp_checkpoint replayed) \<noteq> mc_parent (ck 0 0 10)"
    by (simp_all add: replayed_def offer_def)
  ultimately show ?thesis
    using r7(1) ev by (intro exI [of _ "(((trace3 @ acts4) @ acts5) @ micro_acts 30) @ acts7"]) auto
qed

section \<open>Certificates\<close>

text \<open>
  C29: Given verified partial signatures of the collected signers, all of them members of the set, a
  flat macro certificate is assembled exactly when they number at least 2f + 1, where f = (n - 1) / 3;
  it then names the checkpoint, marks exactly the signers and passes the certificate verifier.
\<close>

theorem flat_certificate_verifies:
  assumes agg: "bls_aggregation L K" and keys: "keys_ok L K vset" and ids: "distinct (map ve_id (vs_entries vset))"
    and signers: "signers \<subseteq> set (map ve_id (vs_entries vset))"
    and sigs: "\<And>v. v \<in> signers \<Longrightarrow> \<exists>sig. partial_sigs (mc_hash cp, v) = Some sig \<and>
      macro_verify_partial L vset \<lparr> bp_subnet = 0, bp_validator = v, bp_checkpoint_hash = mc_hash cp, bp_sig = sig \<rparr> cp"
  shows "if card signers < 2 * ((length (vs_entries vset) - 1) div 3) + 1
    then try_finalize_mode0 L (mc_hash cp) signers partial_sigs vset = None
    else \<exists>qc. try_finalize_mode0 L (mc_hash cp) signers partial_sigs vset = Some qc \<and>
      verify_macro_qc L vset qc cp \<and>
      marked_entries vset (as_bitmap (mq_agg qc)) = filter (\<lambda>e. ve_id e \<in> signers) (vs_entries vset)"
proof (cases "card signers < 2 * ((length (vs_entries vset) - 1) div 3) + 1")
  case True
  then show ?thesis
    by (simp add: try_finalize_mode0_def Let_def)
next
  case False
  let ?es = "vs_entries vset" and ?slots = "signer_slots vset signers"
  define sig where "sig v = the (partial_sigs (mc_hash cp, v))" for v
  note slots = signer_slots_props [of vset signers]
  have ne: "?es \<noteq> []" "?slots \<noteq> []"
  proof -
    obtain v where "v \<in> signers"
      using False by fastforce
    then obtain i where "i < length ?es" "ve_id (?es ! i) \<in> signers"
      using signers by (force simp: in_set_conv_nth)
    then show "?es \<noteq> []" "?slots \<noteq> []"
      by (auto simp: signer_slots_def filter_empty_conv)
  qed
  have mem: "ve_id (?es ! i) \<in> signers" "i < length ?es" if "i \<in> set ?slots" for i
    using that by (auto simp: signer_slots_def)
  have found: "find_entry vset (ve_id (?es ! i)) = Some (?es ! i)" if "i < length ?es" for i
    using ids that unfolding find_entry_def
    by (auto simp: find_Some_iff distinct_conv_nth intro!: exI [of _ i])
  have ver: "partial_sigs (mc_hash cp, ve_id (?es ! i)) = Some (sig (ve_id (?es ! i))) \<and>
      (\<exists>pk. pk_from_entry L (?es ! i) = Some pk \<and>
        bls_verify L pk DST_MACRO_CHECKPOINT (checkpoint_message L cp) (sig (ve_id (?es ! i))) = Ok ())"
    if "i \<in> set ?slots" for i
    using sigs [OF mem(1) [OF that]] found [OF mem(2) [OF that]]
    by (auto simp: sig_def macro_verify_partial_def is_ok_iff split: option.splits)
  have all: "all_some (\<lambda>i. partial_sigs (mc_hash cp, ve_id (?es ! i))) ?slots =
      Some (map (\<lambda>i. sig (ve_id (?es ! i))) ?slots)"
    using ver by (intro all_some_map) blast
  have l2: "list_all2 (\<lambda>i s. \<exists>pk. pk_from_entry L (?es ! i) = Some pk \<and>
      bls_verify L pk DST_MACRO_CHECKPOINT (checkpoint_message L cp) s = Ok ()) ?slots
      (map (\<lambda>i. sig (ve_id (?es ! i))) ?slots)"
    using ver by (auto simp: list_all2_conv_all_nth)
  obtain a where a: "aggregate_sigs L (map (\<lambda>i. sig (ve_id (?es ! i))) ?slots) = Ok a"
      "verify_macro_qc L vset \<lparr> mq_checkpoint_hash = mc_hash cp, mq_mode = Mode0Flat,
        mq_agg = \<lparr> as_sig = a, as_bitmap = slots_bitmap (length ?es) ?slots \<rparr> \<rparr> cp"
    using aggregate_over_slots [OF agg keys slots(1,2) ne(2) l2] by blast
  show ?thesis
    using False ne(1) a all slots by (simp add: try_finalize_mode0_def Let_def marked_slots)
qed

lemma sample_keys_ok: "keys_ok macro_lib UNIV (sample_set 4)"
proof -
  have "pk_from_entry macro_lib (sample_entry i) = Some (ucast (of_nat i :: BlsPubkey))" for i
    by (simp add: pk_from_entry_def pk_from_bytes_def sample_entry_def)
  then show ?thesis
    by (simp add: keys_ok_def sample_entries)
qed

lemma macro_aggregation: "bls_aggregation macro_lib K"
proof -
  have same: "blst_sig_uncompress macro_lib = blst_sig_uncompress sample_lib"
    "blst_sig_compress macro_lib = blst_sig_compress sample_lib" "blst_agg_sig macro_lib = blst_agg_sig sample_lib"
    "blst_agg_pk macro_lib = blst_agg_pk sample_lib" "blst_sig_verify macro_lib = blst_sig_verify sample_lib"
    by (simp_all add: macro_lib_def del: macro_lib_fields)
  show ?thesis
    using sample_aggregation [of K] unfolding bls_aggregation_def same .
qed

lemma sample_ids: "map ve_id (vs_entries (sample_set 4)) = [1, 2, 3, 4]"
  by (simp add: sample_entries sample_entry_def)

lemma sample_partials:
  assumes "v \<in> {1, 2, 3}"
  shows "macro_verify_partial macro_lib (sample_set 4) \<lparr> bp_subnet = 0, bp_validator = v,
    bp_checkpoint_hash = 10, bp_sig = ucast v * 5 \<rparr> (ck 0 0 10)"
proof -
  have "find_entry (sample_set 4) 1 = Some (sample_entry 1)" "find_entry (sample_set 4) 2 = Some (sample_entry 2)"
      "find_entry (sample_set 4) 3 = Some (sample_entry 3)"
    by (simp_all add: find_entry_def sample_entries sample_entry_def)
  then show ?thesis
    using assms sample_key
    by (auto simp: macro_verify_partial_def bls_verify_def checkpoint_message_def sample_digest_def
        simp del: One_nat_def)
qed

theorem flat_certificate_verifies_witness:
  "\<exists>qc. try_finalize_mode0 macro_lib 10 {1, 2, 3} (\<lambda>(h, v). Some (ucast v * 5)) (sample_set 4) = Some qc \<and>
    verify_macro_qc macro_lib (sample_set 4) qc (ck 0 0 10)"
proof -
  have "if card {1, 2, 3 :: ValidatorId} < 2 * ((length (vs_entries (sample_set 4)) - 1) div 3) + 1
    then try_finalize_mode0 macro_lib (mc_hash (ck 0 0 10)) {1, 2, 3} (\<lambda>(h, v). Some (ucast v * 5)) (sample_set 4) = None
    else \<exists>qc. try_finalize_mode0 macro_lib (mc_hash (ck 0 0 10)) {1, 2, 3} (\<lambda>(h, v). Some (ucast v * 5)) (sample_set 4)
        = Some qc \<and> verify_macro_qc macro_lib (sample_set 4) qc (ck 0 0 10) \<and>
      marked_entries (sample_set 4) (as_bitmap (mq_agg qc)) =
        filter (\<lambda>e. ve_id e \<in> {1, 2, 3}) (vs_entries (sample_set 4))"
    by (rule flat_certificate_verifies [OF macro_aggregation sample_keys_ok])
      (use sample_partials in \<open>simp_all add: sample_ids\<close>)
  then show ?thesis
    by (simp add: sample_length card_insert_if) blast
qed

text \<open>
  C30: The verifier of received certificates checks no quorum: a certificate that marks a single
  validator and carries its signature alone is adopted, whatever the size of the set.
\<close>

theorem single_signature_adopted:
  assumes agg: "bls_aggregation L K" and keys: "keys_ok L K vset" and i: "i < length (vs_entries vset)"
    "pk_from_entry L (vs_entries vset ! i) = Some pk"
    and sig: "bls_verify L pk DST_MACRO_CHECKPOINT (checkpoint_message L c) sig = Ok ()"
    and book: "macro_set ctx = Ok vset" "candidate_height book (mc_hash c) = Some h"
      "bt_get (mb_candidate book) h = Some c" "mc_hash c \<notin> mb_emitted_macro_qc book"
      "mb_partials book (mc_hash c) = None"
  shows "\<exists>qc acts book'. marked_entries vset (as_bitmap (mq_agg qc)) = [vs_entries vset ! i] \<and>
    on_macro_qc_received L cfg qc ctx book = (Ok acts, book') \<and> PersistMacroCheckpoint c \<in> set acts"
proof -
  obtain a where a: "verify_macro_qc L vset \<lparr> mq_checkpoint_hash = mc_hash c, mq_mode = Mode0Flat,
      mq_agg = \<lparr> as_sig = a, as_bitmap = slots_bitmap (length (vs_entries vset)) [i] \<rparr> \<rparr> c"
    using aggregate_over_slots [OF agg keys, of "[i]" c "[sig]"] i sig by auto
  define qc where "qc = \<lparr> mq_checkpoint_hash = mc_hash c, mq_mode = Mode0Flat,
      mq_agg = \<lparr> as_sig = a, as_bitmap = slots_bitmap (length (vs_entries vset)) [i] \<rparr> \<rparr>"
  obtain acts book' where settle: "settle_finality cfg [PersistMacroCheckpoint c, PersistMacroQc qc,
      UpdateBlobStatus (blob_id_of_checkpoint c) Justified] (record_adoption h c qc book) = (acts, book')"
    by fastforce
  have "PersistMacroCheckpoint c \<in> set acts"
    using settle_finality_extra [OF settle, of 0] by auto
  moreover have "on_macro_qc_received L cfg qc ctx book = (Ok acts, book')"
    using book a settle
    by (simp add: on_macro_qc_received_def Let_def signers_of_def bump_reputation_def qc_def)
  moreover have "marked_entries vset (as_bitmap (mq_agg qc)) = [vs_entries vset ! i]"
    using i(1) marked_slots [of "[i]" vset] by (simp add: qc_def)
  ultimately show ?thesis
    by blast
qed

theorem single_signature_adopted_witness:
  "\<exists>qc acts book'. marked_entries (sample_set 4) (as_bitmap (mq_agg qc)) = [vs_entries (sample_set 4) ! 0] \<and>
    on_macro_qc_received macro_lib macro_cfg qc macro_host book1 = (Ok acts, book') \<and>
    PersistMacroCheckpoint (ck 0 0 10) \<in> set acts"
  by (rule single_signature_adopted [OF macro_aggregation sample_keys_ok, where pk = 1 and sig = 5 and h = 0])
    (use sample_key in \<open>simp_all add: sample_length sample_entries bls_verify_def checkpoint_message_def sample_digest_def
      book1_def macro_book_new_def candidate_height_def bt_get_list\<close>)

section \<open>Proposers\<close>

text \<open>
  C31: The schedule of a height names the two validators that rank first and second by score, ties broken
  by identity, whatever the order of the set, provided recorded reputations are moderate numbers; sets
  of fewer than two validators make the computation panic.
\<close>

theorem proposer_schedule:
  assumes ids: "distinct (map ve_id (vs_entries vset))"
    and rep: "\<And>e r. e \<in> set (vs_entries vset) \<Longrightarrow> reputation (ve_id e) = Some r \<Longrightarrow> \<exists>x. r = Fin x \<and> \<bar>x\<bar> \<le> 2 ^ 100"
  shows "if length (vs_entries vset) < 2 then \<exists>m. vrf_sortition L beacon vset height reputation = Panic m
    else \<exists>p b. vrf_sortition L beacon vset height reputation =
        Ok \<lparr> ps_height = height, ps_primary = fst p, ps_backup = fst b \<rparr> \<and>
      {p, b} \<subseteq> set (scored_entries L beacon vset height reputation) \<and> scored_cmp p b = Less \<and>
      (\<forall>x \<in> set (scored_entries L beacon vset height reputation) - {p, b}. scored_cmp b x = Less)"
proof -
  let ?S = "scored_entries L beacon vset height reputation" and ?T = "sort_scored (scored_entries L beacon vset height reputation)"
  have cmp: "\<forall>y \<in> set ?S. comparable y"
    by (rule scored_entries_comparable [OF rep])
  have same: "set ?T = set ?S" "length ?T = length (vs_entries vset)"
    using arg_cong [OF fst_scored_entries, of length L beacon vset height reputation] by simp_all
  have "mset (map fst ?T) = mset (map ve_id (vs_entries vset))"
    by (simp flip: fst_scored_entries [of L beacon vset height reputation])
  then have dist: "distinct (map fst ?T)"
    using ids mset_eq_imp_distinct_iff by blast
  have less: "scored_cmp x y = Less" if "scored_le x y" "fst x \<noteq> fst y" "x \<in> set ?S" "y \<in> set ?S" for x y
    using that cmp by (auto simp: scored_le_iff scored_less_iff)
  show ?thesis
  proof (cases ?T rule: remdups_adj.cases)
    case (3 p b rest)
    have "sorted_wrt scored_le (p # b # rest)"
      using sorted_sort_scored [OF cmp] 3 by simp
    then have le: "scored_le p b" "\<And>x. x \<in> set rest \<Longrightarrow> scored_le b x"
      by auto
    have ne: "fst p \<noteq> fst b" "\<And>x. x \<in> set rest \<Longrightarrow> fst b \<noteq> fst x"
      using dist 3 by auto
    have mem: "x \<in> set ?S" if "x \<in> {p, b} \<union> set rest" for x
      using that same(1) 3 by auto
    have "scored_cmp p b = Less" "\<forall>x \<in> set rest. scored_cmp b x = Less"
      using le ne mem by (blast intro: less)+
    moreover have "set ?S = {p, b} \<union> set rest"
      using same(1) 3 by auto
    moreover have "\<not> length (vs_entries vset) < 2"
      using same(2) 3 by simp
    moreover have "vrf_sortition L beacon vset height reputation =
        Ok \<lparr> ps_height = height, ps_primary = fst p, ps_backup = fst b \<rparr>"
      by (simp add: vrf_sortition_def 3)
    ultimately show ?thesis
      by (simp only: if_False, intro exI [of _ p] exI [of _ b]) blast
  qed (use same(2) in \<open>auto simp: vrf_sortition_def\<close>)
qed

theorem proposer_schedule_witness:
  "\<exists>p b. vrf_sortition macro_lib 7 (sample_set 4) 2 [1 \<mapsto> Fin 1] =
      Ok \<lparr> ps_height = 2, ps_primary = fst p, ps_backup = fst b \<rparr> \<and> scored_cmp p b = Less"
proof -
  have "if length (vs_entries (sample_set 4)) < 2 then \<exists>m. vrf_sortition macro_lib 7 (sample_set 4) 2 [1 \<mapsto> Fin 1] = Panic m
    else \<exists>p b. vrf_sortition macro_lib 7 (sample_set 4) 2 [1 \<mapsto> Fin 1] =
        Ok \<lparr> ps_height = 2, ps_primary = fst p, ps_backup = fst b \<rparr> \<and>
      {p, b} \<subseteq> set (scored_entries macro_lib 7 (sample_set 4) 2 [1 \<mapsto> Fin 1]) \<and> scored_cmp p b = Less \<and>
      (\<forall>x \<in> set (scored_entries macro_lib 7 (sample_set 4) 2 [1 \<mapsto> Fin 1]) - {p, b}. scored_cmp b x = Less)"
    by (rule proposer_schedule) (auto simp: sample_ids split: if_splits)
  moreover have two: "\<not> length (vs_entries (sample_set 4)) < 2"
    by (simp add: sample_length)
  ultimately show ?thesis
    unfolding if_not_P [OF two] by blast
qed

section \<open>Inactivity\<close>

text \<open>
  C32: A streak of adoptions that finalize nothing is announced once, by the adoption at which its
  length reaches the configured trigger (the first one when the trigger is zero), with that length and
  the configured rate; the streak is counted exactly, and one finalization resets it.
\<close>

theorem inactivity_leak_once:
  assumes "mb_unfinalized_windows book = 0" "\<not> mb_leak_notified book" "k < 2 ^ 32"
  shows "fst (leak_streak cfg k book) =
      (if 0 < k \<and> unat (inactivity_leak_trigger_windows (cfg_macro_fin cfg)) \<le> k
       then [NotifyInactivityLeak (max 1 (inactivity_leak_trigger_windows (cfg_macro_fin cfg)))
               (inactivity_leak_bps_per_window (cfg_macro_fin cfg))] else []) \<and>
    mb_unfinalized_windows (snd (leak_streak cfg k book)) = of_nat k \<and>
    note_inactivity_leak_on_adoption cfg True actions (snd (leak_streak cfg k book)) = (actions, book)"
  using assms by (cases book) (simp add: leak_streak_state note_inactivity_leak_on_adoption_def)

theorem inactivity_leak_once_witness:
  "fst (leak_streak default_table_17_1 6 (macro_book_new 1)) = [NotifyInactivityLeak 4 50]"
  using inactivity_leak_once [of "macro_book_new 1" 6 default_table_17_1 "[]"]
  by (simp add: macro_book_new_def default_table_17_1_def max_def word_le_nat_alt)

section \<open>Progress of finality\<close>

lemma two_chain_progress:
  assumes two: "two_chain_ok cps r" and chain: "hash_chain cps" "cps \<noteq> []" "length cps < 2 ^ 64"
    and c: "unat (mc_height c) = length cps" "mc_parent c = tip cps"
    and prev: "bt_get (tc_adopted r) (mc_height c - 1) = Some e" "mc_hash e = tip cps"
    and own: "\<And>v. bt_get (tc_adopted r) (mc_height c) = Some v \<Longrightarrow> mc_hash v = mc_hash c"
  shows "newly_finalized_height (adopt c r) = Some (mc_height c - 1)"
    "bt_get (tc_adopted (adopt c r)) (mc_height c - 1) = Some e"
proof -
  let ?r = "adopt c r" and ?h = "mc_height c"
  have two': "two_chain_ok cps ?r"
    by (rule adopt_ok [OF two]) (use c in auto)
  obtain v where v: "bt_get (tc_adopted ?r) ?h = Some v" "mc_hash v = mc_hash c"
    using own by (cases "bt_get (tc_adopted r) ?h") (auto simp: adopt_adopted)
  have justified: "tc_justified_head ?r = Some (mc_hash c)"
    using own by (cases "bt_get (tc_adopted r) ?h") (auto simp: adopt_def)
  have "?h \<noteq> 0"
    using c(1) chain(2) by auto
  then have e: "bt_get (tc_adopted ?r) (?h - 1) = Some e"
    using prev(1) by (auto simp: adopt_adopted split: option.splits)
  have sorted: "sorted_wrt (<) (map fst (tc_adopted ?r))"
    using two' by (simp add: two_chain_ok_def bt_inv_def)
  have le: "k \<le> ?h" if "(k, x) \<in> set (tc_adopted ?r)" for k x
  proof -
    have "bt_get (tc_adopted ?r) k = Some x"
      using that sorted by (simp add: bt_get_def strict_sorted_iff)
    then show ?thesis
      using two' c(1) by (auto simp: two_chain_ok_def word_le_nat_alt)
  qed
  have "(?h, v) \<in> set (tc_adopted ?r)"
    using v(1) by (simp add: bt_get_def map_of_SomeD)
  then obtain xs ys where split: "tc_adopted ?r = xs @ (?h, v) # ys"
    by (meson split_list)
  have "ys = []"
  proof (rule ccontr)
    assume "ys \<noteq> []"
    then obtain k x where k: "(k, x) \<in> set ys"
      by (cases ys) auto
    then have "?h < k"
      using sorted split by (auto simp: sorted_wrt_append)
    then show False
      using le [of k x] k split by auto
  qed
  then have head: "justified_head_height ?r = Some ?h"
    by (simp add: justified_head_height_def justified split v(2))
  have "mc_parent v = mc_hash e"
    using two' v(1) c(1) prev(2) by (auto simp: two_chain_ok_def)
  moreover have "tc_finalized_head ?r \<noteq> Some (mc_hash e)"
  proof
    assume "tc_finalized_head ?r = Some (mc_hash e)"
    then obtain j where "Suc j < length cps" "mc_hash (cps ! j) = mc_hash (cps ! (length cps - 1))"
      using two' prev(2) chain(2) by (auto simp: two_chain_ok_def tip_def last_conv_nth)
    moreover have "length cps - 1 < length cps"
      using chain(2) by simp
    ultimately show False
      using chain(1) nth_eq_iff_index_eq [of "map mc_hash cps" j "length cps - 1"]
      by (auto simp: hash_chain_def)
  qed
  ultimately show "newly_finalized_height ?r = Some (?h - 1)" "bt_get (tc_adopted ?r) (?h - 1) = Some e"
    using head \<open>?h \<noteq> 0\<close> v(1) e by (simp_all add: newly_finalized_height_def Let_def)
qed

text \<open>
  C28: Finality progress, on every path by which a checkpoint is adopted: a received certificate, one assembled
  from partial signatures or from subnet aggregates. When a validator that has adopted a checkpoint of height n
  adopts one of height n + 1, the former becomes its finalized head, provided that the validator cast no vote
  for another checkpoint of either height. Votes count because voting enters a checkpoint into the two-chain rule.
\<close>

theorem finality_progress:
  assumes run: "macro_reach L cfg me hosts ok tr book" and "adopted tr \<noteq> []" and small: "Suc (length (adopted tr)) < 2 ^ 64"
    and step: "quiet_input inp" "macro_step L cfg ctx inp book = (Ok acts, book')" "adopted acts = [c]"
    and agree: "\<forall>v \<in> set (votes_of (mb_votes book) me).
      (vr_target v = mc_height (last (adopted tr)) \<longrightarrow> vr_checkpoint v = mc_hash (last (adopted tr))) \<and>
      (vr_target v = mc_height c \<longrightarrow> vr_checkpoint v = mc_hash c)"
  shows "tc_finalized_head (mb_two_chain book') = Some (mc_hash (last (adopted tr)))"
proof -
  let ?cps = "adopted tr" and ?r = "mb_two_chain book"
  have chain: "chain_inv ?cps book"
    using macro_reach_inv [OF run] small by (simp add: macro_inv_def)
  have entries: "entries_inv me ?cps book"
    by (rule macro_reach_entries [OF run]) (use small in simp)
  have "macro_inv (tr @ acts) book'"
    using macro_step_inv [OF macro_reach_inv [OF run] step(1), of L cfg ctx] step(2) by simp
  then have grown: "hash_chain (?cps @ [c])"
    using small step(3) by (simp add: macro_inv_def chain_inv_def)
  then have "mc_height c = of_nat (length ?cps)" and parent: "mc_parent c = tip ?cps"
    by (auto simp: hash_chain_def nth_append dest!: spec [of _ "length ?cps"])
  then have height: "unat (mc_height c) = length ?cps"
    using small by (simp add: unat_of_nat_small)
  have last: "mc_height (last ?cps) = mc_height c - 1" "unat (mc_height c - 1) = length ?cps - 1" "tip ?cps = mc_hash (last ?cps)"
  proof -
    have "mc_height (last ?cps) = of_nat (length ?cps - 1)"
      using chain assms(2) by (simp add: chain_inv_def hash_chain_def last_conv_nth)
    then show "mc_height (last ?cps) = mc_height c - 1"
      using assms(2) \<open>mc_height c = of_nat (length ?cps)\<close> by (cases ?cps) simp_all
    moreover have "unat (of_nat (length ?cps - 1) :: Height) = length ?cps - 1"
      using small by (intro unat_of_nat_small) simp
    ultimately show "unat (mc_height c - 1) = length ?cps - 1"
      using \<open>mc_height (last ?cps) = of_nat (length ?cps - 1)\<close> by simp
    show "tip ?cps = mc_hash (last ?cps)"
      using assms(2) by (simp add: tip_def)
  qed
  have two: "two_chain_ok ?cps ?r" "hash_chain ?cps"
    using chain by (simp_all add: chain_inv_def)
  then have "bt_get (tc_adopted ?r) (of_nat (length ?cps - 1)) \<noteq> None"
    using assms(2) unfolding two_chain_ok_def by simp
  then obtain e where e: "bt_get (tc_adopted ?r) (mc_height c - 1) = Some e"
    using last(2) by (metis not_None_eq ucast_id of_nat_unat)
  then consider "mc_hash e = mc_hash (?cps ! unat (mc_height c - 1))"
    | r where "r \<in> set (votes_of (mb_votes book) me)" "vr_target r = mc_height c - 1" "vr_checkpoint r = mc_hash e"
    using entries unfolding entries_inv_def by blast
  then have "mc_hash e = tip ?cps"
    using agree last assms(2) by cases (auto simp: last_conv_nth)
  moreover have "mc_hash v = mc_hash c" if "bt_get (tc_adopted ?r) (mc_height c) = Some v" for v
    using entries agree that height by (force simp: entries_inv_def)
  ultimately have new: "newly_finalized_height (adopt c ?r) = Some (mc_height c - 1)"
      "bt_get (tc_adopted (adopt c ?r)) (mc_height c - 1) = Some e"
    using two_chain_progress [OF two assms(2) _ height parent e] small by simp_all
  have "rule_moves book acts book'"
    using macro_step_moves [OF step(1), of book L cfg ctx] step(2) by simp
  then have "mb_two_chain book' = settle_rule (adopt c ?r)"
    using step(3) by (auto simp: rule_moves_def)
  then show ?thesis
    using new \<open>mc_hash e = tip ?cps\<close> last(3) by (simp add: settle_rule_def mark_finalized_def)
qed

theorem finality_progress_witness: "tc_finalized_head (mb_two_chain book4) = Some 10"
proof -
  have "votes_of (mb_votes book3) 3 = []"
    by (simp add: book3_def book2_def book1_def macro_book_new_def record_adoption_def votes_of_def vote_book_new_def)
  moreover have "adopted trace3 = [ck 0 0 10]"
    by (simp add: trace3_def micro_acts_def adopt_acts_def)
  ultimately show ?thesis
    using finality_progress [OF run3 [where ok = "\<lambda>_ _. True"] _ _ _ step4, where c = "ck 1 10 20"]
    by (simp add: adopt_acts_def)
qed

end
