(* ===== verification/Slashing_Properties.thy ===== *)
theory Slashing_Properties
  imports Slashing Sample_Committee
begin

text \<open>
  The theorems about slashing: what the vote scans find passes the verifiers and nothing is missed, and
  the two kinds of evidence whose verifiers accept forgeries.
\<close>

section \<open>Detection and verification\<close>

lemma last_vote_in: "x \<in> set (butlast vs) \<Longrightarrow> last vs \<in> set vs \<and> \<not> length vs < 2"
  by (cases vs rule: rev_cases) auto

lemma scan_double_vote_iff:
  "(\<exists>ev. scan_for_double_vote b v = Some ev) \<longleftrightarrow> (\<exists>old \<in> set (butlast (votes_of b v)).
     vr_target old = vr_target (last (votes_of b v)) \<and> vr_checkpoint old \<noteq> vr_checkpoint (last (votes_of b v)))"
    (is "?found \<longleftrightarrow> ?clash")
proof
  show "?found \<Longrightarrow> ?clash"
    using scan_double_vote_Some by blast
next
  assume ?clash
  then have "find (\<lambda>old. vr_target old = vr_target (last (votes_of b v)) \<and>
      vr_checkpoint old \<noteq> vr_checkpoint (last (votes_of b v))) (butlast (votes_of b v)) \<noteq> None"
    by (auto simp: find_None_iff)
  then show ?found
    using \<open>?clash\<close> last_vote_in by (fastforce simp: scan_for_double_vote_def Let_def)
qed

lemma scan_surround_iff:
  "(\<exists>ev. scan_for_surround b v = Some ev) \<longleftrightarrow> (\<exists>old \<in> set (butlast (votes_of b v)).
     let new = last (votes_of b v) in
       surrounds (vr_source new) (vr_target new) (vr_source old) (vr_target old) \<or>
       surrounds (vr_source old) (vr_target old) (vr_source new) (vr_target new))"
proof (cases "length (votes_of b v) < 2")
  case True
  then show ?thesis
    using last_vote_in [of _ "votes_of b v"] by (auto simp: scan_for_surround_def)
next
  case False
  then show ?thesis
    using scan_surround_against_None_iff [of v "last (votes_of b v)" "butlast (votes_of b v)"]
    by (simp add: scan_for_surround_def Let_def flip: not_None_eq)
qed

text \<open>
  C33: For a history of votes signed by one validator, the scan reports a double vote exactly when the
  newest vote and an older one have the same target and different checkpoints, and a surround exactly
  when one of the two surrounds the other; the evidence built from correctly signed votes passes the
  evidence verifier (for double votes: of votes whose source is the epoch before their target).
\<close>

theorem vote_evidence_round_trip:
  assumes pk: "evidence_pk L vset v = Ok pk"
    and signed: "\<forall>r \<in> set (votes_of b v). bls_verify L pk DST_MACRO_VOTE (vote_message L r) (vr_sig r) = Ok ()"
  shows "((\<exists>ev. scan_for_double_vote b v = Some ev) \<longleftrightarrow> (\<exists>old \<in> set (butlast (votes_of b v)).
      vr_target old = vr_target (last (votes_of b v)) \<and> vr_checkpoint old \<noteq> vr_checkpoint (last (votes_of b v)))) \<and>
    (\<forall>ev. scan_for_double_vote b v = Some ev \<and>
      (\<forall>r \<in> set (votes_of b v). vr_source r = sat_sub (vr_target r) 1) \<longrightarrow>
      verify_evidence L (EvDoubleVote ev) vset = Ok ()) \<and>
    ((\<exists>ev. scan_for_surround b v = Some ev) \<longleftrightarrow> (\<exists>old \<in> set (butlast (votes_of b v)).
      surrounds (vr_source (last (votes_of b v))) (vr_target (last (votes_of b v))) (vr_source old) (vr_target old) \<or>
      surrounds (vr_source old) (vr_target old) (vr_source (last (votes_of b v))) (vr_target (last (votes_of b v))))) \<and>
    (\<forall>ev. scan_for_surround b v = Some ev \<longrightarrow> verify_evidence L (EvSurround ev) vset = Ok ())"
proof (intro conjI allI impI)
  fix ev
  assume ev: "scan_for_double_vote b v = Some ev \<and>
    (\<forall>r \<in> set (votes_of b v). vr_source r = sat_sub (vr_target r) 1)"
  then obtain old where old: "old \<in> set (butlast (votes_of b v))"
    "vr_target old = vr_target (last (votes_of b v))" "vr_checkpoint old \<noteq> vr_checkpoint (last (votes_of b v))"
    "ev = \<lparr> dv_validator = v, dv_target = vr_target (last (votes_of b v)),
       dv_a_checkpoint = vr_checkpoint old, dv_a_sig = vr_sig old,
       dv_b_checkpoint = vr_checkpoint (last (votes_of b v)), dv_b_sig = vr_sig (last (votes_of b v)) \<rparr>"
    using scan_double_vote_Some by blast
  let ?new = "last (votes_of b v)"
  have mem: "old \<in> set (votes_of b v)" "?new \<in> set (votes_of b v)"
    using in_set_butlastD [OF old(1)] last_vote_in [OF old(1)] by simp_all
  have "vote_message L old = borsh_vote_payload L (sat_sub (vr_target ?new) 1) (vr_target ?new) (vr_checkpoint old)"
    "vote_message L ?new = borsh_vote_payload L (sat_sub (vr_target ?new) 1) (vr_target ?new) (vr_checkpoint ?new)"
    using ev mem old(2) by (auto simp: vote_message_def)
  then show "verify_evidence L (EvDoubleVote ev) vset = Ok ()"
    using old(3,4) pk bspec [OF signed mem(1)] bspec [OF signed mem(2)]
    by (simp add: verify_double_vote_def outcome_simps vote_message_def)
next
  fix ev
  assume "scan_for_surround b v = Some ev"
  then obtain old where old: "old \<in> set (butlast (votes_of b v))"
    "ev = surround_evidence v (last (votes_of b v)) old \<and>
       surrounds (vr_source (last (votes_of b v))) (vr_target (last (votes_of b v))) (vr_source old) (vr_target old) \<or>
     ev = surround_evidence v old (last (votes_of b v)) \<and>
       surrounds (vr_source old) (vr_target old) (vr_source (last (votes_of b v))) (vr_target (last (votes_of b v)))"
    using scan_surround_against_Some [of v "last (votes_of b v)" "butlast (votes_of b v)" ev]
    by (auto simp: scan_for_surround_def Let_def split: if_splits)
  then show "verify_evidence L (EvSurround ev) vset = Ok ()"
    using pk signed last_vote_in [OF old(1)] in_set_butlastD [OF old(1)]
    by (auto simp: verify_surround_def surround_evidence_def verify_all_Ok_iff vote_message_def)
qed (use scan_double_vote_iff [of b v] scan_surround_iff [of b v] in \<open>simp_all add: Let_def\<close>)

text \<open>The sample validator 3 with a signed history of four votes.\<close>

definition sample_vote :: "u64 \<Rightarrow> u64 \<Rightarrow> Hash32 \<Rightarrow> VoteRecord" where
  "sample_vote s t c = \<lparr> vr_source = s, vr_target = t, vr_checkpoint = c, vr_sig = 39 \<rparr>"

definition sample_votes :: "VoteRecord list \<Rightarrow> VoteBook" where
  "sample_votes vs = fold (record_vote 3) vs vote_book_new"

lemma sample_pk: "evidence_pk sample_lib (sample_set 4) 3 = Ok 3"
  by (simp add: evidence_pk_def find_entry_def sample_entries sample_entry_def pk_from_bytes_def
      sample_lib_def outcome_simps del: One_nat_def)

lemma sample_vote_signed:
  "bls_verify sample_lib 3 DST_MACRO_VOTE (vote_message sample_lib (sample_vote s t c)) 39 = Ok ()"
  by (simp add: bls_verify_def vote_message_def sample_lib_def sample_digest_def)

theorem vote_evidence_round_trip_witness:
  "(\<exists>ev. scan_for_double_vote (sample_votes [sample_vote 4 5 7, sample_vote 4 5 8]) 3 = Some ev \<and>
     verify_evidence sample_lib (EvDoubleVote ev) (sample_set 4) = Ok ()) \<and>
   (\<exists>ev. scan_for_surround (sample_votes [sample_vote 4 5 7, sample_vote 3 6 8]) 3 = Some ev \<and>
     verify_evidence sample_lib (EvSurround ev) (sample_set 4) = Ok ())"
proof -
  have votes: "votes_of (sample_votes [r, q]) 3 = [r, q]" for r q
    by (simp add: sample_votes_def vote_book_new_def votes_of_def record_vote_def)
  have sig: "vr_sig (sample_vote s t c) = 39" for s t c
    by (simp add: sample_vote_def)
  show ?thesis
    using vote_evidence_round_trip [OF sample_pk, of "sample_votes [sample_vote 4 5 7, sample_vote 4 5 8]"]
      vote_evidence_round_trip [OF sample_pk, of "sample_votes [sample_vote 4 5 7, sample_vote 3 6 8]"]
    by (simp add: votes sig sample_vote_signed) (auto simp: sample_vote_def surrounds_def sat_sub_def)
qed

section \<open>Forgeries\<close>

lemma vertex_evidence_forged:
  assumes "evidence_pk L vset (v_author v) = Ok pk"
    "bls_verify L pk DST_VERTEX_PROPOSAL (signing_bytes L v) sig = Ok ()" "h \<noteq> v_hash v"
  shows "verify_evidence L (EvVertexEquivocation \<lparr> vx_validator = v_author v, vx_a = (v, sig),
    vx_b = (v\<lparr>v_hash := h\<rparr>, sig) \<rparr>) vset = Ok ()"
  using assms by (simp add: verify_vertex_equivocation_def verify_all_Ok_iff signing_bytes_def)

lemma macro_evidence_forged:
  assumes "evidence_pk L vset v = Ok pk" "mc_height a \<noteq> mc_height b" "mc_hash a \<noteq> mc_hash b"
    "bls_verify L pk DST_MACRO_PROPOSER_SIG (proposer_message v a) sig_a = Ok ()"
    "bls_verify L pk DST_MACRO_PROPOSER_SIG (proposer_message v b) sig_b = Ok ()"
  shows "verify_evidence L (EvMacroEquivocation \<lparr> me_validator = v, me_a = (a, sig_a),
    me_b = (b\<lparr>mc_height := mc_height a\<rparr>, sig_b) \<rparr>) vset = Ok ()"
  using assms by (simp add: verify_macro_equivocation_def verify_all_Ok_iff proposer_message_def)

text \<open>
  C34: Honest signatures can be turned into evidence against their validator. The signature of a vertex
  proposal does not cover the hash field, and the verifier compares the hash fields without recomputing
  them: one correctly signed vertex, repeated with another hash, is accepted as an equivocation. The
  signature of a macro proposal covers the proposer and the checkpoint's hash only: two honest proposals
  for different heights, with one height rewritten, are accepted as an equivocation.
\<close>

theorem forged_equivocations:
  assumes "evidence_pk L vset (v_author v) = Ok pk"
  shows "(bls_verify L pk DST_VERTEX_PROPOSAL (signing_bytes L v) sig = Ok () \<and> h \<noteq> v_hash v \<longrightarrow>
      verify_evidence L (EvVertexEquivocation \<lparr> vx_validator = v_author v, vx_a = (v, sig),
        vx_b = (v\<lparr>v_hash := h\<rparr>, sig) \<rparr>) vset = Ok ()) \<and>
    (mc_height a \<noteq> mc_height b \<and> mc_hash a \<noteq> mc_hash b \<and>
      bls_verify L pk DST_MACRO_PROPOSER_SIG (proposer_message (v_author v) a) sig_a = Ok () \<and>
      bls_verify L pk DST_MACRO_PROPOSER_SIG (proposer_message (v_author v) b) sig_b = Ok () \<longrightarrow>
      verify_evidence L (EvMacroEquivocation \<lparr> me_validator = v_author v, me_a = (a, sig_a),
        me_b = (b\<lparr>mc_height := mc_height a\<rparr>, sig_b) \<rparr>) vset = Ok ())"
  using vertex_evidence_forged [OF assms] macro_evidence_forged [OF assms] by blast

definition sample_vertex :: Vertex where
  "sample_vertex = \<lparr> v_round = 2, v_author = 3, v_parents = [], v_blobs = [],
     v_hash = 5 \<rparr>"

definition sample_proposed :: "u64 \<Rightarrow> MacroCheckpoint" where
  "sample_proposed h = \<lparr> mc_height = h, mc_epoch = 0, mc_parent = 0, mc_micro_root = 0, mc_hash = ucast h \<rparr>"

theorem forged_equivocations_witness:
  "verify_evidence sample_lib (EvVertexEquivocation \<lparr> vx_validator = 3, vx_a = (sample_vertex, 27),
      vx_b = (sample_vertex\<lparr>v_hash := 6\<rparr>, 27) \<rparr>) (sample_set 4) = Ok () \<and>
    verify_evidence sample_lib (EvMacroEquivocation \<lparr> me_validator = 3, me_a = (sample_proposed 4, 387),
      me_b = ((sample_proposed 5)\<lparr>mc_height := 4\<rparr>, 387) \<rparr>) (sample_set 4) = Ok ()"
  using forged_equivocations [of sample_lib "sample_set 4" sample_vertex 3 27 6 "sample_proposed 4" "sample_proposed 5" 387 387]
  by (simp add: sample_vertex_def sample_proposed_def sample_pk bls_verify_def signing_bytes_def proposer_message_def)
    (simp add: sample_lib_def sample_digest_def)

end
