(* ===== verification/Gf256.thy ===== *)
theory Gf256
  imports Lua_Prelude
begin

text \<open>
  Arithmetic of the erasure codec, \<open>dag/src/erasure/gf256.rs\<close>: the exponent and logarithm tables of
  GF(256) with the polynomial \<open>0x11D\<close>, multiplication, inverse and power through them, and the slice
  operations. The second half proves that the table arithmetic is a field, as an instance of the
  library's class \<open>field\<close>, so that sums, products and powers of bytes have the library's laws.
\<close>

section \<open>Tables and operations\<close>

definition mul_by_generator :: "u8 \<Rightarrow> u8" where
  "mul_by_generator x = (if x AND 0x80 \<noteq> 0 then push_bit 1 x XOR 0x1D else push_bit 1 x)"

record GfTables =
  gf_exp :: "u8 list"
  gf_log :: "u8 list"

definition tables_row :: "nat \<Rightarrow> u8 list \<times> u8 list \<times> u8 \<Rightarrow> u8 list \<times> u8 list \<times> u8" where
  "tables_row i = (\<lambda>(e, l, x). (e[i := x], l[unat x := of_nat i], mul_by_generator x))"

definition gf_tables :: GfTables where
  "gf_tables = (let
     (e, l, x) = fold tables_row [0..<255] (replicate 512 0, (replicate 256 0)[0 := 0], 1);
     e = fold (\<lambda>i e. e[i := e ! (i - 255)]) [255..<512] e
   in \<lparr> gf_exp = e, gf_log = l \<rparr>)"

definition gf_add :: "u8 \<Rightarrow> u8 \<Rightarrow> u8" where
  "gf_add a b = a XOR b"

definition gf_mul :: "u8 \<Rightarrow> u8 \<Rightarrow> u8" where
  "gf_mul a b = (if a = 0 \<or> b = 0 then 0
     else let s = (ucast (gf_log gf_tables ! unat a) :: u16) + ucast (gf_log gf_tables ! unat b)
       in gf_exp gf_tables ! unat (s mod 255))"

definition gf_inv :: "u8 \<Rightarrow> u8" where
  "gf_inv a = (if a = 0 then 0
     else gf_exp gf_tables ! unat (255 - (ucast (gf_log gf_tables ! unat a) :: u16)))"

function gf_pow_loop :: "u8 \<Rightarrow> u8 \<Rightarrow> u32 \<Rightarrow> u8" where
  "gf_pow_loop acc base n =
     (if 0 < n
      then gf_pow_loop (if n AND 1 \<noteq> 0 then gf_mul acc base else acc) (gf_mul base base) (drop_bit 1 n)
      else acc)"
  by pat_completeness auto

lemma unat_drop_bit_1: "unat (drop_bit (Suc 0) (n :: u32)) = unat n div 2"
  by (simp add: drop_bit_eq_div unat_div)

termination gf_pow_loop
proof (relation "measure (\<lambda>(acc, base, n). unat n)")
  fix acc base :: u8 and n :: u32
  assume "0 < n"
  then have "0 < unat n"
    by (simp add: word_less_nat_alt)
  then show "((if n AND 1 \<noteq> 0 then gf_mul acc base else acc, gf_mul base base, drop_bit 1 n), acc, base, n)
      \<in> measure (\<lambda>(acc, base, n). unat n)"
    by (simp add: unat_drop_bit_1)
qed simp

declare gf_pow_loop.simps [simp del]

definition gf_pow :: "u8 \<Rightarrow> u32 \<Rightarrow> u8" where
  "gf_pow a n = gf_pow_loop 1 a n"

text \<open>Slice operations: the output slice must have the length of the input.\<close>

definition mul_slice :: "u8 \<Rightarrow> bytes \<Rightarrow> bytes \<Rightarrow> ('e, bytes) outcome" where
  "mul_slice c input out =
     (if length input \<noteq> length out then Panic ''assertion failed: input.len() == out.len()''
      else if c = 0 then Ok (replicate (length out) 0)
      else Ok (map (\<lambda>src. gf_mul c src) input))"

definition mul_slice_add :: "u8 \<Rightarrow> bytes \<Rightarrow> bytes \<Rightarrow> ('e, bytes) outcome" where
  "mul_slice_add c input out =
     (if length input \<noteq> length out then Panic ''assertion failed: input.len() == out.len()''
      else if c = 0 then Ok out
      else if c = 1 then Ok (map2 (\<lambda>dst src. dst XOR src) out input)
      else Ok (map2 (\<lambda>dst src. gf_add dst (gf_mul c src)) out input))"

section \<open>Powers of the generator\<close>

abbreviation gen :: "nat \<Rightarrow> u8" where
  "gen i \<equiv> (mul_by_generator ^^ i) 1"

lemma mul_by_generator_bits: "mul_by_generator x = push_bit 1 x XOR (if bit x 7 then 0x1D else 0)"
proof -
  have "x AND 0x80 \<noteq> 0 \<longleftrightarrow> bit x 7"
    using bit_iff_and_push_bit_not_eq_0 [of x 7] by (simp add: push_bit_eq_mult)
  then show ?thesis
    by (simp add: mul_by_generator_def)
qed

lemma mul_by_generator_zero [simp]: "mul_by_generator 0 = 0"
  by (simp add: mul_by_generator_def)

lemma mul_by_generator_xor: "mul_by_generator (x XOR y) = mul_by_generator x XOR mul_by_generator y"
  by (simp add: mul_by_generator_bits bit_xor_iff push_bit_xor ac_simps)

lemma mul_by_generator_inj: "mul_by_generator x = mul_by_generator y \<longleftrightarrow> x = y"
proof -
  have kernel: "z = 0" if "mul_by_generator z = 0" for z
  proof -
    have "bit (mul_by_generator z) 0 = bit z 7"
      by (simp add: mul_by_generator_bits bit_0 even_xor_iff)
    with that have "\<not> bit z 7"
      by simp
    then have low: "push_bit 1 z = 0"
      using that by (simp add: mul_by_generator_bits)
    have "\<not> bit z n" if "n < 8" for n
    proof (cases "n = 7")
      case False
      then have "bit (push_bit 1 z) (Suc n) = bit z n"
        using \<open>n < 8\<close> unfolding bit_push_bit_iff by simp
      with low show ?thesis
        by simp
    qed (use \<open>\<not> bit z 7\<close> in simp)
    then show ?thesis
      by (intro bit_word_eqI) auto
  qed
  show ?thesis
    using kernel [of "x XOR y"] by (metis mul_by_generator_xor xor.assoc xor.right_neutral xor_self_eq)
qed

lemma gen_add: "gen (i + j) = (mul_by_generator ^^ i) (gen j)"
  by (simp add: funpow_add)

lemma funpow_gen_xor: "(mul_by_generator ^^ i) (x XOR y) = (mul_by_generator ^^ i) x XOR (mul_by_generator ^^ i) y"
  by (induction i) (simp_all add: mul_by_generator_xor)

lemma funpow_gen_inj: "(mul_by_generator ^^ i) x = (mul_by_generator ^^ i) y \<longleftrightarrow> x = y"
  by (induction i) (simp_all add: mul_by_generator_inj)

fun orbit :: "nat \<Rightarrow> u8 \<Rightarrow> u8 list" where
  "orbit 0 x = []"
| "orbit (Suc n) x = x # orbit n (mul_by_generator x)"

lemma orbit_map: "orbit n x = map (\<lambda>i. (mul_by_generator ^^ i) x) [0..<n]"
  by (induction n arbitrary: x) (simp_all add: map_upt_Suc funpow_swap1 del: upt_Suc)

text \<open>The generator has order 255: the only computation of the development's field proofs.\<close>

lemma orbit_255: "1 \<notin> set (tl (orbit 255 1)) \<and> last (orbit 256 1) = 1"
  by code_simp

lemma gen_255 [simp]: "gen 255 = 1"
  using orbit_255 by (simp add: orbit_map last_map)

lemma gen_order: "0 < i \<Longrightarrow> i < 255 \<Longrightarrow> gen i \<noteq> 1"
  using orbit_255 by (auto simp: orbit_map map_tl [symmetric] tl_upt)

lemma gen_mod: "gen (i mod 255) = gen i"
proof -
  have period: "gen (255 + j) = gen j" for j
    using gen_add [of j 255] by (simp only: add.commute gen_255)
  have "gen (k * 255 + j) = gen j" for k j
    by (induction k) (simp_all only: mult_Suc add.assoc period, simp)
  then show ?thesis
    by (metis div_mult_mod_eq)
qed

lemma gen_inj: "i < 255 \<Longrightarrow> j < 255 \<Longrightarrow> gen i = gen j \<longleftrightarrow> i = j"
proof (induction i j rule: linorder_wlog)
  case (le i j)
  have "gen j = (mul_by_generator ^^ i) (gen (j - i))"
    using le(1) gen_add [of i "j - i"] by simp
  then show ?case
    using le(1-3) gen_order [of "j - i"] funpow_gen_inj [of i "gen (j - i)" 1]
    by (metis diff_is_0_eq' funpow_0 le_neq_implies_less less_imp_diff_less zero_less_diff)
qed metis

lemma gen_nonzero: "gen i \<noteq> 0"
proof -
  have "(mul_by_generator ^^ i) 0 = 0"
    by (induction i) simp_all
  then show ?thesis
    using funpow_gen_inj [of i 1 0] by simp
qed

lemma gen_surj: "a \<noteq> 0 \<Longrightarrow> \<exists>i < 255. a = gen i"
proof -
  assume "a \<noteq> 0"
  have "card (UNIV - {0 :: u8}) = 255"
    by (simp add: card_word)
  moreover have "inj_on gen {..<255}"
    by (rule inj_onI) (metis gen_inj lessThan_iff)
  then have "card (gen ` {..<255}) = 255"
    by (metis card_image card_lessThan)
  moreover have "gen ` {..<255} \<subseteq> UNIV - {0}"
    by (auto simp: gen_nonzero)
  ultimately have "gen ` {..<255} = UNIV - {0}"
    by (metis card_subset_eq finite)
  then have "a \<in> gen ` {..<255}"
    using \<open>a \<noteq> 0\<close> by (simp only: Diff_iff UNIV_I singleton_iff) simp
  then show ?thesis
    by (elim imageE) (intro exI conjI, simp_all only: lessThan_iff)
qed

section \<open>The tables\<close>

lemma tables_row_fold:
  assumes "m \<le> 255"
  shows "\<exists>e l. fold tables_row [0..<m] (replicate 512 0, (replicate 256 0)[0 := 0], 1) = (e, l, gen m) \<and>
    length e = 512 \<and> length l = 256 \<and> (\<forall>i < m. e ! i = gen i) \<and> (\<forall>i < m. l ! unat (gen i) = of_nat i)"
  using assms
proof (induction m)
  case (Suc m)
  then obtain e l where
    *: "fold tables_row [0..<m] (replicate 512 0, (replicate 256 0)[0 := 0], 1) = (e, l, gen m)"
      "length e = 512" "length l = 256" "\<forall>i < m. e ! i = gen i" "\<forall>i < m. l ! unat (gen i) = of_nat i"
    by auto
  have "unat (gen m) = unat (gen i) \<longleftrightarrow> i = m" if "i < Suc m" for i
    using gen_inj [of m i] Suc.prems that by (auto simp: word_unat_eq_iff [symmetric])
  moreover have "unat (gen m) < 256"
    using unat_less_exp [of "gen m"] by simp
  moreover have "fold tables_row [0..<Suc m] (replicate 512 0, (replicate 256 0)[0 := 0], 1) =
      (e[m := gen m], l[unat (gen m) := of_nat m], gen (Suc m))"
    using *(1) by (simp only: upt_Suc_append le0 fold_append fold_simps o_apply) (simp add: tables_row_def)
  ultimately show ?case
    using *(2-5) Suc.prems by (intro exI conjI) (assumption | simp add: nth_list_update less_Suc_eq)+
qed simp

lemma exp_copy_fold:
  assumes "length e = 512" "\<forall>i < 255. e ! i = gen i" "255 + m \<le> 512"
  shows "length (fold (\<lambda>i e. e[i := e ! (i - 255)]) [255..<255 + m] e) = 512 \<and>
    (\<forall>i < 255 + m. fold (\<lambda>i e. e[i := e ! (i - 255)]) [255..<255 + m] e ! i = gen i)"
  using assms(3)
proof (induction m)
  case 0
  then show ?case
    using assms by simp
next
  case (Suc m)
  have "gen m = gen (255 + m)"
    using gen_mod [of m] gen_mod [of "255 + m"] by simp
  moreover have "fold (\<lambda>i e. e[i := e ! (i - 255)]) [255..<255 + Suc m] e =
      (let e' = fold (\<lambda>i e. e[i := e ! (i - 255)]) [255..<255 + m] e in e'[255 + m := e' ! m])"
    by (simp only: add_Suc_right upt_Suc_append le_add1 fold_append fold_simps o_apply Let_def add_diff_cancel_left')
  ultimately show ?case
    using Suc by (simp only: Let_def) (auto simp: nth_list_update less_Suc_eq)
qed

lemma gf_exp_nth: "i < 512 \<Longrightarrow> gf_exp gf_tables ! i = gen i"
  and gf_log_nth: "j < 255 \<Longrightarrow> gf_log gf_tables ! unat (gen j) = of_nat j"
proof -
  obtain e l where
    *: "fold tables_row [0..<255] (replicate 512 0, (replicate 256 0)[0 := 0], 1) = (e, l, gen 255)"
      "length e = 512" "\<forall>i < 255. e ! i = gen i" "\<forall>i < 255. l ! unat (gen i) = of_nat i"
    using tables_row_fold [of 255] by blast
  have tdef: "gf_tables = \<lparr> gf_exp = fold (\<lambda>i e. e[i := e ! (i - 255)]) [255..<512] e, gf_log = l \<rparr>"
    unfolding gf_tables_def *(1) Let_def prod.case ..
  have tab: "gf_exp gf_tables = fold (\<lambda>i e. e[i := e ! (i - 255)]) [255..<512] e" "gf_log gf_tables = l"
    unfolding tdef by (rule GfTables.select_convs)+
  have "\<forall>i < 512. fold (\<lambda>i e. e[i := e ! (i - 255)]) [255..<512] e ! i = gen i"
  proof -
    have len: "255 + 257 = (512 :: nat)"
      by simp
    show ?thesis
      using exp_copy_fold [OF *(2,3), of 257] unfolding len by blast
  qed
  then show "gf_exp gf_tables ! i = gen i" if "i < 512"
    using that unfolding tab by blast
  show "gf_log gf_tables ! unat (gen j) = of_nat j" if "j < 255"
    using that *(4) unfolding tab by blast
qed

lemma gf_log_gen: "i < 255 \<Longrightarrow> unat (ucast (gf_log gf_tables ! unat (gen i)) :: u16) = i"
  by (simp add: gf_log_nth unsigned_ucast_eq unat_of_nat_small take_bit_nat_eq_self)

lemma gf_mul_gen_small:
  assumes "i < 255" "j < 255"
  shows "gf_mul (gen i) (gen j) = gen (i + j)"
proof -
  let ?s = "(ucast (gf_log gf_tables ! unat (gen i)) :: u16) + ucast (gf_log gf_tables ! unat (gen j))"
  have "unat ?s = i + j"
    using assms gf_log_gen [of i] gf_log_gen [of j] by (subst unat_add_lem [THEN iffD1]) simp_all
  then have "unat (?s mod 255) = (i + j) mod 255"
    by (simp add: unat_mod)
  moreover have "(i + j) mod 255 < 512"
    by (rule less_trans [of _ 255]) simp_all
  ultimately show ?thesis
    by (simp only: gf_mul_def Let_def gen_nonzero simp_thms if_False gf_exp_nth gen_mod)
qed

lemma gf_mul_gen: "gf_mul (gen i) (gen j) = gen (i + j)"
  using gf_mul_gen_small [of "i mod 255" "j mod 255"] gen_mod [of "i mod 255 + j mod 255"] gen_mod [of "i + j"]
  by (simp add: gen_mod mod_add_eq)

lemma gf_mul_gen_left: "gf_mul (gen i) b = (mul_by_generator ^^ i) b"
proof (cases "b = 0")
  case True
  then show ?thesis
    by (induction i) (simp_all add: gf_mul_def)
next
  case False
  then obtain j where "b = gen j"
    using gen_surj by blast
  then show ?thesis
    by (simp only: gf_mul_gen gen_add)
qed

lemma gf_inv_gen:
  assumes "i < 255"
  shows "gf_inv (gen i) = gen (255 - i)"
proof -
  have "unat (255 - (ucast (gf_log gf_tables ! unat (gen i)) :: u16)) = 255 - i"
    using gf_log_gen [OF assms] assms by (subst unat_sub) (simp_all add: word_le_nat_alt)
  moreover have "255 - i < 512"
    by simp
  ultimately show ?thesis
    by (simp only: gf_inv_def gen_nonzero if_False gf_exp_nth)
qed

section \<open>The field\<close>

lemma gf_mul_commute: "gf_mul a b = gf_mul b a"
  by (auto simp: gf_mul_def add.commute)

lemma gf_mul_zero [simp]: "gf_mul 0 b = 0" "gf_mul a 0 = 0"
  by (simp_all add: gf_mul_def)

lemma gf_mul_one [simp]: "gf_mul 1 b = b" "gf_mul b 1 = b"
  using gf_mul_gen_left [of 0 b] by (simp_all add: gf_mul_commute [of b])

lemma gf_mul_assoc: "gf_mul (gf_mul a b) c = gf_mul a (gf_mul b c)"
proof (cases "a = 0 \<or> b = 0")
  case False
  then obtain i j where "a = gen i" "b = gen j"
    using gen_surj by metis
  then show ?thesis
    using gf_mul_gen_left [of "i + j" c] by (simp only: gf_mul_gen) (simp only: gf_mul_gen_left funpow_add o_apply)
qed auto

lemma gf_mul_xor: "gf_mul a (b XOR c) = gf_mul a b XOR gf_mul a c"
proof (cases "a = 0")
  case False
  then obtain i where "a = gen i"
    using gen_surj by metis
  then show ?thesis
    by (simp only: gf_mul_gen_left funpow_gen_xor)
qed simp

lemma gf_mul_inv: "a \<noteq> 0 \<Longrightarrow> gf_mul a (gf_inv a) = 1"
proof -
  assume "a \<noteq> 0"
  then obtain i where i: "i < 255" "a = gen i"
    using gen_surj by metis
  then have "gf_mul a (gf_inv a) = gen (i + (255 - i))"
    by (simp only: gf_inv_gen gf_mul_gen)
  then show ?thesis
    using i(1) gen_255 by (simp only: le_add_diff_inverse less_imp_le)
qed

typedef gf = "UNIV :: u8 set" morphisms byte_of gf_of
  by auto

setup_lifting type_definition_gf

instantiation gf :: field
begin

lift_definition zero_gf :: gf is 0 .
lift_definition one_gf :: gf is 1 .
lift_definition plus_gf :: "gf \<Rightarrow> gf \<Rightarrow> gf" is gf_add .
lift_definition minus_gf :: "gf \<Rightarrow> gf \<Rightarrow> gf" is gf_add .
lift_definition uminus_gf :: "gf \<Rightarrow> gf" is "\<lambda>a. a" .
lift_definition times_gf :: "gf \<Rightarrow> gf \<Rightarrow> gf" is gf_mul .
lift_definition inverse_gf :: "gf \<Rightarrow> gf" is gf_inv .
lift_definition divide_gf :: "gf \<Rightarrow> gf \<Rightarrow> gf" is "\<lambda>a b. gf_mul a (gf_inv b)" .

instance
proof
  fix a b c :: gf
  show "a + b + c = a + (b + c)" "a + b = b + a" "0 + a = a" "- a + a = 0" "a - b = a + - b"
    by (transfer; simp add: gf_add_def ac_simps)+
  show "a * b * c = a * (b * c)" "a * b = b * a" "1 * a = a"
    by (transfer, rule gf_mul_assoc) (transfer, rule gf_mul_commute, transfer, simp)
  show "(a + b) * c = a * c + b * c"
    by transfer (metis gf_mul_commute gf_mul_xor gf_add_def)
  show "a \<noteq> 0 \<Longrightarrow> inverse a * a = 1"
    by transfer (metis gf_mul_commute gf_mul_inv)
  show "a div b = a * inverse b" "inverse (0 :: gf) = 0" "(0 :: gf) \<noteq> 1"
    by (transfer; simp add: gf_inv_def)+
qed

end

lemma gf_of_simps [simp]:
  "gf_of (gf_add a b) = gf_of a + gf_of b" "gf_of (gf_mul a b) = gf_of a * gf_of b"
  "gf_of (gf_inv a) = inverse (gf_of a)" "gf_of 0 = 0" "gf_of 1 = 1"
  by (simp_all add: plus_gf_def times_gf_def inverse_gf_def zero_gf_def one_gf_def gf_of_inverse)

lemma gf_of_xor: "gf_of (a XOR b) = gf_of a + gf_of b"
  using gf_of_simps(1) [of a b] by (simp add: gf_add_def)

lemma gf_of_inject [simp]: "gf_of a = gf_of b \<longleftrightarrow> a = b"
  by (simp add: gf_of_inject)

lemma gf_of_eq_0 [simp]: "gf_of a = 0 \<longleftrightarrow> a = 0"
  using gf_of_inject [of a 0] by simp

lemma gf_char_2 [simp]: "(a :: gf) + a = 0"
  by transfer (simp add: gf_add_def)

lemma gf_uminus [simp]: "- (a :: gf) = a"
  by transfer simp

lemma gf_add_eq_0: "(a :: gf) + b = 0 \<longleftrightarrow> a = b"
  using add_eq_0_iff [of a b] by auto

lemma gf_pow_loop_power: "gf_of (gf_pow_loop acc base n) = gf_of acc * gf_of base ^ unat n"
proof (induction acc base n rule: gf_pow_loop.induct)
  case (1 acc base n)
  show ?case
  proof (cases "0 < n")
    case True
    define m where "m = unat n div 2"
    have "n AND 1 \<noteq> 0 \<longleftrightarrow> odd (unat n)"
      by (simp add: and_one_eq odd_iff_mod_2_eq_one unat_mod word_unat_eq_iff)
    then have "unat n = (if n AND 1 \<noteq> 0 then Suc (m + m) else m + m)"
      unfolding m_def by (cases "odd (unat n)") (simp_all, presburger+)
    moreover have "unat (drop_bit 1 n) = m"
      by (simp add: m_def unat_drop_bit_1)
    ultimately show ?thesis
      using 1 [OF True] True
      by (subst gf_pow_loop.simps) (simp add: power_add power_mult_distrib ac_simps)
  qed (subst gf_pow_loop.simps, simp add: word_less_nat_alt)
qed

lemma gf_pow_power: "gf_of (gf_pow a n) = gf_of a ^ unat n"
  by (simp add: gf_pow_def gf_pow_loop_power)

section \<open>Polynomial multiplication\<close>

text \<open>
  The textbook product of two polynomials over GF(2) modulo \<open>0x11D\<close>: for every bit of the first
  factor, add the second factor shifted (and reduced) by the position of the bit.
\<close>

definition poly_mul :: "nat \<Rightarrow> u8 \<Rightarrow> u8 \<Rightarrow> u8" where
  "poly_mul n a b = fold (\<lambda>i acc. if bit a i then acc XOR (mul_by_generator ^^ i) b else acc) [0..<n] 0"

lemma gen_bit: "n < 8 \<Longrightarrow> gen n = push_bit n 1"
proof (induction n)
  case (Suc n)
  then have "\<not> bit (push_bit n 1 :: u8) 7"
    by (simp add: bit_exp_iff)
  then show ?case
    using Suc by (simp add: mul_by_generator_bits)
qed simp

lemma take_bit_Suc_xor: "take_bit (Suc n) (a :: u8) = take_bit n a XOR (if bit a n then push_bit n 1 else 0)"
  by (rule bit_word_eqI) (auto simp: bit_take_bit_iff bit_xor_iff bit_exp_iff less_Suc_eq)

lemma gf_mul_take_bit: "n \<le> 8 \<Longrightarrow> gf_mul (take_bit n a) b = poly_mul n a b"
proof (induction n)
  case (Suc n)
  have "gf_mul (take_bit (Suc n) a) b = gf_mul (take_bit n a) b XOR (if bit a n then gf_mul (gen n) b else 0)"
    using Suc.prems by (simp add: take_bit_Suc_xor gf_mul_commute [of _ b] gf_mul_xor gen_bit)
  then show ?case
    using Suc by (simp add: poly_mul_def gf_mul_gen_left)
qed (simp add: poly_mul_def)

end
