(* ===== verification/Reed_Solomon.thy ===== *)
theory Reed_Solomon
  imports Gf256 Crypto_Lib
begin

text \<open>
  The Reed--Solomon codec of blob payloads, \<open>dag/src/erasure/config.rs\<close>, \<open>error.rs\<close> and \<open>rs.rs\<close>:
  matrices over GF(256), Gauss--Jordan inversion, the systematic encoding matrix and its process-wide
  cache, encoding and decoding. A matrix is the list of its rows; the cache is passed through every
  call that reads or fills it.
\<close>

section \<open>Configuration and errors\<close>

record ErasureConfig =
  ec_k :: u32
  ec_n :: u32
  ec_data_shard_size :: usize

definition erasure_devnet_default :: ErasureConfig where
  "erasure_devnet_default = \<lparr> ec_k = 4, ec_n = 8, ec_data_shard_size = 32 * 1024 \<rparr>"

definition parity_count :: "ErasureConfig \<Rightarrow> u32" where
  "parity_count cfg = sat_sub (ec_n cfg) (ec_k cfg)"

definition padded_len :: "ErasureConfig \<Rightarrow> usize" where
  "padded_len cfg = unat (ec_k cfg) * ec_data_shard_size cfg"

datatype ErasureError = EConfig string | ECodec string

definition MAX_SHARDS :: u32 where
  "MAX_SHARDS = 256"

definition validate_cfg :: "ErasureConfig \<Rightarrow> (ErasureError, unit) outcome" where
  "validate_cfg cfg =
     (if ec_k cfg = 0 \<or> ec_n cfg \<le> ec_k cfg \<or> ec_data_shard_size cfg = 0
      then Err (EConfig ''k/n/shard_size invalid'')
      else if MAX_SHARDS < ec_n cfg
      then Err (EConfig ''n exceeds GF(256) Vandermonde row limit'')
      else Ok ())"

section \<open>Loops\<close>

text \<open>A loop whose body may panic or return early, and the division of a slice in pieces.\<close>

fun fold_out :: "('a \<Rightarrow> 'b \<Rightarrow> ('e, 'b) outcome) \<Rightarrow> 'a list \<Rightarrow> 'b \<Rightarrow> ('e, 'b) outcome" where
  "fold_out f [] b = Ok b"
| "fold_out f (x # xs) b = bind_out (f x b) (fold_out f xs)"

function chunks_of :: "nat \<Rightarrow> 'a list \<Rightarrow> 'a list list" where
  "chunks_of n xs = (if xs = [] \<or> n = 0 then [] else take n xs # chunks_of n (drop n xs))"
  by pat_completeness auto
termination chunks_of
  by (relation "measure (\<lambda>(n, xs). length xs)") auto

declare chunks_of.simps [simp del]

section \<open>Matrices\<close>

type_synonym Matrix = "u8 list list"

definition vandermonde :: "usize \<Rightarrow> usize \<Rightarrow> ('e, Matrix) outcome" where
  "vandermonde rows cols =
     (if 256 < rows then Panic ''row index fits u8''
      else Ok (map (\<lambda>r. map (\<lambda>c. gf_pow (of_nat r) (of_nat c)) [0..<cols]) [0..<rows]))"

definition mat_mul :: "Matrix \<Rightarrow> Matrix \<Rightarrow> Matrix" where
  "mat_mul a b =
     map (\<lambda>i. map (\<lambda>j. fold (\<lambda>t s. gf_add s (gf_mul (a ! i ! t) (b ! t ! j))) [0..<length b] 0)
       [0..<length (b ! 0)]) [0..<length a]"

definition submatrix :: "Matrix \<Rightarrow> usize list \<Rightarrow> Matrix" where
  "submatrix mat rows = map (\<lambda>r. mat ! r) rows"

text \<open>Inversion: Gauss--Jordan elimination on the matrix with the identity appended to its right.\<close>

definition augment :: "nat \<Rightarrow> Matrix \<Rightarrow> Matrix" where
  "augment n mat = map (\<lambda>i. mat ! i @ (replicate n 0)[i := 1]) [0..<n]"

definition eliminate :: "nat \<Rightarrow> nat \<Rightarrow> Matrix \<Rightarrow> Matrix" where
  "eliminate n col aug = fold (\<lambda>i aug.
     if i = col \<or> aug ! i ! col = 0 then aug
     else let factor = aug ! i ! col in
       aug[i := map2 (\<lambda>x y. gf_add x (gf_mul factor y)) (aug ! i) (aug ! col)]) [0..<n] aug"

definition pivot_step :: "nat \<Rightarrow> nat \<Rightarrow> Matrix \<Rightarrow> (string, Matrix) outcome" where
  "pivot_step n col aug =
     (case find (\<lambda>pivot. aug ! pivot ! col \<noteq> 0) [col..<n] of
        None \<Rightarrow> Err ''matrix is singular''
      | Some pivot \<Rightarrow> let
          aug = (if pivot \<noteq> col then aug[col := aug ! pivot, pivot := aug ! col] else aug);
          inv_pivot = gf_inv (aug ! col ! col)
        in if inv_pivot = 0 then Err ''matrix is singular''
           else Ok (eliminate n col (aug[col := map (\<lambda>v. gf_mul v inv_pivot) (aug ! col)])))"

definition invert_matrix :: "Matrix \<Rightarrow> (string, Matrix) outcome" where
  "invert_matrix mat = (let n = length mat in
     if n = 0 \<or> (\<exists>row \<in> set mat. length row \<noteq> n) then Err ''matrix must be square''
     else bind_out (fold_out (pivot_step n) [0..<n] (augment n mat)) (\<lambda>aug. Ok (map (drop n) aug)))"

definition build_encoding_matrix :: "usize \<Rightarrow> usize \<Rightarrow> (ErasureError, Matrix) outcome" where
  "build_encoding_matrix n k = bind_out (vandermonde n k) (\<lambda>v.
     bind_out (map_err ECodec (invert_matrix (take k v))) (\<lambda>inv. Ok (mat_mul v inv)))"

type_synonym matrix_cache = "u32 \<times> u32 \<rightharpoonup> Matrix"

definition cached_encoding_matrix ::
    "ErasureConfig \<Rightarrow> matrix_cache \<Rightarrow> (ErasureError, Matrix) outcome \<times> matrix_cache" where
  "cached_encoding_matrix cfg cache = (case cache (ec_n cfg, ec_k cfg) of
      Some matrix \<Rightarrow> (Ok matrix, cache)
    | None \<Rightarrow> call (build_encoding_matrix (unat (ec_n cfg)) (unat (ec_k cfg))) cache (\<lambda>matrix.
        (Ok matrix, cache((ec_n cfg, ec_k cfg) \<mapsto> matrix))))"

section \<open>Encoding\<close>

definition pad_to_k_shards :: "bytes \<Rightarrow> ErasureConfig \<Rightarrow> bytes" where
  "pad_to_k_shards payload cfg = payload @ drop (length payload) (replicate (padded_len cfg) 0)"

text \<open>\<open>for j in 0..k { mul_slice_add(coeff(j), src(j), out) }\<close>, the inner loop of all three products.\<close>

definition accumulate :: "nat \<Rightarrow> (nat \<Rightarrow> u8) \<Rightarrow> (nat \<Rightarrow> bytes) \<Rightarrow> bytes \<Rightarrow> ('e, bytes) outcome" where
  "accumulate k coeff src out = fold_out (\<lambda>j acc. mul_slice_add (coeff j) (src j) acc) [0..<k] out"

definition encode_parity_shards :: "Matrix \<Rightarrow> nat \<Rightarrow> bytes list \<Rightarrow> bytes list \<Rightarrow> ('e, bytes list) outcome" where
  "encode_parity_shards matrix k data parity =
     mapM_out (\<lambda>offset. accumulate k (\<lambda>j. matrix ! (k + offset) ! j) (\<lambda>j. data ! j)
       (replicate (length (parity ! offset)) 0)) [0..<length parity]"

definition encode_shards ::
    "bytes \<Rightarrow> ErasureConfig \<Rightarrow> matrix_cache \<Rightarrow> (ErasureError, bytes list) outcome \<times> matrix_cache" where
  "encode_shards payload cfg cache = call (validate_cfg cfg) cache (\<lambda>_.
     if padded_len cfg < length payload then (Err (EConfig ''payload exceeds RS padded capacity''), cache)
     else let k = unat (ec_k cfg); n = unat (ec_n cfg) in
       bind_st (cached_encoding_matrix cfg cache) (\<lambda>matrix cache. let
           shards = chunks_of (ec_data_shard_size cfg) (pad_to_k_shards payload cfg);
           shards = take n shards @ replicate (n - length shards) (replicate (ec_data_shard_size cfg) 0);
           data_shards = take k shards
         in call (encode_parity_shards matrix k data_shards (drop k shards)) cache (\<lambda>parity_shards.
           (Ok (data_shards @ parity_shards), cache))))"

section \<open>Decoding\<close>

definition reconstruct_shards :: "bytes option list \<Rightarrow> ErasureConfig \<Rightarrow> matrix_cache \<Rightarrow>
    (ErasureError, bytes option list) outcome \<times> matrix_cache" where
  "reconstruct_shards shards cfg cache = (let k = unat (ec_k cfg); n = length shards in
     bind_st (cached_encoding_matrix cfg cache) (\<lambda>matrix cache. let
         present = filter (\<lambda>i. shards ! i \<noteq> None) [0..<n]
       in if length present < k then (Err (EConfig ''insufficient shards for decode''), cache)
          else let use_rows = take k present; zeros = replicate (ec_data_shard_size cfg) 0 in
            call (map_err ECodec (invert_matrix (submatrix matrix use_rows))) cache (\<lambda>inv.
            call (mapM_out (\<lambda>j. accumulate k (\<lambda>t. inv ! j ! t) (\<lambda>t. the (shards ! (use_rows ! t))) zeros)
              [0..<k]) cache (\<lambda>data_shards.
            call (mapM_out (\<lambda>row. accumulate k (\<lambda>j. matrix ! row ! j) (\<lambda>j. data_shards ! j) zeros)
              [k..<n]) cache (\<lambda>parity_shards.
              (Ok (map Some (data_shards @ parity_shards)), cache))))))"

definition place_shard :: "ErasureConfig \<Rightarrow> u32 \<times> bytes \<Rightarrow> bytes option list \<Rightarrow>
    (ErasureError, bytes option list) outcome" where
  "place_shard cfg = (\<lambda>(index, data) shards.
     if unat (ec_n cfg) \<le> unat index then Err (EConfig ''shard index out of range'')
     else if length data \<noteq> ec_data_shard_size cfg then Err (EConfig ''unexpected shard length'')
     else Ok (shards[unat index := Some data]))"

definition decode_shards :: "(u32 \<times> bytes) list \<Rightarrow> ErasureConfig \<Rightarrow> usize \<Rightarrow> matrix_cache \<Rightarrow>
    (ErasureError, bytes) outcome \<times> matrix_cache" where
  "decode_shards present cfg orig_len cache = call (validate_cfg cfg) cache (\<lambda>_.
     let k = unat (ec_k cfg); n = unat (ec_n cfg) in
     if length present < k then (Err (EConfig ''insufficient shards for decode''), cache)
     else call (fold_out (place_shard cfg) present (replicate n None)) cache (\<lambda>shards.
       bind_st (reconstruct_shards shards cfg cache) (\<lambda>shards cache.
         call (mapM_out (\<lambda>i. case shards ! i of Some data \<Rightarrow> Ok data
             | None \<Rightarrow> Panic ''data shard present'') [0..<k]) cache (\<lambda>datas.
           (Ok (take orig_len (concat datas)), cache)))))"

end
