(* ===== verification/Gf_Linear.thy ===== *)
theory Gf_Linear
  imports Reed_Solomon
begin

text \<open>
  Linear algebra over GF(256) for the codec: rows of a byte matrix as linear forms, the Gauss--Jordan
  steps as operations that keep the solutions of the augmented system, the product of matrices, and
  the independence of Vandermonde rows.
\<close>

section \<open>Rows as linear forms\<close>

definition ent :: "Matrix \<Rightarrow> nat \<Rightarrow> nat \<Rightarrow> gf" where
  "ent m i j = gf_of (m ! i ! j)"

definition form :: "nat \<Rightarrow> Matrix \<Rightarrow> nat \<Rightarrow> (nat \<Rightarrow> gf) \<Rightarrow> gf" where
  "form w m i z = (\<Sum>j<w. ent m i j * z j)"

definition shape :: "nat \<Rightarrow> nat \<Rightarrow> Matrix \<Rightarrow> bool" where
  "shape n w m \<longleftrightarrow> length m = n \<and> (\<forall>i < n. length (m ! i) = w)"

definition solves :: "nat \<Rightarrow> nat \<Rightarrow> Matrix \<Rightarrow> (nat \<Rightarrow> gf) \<Rightarrow> bool" where
  "solves n w m z \<longleftrightarrow> (\<forall>i < n. form w m i z = 0)"

lemma shape_length: "shape n w m \<Longrightarrow> length m = n" "shape n w m \<Longrightarrow> i < n \<Longrightarrow> length (m ! i) = w"
  by (simp_all add: shape_def)

lemma shape_update: "shape n w m \<Longrightarrow> length r = w \<Longrightarrow> shape n w (m[i := r])"
  by (simp add: shape_def) (metis nth_list_update nth_list_update_neq)

section \<open>Elimination\<close>

definition swap_rows :: "nat \<Rightarrow> nat \<Rightarrow> Matrix \<Rightarrow> Matrix" where
  "swap_rows a b m = m[a := m ! b, b := m ! a]"

lemma swap_rows:
  assumes "shape n w m" "a < n" "b < n"
  shows "shape n w (swap_rows a b m)"
    and "i < n \<Longrightarrow> ent (swap_rows a b m) i j = ent m (if i = a then b else if i = b then a else i) j"
  using assms by (auto simp: swap_rows_def shape_def ent_def nth_list_update)

lemma scale_row:
  assumes "shape n w m" "a < n"
  shows "shape n w (m[a := map (\<lambda>v. gf_mul v c) (m ! a)])"
    and "i < n \<Longrightarrow> j < w \<Longrightarrow> ent (m[a := map (\<lambda>v. gf_mul v c) (m ! a)]) i j =
      (if i = a then gf_of c * ent m i j else ent m i j)"
  using assms by (auto simp: shape_def ent_def nth_list_update)

lemma eliminate_prefix:
  assumes "shape n w m" "col < n" "k \<le> n"
  defines "step \<equiv> \<lambda>i aug. if i = col \<or> aug ! i ! col = 0 then aug else let factor = aug ! i ! col in
       aug[i := map2 (\<lambda>x y. gf_add x (gf_mul factor y)) (aug ! i) (aug ! col)]"
  shows "shape n w (fold step [0..<k] m) \<and> (\<forall>i < n. fold step [0..<k] m ! i =
    (if i < k \<and> i \<noteq> col \<and> m ! i ! col \<noteq> 0
     then map2 (\<lambda>x y. gf_add x (gf_mul (m ! i ! col) y)) (m ! i) (m ! col) else m ! i))"
  using assms(3)
proof (induction k)
  case (Suc k)
  let ?f = "fold step [0..<k] m"
  have IH: "shape n w ?f" "?f ! k = m ! k" "?f ! col = m ! col"
    "\<And>i. i < n \<Longrightarrow> ?f ! i = (if i < k \<and> i \<noteq> col \<and> m ! i ! col \<noteq> 0
       then map2 (\<lambda>x y. gf_add x (gf_mul (m ! i ! col) y)) (m ! i) (m ! col) else m ! i)"
    using Suc assms(2) by auto
  have "fold step [0..<Suc k] m = (if k = col \<or> m ! k ! col = 0 then ?f
      else ?f[k := map2 (\<lambda>x y. gf_add x (gf_mul (m ! k ! col) y)) (m ! k) (m ! col)])"
    using IH(2,3) by (simp add: step_def)
  then show ?case
    using IH(1,4) Suc.prems assms(1,2) by (auto simp: nth_list_update shape_def less_Suc_eq)
qed (use assms in simp)

lemma eliminate:
  assumes "shape n w m" "col < n"
  shows "shape n w (eliminate n col m)"
    and "i < n \<Longrightarrow> j < w \<Longrightarrow> ent (eliminate n col m) i j =
      (if i = col then ent m i j else ent m i j + ent m i col * ent m col j)"
  using eliminate_prefix [OF assms order_refl] shape_length(2) [OF assms(1)] assms(2)
  by (auto simp: eliminate_def ent_def)

lemma solves_row_operation:
  assumes "col < n" "c \<noteq> 0"
    and "\<And>i j. i < n \<Longrightarrow> j < w \<Longrightarrow> ent m' i j =
      (if i = col then c * ent m col j else ent m i j + d i * ent m col j)"
  shows "solves n w m' z \<longleftrightarrow> solves n w m z"
proof -
  have "form w m' i z = (if i = col then c * form w m col z else form w m i z + d i * form w m col z)"
    if "i < n" for i
    using that assms(3) by (auto simp: form_def sum_distrib_left sum.distrib algebra_simps intro!: sum.cong)
  then show ?thesis
    using assms(1,2) unfolding solves_def by (metis (mono_tags, lifting) add.right_neutral mult_eq_0_iff)
qed

lemma solves_swap:
  assumes "shape n w m" "a < n" "b < n"
  shows "solves n w (swap_rows a b m) z \<longleftrightarrow> solves n w m z"
proof -
  have "form w (swap_rows a b m) i z = form w m (if i = a then b else if i = b then a else i) z" if "i < n" for i
    using that swap_rows(2) [OF assms] by (simp add: form_def)
  then show ?thesis
    using assms(2,3) unfolding solves_def by metis
qed

text \<open>The first \<open>col\<close> columns are unit columns.\<close>

definition reduced :: "nat \<Rightarrow> nat \<Rightarrow> Matrix \<Rightarrow> bool" where
  "reduced n col m \<longleftrightarrow> (\<forall>i < n. \<forall>j < col. ent m i j = (if i = j then 1 else 0))"

lemma reduced_swap:
  assumes "shape n w m" "reduced n col m" "col \<le> p" "p < n"
  shows "reduced n col (swap_rows col p m)"
  using assms swap_rows(2) [OF assms(1), of col p] by (auto simp: reduced_def)

text \<open>One pivot step on a row with a nonzero pivot.\<close>

lemma pivot_row:
  assumes m: "shape n w m" "reduced n col m" "col < n" "n \<le> w" and pivot: "ent m col col \<noteq> 0"
  defines "m' \<equiv> eliminate n col (m[col := map (\<lambda>v. gf_mul v (gf_inv (m ! col ! col))) (m ! col)])"
  shows "shape n w m' \<and> reduced n (Suc col) m' \<and> (\<forall>z. solves n w m' z \<longleftrightarrow> solves n w m z)"
proof (intro conjI allI)
  let ?c = "inverse (ent m col col)"
  let ?s = "m[col := map (\<lambda>v. gf_mul v (gf_inv (m ! col ! col))) (m ! col)]"
  have c: "?c = gf_of (gf_inv (m ! col ! col))"
    by (simp add: ent_def)
  note s = scale_row [OF m(1,3), where c = "gf_inv (m ! col ! col)", folded c]
  show "shape n w m'"
    unfolding m'_def by (rule eliminate(1) [OF s(1) m(3)])
  have ent': "ent m' i j = (if i = col then ?c * ent m col j else ent m i j + (ent m i col * ?c) * ent m col j)"
    if "i < n" "j < w" for i j
    using that eliminate(2) [OF s(1) m(3) that] s(2) m(3,4) by (simp add: m'_def)
  then show "solves n w m' z \<longleftrightarrow> solves n w m z" for z
    using pivot m(3) by (intro solves_row_operation [where d = "\<lambda>i. ent m i col * ?c"]) auto
  show "reduced n (Suc col) m'"
    using m(2-4) pivot ent' by (auto simp: reduced_def less_Suc_eq mult.assoc)
qed

text \<open>The source checks the inverse of the pivot, which is never zero, and skips the trivial swap.\<close>

lemma pivot_step_cases:
  assumes "shape n w m" "col < n"
  shows "pivot_step n col m = (case find (\<lambda>p. m ! p ! col \<noteq> 0) [col..<n] of
      None \<Rightarrow> Err ''matrix is singular''
    | Some p \<Rightarrow> let s = swap_rows col p m in
        Ok (eliminate n col (s[col := map (\<lambda>v. gf_mul v (gf_inv (s ! col ! col))) (s ! col)])))"
proof (cases "find (\<lambda>p. m ! p ! col \<noteq> 0) [col..<n]")
  case None
  then show ?thesis
    by (simp add: pivot_step_def)
next
  case (Some p)
  have p: "m ! p ! col \<noteq> 0" "col \<le> p" "p < n"
    using Some by (auto simp: find_Some_iff)
  have "swap_rows col p m ! col = m ! p"
    using p(3) assms by (simp add: swap_rows_def nth_list_update shape_def)
  then have "gf_inv (swap_rows col p m ! col ! col) \<noteq> 0"
    using gf_mul_inv [OF p(1)] by auto
  moreover have "(if p \<noteq> col then m[col := m ! p, p := m ! col] else m) = swap_rows col p m"
    by (simp add: swap_rows_def)
  ultimately show ?thesis
    using Some by (simp add: pivot_step_def Let_def)
qed

lemma pivot_step_Ok:
  assumes m: "shape n w m" "reduced n col m" "col < n" "n \<le> w" and "pivot_step n col m = Ok m'"
  shows "shape n w m' \<and> reduced n (Suc col) m' \<and> (\<forall>z. solves n w m' z \<longleftrightarrow> solves n w m z)"
proof -
  obtain p where found: "find (\<lambda>p. m ! p ! col \<noteq> 0) [col..<n] = Some p"
    and m': "m' = (let s = swap_rows col p m in
      eliminate n col (s[col := map (\<lambda>v. gf_mul v (gf_inv (s ! col ! col))) (s ! col)]))"
    using assms(5) by (auto simp: pivot_step_cases [OF m(1,3)] Let_def split: option.splits)
  have p: "col \<le> p" "p < n" "m ! p ! col \<noteq> 0"
    using found by (auto simp: find_Some_iff)
  let ?s = "swap_rows col p m"
  have s: "shape n w ?s" "reduced n col ?s" "ent ?s col col \<noteq> 0"
    using swap_rows [OF m(1,3) p(2)] reduced_swap [OF m(1,2) p(1,2)] p(3) m(3) by (simp_all add: ent_def)
  show ?thesis
    using pivot_row [OF s(1,2) m(3,4) s(3)] solves_swap [OF m(1,3) p(2)] by (simp add: m' Let_def)
qed

text \<open>When no pivot is left the column depends on the ones before it.\<close>

lemma pivot_step_fails:
  assumes m: "shape n w m" "reduced n col m" "col < n" "n \<le> w" and "\<not> is_ok (pivot_step n col m)"
  shows "(\<exists>e. pivot_step n col m = Err e) \<and> (\<exists>z. solves n w m z \<and> z col = 1 \<and> (\<forall>j > col. z j = 0))"
proof -
  have none: "find (\<lambda>p. m ! p ! col \<noteq> 0) [col..<n] = None"
    using assms(5) by (auto simp: pivot_step_cases [OF m(1,3)] Let_def split: option.splits)
  then have zero: "ent m i col = 0" if "col \<le> i" "i < n" for i
    using that by (auto simp: find_None_iff ent_def)
  define z where "z j = (if j = col then 1 else if j < col then ent m j col else 0)" for j
  have "form w m i z = 0" if i: "i < n" for i
  proof -
    have "form w m i z = (\<Sum>j<Suc col. ent m i j * z j)"
      unfolding form_def using m(3,4) by (intro sum.mono_neutral_right) (auto simp: z_def)
    also have "\<dots> = (\<Sum>j<col. ent m i j * z j) + ent m i col"
      by (simp add: z_def)
    also have "(\<Sum>j<col. ent m i j * z j) = (\<Sum>j<col. if i = j then z j else 0)"
      using m(2) i by (intro sum.cong) (auto simp: reduced_def)
    also have "\<dots> = (if i < col then ent m i col else 0)"
      by (simp add: z_def)
    finally show ?thesis
      using zero i by simp
  qed
  then show ?thesis
    using none by (auto simp: solves_def z_def pivot_step_def intro!: exI [of _ z])
qed

section \<open>Inversion\<close>

lemma fold_out_append: "fold_out f (xs @ ys) b = bind_out (fold_out f xs b) (fold_out f ys)"
proof (induction xs arbitrary: b)
  case (Cons x xs)
  then show ?case
    by (cases "f x b") auto
qed simp

lemma gauss_prefix:
  assumes "shape n w m" "n \<le> w" "k \<le> n"
  shows "case fold_out (pivot_step n) [0..<k] m of
      Ok m' \<Rightarrow> shape n w m' \<and> reduced n k m' \<and> (\<forall>z. solves n w m' z \<longleftrightarrow> solves n w m z)
    | Err e \<Rightarrow> \<exists>z. solves n w m z \<and> (\<exists>c < n. z c = 1) \<and> (\<forall>j \<ge> n. z j = 0)
    | Panic e \<Rightarrow> False"
  using assms(3)
proof (induction k)
  case 0
  then show ?case
    using assms(1) by (simp add: reduced_def)
next
  case (Suc k)
  show ?case
  proof (cases "fold_out (pivot_step n) [0..<k] m")
    case (Ok m')
    then have m': "shape n w m'" "reduced n k m'" "\<And>z. solves n w m' z \<longleftrightarrow> solves n w m z" "k < n"
      using Suc by simp_all
    show ?thesis
    proof (cases "is_ok (pivot_step n k m')")
      case True
      then show ?thesis
        using Ok pivot_step_Ok [OF m'(1,2,4) assms(2)] m'(3) by (auto simp: is_ok_iff fold_out_append)
    next
      case False
      then show ?thesis
        using Ok pivot_step_fails [OF m'(1,2,4) assms(2)] m'(3,4) by (fastforce simp: fold_out_append)
    qed
  qed (use Suc in \<open>auto simp: fold_out_append\<close>)
qed

lemma sum_lessThan_add: "(\<Sum>j<n + m. f j) = (\<Sum>j<n. f j) + (\<Sum>j<m. f (n + j) :: gf)" for n m :: nat
  by (induction m) (simp_all add: add.assoc)

lemma augment_shape:
  assumes "shape n n a"
  shows "shape n (n + n) (augment n a)"
    and "i < n \<Longrightarrow> j < n \<Longrightarrow> ent (augment n a) i j = ent a i j"
    and "i < n \<Longrightarrow> j < n \<Longrightarrow> ent (augment n a) i (n + j) = (if i = j then 1 else 0)"
  using assms by (auto simp: augment_def shape_def ent_def nth_append nth_list_update)

lemma form_augment:
  assumes "shape n n a" "i < n"
  shows "form (n + n) (augment n a) i z = form n a i z + z (n + i)"
proof -
  have "(\<Sum>j<n. ent (augment n a) i (n + j) * z (n + j)) = (\<Sum>j<n. if i = j then z (n + j) else 0)"
    using augment_shape(3) [OF assms] by (intro sum.cong) auto
  then show ?thesis
    using augment_shape(2) [OF assms] assms(2) by (simp add: form_def sum_lessThan_add)
qed

lemma invert_matrix_Ok:
  assumes "invert_matrix a = Ok b"
  defines "n \<equiv> length a"
  shows "shape n n a" "shape n n b"
    "(\<forall>i < n. form n a i x = y i) \<longleftrightarrow> (\<forall>i < n. x i = form n b i y)"
proof -
  have sq: "shape n n a" and "n \<noteq> 0"
    using assms by (auto simp: invert_matrix_def Let_def shape_def split: if_splits)
  then obtain m where m: "fold_out (pivot_step n) [0..<n] (augment n a) = Ok m" and b: "b = map (drop n) m"
    using assms(1) unfolding n_def [symmetric]
    by (auto simp: invert_matrix_def Let_def bind_out_Ok_iff n_def split: if_splits)
  have gj: "shape n (n + n) m" "reduced n n m" "\<And>z. solves n (n + n) m z \<longleftrightarrow> solves n (n + n) (augment n a) z"
    using gauss_prefix [OF augment_shape(1) [OF sq], of n] by (simp_all add: m)
  show "shape n n a"
    by (fact sq)
  show "shape n n b"
    using gj(1) by (simp add: b shape_def)
  define z where "z j = (if j < n then x j else y (j - n))" for j
  have ent_b: "ent b i j = ent m i (n + j)" if "i < n" for i j
    using gj(1) that by (simp add: b ent_def shape_def)
  have "form (n + n) m i z = x i + form n b i y" if "i < n" for i
  proof -
    have "(\<Sum>j<n. ent m i j * z j) = (\<Sum>j<n. if i = j then x j else 0)"
      using gj(2) that by (intro sum.cong) (auto simp: reduced_def z_def)
    then show ?thesis
      using that by (simp add: form_def sum_lessThan_add ent_b z_def)
  qed
  moreover have "form (n + n) (augment n a) i z = form n a i x + y i" if "i < n" for i
    using form_augment [OF sq that, of z] by (simp add: z_def form_def)
  ultimately show "(\<forall>i < n. form n a i x = y i) \<longleftrightarrow> (\<forall>i < n. x i = form n b i y)"
    using gj(3) [of z] by (simp add: solves_def gf_add_eq_0)
qed

lemma invert_matrix_inverse:
  assumes "invert_matrix a = Ok b"
  shows "i < length a \<Longrightarrow> form (length a) b i (\<lambda>i. form (length a) a i x) = x i"
    and "i < length a \<Longrightarrow> form (length a) a i (\<lambda>i. form (length a) b i y) = y i"
  using invert_matrix_Ok(3) [OF assms, of x "\<lambda>i. form (length a) a i x"]
    invert_matrix_Ok(3) [OF assms, of "\<lambda>i. form (length a) b i y" y] by auto

definition nonsingular :: "Matrix \<Rightarrow> bool" where
  "nonsingular a \<longleftrightarrow> (\<forall>x. (\<forall>i < length a. form (length a) a i x = 0) \<longrightarrow> (\<forall>i < length a. x i = 0))"

lemma invert_matrix_total:
  assumes "shape n n a" "n \<noteq> 0" "nonsingular a"
  shows "\<exists>b. invert_matrix a = Ok b"
proof -
  have sq: "length a = n" "\<not> (\<exists>row \<in> set a. length row \<noteq> n)"
    using assms(1) by (auto simp: shape_def in_set_conv_nth)
  have "\<exists>m. fold_out (pivot_step n) [0..<n] (augment n a) = Ok m"
  proof (cases "fold_out (pivot_step n) [0..<n] (augment n a)")
    case (Err e)
    then obtain z c where z: "solves n (n + n) (augment n a) z" "c < n" "z c = 1" "\<forall>j \<ge> n. z j = 0"
      using gauss_prefix [OF augment_shape(1) [OF assms(1)], of n] by auto
    then have "\<forall>i < n. form n a i z = 0"
      using form_augment [OF assms(1)] by (simp add: solves_def)
    then have "z c = 0"
      using assms(3) z(2) sq(1) by (auto simp: nonsingular_def)
    with z(3) show ?thesis
      by simp
  qed (use gauss_prefix [OF augment_shape(1) [OF assms(1)], of n] in auto)
  then show ?thesis
    using assms(2) sq by (auto simp: invert_matrix_def Let_def)
qed

section \<open>Products and Vandermonde rows\<close>

lemma fold_gf_sum: "gf_of (fold (\<lambda>t s. gf_add s (f t)) [0..<n] acc) = gf_of acc + (\<Sum>t<n. gf_of (f t))"
  by (induction n) (simp_all add: add.assoc)

lemma mat_mul_shape:
  assumes "shape n k a" "shape k w b" "k \<noteq> 0"
  shows "shape n w (mat_mul a b)"
    and "i < n \<Longrightarrow> j < w \<Longrightarrow> ent (mat_mul a b) i j = form k a i (\<lambda>t. ent b t j)"
  using assms by (auto simp: mat_mul_def shape_def ent_def form_def fold_gf_sum)

lemma form_mat_mul:
  assumes "shape n k a" "shape k w b" "k \<noteq> 0" "i < n"
  shows "form w (mat_mul a b) i x = form k a i (\<lambda>t. form w b t x)"
proof -
  have "form w (mat_mul a b) i x = (\<Sum>j<w. \<Sum>t<k. ent a i t * (ent b t j * x j))"
    using mat_mul_shape(2) [OF assms(1-4)] by (simp add: form_def sum_distrib_right mult.assoc)
  also have "\<dots> = (\<Sum>t<k. \<Sum>j<w. ent a i t * (ent b t j * x j))"
    by (rule sum.swap)
  finally show ?thesis
    by (simp add: form_def sum_distrib_left)
qed

lemma vandermonde_Ok:
  assumes "vandermonde n k = Ok v" "k \<le> 256"
  shows "n \<le> 256" "shape n k v" "i < n \<Longrightarrow> form k v i x = (\<Sum>c<k. x c * gf_of (of_nat i) ^ c)"
proof -
  show "n \<le> 256" "shape n k v"
    using assms by (auto simp: vandermonde_def shape_def split: if_splits)
  have "unat (of_nat c :: u32) = c" if "c < k" for c
    using that assms(2) by (simp add: unat_of_nat_small)
  then show "form k v i x = (\<Sum>c<k. x c * gf_of (of_nat i) ^ c)" if "i < n"
    using assms(1) that
    by (auto simp: vandermonde_def form_def ent_def gf_pow_power mult.commute split: if_splits intro!: sum.cong)
qed

text \<open>A polynomial with as many roots as coefficients is zero.\<close>

definition peval :: "nat \<Rightarrow> (nat \<Rightarrow> gf) \<Rightarrow> gf \<Rightarrow> gf" where
  "peval m x w = (\<Sum>c<m. x c * w ^ c)"

lemma peval_shift: "peval (Suc m) x w = x 0 + w * peval m (\<lambda>c. x (Suc c)) w"
  unfolding peval_def by (subst sum.lessThan_Suc_shift) (simp add: sum_distrib_left mult.left_commute)

lemma synthetic_division:
  "\<exists>q. q k = x (Suc k) \<and> (\<forall>w. peval (Suc (Suc k)) x w = (w - a) * peval (Suc k) q w + peval (Suc (Suc k)) x a)"
proof (induction k arbitrary: x)
  case 0
  show ?case
    by (rule exI [of _ "\<lambda>_. x 1"]) (simp add: peval_def algebra_simps)
next
  case (Suc k)
  let ?t = "\<lambda>c. x (Suc c)"
  obtain q where q: "q k = ?t (Suc k)"
    "\<And>w. peval (Suc (Suc k)) ?t w = (w - a) * peval (Suc k) q w + peval (Suc (Suc k)) ?t a"
    using Suc.IH [of ?t] by blast
  let ?q = "\<lambda>c. case c of 0 \<Rightarrow> peval (Suc (Suc k)) ?t a | Suc c \<Rightarrow> q c"
  have division: "peval (Suc (Suc (Suc k))) x w = (w - a) * peval (Suc (Suc k)) ?q w + peval (Suc (Suc (Suc k))) x a" for w
    unfolding peval_shift [of "Suc (Suc k)"] peval_shift [of "Suc k" ?q] q(2) [of w]
    by (simp add: algebra_simps del: gf_uminus)
  show ?case
    by (intro exI [of _ ?q] conjI allI) (simp add: q(1), rule division)
qed

lemma peval_roots:
  assumes "finite S" "m \<le> card S" "\<And>w. w \<in> S \<Longrightarrow> peval m x w = 0"
  shows "\<forall>c < m. x c = 0"
  using assms
proof (induction m arbitrary: x S)
  case (Suc m)
  then obtain a where a: "a \<in> S"
    by (metis card.empty ex_in_conv not_less_eq_eq zero_le)
  show ?case
  proof (cases m)
    case 0
    then show ?thesis
      using Suc.prems(3) [OF a] by (simp add: peval_def)
  next
    case (Suc k)
    obtain q where q: "q k = x m" "\<And>w. peval (Suc m) x w = (w - a) * peval m q w"
      using synthetic_division [of k x a] Suc.prems(3) [OF a] Suc by auto
    have "peval m q w = 0" if "w \<in> S - {a}" for w
      using Suc.prems(3) [of w] q(2) [of w] that by auto
    then have "\<forall>c < m. q c = 0"
      using Suc.prems(1,2) a by (intro Suc.IH [of "S - {a}"]) (simp_all add: card_Diff_singleton)
    then have top: "x m = 0"
      using q(1) Suc by simp
    then have "peval m x w = 0" if "w \<in> S" for w
      using Suc.prems(3) [OF that] by (simp add: peval_def)
    then have "\<forall>c < m. x c = 0"
      using Suc.prems(1,2) by (intro Suc.IH [of S]) simp_all
    with top show ?thesis
      by (simp add: less_Suc_eq)
  qed
qed simp

lemma gf_of_nat_inj: "i < 256 \<Longrightarrow> j < 256 \<Longrightarrow> gf_of (of_nat i) = gf_of (of_nat j) \<longleftrightarrow> i = j"
  using unat_of_nat_small [of i, where 'a = 8] unat_of_nat_small [of j, where 'a = 8] by (auto simp: word_unat_eq_iff)

lemma vandermonde_independent:
  assumes v: "vandermonde n k = Ok v" "k \<le> 256" and rows: "distinct rows" "set rows \<subseteq> {..<n}" "length rows = k"
    and zero: "\<And>r. r \<in> set rows \<Longrightarrow> form k v r x = 0"
  shows "\<forall>c < k. x c = 0"
proof (rule peval_roots)
  note n = vandermonde_Ok(1) [OF v]
  have "inj_on (\<lambda>r. gf_of (of_nat r)) (set rows)"
    using rows(2) n by (intro inj_onI) (metis gf_of_nat_inj lessThan_iff order_less_le_trans subsetD)
  then show "k \<le> card ((\<lambda>r. gf_of (of_nat r)) ` set rows)"
    using rows(1,3) by (simp add: card_image distinct_card)
  show "peval k x w = 0" if w: "w \<in> (\<lambda>r. gf_of (of_nat r)) ` set rows" for w
  proof -
    obtain r where "r \<in> set rows" "w = gf_of (of_nat r)"
      using w by blast
    then show ?thesis
      using zero [of r] rows(2) vandermonde_Ok(3) [OF v, of r x] by (auto simp: peval_def)
  qed
qed simp

section \<open>The encoding matrix\<close>

lemma form_take: "i < k \<Longrightarrow> form w (take k v) i x = form w v i x"
  by (simp add: form_def ent_def)

lemma form_submatrix: "i < length rows \<Longrightarrow> form w (submatrix m rows) i x = form w m (rows ! i) x"
  by (simp add: form_def ent_def submatrix_def)

lemma vandermonde_total: "n \<le> 256 \<Longrightarrow> \<exists>v. vandermonde n k = Ok v"
  by (simp add: vandermonde_def)

text \<open>
  Systematic and maximum distance separable: the first \<open>k\<close> rows are the identity and any \<open>k\<close> rows are
  independent.
\<close>

definition systematic_mds :: "nat \<Rightarrow> nat \<Rightarrow> Matrix \<Rightarrow> bool" where
  "systematic_mds n k m \<longleftrightarrow> shape n k m \<and> (\<forall>i < k. \<forall>x. form k m i x = x i) \<and>
    (\<forall>rows x. distinct rows \<and> set rows \<subseteq> {..<n} \<and> length rows = k \<and> (\<forall>r \<in> set rows. form k m r x = 0) \<longrightarrow>
       (\<forall>c < k. x c = 0))"

lemma build_encoding_matrix:
  assumes "0 < k" "k < n" "n \<le> 256"
  obtains m where "build_encoding_matrix n k = Ok m" "systematic_mds n k m"
proof -
  obtain v where v: "vandermonde n k = (Ok v :: (ErasureError, Matrix) outcome)"
    using vandermonde_total assms(3) by blast
  have k: "k \<le> 256"
    using assms by simp
  note vs = vandermonde_Ok(2) [OF v k]
  note indep = vandermonde_independent [OF v k]
  have top: "shape k k (take k v)"
    using vs assms(2) by (simp add: shape_def)
  then have len: "length (take k v) = k"
    by (rule shape_length)
  have "nonsingular (take k v)"
    unfolding nonsingular_def len
  proof (intro allI impI)
    fix x i
    assume "\<forall>i<k. form k (take k v) i x = 0" "i < k"
    then show "x i = 0"
      using indep [of "[0..<k]" x] assms(2) by (simp add: form_take subset_iff)
  qed
  then obtain w where w: "invert_matrix (take k v) = Ok w"
    using invert_matrix_total [OF top] assms(1) by auto
  have ws: "shape k k w"
    using invert_matrix_Ok(2) [OF w] by (simp only: len)
  note inverse = invert_matrix_inverse [OF w, unfolded len]
  note product = form_mat_mul [OF vs ws]
  show thesis
  proof (rule that)
    show "build_encoding_matrix n k = Ok (mat_mul v w)"
      by (simp add: build_encoding_matrix_def v w)
    have "shape n k (mat_mul v w)"
      using mat_mul_shape(1) [OF vs ws] assms(1) by simp
    moreover have "form k (mat_mul v w) i x = x i" if "i < k" for i x
      using that assms product [of i x] inverse(2) [of i x] by (simp add: form_take)
    moreover have "\<forall>c < k. x c = 0" if rows: "distinct rows" "set rows \<subseteq> {..<n}" "length rows = k"
      and zero: "\<And>r. r \<in> set rows \<Longrightarrow> form k (mat_mul v w) r x = 0" for rows x
    proof -
      have "form k v r (\<lambda>t. form k w t x) = 0" if "r \<in> set rows" for r
        using zero [OF that] product [of r x] rows(2) that assms(1) by auto
      then have "\<forall>t < k. form k w t x = 0"
        using indep [OF rows] by blast
      then have "form k (take k v) i (\<lambda>t. form k w t x) = 0" for i
        by (simp add: form_def)
      then show ?thesis
        using inverse(2) [of _ x] by simp
    qed
    ultimately show "systematic_mds n k (mat_mul v w)"
      unfolding systematic_mds_def by blast
  qed
qed

end
