(* ===== verification/Rs_Codec.thy ===== *)
theory Rs_Codec
  imports Gf_Linear
begin

text \<open>
  What the codec computes: the loops over shards as linear forms of the bytes at one position, the
  cache, the shards of an encoding as a code word, and decoding of a code word from any \<open>k\<close> of its
  shards.
\<close>

section \<open>Loops over shards\<close>

lemma byte_of_gf_of [simp]: "byte_of (gf_of b) = b" "gf_of (byte_of g) = g"
  by (simp_all add: gf_of_inverse byte_of_inverse)

lemma byte_of_zero [simp]: "byte_of 0 = 0"
  using byte_of_gf_of(1) [of 0] by simp

lemma mul_slice_add_Ok:
  assumes "length input = length out"
  shows "mul_slice_add c input out = Ok (map2 (\<lambda>dst src. byte_of (gf_of dst + gf_of c * gf_of src)) out input)"
proof -
  have "byte_of (gf_of dst + gf_of c * gf_of src) = gf_add dst (gf_mul c src)" for dst src
    by (simp flip: gf_of_simps)
  then show ?thesis
    using assms by (auto simp: mul_slice_add_def gf_add_def intro!: nth_equalityI)
qed

lemma mul_slice_Ok:
  "length input = length out \<Longrightarrow> mul_slice c input out = Ok (map (gf_mul c) input)"
  by (auto simp: mul_slice_def intro!: nth_equalityI)

definition combine :: "nat \<Rightarrow> (nat \<Rightarrow> u8) \<Rightarrow> (nat \<Rightarrow> bytes) \<Rightarrow> nat \<Rightarrow> bytes" where
  "combine k coeff src s = map (\<lambda>p. byte_of (\<Sum>j<k. gf_of (coeff j) * gf_of (src j ! p))) [0..<s]"

lemma length_combine [simp]: "length (combine k coeff src s) = s"
  by (simp add: combine_def)

lemma combine_nth: "p < s \<Longrightarrow> gf_of (combine k coeff src s ! p) = (\<Sum>j<k. gf_of (coeff j) * gf_of (src j ! p))"
  by (simp add: combine_def)

lemma mul_slice_add_combine:
  "length (src k) = s \<Longrightarrow> mul_slice_add (coeff k) (src k) (combine k coeff src s) = Ok (combine (Suc k) coeff src s)"
  by (subst mul_slice_add_Ok) (auto simp: combine_def intro!: nth_equalityI)

lemma accumulate_Ok:
  assumes "\<And>j. j < k \<Longrightarrow> length (src j) = s"
  shows "accumulate k coeff src (replicate s 0) = Ok (combine k coeff src s)"
  using assms
proof (induction k)
  case 0
  then show ?case
    by (auto simp: accumulate_def combine_def intro!: nth_equalityI)
next
  case (Suc k)
  then show ?case
    by (simp add: accumulate_def fold_out_append mul_slice_add_combine)
qed

lemma chunks_of_concat:
  assumes "length xs = k * s" "0 < s"
  shows "length (chunks_of s xs) = k \<and> (\<forall>c \<in> set (chunks_of s xs). length c = s) \<and> concat (chunks_of s xs) = xs"
  using assms(1)
proof (induction k arbitrary: xs)
  case 0
  then show ?case
    by (simp add: chunks_of.simps)
next
  case (Suc k)
  then have rest: "length (drop s xs) = k * s" and "xs \<noteq> []" "length (take s xs) = s"
    using assms(2) by auto
  then have "chunks_of s xs = take s xs # chunks_of s (drop s xs)"
    using assms(2) by (subst chunks_of.simps) simp
  then show ?case
    using Suc.IH [OF rest] \<open>length (take s xs) = s\<close> by simp
qed

section \<open>The cache\<close>

definition cache_ok :: "matrix_cache \<Rightarrow> bool" where
  "cache_ok cache \<longleftrightarrow> (\<forall>n k m. cache (n, k) = Some m \<longrightarrow> build_encoding_matrix (unat n) (unat k) = Ok m)"

lemma cache_ok_empty: "cache_ok Map.empty"
  by (simp add: cache_ok_def)

lemma cached_matrix:
  assumes "cache_ok cache"
  shows "fst (cached_encoding_matrix cfg cache) = build_encoding_matrix (unat (ec_n cfg)) (unat (ec_k cfg))"
    and "cache_ok (snd (cached_encoding_matrix cfg cache))"
proof -
  show "fst (cached_encoding_matrix cfg cache) = build_encoding_matrix (unat (ec_n cfg)) (unat (ec_k cfg))"
    using assms by (auto simp: cached_encoding_matrix_def cache_ok_def call_def split: option.splits outcome.splits)
  show "cache_ok (snd (cached_encoding_matrix cfg cache))"
    using assms unfolding cached_encoding_matrix_def call_def
    by (cases "cache (ec_n cfg, ec_k cfg)"; cases "build_encoding_matrix (unat (ec_n cfg)) (unat (ec_k cfg))")
      (simp_all add: cache_ok_def)
qed

lemma validate_cfg_Ok_iff: "validate_cfg cfg = Ok () \<longleftrightarrow>
    0 < unat (ec_k cfg) \<and> unat (ec_k cfg) < unat (ec_n cfg) \<and> unat (ec_n cfg) \<le> 256 \<and> 0 < ec_data_shard_size cfg"
  by (auto simp: validate_cfg_def MAX_SHARDS_def word_le_nat_alt word_less_nat_alt unat_gt_0 not_le)

section \<open>Code words\<close>

text \<open>
  The shards of a code word: every shard is the linear form of its row applied to the data shards, at
  every byte position.
\<close>

definition code_word :: "Matrix \<Rightarrow> nat \<Rightarrow> nat \<Rightarrow> nat \<Rightarrow> bytes list \<Rightarrow> bool" where
  "code_word m n k s shards \<longleftrightarrow> length shards = n \<and> (\<forall>shard \<in> set shards. length shard = s) \<and>
    (\<forall>r < n. \<forall>p < s. gf_of (shards ! r ! p) = form k m r (\<lambda>j. gf_of (shards ! j ! p)))"

lemma code_word_row:
  assumes "code_word m n k s shards" "r < n" "k \<le> n"
  shows "combine k (\<lambda>j. m ! r ! j) (\<lambda>j. shards ! j) s = shards ! r"
proof (rule nth_equalityI)
  show "combine k (\<lambda>j. m ! r ! j) (\<lambda>j. shards ! j) s ! p = shards ! r ! p"
    if "p < length (combine k (\<lambda>j. m ! r ! j) (\<lambda>j. shards ! j) s)" for p
    using assms(1,2) that by (simp add: code_word_def form_def ent_def combine_nth flip: gf_of_inject)
qed (use assms in \<open>simp add: code_word_def\<close>)

lemma encode_shards_code_word:
  assumes cfg: "validate_cfg cfg = Ok ()" and len: "length payload \<le> padded_len cfg" and cache: "cache_ok cache"
    and m: "build_encoding_matrix (unat (ec_n cfg)) (unat (ec_k cfg)) = Ok m"
      "systematic_mds (unat (ec_n cfg)) (unat (ec_k cfg)) m"
  obtains shards cache' where "encode_shards payload cfg cache = (Ok shards, cache')" "cache_ok cache'"
    "code_word m (unat (ec_n cfg)) (unat (ec_k cfg)) (ec_data_shard_size cfg) shards"
    "concat (take (unat (ec_k cfg)) shards) = pad_to_k_shards payload cfg"
proof -
  let ?k = "unat (ec_k cfg)" and ?n = "unat (ec_n cfg)" and ?s = "ec_data_shard_size cfg"
  note v = cfg [unfolded validate_cfg_Ok_iff]
  define data where "data = chunks_of ?s (pad_to_k_shards payload cfg)"
  have "length (pad_to_k_shards payload cfg) = ?k * ?s"
    using len by (simp add: pad_to_k_shards_def padded_len_def)
  then have data: "length data = ?k" "\<forall>c \<in> set data. length c = ?s" "concat data = pad_to_k_shards payload cfg"
    using chunks_of_concat [of "pad_to_k_shards payload cfg" ?k ?s] v by (simp_all add: data_def)
  let ?parity = "map (\<lambda>off. combine ?k (\<lambda>j. m ! (?k + off) ! j) (\<lambda>j. data ! j) ?s) [0..<?n - ?k]"
  have "accumulate ?k coeff (\<lambda>j. data ! j) (replicate ?s 0) =
      (Ok (combine ?k coeff (\<lambda>j. data ! j) ?s) :: (ErasureError, bytes) outcome)" for coeff
    using data(1,2) by (intro accumulate_Ok) simp
  then have parity: "encode_parity_shards m ?k data (replicate (?n - ?k) (replicate ?s 0)) =
      (Ok ?parity :: (ErasureError, bytes list) outcome)"
    unfolding encode_parity_shards_def mapM_out_Ok_iff by (simp add: list_all2_conv_all_nth)
  obtain cache' where cached: "cached_encoding_matrix cfg cache = (Ok m, cache')" "cache_ok cache'"
    using cached_matrix [OF cache, of cfg] m(1) by (metis prod.collapse)
  have "encode_shards payload cfg cache = (Ok (data @ ?parity), cache')"
    using cfg len cached(1) parity data(1) v by (simp add: encode_shards_def Let_def flip: data_def)
  moreover have "code_word m ?n ?k ?s (data @ ?parity)"
    unfolding code_word_def
  proof (intro conjI allI impI ballI)
    show "length (data @ ?parity) = ?n"
      using data(1) v by simp
    show "length shard = ?s" if "shard \<in> set (data @ ?parity)" for shard
      using that data(2) by auto
    fix r p
    assume "r < ?n" "p < ?s"
    moreover have "form ?k m r (\<lambda>j. gf_of ((data @ ?parity) ! j ! p)) = form ?k m r (\<lambda>j. gf_of (data ! j ! p))"
      unfolding form_def using data(1) by (intro sum.cong) (auto simp: nth_append)
    ultimately show "gf_of ((data @ ?parity) ! r ! p) = form ?k m r (\<lambda>j. gf_of ((data @ ?parity) ! j ! p))"
      using m(2) data(1) by (auto simp: systematic_mds_def nth_append combine_nth form_def ent_def)
  qed
  ultimately show thesis
    using that cached(2) data(1,3) by simp
qed

section \<open>Decoding a code word\<close>

text \<open>Every stored shard is a shard of the code word, and at least \<open>k\<close> are stored.\<close>

definition partial_word :: "bytes list \<Rightarrow> nat \<Rightarrow> bytes option list \<Rightarrow> bool" where
  "partial_word word k shards \<longleftrightarrow> length shards = length word \<and>
    (\<forall>i < length word. shards ! i \<in> {None, Some (word ! i)}) \<and> k \<le> card {i. i < length word \<and> shards ! i \<noteq> None}"

lemma mds_invertible:
  assumes m: "systematic_mds n k m" and rows: "distinct rows" "set rows \<subseteq> {..<n}" "length rows = k" and "0 < k"
  obtains iv where "invert_matrix (submatrix m rows) = Ok iv"
proof -
  have "rows ! t < n" if "t < k" for t
    using rows(2,3) that nth_mem [of t rows] by blast
  then have shape: "length (submatrix m rows) = k" "shape k k (submatrix m rows)"
    using rows(3) m by (simp_all add: systematic_mds_def submatrix_def shape_def)
  have "nonsingular (submatrix m rows)"
    unfolding nonsingular_def shape(1)
  proof (intro allI impI)
    fix x i
    assume "\<forall>i < k. form k (submatrix m rows) i x = 0" "i < k"
    moreover from this have "\<forall>r \<in> set rows. form k m r x = 0"
      using rows(3) by (auto simp: in_set_conv_nth form_submatrix)
    ultimately show "x i = 0"
      using m rows by (auto simp: systematic_mds_def)
  qed
  then show thesis
    using that invert_matrix_total [OF shape(2)] \<open>0 < k\<close> by auto
qed

lemma recover_data:
  assumes inv: "invert_matrix (submatrix m rows) = Ok iv" and rows: "length rows = k" "set rows \<subseteq> {..<n}"
    and word: "code_word m n k s word" "k \<le> n" and j: "j < k"
    and src: "\<And>t. t < k \<Longrightarrow> src t = word ! (rows ! t)"
  shows "combine k (\<lambda>t. iv ! j ! t) src s = word ! j"
proof (rule nth_equalityI)
  fix p
  assume "p < length (combine k (\<lambda>t. iv ! j ! t) src s)"
  then have p: "p < s"
    by simp
  let ?x = "\<lambda>j. gf_of (word ! j ! p)"
  have "gf_of (word ! (rows ! t) ! p) = form k (submatrix m rows) t ?x" if "t < k" for t
  proof -
    have "rows ! t < n"
      using rows that nth_mem [of t rows] by blast
    then show ?thesis
      using word(1) p rows(1) that by (simp add: code_word_def form_submatrix)
  qed
  then have "gf_of (combine k (\<lambda>t. iv ! j ! t) src s ! p) = form k iv j (\<lambda>t. form k (submatrix m rows) t ?x)"
    using p src by (simp add: combine_nth form_def [of _ iv] ent_def)
  also have "\<dots> = ?x j"
    using invert_matrix_inverse(1) [OF inv] j rows(1) by (simp add: submatrix_def)
  finally show "combine k (\<lambda>t. iv ! j ! t) src s ! p = word ! j ! p"
    by simp
qed (use j word in \<open>simp add: code_word_def\<close>)

lemma mapM_out_nth:
  "length xs = length ys \<Longrightarrow> (\<And>i. i < length xs \<Longrightarrow> f (xs ! i) = Ok (ys ! i)) \<Longrightarrow> mapM_out f xs = Ok ys"
  by (simp add: mapM_out_Ok_iff list_all2_conv_all_nth)

text \<open>The rows a reconstruction uses, and what it computes from them whatever the stored bytes.\<close>

definition stored_rows :: "nat \<Rightarrow> bytes option list \<Rightarrow> nat list" where
  "stored_rows n shards = filter (\<lambda>i. shards ! i \<noteq> None) [0..<n]"

lemma stored_rows: "set (stored_rows n shards) = {i. i < n \<and> shards ! i \<noteq> None}" "distinct (stored_rows n shards)"
  by (auto simp: stored_rows_def)

lemma length_stored_rows: "length (stored_rows n shards) = card {i. i < n \<and> shards ! i \<noteq> None}"
  using distinct_card [OF stored_rows(2)] by (metis stored_rows(1))

lemma use_rows:
  assumes "k \<le> length (stored_rows n shards)"
  defines "rows \<equiv> take k (stored_rows n shards)"
  shows "length rows = k" "distinct rows" "set rows \<subseteq> {..<n}"
    "t < k \<Longrightarrow> rows ! t < n \<and> shards ! (rows ! t) \<noteq> None"
proof -
  show len: "length rows = k" and "distinct rows"
    using assms stored_rows(2) by (simp_all add: rows_def)
  have sub: "set rows \<subseteq> {i. i < n \<and> shards ! i \<noteq> None}"
    unfolding rows_def stored_rows(1) [symmetric] by (rule set_take_subset)
  then show "set rows \<subseteq> {..<n}"
    by auto
  show "rows ! t < n \<and> shards ! (rows ! t) \<noteq> None" if "t < k"
    using subsetD [OF sub nth_mem [of t rows]] that len by simp
qed

definition sized :: "ErasureConfig \<Rightarrow> bytes option list \<Rightarrow> bool" where
  "sized cfg shards \<longleftrightarrow> length shards = unat (ec_n cfg) \<and>
    (\<forall>i < unat (ec_n cfg). \<forall>d. shards ! i = Some d \<longrightarrow> length d = ec_data_shard_size cfg)"

lemma reconstruct_enough:
  assumes cfg: "validate_cfg cfg = Ok ()" and cache: "cache_ok cache"
    and m: "build_encoding_matrix (unat (ec_n cfg)) (unat (ec_k cfg)) = Ok m"
      "systematic_mds (unat (ec_n cfg)) (unat (ec_k cfg)) m"
    and sized: "sized cfg shards"
    and enough: "unat (ec_k cfg) \<le> length (stored_rows (unat (ec_n cfg)) shards)"
  defines "rows \<equiv> take (unat (ec_k cfg)) (stored_rows (unat (ec_n cfg)) shards)"
  obtains iv data cache' where "invert_matrix (submatrix m rows) = Ok iv"
    "data = map (\<lambda>j. combine (unat (ec_k cfg)) (\<lambda>t. iv ! j ! t) (\<lambda>t. the (shards ! (rows ! t))) (ec_data_shard_size cfg))
       [0..<unat (ec_k cfg)]"
    "reconstruct_shards shards cfg cache = (Ok (map Some (data @ map (\<lambda>r. combine (unat (ec_k cfg)) (\<lambda>j. m ! r ! j)
       (\<lambda>j. data ! j) (ec_data_shard_size cfg)) [unat (ec_k cfg)..<unat (ec_n cfg)])), cache')" "cache_ok cache'"
proof -
  let ?k = "unat (ec_k cfg)" and ?n = "unat (ec_n cfg)" and ?s = "ec_data_shard_size cfg"
  note v = cfg [unfolded validate_cfg_Ok_iff]
  note rows = use_rows [OF enough, folded rows_def]
  obtain iv where iv: "invert_matrix (submatrix m rows) = Ok iv"
    using mds_invertible [OF m(2) rows(2,3,1)] v by auto
  define data where
    "data = map (\<lambda>j. combine ?k (\<lambda>t. iv ! j ! t) (\<lambda>t. the (shards ! (rows ! t))) ?s) [0..<?k]"
  have "mapM_out (\<lambda>j. accumulate ?k (\<lambda>t. iv ! j ! t) (\<lambda>t. the (shards ! (rows ! t))) (replicate ?s 0)) [0..<?k] =
      (Ok data :: (ErasureError, bytes list) outcome)"
    using rows(4) sized by (intro mapM_out_nth) (force simp: data_def sized_def intro!: accumulate_Ok)+
  moreover have "mapM_out (\<lambda>r. accumulate ?k (\<lambda>j. m ! r ! j) (\<lambda>j. data ! j) (replicate ?s 0)) [?k..<?n] =
      (Ok (map (\<lambda>r. combine ?k (\<lambda>j. m ! r ! j) (\<lambda>j. data ! j) ?s) [?k..<?n]) :: (ErasureError, bytes list) outcome)"
    by (intro mapM_out_map accumulate_Ok) (simp add: data_def)
  moreover obtain cache' where cached: "cached_encoding_matrix cfg cache = (Ok m, cache')" "cache_ok cache'"
    using cached_matrix [OF cache, of cfg] m(1) by (metis prod.collapse)
  ultimately have "reconstruct_shards shards cfg cache =
      (Ok (map Some (data @ map (\<lambda>r. combine ?k (\<lambda>j. m ! r ! j) (\<lambda>j. data ! j) ?s) [?k..<?n])), cache')"
    using enough iv sized unfolding reconstruct_shards_def
    by (simp add: Let_def rows_def stored_rows_def sized_def)
  then show thesis
    using that [OF iv data_def] cached(2) by blast
qed

lemma reconstruct_Ok:
  assumes "validate_cfg cfg = Ok ()" "cache_ok cache"
    "build_encoding_matrix (unat (ec_n cfg)) (unat (ec_k cfg)) = Ok m"
    "systematic_mds (unat (ec_n cfg)) (unat (ec_k cfg)) m" "sized cfg shards"
    "unat (ec_k cfg) \<le> length (stored_rows (unat (ec_n cfg)) shards)"
  shows "\<exists>ds cache'. reconstruct_shards shards cfg cache = (Ok (map Some ds), cache') \<and> cache_ok cache' \<and>
    unat (ec_k cfg) \<le> length ds"
  by (rule reconstruct_enough [OF assms]) (intro exI conjI, assumption, assumption, simp)

lemma reconstruct_few:
  assumes "validate_cfg cfg = Ok ()" "cache_ok cache" "length shards = unat (ec_n cfg)"
    and m: "build_encoding_matrix (unat (ec_n cfg)) (unat (ec_k cfg)) = Ok m"
    and few: "length (stored_rows (unat (ec_n cfg)) shards) < unat (ec_k cfg)"
  obtains cache' where "reconstruct_shards shards cfg cache = (Err (EConfig ''insufficient shards for decode''), cache')"
    "cache_ok cache'"
proof -
  obtain cache' where "cached_encoding_matrix cfg cache = (Ok m, cache')" "cache_ok cache'"
    using cached_matrix [OF assms(2), of cfg] m by (metis prod.collapse)
  then show thesis
    using that few assms(3) by (simp add: reconstruct_shards_def Let_def stored_rows_def)
qed

lemma reconstruct_code_word:
  assumes cfg: "validate_cfg cfg = Ok ()" and cache: "cache_ok cache"
    and m: "build_encoding_matrix (unat (ec_n cfg)) (unat (ec_k cfg)) = Ok m"
      "systematic_mds (unat (ec_n cfg)) (unat (ec_k cfg)) m"
    and word: "code_word m (unat (ec_n cfg)) (unat (ec_k cfg)) (ec_data_shard_size cfg) word"
    and shards: "partial_word word (unat (ec_k cfg)) shards"
  obtains cache' where "reconstruct_shards shards cfg cache = (Ok (map Some word), cache')" "cache_ok cache'"
proof -
  let ?k = "unat (ec_k cfg)" and ?n = "unat (ec_n cfg)" and ?s = "ec_data_shard_size cfg"
  let ?rows = "take ?k (stored_rows ?n shards)"
  have w: "length word = ?n" "\<And>i. i < ?n \<Longrightarrow> length (word ! i) = ?s"
    using word by (simp_all add: code_word_def)
  have kn: "?k \<le> ?n"
    using cfg by (simp add: validate_cfg_Ok_iff)
  have st: "length shards = ?n" "\<And>i d. i < ?n \<Longrightarrow> shards ! i = Some d \<Longrightarrow> d = word ! i"
    "?k \<le> length (stored_rows ?n shards)"
    using shards w(1) by (auto simp: partial_word_def length_stored_rows)
  have lens: "sized cfg shards"
    using st(1,2) w(2) unfolding sized_def by blast
  obtain iv data cache' where iv: "invert_matrix (submatrix m ?rows) = Ok iv"
    and data: "data = map (\<lambda>j. combine ?k (\<lambda>t. iv ! j ! t) (\<lambda>t. the (shards ! (?rows ! t))) ?s) [0..<?k]"
    and re: "reconstruct_shards shards cfg cache = (Ok (map Some (data @ map (\<lambda>r. combine ?k (\<lambda>j. m ! r ! j)
       (\<lambda>j. data ! j) ?s) [?k..<?n])), cache')" "cache_ok cache'"
    by (rule reconstruct_enough [OF cfg cache m lens st(3)])
  note rows = use_rows [OF st(3)]
  have src: "the (shards ! (?rows ! t)) = word ! (?rows ! t)" if "t < ?k" for t
    using rows(4) [OF that] st(2) by auto
  have "data = take ?k word"
    using recover_data [OF iv rows(1,3) word kn _ src] w(1) kn by (auto simp: data intro!: nth_equalityI)
  moreover have "map (\<lambda>r. combine ?k (\<lambda>j. m ! r ! j) (\<lambda>j. take ?k word ! j) ?s) [?k..<?n] = drop ?k word"
  proof (rule nth_equalityI)
    fix i
    assume "i < length (map (\<lambda>r. combine ?k (\<lambda>j. m ! r ! j) (\<lambda>j. take ?k word ! j) ?s) [?k..<?n])"
    moreover have "combine ?k coeff (\<lambda>j. take ?k word ! j) ?s = combine ?k coeff (\<lambda>j. word ! j) ?s" for coeff
      by (simp add: combine_def)
    ultimately show "map (\<lambda>r. combine ?k (\<lambda>j. m ! r ! j) (\<lambda>j. take ?k word ! j) ?s) [?k..<?n] ! i = drop ?k word ! i"
      using w(1) code_word_row [OF word, of "?k + i"] kn by simp
  qed (use w(1) in simp)
  ultimately show thesis
    using re that by (metis append_take_drop_id)
qed

lemma place_shards:
  assumes "\<And>i d. (i, d) \<in> set present \<Longrightarrow> unat i < unat (ec_n cfg) \<and> length d = ec_data_shard_size cfg \<and> d = word ! unat i"
    "length shards = unat (ec_n cfg)"
  shows "\<exists>shards'. fold_out (place_shard cfg) present shards = Ok shards' \<and> length shards' = unat (ec_n cfg) \<and>
    (\<forall>j < unat (ec_n cfg). shards' ! j = (if j \<in> unat ` fst ` set present then Some (word ! j) else shards ! j))"
  using assms
proof (induction present arbitrary: shards)
  case (Cons x present)
  obtain i d where x: "x = (i, d)"
    by fastforce
  then have x': "unat i < unat (ec_n cfg)" "length d = ec_data_shard_size cfg" "d = word ! unat i"
    using Cons.prems(1) [of i d] by auto
  then have "place_shard cfg x shards = Ok (shards[unat i := Some (word ! unat i)])"
    by (simp add: place_shard_def x)
  moreover obtain shards' where "fold_out (place_shard cfg) present (shards[unat i := Some (word ! unat i)]) = Ok shards'"
    "length shards' = unat (ec_n cfg)" "\<forall>j < unat (ec_n cfg). shards' ! j = (if j \<in> unat ` fst ` set present
      then Some (word ! j) else shards[unat i := Some (word ! unat i)] ! j)"
    using Cons.IH [of "shards[unat i := Some (word ! unat i)]"] Cons.prems by (metis length_list_update list.set_intros(2))
  ultimately show ?case
    using x x'(1) Cons.prems(2) by (intro exI [of _ shards']) (auto simp: nth_list_update)
qed simp

text \<open>A list of shards of a word, with at least \<open>k\<close> different indices.\<close>

definition shards_of :: "ErasureConfig \<Rightarrow> bytes list \<Rightarrow> (u32 \<times> bytes) list \<Rightarrow> bool" where
  "shards_of cfg word present \<longleftrightarrow>
     (\<forall>(i, d) \<in> set present. unat i < unat (ec_n cfg) \<and> d = word ! unat i) \<and>
     unat (ec_k cfg) \<le> card (fst ` set present)"

lemma decode_code_word:
  assumes cfg: "validate_cfg cfg = Ok ()" and cache: "cache_ok cache"
    and m: "build_encoding_matrix (unat (ec_n cfg)) (unat (ec_k cfg)) = Ok m"
      "systematic_mds (unat (ec_n cfg)) (unat (ec_k cfg)) m"
    and word: "code_word m (unat (ec_n cfg)) (unat (ec_k cfg)) (ec_data_shard_size cfg) word"
    and present: "shards_of cfg word present"
  obtains cache' where
    "decode_shards present cfg len cache = (Ok (take len (concat (take (unat (ec_k cfg)) word))), cache')" "cache_ok cache'"
proof -
  let ?k = "unat (ec_k cfg)" and ?n = "unat (ec_n cfg)" and ?s = "ec_data_shard_size cfg"
  note v = cfg [unfolded validate_cfg_Ok_iff]
  have w: "length word = ?n" "\<And>i. i < ?n \<Longrightarrow> length (word ! i) = ?s"
    using word by (simp_all add: code_word_def)
  obtain shards where shards: "fold_out (place_shard cfg) present (replicate ?n None) = Ok shards" "length shards = ?n"
    "\<And>j. j < ?n \<Longrightarrow> shards ! j = (if j \<in> unat ` fst ` set present then Some (word ! j) else None)"
  proof -
    have "unat i < ?n \<and> length d = ?s \<and> d = word ! unat i" if "(i, d) \<in> set present" for i d
      using present that w(2) by (auto simp: shards_of_def)
    then obtain shards where "fold_out (place_shard cfg) present (replicate ?n None) = Ok shards" "length shards = ?n"
      "\<forall>j < ?n. shards ! j = (if j \<in> unat ` fst ` set present then Some (word ! j) else replicate ?n None ! j)"
      using place_shards [of present cfg word "replicate ?n None"] by (metis length_replicate)
    then show thesis
      by (intro that [of shards]) simp_all
  qed
  have idx: "{i. i < length word \<and> shards ! i \<noteq> None} = unat ` fst ` set present"
  proof -
    have "unat ` fst ` set present \<subseteq> {..<?n}"
      using present by (auto simp: shards_of_def)
    moreover have "shards ! i \<noteq> None \<longleftrightarrow> i \<in> unat ` fst ` set present" if "i < ?n" for i
      using shards(3) [OF that] by simp
    ultimately show ?thesis
      unfolding w(1) by blast
  qed
  have "card (unat ` fst ` set present) = card (fst ` set present)"
    by (intro card_image inj_onI) (simp add: word_unat_eq_iff)
  then have "partial_word word ?k shards"
    unfolding partial_word_def idx using shards(2,3) w(1) present by (simp add: shards_of_def)
  then obtain cache' where re: "reconstruct_shards shards cfg cache = (Ok (map Some word), cache')" "cache_ok cache'"
    using reconstruct_code_word [OF cfg cache m word] by blast
  have "?k \<le> length present"
    using present card_image_le [of "set present" fst] card_length [of present]
    by (simp add: shards_of_def del: card_image_le)
  moreover have "mapM_out (\<lambda>i. case map Some word ! i of Some data \<Rightarrow> Ok data | None \<Rightarrow> Panic ''data shard present'')
      [0..<?k] = (Ok (take ?k word) :: (ErasureError, bytes list) outcome)"
    using w(1) v by (intro mapM_out_nth) simp_all
  ultimately have "decode_shards present cfg len cache = (Ok (take len (concat (take ?k word))), cache')"
    using cfg shards(1) re(1) by (simp add: decode_shards_def Let_def)
  then show thesis
    using that re(2) by blast
qed

section \<open>What decoding accepts\<close>

fun valid_shard :: "ErasureConfig \<Rightarrow> u32 \<times> bytes \<Rightarrow> bool" where
  "valid_shard cfg (i, d) \<longleftrightarrow> unat i < unat (ec_n cfg) \<and> length d = ec_data_shard_size cfg"

lemma place_invalid: "\<not> (\<forall>x \<in> set present. valid_shard cfg x) \<Longrightarrow>
    \<exists>e. fold_out (place_shard cfg) present shards = Err e"
  by (induction present arbitrary: shards) (auto simp: place_shard_def split: prod.splits)

lemma place_valid:
  assumes "sized cfg shards" "\<forall>x \<in> set present. valid_shard cfg x"
  shows "\<exists>shards'. fold_out (place_shard cfg) present shards = Ok shards' \<and> sized cfg shards' \<and>
    (\<forall>i < unat (ec_n cfg). shards' ! i \<noteq> None \<longleftrightarrow> shards ! i \<noteq> None \<or> i \<in> unat ` fst ` set present)"
  using assms
proof (induction present arbitrary: shards)
  case (Cons x present)
  obtain i d where x: "x = (i, d)"
    by fastforce
  let ?next = "shards[unat i := Some d]"
  have "place_shard cfg x shards = Ok ?next"
    using Cons.prems(2) by (auto simp: place_shard_def x)
  moreover have "sized cfg ?next"
    using Cons.prems by (auto simp: sized_def x nth_list_update)
  moreover from this obtain shards' where "fold_out (place_shard cfg) present ?next = Ok shards'" "sized cfg shards'"
    "\<forall>j < unat (ec_n cfg). shards' ! j \<noteq> None \<longleftrightarrow> ?next ! j \<noteq> None \<or> j \<in> unat ` fst ` set present"
    using Cons.IH [of ?next] Cons.prems(2) by auto
  moreover have "?next ! j \<noteq> None \<longleftrightarrow> shards ! j \<noteq> None \<or> j = unat i" if "j < unat (ec_n cfg)" for j
    using Cons.prems(1) that by (cases "j = unat i") (auto simp: sized_def)
  ultimately show ?case
    by (intro exI [of _ shards']) (auto simp: x)
qed simp

lemma decode_valid:
  assumes cfg: "validate_cfg cfg = Ok ()" and cache: "cache_ok cache"
    and present: "\<forall>x \<in> set present. valid_shard cfg x"
  obtains r cache' where "decode_shards present cfg len cache = (r, cache')" "cache_ok cache'" "no_panic r"
    "is_ok r \<longleftrightarrow> unat (ec_k cfg) \<le> card (fst ` set present)"
proof -
  let ?k = "unat (ec_k cfg)" and ?n = "unat (ec_n cfg)" and ?s = "ec_data_shard_size cfg"
  note v = cfg [unfolded validate_cfg_Ok_iff]
  obtain m where m: "build_encoding_matrix ?n ?k = Ok m" "systematic_mds ?n ?k m"
    using build_encoding_matrix [of ?k ?n] v by blast
  obtain shards where shards: "fold_out (place_shard cfg) present (replicate ?n None) = Ok shards" "sized cfg shards"
    "\<forall>i < ?n. shards ! i \<noteq> None \<longleftrightarrow> i \<in> unat ` fst ` set present"
    using place_valid [of cfg "replicate ?n None" present] present by (auto simp: sized_def)
  have "{i. i < ?n \<and> shards ! i \<noteq> None} = unat ` fst ` set present"
  proof -
    have "unat ` fst ` set present \<subseteq> {..<?n}"
      using present by auto
    then show ?thesis
      using shards(3) by blast
  qed
  moreover have "card (unat ` fst ` set present) = card (fst ` set present)"
    by (intro card_image inj_onI) (simp add: word_unat_eq_iff)
  ultimately have rows: "length (stored_rows ?n shards) = card (fst ` set present)"
    by (simp add: length_stored_rows)
  have "card (fst ` set present) \<le> length present"
    by (metis card_length length_map list.set_map)
  then consider "length present < ?k" | "?k \<le> length present" "card (fst ` set present) < ?k" | "?k \<le> length present"
    "?k \<le> card (fst ` set present)"
    by linarith
  then show thesis
  proof cases
    case 1
    then show thesis
      using that [of "Err (EConfig ''insufficient shards for decode'')" cache] cfg cache \<open>card (fst ` set present) \<le> length present\<close>
      by (simp add: decode_shards_def)
  next
    case 2
    then obtain cache' where "reconstruct_shards shards cfg cache = (Err (EConfig ''insufficient shards for decode''), cache')"
      "cache_ok cache'"
      using reconstruct_few [OF cfg cache _ m(1), of shards] rows shards(2) unfolding sized_def by metis
    then show thesis
      using that 2 cfg shards(1) by (simp add: decode_shards_def Let_def)
  next
    case 3
    then have enough: "?k \<le> length (stored_rows ?n shards)"
      by (simp add: rows)
    obtain ds cache' where re: "reconstruct_shards shards cfg cache = (Ok (map Some ds), cache')" "cache_ok cache'"
      "?k \<le> length ds"
      using reconstruct_Ok [OF cfg cache m shards(2) enough] by blast
    have "mapM_out (\<lambda>i. case map Some ds ! i of Some data \<Rightarrow> Ok data | None \<Rightarrow> Panic ''data shard present'')
        [0..<?k] = (Ok (take ?k ds) :: (ErasureError, bytes list) outcome)"
      using re(3) by (intro mapM_out_nth) simp_all
    then show thesis
      using that 3 cfg shards(1) re by (simp add: decode_shards_def Let_def)
  qed
qed

end
