(* ===== verification/Blob_Custody.thy ===== *)
theory Blob_Custody
  imports Reed_Solomon Consensus_Base
begin

text \<open>
  Blobs of the data layer: commitments (\<open>dag/src/erasure/commit.rs\<close>, \<open>blob/commit.rs\<close>), gossip chunks
  (\<open>blob/chunk.rs\<close>), the custody ledger (\<open>blob/custody.rs\<close>) over a chunk store, and availability
  challenges (\<open>da/challenge.rs\<close>). The chunk store of the node is a parameter: its \<open>get_chunk\<close>.
\<close>

section \<open>Commitments\<close>

definition blob_id_from_payload :: "'x crypto_lib \<Rightarrow> bytes \<Rightarrow> BlobId" where
  "blob_id_from_payload L payload = blake3_with_dst L DST_BLOB_ID payload"

definition shard_leaf_hash :: "'x crypto_lib \<Rightarrow> bytes \<Rightarrow> Hash32" where
  "shard_leaf_hash L shard = blake3_with_dst L DST_BLOB_SHARD shard"

fun merkle_layer :: "'x crypto_lib \<Rightarrow> Hash32 list \<Rightarrow> Hash32 list" where
  "merkle_layer L [] = []"
| "merkle_layer L [a] = [blake3_with_dst L DST_BLOB_MERKLE_NODE (be_bytes 32 a @ be_bytes 32 a)]"
| "merkle_layer L (a # b # hs) =
     blake3_with_dst L DST_BLOB_MERKLE_NODE (be_bytes 32 a @ be_bytes 32 b) # merkle_layer L hs"

lemma length_merkle_layer: "length (merkle_layer L hs) = (length hs + 1) div 2"
  by (induction L hs rule: merkle_layer.induct) auto

function merkle_loop :: "'x crypto_lib \<Rightarrow> Hash32 list \<Rightarrow> Hash32" where
  "merkle_loop L layer = (if 1 < length layer then merkle_loop L (merkle_layer L layer) else layer ! 0)"
  by pat_completeness auto
termination merkle_loop
  by (relation "measure (\<lambda>(L, layer). length layer)") (auto simp: length_merkle_layer)

declare merkle_loop.simps [simp del]

definition binary_merkle_root :: "'x crypto_lib \<Rightarrow> Hash32 list \<Rightarrow> ('e, Hash32) outcome" where
  "binary_merkle_root L leaves =
     (if leaves = [] then Panic ''merkle tree needs leaves'' else Ok (merkle_loop L leaves))"

definition rs_merkle_commitment :: "'x crypto_lib \<Rightarrow> bytes list \<Rightarrow> ('e, Hash32) outcome" where
  "rs_merkle_commitment L shards =
     bind_out (binary_merkle_root L (map (shard_leaf_hash L) shards)) (\<lambda>root.
       Ok (blake3_with_dst L DST_BLOB_RS_ROOT (be_bytes 32 root)))"

section \<open>Gossip chunks\<close>

datatype ChunkPayload = ErasureChunk (ch_index: u32) (ch_n_shards: u32) (ch_data: bytes)

record BlobChunk =
  bc_blob_id :: BlobId
  bc_size_bytes :: u64
  bc_payload :: ChunkPayload

definition chunk_index :: "BlobChunk \<Rightarrow> u32" where
  "chunk_index c = ch_index (bc_payload c)"

definition chunk_unit_count :: "BlobChunk \<Rightarrow> u32" where
  "chunk_unit_count c = ch_n_shards (bc_payload c)"

definition chunk_data :: "BlobChunk \<Rightarrow> bytes" where
  "chunk_data c = ch_data (bc_payload c)"

definition erasure_chunks :: "BlobId \<Rightarrow> u64 \<Rightarrow> bytes list \<Rightarrow> ('e, BlobChunk list) outcome" where
  "erasure_chunks blob_id size_bytes shards =
     (if 2 ^ 32 \<le> length shards then Panic ''shard count fits u32''
      else Ok (map (\<lambda>(i, data). \<lparr> bc_blob_id = blob_id, bc_size_bytes = size_bytes,
        bc_payload = ErasureChunk (of_nat i) (of_nat (length shards)) data \<rparr>) (enumerate 0 shards)))"

section \<open>Custody ledger\<close>

datatype StoreError = StoreOther string

record BlobMeta =
  bm_size_bytes :: u64
  bm_cfg :: ErasureConfig
  bm_received :: "u32 set"

record CustodyLedger =
  cl_meta :: "BlobId \<rightharpoonup> BlobMeta"
  cl_available :: "BlobId set"

definition custody_default :: CustodyLedger where
  "custody_default = \<lparr> cl_meta = Map.empty, cl_available = {} \<rparr>"

definition register_erasure :: "BlobId \<Rightarrow> ErasureConfig \<Rightarrow> u32 \<Rightarrow> u64 \<Rightarrow> CustodyLedger \<Rightarrow> CustodyLedger" where
  "register_erasure blob_id cfg n_shards size_bytes led =
     led\<lparr>cl_meta := (cl_meta led)(blob_id \<mapsto> (case cl_meta led blob_id of
         Some m \<Rightarrow> m\<lparr>bm_size_bytes := size_bytes, bm_cfg := cfg\<rparr>
       | None \<Rightarrow> \<lparr> bm_size_bytes = size_bytes, bm_cfg = cfg, bm_received = {} \<rparr>))\<rparr>"

type_synonym get_chunk = "BlobId \<Rightarrow> u32 \<Rightarrow> (StoreError, bytes option) outcome"

text \<open>
  The received indices are a \<open>HashSet\<close>, whose iteration order is unspecified; the model visits them in
  increasing order, and \<open>decode_shards\<close> does not depend on the order of distinct indices.
\<close>

fun gather_chunks :: "get_chunk \<Rightarrow> BlobId \<Rightarrow> u32 list \<Rightarrow> (StoreError, (u32 \<times> bytes) list) outcome" where
  "gather_chunks get blob_id [] = Ok []"
| "gather_chunks get blob_id (i # is) = (case get blob_id i of
      Panic m \<Rightarrow> Panic m
    | Ok (Some data) \<Rightarrow> bind_out (gather_chunks get blob_id is) (\<lambda>rest. Ok ((i, data) # rest))
    | _ \<Rightarrow> gather_chunks get blob_id is)"

definition erasure_available :: "BlobId \<Rightarrow> BlobMeta \<Rightarrow> get_chunk \<Rightarrow> matrix_cache \<Rightarrow>
    (StoreError, bool) outcome \<times> matrix_cache" where
  "erasure_available blob_id meta get cache = (let cfg = bm_cfg meta; k = unat (ec_k cfg) in
     if card (bm_received meta) < k then (Ok False, cache)
     else call (gather_chunks get blob_id (sorted_list_of_set (bm_received meta))) cache (\<lambda>present.
       if length present < k then (Ok False, cache)
       else case decode_shards present cfg (unat (bm_size_bytes meta)) cache of
         (Ok _, cache) \<Rightarrow> (Ok True, cache)
       | (Err _, cache) \<Rightarrow> (Ok False, cache)
       | (Panic m, cache) \<Rightarrow> (Panic m, cache)))"

definition note_chunk :: "BlobId \<Rightarrow> u32 \<Rightarrow> get_chunk \<Rightarrow> CustodyLedger \<times> matrix_cache \<Rightarrow>
    (StoreError, bool) outcome \<times> CustodyLedger \<times> matrix_cache" where
  "note_chunk blob_id index get = (\<lambda>(led, cache).
     if blob_id \<in> cl_available led then (Ok False, led, cache)
     else case cl_meta led blob_id of
       None \<Rightarrow> (Ok False, led, cache)
     | Some m \<Rightarrow> let
         m = m\<lparr>bm_received := insert index (bm_received m)\<rparr>;
         led = led\<lparr>cl_meta := (cl_meta led)(blob_id \<mapsto> m)\<rparr>
       in (case erasure_available blob_id m get cache of
             (Ok True, cache) \<Rightarrow> (Ok True, led\<lparr>cl_available := insert blob_id (cl_available led)\<rparr>, cache)
           | (r, cache) \<Rightarrow> (r, led, cache)))"

definition note_chunk_present :: "BlobId \<Rightarrow> u32 \<Rightarrow> CustodyLedger \<Rightarrow> bool \<times> CustodyLedger" where
  "note_chunk_present blob_id index led =
     (if blob_id \<in> cl_available led then (False, led)
      else case cl_meta led blob_id of
        None \<Rightarrow> (False, led)
      | Some m \<Rightarrow> let
          m = m\<lparr>bm_received := insert index (bm_received m)\<rparr>;
          led = led\<lparr>cl_meta := (cl_meta led)(blob_id \<mapsto> m)\<rparr>
        in if unat (ec_k (bm_cfg m)) \<le> card (bm_received m)
           then (True, led\<lparr>cl_available := insert blob_id (cl_available led)\<rparr>)
           else (False, led))"

definition is_available :: "BlobId \<Rightarrow> CustodyLedger \<Rightarrow> bool" where
  "is_available blob_id led \<longleftrightarrow> blob_id \<in> cl_available led"

section \<open>Availability challenges\<close>

record AvailabilityChallenge =
  ac_blob_id :: BlobId
  ac_shard_indices :: "u32 list"
  ac_challenger :: ValidatorId

record AvailabilityResponse =
  ar_blob_id :: BlobId
  ar_shards :: "(u32 \<times> bytes) list"

datatype ChallengeError = Mismatch string | CommitmentFailed string

fun erasure_error_display :: "ErasureError \<Rightarrow> string" where
  "erasure_error_display (EConfig m) = ''invalid erasure config: '' @ m"
| "erasure_error_display (ECodec m) = ''erasure codec error: '' @ m"

fun check_shards :: "bytes list \<Rightarrow> (u32 \<times> bytes) list \<Rightarrow> (ChallengeError, unit) outcome" where
  "check_shards full [] = Ok ()"
| "check_shards full ((index, data) # rest) =
     (if length full \<le> unat index then Panic ''index out of bounds''
      else if full ! unat index \<noteq> data then Err (CommitmentFailed (''tampered shard at index '' @ dec_digits (unat index)))
      else check_shards full rest)"

definition verify_availability_response :: "'x crypto_lib \<Rightarrow> AvailabilityChallenge \<Rightarrow>
    AvailabilityResponse \<Rightarrow> Hash32 \<Rightarrow> BlobRef \<Rightarrow> ErasureConfig \<Rightarrow> matrix_cache \<Rightarrow>
    (ChallengeError, unit) outcome \<times> matrix_cache" where
  "verify_availability_response L challenge response expected_commitment blob_ref cfg cache =
     (if ar_blob_id response \<noteq> ac_blob_id challenge then (Err (Mismatch ''blob_id''), cache)
      else if sort (map fst (ar_shards response)) \<noteq> sort (ac_shard_indices challenge)
      then (Err (Mismatch ''shard_indices''), cache)
      else if length (ar_shards response) < unat (ec_k cfg) then (Ok (), cache)
      else bind_st (map_prod (map_err (CommitmentFailed \<circ> erasure_error_display)) id
          (decode_shards (ar_shards response) cfg (unat (br_size_bytes blob_ref)) cache)) (\<lambda>decoded cache.
        bind_st (map_prod (map_err (CommitmentFailed \<circ> erasure_error_display)) id
          (encode_shards decoded cfg cache)) (\<lambda>full_shards cache.
        call (rs_merkle_commitment L full_shards) cache (\<lambda>recomputed.
        if recomputed \<noteq> expected_commitment
        then (Err (CommitmentFailed ''recomputed merkle root mismatch''), cache)
        else (check_shards full_shards (ar_shards response), cache)))))"

end
