(* ===== verification/Erasure_Properties.thy ===== *)
theory Erasure_Properties
  imports Rs_Codec Blob_Custody Sample_Committee
begin

text \<open>
  The theorems about the data layer: field arithmetic, the Reed--Solomon codec, custody of blob shards
  and availability challenges.
\<close>

section \<open>Field arithmetic\<close>

lemma gf_pow_funpow: "gf_of ((gf_mul a ^^ n) 1) = gf_of a ^ n"
  by (induction n) simp_all

text \<open>
  C35: Multiplication through the exponent and logarithm tables is multiplication of polynomials over
  GF(2) modulo \<open>0x11D\<close>; \<open>inv\<close> inverts it on nonzero bytes, \<open>pow\<close> iterates it, and the slice operations
  agree with the byte operations, their shortcuts for the factors 0 and 1 included.
\<close>

theorem gf256_arithmetic:
  "gf_mul a b = poly_mul 8 a b \<and> gf_mul a (gf_inv a) = (if a = 0 then 0 else 1) \<and>
   gf_pow a n = (gf_mul a ^^ unat n) 1 \<and>
   (length input = length out \<longrightarrow> mul_slice a input out = (Ok (map (gf_mul a) input) :: (ErasureError, bytes) outcome) \<and>
     mul_slice_add a input out =
       (Ok (map2 (\<lambda>dst src. gf_add dst (gf_mul a src)) out input) :: (ErasureError, bytes) outcome))"
proof (intro conjI impI)
  show "gf_mul a b = poly_mul 8 a b"
    using gf_mul_take_bit [of 8 a b] by (simp add: take_bit_word_eq_self)
  show "gf_mul a (gf_inv a) = (if a = 0 then 0 else 1)"
    by (simp add: gf_mul_inv)
  show "gf_pow a n = (gf_mul a ^^ unat n) 1"
    by (simp add: gf_pow_power gf_pow_funpow flip: gf_of_inject)
  assume len: "length input = length out"
  then show "mul_slice a input out = (Ok (map (gf_mul a) input) :: (ErasureError, bytes) outcome)"
    by (rule mul_slice_Ok)
  have "byte_of (gf_of dst + gf_of a * gf_of src) = gf_add dst (gf_mul a src)" for dst src
    by (simp flip: gf_of_simps)
  then show "mul_slice_add a input out =
      (Ok (map2 (\<lambda>dst src. gf_add dst (gf_mul a src)) out input) :: (ErasureError, bytes) outcome)"
    using mul_slice_add_Ok [OF len, of a] by simp
qed

theorem gf256_arithmetic_witness:
  "mul_slice 3 [1, 0, 255] [0, 0, 0] = (Ok (map (gf_mul 3) [1, 0, 255]) :: (ErasureError, bytes) outcome)"
  using gf256_arithmetic [of 3 0 0 "[1, 0, 255]" "[0, 0, 0]"] by simp

section \<open>The codec\<close>

lemma encode_decode:
  assumes "validate_cfg cfg = Ok ()" "length payload \<le> padded_len cfg" "cache_ok cache"
  shows "\<exists>shards cache'. encode_shards payload cfg cache = (Ok shards, cache') \<and> cache_ok cache' \<and>
    length shards = unat (ec_n cfg) \<and> (\<forall>shard \<in> set shards. length shard = ec_data_shard_size cfg) \<and>
    (\<forall>present cache2. shards_of cfg shards present \<and> cache_ok cache2 \<longrightarrow>
      fst (decode_shards present cfg (length payload) cache2) = Ok payload)"
proof -
  let ?k = "unat (ec_k cfg)" and ?n = "unat (ec_n cfg)"
  obtain m where m: "build_encoding_matrix ?n ?k = Ok m" "systematic_mds ?n ?k m"
    using build_encoding_matrix [of ?k ?n] assms(1) [unfolded validate_cfg_Ok_iff] by blast
  obtain shards cache' where enc: "encode_shards payload cfg cache = (Ok shards, cache')" "cache_ok cache'"
    and word: "code_word m ?n ?k (ec_data_shard_size cfg) shards"
    and data: "concat (take ?k shards) = pad_to_k_shards payload cfg"
    by (rule encode_shards_code_word [OF assms m])
  have "fst (decode_shards present cfg (length payload) cache2) = Ok payload"
    if "shards_of cfg shards present" "cache_ok cache2" for present cache2
    by (rule decode_code_word [OF assms(1) that(2) m word that(1), of "length payload"])
      (simp add: data pad_to_k_shards_def)
  then show ?thesis
    using enc word unfolding code_word_def by blast
qed

text \<open>
  C11: Reed--Solomon round trip. For every valid configuration and every payload that fits it, encoding
  succeeds with \<open>n\<close> shards, and decoding any list of these shards with at least \<open>k\<close> different indices, in
  any order and with repetitions, returns the payload, whatever the caches of encoding matrices hold.
\<close>

theorem rs_round_trip:
  assumes "validate_cfg cfg = Ok ()" "length payload \<le> padded_len cfg" "cache_ok cache"
  shows "\<exists>shards cache'. encode_shards payload cfg cache = (Ok shards, cache') \<and> cache_ok cache' \<and>
    length shards = unat (ec_n cfg) \<and> (\<forall>shard \<in> set shards. length shard = ec_data_shard_size cfg) \<and>
    (\<forall>present cache2. shards_of cfg shards present \<and> cache_ok cache2 \<longrightarrow>
      fst (decode_shards present cfg (length payload) cache2) = Ok payload)"
  using encode_decode [OF assms] .

definition sample_cfg :: ErasureConfig where
  "sample_cfg = \<lparr> ec_k = 2, ec_n = 4, ec_data_shard_size = 2 \<rparr>"

lemma sample_cfg_valid: "validate_cfg sample_cfg = Ok ()"
  by (simp add: sample_cfg_def validate_cfg_def MAX_SHARDS_def)

theorem rs_round_trip_witness:
  "\<exists>shards. fst (encode_shards [1, 2, 3] sample_cfg Map.empty) = Ok shards \<and>
    fst (decode_shards [(3, shards ! 3), (2, shards ! 2), (3, shards ! 3)] sample_cfg 3 Map.empty) = Ok [1, 2, 3]"
proof -
  have "length [1, 2, 3 :: u8] \<le> padded_len sample_cfg"
    by (simp add: padded_len_def sample_cfg_def)
  from rs_round_trip [OF sample_cfg_valid this cache_ok_empty] obtain shards cache' where
    enc: "encode_shards [1, 2, 3] sample_cfg Map.empty = (Ok shards, cache')"
    and dec: "\<And>present cache2. shards_of sample_cfg shards present \<and> cache_ok cache2 \<Longrightarrow>
      fst (decode_shards present sample_cfg 3 cache2) = Ok [1, 2, 3]"
    by (auto simp: numeral_3_eq_3)
  have "shards_of sample_cfg shards [(3, shards ! 3), (2, shards ! 2), (3, shards ! 3)]"
    by (simp add: shards_of_def sample_cfg_def card_insert_if)
  then show ?thesis
    using enc dec cache_ok_empty by auto
qed

lemma decode_total:
  assumes "cache_ok cache"
  shows "no_panic (fst (decode_shards present cfg len cache)) \<and> cache_ok (snd (decode_shards present cfg len cache)) \<and>
    (is_ok (fst (decode_shards present cfg len cache)) \<longleftrightarrow>
      validate_cfg cfg = Ok () \<and> (\<forall>x \<in> set present. valid_shard cfg x) \<and>
      unat (ec_k cfg) \<le> card (fst ` set present))"
proof (cases "validate_cfg cfg = Ok () \<and> (\<forall>x \<in> set present. valid_shard cfg x)")
  case True
  then show ?thesis
    using decode_valid [OF _ assms, of cfg present len] by (metis fst_conv snd_conv)
next
  case False
  have "no_panic (validate_cfg cfg)"
    by (simp add: validate_cfg_def)
  with False show ?thesis
    using assms place_invalid [of present cfg "replicate (unat (ec_n cfg)) None"]
    by (cases "validate_cfg cfg") (auto simp: decode_shards_def Let_def)
qed

section \<open>Custody\<close>

lemma gather_chunks_Ok:
  assumes "\<And>i. no_panic (get blob i)"
  obtains ps where "gather_chunks get blob is = Ok ps"
    "set ps = {(i, d). i \<in> set is \<and> get blob i = Ok (Some d)}" "length ps \<le> length is"
proof -
  have "\<exists>ps. gather_chunks get blob is = Ok ps \<and>
      set ps = {(i, d). i \<in> set is \<and> get blob i = Ok (Some d)} \<and> length ps \<le> length is"
  proof (induction "is")
    case (Cons i "is")
    then obtain ps where ps: "gather_chunks get blob is = Ok ps"
      "set ps = {(i, d). i \<in> set is \<and> get blob i = Ok (Some d)}" "length ps \<le> length is"
      by blast
    show ?case
    proof (cases "\<exists>d. get blob i = Ok (Some d)")
      case True
      then obtain d where "get blob i = Ok (Some d)"
        by blast
      then show ?thesis
        using ps by (intro exI [of _ "(i, d) # ps"]) auto
    next
      case False
      then have "gather_chunks get blob (i # is) = gather_chunks get blob is"
        using assms [of i] by (auto split: outcome.splits option.splits)
      then show ?thesis
        using ps False by (intro exI [of _ ps]) auto
    qed
  qed simp
  then show thesis
    using that by blast
qed

text \<open>The received shards of a blob that the store can read.\<close>

definition readable :: "get_chunk \<Rightarrow> BlobId \<Rightarrow> u32 set \<Rightarrow> u32 set" where
  "readable get blob received = {i \<in> received. \<exists>d. get blob i = Ok (Some d)}"

lemma erasure_available_iff:
  assumes "cache_ok cache" "finite (bm_received m)" "\<And>i. no_panic (get blob i)"
  obtains r cache' where "erasure_available blob m get cache = (Ok r, cache')" "cache_ok cache'"
    "r \<longleftrightarrow> validate_cfg (bm_cfg m) = Ok () \<and> unat (ec_k (bm_cfg m)) \<le> card (readable get blob (bm_received m)) \<and>
      (\<forall>i d. i \<in> bm_received m \<and> get blob i = Ok (Some d) \<longrightarrow> valid_shard (bm_cfg m) (i, d))"
proof -
  let ?R = "bm_received m" and ?cfg = "bm_cfg m"
  have all: "set (sorted_list_of_set ?R) = ?R"
    using assms(2) by simp
  obtain ps where ps: "gather_chunks get blob (sorted_list_of_set ?R) = Ok ps"
    "set ps = {(i, d). i \<in> ?R \<and> get blob i = Ok (Some d)}"
    by (rule gather_chunks_Ok [of get blob "sorted_list_of_set ?R", unfolded all, OF assms(3)])
  have idx: "fst ` set ps = readable get blob ?R"
    unfolding ps(2) readable_def by force
  have le: "card (readable get blob ?R) \<le> card ?R" "card (readable get blob ?R) \<le> length ps"
    using assms(2) card_mono [of ?R "readable get blob ?R"] card_length [of "map fst ps"] idx
    by (auto simp: readable_def)
  obtain d cache' where dec: "decode_shards ps ?cfg (unat (bm_size_bytes m)) cache = (d, cache')" "cache_ok cache'" "no_panic d"
    "is_ok d \<longleftrightarrow> validate_cfg ?cfg = Ok () \<and> (\<forall>x \<in> set ps. valid_shard ?cfg x) \<and> unat (ec_k ?cfg) \<le> card (readable get blob ?R)"
    using decode_total [OF assms(1), of ps ?cfg "unat (bm_size_bytes m)"] idx by (metis prod.collapse)
  have valid: "(\<forall>x \<in> set ps. valid_shard ?cfg x) \<longleftrightarrow>
      (\<forall>i d. i \<in> ?R \<and> get blob i = Ok (Some d) \<longrightarrow> valid_shard ?cfg (i, d))"
    unfolding ps(2) by blast
  show thesis
    using that dec le ps(1) assms(1) unfolding valid
    by (cases d; cases "card ?R < unat (ec_k ?cfg)"; cases "length ps < unat (ec_k ?cfg)")
      (auto simp: erasure_available_def Let_def)
qed

text \<open>
  C36: A blob becomes locally available exactly when the shards received so far that the store can read
  include \<open>k\<close> different ones and every one of them is well formed; noting a shard never panics and reports
  the transition exactly when it happens. A single stored shard with an index beyond \<open>n\<close> or of another
  length, which ingestion from gossip does not reject, keeps the blob unavailable.
\<close>

theorem custody_availability:
  assumes "cache_ok cache" "blob \<notin> cl_available led" "cl_meta led blob = Some m" "finite (bm_received m)"
    "\<And>i. no_panic (get blob i)"
  shows "\<exists>r led' cache'. note_chunk blob index get (led, cache) = (Ok r, led', cache') \<and> cache_ok cache' \<and>
    (is_available blob led' \<longleftrightarrow> r) \<and> (\<forall>b. b \<noteq> blob \<longrightarrow> (is_available b led' \<longleftrightarrow> is_available b led)) \<and>
    (r \<longleftrightarrow> validate_cfg (bm_cfg m) = Ok () \<and>
      unat (ec_k (bm_cfg m)) \<le> card (readable get blob (insert index (bm_received m))) \<and>
      (\<forall>i d. i \<in> insert index (bm_received m) \<and> get blob i = Ok (Some d) \<longrightarrow> valid_shard (bm_cfg m) (i, d)))"
proof -
  let ?m = "m\<lparr>bm_received := insert index (bm_received m)\<rparr>"
  have "finite (bm_received ?m)"
    using assms(4) by simp
  from erasure_available_iff [OF assms(1) this, of get blob, OF assms(5)]
  obtain r cache' where *: "erasure_available blob ?m get cache = (Ok r, cache')" "cache_ok cache'"
    "r \<longleftrightarrow> validate_cfg (bm_cfg ?m) = Ok () \<and> unat (ec_k (bm_cfg ?m)) \<le> card (readable get blob (bm_received ?m)) \<and>
      (\<forall>i d. i \<in> bm_received ?m \<and> get blob i = Ok (Some d) \<longrightarrow> valid_shard (bm_cfg ?m) (i, d))"
    by blast
  obtain led' where led': "note_chunk blob index get (led, cache) = (Ok r, led', cache')"
    "cl_available led' = (if r then insert blob (cl_available led) else cl_available led)"
    using *(1) assms(2,3) by (cases r) (simp_all add: note_chunk_def Let_def)
  then have "(is_available blob led' \<longleftrightarrow> r) \<and> (\<forall>b. b \<noteq> blob \<longrightarrow> (is_available b led' \<longleftrightarrow> is_available b led))"
    using assms(2) by (simp add: is_available_def)
  moreover have m: "bm_cfg ?m = bm_cfg m" "bm_received ?m = insert index (bm_received m)"
    by simp_all
  ultimately show ?thesis
    using led'(1) *(2) *(3) [unfolded m] by blast
qed

text \<open>Three shards of a blob received, the third with an index beyond the configured four.\<close>

definition sample_get :: get_chunk where
  "sample_get blob i = Ok (if i = 0 \<or> i = 1 \<or> i = 7 then Some [1, 2] else None)"

definition sample_ledger :: "u32 set \<Rightarrow> CustodyLedger" where
  "sample_ledger received = \<lparr> cl_meta = [5 \<mapsto> \<lparr> bm_size_bytes = 3, bm_cfg = sample_cfg, bm_received = received \<rparr>],
     cl_available = {} \<rparr>"

theorem custody_availability_witness:
  "(\<exists>led' cache'. note_chunk 5 1 sample_get (sample_ledger {0}, Map.empty) = (Ok True, led', cache')) \<and>
   (\<exists>led' cache'. note_chunk 5 1 sample_get (sample_ledger {0, 7}, Map.empty) = (Ok False, led', cache'))"
proof -
  have get: "\<And>i. no_panic (sample_get 5 i)"
    by (simp add: sample_get_def)
  have "readable sample_get 5 {1, 0} = {1, 0}"
    by (auto simp: readable_def sample_get_def)
  then have good: "card (readable sample_get 5 {1, 0}) = 2"
    by simp
  have "sample_get 5 7 = Ok (Some [1, 2])"
    by (simp add: sample_get_def)
  let ?m = "\<lambda>received. \<lparr> bm_size_bytes = 3, bm_cfg = sample_cfg, bm_received = received \<rparr>"
  have led: "5 \<notin> cl_available (sample_ledger received)" "cl_meta (sample_ledger received) 5 = Some (?m received)" for received
    by (simp_all add: sample_ledger_def)
  have valid: "valid_shard sample_cfg (i, d)" if "i = 1 \<or> i = 0" "sample_get 5 i = Ok (Some d)" for i d
    using that by (auto simp: sample_get_def sample_cfg_def)
  have "(\<exists>led' cache'. note_chunk 5 1 sample_get (sample_ledger {0}, Map.empty) = (Ok True, led', cache'))"
    using custody_availability [of Map.empty 5 "sample_ledger {0}" "?m {0}" sample_get 1, OF cache_ok_empty led _ get] good valid sample_cfg_valid
    by (auto simp: sample_cfg_def)
  moreover have "(\<exists>led' cache'. note_chunk 5 1 sample_get (sample_ledger {0, 7}, Map.empty) = (Ok False, led', cache'))"
    using custody_availability [of Map.empty 5 "sample_ledger {0, 7}" "?m {0, 7}" sample_get 1, OF cache_ok_empty led _ get] \<open>sample_get 5 7 = Ok (Some [1, 2])\<close>
    by (auto simp: sample_cfg_def dest: spec [of _ 7])
  ultimately show ?thesis
    by blast
qed

section \<open>Availability challenges\<close>

lemma check_shards_Ok: "check_shards full ps = Ok () \<longleftrightarrow>
    (\<forall>(i, d) \<in> set ps. unat i < length full \<and> full ! unat i = d)"
  by (induction full ps rule: check_shards.induct) auto

lemma sort_eq_iff_mset: "sort xs = sort ys \<longleftrightarrow> mset xs = mset ys"
  by (metis mset_sort properties_for_sort sorted_sort)

lemma map_prod_err_Ok: "map_prod (map_err f) id x = (Ok a, s) \<longleftrightarrow> x = (Ok a, s)"
  by (cases x) (auto simp: map_err_Ok_iff)

lemma encode_any_cache:
  assumes "cache_ok c" "cache_ok c'"
  shows "fst (encode_shards payload cfg c) = fst (encode_shards payload cfg c')"
proof -
  have "fst (cached_encoding_matrix cfg c) = fst (cached_encoding_matrix cfg c')"
    using cached_matrix(1) assms by simp
  then show ?thesis
    by (cases "cached_encoding_matrix cfg c"; cases "cached_encoding_matrix cfg c'"; cases "validate_cfg cfg";
        cases "fst (cached_encoding_matrix cfg c)")
      (auto simp: encode_shards_def Let_def call_def split: outcome.splits)
qed

lemma encode_Ok_needs: "fst (encode_shards payload cfg c) = Ok full \<Longrightarrow>
    validate_cfg cfg = Ok () \<and> length payload \<le> padded_len cfg"
  by (cases "validate_cfg cfg") (auto simp: encode_shards_def split: if_splits)

definition asked :: "AvailabilityChallenge \<Rightarrow> AvailabilityResponse \<Rightarrow> bool" where
  "asked challenge response \<longleftrightarrow> ar_blob_id response = ac_blob_id challenge \<and>
     mset (map fst (ar_shards response)) = mset (ac_shard_indices challenge)"

lemma accepted_response:
  assumes "fst (verify_availability_response L challenge response com blob_ref cfg cache) = Ok ()" "cache_ok cache"
  shows "asked challenge response \<and> (unat (ec_k cfg) \<le> length (ar_shards response) \<longrightarrow>
    (\<exists>payload full. fst (encode_shards payload cfg Map.empty) = Ok full \<and>
      rs_merkle_commitment L full = (Ok com :: (ChallengeError, Hash32) outcome) \<and>
      (\<forall>(i, d) \<in> set (ar_shards response). unat i < length full \<and> d = full ! unat i)))"
proof -
  let ?len = "unat (br_size_bytes blob_ref)"
  obtain cache' where v: "verify_availability_response L challenge response com blob_ref cfg cache = (Ok (), cache')"
    using assms(1) by (metis prod.collapse)
  then have "asked challenge response"
    by (auto simp: verify_availability_response_def asked_def sort_eq_iff_mset split: if_splits)
  moreover have "\<exists>payload full. fst (encode_shards payload cfg Map.empty) = Ok full \<and>
      rs_merkle_commitment L full = (Ok com :: (ChallengeError, Hash32) outcome) \<and> check_shards full (ar_shards response) = Ok ()"
    if enough: "unat (ec_k cfg) \<le> length (ar_shards response)"
  proof -
    obtain payload full c1 c2 where d: "decode_shards (ar_shards response) cfg ?len cache = (Ok payload, c1)"
        and e: "encode_shards payload cfg c1 = (Ok full, c2)"
        and r: "rs_merkle_commitment L full = (Ok com :: (ChallengeError, Hash32) outcome)" "check_shards full (ar_shards response) = Ok ()"
      using v enough
      by (auto simp: verify_availability_response_def bind_st_Ok_iff call_Ok_iff map_prod_err_Ok split: if_splits)
    have "cache_ok c1"
      using decode_total [OF assms(2), of "ar_shards response" cfg ?len] d by simp
    then have "fst (encode_shards payload cfg Map.empty) = Ok full"
      using encode_any_cache [OF cache_ok_empty, of c1 payload cfg] e by simp
    with r show ?thesis
      by blast
  qed
  ultimately show ?thesis
    unfolding check_shards_Ok by fastforce
qed

lemma honest_response:
  assumes "asked challenge response" "fst (encode_shards payload cfg c) = Ok full" "cache_ok c" "cache_ok cache"
    "length payload = unat (br_size_bytes blob_ref)"
    "rs_merkle_commitment L full = (Ok com :: (ChallengeError, Hash32) outcome)"
    "shards_of cfg full (ar_shards response)"
  shows "fst (verify_availability_response L challenge response com blob_ref cfg cache) = Ok ()"
proof -
  obtain shards c' where "encode_shards payload cfg c = (Ok shards, c')" "length shards = unat (ec_n cfg)"
    and dec: "\<And>present c. shards_of cfg shards present \<Longrightarrow> cache_ok c \<Longrightarrow>
      fst (decode_shards present cfg (length payload) c) = Ok payload"
    using encode_decode [of cfg payload c] encode_Ok_needs [OF assms(2)] assms(3) by blast
  then have full: "shards = full" "length full = unat (ec_n cfg)"
    using assms(2) by simp_all
  obtain c1 where d: "decode_shards (ar_shards response) cfg (unat (br_size_bytes blob_ref)) cache = (Ok payload, c1)" "cache_ok c1"
    using dec [of "ar_shards response" cache] full assms(4,5,7)
      decode_total [OF assms(4), of "ar_shards response" cfg "unat (br_size_bytes blob_ref)"] by (metis prod.collapse)
  obtain c2 where e: "encode_shards payload cfg c1 = (Ok full, c2)"
    using encode_any_cache [OF d(2) assms(3), of payload cfg] assms(2) by (metis prod.collapse)
  have "check_shards full (ar_shards response) = Ok ()"
    using assms(7) full(2) by (auto simp: check_shards_Ok shards_of_def)
  then show ?thesis
    using assms(1,6) d(1) e by (simp add: verify_availability_response_def asked_def sort_eq_iff_mset)
qed

text \<open>
  C37: Availability challenges. A response that is accepted answers exactly the challenged indices, and when
  it carries at least \<open>k\<close> shards, each of them is the shard of its index in what the encoder makes of one
  payload, and the commitment to that encoding is the expected one. An honest response with \<open>k\<close> different
  shards of an encoded payload is accepted. A response with fewer than \<open>k\<close> shards is accepted without
  looking at a byte of it. The matrix cache may hold any matrices the encoder has put there.
\<close>

theorem availability_challenge:
  assumes "cache_ok cache"
  shows "(fst (verify_availability_response L challenge response com blob_ref cfg cache) = Ok () \<longrightarrow>
      asked challenge response \<and> (unat (ec_k cfg) \<le> length (ar_shards response) \<longrightarrow>
        (\<exists>payload full. fst (encode_shards payload cfg Map.empty) = Ok full \<and>
          rs_merkle_commitment L full = (Ok com :: (ChallengeError, Hash32) outcome) \<and>
          (\<forall>(i, d) \<in> set (ar_shards response). unat i < length full \<and> d = full ! unat i)))) \<and>
    (asked challenge response \<and> fst (encode_shards payload cfg c) = Ok full \<and> cache_ok c \<and>
      length payload = unat (br_size_bytes blob_ref) \<and>
      rs_merkle_commitment L full = (Ok com :: (ChallengeError, Hash32) outcome) \<and>
      shards_of cfg full (ar_shards response) \<longrightarrow>
      fst (verify_availability_response L challenge response com blob_ref cfg cache) = Ok ()) \<and>
    (asked challenge response \<and> length (ar_shards response) < unat (ec_k cfg) \<longrightarrow>
      fst (verify_availability_response L challenge response com blob_ref cfg cache) = Ok ())"
proof (intro conjI)
  show "asked challenge response \<and> length (ar_shards response) < unat (ec_k cfg) \<longrightarrow>
      fst (verify_availability_response L challenge response com blob_ref cfg cache) = Ok ()"
    by (simp add: verify_availability_response_def asked_def sort_eq_iff_mset)
qed (use accepted_response [of L challenge response com blob_ref cfg cache]
    honest_response [of challenge response payload cfg c full cache blob_ref L com] assms in blast)+

text \<open>
  Shards 3 and 1 of an encoded payload are accepted, and are shards of one payload by the theorem; one forged
  shard is accepted too.
\<close>

definition two_asked :: AvailabilityChallenge where
  "two_asked = \<lparr> ac_blob_id = 5, ac_shard_indices = [1, 3], ac_challenger = 3 \<rparr>"

definition challenge_ref :: BlobRef where
  "challenge_ref = \<lparr> br_blob_id = 5, br_commitment = 0, br_size_bytes = 3 \<rparr>"

theorem availability_challenge_witness:
  "(\<exists>full com response. length (ar_shards response) = 2 \<and>
      fst (verify_availability_response sample_lib two_asked response com challenge_ref sample_cfg Map.empty) = Ok () \<and>
      rs_merkle_commitment sample_lib full = (Ok com :: (ChallengeError, Hash32) outcome) \<and>
      (\<forall>(i, d) \<in> set (ar_shards response). unat i < length full \<and> d = full ! unat i)) \<and>
    fst (verify_availability_response sample_lib (two_asked\<lparr>ac_shard_indices := [1]\<rparr>)
      \<lparr> ar_blob_id = 5, ar_shards = [(1, [9, 9])] \<rparr> 0 challenge_ref sample_cfg Map.empty) = Ok ()"
proof
  have "length [1, 2, 3 :: u8] \<le> padded_len sample_cfg"
    by (simp add: padded_len_def sample_cfg_def)
  from encode_decode [OF sample_cfg_valid this cache_ok_empty] obtain full cache' where
    full: "encode_shards [1, 2, 3] sample_cfg Map.empty = (Ok full, cache')" "length full = 4"
    by (auto simp: sample_cfg_def)
  obtain a b c d where abcd: "full = [a, b, c, d]"
    using full(2) by (auto simp: numeral_eq_Suc length_Suc_conv)
  obtain com where com: "rs_merkle_commitment sample_lib full = (Ok com :: (ChallengeError, Hash32) outcome)"
    by (simp add: rs_merkle_commitment_def binary_merkle_root_def abcd)
  let ?response = "\<lparr> ar_blob_id = 5, ar_shards = [(3, full ! 3), (1, full ! 1)] \<rparr>"
  have "asked two_asked ?response" "shards_of sample_cfg full (ar_shards ?response)" "length [1, 2, 3 :: u8] = unat (br_size_bytes challenge_ref)"
    by (simp_all add: asked_def two_asked_def shards_of_def sample_cfg_def challenge_ref_def)
  then have accepted: "fst (verify_availability_response sample_lib two_asked ?response com challenge_ref sample_cfg Map.empty) = Ok ()"
    using availability_challenge [OF cache_ok_empty, of sample_lib two_asked ?response com challenge_ref sample_cfg "[1, 2, 3]" Map.empty full]
      com full(1) cache_ok_empty by (metis fst_conv)
  moreover have "unat (ec_k sample_cfg) \<le> length (ar_shards ?response)"
    by (simp add: sample_cfg_def)
  ultimately obtain word where "rs_merkle_commitment sample_lib word = (Ok com :: (ChallengeError, Hash32) outcome)"
      "\<forall>(i, d) \<in> set (ar_shards ?response). unat i < length word \<and> d = word ! unat i"
    using conjunct1 [OF availability_challenge [OF cache_ok_empty, of sample_lib two_asked ?response com challenge_ref sample_cfg]] by blast
  with accepted show "\<exists>full com response. length (ar_shards response) = 2 \<and>
      fst (verify_availability_response sample_lib two_asked response com challenge_ref sample_cfg Map.empty) = Ok () \<and>
      rs_merkle_commitment sample_lib full = (Ok com :: (ChallengeError, Hash32) outcome) \<and>
      (\<forall>(i, d) \<in> set (ar_shards response). unat i < length full \<and> d = full ! unat i)"
    by (intro exI [of _ word] exI [of _ com] exI [of _ ?response]) simp
  show "fst (verify_availability_response sample_lib (two_asked\<lparr>ac_shard_indices := [1]\<rparr>)
      \<lparr> ar_blob_id = 5, ar_shards = [(1, [9, 9])] \<rparr> 0 challenge_ref sample_cfg Map.empty) = Ok ()"
    using availability_challenge [OF cache_ok_empty, of sample_lib "two_asked\<lparr>ac_shard_indices := [1]\<rparr>"
        "\<lparr> ar_blob_id = 5, ar_shards = [(1, [9, 9])] \<rparr>" 0 challenge_ref sample_cfg]
    by (simp add: asked_def sample_cfg_def two_asked_def)
qed

end
