(* ===== verification/Storage.thy ===== *)
theory Storage
  imports Blob_Custody Slashing
begin

text \<open>
  The storage crate: column families, key encoders, the database handle, the typed stores, and the
  \<open>Persistence\<close> implementation (\<open>storage/src\<close>). RocksDB is a parameter, a record of the calls the crate
  makes on a database of type \<open>'d\<close>; the borsh codecs of the stored types are parameters too. A store
  operation takes the database and returns its outcome with the database it leaves.
\<close>

section \<open>Errors, columns and keys\<close>

datatype StorageError =
    Rocks string
  | CodecErr string
  | UnknownColumn string
  | Logic string
  | StorageTypes string

fun storage_error_display :: "StorageError \<Rightarrow> string" where
  "storage_error_display (Rocks e) = ''rocksdb error: '' @ e"
| "storage_error_display (CodecErr e) = ''codec error: '' @ e"
| "storage_error_display (UnknownColumn c) = ''unknown column family: '' @ c"
| "storage_error_display (Logic m) = ''logic error: '' @ m"
| "storage_error_display (StorageTypes e) = ''types error: '' @ e"

datatype ColumnFamily =
    CfVertex | CfMicroCheckpoint | CfMicroQc | CfMacroCheckpoint | CfMacroQc | CfMacroTwoChain
  | CfValidatorSet | CfSlashEvidence | CfVoteBook | CfBlobStatus | CfBlobChunk | CfBlobPublish

fun cf_name :: "ColumnFamily \<Rightarrow> string" where
  "cf_name CfVertex = ''vertex''"
| "cf_name CfMicroCheckpoint = ''micro_cp''"
| "cf_name CfMicroQc = ''micro_qc''"
| "cf_name CfMacroCheckpoint = ''macro_cp''"
| "cf_name CfMacroQc = ''macro_qc''"
| "cf_name CfMacroTwoChain = ''macro_two_chain''"
| "cf_name CfValidatorSet = ''valset''"
| "cf_name CfSlashEvidence = ''slash''"
| "cf_name CfVoteBook = ''votebook''"
| "cf_name CfBlobStatus = ''blob_status''"
| "cf_name CfBlobChunk = ''blob_chunk''"
| "cf_name CfBlobPublish = ''blob_publish''"

definition cf_all :: "ColumnFamily list" where
  "cf_all = [CfVertex, CfMicroCheckpoint, CfMicroQc, CfMacroCheckpoint, CfMacroQc, CfMacroTwoChain,
     CfValidatorSet, CfSlashEvidence, CfVoteBook, CfBlobStatus, CfBlobChunk, CfBlobPublish]"

definition key_vertex :: "Round \<Rightarrow> ValidatorId \<Rightarrow> bytes" where
  "key_vertex r author = be_bytes 8 r @ be_bytes 32 author"

definition key_slot :: "u64 \<Rightarrow> bytes" where
  "key_slot s = be_bytes 8 s"

definition key_height :: "Height \<Rightarrow> bytes" where
  "key_height h = be_bytes 8 h"

definition key_epoch :: "Epoch \<Rightarrow> bytes" where
  "key_epoch e = be_bytes 8 e"

definition key_hash :: "Hash32 \<Rightarrow> bytes" where
  "key_hash h = be_bytes 32 h"

definition key_blob_id :: "BlobId \<Rightarrow> bytes" where
  "key_blob_id b = be_bytes 32 b"

definition key_blob_chunk :: "BlobId \<Rightarrow> u32 \<Rightarrow> bytes" where
  "key_blob_chunk b index = be_bytes 32 b @ be_bytes 4 index"

definition key_votebook :: "ValidatorId \<Rightarrow> Epoch \<Rightarrow> bytes" where
  "key_votebook v target = be_bytes 32 v @ be_bytes 8 target"

section \<open>The database handle\<close>

type_synonym batch = "(string \<times> bytes \<times> bytes) list"

record 'd rocks_lib =
  rocks_cf_handle :: "'d \<Rightarrow> string \<Rightarrow> bool"
  rocks_put :: "'d \<Rightarrow> string \<Rightarrow> bytes \<Rightarrow> bytes \<Rightarrow> (string, unit) outcome \<times> 'd"
  rocks_get :: "'d \<Rightarrow> string \<Rightarrow> bytes \<Rightarrow> (string, bytes option) outcome"
  rocks_write :: "'d \<Rightarrow> batch \<Rightarrow> (string, unit) outcome \<times> 'd"
  rocks_iter :: "'d \<Rightarrow> string \<Rightarrow> (string, bytes \<times> bytes) outcome list"

definition db_cf :: "'d rocks_lib \<Rightarrow> ColumnFamily \<Rightarrow> 'd \<Rightarrow> (StorageError, unit) outcome" where
  "db_cf R cf d = (if rocks_cf_handle R d (cf_name cf) then Ok () else Err (UnknownColumn (cf_name cf)))"

definition put_raw :: "'d rocks_lib \<Rightarrow> ColumnFamily \<Rightarrow> bytes \<Rightarrow> bytes \<Rightarrow> 'd \<Rightarrow> (StorageError, unit) outcome \<times> 'd" where
  "put_raw R cf key v d = call (db_cf R cf d) d (\<lambda>_.
     map_prod (map_err Rocks) id (rocks_put R d (cf_name cf) key v))"

definition get_raw :: "'d rocks_lib \<Rightarrow> ColumnFamily \<Rightarrow> bytes \<Rightarrow> 'd \<Rightarrow> (StorageError, bytes option) outcome" where
  "get_raw R cf key d = bind_out (db_cf R cf d) (\<lambda>_. map_err Rocks (rocks_get R d (cf_name cf) key))"

definition scan_cf :: "'d rocks_lib \<Rightarrow> ColumnFamily \<Rightarrow> 'd \<Rightarrow> (StorageError, bytes \<times> bytes) outcome list" where
  "scan_cf R cf d = (if rocks_cf_handle R d (cf_name cf)
     then map (map_err Rocks) (rocks_iter R d (cf_name cf))
     else [Err (UnknownColumn (cf_name cf))])"

definition batch_put :: "'d rocks_lib \<Rightarrow> ColumnFamily \<Rightarrow> bytes \<Rightarrow> bytes \<Rightarrow> 'd \<Rightarrow> batch \<Rightarrow> (StorageError, batch) outcome" where
  "batch_put R cf key v d b = bind_out (db_cf R cf d) (\<lambda>_. Ok (b @ [(cf_name cf, key, v)]))"

definition wal_apply :: "'d rocks_lib \<Rightarrow> batch \<Rightarrow> 'd \<Rightarrow> (StorageError, unit) outcome \<times> 'd" where
  "wal_apply R b d = map_prod (map_err Rocks) id (rocks_write R d b)"

definition wal_put_one :: "'d rocks_lib \<Rightarrow> ColumnFamily \<Rightarrow> bytes \<Rightarrow> bytes \<Rightarrow> 'd \<Rightarrow> (StorageError, unit) outcome \<times> 'd" where
  "wal_put_one R cf key v d = call (batch_put R cf key v d []) d (\<lambda>b. wal_apply R b d)"

section \<open>Codecs\<close>

record 'a codec =
  enc_of :: "'a \<Rightarrow> (string, bytes) outcome"
  dec_of :: "bytes \<Rightarrow> (string, 'a) outcome"

record StoredChunk =
  sc_total_chunks :: u32
  sc_size_bytes :: u64
  sc_data :: bytes

datatype PublishState = Ready | Attached

fun publish_state_byte :: "PublishState \<Rightarrow> u8" where
  "publish_state_byte Ready = 0"
| "publish_state_byte Attached = 1"

definition publish_state_from_u8 :: "u8 \<Rightarrow> (StorageError, PublishState) outcome" where
  "publish_state_from_u8 b = (if b = 0 then Ok Ready else if b = 1 then Ok Attached
     else Err (Logic ''invalid publish state byte''))"

record PublishRecord =
  pr_state :: u8
  pr_blob_ref :: BlobRef

record borsh_lib =
  bl_vertex :: "CertifiedVertex codec"
  bl_micro_cp :: "MicroCheckpoint codec"
  bl_micro_qc :: "MicroQc codec"
  bl_macro_cp :: "MacroCheckpoint codec"
  bl_macro_qc :: "MacroQc codec"
  bl_valset :: "ValidatorSet codec"
  bl_evidence :: "SlashEvidence codec"
  bl_chunk :: "StoredChunk codec"
  bl_publish :: "PublishRecord codec"

text \<open>The two halves the typed stores share: encode and put, get and decode.\<close>

definition put_encoded :: "'d rocks_lib \<Rightarrow> 'a codec \<Rightarrow> ColumnFamily \<Rightarrow> bytes \<Rightarrow> 'a \<Rightarrow> 'd \<Rightarrow>
    (StorageError, unit) outcome \<times> 'd" where
  "put_encoded R C cf key x d = call (map_err CodecErr (enc_of C x)) d (\<lambda>b. put_raw R cf key b d)"

definition get_decoded :: "'d rocks_lib \<Rightarrow> 'a codec \<Rightarrow> ColumnFamily \<Rightarrow> bytes \<Rightarrow> 'd \<Rightarrow> (StorageError, 'a option) outcome" where
  "get_decoded R C cf key d = bind_out (get_raw R cf key d) (\<lambda>v. case v of
     None \<Rightarrow> Ok None
   | Some b \<Rightarrow> bind_out (map_err CodecErr (dec_of C b)) (\<lambda>x. Ok (Some x)))"

section \<open>Typed stores\<close>

definition vertex_put :: "'d rocks_lib \<Rightarrow> borsh_lib \<Rightarrow> CertifiedVertex \<Rightarrow> 'd \<Rightarrow> (StorageError, unit) outcome \<times> 'd" where
  "vertex_put R B v d =
     put_encoded R (bl_vertex B) CfVertex (key_vertex (v_round (cv_vertex v)) (v_author (cv_vertex v))) v d"

definition vertex_get :: "'d rocks_lib \<Rightarrow> borsh_lib \<Rightarrow> Round \<Rightarrow> ValidatorId \<Rightarrow> 'd \<Rightarrow>
    (StorageError, CertifiedVertex option) outcome" where
  "vertex_get R B r author d = get_decoded R (bl_vertex B) CfVertex (key_vertex r author) d"

definition micro_put_checkpoint :: "'d rocks_lib \<Rightarrow> borsh_lib \<Rightarrow> MicroCheckpoint \<Rightarrow> 'd \<Rightarrow> (StorageError, unit) outcome \<times> 'd" where
  "micro_put_checkpoint R B cp d =
     put_encoded R (bl_micro_cp B) CfMicroCheckpoint (key_slot (uc_anchor_round cp)) cp d"

definition micro_get_checkpoint :: "'d rocks_lib \<Rightarrow> borsh_lib \<Rightarrow> u64 \<Rightarrow> 'd \<Rightarrow> (StorageError, MicroCheckpoint option) outcome" where
  "micro_get_checkpoint R B s d = get_decoded R (bl_micro_cp B) CfMicroCheckpoint (key_slot s) d"

definition micro_put_qc :: "'d rocks_lib \<Rightarrow> borsh_lib \<Rightarrow> MicroQc \<Rightarrow> 'd \<Rightarrow> (StorageError, unit) outcome \<times> 'd" where
  "micro_put_qc R B qc d = put_encoded R (bl_micro_qc B) CfMicroQc (key_hash (uq_checkpoint_hash qc)) qc d"

definition micro_get_qc :: "'d rocks_lib \<Rightarrow> borsh_lib \<Rightarrow> Hash32 \<Rightarrow> 'd \<Rightarrow> (StorageError, MicroQc option) outcome" where
  "micro_get_qc R B h d = get_decoded R (bl_micro_qc B) CfMicroQc (key_hash h) d"

definition macro_put_checkpoint :: "'d rocks_lib \<Rightarrow> borsh_lib \<Rightarrow> MacroCheckpoint \<Rightarrow> 'd \<Rightarrow> (StorageError, unit) outcome \<times> 'd" where
  "macro_put_checkpoint R B cp d = put_encoded R (bl_macro_cp B) CfMacroCheckpoint (key_height (mc_height cp)) cp d"

definition macro_get_checkpoint :: "'d rocks_lib \<Rightarrow> borsh_lib \<Rightarrow> Height \<Rightarrow> 'd \<Rightarrow> (StorageError, MacroCheckpoint option) outcome" where
  "macro_get_checkpoint R B h d = get_decoded R (bl_macro_cp B) CfMacroCheckpoint (key_height h) d"

definition macro_put_qc :: "'d rocks_lib \<Rightarrow> borsh_lib \<Rightarrow> MacroQc \<Rightarrow> 'd \<Rightarrow> (StorageError, unit) outcome \<times> 'd" where
  "macro_put_qc R B qc d = put_encoded R (bl_macro_qc B) CfMacroQc (key_hash (mq_checkpoint_hash qc)) qc d"

definition macro_get_qc :: "'d rocks_lib \<Rightarrow> borsh_lib \<Rightarrow> Hash32 \<Rightarrow> 'd \<Rightarrow> (StorageError, MacroQc option) outcome" where
  "macro_get_qc R B h d = get_decoded R (bl_macro_qc B) CfMacroQc (key_hash h) d"

definition put_two_chain_pointer :: "'d rocks_lib \<Rightarrow> Height \<Rightarrow> Hash32 \<Rightarrow> 'd \<Rightarrow> (StorageError, unit) outcome \<times> 'd" where
  "put_two_chain_pointer R child parent_hash d =
     put_raw R CfMacroTwoChain (key_height child) (be_bytes 32 parent_hash) d"

definition slash_append :: "'d rocks_lib \<Rightarrow> borsh_lib \<Rightarrow> u64 \<Rightarrow> SlashEvidence \<Rightarrow> 'd \<Rightarrow> (StorageError, unit) outcome \<times> 'd" where
  "slash_append R B seq ev d = put_encoded R (bl_evidence B) CfSlashEvidence (be_bytes 8 seq) ev d"

definition valset_put :: "'d rocks_lib \<Rightarrow> borsh_lib \<Rightarrow> ValidatorSet \<Rightarrow> 'd \<Rightarrow> (StorageError, unit) outcome \<times> 'd" where
  "valset_put R B vset d = put_encoded R (bl_valset B) CfValidatorSet (key_epoch (vs_epoch vset)) vset d"

definition valset_get :: "'d rocks_lib \<Rightarrow> borsh_lib \<Rightarrow> Epoch \<Rightarrow> 'd \<Rightarrow> (StorageError, ValidatorSet option) outcome" where
  "valset_get R B e d = get_decoded R (bl_valset B) CfValidatorSet (key_epoch e) d"

definition VOTE_RECORD_LEN :: nat where
  "VOTE_RECORD_LEN = 8 + 8 + 32 + 96"

definition vote_put :: "'d rocks_lib \<Rightarrow> ValidatorId \<Rightarrow> VoteRecord \<Rightarrow> 'd \<Rightarrow> (StorageError, unit) outcome \<times> 'd" where
  "vote_put R validator r d = put_raw R CfVoteBook (key_votebook validator (vr_target r))
     (be_bytes 8 (vr_source r) @ be_bytes 8 (vr_target r) @ be_bytes 32 (vr_checkpoint r) @ be_bytes 96 (vr_sig r)) d"

definition vote_get :: "'d rocks_lib \<Rightarrow> ValidatorId \<Rightarrow> Epoch \<Rightarrow> 'd \<Rightarrow> (StorageError, VoteRecord option) outcome" where
  "vote_get R validator target d = bind_out (get_raw R CfVoteBook (key_votebook validator target) d) (\<lambda>v. case v of
     None \<Rightarrow> Ok None
   | Some b \<Rightarrow> if length b \<noteq> VOTE_RECORD_LEN then Err (Logic ''vote_book row has wrong length'')
       else Ok (Some \<lparr> vr_source = word_of_be (take 8 b), vr_target = word_of_be (take 8 (drop 8 b)),
         vr_checkpoint = word_of_be (take 32 (drop 16 b)), vr_sig = word_of_be (take 96 (drop 48 b)) \<rparr>))"

fun status_byte :: "BlobStatus \<Rightarrow> u8" where
  "status_byte Accepted = 0"
| "status_byte SoftConfirmed = 1"
| "status_byte Justified = 2"
| "status_byte Finalized = 3"
| "status_byte EpochFinalized = 4"

definition decode_status :: "u8 \<Rightarrow> (StorageError, BlobStatus) outcome" where
  "decode_status b = (if b = 0 then Ok Accepted else if b = 1 then Ok SoftConfirmed
     else if b = 2 then Ok Justified else if b = 3 then Ok Finalized else if b = 4 then Ok EpochFinalized
     else Err (Logic ''invalid blob status byte''))"

definition status_get :: "'d rocks_lib \<Rightarrow> BlobId \<Rightarrow> 'd \<Rightarrow> (StorageError, BlobStatus option) outcome" where
  "status_get R blob d = bind_out (get_raw R CfBlobStatus (key_blob_id blob) d) (\<lambda>v. case v of
     None \<Rightarrow> Ok None
   | Some b \<Rightarrow> if length b \<noteq> 1 then Err (Logic ''blob_status row has wrong length'')
       else bind_out (decode_status (b ! 0)) (\<lambda>s. Ok (Some s)))"

definition status_put_monotonic :: "'d rocks_lib \<Rightarrow> BlobId \<Rightarrow> BlobStatus \<Rightarrow> 'd \<Rightarrow> (StorageError, unit) outcome \<times> 'd" where
  "status_put_monotonic R blob status d = call (status_get R blob d) d (\<lambda>current.
     if (case current of None \<Rightarrow> True | Some existing \<Rightarrow> existing < status)
     then put_raw R CfBlobStatus (key_blob_id blob) [status_byte status] d
     else (Ok (), d))"

section \<open>Blob chunks\<close>

definition chunk_put :: "'d rocks_lib \<Rightarrow> borsh_lib \<Rightarrow> BlobId \<Rightarrow> u32 \<Rightarrow> u32 \<Rightarrow> u64 \<Rightarrow> bytes \<Rightarrow> 'd \<Rightarrow>
    (StorageError, unit) outcome \<times> 'd" where
  "chunk_put R B blob index tot sz data d = put_encoded R (bl_chunk B) CfBlobChunk (key_blob_chunk blob index)
     \<lparr> sc_total_chunks = tot, sc_size_bytes = sz, sc_data = data \<rparr> d"

definition chunk_get :: "'d rocks_lib \<Rightarrow> borsh_lib \<Rightarrow> BlobId \<Rightarrow> u32 \<Rightarrow> 'd \<Rightarrow> (StorageError, bytes option) outcome" where
  "chunk_get R B blob index d = bind_out (get_decoded R (bl_chunk B) CfBlobChunk (key_blob_chunk blob index) d)
     (\<lambda>c. Ok (map_option sc_data c))"

definition chunk_put_batch :: "'d rocks_lib \<Rightarrow> borsh_lib \<Rightarrow> BlobId \<Rightarrow> u32 \<Rightarrow> u32 \<Rightarrow> u64 \<Rightarrow> bytes \<Rightarrow> 'd \<Rightarrow> batch \<Rightarrow>
    (StorageError, batch) outcome" where
  "chunk_put_batch R B blob index tot sz data d b = bind_out (map_err CodecErr (enc_of (bl_chunk B)
       \<lparr> sc_total_chunks = tot, sc_size_bytes = sz, sc_data = data \<rparr>)) (\<lambda>v.
     batch_put R CfBlobChunk (key_blob_chunk blob index) v d b)"

definition chunk_has :: "'d rocks_lib \<Rightarrow> BlobId \<Rightarrow> u32 \<Rightarrow> 'd \<Rightarrow> (StorageError, bool) outcome" where
  "chunk_has R blob index d = bind_out (get_raw R CfBlobChunk (key_blob_chunk blob index) d) (\<lambda>v. Ok (v \<noteq> None))"

section \<open>Publish records\<close>

definition put_ready_batch :: "'d rocks_lib \<Rightarrow> borsh_lib \<Rightarrow> BlobId \<Rightarrow> PublishRecord \<Rightarrow> 'd \<Rightarrow> batch \<Rightarrow>
    (StorageError, batch) outcome" where
  "put_ready_batch R B blob r d b =
     (if pr_state r \<noteq> publish_state_byte Ready then Err (Logic ''put_ready_batch requires Ready state'')
      else bind_out (map_err CodecErr (enc_of (bl_publish B) r)) (\<lambda>v.
        batch_put R CfBlobPublish (key_blob_id blob) v d b))"

definition publish_get :: "'d rocks_lib \<Rightarrow> borsh_lib \<Rightarrow> BlobId \<Rightarrow> 'd \<Rightarrow> (StorageError, PublishRecord option) outcome" where
  "publish_get R B blob d = get_decoded R (bl_publish B) CfBlobPublish (key_blob_id blob) d"

definition put_attached :: "'d rocks_lib \<Rightarrow> borsh_lib \<Rightarrow> BlobId \<Rightarrow> 'd \<Rightarrow> (StorageError, unit) outcome \<times> 'd" where
  "put_attached R B blob d = call (publish_get R B blob d) d (\<lambda>found. case found of
     None \<Rightarrow> (Err (Logic ''mark_attached: publish record missing''), d)
   | Some r \<Rightarrow> call (publish_state_from_u8 (pr_state r)) d (\<lambda>state. case state of
       Attached \<Rightarrow> (Ok (), d)
     | Ready \<Rightarrow> put_encoded R (bl_publish B) CfBlobPublish (key_blob_id blob)
         (r\<lparr>pr_state := publish_state_byte Attached\<rparr>) d))"

definition publish_is_attached :: "'d rocks_lib \<Rightarrow> borsh_lib \<Rightarrow> BlobId \<Rightarrow> 'd \<Rightarrow> (StorageError, bool) outcome" where
  "publish_is_attached R B blob d = bind_out (publish_get R B blob d) (\<lambda>found. case found of
     None \<Rightarrow> Ok False
   | Some r \<Rightarrow> bind_out (publish_state_from_u8 (pr_state r)) (\<lambda>s. Ok (s = Attached)))"

fun scan_ready_rows :: "borsh_lib \<Rightarrow> (StorageError, bytes \<times> bytes) outcome list \<Rightarrow> (StorageError, BlobRef list) outcome" where
  "scan_ready_rows B [] = Ok []"
| "scan_ready_rows B (item # items) = bind_out item (\<lambda>(k, v).
     bind_out (map_err CodecErr (dec_of (bl_publish B) v)) (\<lambda>r.
     bind_out (publish_state_from_u8 (pr_state r)) (\<lambda>s.
     bind_out (scan_ready_rows B items) (\<lambda>rest. Ok (if s = Ready then pr_blob_ref r # rest else rest)))))"

definition scan_ready :: "'d rocks_lib \<Rightarrow> borsh_lib \<Rightarrow> 'd \<Rightarrow> (StorageError, BlobRef list) outcome" where
  "scan_ready R B d = scan_ready_rows B (scan_cf R CfBlobPublish d)"

section \<open>Persistence\<close>

record 'd RocksPersistence =
  rp_db :: 'd
  rp_seq :: u64

definition persistence_new :: "'d \<Rightarrow> 'd RocksPersistence" where
  "persistence_new d = \<lparr> rp_db = d, rp_seq = 0 \<rparr>"

definition persistence_err :: "StorageError \<Rightarrow> Error" where
  "persistence_err e = PersistenceError (storage_error_display e)"

definition on_db :: "('d \<Rightarrow> (StorageError, 'a) outcome \<times> 'd) \<Rightarrow> 'd RocksPersistence \<Rightarrow> (Error, 'a) outcome \<times> 'd RocksPersistence" where
  "on_db f p = (case f (rp_db p) of (r, d) \<Rightarrow> (map_err persistence_err r, p\<lparr>rp_db := d\<rparr>))"

definition update_blob_status :: "'d rocks_lib \<Rightarrow> BlobId \<Rightarrow> BlobStatus \<Rightarrow> 'd RocksPersistence \<Rightarrow>
    (Error, unit) outcome \<times> 'd RocksPersistence" where
  "update_blob_status R blob status p = on_db (status_put_monotonic R blob status) p"

definition blob_status :: "'d rocks_lib \<Rightarrow> BlobId \<Rightarrow> 'd RocksPersistence \<Rightarrow> (Error, BlobStatus) outcome" where
  "blob_status R blob p = bind_out (map_err persistence_err (status_get R blob (rp_db p))) (\<lambda>s.
     Ok (case s of Some s \<Rightarrow> s | None \<Rightarrow> Accepted))"

definition store_micro_qc :: "'d rocks_lib \<Rightarrow> borsh_lib \<Rightarrow> MicroQc \<Rightarrow> 'd RocksPersistence \<Rightarrow> (Error, unit) outcome \<times> 'd RocksPersistence" where
  "store_micro_qc R B qc p = on_db (micro_put_qc R B qc) p"

definition micro_qc_for :: "'d rocks_lib \<Rightarrow> borsh_lib \<Rightarrow> Hash32 \<Rightarrow> 'd RocksPersistence \<Rightarrow> (Error, MicroQc option) outcome" where
  "micro_qc_for R B h p = map_err persistence_err (micro_get_qc R B h (rp_db p))"

definition store_macro_checkpoint :: "'d rocks_lib \<Rightarrow> borsh_lib \<Rightarrow> MacroCheckpoint \<Rightarrow> 'd RocksPersistence \<Rightarrow>
    (Error, unit) outcome \<times> 'd RocksPersistence" where
  "store_macro_checkpoint R B cp p = on_db (macro_put_checkpoint R B cp) p"

definition store_macro_qc :: "'d rocks_lib \<Rightarrow> borsh_lib \<Rightarrow> MacroQc \<Rightarrow> 'd RocksPersistence \<Rightarrow> (Error, unit) outcome \<times> 'd RocksPersistence" where
  "store_macro_qc R B qc p = on_db (macro_put_qc R B qc) p"

definition append_slash_evidence :: "'d rocks_lib \<Rightarrow> borsh_lib \<Rightarrow> SlashEvidence \<Rightarrow> 'd RocksPersistence \<Rightarrow>
    (Error, unit) outcome \<times> 'd RocksPersistence" where
  "append_slash_evidence R B ev p = on_db (slash_append R B (rp_seq p) ev) (p\<lparr>rp_seq := rp_seq p + 1\<rparr>)"

definition macro_checkpoint_at :: "'d rocks_lib \<Rightarrow> borsh_lib \<Rightarrow> Height \<Rightarrow> 'd RocksPersistence \<Rightarrow> (Error, MacroCheckpoint option) outcome" where
  "macro_checkpoint_at R B h p = map_err persistence_err (macro_get_checkpoint R B h (rp_db p))"

definition macro_qc_for :: "'d rocks_lib \<Rightarrow> borsh_lib \<Rightarrow> Hash32 \<Rightarrow> 'd RocksPersistence \<Rightarrow> (Error, MacroQc option) outcome" where
  "macro_qc_for R B h p = map_err persistence_err (macro_get_qc R B h (rp_db p))"

section \<open>Garbage collection horizons and snapshots\<close>

record GcPlan =
  gc_cold_horizon_round :: u64
  gc_warm_horizon_round :: u64
  gc_hot_horizon_round :: u64

definition gc_plan :: "Config \<Rightarrow> u64 \<Rightarrow> GcPlan" where
  "gc_plan cfg micro_head_round = \<lparr> gc_cold_horizon_round = 0,
     gc_warm_horizon_round = sat_sub micro_head_round (gc_warm_horizon_rounds (cfg_storage cfg)),
     gc_hot_horizon_round = sat_sub micro_head_round (gc_hot_horizon_rounds (cfg_storage cfg)) \<rparr>"

definition snapshot_id :: "'x crypto_lib \<Rightarrow> Height \<Rightarrow> Hash32 \<Rightarrow> Hash32" where
  "snapshot_id L h macro_root = blake3_with_dst L DST_CONTENT_HASH (be_bytes 8 h @ be_bytes 32 macro_root)"

end
