(* ===== verification/Blob_Store.thy ===== *)
theory Blob_Store
  imports Storage
begin

text \<open>
  The chunk store of the node over RocksDB, \<open>apps/node/src/blob/rocks_store.rs\<close>: the \<open>BlobStore\<close> port and
  the atomic publication of a blob.
\<close>

definition store_err :: "StorageError \<Rightarrow> StoreError" where
  "store_err e = StoreOther (storage_error_display e)"

definition chunk_payload_bytes :: "BlobChunk \<Rightarrow> bytes" where
  "chunk_payload_bytes c = ch_data (bc_payload c)"

fun batch_chunks :: "'d rocks_lib \<Rightarrow> borsh_lib \<Rightarrow> BlobChunk list \<Rightarrow> 'd \<Rightarrow> batch \<Rightarrow> (StorageError, batch) outcome" where
  "batch_chunks R B [] d b = Ok b"
| "batch_chunks R B (c # cs) d b = bind_out (chunk_put_batch R B (bc_blob_id c) (chunk_index c)
     (chunk_unit_count c) (bc_size_bytes c) (chunk_payload_bytes c) d b) (\<lambda>b. batch_chunks R B cs d b)"

definition publish_blob_atomic :: "'d rocks_lib \<Rightarrow> borsh_lib \<Rightarrow> BlobChunk list \<Rightarrow> PublishRecord \<Rightarrow> 'd \<Rightarrow>
    (StoreError, unit) outcome \<times> 'd" where
  "publish_blob_atomic R B chunks r d =
     call (map_err store_err (batch_chunks R B chunks d [])) d (\<lambda>b.
     call (map_err store_err (put_ready_batch R B (br_blob_id (pr_blob_ref r)) r d b)) d (\<lambda>b.
       map_prod (map_err store_err) id (wal_apply R b d)))"

definition store_mark_attached :: "'d rocks_lib \<Rightarrow> borsh_lib \<Rightarrow> BlobId \<Rightarrow> 'd \<Rightarrow> (StoreError, unit) outcome \<times> 'd" where
  "store_mark_attached R B blob d = map_prod (map_err store_err) id (put_attached R B blob d)"

definition store_is_attached :: "'d rocks_lib \<Rightarrow> borsh_lib \<Rightarrow> BlobId \<Rightarrow> 'd \<Rightarrow> (StoreError, bool) outcome" where
  "store_is_attached R B blob d = map_err store_err (publish_is_attached R B blob d)"

definition scan_ready_blobs :: "'d rocks_lib \<Rightarrow> borsh_lib \<Rightarrow> 'd \<Rightarrow> (StoreError, BlobRef list) outcome" where
  "scan_ready_blobs R B d = map_err store_err (scan_ready R B d)"

definition store_put_chunk :: "'d rocks_lib \<Rightarrow> borsh_lib \<Rightarrow> BlobChunk \<Rightarrow> 'd \<Rightarrow> (StoreError, unit) outcome \<times> 'd" where
  "store_put_chunk R B c d = map_prod (map_err store_err) id (chunk_put R B (bc_blob_id c) (chunk_index c)
     (chunk_unit_count c) (bc_size_bytes c) (chunk_payload_bytes c) d)"

definition store_get_chunk :: "'d rocks_lib \<Rightarrow> borsh_lib \<Rightarrow> 'd \<Rightarrow> get_chunk" where
  "store_get_chunk R B d blob index = map_err store_err (chunk_get R B blob index d)"

definition store_has_chunk :: "'d rocks_lib \<Rightarrow> BlobId \<Rightarrow> u32 \<Rightarrow> 'd \<Rightarrow> (StoreError, bool) outcome" where
  "store_has_chunk R blob index d = map_err store_err (chunk_has R blob index d)"

definition store_list_chunk_refs :: "'d rocks_lib \<Rightarrow> BlobId \<Rightarrow> 'd \<Rightarrow> (StoreError, ChunkRef list) outcome" where
  "store_list_chunk_refs R blob d = bind_out
     (mapM_out (\<lambda>i. bind_out (store_has_chunk R blob (of_nat i) d) (\<lambda>present.
        Ok (if present then Some \<lparr> cr_blob_id = blob, cr_index = of_nat i \<rparr> else None))) [0..<64])
     (\<lambda>refs. Ok (List.map_filter (\<lambda>r. r) refs))"

end
