(* ===== verification/Storage_Facts.thy ===== *)
theory Storage_Facts
  imports Blob_Store
begin

text \<open>
  What the database means: the documented behaviour of RocksDB and of the codecs as hypotheses, the
  typed maps a database represents, and the lemmas that every store operation reads and updates them.
\<close>

section \<open>The behaviour of RocksDB and of the codecs\<close>

type_synonym contents = "string \<Rightarrow> bytes \<rightharpoonup> bytes"

definition write_row :: "string \<times> bytes \<times> bytes \<Rightarrow> contents \<Rightarrow> contents" where
  "write_row = (\<lambda>(n, k, v) w. w(n := (w n)(k \<mapsto> v)))"

text \<open>
  \<open>view\<close> is what the database holds: every column family is open, a read returns what is held, a put or
  a batch that succeeds writes its rows, all of them, one that fails writes none, and an iterator lists
  the rows of its column, each once.
\<close>

definition rocks_ok :: "'d rocks_lib \<Rightarrow> ('d \<Rightarrow> contents) \<Rightarrow> bool" where
  "rocks_ok R view \<longleftrightarrow>
     (\<forall>d cf. rocks_cf_handle R d (cf_name cf)) \<and>
     (\<forall>d n k. rocks_get R d n k = Ok (view d n k)) \<and>
     (\<forall>d n k v. no_panic (fst (rocks_put R d n k v)) \<and> view (snd (rocks_put R d n k v)) =
        (if is_ok (fst (rocks_put R d n k v)) then write_row (n, k, v) (view d) else view d)) \<and>
     (\<forall>d b. no_panic (fst (rocks_write R d b)) \<and> view (snd (rocks_write R d b)) =
        (if is_ok (fst (rocks_write R d b)) then fold write_row b (view d) else view d)) \<and>
     (\<forall>d n. \<exists>rows. rocks_iter R d n = map Ok rows \<and> distinct (map fst rows) \<and> map_of rows = view d n)"

text \<open>A codec gives back what it encoded; encoding may fail, but neither direction panics.\<close>

definition codec_ok :: "'a codec \<Rightarrow> bool" where
  "codec_ok C \<longleftrightarrow> (\<forall>x. no_panic (enc_of C x) \<and> (\<forall>b. enc_of C x = Ok b \<longrightarrow> dec_of C b = Ok x))"

definition borsh_ok :: "borsh_lib \<Rightarrow> bool" where
  "borsh_ok B \<longleftrightarrow> codec_ok (bl_vertex B) \<and> codec_ok (bl_micro_cp B) \<and> codec_ok (bl_micro_qc B) \<and>
     codec_ok (bl_macro_cp B) \<and> codec_ok (bl_macro_qc B) \<and> codec_ok (bl_valset B) \<and> codec_ok (bl_evidence B) \<and>
     codec_ok (bl_chunk B) \<and> codec_ok (bl_publish B)"

lemma codec_cases:
  assumes "codec_ok C"
  obtains (bytes) b where "enc_of C x = Ok b" "dec_of C b = Ok x" | (error) e where "enc_of C x = Err e"
proof (cases "enc_of C x")
  case (Panic m)
  then have False
    using assms by (metis codec_ok_def no_panic_def)
  then show ?thesis ..
qed (use assms that in \<open>auto simp: codec_ok_def\<close>)

section \<open>Raw operations\<close>

lemma cf_name_inj: "cf_name a = cf_name b \<longleftrightarrow> a = b"
  by (cases a; cases b) auto

lemma db_cf_Ok: "rocks_ok R view \<Longrightarrow> db_cf R cf d = Ok ()"
  by (simp add: rocks_ok_def db_cf_def)

lemma get_raw_view: "rocks_ok R view \<Longrightarrow> get_raw R cf key d = Ok (view d (cf_name cf) key)"
  by (simp add: get_raw_def db_cf_def rocks_ok_def)

lemma map_err_cases: "is_ok (map_err f r) = is_ok r" "map_err f r = Ok a \<longleftrightarrow> r = Ok a"
  by (cases r; simp)+

text \<open>The outcome of a write: success with the rows written, or an error with nothing changed.\<close>

definition wrote :: "('d \<Rightarrow> contents) \<Rightarrow> 'd \<Rightarrow> batch \<Rightarrow> ('e, unit) outcome \<times> 'd \<Rightarrow> bool" where
  "wrote view d rows r \<longleftrightarrow> no_panic (fst r) \<and>
     view (snd r) = (if is_ok (fst r) then fold write_row rows (view d) else view d)"

lemma put_raw_wrote: "rocks_ok R view \<Longrightarrow> wrote view d [(cf_name cf, key, v)] (put_raw R cf key v d)"
  by (simp add: wrote_def put_raw_def db_cf_def rocks_ok_def map_err_cases)

lemma wal_apply_wrote: "rocks_ok R view \<Longrightarrow> wrote view d b (wal_apply R b d)"
  by (simp add: wrote_def wal_apply_def rocks_ok_def map_err_cases)

lemma wrote_map_err: "wrote view d rows r \<Longrightarrow> wrote view d rows (map_prod (map_err f) id r)"
  by (simp add: wrote_def map_err_cases)

section \<open>Typed maps\<close>

record abs_db =
  ab_vertices :: "Round \<times> ValidatorId \<rightharpoonup> CertifiedVertex"
  ab_micro_cps :: "u64 \<rightharpoonup> MicroCheckpoint"
  ab_micro_qcs :: "Hash32 \<rightharpoonup> MicroQc"
  ab_macro_cps :: "Height \<rightharpoonup> MacroCheckpoint"
  ab_macro_qcs :: "Hash32 \<rightharpoonup> MacroQc"
  ab_pointers :: "Height \<rightharpoonup> Hash32"
  ab_valsets :: "Epoch \<rightharpoonup> ValidatorSet"
  ab_evidence :: "u64 \<rightharpoonup> SlashEvidence"
  ab_votes :: "ValidatorId \<times> Epoch \<rightharpoonup> VoteRecord"
  ab_statuses :: "BlobId \<rightharpoonup> BlobStatus"
  ab_chunks :: "BlobId \<times> u32 \<rightharpoonup> StoredChunk"
  ab_published :: "BlobId \<rightharpoonup> PublishState \<times> BlobRef"

text \<open>A column holds a map when its rows are those of the entries of the map; \<open>row b v\<close> says that \<open>b\<close> is a row of \<open>v\<close>.\<close>

definition column :: "contents \<Rightarrow> ColumnFamily \<Rightarrow> ('k \<Rightarrow> bytes) \<Rightarrow> (bytes \<Rightarrow> 'v \<Rightarrow> bool) \<Rightarrow> ('k \<rightharpoonup> 'v) \<Rightarrow> bool" where
  "column w cf key row m \<longleftrightarrow> (\<forall>k. rel_option row (w (cf_name cf) (key k)) (m k)) \<and> dom (w (cf_name cf)) \<subseteq> range key"

definition decodes :: "'a codec \<Rightarrow> bytes \<Rightarrow> 'a \<Rightarrow> bool" where
  "decodes C b x \<longleftrightarrow> dec_of C b = Ok x"

definition pointer_row :: "bytes \<Rightarrow> Hash32 \<Rightarrow> bool" where
  "pointer_row b h \<longleftrightarrow> b = be_bytes 32 h"

definition vote_row :: "bytes \<Rightarrow> VoteRecord \<Rightarrow> bool" where
  "vote_row b r \<longleftrightarrow>
     b = be_bytes 8 (vr_source r) @ be_bytes 8 (vr_target r) @ be_bytes 32 (vr_checkpoint r) @ be_bytes 96 (vr_sig r)"

definition status_row :: "bytes \<Rightarrow> BlobStatus \<Rightarrow> bool" where
  "status_row b s \<longleftrightarrow> b = [status_byte s]"

definition publish_record :: "PublishState \<times> BlobRef \<Rightarrow> PublishRecord" where
  "publish_record = (\<lambda>(s, r). \<lparr> pr_state = publish_state_byte s, pr_blob_ref = r \<rparr>)"

definition publish_row :: "borsh_lib \<Rightarrow> bytes \<Rightarrow> PublishState \<times> BlobRef \<Rightarrow> bool" where
  "publish_row B b p \<longleftrightarrow> decodes (bl_publish B) b (publish_record p)"

definition represents :: "borsh_lib \<Rightarrow> contents \<Rightarrow> abs_db \<Rightarrow> bool" where
  "represents B w A \<longleftrightarrow>
     column w CfVertex (\<lambda>(r, a). key_vertex r a) (decodes (bl_vertex B)) (ab_vertices A) \<and>
     column w CfMicroCheckpoint key_slot (decodes (bl_micro_cp B)) (ab_micro_cps A) \<and>
     column w CfMicroQc key_hash (decodes (bl_micro_qc B)) (ab_micro_qcs A) \<and>
     column w CfMacroCheckpoint key_height (decodes (bl_macro_cp B)) (ab_macro_cps A) \<and>
     column w CfMacroQc key_hash (decodes (bl_macro_qc B)) (ab_macro_qcs A) \<and>
     column w CfMacroTwoChain key_height pointer_row (ab_pointers A) \<and>
     column w CfValidatorSet key_epoch (decodes (bl_valset B)) (ab_valsets A) \<and>
     column w CfSlashEvidence (be_bytes 8) (decodes (bl_evidence B)) (ab_evidence A) \<and>
     column w CfVoteBook (\<lambda>(v, t). key_votebook v t) vote_row (ab_votes A) \<and>
     column w CfBlobStatus key_blob_id status_row (ab_statuses A) \<and>
     column w CfBlobChunk (\<lambda>(b, i). key_blob_chunk b i) (decodes (bl_chunk B)) (ab_chunks A) \<and>
     column w CfBlobPublish key_blob_id (publish_row B) (ab_published A)"

lemma key_inj:
  "inj (\<lambda>(r, a). key_vertex r a)" "inj key_slot" "inj key_height" "inj key_epoch" "inj key_hash" "inj key_blob_id"
  "inj (\<lambda>(b, i). key_blob_chunk b i)" "inj (\<lambda>(v, t). key_votebook v t)" "inj (be_bytes 8 :: u64 \<Rightarrow> bytes)"
  by (auto simp: inj_def key_vertex_def key_slot_def key_height_def key_epoch_def key_hash_def key_blob_id_def
      key_blob_chunk_def key_votebook_def intro: be_bytes_inj)

lemma column_put:
  "column w cf key row m \<Longrightarrow> inj key \<Longrightarrow> row b v \<Longrightarrow> column (write_row (cf_name cf, key k, b) w) cf key row (m(k \<mapsto> v))"
  by (auto simp: column_def write_row_def inj_eq)

lemma column_other: "cf \<noteq> cf' \<Longrightarrow> column (write_row (cf_name cf', k, v) w) cf key row m = column w cf key row m"
  by (simp add: column_def write_row_def cf_name_inj)

lemma column_get: "column w cf key row m \<Longrightarrow> rel_option row (w (cf_name cf) (key k)) (m k)"
  by (simp add: column_def)

lemmas column_puts =
  column_put [where cf = CfVertex and key = "\<lambda>(r, a). key_vertex r a" and k = "(r, a)" for r a, simplified]
  column_put [where cf = CfBlobChunk and key = "\<lambda>(b, i). key_blob_chunk b i" and k = "(b, i)" for b i, simplified]
  column_put [where cf = CfVoteBook and key = "\<lambda>(v, t). key_votebook v t" and k = "(v, t)" for v t, simplified]
  column_put [where cf = CfMicroCheckpoint, simplified] column_put [where cf = CfMicroQc, simplified]
  column_put [where cf = CfMacroCheckpoint, simplified] column_put [where cf = CfMacroQc, simplified]
  column_put [where cf = CfMacroTwoChain, simplified] column_put [where cf = CfValidatorSet, simplified]
  column_put [where cf = CfSlashEvidence, simplified] column_put [where cf = CfBlobStatus, simplified]
  column_put [where cf = CfBlobPublish, simplified]

lemmas column_others =
  column_other [where cf' = CfVertex, simplified] column_other [where cf' = CfMicroCheckpoint, simplified]
  column_other [where cf' = CfMicroQc, simplified] column_other [where cf' = CfMacroCheckpoint, simplified]
  column_other [where cf' = CfMacroQc, simplified] column_other [where cf' = CfMacroTwoChain, simplified]
  column_other [where cf' = CfValidatorSet, simplified] column_other [where cf' = CfSlashEvidence, simplified]
  column_other [where cf' = CfVoteBook, simplified] column_other [where cf' = CfBlobStatus, simplified]
  column_other [where cf' = CfBlobChunk, simplified] column_other [where cf' = CfBlobPublish, simplified]

text \<open>One write in one column updates one map.\<close>

lemma represents_put:
  assumes "represents B w A"
  shows "decodes (bl_vertex B) x v \<Longrightarrow> represents B (write_row (''vertex'', key_vertex r a, x) w) (A\<lparr>ab_vertices := (ab_vertices A)((r, a) \<mapsto> v)\<rparr>)"
    "decodes (bl_micro_cp B) x ucp \<Longrightarrow> represents B (write_row (''micro_cp'', key_slot s, x) w) (A\<lparr>ab_micro_cps := (ab_micro_cps A)(s \<mapsto> ucp)\<rparr>)"
    "decodes (bl_micro_qc B) x uqc \<Longrightarrow> represents B (write_row (''micro_qc'', key_hash h, x) w) (A\<lparr>ab_micro_qcs := (ab_micro_qcs A)(h \<mapsto> uqc)\<rparr>)"
    "decodes (bl_macro_cp B) x cp \<Longrightarrow> represents B (write_row (''macro_cp'', key_height ht, x) w) (A\<lparr>ab_macro_cps := (ab_macro_cps A)(ht \<mapsto> cp)\<rparr>)"
    "decodes (bl_macro_qc B) x qc \<Longrightarrow> represents B (write_row (''macro_qc'', key_hash h, x) w) (A\<lparr>ab_macro_qcs := (ab_macro_qcs A)(h \<mapsto> qc)\<rparr>)"
    "pointer_row x h \<Longrightarrow> represents B (write_row (''macro_two_chain'', key_height ht, x) w) (A\<lparr>ab_pointers := (ab_pointers A)(ht \<mapsto> h)\<rparr>)"
    "decodes (bl_valset B) x vset \<Longrightarrow> represents B (write_row (''valset'', key_epoch e, x) w) (A\<lparr>ab_valsets := (ab_valsets A)(e \<mapsto> vset)\<rparr>)"
    "decodes (bl_evidence B) x ev \<Longrightarrow> represents B (write_row (''slash'', be_bytes 8 s, x) w) (A\<lparr>ab_evidence := (ab_evidence A)(s \<mapsto> ev)\<rparr>)"
    "vote_row x vote \<Longrightarrow> represents B (write_row (''votebook'', key_votebook a e, x) w) (A\<lparr>ab_votes := (ab_votes A)((a, e) \<mapsto> vote)\<rparr>)"
    "status_row x st \<Longrightarrow> represents B (write_row (''blob_status'', key_blob_id b, x) w) (A\<lparr>ab_statuses := (ab_statuses A)(b \<mapsto> st)\<rparr>)"
    "decodes (bl_chunk B) x c \<Longrightarrow> represents B (write_row (''blob_chunk'', key_blob_chunk b i, x) w) (A\<lparr>ab_chunks := (ab_chunks A)((b, i) \<mapsto> c)\<rparr>)"
    "publish_row B x p \<Longrightarrow> represents B (write_row (''blob_publish'', key_blob_id b, x) w) (A\<lparr>ab_published := (ab_published A)(b \<mapsto> p)\<rparr>)"
  using assms by (simp_all add: represents_def column_others column_puts key_inj)

section \<open>Store operations\<close>

datatype store_op =
    PutVertex CertifiedVertex
  | PutMicroCheckpoint MicroCheckpoint
  | PutMicroQc MicroQc
  | PutMacroCheckpoint MacroCheckpoint
  | PutMacroQc MacroQc
  | PutPointer Height Hash32
  | PutValidatorSet ValidatorSet
  | AppendEvidence u64 SlashEvidence
  | PutVote ValidatorId VoteRecord
  | RaiseStatus BlobId BlobStatus
  | PutChunk BlobChunk
  | PublishBlob "BlobChunk list" BlobRef
  | AttachBlob BlobId

definition run_storage :: "('d \<Rightarrow> (StorageError, unit) outcome \<times> 'd) \<Rightarrow> 'd \<Rightarrow> (StoreError, unit) outcome \<times> 'd" where
  "run_storage f d = map_prod (map_err store_err) id (f d)"

fun run_op :: "'d rocks_lib \<Rightarrow> borsh_lib \<Rightarrow> store_op \<Rightarrow> 'd \<Rightarrow> (StoreError, unit) outcome \<times> 'd" where
  "run_op R B (PutVertex v) = run_storage (vertex_put R B v)"
| "run_op R B (PutMicroCheckpoint cp) = run_storage (micro_put_checkpoint R B cp)"
| "run_op R B (PutMicroQc qc) = run_storage (micro_put_qc R B qc)"
| "run_op R B (PutMacroCheckpoint cp) = run_storage (macro_put_checkpoint R B cp)"
| "run_op R B (PutMacroQc qc) = run_storage (macro_put_qc R B qc)"
| "run_op R B (PutPointer h p) = run_storage (put_two_chain_pointer R h p)"
| "run_op R B (PutValidatorSet vset) = run_storage (valset_put R B vset)"
| "run_op R B (AppendEvidence n ev) = run_storage (slash_append R B n ev)"
| "run_op R B (PutVote v r) = run_storage (vote_put R v r)"
| "run_op R B (RaiseStatus b s) = run_storage (status_put_monotonic R b s)"
| "run_op R B (PutChunk c) = store_put_chunk R B c"
| "run_op R B (PublishBlob cs r) = publish_blob_atomic R B cs \<lparr> pr_state = publish_state_byte Ready, pr_blob_ref = r \<rparr>"
| "run_op R B (AttachBlob b) = store_mark_attached R B b"

definition stored_chunk :: "BlobChunk \<Rightarrow> StoredChunk" where
  "stored_chunk c = \<lparr> sc_total_chunks = chunk_unit_count c, sc_size_bytes = bc_size_bytes c, sc_data = chunk_data c \<rparr>"

definition abs_chunk :: "BlobChunk \<Rightarrow> abs_db \<Rightarrow> abs_db" where
  "abs_chunk c A = A\<lparr>ab_chunks := (ab_chunks A)((bc_blob_id c, chunk_index c) \<mapsto> stored_chunk c)\<rparr>"

text \<open>The specification: what an operation that succeeds does to the typed maps.\<close>

fun abs_op :: "store_op \<Rightarrow> abs_db \<Rightarrow> abs_db option" where
  "abs_op (PutVertex v) A = Some (A\<lparr>ab_vertices := (ab_vertices A)((v_round (cv_vertex v), v_author (cv_vertex v)) \<mapsto> v)\<rparr>)"
| "abs_op (PutMicroCheckpoint cp) A = Some (A\<lparr>ab_micro_cps := (ab_micro_cps A)(uc_anchor_round cp \<mapsto> cp)\<rparr>)"
| "abs_op (PutMicroQc qc) A = Some (A\<lparr>ab_micro_qcs := (ab_micro_qcs A)(uq_checkpoint_hash qc \<mapsto> qc)\<rparr>)"
| "abs_op (PutMacroCheckpoint cp) A = Some (A\<lparr>ab_macro_cps := (ab_macro_cps A)(mc_height cp \<mapsto> cp)\<rparr>)"
| "abs_op (PutMacroQc qc) A = Some (A\<lparr>ab_macro_qcs := (ab_macro_qcs A)(mq_checkpoint_hash qc \<mapsto> qc)\<rparr>)"
| "abs_op (PutPointer h p) A = Some (A\<lparr>ab_pointers := (ab_pointers A)(h \<mapsto> p)\<rparr>)"
| "abs_op (PutValidatorSet vset) A = Some (A\<lparr>ab_valsets := (ab_valsets A)(vs_epoch vset \<mapsto> vset)\<rparr>)"
| "abs_op (AppendEvidence n ev) A = Some (A\<lparr>ab_evidence := (ab_evidence A)(n \<mapsto> ev)\<rparr>)"
| "abs_op (PutVote v r) A = Some (A\<lparr>ab_votes := (ab_votes A)((v, vr_target r) \<mapsto> r)\<rparr>)"
| "abs_op (RaiseStatus b s) A = Some (A\<lparr>ab_statuses := (ab_statuses A)(b \<mapsto>
     (case ab_statuses A b of None \<Rightarrow> s | Some t \<Rightarrow> max s t))\<rparr>)"
| "abs_op (PutChunk c) A = Some (abs_chunk c A)"
| "abs_op (PublishBlob cs r) A = (let A' = fold abs_chunk cs A in
     Some (A'\<lparr>ab_published := (ab_published A')(br_blob_id r \<mapsto> (Ready, r))\<rparr>))"
| "abs_op (AttachBlob b) A = (case ab_published A b of None \<Rightarrow> None
   | Some (s, r) \<Rightarrow> Some (A\<lparr>ab_published := (ab_published A)(b \<mapsto> (Attached, r))\<rparr>))"

text \<open>A database step refines a specified step: it succeeds as specified or fails and changes nothing.\<close>

definition refines :: "borsh_lib \<Rightarrow> ('d \<Rightarrow> contents) \<Rightarrow> abs_db \<Rightarrow> abs_db option \<Rightarrow> ('e, unit) outcome \<times> 'd \<Rightarrow> bool" where
  "refines B view A A' r \<longleftrightarrow> no_panic (fst r) \<and>
     (if is_ok (fst r) then \<exists>A''. A' = Some A'' \<and> represents B (view (snd r)) A''
      else represents B (view (snd r)) A)"

lemma refines_wrote:
  assumes "wrote view d rows r" "represents B (view d) A" "represents B (fold write_row rows (view d)) A'"
  shows "refines B view A (Some A') r"
  using assms by (simp add: refines_def wrote_def)

lemma run_storage_wrote: "wrote view d rows (f d) \<Longrightarrow> wrote view d rows (run_storage f d)"
  by (simp add: run_storage_def wrote_map_err)

section \<open>Reads\<close>

lemma decode_status_byte [simp]: "decode_status (status_byte s) = Ok s"
  by (cases s) (simp_all add: decode_status_def)

lemma publish_state_byte_back [simp]: "publish_state_from_u8 (publish_state_byte s) = Ok s"
  by (cases s) (simp_all add: publish_state_from_u8_def)

lemma get_decoded_column:
  assumes "rocks_ok R view" "column (view d) cf key (decodes C) m"
  shows "get_decoded R C cf (key k) d = Ok (m k)"
  using column_get [OF assms(2), of k] assms(1)
  by (auto simp: get_decoded_def get_raw_view decodes_def option_rel_Some1 elim: option.rel_cases)

lemma vote_row_back:
  assumes "vote_row b r"
  shows "length b = VOTE_RECORD_LEN" "word_of_be (take 8 b) = vr_source r"
    "word_of_be (take 8 (drop 8 b)) = vr_target r" "word_of_be (take 32 (drop 16 b)) = vr_checkpoint r"
    "word_of_be (take 96 (drop 48 b)) = vr_sig r"
  using assms by (simp_all add: vote_row_def VOTE_RECORD_LEN_def word_of_be_bytes)

lemma reads:
  assumes R: "rocks_ok R view" and rep: "represents B (view d) A"
  shows "vertex_get R B r a d = Ok (ab_vertices A (r, a))"
    "micro_get_checkpoint R B s d = Ok (ab_micro_cps A s)"
    "micro_get_qc R B h d = Ok (ab_micro_qcs A h)"
    "macro_get_checkpoint R B ht d = Ok (ab_macro_cps A ht)"
    "macro_get_qc R B h d = Ok (ab_macro_qcs A h)"
    "valset_get R B e d = Ok (ab_valsets A e)"
    "vote_get R a e d = Ok (ab_votes A (a, e))"
    "status_get R b d = Ok (ab_statuses A b)"
    "chunk_get R B b i d = Ok (map_option sc_data (ab_chunks A (b, i)))"
    "chunk_has R b i d = Ok (ab_chunks A (b, i) \<noteq> None)"
    "publish_get R B b d = Ok (map_option publish_record (ab_published A b))"
proof -
  note P = rep [unfolded represents_def]
  show "vertex_get R B r a d = Ok (ab_vertices A (r, a))"
    using get_decoded_column [OF R, of d CfVertex "\<lambda>(r, a). key_vertex r a" "bl_vertex B" "ab_vertices A" "(r, a)"] P
    by (simp add: vertex_get_def)
  show "micro_get_checkpoint R B s d = Ok (ab_micro_cps A s)"
    using get_decoded_column [OF R, of d CfMicroCheckpoint key_slot "bl_micro_cp B" "ab_micro_cps A"] P
    by (simp add: micro_get_checkpoint_def)
  show "micro_get_qc R B h d = Ok (ab_micro_qcs A h)"
    using get_decoded_column [OF R, of d CfMicroQc key_hash "bl_micro_qc B" "ab_micro_qcs A"] P
    by (simp add: micro_get_qc_def)
  show "macro_get_checkpoint R B ht d = Ok (ab_macro_cps A ht)"
    using get_decoded_column [OF R, of d CfMacroCheckpoint key_height "bl_macro_cp B" "ab_macro_cps A"] P
    by (simp add: macro_get_checkpoint_def)
  show "macro_get_qc R B h d = Ok (ab_macro_qcs A h)"
    using get_decoded_column [OF R, of d CfMacroQc key_hash "bl_macro_qc B" "ab_macro_qcs A"] P
    by (simp add: macro_get_qc_def)
  show "valset_get R B e d = Ok (ab_valsets A e)"
    using get_decoded_column [OF R, of d CfValidatorSet key_epoch "bl_valset B" "ab_valsets A"] P
    by (simp add: valset_get_def)
  have "rel_option vote_row (view d ''votebook'' (key_votebook a e)) (ab_votes A (a, e))"
    using column_get [of "view d" CfVoteBook "\<lambda>(v, t). key_votebook v t" vote_row "ab_votes A" "(a, e)"] P by simp
  then show "vote_get R a e d = Ok (ab_votes A (a, e))"
    by (cases rule: option.rel_cases) (simp_all add: vote_get_def get_raw_view [OF R] vote_row_back)
  have "rel_option status_row (view d ''blob_status'' (key_blob_id b)) (ab_statuses A b)"
    using column_get [of "view d" CfBlobStatus key_blob_id status_row "ab_statuses A" b] P by simp
  then show "status_get R b d = Ok (ab_statuses A b)"
    by (cases rule: option.rel_cases) (simp_all add: status_get_def get_raw_view [OF R] status_row_def)
  show "chunk_get R B b i d = Ok (map_option sc_data (ab_chunks A (b, i)))"
    using get_decoded_column [OF R, of d CfBlobChunk "\<lambda>(b, i). key_blob_chunk b i" "bl_chunk B" "ab_chunks A" "(b, i)"] P
    by (simp add: chunk_get_def)
  have "rel_option (decodes (bl_chunk B)) (view d ''blob_chunk'' (key_blob_chunk b i)) (ab_chunks A (b, i))"
    using column_get [of "view d" CfBlobChunk "\<lambda>(b, i). key_blob_chunk b i" "decodes (bl_chunk B)" "ab_chunks A" "(b, i)"] P by simp
  then show "chunk_has R b i d = Ok (ab_chunks A (b, i) \<noteq> None)"
    by (cases rule: option.rel_cases) (simp_all add: chunk_has_def get_raw_view [OF R])
  have "rel_option (publish_row B) (view d ''blob_publish'' (key_blob_id b)) (ab_published A b)"
    using column_get [of "view d" CfBlobPublish key_blob_id "publish_row B" "ab_published A" b] P by simp
  then show "publish_get R B b d = Ok (map_option publish_record (ab_published A b))"
    by (cases rule: option.rel_cases)
      (simp_all add: publish_get_def get_decoded_def get_raw_view [OF R] publish_row_def decodes_def)
qed

section \<open>Simulation\<close>

lemma row_refines:
  assumes "wrote view d [(n, k, v)] r" "represents B (view d) A" "represents B (write_row (n, k, v) (view d)) A'"
  shows "refines B view A (Some A') (map_prod (map_err f) id r)"
  by (rule refines_wrote [OF wrote_map_err [OF assms(1)] assms(2)]) (simp add: assms(3))

lemma put_encoded_refines:
  assumes R: "rocks_ok R view" and C: "codec_ok C" and rep: "represents B (view d) A"
    and A': "\<And>b. decodes C b x \<Longrightarrow> represents B (write_row (cf_name cf, key, b) (view d)) A'"
  shows "refines B view A (Some A') (map_prod (map_err f) id (put_encoded R C cf key x d))"
  using C
proof (cases rule: codec_cases [where x = x, case_names bytes error])
  case (bytes b)
  then show ?thesis
    using row_refines [OF put_raw_wrote [OF R] rep A', of b f] by (simp add: put_encoded_def decodes_def)
next
  case (error e)
  then show ?thesis
    using rep by (simp add: put_encoded_def refines_def)
qed

lemma put_simulates:
  assumes R: "rocks_ok R view" and B: "borsh_ok B" and rep: "represents B (view d) A"
  shows "refines B view A (abs_op (PutVertex v) A) (run_op R B (PutVertex v) d)"
    "refines B view A (abs_op (PutMicroCheckpoint ucp) A) (run_op R B (PutMicroCheckpoint ucp) d)"
    "refines B view A (abs_op (PutMicroQc uqc) A) (run_op R B (PutMicroQc uqc) d)"
    "refines B view A (abs_op (PutMacroCheckpoint cp) A) (run_op R B (PutMacroCheckpoint cp) d)"
    "refines B view A (abs_op (PutMacroQc qc) A) (run_op R B (PutMacroQc qc) d)"
    "refines B view A (abs_op (PutValidatorSet vset) A) (run_op R B (PutValidatorSet vset) d)"
    "refines B view A (abs_op (AppendEvidence n ev) A) (run_op R B (AppendEvidence n ev) d)"
    "refines B view A (abs_op (PutChunk c) A) (run_op R B (PutChunk c) d)"
  unfolding run_op.simps abs_op.simps run_storage_def vertex_put_def micro_put_checkpoint_def micro_put_qc_def
    macro_put_checkpoint_def macro_put_qc_def valset_put_def slash_append_def store_put_chunk_def chunk_put_def
    abs_chunk_def stored_chunk_def chunk_payload_bytes_def chunk_data_def
  using B by (auto intro!: put_encoded_refines [OF R _ rep] represents_put [OF rep] simp: borsh_ok_def)

lemma raw_simulates:
  assumes R: "rocks_ok R view" and rep: "represents B (view d) A"
  shows "refines B view A (abs_op (PutPointer h p) A) (run_op R B (PutPointer h p) d)"
    "refines B view A (abs_op (PutVote a vote) A) (run_op R B (PutVote a vote) d)"
  unfolding run_op.simps abs_op.simps run_storage_def put_two_chain_pointer_def vote_put_def
  by (auto intro!: row_refines [OF put_raw_wrote [OF R] rep] represents_put [OF rep] simp: pointer_row_def vote_row_def)

lemma status_simulates:
  assumes R: "rocks_ok R view" and rep: "represents B (view d) A"
  shows "refines B view A (abs_op (RaiseStatus b s) A) (run_op R B (RaiseStatus b s) d)"
proof -
  note st = reads(8) [OF R rep]
  show ?thesis
  proof (cases "case ab_statuses A b of None \<Rightarrow> True | Some t \<Rightarrow> t < s")
    case True
    then have "(case ab_statuses A b of None \<Rightarrow> s | Some t \<Rightarrow> max s t) = s"
      by (auto split: option.splits)
    then show ?thesis
      using True st row_refines [OF put_raw_wrote [OF R, of d CfBlobStatus "key_blob_id b" "[status_byte s]"] rep]
        represents_put(10) [OF rep, of "[status_byte s]" s b]
      by (simp add: run_storage_def status_put_monotonic_def status_row_def)
  next
    case False
    then obtain t where t: "ab_statuses A b = Some t" "max s t = t"
      by (auto split: option.splits)
    then have "A\<lparr>ab_statuses := (ab_statuses A)(b \<mapsto> max s t)\<rparr> = A"
      by (simp add: fun_upd_idem)
    then show ?thesis
      using False st t rep by (simp add: run_storage_def status_put_monotonic_def refines_def)
  qed
qed

lemma attach_simulates:
  assumes R: "rocks_ok R view" and B: "borsh_ok B" and rep: "represents B (view d) A"
  shows "refines B view A (abs_op (AttachBlob b) A) (run_op R B (AttachBlob b) d)"
proof (cases "ab_published A b")
  case None
  then show ?thesis
    using reads(11) [OF R rep] rep by (simp add: store_mark_attached_def put_attached_def refines_def)
next
  case (Some p)
  obtain s r where p: "p = (s, r)"
    by fastforce
  note got = reads(11) [OF R rep, of b]
  show ?thesis
  proof (cases s)
    case Ready
    have "codec_ok (bl_publish B)"
      using B by (simp add: borsh_ok_def)
    then have "refines B view A (Some (A\<lparr>ab_published := (ab_published A)(b \<mapsto> (Attached, r))\<rparr>))
        (map_prod (map_err store_err) id (put_encoded R (bl_publish B) CfBlobPublish (key_blob_id b)
          (publish_record (Attached, r)) d))"
      by (rule put_encoded_refines [OF R _ rep]) (simp add: represents_put(12) [OF rep] publish_row_def)
    then show ?thesis
      using Ready Some p got publish_state_byte_back [of Ready]
      by (simp add: store_mark_attached_def put_attached_def publish_row_def publish_record_def)
  next
    case Attached
    then have "A\<lparr>ab_published := (ab_published A)(b \<mapsto> (Attached, r))\<rparr> = A"
      using Some p by (simp add: fun_upd_idem)
    then show ?thesis
      using Attached Some p got rep publish_state_byte_back [of Attached]
      by (simp add: store_mark_attached_def put_attached_def publish_record_def refines_def)
  qed
qed

text \<open>Publication: one batch with a row per chunk and the record.\<close>

definition chunk_row :: "borsh_lib \<Rightarrow> BlobChunk \<Rightarrow> string \<times> bytes \<times> bytes \<Rightarrow> bool" where
  "chunk_row B c row \<longleftrightarrow> (\<exists>b. row = (cf_name CfBlobChunk, key_blob_chunk (bc_blob_id c) (chunk_index c), b) \<and>
     decodes (bl_chunk B) b (stored_chunk c))"

lemma batch_chunks_rows:
  assumes R: "rocks_ok R view" and B: "borsh_ok B"
  shows "(\<exists>rows. batch_chunks R B cs d b = Ok (b @ rows) \<and> list_all2 (chunk_row B) cs rows) \<or>
    (\<exists>e. batch_chunks R B cs d b = Err e)"
proof (induction cs arbitrary: b)
  case (Cons c cs)
  have "codec_ok (bl_chunk B)"
    using B by (simp add: borsh_ok_def)
  then show ?case
  proof (cases rule: codec_cases [where x = "stored_chunk c", case_names bytes error])
    case (bytes v)
    let ?row = "(''blob_chunk'', key_blob_chunk (bc_blob_id c) (chunk_index c), v)"
    have "batch_chunks R B (c # cs) d b = batch_chunks R B cs d (b @ [?row])"
      using bytes(1) by (simp add: chunk_put_batch_def batch_put_def db_cf_Ok [OF R] stored_chunk_def
          chunk_payload_bytes_def chunk_data_def)
    moreover have "chunk_row B c ?row"
      using bytes(2) by (simp add: chunk_row_def decodes_def)
    ultimately show ?thesis
      using Cons.IH [of "b @ [?row]"] by fastforce
  next
    case (error e)
    then show ?thesis
      by (simp add: chunk_put_batch_def stored_chunk_def chunk_payload_bytes_def chunk_data_def)
  qed
qed simp

lemma represents_chunks:
  "list_all2 (chunk_row B) cs rows \<Longrightarrow> represents B w A \<Longrightarrow> represents B (fold write_row rows w) (fold abs_chunk cs A)"
proof (induction cs rows arbitrary: w A rule: list_all2_induct)
  case (Cons c cs row rows)
  then show ?case
    using represents_put(11) [OF Cons.prems] by (auto simp: chunk_row_def abs_chunk_def)
qed simp

lemma publish_simulates:
  assumes R: "rocks_ok R view" and B: "borsh_ok B" and rep: "represents B (view d) A"
  shows "refines B view A (abs_op (PublishBlob cs r) A) (run_op R B (PublishBlob cs r) d)"
proof -
  have C: "codec_ok (bl_publish B)"
    using B by (simp add: borsh_ok_def)
  consider (rows) rows where "batch_chunks R B cs d [] = Ok rows" "list_all2 (chunk_row B) cs rows"
    | (failed) e where "batch_chunks R B cs d [] = Err e"
    using batch_chunks_rows [OF R B, of cs d "[]"] by auto
  then show ?thesis
  proof cases
    case rows
    show ?thesis
      using C
    proof (cases rule: codec_cases [where x = "publish_record (Ready, r)", case_names bytes error])
      case (bytes v)
      let ?rows = "rows @ [(''blob_publish'', key_blob_id (br_blob_id r), v)]"
      have "run_op R B (PublishBlob cs r) d = map_prod (map_err store_err) id (wal_apply R ?rows d)"
        using rows(1) bytes(1) by (simp add: publish_blob_atomic_def put_ready_batch_def batch_put_def db_cf_Ok [OF R]
            publish_record_def)
      moreover have "represents B (fold write_row ?rows (view d))
          ((fold abs_chunk cs A)\<lparr>ab_published := (ab_published (fold abs_chunk cs A))(br_blob_id r \<mapsto> (Ready, r))\<rparr>)"
        using represents_put(12) [OF represents_chunks [OF rows(2) rep]] bytes(2)
        by (simp add: publish_row_def decodes_def)
      ultimately show ?thesis
        using refines_wrote [OF wrote_map_err [OF wal_apply_wrote [OF R, of d ?rows]] rep] by (simp add: Let_def)
    next
      case (error e)
      then show ?thesis
        using rows(1) rep by (simp add: publish_blob_atomic_def put_ready_batch_def publish_record_def refines_def)
    qed
  next
    case failed
    then show ?thesis
      using rep by (simp add: publish_blob_atomic_def refines_def)
  qed
qed

lemma run_op_simulates:
  assumes "rocks_ok R view" "borsh_ok B" "represents B (view d) A"
  shows "refines B view A (abs_op op A) (run_op R B op d)"
  using put_simulates [OF assms] attach_simulates [OF assms] publish_simulates [OF assms]
    raw_simulates [OF assms(1,3)] status_simulates [OF assms(1,3)] by (cases op) blast+

section \<open>Sequences of operations\<close>

fun run_ops :: "'d rocks_lib \<Rightarrow> borsh_lib \<Rightarrow> store_op list \<Rightarrow> 'd \<Rightarrow> 'd" where
  "run_ops R B [] d = d"
| "run_ops R B (op # ops) d = run_ops R B ops (snd (run_op R B op d))"

text \<open>The operations of a sequence that report success.\<close>

fun succeeded :: "'d rocks_lib \<Rightarrow> borsh_lib \<Rightarrow> store_op list \<Rightarrow> 'd \<Rightarrow> store_op list" where
  "succeeded R B [] d = []"
| "succeeded R B (op # ops) d = (if is_ok (fst (run_op R B op d)) then [op] else []) @
     succeeded R B ops (snd (run_op R B op d))"

fun abs_ops :: "store_op list \<Rightarrow> abs_db \<Rightarrow> abs_db option" where
  "abs_ops [] A = Some A"
| "abs_ops (op # ops) A = Option.bind (abs_op op A) (abs_ops ops)"

lemma run_ops_simulates:
  assumes "rocks_ok R view" "borsh_ok B" "represents B (view d) A"
  obtains A' where "abs_ops (succeeded R B ops d) A = Some A'" "represents B (view (run_ops R B ops d)) A'"
  using assms(3)
proof (induction ops arbitrary: d A thesis)
  case (Cons op ops)
  have "refines B view A (abs_op op A) (run_op R B op d)"
    by (rule run_op_simulates [OF assms(1,2) Cons.prems(2)])
  then obtain A1 where A1: "represents B (view (snd (run_op R B op d))) A1"
      "if is_ok (fst (run_op R B op d)) then abs_op op A = Some A1 else A1 = A"
    by (auto simp: refines_def split: if_splits)
  obtain A2 where "abs_ops (succeeded R B ops (snd (run_op R B op d))) A1 = Some A2"
      "represents B (view (run_ops R B ops (snd (run_op R B op d)))) A2"
    using Cons.IH [OF _ A1(1)] by blast
  then show ?case
    using A1(2) by (intro Cons.prems(1) [of A2]) (simp_all split: if_splits)
qed simp

text \<open>A database whose writes succeed, and an operation whose rows can be encoded.\<close>

definition writable :: "'d rocks_lib \<Rightarrow> bool" where
  "writable R \<longleftrightarrow> (\<forall>d n k v. is_ok (fst (rocks_put R d n k v))) \<and> (\<forall>d b. is_ok (fst (rocks_write R d b)))"

fun encodable :: "borsh_lib \<Rightarrow> abs_db \<Rightarrow> store_op \<Rightarrow> bool" where
  "encodable B A (PutVertex v) = is_ok (enc_of (bl_vertex B) v)"
| "encodable B A (PutMicroCheckpoint cp) = is_ok (enc_of (bl_micro_cp B) cp)"
| "encodable B A (PutMicroQc qc) = is_ok (enc_of (bl_micro_qc B) qc)"
| "encodable B A (PutMacroCheckpoint cp) = is_ok (enc_of (bl_macro_cp B) cp)"
| "encodable B A (PutMacroQc qc) = is_ok (enc_of (bl_macro_qc B) qc)"
| "encodable B A (PutPointer h p) = True"
| "encodable B A (PutValidatorSet vset) = is_ok (enc_of (bl_valset B) vset)"
| "encodable B A (AppendEvidence n ev) = is_ok (enc_of (bl_evidence B) ev)"
| "encodable B A (PutVote v r) = True"
| "encodable B A (RaiseStatus b s) = True"
| "encodable B A (PutChunk c) = is_ok (enc_of (bl_chunk B) (stored_chunk c))"
| "encodable B A (PublishBlob cs r) = (list_all (\<lambda>c. is_ok (enc_of (bl_chunk B) (stored_chunk c))) cs \<and>
     is_ok (enc_of (bl_publish B) (publish_record (Ready, r))))"
| "encodable B A (AttachBlob b) = (case ab_published A b of None \<Rightarrow> True
   | Some (s, r) \<Rightarrow> is_ok (enc_of (bl_publish B) (publish_record (Attached, r))))"

lemma put_raw_ok: "rocks_ok R view \<Longrightarrow> writable R \<Longrightarrow> is_ok (fst (put_raw R cf key v d))"
  by (simp add: put_raw_def db_cf_Ok writable_def map_err_cases)

lemma put_encoded_ok:
  "rocks_ok R view \<Longrightarrow> writable R \<Longrightarrow> is_ok (enc_of C x) \<Longrightarrow> is_ok (fst (put_encoded R C cf key x d))"
  using put_raw_ok [of R view] by (cases "enc_of C x") (auto simp: put_encoded_def)

lemma batch_chunks_ok:
  assumes "rocks_ok R view" "list_all (\<lambda>c. is_ok (enc_of (bl_chunk B) (stored_chunk c))) cs"
  shows "\<exists>rows. batch_chunks R B cs d b = Ok rows"
  using assms(2)
proof (induction cs arbitrary: b)
  case (Cons c cs)
  then show ?case
    by (cases "enc_of (bl_chunk B) (stored_chunk c)")
      (simp_all add: chunk_put_batch_def batch_put_def db_cf_Ok [OF assms(1)] stored_chunk_def chunk_payload_bytes_def
        chunk_data_def)
qed simp

lemma publish_ok:
  assumes "rocks_ok R view" "writable R" "encodable B A (PublishBlob cs r)"
  shows "is_ok (fst (run_op R B (PublishBlob cs r) d))"
proof -
  obtain rows where "batch_chunks R B cs d [] = Ok rows"
    using batch_chunks_ok [OF assms(1), of B cs d "[]"] assms(3) by auto
  then show ?thesis
    using assms(2,3)
    by (cases "enc_of (bl_publish B) (publish_record (Ready, r))")
      (simp_all add: publish_blob_atomic_def put_ready_batch_def batch_put_def db_cf_Ok [OF assms(1)] publish_record_def
        wal_apply_def writable_def map_err_cases)
qed

lemma attach_ok:
  assumes "rocks_ok R view" "writable R" "represents B (view d) A" "encodable B A (AttachBlob b)"
  shows "is_ok (fst (run_op R B (AttachBlob b) d)) \<longleftrightarrow> ab_published A b \<noteq> None"
proof (cases "ab_published A b")
  case (Some p)
  obtain s r where p: "p = (s, r)"
    by fastforce
  then have "is_ok (enc_of (bl_publish B) (publish_record (Attached, r)))"
    using assms(4) Some by simp
  from put_encoded_ok [OF assms(1,2) this]
  show ?thesis
    using reads(11) [OF assms(1,3), of b] Some p publish_state_byte_back [of s]
    by (cases s) (simp_all add: store_mark_attached_def put_attached_def publish_record_def map_err_cases)
qed (simp add: store_mark_attached_def put_attached_def reads(11) [OF assms(1,3)])

lemma run_op_ok:
  assumes "rocks_ok R view" "writable R" "represents B (view d) A" "encodable B A op"
  shows "is_ok (fst (run_op R B op d)) \<longleftrightarrow> abs_op op A \<noteq> None"
proof -
  note ok = put_raw_ok [OF assms(1,2)] put_encoded_ok [OF assms(1,2)]
  show ?thesis
  proof (cases op)
    case (PublishBlob cs r)
    then show ?thesis
      using publish_ok [OF assms(1,2)] assms(4) by (simp add: Let_def del: run_op.simps encodable.simps)
  next
    case (AttachBlob b)
    then show ?thesis
      using attach_ok [OF assms(1-3)] assms(4) by (simp split: option.splits del: run_op.simps encodable.simps)
  next
    case (RaiseStatus b s)
    then show ?thesis
      using ok(1) by (simp add: run_storage_def status_put_monotonic_def reads(8) [OF assms(1,3)] map_err_cases)
  qed (use assms(4) ok in \<open>simp_all add: run_storage_def map_err_cases vertex_put_def micro_put_checkpoint_def
      micro_put_qc_def macro_put_checkpoint_def macro_put_qc_def valset_put_def slash_append_def store_put_chunk_def
      chunk_put_def put_two_chain_pointer_def vote_put_def stored_chunk_def chunk_payload_bytes_def chunk_data_def\<close>)
qed

text \<open>What every read of the stores returns.\<close>

definition reads_agree :: "'d rocks_lib \<Rightarrow> borsh_lib \<Rightarrow> 'd \<Rightarrow> abs_db \<Rightarrow> bool" where
  "reads_agree R B d A \<longleftrightarrow>
     (\<forall>r a. vertex_get R B r a d = Ok (ab_vertices A (r, a))) \<and>
     (\<forall>s. micro_get_checkpoint R B s d = Ok (ab_micro_cps A s)) \<and>
     (\<forall>h. micro_get_qc R B h d = Ok (ab_micro_qcs A h)) \<and>
     (\<forall>h. macro_get_checkpoint R B h d = Ok (ab_macro_cps A h)) \<and>
     (\<forall>h. macro_get_qc R B h d = Ok (ab_macro_qcs A h)) \<and>
     (\<forall>e. valset_get R B e d = Ok (ab_valsets A e)) \<and>
     (\<forall>v t. vote_get R v t d = Ok (ab_votes A (v, t))) \<and>
     (\<forall>b. status_get R b d = Ok (ab_statuses A b)) \<and>
     (\<forall>b i. chunk_get R B b i d = Ok (map_option sc_data (ab_chunks A (b, i)))) \<and>
     (\<forall>b i. chunk_has R b i d = Ok (ab_chunks A (b, i) \<noteq> None)) \<and>
     (\<forall>b. publish_get R B b d = Ok (map_option publish_record (ab_published A b))) \<and>
     (\<forall>b. publish_is_attached R B b d = Ok (map_option fst (ab_published A b) = Some Attached))"

lemma is_attached_reads:
  assumes "rocks_ok R view" "represents B (view d) A"
  shows "publish_is_attached R B b d = Ok (map_option fst (ab_published A b) = Some Attached)"
proof (cases "ab_published A b")
  case (Some p)
  then show ?thesis
    using publish_state_byte_back [of "fst p"]
    by (cases p) (simp add: publish_is_attached_def reads(11) [OF assms] publish_record_def)
qed (simp add: publish_is_attached_def reads(11) [OF assms])

lemma reads_agree_represents:
  assumes "rocks_ok R view" "represents B (view d) A"
  shows "reads_agree R B d A"
  using reads [OF assms] is_attached_reads [OF assms] by (simp add: reads_agree_def)

text \<open>The scan of the publish records lists the blobs that are \<open>Ready\<close>.\<close>

lemma scan_ready_rows_Ok:
  assumes "list_all (\<lambda>(k, v). publish_row B v (m k)) rows"
  shows "scan_ready_rows B (map Ok rows) =
    Ok (map snd (filter (\<lambda>p. fst p = Ready) (map (\<lambda>(k, v). m k) rows)))"
  using assms
proof (induction rows)
  case (Cons kv rows)
  obtain k v where kv: "kv = (k, v)"
    by fastforce
  then show ?case
    using Cons publish_state_byte_back [of "fst (m k)"]
    by (cases "m k") (simp add: publish_row_def decodes_def publish_record_def)
qed simp

lemma scan_ready_set:
  assumes R: "rocks_ok R view" and rep: "represents B (view d) A"
  obtains refs where "scan_ready R B d = Ok refs" "set refs = {r. \<exists>b. ab_published A b = Some (Ready, r)}"
proof -
  obtain rows where rows: "rocks_iter R d ''blob_publish'' = map Ok rows" "distinct (map fst rows)"
      "map_of rows = view d ''blob_publish''"
    using R unfolding rocks_ok_def by meson
  have col: "column (view d) CfBlobPublish key_blob_id (publish_row B) (ab_published A)"
    using rep by (simp add: represents_def)
  define m where "m k = the (ab_published A (the_inv key_blob_id k))" for k
  have entry: "\<exists>b. k = key_blob_id b \<and> publish_row B v (m k) \<and> ab_published A b = Some (m k)" if "(k, v) \<in> set rows" for k v
  proof -
    have kv: "view d ''blob_publish'' k = Some v"
      using that rows by (metis map_of_is_SomeI)
    then obtain b where b: "k = key_blob_id b"
      using col by (auto simp: column_def)
    then have "rel_option (publish_row B) (Some v) (ab_published A b)"
      using kv column_get [OF col, of b] by simp
    then show ?thesis
      using b by (auto simp: m_def option_rel_Some1 the_inv_f_f [OF key_inj(6)])
  qed
  have present: "\<exists>v. (key_blob_id b, v) \<in> set rows \<and> m (key_blob_id b) = p" if "ab_published A b = Some p" for b p
    using column_get [OF col, of b] that
    by (auto simp: option_rel_Some2 m_def the_inv_f_f [OF key_inj(6)] rows(3) [symmetric] dest: map_of_SomeD)
  let ?refs = "map snd (filter (\<lambda>p. fst p = Ready) (map (\<lambda>(k, v). m k) rows))"
  have "list_all (\<lambda>(k, v). publish_row B v (m k)) rows"
    using entry by (auto simp: list_all_iff)
  from scan_ready_rows_Ok [OF this] have "scan_ready R B d = Ok ?refs"
    using db_cf_Ok [OF R, of CfBlobPublish d] rows(1) by (simp add: scan_ready_def scan_cf_def db_cf_def comp_def split: if_splits)
  moreover have mem: "r \<in> set ?refs \<longleftrightarrow> (\<exists>kv \<in> set rows. m (fst kv) = (Ready, r))" for r
    by (auto simp: case_prod_beta prod_eq_iff image_iff) (metis fst_conv)+
  have "r \<in> set ?refs \<longleftrightarrow> (\<exists>b. ab_published A b = Some (Ready, r))" for r
    unfolding mem
  proof
    assume "\<exists>kv \<in> set rows. m (fst kv) = (Ready, r)"
    then obtain k v where "(k, v) \<in> set rows" "m k = (Ready, r)"
      by auto
    with entry [OF this(1)] show "\<exists>b. ab_published A b = Some (Ready, r)"
      by auto
  next
    assume "\<exists>b. ab_published A b = Some (Ready, r)"
    then obtain b where "ab_published A b = Some (Ready, r)"
      by blast
    from present [OF this] show "\<exists>kv \<in> set rows. m (fst kv) = (Ready, r)"
      by (auto intro: bexI [where x = "(key_blob_id b, v)" for v])
  qed
  then have "set ?refs = {r. \<exists>b. ab_published A b = Some (Ready, r)}"
    by blast
  ultimately show thesis ..
qed

end
