(* ===== verification/Storage_Samples.thy ===== *)
theory Storage_Samples
  imports Storage_Facts "HOL-Library.AList"
begin

text \<open>
  An in-memory database and codecs that satisfy the hypotheses on RocksDB and borsh, for the witnesses:
  columns are association lists, and blob chunks, publish records and macro checkpoints are encoded as the
  concatenation of their fields. The codecs of the other types refuse every value.
\<close>

type_synonym mem_db = "string \<Rightarrow> (bytes \<times> bytes) list"

definition mem_write :: "string \<times> bytes \<times> bytes \<Rightarrow> mem_db \<Rightarrow> mem_db" where
  "mem_write = (\<lambda>(n, k, v) d. d(n := AList.update k v (d n)))"

definition mem_rocks :: "mem_db rocks_lib" where
  "mem_rocks = \<lparr> rocks_cf_handle = (\<lambda>d n. True),
     rocks_put = (\<lambda>d n k v. (Ok (), mem_write (n, k, v) d)),
     rocks_get = (\<lambda>d n k. Ok (map_of (d n) k)),
     rocks_write = (\<lambda>d b. (Ok (), fold mem_write b d)),
     rocks_iter = (\<lambda>d n. map Ok (AList.clearjunk (d n))) \<rparr>"

definition mem_view :: "mem_db \<Rightarrow> contents" where
  "mem_view d n = map_of (d n)"

lemma mem_view_write [simp]: "mem_view (mem_write row d) = write_row row (mem_view d)"
  by (cases row) (auto simp: mem_view_def mem_write_def write_row_def update_conv')

lemma mem_view_writes: "mem_view (fold mem_write b d) = fold write_row b (mem_view d)"
  by (induction b arbitrary: d) simp_all

lemma rocks_ok_mem: "rocks_ok mem_rocks mem_view"
proof -
  have "\<exists>rows. map Ok (AList.clearjunk (d n)) = (map Ok rows :: (string, bytes \<times> bytes) outcome list) \<and>
      distinct (map fst rows) \<and> map_of rows = mem_view d n" for d n
    by (rule exI [of _ "AList.clearjunk (d n)"]) (simp add: distinct_clearjunk mem_view_def map_of_clearjunk)
  then show ?thesis
    by (simp add: rocks_ok_def mem_rocks_def mem_view_writes) (simp add: mem_view_def)
qed

lemma writable_mem: "writable mem_rocks"
  by (simp add: writable_def mem_rocks_def)

definition refusing_codec :: "'a codec" where
  "refusing_codec = \<lparr> enc_of = (\<lambda>_. Err ''unsupported''), dec_of = (\<lambda>_. Err ''unsupported'') \<rparr>"

definition chunk_codec :: "StoredChunk codec" where
  "chunk_codec = \<lparr>
     enc_of = (\<lambda>c. Ok (be_bytes 4 (sc_total_chunks c) @ be_bytes 8 (sc_size_bytes c) @ sc_data c)),
     dec_of = (\<lambda>b. if length b < 12 then Err ''unexpected length'' else Ok \<lparr> sc_total_chunks = word_of_be (take 4 b),
       sc_size_bytes = word_of_be (take 8 (drop 4 b)), sc_data = drop 12 b \<rparr>) \<rparr>"

definition publish_codec :: "PublishRecord codec" where
  "publish_codec = \<lparr>
     enc_of = (\<lambda>r. Ok (pr_state r # be_bytes 32 (br_blob_id (pr_blob_ref r)) @
       be_bytes 32 (br_commitment (pr_blob_ref r)) @ be_bytes 8 (br_size_bytes (pr_blob_ref r)))),
     dec_of = (\<lambda>b. if length b \<noteq> 73 then Err ''unexpected length'' else Ok \<lparr> pr_state = b ! 0,
       pr_blob_ref = \<lparr> br_blob_id = word_of_be (take 32 (drop 1 b)),
         br_commitment = word_of_be (take 32 (drop 33 b)), br_size_bytes = word_of_be (take 8 (drop 65 b)) \<rparr> \<rparr>) \<rparr>"

definition macro_cp_codec :: "MacroCheckpoint codec" where
  "macro_cp_codec = \<lparr>
     enc_of = (\<lambda>c. Ok (be_bytes 8 (mc_height c) @ be_bytes 8 (mc_epoch c) @ be_bytes 32 (mc_parent c) @
       be_bytes 32 (mc_micro_root c) @ be_bytes 32 (mc_hash c))),
     dec_of = (\<lambda>b. if length b \<noteq> 112 then Err ''unexpected length'' else Ok \<lparr> mc_height = word_of_be (take 8 b),
       mc_epoch = word_of_be (take 8 (drop 8 b)), mc_parent = word_of_be (take 32 (drop 16 b)),
       mc_micro_root = word_of_be (take 32 (drop 48 b)), mc_hash = word_of_be (take 32 (drop 80 b)) \<rparr>) \<rparr>"

definition sample_borsh :: borsh_lib where
  "sample_borsh = \<lparr> bl_vertex = refusing_codec, bl_micro_cp = refusing_codec, bl_micro_qc = refusing_codec,
     bl_macro_cp = macro_cp_codec, bl_macro_qc = refusing_codec, bl_valset = refusing_codec,
     bl_evidence = refusing_codec, bl_chunk = chunk_codec, bl_publish = publish_codec \<rparr>"

lemma codec_ok_samples: "codec_ok refusing_codec" "codec_ok chunk_codec" "codec_ok publish_codec" "codec_ok macro_cp_codec"
  by (simp_all add: codec_ok_def refusing_codec_def chunk_codec_def publish_codec_def macro_cp_codec_def word_of_be_bytes)

lemma borsh_ok_sample: "borsh_ok sample_borsh"
  by (simp add: borsh_ok_def sample_borsh_def codec_ok_samples)

text \<open>A new database is empty.\<close>

definition empty_db :: mem_db where
  "empty_db = (\<lambda>_. [])"

definition no_entries :: abs_db where
  "no_entries = \<lparr> ab_vertices = Map.empty, ab_micro_cps = Map.empty, ab_micro_qcs = Map.empty,
     ab_macro_cps = Map.empty, ab_macro_qcs = Map.empty, ab_pointers = Map.empty, ab_valsets = Map.empty,
     ab_evidence = Map.empty, ab_votes = Map.empty, ab_statuses = Map.empty, ab_chunks = Map.empty,
     ab_published = Map.empty \<rparr>"

lemma represents_empty: "represents B (mem_view empty_db) no_entries"
  by (simp add: represents_def column_def mem_view_def empty_db_def no_entries_def)

end
