(* ===== verification/Storage_Properties.thy ===== *)
theory Storage_Properties
  imports Storage_Samples
begin

text \<open>What the stores promise: they implement typed maps.\<close>

section \<open>The stores implement typed maps\<close>

text \<open>
  C9: When RocksDB keeps what it acknowledges and the codecs give back what they encoded, the stores
  implement twelve typed maps. Run any sequence of store operations on a database that represents the maps
  \<open>A\<close>: the database then represents the maps that the acknowledged operations make of \<open>A\<close>, in their order,
  as if the others had not been issued. Every read returns the entry of its map: vertices by round and
  author, micro and macro checkpoints and certificates, validator sets, votes, blob statuses, chunks and
  publish records. A status only rises, publishing writes all chunks and the record together, and
  attaching needs a record. On a database that accepts writes, an operation whose rows can be encoded is
  acknowledged exactly when its specification is defined.
\<close>

theorem storage_refinement:
  assumes "rocks_ok R view" "borsh_ok B" "represents B (view d) A"
  shows "\<exists>A'. abs_ops (succeeded R B ops d) A = Some A' \<and>
    represents B (view (run_ops R B ops d)) A' \<and> reads_agree R B (run_ops R B ops d) A' \<and>
    (\<forall>op. writable R \<and> encodable B A' op \<longrightarrow>
      is_ok (fst (run_op R B op (run_ops R B ops d))) = (abs_op op A' \<noteq> None))"
proof -
  obtain A' where A': "abs_ops (succeeded R B ops d) A = Some A'" "represents B (view (run_ops R B ops d)) A'"
    by (rule run_ops_simulates [OF assms])
  then show ?thesis
    using reads_agree_represents [OF assms(1) A'(2)] run_op_ok [OF assms(1) _ A'(2)] by blast
qed

text \<open>
  A blob with two chunks is published, its status is raised and lowered, a checkpoint is stored and the
  blob is attached; attaching an unknown blob fails. The reads afterwards return these entries.
\<close>

definition sample_ref :: BlobRef where
  "sample_ref = \<lparr> br_blob_id = 7, br_commitment = 9, br_size_bytes = 2 \<rparr>"

definition sample_chunk :: "u32 \<Rightarrow> BlobChunk" where
  "sample_chunk i = \<lparr> bc_blob_id = 7, bc_size_bytes = 2, bc_payload = ErasureChunk i 2 [5] \<rparr>"

definition sample_checkpoint :: MacroCheckpoint where
  "sample_checkpoint = \<lparr> mc_height = 1, mc_epoch = 0, mc_parent = 4, mc_micro_root = 5, mc_hash = 6 \<rparr>"

definition sample_ops :: "store_op list" where
  "sample_ops = [PublishBlob [sample_chunk 0, sample_chunk 1] sample_ref, RaiseStatus 7 Justified,
     RaiseStatus 7 Accepted, AttachBlob 8, PutMacroCheckpoint sample_checkpoint, AttachBlob 7]"

lemma sample_ops_run:
  "succeeded mem_rocks sample_borsh sample_ops empty_db =
     [PublishBlob [sample_chunk 0, sample_chunk 1] sample_ref, RaiseStatus 7 Justified,
      RaiseStatus 7 Accepted, PutMacroCheckpoint sample_checkpoint, AttachBlob 7]"
  by code_simp

lemma storage_refinement_witness:
  "publish_get mem_rocks sample_borsh 7 (run_ops mem_rocks sample_borsh sample_ops empty_db) =
     Ok (Some (publish_record (Attached, sample_ref))) \<and>
   status_get mem_rocks 7 (run_ops mem_rocks sample_borsh sample_ops empty_db) = Ok (Some Justified) \<and>
   chunk_get mem_rocks sample_borsh 7 1 (run_ops mem_rocks sample_borsh sample_ops empty_db) = Ok (Some [5]) \<and>
   macro_get_checkpoint mem_rocks sample_borsh 1 (run_ops mem_rocks sample_borsh sample_ops empty_db) =
     Ok (Some sample_checkpoint) \<and>
   \<not> is_ok (fst (run_op mem_rocks sample_borsh (AttachBlob 8) (run_ops mem_rocks sample_borsh sample_ops empty_db)))"
proof -
  obtain A' where A': "abs_ops (succeeded mem_rocks sample_borsh sample_ops empty_db) no_entries = Some A'"
    and agree: "reads_agree mem_rocks sample_borsh (run_ops mem_rocks sample_borsh sample_ops empty_db) A'"
    and ok: "\<And>op. writable mem_rocks \<and> encodable sample_borsh A' op \<longrightarrow>
      is_ok (fst (run_op mem_rocks sample_borsh op (run_ops mem_rocks sample_borsh sample_ops empty_db))) = (abs_op op A' \<noteq> None)"
    using storage_refinement [where view = mem_view and d = empty_db and ops = sample_ops,
        OF rocks_ok_mem borsh_ok_sample represents_empty] by blast
  have "ab_published A' 7 = Some (Attached, sample_ref)" "ab_statuses A' 7 = Some Justified"
    "ab_chunks A' (7, 1) = Some (stored_chunk (sample_chunk 1))" "ab_macro_cps A' 1 = Some sample_checkpoint"
    "ab_published A' 8 = None"
    using A' unfolding sample_ops_run
    by (auto simp: no_entries_def abs_chunk_def sample_chunk_def chunk_index_def sample_ref_def sample_checkpoint_def
        Let_def max_def less_eq_BlobStatus_def)
  moreover from this(5) have "\<not> is_ok (fst (run_op mem_rocks sample_borsh (AttachBlob 8) (run_ops mem_rocks sample_borsh sample_ops empty_db)))"
    using ok [of "AttachBlob 8"] writable_mem by simp
  ultimately show ?thesis
    using agree unfolding reads_agree_def by (simp add: stored_chunk_def sample_chunk_def chunk_data_def)
qed

end
