(* ===== verification/Gossip.thy ===== *)
theory Gossip
  imports Storage "HOL-Library.AList"
begin

text \<open>
  The gossip layer of \<open>crates/net\<close>: topics and their wire names, the mapping of actions to topics and
  payloads and of payloads to events, the publisher's duplicate filter, peer scores, and what the swarm
  task does with a message, an action or a payload to publish. Gossipsub itself is a parameter.
\<close>

section \<open>Topics\<close>

datatype Topic =
    TCertifiedVertex | TMicroQc | TMacroProposal | TBlsPartial SubnetId | TSubnetAggregate | TMacroQc
  | TSlashEvidence | TBlobChunk | TVertexProposal | TVertexPartial

definition BLS_PARTIAL_PREFIX :: string where
  "BLS_PARTIAL_PREFIX = ''lua-dag/v1/bls-partial/''"

fun wire_name :: "Topic \<Rightarrow> string" where
  "wire_name TCertifiedVertex = ''lua-dag/v1/certified-vertex''"
| "wire_name TMicroQc = ''lua-dag/v1/micro-qc''"
| "wire_name TMacroProposal = ''lua-dag/v1/macro-proposal''"
| "wire_name (TBlsPartial s) = BLS_PARTIAL_PREFIX @ dec_digits (unat s)"
| "wire_name TSubnetAggregate = ''lua-dag/v1/subnet-aggregate''"
| "wire_name TMacroQc = ''lua-dag/v1/macro-qc''"
| "wire_name TSlashEvidence = ''lua-dag/v1/slash-evidence''"
| "wire_name TBlobChunk = ''lua-dag/v1/blob-chunk''"
| "wire_name TVertexProposal = ''lua-dag/v1/vertex-proposal''"
| "wire_name TVertexPartial = ''lua-dag/v1/vertex-partial''"

declare wire_name.simps [simp del]

text \<open>\<open>str::parse\<close> at \<open>u32\<close>: an optional plus sign, then digits whose value fits.\<close>

definition push_digit :: "nat \<Rightarrow> char \<Rightarrow> nat option" where
  "push_digit acc c = (let v = of_char c in
     if 48 \<le> v \<and> v < 58 \<and> 10 * acc + (v - 48) < 2 ^ 32 then Some (10 * acc + (v - 48)) else None)"

fun parse_digits :: "nat \<Rightarrow> string \<Rightarrow> nat option" where
  "parse_digits acc [] = Some acc"
| "parse_digits acc (c # cs) = Option.bind (push_digit acc c) (\<lambda>acc. parse_digits acc cs)"

definition parse_u32 :: "string \<Rightarrow> u32 option" where
  "parse_u32 s = (let digits = (if s \<noteq> [] \<and> hd s = CHR ''+'' then tl s else s) in
     if digits = [] then None else map_option of_nat (parse_digits 0 digits))"

definition fixed_topics :: "Topic list" where
  "fixed_topics = [TCertifiedVertex, TMicroQc, TMacroProposal, TSubnetAggregate, TMacroQc, TSlashEvidence,
     TBlobChunk, TVertexProposal, TVertexPartial]"

definition from_wire_name :: "string \<Rightarrow> Topic option" where
  "from_wire_name s = (case find (\<lambda>t. wire_name t = s) fixed_topics of
      Some t \<Rightarrow> Some t
    | None \<Rightarrow> if take (length BLS_PARTIAL_PREFIX) s = BLS_PARTIAL_PREFIX
        then map_option TBlsPartial (parse_u32 (drop (length BLS_PARTIAL_PREFIX) s))
        else None)"

section \<open>Payloads\<close>

datatype NetError =
    Transport string
  | NetCodec string
  | BridgeClosed
  | NetConsensus Error

text \<open>The borsh codecs of the gossiped types.\<close>

record wire_lib =
  wl_micro_qc :: "MicroQc codec"
  wl_macro_proposal :: "MacroProposal codec"
  wl_bls_partial :: "BlsPartial codec"
  wl_subnet_aggregate :: "SubnetAggregate codec"
  wl_macro_qc :: "MacroQc codec"
  wl_evidence :: "SlashEvidence codec"
  wl_certified :: "CertifiedVertex codec"
  wl_proposal :: "VertexProposal codec"
  wl_partial :: "VertexPartial codec"
  wl_chunk :: "BlobChunk codec"

definition encode_action_payload :: "'a codec \<Rightarrow> 'a \<Rightarrow> (NetError, bytes) outcome" where
  "encode_action_payload C x = map_err NetCodec (enc_of C x)"

definition decode_event_payload :: "'a codec \<Rightarrow> bytes \<Rightarrow> (NetError, 'a) outcome" where
  "decode_event_payload C b = map_err NetCodec (dec_of C b)"

definition with_topic :: "Topic \<Rightarrow> (NetError, bytes) outcome \<Rightarrow> (NetError, (Topic \<times> bytes) option) outcome" where
  "with_topic t r = bind_out r (\<lambda>b. Ok (Some (t, b)))"

fun outbound_broadcast :: "wire_lib \<Rightarrow> Action \<Rightarrow> (NetError, (Topic \<times> bytes) option) outcome" where
  "outbound_broadcast W (BroadcastMicroQc m) = with_topic TMicroQc (encode_action_payload (wl_micro_qc W) m)"
| "outbound_broadcast W (BroadcastMacroProposal m) =
     with_topic TMacroProposal (encode_action_payload (wl_macro_proposal W) m)"
| "outbound_broadcast W (BroadcastBlsPartial p) =
     with_topic (TBlsPartial (bp_subnet p)) (encode_action_payload (wl_bls_partial W) p)"
| "outbound_broadcast W (BroadcastSubnetAggregate a) =
     with_topic TSubnetAggregate (encode_action_payload (wl_subnet_aggregate W) a)"
| "outbound_broadcast W (BroadcastMacroQc q) = with_topic TMacroQc (encode_action_payload (wl_macro_qc W) q)"
| "outbound_broadcast W (EmitSlashEvidence v ev) = with_topic TSlashEvidence (encode_action_payload (wl_evidence W) ev)"
| "outbound_broadcast W (BroadcastVertexProposal p) =
     with_topic TVertexProposal (encode_action_payload (wl_proposal W) p)"
| "outbound_broadcast W (BroadcastVertexPartial bp) =
     with_topic TVertexPartial (encode_action_payload (wl_partial W) bp)"
| "outbound_broadcast W (BroadcastCertifiedVertex cv) =
     with_topic TCertifiedVertex (encode_action_payload (wl_certified W) cv)"
| "outbound_broadcast W (PersistMacroQc _) = Ok None"
| "outbound_broadcast W (PersistMacroCheckpoint _) = Ok None"
| "outbound_broadcast W (ScheduleTimer _ _) = Ok None"
| "outbound_broadcast W (CancelTimer _) = Ok None"
| "outbound_broadcast W (UpdateBlobStatus _ _) = Ok None"
| "outbound_broadcast W (NotifyInactivityLeak _ _) = Ok None"

definition encode_certified_vertex :: "wire_lib \<Rightarrow> CertifiedVertex \<Rightarrow> (NetError, Topic \<times> bytes) outcome" where
  "encode_certified_vertex W cv =
     bind_out (encode_action_payload (wl_certified W) cv) (\<lambda>b. Ok (TCertifiedVertex, b))"

definition encode_blob_chunk :: "wire_lib \<Rightarrow> BlobChunk \<Rightarrow> (NetError, Topic \<times> bytes) outcome" where
  "encode_blob_chunk W chunk = bind_out (map_err NetCodec (enc_of (wl_chunk W) chunk)) (\<lambda>b. Ok (TBlobChunk, b))"

definition decode_blob_chunk :: "wire_lib \<Rightarrow> string \<Rightarrow> bytes \<Rightarrow> (NetError, BlobChunk option) outcome" where
  "decode_blob_chunk W topic data = (if from_wire_name topic \<noteq> Some TBlobChunk then Ok None
     else bind_out (map_err NetCodec (dec_of (wl_chunk W) data)) (\<lambda>chunk. Ok (Some chunk)))"

fun is_broadcast :: "Action \<Rightarrow> bool" where
  "is_broadcast (BroadcastMicroQc _) = True"
| "is_broadcast (BroadcastMacroProposal _) = True"
| "is_broadcast (BroadcastBlsPartial _) = True"
| "is_broadcast (BroadcastSubnetAggregate _) = True"
| "is_broadcast (BroadcastMacroQc _) = True"
| "is_broadcast (EmitSlashEvidence _ _) = True"
| "is_broadcast (BroadcastVertexProposal _) = True"
| "is_broadcast (BroadcastVertexPartial _) = True"
| "is_broadcast (BroadcastCertifiedVertex _) = True"
| "is_broadcast _ = False"

definition decoded_as :: "('a \<Rightarrow> Event) \<Rightarrow> (NetError, 'a) outcome \<Rightarrow> (NetError, Event option) outcome" where
  "decoded_as f r = bind_out r (\<lambda>x. Ok (Some (f x)))"

definition inbound_message :: "wire_lib \<Rightarrow> string \<Rightarrow> bytes \<Rightarrow> (NetError, Event option) outcome" where
  "inbound_message W topic_str data = (case from_wire_name topic_str of
     None \<Rightarrow> Ok None
   | Some topic \<Rightarrow> (case topic of
       TMicroQc \<Rightarrow> decoded_as MicroQcAssembled (decode_event_payload (wl_micro_qc W) data)
     | TMacroProposal \<Rightarrow> decoded_as MacroProposalReceived (decode_event_payload (wl_macro_proposal W) data)
     | TSubnetAggregate \<Rightarrow> decoded_as SubnetAggregateReceived (decode_event_payload (wl_subnet_aggregate W) data)
     | TMacroQc \<Rightarrow> decoded_as MacroQcReceived (decode_event_payload (wl_macro_qc W) data)
     | TSlashEvidence \<Rightarrow> decoded_as SlashEvidenceFound (decode_event_payload (wl_evidence W) data)
     | TBlsPartial subnet \<Rightarrow> bind_out (decode_event_payload (wl_bls_partial W) data) (\<lambda>p.
         if bp_subnet p \<noteq> subnet
         then Err (NetCodec (''bls-partial topic subnet '' @ dec_digits (unat subnet) @ '' != payload subnet '' @
           dec_digits (unat (bp_subnet p))))
         else Ok (Some (BlsPartialReceived p)))
     | TCertifiedVertex \<Rightarrow> decoded_as CertifiedVertexReceived (decode_event_payload (wl_certified W) data)
     | TVertexProposal \<Rightarrow> decoded_as VertexProposalReceived (decode_event_payload (wl_proposal W) data)
     | TVertexPartial \<Rightarrow> decoded_as VertexPartialReceived (decode_event_payload (wl_partial W) data)
     | TBlobChunk \<Rightarrow> Ok None))"

section \<open>Duplicate filter\<close>

record Publisher =
  pub_seen :: "Hash32 list"
  pub_capacity :: nat

definition publisher_new :: "nat \<Rightarrow> Publisher" where
  "publisher_new capacity = \<lparr> pub_seen = [], pub_capacity = capacity \<rparr>"

definition publisher_check :: "'x crypto_lib \<Rightarrow> bytes \<Rightarrow> Publisher \<Rightarrow> bool \<times> Publisher" where
  "publisher_check L payload p = (let h = blake3_with_dst L DST_CONTENT_HASH payload in
     if h \<in> set (pub_seen p) then (False, p)
     else let seen = (if length (pub_seen p) = pub_capacity p then tl (pub_seen p) else pub_seen p)
       in (True, p\<lparr>pub_seen := seen @ [h]\<rparr>))"

section \<open>Peers\<close>

type_synonym i32 = "32 word"

definition i32_saturating_add :: "i32 \<Rightarrow> i32 \<Rightarrow> i32" where
  "i32_saturating_add a b = word_of_int (max (- (2 ^ 31)) (min (2 ^ 31 - 1) (sint a + sint b)))"

datatype Reason = GoodDelivery | SlowDelivery | InvalidMessage | EquivocationReason

definition BAN_THRESHOLD :: int where
  "BAN_THRESHOLD = -500"

definition score_adjust :: "i32 \<Rightarrow> Reason \<Rightarrow> i32 \<Rightarrow> i32" where
  "score_adjust delta reason points = i32_saturating_add points delta"

definition score_is_banned :: "i32 \<Rightarrow> bool" where
  "score_is_banned points \<longleftrightarrow> sint points \<le> BAN_THRESHOLD"

record 'p PeerManager =
  pm_max_peers :: nat
  pm_peers :: "('p \<times> i32) list"

definition peers_new :: "nat \<Rightarrow> 'p PeerManager" where
  "peers_new max_peers = \<lparr> pm_max_peers = max_peers, pm_peers = [] \<rparr>"

definition on_connected :: "'p \<Rightarrow> 'p PeerManager \<Rightarrow> 'p PeerManager" where
  "on_connected peer m = (case map_of (pm_peers m) peer of
      Some _ \<Rightarrow> m
    | None \<Rightarrow> m\<lparr>pm_peers := (peer, 0) # pm_peers m\<rparr>)"

definition on_disconnected :: "'p \<Rightarrow> 'p PeerManager \<Rightarrow> 'p PeerManager" where
  "on_disconnected peer m = m\<lparr>pm_peers := AList.delete peer (pm_peers m)\<rparr>"

definition peer_adjust :: "'p \<Rightarrow> i32 \<Rightarrow> Reason \<Rightarrow> 'p PeerManager \<Rightarrow> bool \<times> 'p PeerManager" where
  "peer_adjust peer delta reason m = (case map_of (pm_peers m) peer of
      Some points \<Rightarrow> let points = score_adjust delta reason points
        in (score_is_banned points, m\<lparr>pm_peers := AList.update peer points (pm_peers m)\<rparr>)
    | None \<Rightarrow> (False, m))"

definition peers_is_full :: "'p PeerManager \<Rightarrow> bool" where
  "peers_is_full m \<longleftrightarrow> pm_max_peers m \<le> length (pm_peers m)"

section \<open>The swarm task\<close>

text \<open>
  A bounded channel seen from its sender, with the receiver alive or dropped. \<open>gs_publish\<close> is gossipsub's
  publication of a payload on a topic. A step that breaks out of the loop ends the task.
\<close>

record 'a channel =
  chan_queue :: "'a list"
  chan_capacity :: nat
  chan_open :: bool

datatype TrySendError = ChannelFull | ChannelClosed

definition try_send :: "'a \<Rightarrow> 'a channel \<Rightarrow> (TrySendError, unit) outcome \<times> 'a channel" where
  "try_send x c = (if \<not> chan_open c then (Err ChannelClosed, c)
     else if chan_capacity c \<le> length (chan_queue c) then (Err ChannelFull, c)
     else (Ok (), c\<lparr>chan_queue := chan_queue c @ [x]\<rparr>))"

definition EVENT_BUFFER :: nat where
  "EVENT_BUFFER = 1024"

record 'g swarm =
  sw_gossipsub :: 'g
  sw_events :: "Event channel"
  sw_chunks :: "BlobChunk channel option"
  sw_running :: bool

datatype swarm_input =
    SwarmMessage string bytes
  | SwarmAction "Action option"
  | SwarmPublish "(Topic \<times> bytes) option"

type_synonym 'g gs_publish = "'g \<Rightarrow> string \<Rightarrow> bytes \<Rightarrow> (string, unit) outcome \<times> 'g"

definition forward_event :: "Event \<Rightarrow> 'g swarm \<Rightarrow> 'g swarm" where
  "forward_event event s = (case try_send event (sw_events s) of
      (Err ChannelClosed, c) \<Rightarrow> s\<lparr>sw_running := False\<rparr>
    | (_, c) \<Rightarrow> s\<lparr>sw_events := c\<rparr>)"

definition forward_chunk :: "BlobChunk \<Rightarrow> 'g swarm \<Rightarrow> 'g swarm" where
  "forward_chunk chunk s = (case sw_chunks s of
      None \<Rightarrow> s
    | Some tx \<Rightarrow> (case try_send chunk tx of
        (Err ChannelClosed, c) \<Rightarrow> s\<lparr>sw_running := False\<rparr>
      | (_, c) \<Rightarrow> s\<lparr>sw_chunks := Some c\<rparr>))"

definition on_gossip_message :: "wire_lib \<Rightarrow> string \<Rightarrow> bytes \<Rightarrow> 'g swarm \<Rightarrow> 'g swarm" where
  "on_gossip_message W topic data s = (case decode_blob_chunk W topic data of
      Ok (Some chunk) \<Rightarrow> forward_chunk chunk s
    | Ok None \<Rightarrow> (case inbound_message W topic data of
        Ok (Some event) \<Rightarrow> forward_event event s
      | _ \<Rightarrow> s)
    | _ \<Rightarrow> s)"

definition swarm_publish :: "'g gs_publish \<Rightarrow> Topic \<Rightarrow> bytes \<Rightarrow> 'g swarm \<Rightarrow> 'g swarm" where
  "swarm_publish publish topic payload s =
     s\<lparr>sw_gossipsub := snd (publish (sw_gossipsub s) (wire_name topic) payload)\<rparr>"

fun swarm_step :: "wire_lib \<Rightarrow> 'g gs_publish \<Rightarrow> swarm_input \<Rightarrow> 'g swarm \<Rightarrow> 'g swarm" where
  "swarm_step W publish (SwarmMessage topic data) s = on_gossip_message W topic data s"
| "swarm_step W publish (SwarmAction None) s = s\<lparr>sw_running := False\<rparr>"
| "swarm_step W publish (SwarmAction (Some action)) s = (case outbound_broadcast W action of
      Ok (Some (topic, payload)) \<Rightarrow> swarm_publish publish topic payload s
    | _ \<Rightarrow> s)"
| "swarm_step W publish (SwarmPublish None) s = s\<lparr>sw_running := False\<rparr>"
| "swarm_step W publish (SwarmPublish (Some (topic, payload))) s = swarm_publish publish topic payload s"

definition subscribe_set :: "u32 \<Rightarrow> Topic list" where
  "subscribe_set macro_subnet_count = (let
     topics = [TCertifiedVertex, TMicroQc, TMacroProposal, TSubnetAggregate, TMacroQc, TSlashEvidence,
       TVertexProposal, TVertexPartial];
     partial_count = (if macro_subnet_count = 0 then 1 else macro_subnet_count)
   in topics @ map (\<lambda>i. TBlsPartial (of_nat i)) [0..<unat partial_count])"

end
