(* ===== verification/Gossip_Properties.thy ===== *)
theory Gossip_Properties
  imports Gossip Storage_Samples
begin

text \<open>What the gossip layer promises: a broadcast arrives as the event it announces.\<close>

section \<open>Topic names\<close>

lemma parse_digits_append: "parse_digits a (xs @ ys) = Option.bind (parse_digits a xs) (\<lambda>b. parse_digits b ys)"
  by (induction xs arbitrary: a) (auto split: bind_splits)

lemma parse_dec_digits: "n < 2 ^ 32 \<Longrightarrow> parse_digits 0 (dec_digits n) = Some n"
proof (induction n rule: dec_digits.induct)
  case (1 n)
  show ?case
  proof (cases "n < 10")
    case True
    then show ?thesis
      by (simp add: dec_digits.simps [of n] push_digit_def)
  next
    case False
    then have "parse_digits 0 (dec_digits (n div 10)) = Some (n div 10)"
      using 1 by simp
    then show ?thesis
      using False 1 by (simp add: dec_digits.simps [of n] parse_digits_append push_digit_def)
  qed
qed

lemma dec_digits_head: "\<exists>c cs. dec_digits n = c # cs \<and> c \<noteq> CHR ''+''"
proof (induction n rule: dec_digits.induct)
  case (1 n)
  have "char_of (48 + n) \<noteq> CHR ''+''" if "n < 10"
  proof
    assume "char_of (48 + n) = CHR ''+''"
    then have "of_char (char_of (48 + n) :: char) = (43 :: nat)"
      by simp
    then show False
      using that by simp
  qed
  then show ?case
    using 1 by (cases "n < 10") (auto simp: dec_digits.simps [of n])
qed

lemma parse_u32_dec [simp]: "parse_u32 (dec_digits (unat s)) = Some s"
proof -
  obtain c cs where "dec_digits (unat s) = c # cs" "c \<noteq> CHR ''+''"
    using dec_digits_head by blast
  moreover have "unat s < 2 ^ 32"
    by (rule order_less_le_trans [OF unsigned_less]) simp
  ultimately show ?thesis
    using parse_dec_digits [of "unat s"] by (simp add: parse_u32_def)
qed

lemma from_wire_name_wire_name [simp]: "from_wire_name (wire_name t) = Some t"
  by (cases t) (simp_all add: from_wire_name_def fixed_topics_def BLS_PARTIAL_PREFIX_def wire_name.simps)

section \<open>Broadcasts\<close>

definition wire_ok :: "wire_lib \<Rightarrow> bool" where
  "wire_ok W \<longleftrightarrow> codec_ok (wl_micro_qc W) \<and> codec_ok (wl_macro_proposal W) \<and> codec_ok (wl_bls_partial W) \<and>
     codec_ok (wl_subnet_aggregate W) \<and> codec_ok (wl_macro_qc W) \<and> codec_ok (wl_evidence W) \<and>
     codec_ok (wl_certified W) \<and> codec_ok (wl_proposal W) \<and> codec_ok (wl_partial W) \<and> codec_ok (wl_chunk W)"

text \<open>The event that a broadcast announces to the other validators.\<close>

fun announced :: "Action \<Rightarrow> Event option" where
  "announced (BroadcastMicroQc m) = Some (MicroQcAssembled m)"
| "announced (BroadcastMacroProposal m) = Some (MacroProposalReceived m)"
| "announced (BroadcastBlsPartial p) = Some (BlsPartialReceived p)"
| "announced (BroadcastSubnetAggregate a) = Some (SubnetAggregateReceived a)"
| "announced (BroadcastMacroQc q) = Some (MacroQcReceived q)"
| "announced (EmitSlashEvidence v ev) = Some (SlashEvidenceFound ev)"
| "announced (BroadcastVertexProposal p) = Some (VertexProposalReceived p)"
| "announced (BroadcastVertexPartial bp) = Some (VertexPartialReceived bp)"
| "announced (BroadcastCertifiedVertex cv) = Some (CertifiedVertexReceived cv)"
| "announced _ = None"

lemma decode_payload: "codec_ok C \<Longrightarrow> encode_action_payload C x = Ok b \<Longrightarrow> decode_event_payload C b = Ok x"
  by (simp add: codec_ok_def encode_action_payload_def decode_event_payload_def map_err_Ok_iff)

lemma with_topic_Ok: "with_topic t r = Ok (Some (t', b)) \<longleftrightarrow> t' = t \<and> r = Ok b"
  by (cases r) (auto simp: with_topic_def)

lemma with_topic_encoded:
  "codec_ok C \<Longrightarrow> (\<exists>b. with_topic t (encode_action_payload C x) = Ok (Some (t, b)) \<and> decode_event_payload C b = Ok x) \<or>
    (\<exists>e. with_topic t (encode_action_payload C x) = Err e)"
  by (cases "enc_of C x") (auto simp: with_topic_def encode_action_payload_def decode_event_payload_def codec_ok_def
      no_panic_def)

lemma outbound_shape:
  assumes "wire_ok W" "is_broadcast a"
  shows "(\<exists>t b. outbound_broadcast W a = Ok (Some (t, b)) \<and> t \<noteq> TBlobChunk \<and>
      inbound_message W (wire_name t) b = Ok (announced a)) \<or> (\<exists>e. outbound_broadcast W a = Err e)"
proof -
  note C = assms(1) [unfolded wire_ok_def]
  show ?thesis
  proof (cases a)
    case (BroadcastBlsPartial p)
    then show ?thesis
      using with_topic_encoded [of "wl_bls_partial W" "TBlsPartial (bp_subnet p)" p] C by (auto simp: inbound_message_def)
  next
    case (BroadcastMicroQc m)
    then show ?thesis
      using with_topic_encoded [of "wl_micro_qc W" TMicroQc m] C by (auto simp: inbound_message_def decoded_as_def)
  next
    case (BroadcastMacroProposal m)
    then show ?thesis
      using with_topic_encoded [of "wl_macro_proposal W" TMacroProposal m] C by (auto simp: inbound_message_def decoded_as_def)
  next
    case (BroadcastSubnetAggregate m)
    then show ?thesis
      using with_topic_encoded [of "wl_subnet_aggregate W" TSubnetAggregate m] C
      by (auto simp: inbound_message_def decoded_as_def)
  next
    case (BroadcastMacroQc m)
    then show ?thesis
      using with_topic_encoded [of "wl_macro_qc W" TMacroQc m] C by (auto simp: inbound_message_def decoded_as_def)
  next
    case (EmitSlashEvidence v m)
    then show ?thesis
      using with_topic_encoded [of "wl_evidence W" TSlashEvidence m] C by (auto simp: inbound_message_def decoded_as_def)
  next
    case (BroadcastVertexProposal m)
    then show ?thesis
      using with_topic_encoded [of "wl_proposal W" TVertexProposal m] C by (auto simp: inbound_message_def decoded_as_def)
  next
    case (BroadcastVertexPartial m)
    then show ?thesis
      using with_topic_encoded [of "wl_partial W" TVertexPartial m] C by (auto simp: inbound_message_def decoded_as_def)
  next
    case (BroadcastCertifiedVertex m)
    then show ?thesis
      using with_topic_encoded [of "wl_certified W" TCertifiedVertex m] C by (auto simp: inbound_message_def decoded_as_def)
  qed (use assms(2) in simp_all)
qed

lemma announced_broadcast: "announced a \<noteq> None \<longleftrightarrow> is_broadcast a" "\<not> is_broadcast a \<Longrightarrow> outbound_broadcast W a = Ok None"
  by (cases a; simp)+

lemma chunk_round_trip:
  "wire_ok W \<Longrightarrow> encode_blob_chunk W c = Ok (t, b) \<Longrightarrow> t = TBlobChunk \<and> decode_blob_chunk W (wire_name t) b = Ok (Some c)"
  by (cases "enc_of (wl_chunk W) c") (simp_all add: encode_blob_chunk_def decode_blob_chunk_def wire_ok_def codec_ok_def)

lemma subscribed:
  assumes "outbound_broadcast W a = Ok (Some (t, b))"
  shows "t \<in> set (subscribe_set k) \<longleftrightarrow> (\<forall>s. t = TBlsPartial s \<longrightarrow> s < (if k = 0 then 1 else k))"
proof -
  have *: "s \<in> (\<lambda>i. of_nat i) ` {0..<unat (m :: u32)} \<longleftrightarrow> s < m" for s m :: u32
  proof
    assume "s < m"
    then show "s \<in> (\<lambda>i. of_nat i) ` {0..<unat m}"
      by (intro image_eqI [of _ _ "unat s"]) (simp_all add: word_less_nat_alt)
  qed (auto simp: word_less_nat_alt unat_of_nat intro: le_less_trans [OF mod_less_eq_dividend])
  show ?thesis
    using assms * by (cases a) (auto simp: with_topic_Ok subscribe_set_def Let_def)
qed

section \<open>From broadcast to event\<close>

lemma on_message_event:
  assumes "wire_ok W" "t \<noteq> TBlobChunk" "inbound_message W (wire_name t) b = Ok (Some ev)"
  shows "on_gossip_message W (wire_name t) b r = forward_event ev r"
  using assms by (simp add: on_gossip_message_def decode_blob_chunk_def)

lemma forward_event_room:
  "chan_open (sw_events r) \<Longrightarrow> length (chan_queue (sw_events r)) < chan_capacity (sw_events r) \<Longrightarrow>
    forward_event ev r = r\<lparr>sw_events := sw_events r\<lparr>chan_queue := chan_queue (sw_events r) @ [ev]\<rparr>\<rparr>"
  by (simp add: forward_event_def try_send_def)

lemma forward_chunk_room:
  "sw_chunks r = Some tx \<Longrightarrow> chan_open tx \<Longrightarrow> length (chan_queue tx) < chan_capacity tx \<Longrightarrow>
    forward_chunk c r = r\<lparr>sw_chunks := Some (tx\<lparr>chan_queue := chan_queue tx @ [c]\<rparr>)\<rparr>"
  by (simp add: forward_chunk_def try_send_def)

text \<open>
  C38: Every action the orchestrator broadcasts is published by the swarm task, unless its encoding fails,
  under a topic name and a payload from which a receiving swarm task, whose event channel is open and has
  room, enqueues exactly the event the action announces (a partial signature with its subnet, an evidence
  without the offender, a certificate as received), and changes nothing else. Validators configured for
  the same number of subnets are subscribed to that topic, partial signatures for subnets beyond the
  configured ones excepted. Actions that are no broadcasts change nothing. A blob chunk is delivered the
  same way to the chunk channel, but no validator is subscribed to the topic of blob chunks.
\<close>

theorem gossip_round_trip:
  assumes W: "wire_ok W"
  shows "(is_broadcast a \<longrightarrow> (\<exists>e. outbound_broadcast W a = Err e) \<or> (\<exists>t b ev. announced a = Some ev \<and>
      (\<forall>s. swarm_step W publish (SwarmAction (Some a)) s =
        s\<lparr>sw_gossipsub := snd (publish (sw_gossipsub s) (wire_name t) b)\<rparr>) \<and>
      (\<forall>r. chan_open (sw_events r) \<and> length (chan_queue (sw_events r)) < chan_capacity (sw_events r) \<longrightarrow>
        swarm_step W publish (SwarmMessage (wire_name t) b) r =
          r\<lparr>sw_events := sw_events r\<lparr>chan_queue := chan_queue (sw_events r) @ [ev]\<rparr>\<rparr>) \<and>
      (t \<in> set (subscribe_set k) \<longleftrightarrow> (\<forall>p. a = BroadcastBlsPartial p \<longrightarrow> bp_subnet p < (if k = 0 then 1 else k))))) \<and>
    (\<not> is_broadcast a \<longrightarrow> swarm_step W publish (SwarmAction (Some a)) s = s) \<and>
    (\<forall>t b. encode_blob_chunk W c = Ok (t, b) \<longrightarrow> t \<notin> set (subscribe_set k) \<and>
      (\<forall>r tx. sw_chunks r = Some tx \<and> chan_open tx \<and> length (chan_queue tx) < chan_capacity tx \<longrightarrow>
        swarm_step W publish (SwarmMessage (wire_name t) b) r =
          r\<lparr>sw_chunks := Some (tx\<lparr>chan_queue := chan_queue tx @ [c]\<rparr>)\<rparr>))"
proof (intro conjI impI allI)
  assume "is_broadcast a"
  then consider (sent) t b ev where "outbound_broadcast W a = Ok (Some (t, b))" "t \<noteq> TBlobChunk"
      "inbound_message W (wire_name t) b = Ok (Some ev)" "announced a = Some ev"
    | (failed) e where "outbound_broadcast W a = Err e"
    using outbound_shape [OF W] announced_broadcast(1) [of a] by fastforce
  then show "(\<exists>e. outbound_broadcast W a = Err e) \<or> (\<exists>t b ev. announced a = Some ev \<and>
      (\<forall>s. swarm_step W publish (SwarmAction (Some a)) s =
        s\<lparr>sw_gossipsub := snd (publish (sw_gossipsub s) (wire_name t) b)\<rparr>) \<and>
      (\<forall>r. chan_open (sw_events r) \<and> length (chan_queue (sw_events r)) < chan_capacity (sw_events r) \<longrightarrow>
        swarm_step W publish (SwarmMessage (wire_name t) b) r =
          r\<lparr>sw_events := sw_events r\<lparr>chan_queue := chan_queue (sw_events r) @ [ev]\<rparr>\<rparr>) \<and>
      (t \<in> set (subscribe_set k) \<longleftrightarrow> (\<forall>p. a = BroadcastBlsPartial p \<longrightarrow> bp_subnet p < (if k = 0 then 1 else k))))"
  proof cases
    case sent
    have "(\<forall>s. t = TBlsPartial s \<longrightarrow> s < (if k = 0 then 1 else k)) \<longleftrightarrow>
        (\<forall>p. a = BroadcastBlsPartial p \<longrightarrow> bp_subnet p < (if k = 0 then 1 else k))"
      using sent(1) by (cases a) (auto simp: with_topic_Ok)
    then show ?thesis
      using sent(4) subscribed [OF sent(1), of k]
      by (intro disjI2 exI [of _ t] exI [of _ b] exI [of _ ev])
        (simp add: sent(1) swarm_publish_def on_message_event [OF W sent(2,3)] forward_event_room)
  qed blast
next
  assume "\<not> is_broadcast a"
  then show "swarm_step W publish (SwarmAction (Some a)) s = s"
    by (simp add: announced_broadcast(2))
next
  fix t b assume "encode_blob_chunk W c = Ok (t, b)"
  note chunk = chunk_round_trip [OF W this]
  then show "t \<notin> set (subscribe_set k)"
    by (auto simp: subscribe_set_def Let_def)
  fix r :: "'a swarm" and tx assume "sw_chunks r = Some tx \<and> chan_open tx \<and> length (chan_queue tx) < chan_capacity tx"
  then show "swarm_step W publish (SwarmMessage (wire_name t) b) r =
      r\<lparr>sw_chunks := Some (tx\<lparr>chan_queue := chan_queue tx @ [c]\<rparr>)\<rparr>"
    using conjunct2 [OF chunk] by (simp add: on_gossip_message_def forward_chunk_room)
qed

text \<open>Codecs for partial signatures and blob chunks that concatenate the fields; the others refuse every value.\<close>

definition bls_partial_codec :: "BlsPartial codec" where
  "bls_partial_codec = \<lparr>
     enc_of = (\<lambda>p. Ok (be_bytes 4 (bp_subnet p) @ be_bytes 32 (bp_validator p) @ be_bytes 32 (bp_checkpoint_hash p) @
       be_bytes 96 (bp_sig p))),
     dec_of = (\<lambda>b. if length b \<noteq> 164 then Err ''unexpected length'' else Ok \<lparr> bp_subnet = word_of_be (take 4 b),
       bp_validator = word_of_be (take 32 (drop 4 b)), bp_checkpoint_hash = word_of_be (take 32 (drop 36 b)),
       bp_sig = word_of_be (take 96 (drop 68 b)) \<rparr>) \<rparr>"

definition sample_wire :: wire_lib where
  "sample_wire = \<lparr> wl_micro_qc = refusing_codec, wl_macro_proposal = refusing_codec,
     wl_bls_partial = bls_partial_codec, wl_subnet_aggregate = refusing_codec, wl_macro_qc = refusing_codec,
     wl_evidence = refusing_codec, wl_certified = refusing_codec, wl_proposal = refusing_codec,
     wl_partial = refusing_codec, wl_chunk = refusing_codec \<rparr>"

lemma wire_ok_sample: "wire_ok sample_wire"
proof -
  have "codec_ok bls_partial_codec"
    by (simp add: codec_ok_def bls_partial_codec_def word_of_be_bytes)
  then show ?thesis
    by (simp add: wire_ok_def sample_wire_def codec_ok_samples)
qed

definition sample_partial :: BlsPartial where
  "sample_partial = \<lparr> bp_subnet = 3, bp_validator = 5, bp_checkpoint_hash = 6, bp_sig = 7 \<rparr>"

definition sample_swarm :: "(string \<times> bytes) list swarm" where
  "sample_swarm = \<lparr> sw_gossipsub = [], sw_events = \<lparr> chan_queue = [], chan_capacity = EVENT_BUFFER, chan_open = True \<rparr>,
     sw_chunks = None, sw_running = True \<rparr>"

text \<open>A partial signature for subnet 3 of 4, published into a list of messages and delivered from it.\<close>

lemma gossip_round_trip_witness:
  "\<exists>n b. sw_gossipsub (swarm_step sample_wire (\<lambda>g n b. (Ok (), (n, b) # g))
       (SwarmAction (Some (BroadcastBlsPartial sample_partial))) sample_swarm) = [(n, b)] \<and>
     chan_queue (sw_events (swarm_step sample_wire (\<lambda>g n b. (Ok (), (n, b) # g)) (SwarmMessage n b) sample_swarm)) =
       [BlsPartialReceived sample_partial]"
proof -
  have "\<not> (\<exists>e. outbound_broadcast sample_wire (BroadcastBlsPartial sample_partial) = Err e)"
    by (simp add: with_topic_def encode_action_payload_def sample_wire_def bls_partial_codec_def)
  moreover have "chan_open (sw_events sample_swarm) \<and>
      length (chan_queue (sw_events sample_swarm)) < chan_capacity (sw_events sample_swarm)"
    by (simp add: sample_swarm_def EVENT_BUFFER_def)
  moreover have "sw_gossipsub sample_swarm = []" "chan_queue (sw_events sample_swarm) = []"
    by (simp_all add: sample_swarm_def)
  ultimately show ?thesis
    using gossip_round_trip [OF wire_ok_sample, of "BroadcastBlsPartial sample_partial" "\<lambda>g n b. (Ok (), (n, b) # g)" 4]
    by (auto simp del: swarm_step.simps) fastforce
qed

end
