(* ===== verification/Node_Blobs.thy ===== *)
theory Node_Blobs
  imports Blob_Store Gossip
begin

text \<open>
  Blob custody of the node, \<open>apps/node/src/blob/mod.rs\<close>: the queue of blobs waiting to be attached to a
  vertex, publication of a payload, ingestion of gossiped chunks, draining, attaching, and recovery at
  boot. The shared handle is a record of the state behind its locks: the database, the custody ledger, the
  codec's matrix cache, the queue, the boot flag and the channel to the gossip task.
\<close>

section \<open>Pending queue\<close>

record PendingQueue =
  pq_queue :: "BlobRef list"
  pq_ids :: "BlobId set"

definition pending_default :: PendingQueue where
  "pending_default = \<lparr> pq_queue = [], pq_ids = {} \<rparr>"

definition pq_enqueue :: "BlobRef \<Rightarrow> PendingQueue \<Rightarrow> bool \<times> PendingQueue" where
  "pq_enqueue r q = (if br_blob_id r \<in> pq_ids q then (False, q)
     else (True, \<lparr> pq_queue = pq_queue q @ [r], pq_ids = insert (br_blob_id r) (pq_ids q) \<rparr>))"

definition pq_drain :: "PendingQueue \<Rightarrow> BlobRef list \<times> PendingQueue" where
  "pq_drain q = (pq_queue q, \<lparr> pq_queue = [], pq_ids = pq_ids q - br_blob_id ` set (pq_queue q) \<rparr>)"

section \<open>The handle\<close>

record 'd BlobCustodyHandle =
  bh_db :: 'd
  bh_ledger :: CustodyLedger
  bh_cache :: matrix_cache
  bh_publish_tx :: "(Topic \<times> bytes) list"
  bh_tx_open :: bool
  bh_pending :: PendingQueue
  bh_boot_sync_done :: bool

definition handle_is_available :: "BlobId \<Rightarrow> 'd BlobCustodyHandle \<Rightarrow> bool" where
  "handle_is_available blob h = is_available blob (bh_ledger h)"

definition unit_count :: "ErasureConfig \<Rightarrow> u32" where
  "unit_count cfg = ec_n cfg"

definition max_payload_bytes :: "ErasureConfig \<Rightarrow> u64" where
  "max_payload_bytes cfg = of_nat (padded_len cfg)"

fun store_error_display :: "StoreError \<Rightarrow> string" where
  "store_error_display (StoreOther m) = ''store error: '' @ m"

fun expect :: "string \<Rightarrow> ('e, 'a) outcome \<times> 's \<Rightarrow> ('f, 'a) outcome \<times> 's" where
  "expect msg (Ok a, s) = (Ok a, s)"
| "expect msg (Err e, s) = (Panic msg, s)"
| "expect msg (Panic m, s) = (Panic m, s)"

text \<open>What an \<open>anyhow\<close> error wraps here.\<close>

datatype AnyError = AnyMsg string | AnyErasure ErasureError | AnyNet NetError

definition any_store :: "StoreError \<Rightarrow> AnyError" where
  "any_store e = AnyMsg (store_error_display e)"

text \<open>Results of calls on one lock's state, stored back into the handle.\<close>

definition with_cache :: "(matrix_cache \<Rightarrow> ('e, 'a) outcome \<times> matrix_cache) \<Rightarrow> 'd BlobCustodyHandle \<Rightarrow>
    ('e, 'a) outcome \<times> 'd BlobCustodyHandle" where
  "with_cache f h = (case f (bh_cache h) of (r, c) \<Rightarrow> (r, h\<lparr>bh_cache := c\<rparr>))"

definition with_db :: "('d \<Rightarrow> ('e, 'a) outcome \<times> 'd) \<Rightarrow> 'd BlobCustodyHandle \<Rightarrow> ('e, 'a) outcome \<times> 'd BlobCustodyHandle" where
  "with_db f h = (case f (bh_db h) of (r, d) \<Rightarrow> (r, h\<lparr>bh_db := d\<rparr>))"

definition blob_ref_commitment :: "'x crypto_lib \<Rightarrow> ErasureConfig \<Rightarrow> bytes \<Rightarrow> 'd BlobCustodyHandle \<Rightarrow>
    ('e, Hash32) outcome \<times> 'd BlobCustodyHandle" where
  "blob_ref_commitment L cfg payload h =
     bind_st (expect ''encode shards'' (with_cache (encode_shards payload cfg) h)) (\<lambda>shards h.
       (rs_merkle_commitment L shards, h))"

definition handle_list_chunk_refs :: "'d rocks_lib \<Rightarrow> BlobId \<Rightarrow> 'd BlobCustodyHandle \<Rightarrow> (AnyError, ChunkRef list) outcome" where
  "handle_list_chunk_refs R blob h = map_err any_store (store_list_chunk_refs R blob (bh_db h))"

definition drain_pending :: "'d rocks_lib \<Rightarrow> borsh_lib \<Rightarrow> 'd BlobCustodyHandle \<Rightarrow> BlobRef list \<times> 'd BlobCustodyHandle" where
  "drain_pending R B h = (if \<not> bh_boot_sync_done h then ([], h)
     else case pq_drain (bh_pending h) of (drained, q) \<Rightarrow>
       (filter (\<lambda>r. store_is_attached R B (br_blob_id r) (bh_db h) \<noteq> Ok True) drained, h\<lparr>bh_pending := q\<rparr>))"

definition mark_attached :: "'d rocks_lib \<Rightarrow> borsh_lib \<Rightarrow> BlobId \<Rightarrow> 'd BlobCustodyHandle \<Rightarrow>
    (AnyError, unit) outcome \<times> 'd BlobCustodyHandle" where
  "mark_attached R B blob h = map_prod (map_err any_store) id (with_db (store_mark_attached R B blob) h)"

definition enqueue_pending :: "BlobRef \<Rightarrow> 'd BlobCustodyHandle \<Rightarrow> 'd BlobCustodyHandle" where
  "enqueue_pending r h = h\<lparr>bh_pending := snd (pq_enqueue r (bh_pending h))\<rparr>"

definition register_chunk_in_ledger :: "BlobChunk \<Rightarrow> ErasureConfig \<Rightarrow> CustodyLedger \<Rightarrow> CustodyLedger" where
  "register_chunk_in_ledger c cfg led =
     register_erasure (bc_blob_id c) cfg (ch_n_shards (bc_payload c)) (bc_size_bytes c) led"

text \<open>Register a chunk, then note it: the two lock scopes of the publish loop and of the ingest loop.\<close>

definition note_in_ledger :: "'d rocks_lib \<Rightarrow> borsh_lib \<Rightarrow> ErasureConfig \<Rightarrow> BlobChunk \<Rightarrow> 'd BlobCustodyHandle \<Rightarrow>
    (AnyError, bool) outcome \<times> 'd BlobCustodyHandle" where
  "note_in_ledger R B cfg c h = (let led = register_chunk_in_ledger c cfg (bh_ledger h) in
     case note_chunk (bc_blob_id c) (chunk_index c) (store_get_chunk R B (bh_db h)) (led, bh_cache h) of
       (r, led, cache) \<Rightarrow> (map_err any_store r, h\<lparr>bh_ledger := led, bh_cache := cache\<rparr>))"

fun note_all :: "'d rocks_lib \<Rightarrow> borsh_lib \<Rightarrow> ErasureConfig \<Rightarrow> BlobChunk list \<Rightarrow> 'd BlobCustodyHandle \<Rightarrow>
    (AnyError, unit) outcome \<times> 'd BlobCustodyHandle" where
  "note_all R B cfg [] h = (Ok (), h)"
| "note_all R B cfg (c # cs) h = bind_st (note_in_ledger R B cfg c h) (\<lambda>_ h. note_all R B cfg cs h)"

fun gossip_all :: "wire_lib \<Rightarrow> BlobChunk list \<Rightarrow> 'd BlobCustodyHandle \<Rightarrow> (AnyError, unit) outcome \<times> 'd BlobCustodyHandle" where
  "gossip_all W [] h = (Ok (), h)"
| "gossip_all W (c # cs) h = call (map_err AnyNet (encode_blob_chunk W c)) h (\<lambda>m.
     gossip_all W cs (if bh_tx_open h then h\<lparr>bh_publish_tx := bh_publish_tx h @ [m]\<rparr> else h))"

definition publish_payload :: "'x crypto_lib \<Rightarrow> 'd rocks_lib \<Rightarrow> borsh_lib \<Rightarrow> wire_lib \<Rightarrow> ErasureConfig \<Rightarrow> bytes \<Rightarrow>
    'd BlobCustodyHandle \<Rightarrow> (AnyError, BlobId) outcome \<times> 'd BlobCustodyHandle" where
  "publish_payload L R B W cfg payload h =
     (if \<not> bh_boot_sync_done h then (Err (AnyMsg ''boot recovery not complete''), h)
      else if 2 ^ 64 \<le> length payload then (Panic ''payload fits u64'', h)
      else let blob_id = blob_id_from_payload L payload; size_bytes = of_nat (length payload) in
        bind_st (map_prod (map_err AnyErasure) id (with_cache (encode_shards payload cfg) h)) (\<lambda>shards h.
        call (erasure_chunks blob_id size_bytes shards) h (\<lambda>chunks.
        bind_st (blob_ref_commitment L cfg payload h) (\<lambda>commitment h. let
          blob_ref = \<lparr> br_blob_id = blob_id, br_commitment = commitment, br_size_bytes = size_bytes \<rparr>;
          r = \<lparr> pr_state = publish_state_byte Ready, pr_blob_ref = blob_ref \<rparr> in
        bind_st (map_prod (map_err any_store) id (with_db (publish_blob_atomic R B chunks r) h)) (\<lambda>_ h.
        bind_st (note_all R B cfg chunks (enqueue_pending blob_ref h)) (\<lambda>_ h.
        bind_st (gossip_all W chunks h) (\<lambda>_ h. (Ok blob_id, h))))))))"

section \<open>Ingestion\<close>

definition ingest_chunk :: "'d rocks_lib \<Rightarrow> borsh_lib \<Rightarrow> ErasureConfig \<Rightarrow> BlobChunk \<Rightarrow> 'd BlobCustodyHandle \<Rightarrow>
    (AnyError, unit) outcome \<times> 'd BlobCustodyHandle" where
  "ingest_chunk R B cfg c h = (case with_db (store_put_chunk R B c) h of
      (Err _, h) \<Rightarrow> (Ok (), h)
    | (Panic m, h) \<Rightarrow> (Panic m, h)
    | (Ok _, h) \<Rightarrow> bind_st (note_in_ledger R B cfg c h) (\<lambda>_ h. (Ok (), h)))"

section \<open>Boot recovery\<close>

definition validate_chunks :: "'d rocks_lib \<Rightarrow> BlobId \<Rightarrow> u32 \<Rightarrow> 'd \<Rightarrow> bool" where
  "validate_chunks R blob n d = list_all (\<lambda>i. store_has_chunk R blob (of_nat i) d = Ok True) [0..<unat n]"

definition rehydrate_chunk :: "'d rocks_lib \<Rightarrow> BlobId \<Rightarrow> 'd \<Rightarrow> nat \<Rightarrow> CustodyLedger \<Rightarrow> CustodyLedger" where
  "rehydrate_chunk R blob d i led = (if store_has_chunk R blob (of_nat i) d = Ok True
     then snd (note_chunk_present blob (of_nat i) led) else led)"

definition rehydrate_ledger :: "'d rocks_lib \<Rightarrow> ErasureConfig \<Rightarrow> BlobRef \<Rightarrow> 'd BlobCustodyHandle \<Rightarrow> 'd BlobCustodyHandle" where
  "rehydrate_ledger R cfg r h = h\<lparr>bh_ledger := fold (rehydrate_chunk R (br_blob_id r) (bh_db h)) [0..<unat (ec_n cfg)]
     (register_erasure (br_blob_id r) cfg (ec_n cfg) (br_size_bytes r) (bh_ledger h))\<rparr>"

definition recover_blob :: "'d rocks_lib \<Rightarrow> ErasureConfig \<Rightarrow> BlobRef \<Rightarrow> 'd BlobCustodyHandle \<Rightarrow> 'd BlobCustodyHandle" where
  "recover_blob R cfg r h = (if \<not> validate_chunks R (br_blob_id r) (ec_n cfg) (bh_db h) then h
     else enqueue_pending r (rehydrate_ledger R cfg r h))"

definition run_boot_recovery :: "'d rocks_lib \<Rightarrow> borsh_lib \<Rightarrow> ErasureConfig \<Rightarrow> 'd BlobCustodyHandle \<Rightarrow> 'd BlobCustodyHandle" where
  "run_boot_recovery R B cfg h = (case scan_ready_blobs R B (bh_db h) of
      Ok ready \<Rightarrow> fold (recover_blob R cfg) ready h
    | _ \<Rightarrow> h)"

text \<open>\<open>scan_orphan_chunks\<close> only counts; the identities it counts, in the order of their first chunk.\<close>

fun orphan_ids :: "'d rocks_lib \<Rightarrow> borsh_lib \<Rightarrow> 'd \<Rightarrow> (StorageError, bytes \<times> bytes) outcome list \<Rightarrow> BlobId list \<Rightarrow> BlobId list" where
  "orphan_ids R B d [] seen = seen"
| "orphan_ids R B d (item # items) seen = (case item of
      Ok (key, _) \<Rightarrow> if length key < 32 then orphan_ids R B d items seen
        else let blob = word_of_be (take 32 key) in
          if blob \<in> set seen then orphan_ids R B d items seen
          else (case publish_get R B blob d of
            Ok None \<Rightarrow> orphan_ids R B d items (seen @ [blob])
          | _ \<Rightarrow> orphan_ids R B d items seen)
    | _ \<Rightarrow> orphan_ids R B d items seen)"

definition scan_orphan_chunks :: "'d rocks_lib \<Rightarrow> borsh_lib \<Rightarrow> 'd \<Rightarrow> BlobId list" where
  "scan_orphan_chunks R B d = orphan_ids R B d (scan_cf R CfBlobChunk d) []"

definition custody_spawn :: "'d rocks_lib \<Rightarrow> borsh_lib \<Rightarrow> ErasureConfig \<Rightarrow> 'd \<Rightarrow> 'd BlobCustodyHandle" where
  "custody_spawn R B cfg d = (run_boot_recovery R B cfg \<lparr> bh_db = d, bh_ledger = custody_default, bh_cache = Map.empty,
     bh_publish_tx = [], bh_tx_open = True, bh_pending = pending_default, bh_boot_sync_done = False \<rparr>)
     \<lparr>bh_boot_sync_done := True\<rparr>"

end
