(* ===== verification/Node_Blob_Facts.thy ===== *)
theory Node_Blob_Facts
  imports Node_Blobs Storage_Facts Erasure_Properties
begin

text \<open>
  What blob custody keeps: the database stays complete (a publish record comes with all chunks of its
  blob), the pending queue has no duplicates, and recovery at boot finds exactly the blobs that are ready.
\<close>

section \<open>Pending queue\<close>

definition pq_wf :: "PendingQueue \<Rightarrow> bool" where
  "pq_wf q \<longleftrightarrow> distinct (map br_blob_id (pq_queue q)) \<and> pq_ids q = br_blob_id ` set (pq_queue q)"

lemma pq_wf_default: "pq_wf pending_default"
  by (simp add: pq_wf_def pending_default_def)

lemma pq_wf_enqueue: "pq_wf q \<Longrightarrow> pq_wf (snd (pq_enqueue r q))"
  by (auto simp: pq_wf_def pq_enqueue_def)

lemma pq_wf_drain: "pq_wf q \<Longrightarrow> pq_wf (snd (pq_drain q))"
  by (simp add: pq_wf_def pq_drain_def)

lemma set_pq_enqueue:
  assumes "pq_wf q" "inj_on br_blob_id (insert r (set (pq_queue q)))"
  shows "set (pq_queue (snd (pq_enqueue r q))) = insert r (set (pq_queue q))"
  using assms by (auto simp: pq_enqueue_def pq_wf_def inj_on_def)

section \<open>The ledger\<close>

lemma note_in_ledger_Ok:
  assumes R: "rocks_ok R view" and rep: "represents B (view (bh_db h)) A" and "cache_ok (bh_cache h)"
  obtains r led cache where "note_in_ledger R B cfg c h = (Ok r, h\<lparr>bh_ledger := led, bh_cache := cache\<rparr>)" "cache_ok cache"
proof -
  let ?get = "store_get_chunk R B (bh_db h)" and ?led = "register_chunk_in_ledger c cfg (bh_ledger h)"
  have get: "no_panic (?get b i)" for b i
    by (simp add: store_get_chunk_def reads(9) [OF R rep])
  obtain m where m: "cl_meta ?led (bc_blob_id c) = Some m"
    by (simp add: register_chunk_in_ledger_def register_erasure_def)
  let ?m = "m\<lparr>bm_received := insert (chunk_index c) (bm_received m)\<rparr>"
  obtain r cache where *: "erasure_available (bc_blob_id c) ?m ?get (bh_cache h) = (Ok r, cache)" "cache_ok cache"
    by (rule erasure_available_iff [OF assms(3) _ get, of ?m]) simp_all
  show thesis
  proof (cases "bc_blob_id c \<in> cl_available ?led")
    case True
    then have "note_in_ledger R B cfg c h = (Ok False, h\<lparr>bh_ledger := ?led, bh_cache := bh_cache h\<rparr>)"
      by (simp add: note_in_ledger_def note_chunk_def)
    then show thesis
      using assms(3) by (rule that)
  next
    case False
    then show thesis
      using that m * by (cases r) (auto simp: note_in_ledger_def note_chunk_def Let_def)
  qed
qed

lemma note_all_Ok:
  assumes R: "rocks_ok R view" and rep: "represents B (view (bh_db h)) A" and "cache_ok (bh_cache h)"
  obtains led cache where "note_all R B cfg cs h = (Ok (), h\<lparr>bh_ledger := led, bh_cache := cache\<rparr>)" "cache_ok cache"
  using assms
proof (induction cs arbitrary: h thesis)
  case Nil
  then show ?case
    by (intro Nil.prems(1) [where led = "bh_ledger h" and cache = "bh_cache h"]) simp_all
next
  case (Cons c cs)
  obtain r led cache where *: "note_in_ledger R B cfg c h = (Ok r, h\<lparr>bh_ledger := led, bh_cache := cache\<rparr>)" "cache_ok cache"
    using Cons.prems by (metis note_in_ledger_Ok)
  let ?h = "h\<lparr>bh_ledger := led, bh_cache := cache\<rparr>"
  obtain led' cache' where "note_all R B cfg cs ?h = (Ok (), ?h\<lparr>bh_ledger := led', bh_cache := cache'\<rparr>)" "cache_ok cache'"
    using Cons.IH [of ?h] Cons.prems(2,3) *(2) by auto
  then show ?case
    using * by (intro Cons.prems(1) [where led = led' and cache = cache']) simp_all
qed

lemma gossip_all_frame: "\<exists>tx. snd (gossip_all W cs h) = h\<lparr>bh_publish_tx := tx\<rparr>"
proof (induction cs arbitrary: h)
  case Nil
  show ?case
    by (intro exI [of _ "bh_publish_tx h"]) simp
next
  case (Cons c cs)
  show ?case
  proof (cases "encode_blob_chunk W c")
    case (Ok m)
    obtain tx where "snd (gossip_all W cs (if bh_tx_open h then h\<lparr>bh_publish_tx := bh_publish_tx h @ [m]\<rparr> else h)) =
        (if bh_tx_open h then h\<lparr>bh_publish_tx := bh_publish_tx h @ [m]\<rparr> else h)\<lparr>bh_publish_tx := tx\<rparr>"
      using Cons by blast
    then show ?thesis
      using Ok by auto
  qed (auto intro: exI [of _ "bh_publish_tx h"])
qed

lemma gossip_all_ok: "(\<And>x. is_ok (enc_of (wl_chunk W) x)) \<Longrightarrow> is_ok (fst (gossip_all W cs h))"
proof (induction cs arbitrary: h)
  case (Cons c cs)
  then obtain b where "enc_of (wl_chunk W) c = Ok b"
    by (meson is_ok_iff)
  then show ?case
    using Cons by (simp add: encode_blob_chunk_def)
qed simp

section \<open>The invariant\<close>

definition complete :: "ErasureConfig \<Rightarrow> abs_db \<Rightarrow> bool" where
  "complete cfg A \<longleftrightarrow> (\<forall>b s r. ab_published A b = Some (s, r) \<longrightarrow>
     br_blob_id r = b \<and> (\<forall>i < ec_n cfg. ab_chunks A (b, i) \<noteq> None))"

definition host_ok :: "borsh_lib \<Rightarrow> ('d \<Rightarrow> contents) \<Rightarrow> ErasureConfig \<Rightarrow> abs_db \<Rightarrow> 'd BlobCustodyHandle \<Rightarrow> bool" where
  "host_ok B view cfg A h \<longleftrightarrow> represents B (view (bh_db h)) A \<and> complete cfg A \<and> cache_ok (bh_cache h) \<and>
     pq_wf (bh_pending h) \<and> bh_boot_sync_done h"

definition is_ready :: "abs_db \<Rightarrow> BlobId \<Rightarrow> bool" where
  "is_ready A b \<longleftrightarrow> (\<exists>r. ab_published A b = Some (Ready, r))"

definition is_attached :: "abs_db \<Rightarrow> BlobId \<Rightarrow> bool" where
  "is_attached A b \<longleftrightarrow> (\<exists>r. ab_published A b = Some (Attached, r))"

lemma abs_chunks_fold:
  "ab_published (fold abs_chunk cs A) = ab_published A"
  "ab_chunks (fold abs_chunk cs A) (b, i) \<noteq> None \<longleftrightarrow>
     ab_chunks A (b, i) \<noteq> None \<or> (\<exists>c \<in> set cs. bc_blob_id c = b \<and> chunk_index c = i)"
  by (induction cs arbitrary: A) (auto simp: abs_chunk_def)

lemma complete_publish:
  assumes "complete cfg A" "\<And>i. i < ec_n cfg \<Longrightarrow> \<exists>c \<in> set cs. bc_blob_id c = br_blob_id r \<and> chunk_index c = i"
    and "abs_op (PublishBlob cs r) A = Some A'"
  shows "complete cfg A'" "is_ready A' (br_blob_id r)" "b \<noteq> br_blob_id r \<Longrightarrow> ab_published A' b = ab_published A b"
  using assms abs_chunks_fold [of cs A] by (auto simp: complete_def is_ready_def Let_def split: if_splits)

lemma complete_attach:
  assumes "complete cfg A" "abs_op (AttachBlob b) A = Some A'"
  shows "complete cfg A'" "is_attached A' b" "b' \<noteq> b \<Longrightarrow> ab_published A' b' = ab_published A b'"
  using assms by (auto simp: complete_def is_attached_def split: option.splits if_splits)

lemma complete_chunk: "complete cfg A \<Longrightarrow> complete cfg (abs_chunk c A)" "ab_published (abs_chunk c A) = ab_published A"
  by (auto simp: complete_def abs_chunk_def)

lemma refines_cases:
  assumes "refines B view A A1 r"
  obtains (acked) A' where "is_ok (fst r)" "A1 = Some A'" "represents B (view (snd r)) A'"
    | (failed) "\<not> is_ok (fst r)" "represents B (view (snd r)) A"
  using assms by (auto simp: refines_def split: if_splits)

section \<open>Steps of the host\<close>

lemma erasure_chunks_cover:
  assumes "erasure_chunks b sz shards = (Ok chunks :: ('e, _) outcome)" "length shards = unat n" "i < n"
  shows "\<exists>c \<in> set chunks. bc_blob_id c = b \<and> chunk_index c = i"
proof -
  have "(unat i, shards ! unat i) \<in> set (enumerate 0 shards)"
    using assms(2,3) by (simp add: in_set_enumerate_eq word_less_nat_alt)
  then show ?thesis
    using assms(1) by (force simp: erasure_chunks_def chunk_index_def split: if_splits)
qed

lemma encode_cases:
  assumes "cache_ok c"
  obtains r c' where "encode_shards payload cfg c = (r, c')" "cache_ok c'" "no_panic r"
    "\<forall>shards. r = Ok shards \<longrightarrow> length shards = unat (ec_n cfg) \<and> validate_cfg cfg = Ok ()"
proof (cases "validate_cfg cfg = Ok () \<and> length payload \<le> padded_len cfg")
  case True
  then show thesis
    using encode_decode [of cfg payload c] assms that by auto
next
  case False
  then have "snd (encode_shards payload cfg c) = c" "\<not> is_ok (fst (encode_shards payload cfg c))"
      "no_panic (fst (encode_shards payload cfg c))"
    by (auto simp: encode_shards_def validate_cfg_def)
  then show thesis
    using that [of "fst (encode_shards payload cfg c)" c] assms by (metis is_ok.simps(1) prod.collapse)
qed

text \<open>
  Publication fails before it writes, or writes one batch that covers the blob and then only changes
  memory.
\<close>

definition publish_rest :: "'d rocks_lib \<Rightarrow> borsh_lib \<Rightarrow> wire_lib \<Rightarrow> ErasureConfig \<Rightarrow> BlobChunk list \<Rightarrow> BlobRef \<Rightarrow>
    'd BlobCustodyHandle \<Rightarrow> (AnyError, BlobId) outcome \<times> 'd BlobCustodyHandle" where
  "publish_rest R B W cfg chunks r h =
     bind_st (note_all R B cfg chunks (enqueue_pending r h)) (\<lambda>_ h.
     bind_st (gossip_all W chunks h) (\<lambda>_ h. (Ok (br_blob_id r), h)))"

definition stored_phase :: "'x crypto_lib \<Rightarrow> 'd rocks_lib \<Rightarrow> borsh_lib \<Rightarrow> wire_lib \<Rightarrow> ErasureConfig \<Rightarrow> bytes \<Rightarrow>
    'd BlobCustodyHandle \<Rightarrow> matrix_cache \<Rightarrow> BlobChunk list \<Rightarrow> BlobRef \<Rightarrow> bool" where
  "stored_phase L R B W cfg payload h c chunks r \<longleftrightarrow>
     cache_ok c \<and> br_blob_id r = blob_id_from_payload L payload \<and>
     (\<forall>i < ec_n cfg. \<exists>x \<in> set chunks. bc_blob_id x = br_blob_id r \<and> chunk_index x = i) \<and>
     publish_payload L R B W cfg payload h =
       bind_st (map_prod (map_err any_store) id (with_db (run_op R B (PublishBlob chunks r)) (h\<lparr>bh_cache := c\<rparr>)))
         (\<lambda>_. publish_rest R B W cfg chunks r)"

lemma publish_payload_stored:
  assumes "cache_ok (bh_cache h)" "bh_boot_sync_done h" "length payload < 2 ^ 64"
    and enc: "fst (encode_shards payload cfg (bh_cache h)) = Ok shards"
  obtains c chunks r where "stored_phase L R B W cfg payload h c chunks r"
proof -
  let ?id = "blob_id_from_payload L payload" and ?sz = "of_nat (length payload) :: u64"
  obtain e c1 where e: "encode_shards payload cfg (bh_cache h) = (e, c1)" "cache_ok c1"
    "\<forall>shards. e = Ok shards \<longrightarrow> length shards = unat (ec_n cfg) \<and> validate_cfg cfg = Ok ()"
    by (rule encode_cases [OF assms(1), of payload cfg])
  obtain e' c2 where e': "encode_shards payload cfg c1 = (e', c2)" "cache_ok c2"
    by (rule encode_cases [OF e(2), of payload cfg])
  have Ok: "e = Ok shards" "e' = Ok shards"
    using encode_any_cache [OF assms(1) e(2), of payload cfg] e(1) e'(1) enc by simp_all
  have n: "length shards = unat (ec_n cfg)" "shards \<noteq> []"
    using e(3) Ok by (auto simp: validate_cfg_Ok_iff)
  obtain chunks where chunks: "erasure_chunks ?id ?sz shards = (Ok chunks :: (AnyError, _) outcome)"
    using n(1) unat_less_exp [of "ec_n cfg"] by (simp add: erasure_chunks_def)
  obtain root where root: "rs_merkle_commitment L shards = (Ok root :: (AnyError, _) outcome)"
    using n(2) by (simp add: rs_merkle_commitment_def binary_merkle_root_def)
  let ?r = "\<lparr> br_blob_id = ?id, br_commitment = root, br_size_bytes = ?sz \<rparr>"
  have "publish_payload L R B W cfg payload h =
      bind_st (map_prod (map_err any_store) id (with_db (run_op R B (PublishBlob chunks ?r)) (h\<lparr>bh_cache := c2\<rparr>)))
        (\<lambda>_. publish_rest R B W cfg chunks ?r)"
    using assms(2,3) e(1) e'(1) Ok chunks root
    by (simp add: publish_payload_def with_cache_def blob_ref_commitment_def publish_rest_def [abs_def] Let_def)
  then show thesis
    using erasure_chunks_cover [OF chunks n(1)] e'(2) by (intro that [of c2 chunks ?r]) (simp add: stored_phase_def)
qed

lemma publish_payload_phases:
  assumes "cache_ok (bh_cache h)"
  shows "(\<exists>c. snd (publish_payload L R B W cfg payload h) = h\<lparr>bh_cache := c\<rparr> \<and> cache_ok c \<and>
      \<not> is_ok (fst (publish_payload L R B W cfg payload h))) \<or>
    (\<exists>c chunks r. stored_phase L R B W cfg payload h c chunks r)"
proof (cases "\<not> bh_boot_sync_done h \<or> 2 ^ 64 \<le> length payload")
  case True
  then show ?thesis
    using assms by (intro disjI1 exI [of _ "bh_cache h"]) (auto simp: publish_payload_def)
next
  case False
  obtain e c1 where e: "encode_shards payload cfg (bh_cache h) = (e, c1)" "cache_ok c1" "no_panic e"
    by (rule encode_cases [OF assms, of payload cfg])
  show ?thesis
  proof (cases e)
    case (Ok shards)
    then show ?thesis
      using publish_payload_stored [OF assms, of payload cfg shards L R B W] False e(1) by (metis fst_conv not_le)
  next
    case (Err x)
    then show ?thesis
      using False e(1,2) by (intro disjI1 exI [of _ c1]) (simp add: publish_payload_def with_cache_def Let_def)
  next
    case (Panic x)
    then show ?thesis
      using e(3) by simp
  qed
qed

lemma publish_rest_frame:
  assumes "rocks_ok R view" "represents B (view (bh_db h)) A" "cache_ok (bh_cache h)" "pq_wf (bh_pending h)"
  obtains led cache tx where "snd (publish_rest R B W cfg chunks r h) =
      h\<lparr>bh_ledger := led, bh_cache := cache, bh_pending := snd (pq_enqueue r (bh_pending h)), bh_publish_tx := tx\<rparr>"
    "cache_ok cache"
    "\<forall>b. fst (publish_rest R B W cfg chunks r h) = Ok b \<longrightarrow> b = br_blob_id r"
    "(\<forall>x. is_ok (enc_of (wl_chunk W) x)) \<longrightarrow> fst (publish_rest R B W cfg chunks r h) = Ok (br_blob_id r)"
proof -
  let ?h = "enqueue_pending r h"
  obtain led cache where *: "note_all R B cfg chunks ?h = (Ok (), ?h\<lparr>bh_ledger := led, bh_cache := cache\<rparr>)" "cache_ok cache"
    by (rule note_all_Ok [of R view B ?h A cfg chunks]) (use assms in \<open>simp_all add: enqueue_pending_def\<close>)
  let ?g = "?h\<lparr>bh_ledger := led, bh_cache := cache\<rparr>"
  obtain tx where tx: "snd (gossip_all W chunks ?g) = ?g\<lparr>bh_publish_tx := tx\<rparr>"
    using gossip_all_frame by blast
  have eq: "publish_rest R B W cfg chunks r h = bind_st (gossip_all W chunks ?g) (\<lambda>_ h. (Ok (br_blob_id r), h))"
    by (simp add: publish_rest_def *)
  obtain res h' where res: "gossip_all W chunks ?g = (res, h')"
    by fastforce
  then have h': "h' = h\<lparr>bh_ledger := led, bh_cache := cache, bh_pending := snd (pq_enqueue r (bh_pending h)), bh_publish_tx := tx\<rparr>"
    using tx by (simp add: enqueue_pending_def)
  have res': "snd (publish_rest R B W cfg chunks r h) = h'"
      "\<forall>b. fst (publish_rest R B W cfg chunks r h) = Ok b \<longrightarrow> b = br_blob_id r"
      "is_ok res \<longrightarrow> fst (publish_rest R B W cfg chunks r h) = Ok (br_blob_id r)"
    unfolding eq res by (cases res; simp)+
  have "is_ok res" if "\<forall>x. is_ok (enc_of (wl_chunk W) x)"
    using gossip_all_ok [of W chunks ?g] that unfolding res by simp
  with res'(3) have ack: "(\<forall>x. is_ok (enc_of (wl_chunk W) x)) \<longrightarrow> fst (publish_rest R B W cfg chunks r h) = Ok (br_blob_id r)"
    by blast
  show thesis
    by (rule that [OF res'(1) [unfolded h'] *(2) res'(2) ack])
qed

lemma publish_payload_step:
  assumes R: "rocks_ok R view" and B: "borsh_ok B" and h: "host_ok B view cfg A h"
  obtains A' where "host_ok B view cfg A' (snd (publish_payload L R B W cfg payload h))"
    "\<And>b. fst (publish_payload L R B W cfg payload h) = Ok b \<Longrightarrow> b = blob_id_from_payload L payload \<and> is_ready A' b"
    "\<And>b. b \<noteq> blob_id_from_payload L payload \<Longrightarrow> ab_published A' b = ab_published A b"
    "\<And>b. is_ready A b \<Longrightarrow> is_ready A' b"
proof -
  let ?p = "publish_payload L R B W cfg payload h"
  from h have cache: "cache_ok (bh_cache h)"
    by (simp add: host_ok_def)
  consider (early) c where "snd ?p = h\<lparr>bh_cache := c\<rparr>" "cache_ok c" "\<not> is_ok (fst ?p)"
    | (stored) c chunks r where "cache_ok c" "br_blob_id r = blob_id_from_payload L payload"
      "\<forall>i < ec_n cfg. \<exists>x \<in> set chunks. bc_blob_id x = br_blob_id r \<and> chunk_index x = i"
      "?p = bind_st (map_prod (map_err any_store) id (with_db (run_op R B (PublishBlob chunks r)) (h\<lparr>bh_cache := c\<rparr>)))
          (\<lambda>_. publish_rest R B W cfg chunks r)"
    using publish_payload_phases [OF cache, of L R B W cfg payload] unfolding stored_phase_def by blast
  then show thesis
  proof cases
    case early
    then show thesis
      using h by (intro that [of A]) (auto simp: host_ok_def)
  next
    case stored
    let ?op = "run_op R B (PublishBlob chunks r) (bh_db h)"
    have "refines B view A (abs_op (PublishBlob chunks r) A) ?op"
      by (rule run_op_simulates [OF R B]) (use h in \<open>simp add: host_ok_def\<close>)
    then show thesis
    proof (cases rule: refines_cases)
      case (acked A')
      let ?h = "h\<lparr>bh_cache := c, bh_db := snd ?op\<rparr>"
      have p: "?p = publish_rest R B W cfg chunks r ?h"
        using stored(4) acked(1) by (cases ?op; cases "fst ?op") (simp_all add: with_db_def)
      have A': "complete cfg A'" "is_ready A' (br_blob_id r)"
          "\<And>b. b \<noteq> br_blob_id r \<Longrightarrow> ab_published A' b = ab_published A b"
        using complete_publish [of cfg A chunks r A'] stored(3) acked(2) h by (simp_all add: host_ok_def)
      obtain led cache tx where rest: "snd ?p = ?h\<lparr>bh_ledger := led, bh_cache := cache,
          bh_pending := snd (pq_enqueue r (bh_pending ?h)), bh_publish_tx := tx\<rparr>" "cache_ok cache"
          "\<forall>b. fst ?p = Ok b \<longrightarrow> b = br_blob_id r"
        unfolding p by (rule publish_rest_frame [OF R, of B ?h A' W cfg chunks r])
          (use acked(3) stored(1) h in \<open>simp_all add: host_ok_def\<close>)
      have "host_ok B view cfg A' (snd ?p)"
        using rest(1,2) A'(1) acked(3) h pq_wf_enqueue by (simp add: host_ok_def)
      moreover have "is_ready A' b" if "is_ready A b" for b
        using that A'(2,3) by (cases "b = br_blob_id r") (simp_all add: is_ready_def)
      ultimately show thesis
        using that A'(2,3) rest(3) stored(2) by metis
    next
      case failed
      then have "\<not> is_ok (fst ?p)" "snd ?p = h\<lparr>bh_cache := c, bh_db := snd ?op\<rparr>"
        using stored(4) by (cases ?op; cases "fst ?op"; simp add: with_db_def)+
      then show thesis
        using failed(2) stored(1) h by (intro that [of A]) (auto simp: host_ok_def)
    qed
  qed
qed

text \<open>A database and codecs that accept what publication writes and sends.\<close>

definition accepts_blobs :: "'d rocks_lib \<Rightarrow> borsh_lib \<Rightarrow> wire_lib \<Rightarrow> bool" where
  "accepts_blobs R B W \<longleftrightarrow> writable R \<and> (\<forall>x. is_ok (enc_of (bl_chunk B) x)) \<and> (\<forall>x. is_ok (enc_of (bl_publish B) x)) \<and>
     (\<forall>x. is_ok (enc_of (wl_chunk W) x))"

lemma publish_payload_succeeds:
  assumes R: "rocks_ok R view" and B: "borsh_ok B" and h: "host_ok B view cfg A h" and "accepts_blobs R B W"
    and "validate_cfg cfg = Ok ()" "length payload \<le> padded_len cfg" "length payload < 2 ^ 64"
  shows "fst (publish_payload L R B W cfg payload h) = Ok (blob_id_from_payload L payload)"
proof -
  obtain shards where enc: "fst (encode_shards payload cfg (bh_cache h)) = Ok shards"
    using encode_decode [OF assms(5,6), of "bh_cache h"] h by (auto simp: host_ok_def)
  obtain c chunks r where phase: "stored_phase L R B W cfg payload h c chunks r"
    by (rule publish_payload_stored [OF _ _ assms(7) enc]) (use h in \<open>simp_all add: host_ok_def\<close>)
  let ?op = "run_op R B (PublishBlob chunks r) (bh_db h)"
  have ok: "is_ok (fst ?op)"
    by (rule publish_ok [OF R]) (use assms(4) in \<open>auto simp: accepts_blobs_def list_all_iff\<close>)
  have "refines B view A (abs_op (PublishBlob chunks r) A) ?op"
    by (rule run_op_simulates [OF R B]) (use h in \<open>simp add: host_ok_def\<close>)
  then obtain A' where A': "represents B (view (snd ?op)) A'"
    using ok by (auto elim: refines_cases)
  let ?h = "h\<lparr>bh_cache := c, bh_db := snd ?op\<rparr>"
  have p: "publish_payload L R B W cfg payload h = publish_rest R B W cfg chunks r ?h"
    using phase ok by (cases ?op; cases "fst ?op") (simp_all add: stored_phase_def with_db_def)
  let ?q = "publish_rest R B W cfg chunks r ?h"
  have pre: "represents B (view (bh_db ?h)) A'" "cache_ok (bh_cache ?h)" "pq_wf (bh_pending ?h)"
    using A' phase h by (simp_all add: stored_phase_def host_ok_def)
  have "(\<forall>x. is_ok (enc_of (wl_chunk W) x)) \<longrightarrow> fst ?q = Ok (br_blob_id r)"
    by (rule publish_rest_frame [OF R pre])
  then show ?thesis
    using assms(4) conjunct1 [OF conjunct2 [OF phase [unfolded stored_phase_def]]] unfolding p accepts_blobs_def by simp
qed

lemma mark_attached_step:
  assumes R: "rocks_ok R view" and B: "borsh_ok B" and h: "host_ok B view cfg A h"
  obtains A' where "host_ok B view cfg A' (snd (mark_attached R B b h))"
    "is_ok (fst (mark_attached R B b h)) \<Longrightarrow> is_attached A' b"
    "\<And>b'. b' \<noteq> b \<Longrightarrow> ab_published A' b' = ab_published A b'"
    "is_attached A b \<Longrightarrow> is_attached A' b"
proof -
  let ?op = "run_op R B (AttachBlob b) (bh_db h)"
  have eq: "mark_attached R B b h = (map_err any_store (fst ?op), h\<lparr>bh_db := snd ?op\<rparr>)"
    by (simp add: mark_attached_def with_db_def case_prod_beta)
  have "refines B view A (abs_op (AttachBlob b) A) ?op"
    by (rule run_op_simulates [OF R B]) (use h in \<open>simp add: host_ok_def\<close>)
  then show thesis
  proof (cases rule: refines_cases)
    case (acked A')
    then show thesis
      using h complete_attach [of cfg A b A'] by (intro that [of A']) (simp_all add: eq host_ok_def)
  next
    case failed
    then show thesis
      using h by (intro that [of A]) (simp_all add: eq host_ok_def map_err_cases)
  qed
qed

lemma ingest_chunk_step:
  assumes R: "rocks_ok R view" and B: "borsh_ok B" and h: "host_ok B view cfg A h"
  obtains A' where "host_ok B view cfg A' (snd (ingest_chunk R B cfg c h))" "ab_published A' = ab_published A"
proof -
  let ?op = "run_op R B (PutChunk c) (bh_db h)"
  have "refines B view A (abs_op (PutChunk c) A) ?op"
    by (rule run_op_simulates [OF R B]) (use h in \<open>simp add: host_ok_def\<close>)
  then show thesis
  proof (cases rule: refines_cases)
    case (acked A')
    then have A': "A' = abs_chunk c A"
      by simp
    let ?h = "h\<lparr>bh_db := snd ?op\<rparr>"
    obtain r led cache where "note_in_ledger R B cfg c ?h = (Ok r, ?h\<lparr>bh_ledger := led, bh_cache := cache\<rparr>)" "cache_ok cache"
      by (rule note_in_ledger_Ok [where h = ?h and A = A', OF R]) (use acked(3) h in \<open>simp_all add: host_ok_def\<close>)
    then have "snd (ingest_chunk R B cfg c h) = ?h\<lparr>bh_ledger := led, bh_cache := cache\<rparr>" "cache_ok cache"
      using acked(1) by (cases ?op; cases "fst ?op"; simp add: ingest_chunk_def with_db_def)+
    then show thesis
      using acked(3) A' h by (intro that [of A']) (simp_all add: host_ok_def complete_chunk)
  next
    case failed
    then have "snd (ingest_chunk R B cfg c h) = h\<lparr>bh_db := snd ?op\<rparr>"
      by (cases ?op; cases "fst ?op"; simp add: ingest_chunk_def with_db_def)
    then show thesis
      using failed(2) h by (intro that [of A]) (simp_all add: host_ok_def)
  qed
qed

lemma drain_step: "host_ok B view cfg A h \<Longrightarrow> host_ok B view cfg A (snd (drain_pending R B h))"
  using pq_wf_drain [of "bh_pending h"] by (auto simp: host_ok_def drain_pending_def split: prod.splits)

section \<open>Boot recovery\<close>

lemma validate_chunks_iff:
  assumes "rocks_ok R view" "represents B (view d) A"
  shows "validate_chunks R b n d \<longleftrightarrow> (\<forall>i < n. ab_chunks A (b, i) \<noteq> None)"
proof -
  have *: "(\<forall>j < unat n. P (of_nat j)) \<longleftrightarrow> (\<forall>i < n. P i)" for P :: "u32 \<Rightarrow> bool"
  proof safe
    fix i assume "\<forall>j < unat n. P (of_nat j)" "i < n"
    then have "P (of_nat (unat i))"
      using word_less_nat_alt by blast
    then show "P i"
      by simp
  next
    fix j assume "\<forall>i < n. P i" "j < unat n"
    then show "P (of_nat j)"
      using less_trans [OF \<open>j < unat n\<close> unat_less_exp] by (simp add: word_less_nat_alt unat_of_nat_small)
  qed
  show ?thesis
    using * [of "\<lambda>i. ab_chunks A (b, i) \<noteq> None"]
    by (simp add: validate_chunks_def list_all_iff store_has_chunk_def reads(10) [OF assms] Ball_def)
qed

lemma note_present_grows: "cl_available led \<subseteq> cl_available (snd (note_chunk_present b i led))"
  by (auto simp: note_chunk_present_def Let_def split: option.splits)

lemma rehydrate_grows: "cl_available led \<subseteq> cl_available (fold (rehydrate_chunk R b d) is led)"
proof (induction "is" arbitrary: led)
  case (Cons i "is")
  have "cl_available led \<subseteq> cl_available (rehydrate_chunk R b d i led)"
    using note_present_grows by (auto simp: rehydrate_chunk_def)
  then show ?case
    using Cons [of "rehydrate_chunk R b d i led"] by simp
qed simp

text \<open>With every chunk present, the blob becomes available by the \<open>k\<close>-th chunk.\<close>

lemma rehydrate_available:
  assumes present: "\<And>j. j < n \<Longrightarrow> store_has_chunk R b (of_nat j) d = Ok True"
    and meta: "cl_meta led b = Some m" "bm_cfg m = cfg" and j: "j \<le> n" "n \<le> 2 ^ 32"
  shows "b \<in> cl_available (fold (rehydrate_chunk R b d) [0..<j] led) \<or>
    (\<exists>m. cl_meta (fold (rehydrate_chunk R b d) [0..<j] led) b = Some m \<and> bm_cfg m = cfg \<and>
      of_nat ` {..<j} \<subseteq> bm_received m \<and> (0 < j \<longrightarrow> card (bm_received m) < unat (ec_k cfg)))"
  using j(1)
proof (induction j)
  case 0
  then show ?case
    using meta by simp
next
  case (Suc j)
  let ?led = "fold (rehydrate_chunk R b d) [0..<j] led"
  have step: "fold (rehydrate_chunk R b d) [0..<Suc j] led = snd (note_chunk_present b (of_nat j) ?led)"
    using present [of j] Suc.prems by (simp add: rehydrate_chunk_def)
  show ?case
  proof (cases "b \<in> cl_available ?led")
    case True
    then show ?thesis
      using note_present_grows unfolding step by blast
  next
    case False
    then obtain m' where "cl_meta ?led b = Some m'" "bm_cfg m' = cfg" "of_nat ` {..<j} \<subseteq> bm_received m'"
      using Suc by auto
    then show ?thesis
      unfolding step using False by (auto simp: note_chunk_present_def Let_def lessThan_Suc not_le)
  qed
qed

lemma recover_available:
  assumes "validate_cfg cfg = Ok ()" "validate_chunks R (br_blob_id r) (ec_n cfg) (bh_db h)"
  shows "br_blob_id r \<in> cl_available (bh_ledger (rehydrate_ledger R cfg r h))"
proof -
  let ?n = "unat (ec_n cfg)" and ?led = "register_erasure (br_blob_id r) cfg (ec_n cfg) (br_size_bytes r) (bh_ledger h)"
  have present: "store_has_chunk R (br_blob_id r) (of_nat j) (bh_db h) = Ok True" if "j < ?n" for j
    using assms(2) that by (simp add: validate_chunks_def list_all_iff)
  obtain m where m: "cl_meta ?led (br_blob_id r) = Some m" "bm_cfg m = cfg"
    by (auto simp: register_erasure_def split: option.splits)
  have k: "unat (ec_k cfg) \<le> ?n" "0 < ?n" "?n \<le> 2 ^ 32"
    using assms(1) unat_less_exp [of "ec_n cfg"] by (simp_all add: validate_cfg_Ok_iff)
  have card: "card (of_nat ` {..<?n} :: u32 set) = ?n"
    using k(3) by (subst card_image) (auto intro!: inj_onI simp: unat_of_nat_small dest: arg_cong [where f = unat])
  have False if "of_nat ` {..<?n} \<subseteq> R'" "card R' < unat (ec_k cfg)" for R' :: "u32 set"
    using card_mono [OF _ that(1)] that(2) card k(1) by simp
  then show ?thesis
    using rehydrate_available [OF present m order_refl k(3)] k(2) by (auto simp: rehydrate_ledger_def)
qed

lemma recover_all:
  assumes "validate_cfg cfg = Ok ()" "\<forall>r \<in> set refs. validate_chunks R (br_blob_id r) (ec_n cfg) (bh_db h)"
    and "pq_wf (bh_pending h)" "inj_on br_blob_id (set (pq_queue (bh_pending h)) \<union> set refs)"
  shows "\<exists>led q. fold (recover_blob R cfg) refs h = h\<lparr>bh_ledger := led, bh_pending := q\<rparr> \<and> pq_wf q \<and>
    set (pq_queue q) = set (pq_queue (bh_pending h)) \<union> set refs \<and>
    cl_available (bh_ledger h) \<union> br_blob_id ` set refs \<subseteq> cl_available led"
  using assms(2-4)
proof (induction refs arbitrary: h)
  case Nil
  then show ?case
    by (intro exI [of _ "bh_ledger h"] exI [of _ "bh_pending h"]) simp
next
  case (Cons r refs)
  define h1 where "h1 = recover_blob R cfg r h"
  have h1: "h1 = h\<lparr>bh_ledger := bh_ledger (rehydrate_ledger R cfg r h), bh_pending := snd (pq_enqueue r (bh_pending h))\<rparr>"
    using Cons.prems(1) by (simp add: h1_def recover_blob_def enqueue_pending_def rehydrate_ledger_def)
  have q1: "pq_wf (bh_pending h1)" "set (pq_queue (bh_pending h1)) = insert r (set (pq_queue (bh_pending h)))"
    unfolding h1 using Cons.prems(2,3) pq_wf_enqueue set_pq_enqueue [of "bh_pending h" r]
    by (auto intro: inj_on_subset)
  have led1: "insert (br_blob_id r) (cl_available (bh_ledger h)) \<subseteq> cl_available (bh_ledger h1)"
    using recover_available [OF assms(1), of R r h] Cons.prems(1) rehydrate_grows
    unfolding h1 by (fastforce simp: rehydrate_ledger_def register_erasure_def)
  obtain led q where "fold (recover_blob R cfg) refs h1 = h1\<lparr>bh_ledger := led, bh_pending := q\<rparr>" "pq_wf q"
      "set (pq_queue q) = set (pq_queue (bh_pending h1)) \<union> set refs"
      "cl_available (bh_ledger h1) \<union> br_blob_id ` set refs \<subseteq> cl_available led"
    using Cons.IH [of h1] Cons.prems q1 unfolding h1 by auto
  then show ?case
    using q1(2) led1 by (intro exI [of _ led] exI [of _ q]) (auto simp: h1 simp flip: h1_def)
qed

lemma custody_spawn_ready:
  assumes R: "rocks_ok R view" and cfg: "validate_cfg cfg = Ok ()"
    and rep: "represents B (view d) A" and complete: "complete cfg A"
  shows "host_ok B view cfg A (custody_spawn R B cfg d)" "bh_db (custody_spawn R B cfg d) = d"
    "set (pq_queue (bh_pending (custody_spawn R B cfg d))) = {r. \<exists>b. ab_published A b = Some (Ready, r)}"
    "is_ready A b \<Longrightarrow> handle_is_available b (custody_spawn R B cfg d)"
proof -
  let ?h = "\<lparr> bh_db = d, bh_ledger = custody_default, bh_cache = Map.empty, bh_publish_tx = [], bh_tx_open = True,
    bh_pending = pending_default, bh_boot_sync_done = False \<rparr>"
  obtain refs where refs: "scan_ready R B d = Ok refs" "set refs = {r. \<exists>b. ab_published A b = Some (Ready, r)}"
    by (rule scan_ready_set [OF R rep])
  have keyed: "ab_published A (br_blob_id r) = Some (Ready, r)" if "r \<in> set refs" for r
    using that refs(2) complete by (fastforce simp: complete_def)
  have "\<forall>r \<in> set refs. validate_chunks R (br_blob_id r) (ec_n cfg) (bh_db ?h)"
    using keyed complete validate_chunks_iff [OF R rep] by (fastforce simp: complete_def)
  moreover have "inj_on br_blob_id (set refs)"
    using keyed by (intro inj_onI) (metis option.inject prod.inject)
  ultimately obtain led q where *: "fold (recover_blob R cfg) refs ?h = ?h\<lparr>bh_ledger := led, bh_pending := q\<rparr>" "pq_wf q"
      "set (pq_queue q) = set refs" "br_blob_id ` set refs \<subseteq> cl_available led"
    using recover_all [OF cfg, of refs R ?h] pq_wf_default by (auto simp: pending_default_def)
  have spawn: "custody_spawn R B cfg d = ?h\<lparr>bh_ledger := led, bh_pending := q, bh_boot_sync_done := True\<rparr>"
    using refs(1) *(1) by (simp add: custody_spawn_def run_boot_recovery_def scan_ready_blobs_def)
  show "host_ok B view cfg A (custody_spawn R B cfg d)" "bh_db (custody_spawn R B cfg d) = d"
    "set (pq_queue (bh_pending (custody_spawn R B cfg d))) = {r. \<exists>b. ab_published A b = Some (Ready, r)}"
    using spawn *(2,3) rep complete cache_ok_empty refs(2) by (simp_all add: host_ok_def)
  show "handle_is_available b (custody_spawn R B cfg d)" if ready: "is_ready A b"
  proof -
    obtain r where "ab_published A b = Some (Ready, r)"
      using ready by (auto simp: is_ready_def)
    then have "r \<in> set refs" "br_blob_id r = b"
      using refs(2) complete by (auto simp: complete_def)
    then show ?thesis
      using spawn *(4) by (auto simp: handle_is_available_def is_available_def)
  qed
qed

text \<open>What a drain returns: the queued blobs that are not attached, each once.\<close>

lemma drain_returns:
  assumes R: "rocks_ok R view" and h: "host_ok B view cfg A h"
  shows "fst (drain_pending R B h) = filter (\<lambda>r. \<not> is_attached A (br_blob_id r)) (pq_queue (bh_pending h))"
    "distinct (map br_blob_id (fst (drain_pending R B h)))"
proof -
  have rep: "represents B (view (bh_db h)) A"
    using h by (simp add: host_ok_def)
  have attached: "store_is_attached R B b (bh_db h) = Ok True \<longleftrightarrow> is_attached A b" for b
    using is_attached_reads [OF R rep, of b] by (auto simp: store_is_attached_def is_attached_def)
  show *: "fst (drain_pending R B h) = filter (\<lambda>r. \<not> is_attached A (br_blob_id r)) (pq_queue (bh_pending h))"
    using h attached by (simp add: drain_pending_def pq_drain_def host_ok_def)
  show "distinct (map br_blob_id (fst (drain_pending R B h)))"
    unfolding * using h by (auto simp: host_ok_def pq_wf_def distinct_map intro: inj_on_subset)
qed

section \<open>Runs\<close>

text \<open>A restart keeps the database and loses everything else.\<close>

datatype host_input =
    HPublish bytes
  | HDrain
  | HAttach BlobId
  | HChunk BlobChunk
  | HRestart

fun host_step :: "'x crypto_lib \<Rightarrow> 'd rocks_lib \<Rightarrow> borsh_lib \<Rightarrow> wire_lib \<Rightarrow> ErasureConfig \<Rightarrow> host_input \<Rightarrow>
    'd BlobCustodyHandle \<Rightarrow> 'd BlobCustodyHandle" where
  "host_step L R B W cfg (HPublish payload) h = snd (publish_payload L R B W cfg payload h)"
| "host_step L R B W cfg HDrain h = snd (drain_pending R B h)"
| "host_step L R B W cfg (HAttach b) h = snd (mark_attached R B b h)"
| "host_step L R B W cfg (HChunk c) h = snd (ingest_chunk R B cfg c h)"
| "host_step L R B W cfg HRestart h = custody_spawn R B cfg (bh_db h)"

definition run_host :: "'x crypto_lib \<Rightarrow> 'd rocks_lib \<Rightarrow> borsh_lib \<Rightarrow> wire_lib \<Rightarrow> ErasureConfig \<Rightarrow> host_input list \<Rightarrow>
    'd BlobCustodyHandle \<Rightarrow> 'd BlobCustodyHandle" where
  "run_host L R B W cfg steps h = fold (host_step L R B W cfg) steps h"

lemma host_step_ok:
  assumes "rocks_ok R view" "borsh_ok B" "validate_cfg cfg = Ok ()" "host_ok B view cfg A h"
  obtains A' where "host_ok B view cfg A' (host_step L R B W cfg s h)"
    "\<And>b. s \<noteq> HAttach b \<Longrightarrow> is_ready A b \<Longrightarrow> is_ready A' b"
    "\<And>b. (\<forall>p. s = HPublish p \<longrightarrow> blob_id_from_payload L p \<noteq> b) \<Longrightarrow> is_attached A b \<Longrightarrow> is_attached A' b"
proof (cases s)
  case (HPublish payload)
  obtain A' where "host_ok B view cfg A' (snd (publish_payload L R B W cfg payload h))"
    "\<And>b. b \<noteq> blob_id_from_payload L payload \<Longrightarrow> ab_published A' b = ab_published A b"
    "\<And>b. is_ready A b \<Longrightarrow> is_ready A' b"
    by (rule publish_payload_step [OF assms(1,2,4)]) blast
  then show thesis
    using HPublish by (intro that [of A']) (auto simp: is_attached_def)
next
  case HDrain
  then show thesis
    using drain_step [OF assms(4)] by (intro that [of A]) simp_all
next
  case (HAttach b)
  obtain A' where A': "host_ok B view cfg A' (snd (mark_attached R B b h))"
    "\<And>b'. b' \<noteq> b \<Longrightarrow> ab_published A' b' = ab_published A b'" "is_attached A b \<Longrightarrow> is_attached A' b"
    by (rule mark_attached_step [OF assms(1,2,4)]) blast
  have "is_attached A' b'" if "is_attached A b'" for b'
    using that A'(2,3) by (cases "b' = b") (simp_all add: is_attached_def)
  then show thesis
    using HAttach A'(1,2) by (intro that [of A']) (auto simp: is_ready_def)
next
  case (HChunk c)
  obtain A' where "host_ok B view cfg A' (snd (ingest_chunk R B cfg c h))" "ab_published A' = ab_published A"
    by (rule ingest_chunk_step [OF assms(1,2,4)])
  then show thesis
    using HChunk by (intro that [of A']) (auto simp: is_attached_def is_ready_def)
next
  case HRestart
  have "host_ok B view cfg A (custody_spawn R B cfg (bh_db h))"
    by (rule custody_spawn_ready(1) [OF assms(1,3)]) (use assms(4) in \<open>simp_all add: host_ok_def\<close>)
  then show thesis
    using HRestart by (intro that [of A]) simp_all
qed

lemma run_host_ok:
  assumes "rocks_ok R view" "borsh_ok B" "validate_cfg cfg = Ok ()" "host_ok B view cfg A h"
  obtains A' where "host_ok B view cfg A' (run_host L R B W cfg steps h)"
    "\<And>b. HAttach b \<notin> set steps \<Longrightarrow> is_ready A b \<Longrightarrow> is_ready A' b"
    "\<And>b. (\<forall>p. HPublish p \<in> set steps \<longrightarrow> blob_id_from_payload L p \<noteq> b) \<Longrightarrow> is_attached A b \<Longrightarrow> is_attached A' b"
  using assms(4)
proof (induction steps arbitrary: A h thesis)
  case Nil
  then show ?case
    by (intro Nil.prems(1) [of A]) (simp_all add: run_host_def)
next
  case (Cons s steps)
  obtain A1 where A1: "host_ok B view cfg A1 (host_step L R B W cfg s h)"
    "\<And>b. s \<noteq> HAttach b \<Longrightarrow> is_ready A b \<Longrightarrow> is_ready A1 b"
    "\<And>b. (\<forall>p. s = HPublish p \<longrightarrow> blob_id_from_payload L p \<noteq> b) \<Longrightarrow> is_attached A b \<Longrightarrow> is_attached A1 b"
    by (rule host_step_ok [OF assms(1-3) Cons.prems(2)]) blast
  obtain A2 where A2: "host_ok B view cfg A2 (run_host L R B W cfg steps (host_step L R B W cfg s h))"
    "\<And>b. HAttach b \<notin> set steps \<Longrightarrow> is_ready A1 b \<Longrightarrow> is_ready A2 b"
    "\<And>b. (\<forall>p. HPublish p \<in> set steps \<longrightarrow> blob_id_from_payload L p \<noteq> b) \<Longrightarrow> is_attached A1 b \<Longrightarrow> is_attached A2 b"
    by (rule Cons.IH [OF _ A1(1)]) blast
  show ?case
    using A1 A2 by (intro Cons.prems(1) [of A2]) (auto simp: run_host_def)
qed

text \<open>What a restart finds, and what it finds of an acknowledged publication or attachment.\<close>

lemma restart_finds:
  assumes R: "rocks_ok R view" and cfg: "validate_cfg cfg = Ok ()" and h: "host_ok B view cfg A h"
  shows "host_ok B view cfg A (custody_spawn R B cfg (bh_db h))"
    "set (fst (drain_pending R B (custody_spawn R B cfg (bh_db h)))) = {r. \<exists>b. ab_published A b = Some (Ready, r)}"
    "is_ready A b \<Longrightarrow> handle_is_available b (custody_spawn R B cfg (bh_db h))"
proof -
  have rep: "represents B (view (bh_db h)) A" "complete cfg A"
    using h by (simp_all add: host_ok_def)
  note spawn = custody_spawn_ready [OF R cfg rep]
  show "host_ok B view cfg A (custody_spawn R B cfg (bh_db h))"
    "is_ready A b \<Longrightarrow> handle_is_available b (custody_spawn R B cfg (bh_db h))"
    by (rule spawn(1), rule spawn(4))
  show "set (fst (drain_pending R B (custody_spawn R B cfg (bh_db h)))) = {r. \<exists>b. ab_published A b = Some (Ready, r)}"
    using drain_returns(1) [OF R spawn(1)] spawn(3) rep(2) by (auto simp: is_attached_def complete_def)
qed

lemma published_recovered:
  assumes hyps: "rocks_ok R view" "borsh_ok B" "validate_cfg cfg = Ok ()" and h: "host_ok B view cfg A h"
    and ack: "fst (publish_payload L R B W cfg payload h) = Ok b" and after: "HAttach b \<notin> set after"
    and h': "h' = run_host L R B W cfg after (snd (publish_payload L R B W cfg payload h))"
  shows "b \<in> br_blob_id ` set (fst (drain_pending R B (custody_spawn R B cfg (bh_db h')))) \<and>
    handle_is_available b (custody_spawn R B cfg (bh_db h'))"
proof -
  obtain A1 where A1: "host_ok B view cfg A1 (snd (publish_payload L R B W cfg payload h))"
    and stored: "\<And>b. fst (publish_payload L R B W cfg payload h) = Ok b \<Longrightarrow> b = blob_id_from_payload L payload \<and> is_ready A1 b"
    by (rule publish_payload_step [OF hyps(1,2) h, of L W payload]) blast
  obtain A2 where A2: "host_ok B view cfg A2 h'"
    and kept: "\<And>b. HAttach b \<notin> set after \<Longrightarrow> is_ready A1 b \<Longrightarrow> is_ready A2 b"
    unfolding h' by (rule run_host_ok [OF hyps A1, of L W after]) blast
  have ready: "is_ready A2 b"
    using kept [OF after] stored [OF ack] by blast
  with A2 obtain r where "ab_published A2 b = Some (Ready, r)" "br_blob_id r = b"
    by (auto simp: is_ready_def host_ok_def complete_def)
  then show ?thesis
    using restart_finds(2,3) [OF hyps(1,3) A2] ready by blast
qed

lemma attached_stays:
  assumes hyps: "rocks_ok R view" "borsh_ok B" "validate_cfg cfg = Ok ()" and h: "host_ok B view cfg A h"
    and ack: "is_ok (fst (mark_attached R B b h))"
    and after: "\<forall>p. HPublish p \<in> set after \<longrightarrow> blob_id_from_payload L p \<noteq> b"
    and h': "h' = run_host L R B W cfg after (snd (mark_attached R B b h))"
  shows "b \<notin> br_blob_id ` set (fst (drain_pending R B h')) \<and>
    b \<notin> br_blob_id ` set (fst (drain_pending R B (custody_spawn R B cfg (bh_db h'))))"
proof -
  obtain A1 where A1: "host_ok B view cfg A1 (snd (mark_attached R B b h))"
    and stored: "is_ok (fst (mark_attached R B b h)) \<Longrightarrow> is_attached A1 b"
    by (rule mark_attached_step [OF hyps(1,2) h, of b]) blast
  obtain A2 where A2: "host_ok B view cfg A2 h'"
    and kept: "\<And>b. (\<forall>p. HPublish p \<in> set after \<longrightarrow> blob_id_from_payload L p \<noteq> b) \<Longrightarrow> is_attached A1 b \<Longrightarrow> is_attached A2 b"
    unfolding h' by (rule run_host_ok [OF hyps A1, of L W after]) blast
  have "is_attached A2 b"
    by (rule kept [OF after stored [OF ack]])
  then show ?thesis
    using drain_returns(1) [OF hyps(1) A2] drain_returns(1) [OF hyps(1) restart_finds(1) [OF hyps(1,3) A2]] by auto
qed

end
