(* ===== verification/Node_Blob_Properties.thy ===== *)
theory Node_Blob_Properties
  imports Node_Blob_Facts Storage_Samples Sample_Committee
begin

text \<open>Publication of blobs survives crashes.\<close>

text \<open>
  C10: Blob custody over any history of publications, drains, attachments, ingested chunks and crashes, on
  a database that starts with complete publish records. A payload whose publication is acknowledged, and
  whose blob is not attached afterwards, is handed out for attachment after the next restart, and its blob
  is available there without decoding; what happened to it in memory before the crash does not matter.
  A blob whose attachment is acknowledged is not handed out again, with or without a restart, as long as its
  payload is not published again; a second publication is like the first and makes an attached blob pending
  once more. No drain hands out a blob twice. Publication is acknowledged whenever the
  payload fits the erasure configuration and the database and the codecs accept the rows.
\<close>

theorem blob_recovery:
  assumes "rocks_ok R view" "borsh_ok B" "validate_cfg cfg = Ok ()" "represents B (view d) A" "complete cfg A"
    and h_def: "h = run_host L R B W cfg before (custody_spawn R B cfg d)"
    and published_def: "published = run_host L R B W cfg after (snd (publish_payload L R B W cfg payload h))"
    and attached_def: "attached = run_host L R B W cfg after (snd (mark_attached R B b h))"
  shows "(fst (publish_payload L R B W cfg payload h) = Ok b \<and> HAttach b \<notin> set after \<longrightarrow>
      b \<in> br_blob_id ` set (fst (drain_pending R B (custody_spawn R B cfg (bh_db published)))) \<and>
      handle_is_available b (custody_spawn R B cfg (bh_db published))) \<and>
    (is_ok (fst (mark_attached R B b h)) \<and> (\<forall>p. HPublish p \<in> set after \<longrightarrow> blob_id_from_payload L p \<noteq> b) \<longrightarrow>
      b \<notin> br_blob_id ` set (fst (drain_pending R B attached)) \<and>
      b \<notin> br_blob_id ` set (fst (drain_pending R B (custody_spawn R B cfg (bh_db attached))))) \<and>
    distinct (map br_blob_id (fst (drain_pending R B h))) \<and>
    (accepts_blobs R B W \<and> length payload \<le> padded_len cfg \<and> length payload < 2 ^ 64 \<longrightarrow>
      fst (publish_payload L R B W cfg payload h) = Ok (blob_id_from_payload L payload))"
proof -
  obtain A1 where A1: "host_ok B view cfg A1 h"
    unfolding h_def by (rule run_host_ok [OF assms(1-3) custody_spawn_ready(1) [OF assms(1,3-5)]])
  have "fst (publish_payload L R B W cfg payload h) = Ok (blob_id_from_payload L payload)"
    if "accepts_blobs R B W" "length payload \<le> padded_len cfg" "length payload < 2 ^ 64"
    by (rule publish_payload_succeeds [OF assms(1,2) A1 that(1) assms(3) that(2,3)])
  then show ?thesis
    using published_recovered [OF assms(1-3) A1 _ _ published_def] attached_stays [OF assms(1-3) A1 _ _ attached_def]
      drain_returns(2) [OF assms(1) A1] by blast
qed

text \<open>
  A payload of three bytes, shards of two bytes, two of four shards enough: the blob is published and attached,
  the payload published again and drained; after a crash the blob is handed out although it had been attached.
\<close>

definition gossip_chunk_codec :: "BlobChunk codec" where
  "gossip_chunk_codec = \<lparr>
     enc_of = (\<lambda>c. Ok (be_bytes 32 (bc_blob_id c) @ be_bytes 8 (bc_size_bytes c) @ be_bytes 4 (chunk_index c) @
       be_bytes 4 (chunk_unit_count c) @ chunk_data c)),
     dec_of = (\<lambda>b. if length b < 48 then Err ''unexpected length'' else Ok \<lparr> bc_blob_id = word_of_be (take 32 b),
       bc_size_bytes = word_of_be (take 8 (drop 32 b)), bc_payload = ErasureChunk (word_of_be (take 4 (drop 40 b)))
         (word_of_be (take 4 (drop 44 b))) (drop 48 b) \<rparr>) \<rparr>"

definition chunk_wire :: wire_lib where
  "chunk_wire = \<lparr> wl_micro_qc = refusing_codec, wl_macro_proposal = refusing_codec, wl_bls_partial = refusing_codec,
     wl_subnet_aggregate = refusing_codec, wl_macro_qc = refusing_codec, wl_evidence = refusing_codec,
     wl_certified = refusing_codec, wl_proposal = refusing_codec, wl_partial = refusing_codec,
     wl_chunk = gossip_chunk_codec \<rparr>"

lemma sample_accepts: "accepts_blobs mem_rocks sample_borsh chunk_wire"
  by (simp add: accepts_blobs_def writable_mem sample_borsh_def chunk_codec_def publish_codec_def chunk_wire_def
      gossip_chunk_codec_def)

lemma blob_recovery_witness:
  "\<exists>r. r \<in> set (fst (drain_pending mem_rocks sample_borsh (custody_spawn mem_rocks sample_borsh sample_cfg
      (bh_db (run_host sample_lib mem_rocks sample_borsh chunk_wire sample_cfg [HDrain, HRestart, HDrain]
        (snd (publish_payload sample_lib mem_rocks sample_borsh chunk_wire sample_cfg [1, 2, 3]
          (run_host sample_lib mem_rocks sample_borsh chunk_wire sample_cfg [HPublish [1, 2, 3], HAttach (blob_id_from_payload sample_lib [1, 2, 3])]
            (custody_spawn mem_rocks sample_borsh sample_cfg empty_db))))))))) \<and>
     br_blob_id r = blob_id_from_payload sample_lib [1, 2, 3]"
proof -
  have "complete sample_cfg no_entries"
    by (simp add: complete_def no_entries_def)
  note recovery = blob_recovery [where view = mem_view and d = empty_db and payload = "[1, 2, 3]" and
      before = "[HPublish [1, 2, 3], HAttach (blob_id_from_payload sample_lib [1, 2, 3])]" and after = "[HDrain, HRestart, HDrain]" and L = sample_lib and W = chunk_wire and
      b = "blob_id_from_payload sample_lib [1, 2, 3]",
      OF rocks_ok_mem borsh_ok_sample sample_cfg_valid represents_empty this refl refl refl]
  have "length [1, 2, 3 :: u8] \<le> padded_len sample_cfg \<and> length [1, 2, 3 :: u8] < 2 ^ 64"
    by (simp add: padded_len_def sample_cfg_def)
  then have ack: "fst (publish_payload sample_lib mem_rocks sample_borsh chunk_wire sample_cfg [1, 2, 3]
      (run_host sample_lib mem_rocks sample_borsh chunk_wire sample_cfg [HPublish [1, 2, 3], HAttach (blob_id_from_payload sample_lib [1, 2, 3])]
        (custody_spawn mem_rocks sample_borsh sample_cfg empty_db))) = Ok (blob_id_from_payload sample_lib [1, 2, 3])"
    using recovery sample_accepts by (simp only: simp_thms)
  have "HAttach (blob_id_from_payload sample_lib [1, 2, 3]) \<notin> set [HDrain, HRestart, HDrain]"
    by simp
  with ack conjunct1 [OF recovery] show ?thesis
    by (auto simp del: list.set)
qed

end
