(* ===== verification/Node.thy ===== *)
theory Node
  imports Node_Blobs State_Machine
begin

text \<open>
  The node, \<open>apps/node/src\<close>: the live DAG (\<open>live_dag.rs\<close>), the host ports (\<open>host_context.rs\<close>, \<open>signer.rs\<close>,
  \<open>devnet_keys.rs\<close>), the application of local actions (\<open>action_applier.rs\<close>), timers (\<open>timer.rs\<close>), the
  orchestrator (\<open>orchestrator.rs\<close>) and queries (\<open>query.rs\<close>). The tasks of the process share one record:
  the state machine, the DAG index, the beacon, the database, the blob custody and the channels between
  the tasks. A step of the orchestrator is one iteration of its loop.
\<close>

section \<open>Live DAG\<close>

record LiveDag =
  ld_by_hash :: "Hash32 \<rightharpoonup> CertifiedVertex"
  ld_by_round :: "Round \<rightharpoonup> CertifiedVertex list"

definition live_dag_new :: LiveDag where
  "live_dag_new = \<lparr> ld_by_hash = Map.empty, ld_by_round = Map.empty \<rparr>"

definition ld_vertices_at_round :: "LiveDag \<Rightarrow> Round \<Rightarrow> CertifiedVertex list" where
  "ld_vertices_at_round dag r = (case ld_by_round dag r of None \<Rightarrow> [] | Some vs \<Rightarrow> vs)"

definition index_vertex :: "Round \<Rightarrow> CertifiedVertex \<Rightarrow> LiveDag \<Rightarrow> LiveDag" where
  "index_vertex r v dag = \<lparr> ld_by_hash = (ld_by_hash dag)(v_hash (cv_vertex v) \<mapsto> v),
     ld_by_round = (ld_by_round dag)(r \<mapsto> ld_vertices_at_round dag r @ [v]) \<rparr>"

definition live_dag_ingest :: "'d rocks_lib \<Rightarrow> borsh_lib \<Rightarrow> CertifiedVertex \<Rightarrow> LiveDag \<times> 'd \<Rightarrow>
    (Error, unit) outcome \<times> (LiveDag \<times> 'd)" where
  "live_dag_ingest R B v = (\<lambda>(dag, d). case vertex_put R B v d of
      (Ok _, d) \<Rightarrow> (Ok (), (index_vertex (v_round (cv_vertex v)) v dag, d))
    | (Err e, d) \<Rightarrow> (Err (PersistenceError (''store certified vertex: '' @ storage_error_display e)), (dag, d))
    | (Panic m, d) \<Rightarrow> (Panic m, (dag, d)))"

definition live_dag_load :: "'d rocks_lib \<Rightarrow> borsh_lib \<Rightarrow> Round \<Rightarrow> ValidatorId \<Rightarrow> 'd \<Rightarrow> LiveDag \<Rightarrow>
    (Error, CertifiedVertex option) outcome \<times> LiveDag" where
  "live_dag_load R B r author d dag =
     call (map_err (\<lambda>e. PersistenceError (''load certified vertex: '' @ storage_error_display e)) (vertex_get R B r author d)) dag
       (\<lambda>v. case v of
          Some vertex \<Rightarrow> (Ok (Some vertex), index_vertex r vertex dag)
        | None \<Rightarrow> (Ok None, dag))"

definition certified_hashes_in_range :: "LiveDag \<Rightarrow> Round \<Rightarrow> Round \<Rightarrow> Hash32 list" where
  "certified_hashes_in_range dag from to = (if to < from then []
     else concat (map (\<lambda>r. map (\<lambda>cv. v_hash (cv_vertex cv)) (ld_vertices_at_round dag (of_nat r))) [unat from..<Suc (unat to)]))"

section \<open>Ports\<close>

definition beacon_new :: Hash32 where
  "beacon_new = hash_zero"

definition adopt_macro_qc :: "'x crypto_lib \<Rightarrow> MacroQc \<Rightarrow> Hash32 \<Rightarrow> Hash32" where
  "adopt_macro_qc L qc current = chain_beacon L current (mq_checkpoint_hash qc)"

definition cached_set_for :: "ValidatorSet \<Rightarrow> Epoch \<Rightarrow> (Error, ValidatorSet option) outcome" where
  "cached_set_for vset epoch = Ok (if vs_epoch vset = epoch then Some vset else None)"

definition cached_index_of :: "ValidatorSet \<Rightarrow> Epoch \<Rightarrow> ValidatorId \<Rightarrow> (Error, u32 option) outcome" where
  "cached_index_of vset epoch validator = (if vs_epoch vset \<noteq> epoch then Ok None
     else Ok (map_option (\<lambda>i. case u32_try_from i of None \<Rightarrow> - 1 | Some w \<Rightarrow> w)
       (position (\<lambda>e. ve_id e = validator) (vs_entries vset))))"

definition custody_drain :: "'d rocks_lib \<Rightarrow> borsh_lib \<Rightarrow> 'd BlobCustodyHandle option \<Rightarrow>
    BlobRef list \<times> 'd BlobCustodyHandle option" where
  "custody_drain R B c = (case c of None \<Rightarrow> ([], None)
     | Some h \<Rightarrow> (case drain_pending R B h of (refs, h) \<Rightarrow> (refs, Some h)))"

definition custody_confirm :: "'d rocks_lib \<Rightarrow> borsh_lib \<Rightarrow> BlobRef list \<Rightarrow> 'd BlobCustodyHandle option \<Rightarrow>
    'd BlobCustodyHandle option" where
  "custody_confirm R B blobs c =
     map_option (fold (\<lambda>blob h. snd (mark_attached R B (br_blob_id blob) h)) blobs) c"

record 'x DevSigner =
  ds_bls :: 'x
  ds_vrf :: "'x VrfKey"

definition validator_id_from_label :: "'x crypto_lib \<Rightarrow> string \<Rightarrow> ValidatorId" where
  "validator_id_from_label L label = blake3_with_dst L DST_DEVNET_PEER_IDENTITY (ascii label)"

definition devnet_vrf_seed :: "'x crypto_lib \<Rightarrow> string \<Rightarrow> bytes" where
  "devnet_vrf_seed L label = be_bytes 32 (blake3_with_dst L DST_MACRO_PROPOSER_SIG (ascii label))"

definition build_signer :: "'x crypto_lib \<Rightarrow> bytes \<Rightarrow> bytes \<Rightarrow> (Error, 'x DevSigner) outcome" where
  "build_signer L ikm vrf_seed =
     bind_out (map_err (\<lambda>_. InvalidConfig ''invalid dev BLS key material'') (sk_from_ikm L ikm)) (\<lambda>bls.
       Ok \<lparr> ds_bls = bls, ds_vrf = vrf_key_from_seed L vrf_seed \<rparr>)"

text \<open>
  Key material comes from the environment variable, else from the key file (its content or the read
  error, as given by the file system), else from the label. \<open>hex_decode\<close> is the hex crate's decoder.
\<close>

definition rust_trim :: "string \<Rightarrow> string" where
  "rust_trim s = (let ws = (\<lambda>c. c \<in> {CHR '' '', CHR 0x09, CHR 0x0A, CHR 0x0B, CHR 0x0C, CHR 0x0D})
     in rev (dropWhile ws (rev (dropWhile ws s))))"

definition decode_ikm :: "(string \<Rightarrow> (string, bytes) outcome) \<Rightarrow> string \<Rightarrow> (Error, bytes) outcome" where
  "decode_ikm hex_decode hex =
     bind_out (map_err (\<lambda>e. InvalidConfig (''decode LUA_DAG_BLS_KEY hex: '' @ e)) (hex_decode (rust_trim hex))) (\<lambda>bytes.
       if length bytes \<noteq> 32 then Err (InvalidConfig ''BLS key must be 32 bytes'') else Ok bytes)"

definition resolve_ikm :: "'x crypto_lib \<Rightarrow> (string \<Rightarrow> (string, bytes) outcome) \<Rightarrow> string option \<Rightarrow> string \<Rightarrow>
    (string, string) outcome option \<Rightarrow> (Error, bytes) outcome" where
  "resolve_ikm L hex_decode env_key label key_file = (case env_key of
      Some hex \<Rightarrow> decode_ikm hex_decode hex
    | None \<Rightarrow> (case key_file of
        Some contents \<Rightarrow> bind_out (map_err (\<lambda>e. InvalidConfig (''read signer key: '' @ e)) contents) (\<lambda>raw.
          decode_ikm hex_decode (rust_trim raw))
      | None \<Rightarrow> Ok (devnet_bls_ikm L label)))"

definition vrf_seed_for :: "'x crypto_lib \<Rightarrow> string option \<Rightarrow> string \<Rightarrow> bool \<Rightarrow> bytes \<Rightarrow> bytes" where
  "vrf_seed_for L env_key label key_file ikm = (if env_key \<noteq> None \<or> key_file
     then be_bytes 32 (blake3_with_dst L DST_MACRO_PROPOSER_SIG ikm) else devnet_vrf_seed L label)"

definition load_for_label :: "'x crypto_lib \<Rightarrow> (string \<Rightarrow> (string, bytes) outcome) \<Rightarrow> string option \<Rightarrow> string \<Rightarrow> BlsPubkey \<Rightarrow>
    (string, string) outcome option \<Rightarrow> (Error, 'x DevSigner) outcome" where
  "load_for_label L hex_decode env_key label expected_bls key_file =
     bind_out (resolve_ikm L hex_decode env_key label key_file) (\<lambda>ikm.
       bind_out (build_signer L ikm (vrf_seed_for L env_key label (key_file \<noteq> None) ikm)) (\<lambda>signer.
         if pk_to_bytes L (blst_sk_to_pk L (ds_bls signer)) \<noteq> expected_bls
         then Err (InvalidConfig (''signer BLS pubkey for label `'' @ label @ ''` does not match validator set entry''))
         else Ok signer))"

text \<open>The devnet committee: an invalid devnet key panics.\<close>

definition devnet_validator_entry :: "'x crypto_lib \<Rightarrow> string \<Rightarrow> (Error, ValidatorEntry) outcome" where
  "devnet_validator_entry L label = (case sk_from_ikm L (devnet_bls_ikm L label) of
      Ok bls \<Rightarrow> Ok \<lparr> ve_id = validator_id_from_label L label, ve_bls_pubkey = pk_to_bytes L (blst_sk_to_pk L bls),
        ve_vrf_pubkey = word_of_be (vk_pk_compressed (vrf_key_from_seed L (devnet_vrf_seed L label))), ve_stake = 1,
        ve_identity = \<lparr> vi_asn = None, vi_cloud = None, vi_region = None \<rparr> \<rparr>
    | Err _ \<Rightarrow> Panic ''devnet BLS IKM must be valid''
    | Panic m \<Rightarrow> Panic m)"

definition devnet_valset_four :: "'x crypto_lib \<Rightarrow> (Error, ValidatorSet) outcome" where
  "devnet_valset_four L = bind_out (mapM_out (devnet_validator_entry L) devnet_labels) (\<lambda>entries.
     Ok \<lparr> vs_epoch = 0, vs_entries = entries, vs_total_stake = sum_list (map ve_stake entries) \<rparr>)"

text \<open>The ports of the host, assembled at start-up: the signer's key must match the node's own entry.\<close>

definition bundle_signer :: "'x crypto_lib \<Rightarrow> (string \<Rightarrow> (string, bytes) outcome) \<Rightarrow> string option \<Rightarrow> string \<Rightarrow> ValidatorSet \<Rightarrow>
    (Error, 'x DevSigner) outcome" where
  "bundle_signer L hex_decode env_key label vset = (case find (\<lambda>e. ve_id e = validator_id_from_label L label) (vs_entries vset) of
      None \<Rightarrow> Err (InvalidConfig ''self_id not found in validator set'')
    | Some e \<Rightarrow> load_for_label L hex_decode env_key label (ve_bls_pubkey e) None)"

definition build_host_context :: "'x crypto_lib \<Rightarrow> 'd rocks_lib \<Rightarrow> borsh_lib \<Rightarrow> 'x DevSigner \<Rightarrow> ValidatorSet \<Rightarrow> LiveDag \<Rightarrow>
    Hash32 \<Rightarrow> u128 \<Rightarrow> 'd BlobCustodyHandle option HostContext" where
  "build_host_context L R B signer vset dag beacon now = \<lparr>
     dag_vertex = (\<lambda>h. Ok (ld_by_hash dag h)),
     dag_vertices_at_round = (\<lambda>r. Ok (ld_vertices_at_round dag r)),
     valset_set_for = cached_set_for vset,
     valset_index_of = cached_index_of vset,
     beacon_current = Ok beacon,
     signer_sign_bls = bls_sign L (ds_bls signer),
     signer_vrf_prove = (\<lambda>alpha. map_err CryptoError (vrf_prove L (ds_vrf signer) alpha)),
     clock_now_nanos = now,
     blobs_drain = custody_drain R B,
     blobs_confirm_attached = custody_confirm R B \<rparr>"

section \<open>The process\<close>

record 'd Node =
  nd_sm :: StateMachine
  nd_dag :: LiveDag
  nd_beacon :: Hash32
  nd_db :: 'd
  nd_slash_seq :: u64
  nd_custody :: "'d BlobCustodyHandle option"
  nd_events :: "Event channel"
  nd_net :: "Action channel"
  nd_timer_tx :: "(TimerId \<times> u128) channel"
  nd_timers :: "TimerId \<rightharpoonup> u128"

definition channel_new :: "nat \<Rightarrow> 'a channel" where
  "channel_new capacity = \<lparr> chan_queue = [], chan_capacity = capacity, chan_open = True \<rparr>"

text \<open>The wiring of \<open>run_async\<close>, with blob custody when it is enabled.\<close>

definition start_custody :: "'d rocks_lib \<Rightarrow> borsh_lib \<Rightarrow> ErasureConfig option \<Rightarrow> 'd \<Rightarrow> 'd BlobCustodyHandle option" where
  "start_custody R B erasure d = map_option (\<lambda>ec. custody_spawn R B ec d) erasure"

declare start_custody_def [simp]

definition node_start :: "'d rocks_lib \<Rightarrow> borsh_lib \<Rightarrow> Config \<Rightarrow> ErasureConfig option \<Rightarrow> ValidatorId \<Rightarrow> 'd \<Rightarrow> 'd Node" where
  "node_start R B cfg erasure self_id d = \<lparr> nd_sm = state_machine_new cfg self_id, nd_dag = live_dag_new,
     nd_beacon = beacon_new, nd_db = d, nd_slash_seq = 0,
     nd_custody = start_custody R B erasure d,
     nd_events = channel_new 1024, nd_net = channel_new 1024, nd_timer_tx = channel_new 256, nd_timers = Map.empty \<rparr>"

text \<open>The custody shares the node's database.\<close>

definition load_custody :: "'d Node \<Rightarrow> 'd BlobCustodyHandle option" where
  "load_custody nd = map_option (\<lambda>h. h\<lparr>bh_db := nd_db nd\<rparr>) (nd_custody nd)"

definition store_custody :: "'d BlobCustodyHandle option \<Rightarrow> 'd Node \<Rightarrow> 'd Node" where
  "store_custody c nd = nd\<lparr>nd_custody := c, nd_db := (case c of None \<Rightarrow> nd_db nd | Some h \<Rightarrow> bh_db h)\<rparr>"

section \<open>Local actions\<close>

definition on_persistence :: "('d RocksPersistence \<Rightarrow> (Error, unit) outcome \<times> 'd RocksPersistence) \<Rightarrow> 'd Node \<Rightarrow>
    (Error, unit) outcome \<times> 'd Node" where
  "on_persistence f nd = (case f \<lparr> rp_db = nd_db nd, rp_seq = nd_slash_seq nd \<rparr> of
     (r, p) \<Rightarrow> (r, nd\<lparr>nd_db := rp_db p, nd_slash_seq := rp_seq p\<rparr>))"

definition timer_cancel :: "TimerId \<Rightarrow> (TimerId \<rightharpoonup> u128) \<Rightarrow> (TimerId \<rightharpoonup> u128)" where
  "timer_cancel tid timers = timers(tid := None)"

fun apply_action :: "'x crypto_lib \<Rightarrow> 'd rocks_lib \<Rightarrow> borsh_lib \<Rightarrow> Action \<Rightarrow> 'd Node \<Rightarrow> (Error, unit) outcome \<times> 'd Node" where
  "apply_action L R B (PersistMacroCheckpoint cp) nd = on_persistence (store_macro_checkpoint R B cp) nd"
| "apply_action L R B (PersistMacroQc qc) nd = bind_st (on_persistence (store_macro_qc R B qc) nd) (\<lambda>_ nd.
     (Ok (), nd\<lparr>nd_beacon := adopt_macro_qc L qc (nd_beacon nd)\<rparr>))"
| "apply_action L R B (EmitSlashEvidence v ev) nd = on_persistence (append_slash_evidence R B ev) nd"
| "apply_action L R B (ScheduleTimer tid delay) nd = (Ok (), nd\<lparr>nd_timer_tx := snd (try_send (tid, delay) (nd_timer_tx nd))\<rparr>)"
| "apply_action L R B (CancelTimer tid) nd = (Ok (), nd\<lparr>nd_timers := timer_cancel tid (nd_timers nd)\<rparr>)"
| "apply_action L R B (UpdateBlobStatus blob status) nd = on_persistence (update_blob_status R blob status) nd"
| "apply_action L R B _ nd = (Ok (), nd)"

section \<open>Timers\<close>

text \<open>
  A timer task sleeps until its time and then sends \<open>TimerFired\<close>; scheduling an identity that is already
  taken aborts the earlier task.
\<close>

definition timer_duration :: "u128 \<Rightarrow> u128" where
  "timer_duration delay = min delay (2 ^ 64 - 1)"

definition schedule_event :: "u128 \<Rightarrow> TimerId \<Rightarrow> u128 \<Rightarrow> (TimerId \<rightharpoonup> u128) \<Rightarrow> (TimerId \<rightharpoonup> u128)" where
  "schedule_event now tid delay timers = (timer_cancel tid timers)(tid \<mapsto> now + timer_duration delay)"

definition timer_loop_step :: "u128 \<Rightarrow> 'd Node \<Rightarrow> 'd Node" where
  "timer_loop_step now nd = (case chan_queue (nd_timer_tx nd) of
      [] \<Rightarrow> nd
    | (tid, delay) # rest \<Rightarrow> nd\<lparr>nd_timer_tx := (nd_timer_tx nd)\<lparr>chan_queue := rest\<rparr>,
        nd_timers := schedule_event now tid delay (nd_timers nd)\<rparr>)"

definition timer_task_step :: "u128 \<Rightarrow> TimerId \<Rightarrow> 'd Node \<Rightarrow> 'd Node" where
  "timer_task_step now tid nd = (case nd_timers nd tid of
      None \<Rightarrow> nd
    | Some due \<Rightarrow> if due \<le> now \<and> length (chan_queue (nd_events nd)) < chan_capacity (nd_events nd)
        then nd\<lparr>nd_timers := (nd_timers nd)(tid := None),
          nd_events := (nd_events nd)\<lparr>chan_queue := chan_queue (nd_events nd) @ [TimerFired tid]\<rparr>\<rparr>
        else nd)"

section \<open>Orchestrator\<close>

fun loop_back :: "Action \<Rightarrow> 'd Node \<Rightarrow> 'd Node" where
  "loop_back (BroadcastCertifiedVertex cv) nd =
     nd\<lparr>nd_events := snd (try_send (CertifiedVertexReceived cv) (nd_events nd))\<rparr>"
| "loop_back _ nd = nd"

definition dispatch_action :: "'x crypto_lib \<Rightarrow> 'd rocks_lib \<Rightarrow> borsh_lib \<Rightarrow> Action \<Rightarrow> 'd Node \<Rightarrow> 'd Node" where
  "dispatch_action L R B action nd = (let
     nd = loop_back action nd;
     nd = (if is_broadcast action then nd\<lparr>nd_net := snd (try_send action (nd_net nd))\<rparr> else nd)
   in snd (apply_action L R B action nd))"

definition dispatch_actions :: "'x crypto_lib \<Rightarrow> 'd rocks_lib \<Rightarrow> borsh_lib \<Rightarrow> Actions \<Rightarrow> 'd Node \<Rightarrow> 'd Node" where
  "dispatch_actions L R B actions nd = fold (dispatch_action L R B) actions nd"

text \<open>A call of the state machine, with the ports built from the node.\<close>

definition with_machine :: "'x crypto_lib \<Rightarrow> 'd rocks_lib \<Rightarrow> borsh_lib \<Rightarrow> 'x DevSigner \<Rightarrow> ValidatorSet \<Rightarrow> u128 \<Rightarrow>
    ('d BlobCustodyHandle option HostContext \<Rightarrow> StateMachine \<times> 'd BlobCustodyHandle option \<Rightarrow>
      (Error, Actions) outcome \<times> (StateMachine \<times> 'd BlobCustodyHandle option)) \<Rightarrow>
    'd Node \<Rightarrow> (Error, Actions) outcome \<times> 'd Node" where
  "with_machine L R B signer vset now f nd =
     (case f (build_host_context L R B signer vset (nd_dag nd) (nd_beacon nd) now) (nd_sm nd, load_custody nd) of
        (Ok actions, (sm, c)) \<Rightarrow> (Ok actions, dispatch_actions L R B actions (store_custody c (nd\<lparr>nd_sm := sm\<rparr>)))
      | (Err e, (sm, c)) \<Rightarrow> (Err e, store_custody c (nd\<lparr>nd_sm := sm\<rparr>))
      | (Panic m, (sm, c)) \<Rightarrow> (Panic m, store_custody c (nd\<lparr>nd_sm := sm\<rparr>)))"

definition orch_genesis :: "nat \<Rightarrow> 'x crypto_lib \<Rightarrow> 'd rocks_lib \<Rightarrow> borsh_lib \<Rightarrow> 'x DevSigner \<Rightarrow> ValidatorSet \<Rightarrow> u128 \<Rightarrow>
    'd Node \<Rightarrow> (Error, Actions) outcome \<times> 'd Node" where
  "orch_genesis depth L R B signer vset now nd =
     with_machine L R B signer vset now (\<lambda>ctx. sm_genesis_propose depth L ctx) nd"

text \<open>The certificate check and the ingestion that come before a certified vertex reaches the machine.\<close>

fun admit_event :: "'x crypto_lib \<Rightarrow> 'd rocks_lib \<Rightarrow> borsh_lib \<Rightarrow> ValidatorSet \<Rightarrow> Event \<Rightarrow> 'd Node \<Rightarrow> bool \<times> 'd Node" where
  "admit_event L R B vset (CertifiedVertexReceived cv) nd =
     (if \<not> is_ok (verify_certified_vertex L cv vset) then (False, nd)
      else case live_dag_ingest R B cv (nd_dag nd, nd_db nd) of
        (r, (dag, d)) \<Rightarrow> (is_ok r, nd\<lparr>nd_dag := dag, nd_db := d\<rparr>))"
| "admit_event L R B vset _ nd = (True, nd)"

definition orch_event :: "nat \<Rightarrow> 'x crypto_lib \<Rightarrow> 'd rocks_lib \<Rightarrow> borsh_lib \<Rightarrow> 'x DevSigner \<Rightarrow> ValidatorSet \<Rightarrow> u128 \<Rightarrow>
    Event \<Rightarrow> 'd Node \<Rightarrow> (Error, Actions) outcome \<times> 'd Node" where
  "orch_event depth L R B signer vset now event nd = (case admit_event L R B vset event nd of
      (False, nd) \<Rightarrow> (Ok [], nd)
    | (True, nd) \<Rightarrow> with_machine L R B signer vset now (\<lambda>ctx. step depth L event ctx) nd)"

definition orch_step :: "nat \<Rightarrow> 'x crypto_lib \<Rightarrow> 'd rocks_lib \<Rightarrow> borsh_lib \<Rightarrow> 'x DevSigner \<Rightarrow> ValidatorSet \<Rightarrow> u128 \<Rightarrow>
    'd Node \<Rightarrow> (Error, Actions) outcome \<times> 'd Node" where
  "orch_step depth L R B signer vset now nd = (case chan_queue (nd_events nd) of
      [] \<Rightarrow> (Ok [], nd)
    | event # rest \<Rightarrow> orch_event depth L R B signer vset now event
        (nd\<lparr>nd_events := (nd_events nd)\<lparr>chan_queue := rest\<rparr>\<rparr>))"

definition fan_in :: "Event \<Rightarrow> 'd Node \<Rightarrow> 'd Node" where
  "fan_in event nd = nd\<lparr>nd_events := snd (try_send event (nd_events nd))\<rparr>"

section \<open>Queries\<close>

definition node_persistence :: "'d Node \<Rightarrow> 'd RocksPersistence" where
  "node_persistence nd = \<lparr> rp_db = nd_db nd, rp_seq = nd_slash_seq nd \<rparr>"

definition query_causal_set :: "Round \<Rightarrow> Round \<Rightarrow> 'd Node \<Rightarrow> Hash32 list" where
  "query_causal_set from to nd = certified_hashes_in_range (nd_dag nd) from to"

fun latest_loop :: "'d rocks_lib \<Rightarrow> borsh_lib \<Rightarrow> 'd RocksPersistence \<Rightarrow> nat list \<Rightarrow> (Height \<times> MacroQc) option \<Rightarrow>
    (Error, (Height \<times> MacroQc) option) outcome" where
  "latest_loop R B p [] best = Ok best"
| "latest_loop R B p (h # hs) best = bind_out (macro_checkpoint_at R B (of_nat h) p) (\<lambda>found. case found of
      None \<Rightarrow> latest_loop R B p hs best
    | Some cp \<Rightarrow> bind_out (macro_qc_for R B (mc_hash cp) p) (\<lambda>found. case found of
        None \<Rightarrow> latest_loop R B p hs best
      | Some qc \<Rightarrow> latest_loop R B p hs
          (if (case best of None \<Rightarrow> True | Some (bh, _) \<Rightarrow> bh < of_nat h) then Some (of_nat h, qc) else best)))"

definition latest_finalized :: "'d rocks_lib \<Rightarrow> borsh_lib \<Rightarrow> 'd Node \<Rightarrow> (Error, MacroQc option) outcome" where
  "latest_finalized R B nd =
     bind_out (latest_loop R B (node_persistence nd) [0..<128] None) (\<lambda>best. Ok (map_option snd best))"

definition query_micro_head :: "(Error, Round) outcome" where
  "query_micro_head = Ok 0"

definition query_blob_status :: "'d rocks_lib \<Rightarrow> BlobId \<Rightarrow> 'd Node \<Rightarrow> (Error, BlobStatus) outcome" where
  "query_blob_status R blob nd = blob_status R blob (node_persistence nd)"

definition macro_checkpoint_hash :: "'d rocks_lib \<Rightarrow> borsh_lib \<Rightarrow> Height \<Rightarrow> 'd Node \<Rightarrow> (Error, Hash32 option) outcome" where
  "macro_checkpoint_hash R B h nd =
     bind_out (macro_checkpoint_at R B h (node_persistence nd)) (\<lambda>cp. Ok (map_option mc_hash cp))"

end
