(* ===== verification/Machine_Facts.thy ===== *)
theory Machine_Facts
  imports State_Machine Macro_Runs Vertex_Runs
begin

text \<open>
  Facts about the state machine that its hosts share, the node and the simulator: what a step does to the
  chain of adopted checkpoints and to the state behind the blob port.
\<close>

section \<open>Postconditions\<close>

text \<open>\<open>Q\<close> holds of the value and the state of a success, \<open>E\<close> of the state an error leaves.\<close>

definition st_post :: "('a \<Rightarrow> 's \<Rightarrow> bool) \<Rightarrow> ('s \<Rightarrow> bool) \<Rightarrow> (Error, 'a) outcome \<times> 's \<Rightarrow> bool" where
  "st_post Q E r \<longleftrightarrow> (case r of (Ok a, s) \<Rightarrow> Q a s | (Err e, s) \<Rightarrow> E s | (Panic m, s) \<Rightarrow> True)"

lemma st_post_simps [simp]:
  "st_post Q E (Ok a, s) = Q a s"
  "st_post Q E (Err e, s) = E s"
  "st_post Q E (Panic m, s)"
  by (simp_all add: st_post_def)

lemma st_post_call: "E s \<Longrightarrow> (\<And>x. r = Ok x \<Longrightarrow> st_post Q E (f x)) \<Longrightarrow> st_post Q E (call r s f)"
  by (cases r) auto

lemma st_post_bind:
  assumes "st_post P E m" and "\<And>x s. P x s \<Longrightarrow> st_post Q E (f x s)"
  shows "st_post Q E (bind_st m f)"
proof -
  obtain r s where m: "m = (r, s)" by (cases m)
  show ?thesis using assms unfolding m by (cases r) auto
qed

lemma st_post_mono:
  "st_post Q E r \<Longrightarrow> (\<And>a s. Q a s \<Longrightarrow> Q' a s) \<Longrightarrow> (\<And>s. E s \<Longrightarrow> E' s) \<Longrightarrow> st_post Q' E' r"
  by (auto simp: st_post_def split: prod.splits outcome.splits)

section \<open>Layers of the machine\<close>

text \<open>The layers below macro finality adopt nothing, and reach the host only through the blob port.\<close>

definition host_stable :: "('s \<Rightarrow> bool) \<Rightarrow> 's HostContext \<Rightarrow> bool" where
  "host_stable H ctx \<longleftrightarrow> (\<forall>hs. H hs \<longrightarrow> H (snd (blobs_drain ctx hs)) \<and> (\<forall>bs. H (blobs_confirm_attached ctx bs hs)))"

lemma quiet_proposal [simp]: "quiet (proposal_actions cfg p book)"
  by (simp add: proposal_actions_def split: option.splits)

lemma vc_run_host:
  assumes "host_stable H ctx"
  shows "quiet a \<Longrightarrow> H (snd st) \<Longrightarrow>
    st_post (\<lambda>a st. quiet a \<and> H (snd st)) (\<lambda>st. H (snd st)) (vc_run d L cfg ctx c a st)"
proof (induction d arbitrary: c a st)
  case (Suc d)
  show ?case
  proof (cases c)
    case (CallPropose rnd parents)
    show ?thesis
      using Suc.prems assms unfolding CallPropose vc_run_Suc propose_round_body_def start_proposal_def
      by (auto simp: Let_def host_stable_def split: prod.splits intro!: Suc.IH) (metis snd_conv)+
  next
    case (CallFinalize h)
    show ?thesis
      using Suc.prems unfolding CallFinalize vc_run_Suc try_finalize_body_def
      by (auto split: option.splits intro!: st_post_call Suc.IH)
  next
    case CallAdvance
    show ?thesis
      using Suc.prems unfolding CallAdvance vc_run_Suc maybe_advance_body_def
      by (auto intro!: st_post_call st_post_bind [OF Suc.IH])
  next
    case (CallLoop need)
    show ?thesis
      using Suc.prems unfolding CallLoop vc_run_Suc advance_loop_body_def
      by (auto split: option.splits intro!: st_post_bind [OF Suc.IH] Suc.IH)
  qed
qed simp

lemma on_vertex_proposal_quiet:
  "st_post (\<lambda>a _. quiet a) (\<lambda>_. True) (on_vertex_proposal L p ctx book)"
  by (auto simp: on_vertex_proposal_def check_parents_and_vote_def cast_vote_def Let_def split: option.splits
      intro!: st_post_call)

lemma vc_on_timer_fired_quiet:
  "quiet a \<Longrightarrow> st_post (\<lambda>a _. quiet a) (\<lambda>_. True) (vc_on_timer_fired cfg ctx tid a book)"
  by (auto simp: vc_on_timer_fired_def Let_def split: option.splits prod.splits intro!: st_post_call)

lemma on_vertex_partial_host:
  assumes "host_stable H ctx" "H (snd st)"
  shows "st_post (\<lambda>a st. quiet a \<and> H (snd st)) (\<lambda>st. H (snd st)) (on_vertex_partial depth L cfg bp ctx st)"
  using assms(2) unfolding on_vertex_partial_def try_finalize_def Let_def
  by (auto split: option.splits intro!: st_post_call vc_run_host [OF assms(1)])

lemma try_emit_for_wave_quiet:
  "st_post (\<lambda>a _. quiet a) (\<lambda>_. True) (try_emit_for_wave L wave cfg ctx timed_out st)"
  unfolding try_emit_for_wave_def emit_checkpoint_def schedule_slow_timer_def mark_committed_def Let_def
  by (auto split: option.splits prod.splits intro!: st_post_call)

lemma emit_for_waves_quiet:
  "quiet a \<Longrightarrow> st_post (\<lambda>a _. quiet a) (\<lambda>_. True) (emit_for_waves L cfg ctx ws a st)"
  by (induction L cfg ctx ws a st rule: emit_for_waves.induct) (auto intro!: st_post_bind [OF try_emit_for_wave_quiet])

lemma bull_timer_quiet: "st_post (\<lambda>a _. quiet a) (\<lambda>_. True) (bull_on_timer_fired L cfg tid ctx st)"
  by (auto simp: bull_on_timer_fired_def Let_def split: option.splits intro!: try_emit_for_wave_quiet)

text \<open>Handlers of one layer, inside the machine.\<close>

lemma on_vertices_post:
  "st_post (\<lambda>a s. Q a ((fst st)\<lparr>sm_vertices := fst s\<rparr>, snd s)) (\<lambda>s. E ((fst st)\<lparr>sm_vertices := fst s\<rparr>, snd s))
     (f (sm_vertices (fst st), snd st)) \<Longrightarrow> st_post Q E (on_vertices f st)"
  by (auto simp: on_vertices_def st_post_def split: prod.splits outcome.splits)

lemma on_waves_post:
  "st_post (\<lambda>a s. Q a ((fst st)\<lparr>sm_emitted := fst s, sm_waves := snd s\<rparr>, snd st))
     (\<lambda>s. E ((fst st)\<lparr>sm_emitted := fst s, sm_waves := snd s\<rparr>, snd st))
     (f (sm_emitted (fst st), sm_waves (fst st))) \<Longrightarrow> st_post Q E (on_waves f st)"
  by (auto simp: on_waves_def st_post_def split: prod.splits outcome.splits)

lemma on_macros_post:
  "macro_post (\<lambda>a b. Q a ((fst st)\<lparr>sm_macros := b\<rparr>, snd st)) (\<lambda>b. E ((fst st)\<lparr>sm_macros := b\<rparr>, snd st))
     (f (sm_macros (fst st))) \<Longrightarrow> st_post Q E (on_macros f st)"
  by (auto simp: on_macros_def st_post_def macro_post_def split: prod.splits outcome.splits)

lemma vertex_only_post:
  "st_post (\<lambda>a b. Q a (b, snd st)) (\<lambda>b. E (b, snd st)) (f (fst st)) \<Longrightarrow> st_post Q E (vertex_only f st)"
  by (auto simp: vertex_only_def st_post_def split: prod.splits outcome.splits)

lemma macro_timer_post:
  assumes "macro_inv tr book" "quiet actions"
  shows "macro_post (\<lambda>a b. quiet a \<and> macro_inv tr b) (macro_inv tr) (macro_on_timer_fired L cfg ctx tid actions book)"
  using assms
  by (auto simp: macro_on_timer_fired_def split: option.splits intro!: on_backup_timer_inv on_mode_b_timer_inv)

text \<open>A step keeps the chain of adopted checkpoints in step with the actions it returns.\<close>

definition sm_ok :: "('s \<Rightarrow> bool) \<Rightarrow> Actions \<Rightarrow> StateMachine \<times> 's \<Rightarrow> bool" where
  "sm_ok H tr st \<longleftrightarrow> macro_inv tr (sm_macros (fst st)) \<and> H (snd st)"

lemma macro_layer_post:
  assumes "sm_ok H tr st" "quiet_input inp" "\<And>book. f book = macro_step L cfg ctx inp book"
  shows "st_post (\<lambda>a. sm_ok H (tr @ a)) (sm_ok H tr) (on_macros f st)"
  using macro_step_inv [of tr "sm_macros (fst st)" inp L cfg ctx] assms
  by (intro on_macros_post) (simp add: sm_ok_def macro_post_def split: prod.splits outcome.splits)

lemma vertex_layer_post:
  assumes "sm_ok H tr st" "st_post (\<lambda>a s. quiet a \<and> H (snd s)) (\<lambda>s. H (snd s)) (f (sm_vertices (fst st), snd st))"
  shows "st_post (\<lambda>a st. quiet a \<and> sm_ok H tr st) (sm_ok H tr) (on_vertices f st)"
  by (rule on_vertices_post, rule st_post_mono [OF assms(2)]) (use assms(1) in \<open>simp_all add: sm_ok_def\<close>)

lemma wave_layer_post:
  assumes "sm_ok H tr st" "st_post (\<lambda>a _. quiet a) (\<lambda>_. True) (f (sm_emitted (fst st), sm_waves (fst st)))"
  shows "st_post (\<lambda>a st. quiet a \<and> sm_ok H tr st) (sm_ok H tr) (on_waves f st)"
  by (rule on_waves_post, rule st_post_mono [OF assms(2)]) (use assms(1) in \<open>simp_all add: sm_ok_def\<close>)

lemma quiet_post:
  assumes "st_post (\<lambda>a st. quiet a \<and> sm_ok H tr st) (sm_ok H tr) r"
  shows "st_post (\<lambda>a. sm_ok H (tr @ a)) (sm_ok H tr) r"
  by (rule st_post_mono [OF assms]) (auto simp: sm_ok_def)

lemma genesis_post:
  assumes "host_stable H ctx" "sm_ok H tr st"
  shows "st_post (\<lambda>a. sm_ok H (tr @ a)) (sm_ok H tr) (sm_genesis_propose depth L ctx st)"
  unfolding sm_genesis_propose_def
  by (rule quiet_post, rule vertex_layer_post [OF assms(2)])
    (use assms(2) in \<open>auto simp: genesis_propose_def propose_round_def sm_ok_def intro!: vc_run_host [OF assms(1)]\<close>)

lemma certified_vertex_post:
  assumes stable: "host_stable H ctx" and ok: "sm_ok H tr st"
  shows "st_post (\<lambda>a. sm_ok H (tr @ a)) (sm_ok H tr) (step depth L (CertifiedVertexReceived cv) ctx st)"
proof -
  have vertices: "st_post (\<lambda>a st. quiet a \<and> sm_ok H tr st) (sm_ok H tr)
      (on_vertices (on_certified_vertex depth L (sm_cfg (fst st)) cv ctx []) st)"
    by (rule vertex_layer_post [OF ok])
      (use ok in \<open>auto simp: on_certified_vertex_def maybe_advance_def sm_ok_def intro!: vc_run_host [OF stable]\<close>)
  have waves: "st_post (\<lambda>a st. quiet a \<and> sm_ok H tr st) (sm_ok H tr)
      (on_waves (bull_on_certified_vertex L (sm_cfg (fst st)) cv ctx) st1)" if "sm_ok H tr st1" for st1
    by (rule wave_layer_post [OF that]) (auto simp: bull_on_certified_vertex_def intro!: emit_for_waves_quiet)
  have macros: "st_post (\<lambda>a. sm_ok H (tr @ a)) (sm_ok H tr)
      (on_macros (on_local_micro_qcs L (sm_cfg (fst st)) ctx acts) st2)" if "sm_ok H tr st2" "quiet acts" for st2 acts
    by (rule macro_layer_post [where inp = "MicroCertificates acts", OF that(1)]) (simp_all add: that(2))
  show ?thesis
    unfolding step.simps Let_def
    by (rule st_post_bind [OF vertices], rule st_post_bind [OF waves]) (auto intro: macros)
qed

lemma timer_fired_post:
  assumes ok: "sm_ok H tr st"
  shows "st_post (\<lambda>a. sm_ok H (tr @ a)) (sm_ok H tr) (step depth L (TimerFired tid) ctx st)"
proof -
  have waves: "st_post (\<lambda>a st. quiet a \<and> sm_ok H tr st) (sm_ok H tr)
      (on_waves (bull_on_timer_fired L (sm_cfg (fst st)) tid ctx) st)"
    by (rule wave_layer_post [OF ok bull_timer_quiet])
  have macros: "st_post (\<lambda>a st. quiet a \<and> sm_ok H tr st) (sm_ok H tr)
      (on_macros (macro_on_timer_fired L (sm_cfg (fst st)) ctx tid acts) st1)" if "sm_ok H tr st1" "quiet acts" for st1 acts
    using macro_timer_post [of tr "sm_macros (fst st1)" acts L "sm_cfg (fst st)" ctx tid] that
    by (intro on_macros_post) (simp add: sm_ok_def macro_post_def split: prod.splits outcome.splits)
  have vertices: "st_post (\<lambda>a st. quiet a \<and> sm_ok H tr st) (sm_ok H tr)
      (on_vertices (vertex_only (vc_on_timer_fired (sm_cfg (fst st)) ctx tid acts)) st2)" if "sm_ok H tr st2" "quiet acts" for st2 acts
    by (rule vertex_layer_post [OF that(1)], rule vertex_only_post, rule st_post_mono [OF vc_on_timer_fired_quiet [OF that(2)]])
      (use that in \<open>simp_all add: sm_ok_def\<close>)
  show ?thesis
    unfolding step.simps Let_def
    by (rule quiet_post, rule st_post_bind [OF waves], rule st_post_bind [OF macros]) (auto intro: vertices)
qed

lemma step_post:
  assumes stable: "host_stable H ctx" and ok: "sm_ok H tr st"
  shows "st_post (\<lambda>a. sm_ok H (tr @ a)) (sm_ok H tr) (step depth L ev ctx st)"
proof -
  have H: "H (snd st)"
    using ok by (simp add: sm_ok_def)
  have proposal: "st_post (\<lambda>a. sm_ok H (tr @ a)) (sm_ok H tr) (step depth L (VertexProposalReceived p) ctx st)" for p
    unfolding step.simps
    by (rule quiet_post, rule vertex_layer_post [OF ok], rule vertex_only_post, rule st_post_mono [OF on_vertex_proposal_quiet])
      (simp_all add: H)
  have partial: "st_post (\<lambda>a. sm_ok H (tr @ a)) (sm_ok H tr) (step depth L (VertexPartialReceived bp) ctx st)" for bp
    unfolding step.simps
    by (rule quiet_post, rule vertex_layer_post [OF ok], rule on_vertex_partial_host [OF stable]) (simp add: H)
  have macro: "st_post (\<lambda>a. sm_ok H (tr @ a)) (sm_ok H tr) (on_macros (macro_step L (sm_cfg (fst st)) ctx inp) st)"
    if "quiet_input inp" for inp
    by (rule macro_layer_post [OF ok that]) simp
  show ?thesis
    using certified_vertex_post [OF stable ok] timer_fired_post [OF ok] proposal partial ok
      macro [of "ProposalIn p" for p] macro [of "PartialIn bp" for bp] macro [of "AggregateIn a" for a] macro [of "CertificateIn qc" for qc]
    by (cases ev) (simp_all add: bull_on_micro_qc_assembled_def
        del: step.simps(1,3,10,11) macro_step.simps add: macro_step.simps [abs_def])
qed

end
