(* ===== verification/Node_Facts.thy ===== *)
theory Node_Facts
  imports Node Machine_Facts Node_Blob_Facts
begin

text \<open>
  Facts about the node: how dispatched actions reach the database, and what blob custody does to it.
\<close>

section \<open>The database of the node\<close>

text \<open>
  The adopted checkpoints can be read back by height, and a blob reported final has at least that status.
  Heights are 64-bit numbers, so the first is claimed when the number \<open>n\<close> of checkpoints fits.
\<close>

definition durable :: "nat \<Rightarrow> Actions \<Rightarrow> abs_db \<Rightarrow> bool" where
  "durable n tr A \<longleftrightarrow>
     (n < 2 ^ 64 \<longrightarrow> (\<forall>i < length (adopted tr). ab_macro_cps A (of_nat i) = Some (adopted tr ! i))) \<and>
     (\<forall>b \<in> set (final_blobs tr). \<exists>s. ab_statuses A b = Some s \<and> Finalized \<le> s)"

definition db_inv :: "borsh_lib \<Rightarrow> ('d \<Rightarrow> contents) \<Rightarrow> nat \<Rightarrow> Actions \<Rightarrow> 'd \<Rightarrow> bool" where
  "db_inv B view n tr d \<longleftrightarrow> (\<exists>A. represents B (view d) A \<and> durable n tr A)"

text \<open>No operation but the storing of a checkpoint changes the stored checkpoints, and statuses only rise.\<close>

lemma abs_chunks_frame [simp]:
  "ab_macro_cps (fold abs_chunk cs A) = ab_macro_cps A" "ab_statuses (fold abs_chunk cs A) = ab_statuses A"
  by (induction cs arbitrary: A) (simp_all add: abs_chunk_def)

lemma durable_op:
  assumes "durable n tr A" "abs_op op A = Some A'" "\<And>cp. op \<noteq> PutMacroCheckpoint cp"
  shows "durable n tr A'"
proof -
  have cps: "ab_macro_cps A' = ab_macro_cps A"
    using assms(2,3) by (cases op) (auto simp: Let_def abs_chunk_def split: option.splits)
  have "\<exists>t. ab_statuses A' b = Some t \<and> s \<le> t" if "ab_statuses A b = Some s" for b s
    using assms(2) that by (cases op) (auto simp: Let_def abs_chunk_def split: option.splits)
  then have "\<exists>t. ab_statuses A' b = Some t \<and> Finalized \<le> t" if "ab_statuses A b = Some s" "Finalized \<le> s" for b s
    using that by (meson order_trans)
  then show ?thesis
    using assms(1) unfolding durable_def cps by blast
qed

lemma db_op:
  assumes "rocks_ok R view" "borsh_ok B" "db_inv B view n tr d" "\<And>cp. op \<noteq> PutMacroCheckpoint cp"
  shows "db_inv B view n tr (snd (run_op R B op d))"
proof -
  obtain A where A: "represents B (view d) A" "durable n tr A"
    using assms(3) by (auto simp: db_inv_def)
  from run_op_simulates [OF assms(1,2) A(1), of op] show ?thesis
    by (cases rule: refines_cases) (use A durable_op [OF A(2) _ assms(4)] in \<open>auto simp: db_inv_def\<close>)
qed

text \<open>The store operation of an action, with the sequence number the next evidence gets.\<close>

fun action_op :: "u64 \<Rightarrow> Action \<Rightarrow> store_op option" where
  "action_op n (PersistMacroCheckpoint cp) = Some (PutMacroCheckpoint cp)"
| "action_op n (PersistMacroQc qc) = Some (PutMacroQc qc)"
| "action_op n (EmitSlashEvidence v ev) = Some (AppendEvidence n ev)"
| "action_op n (UpdateBlobStatus b s) = Some (RaiseStatus b s)"
| "action_op n _ = None"

lemma on_persistence_db:
  "on_persistence (on_db f) nd = (map_err persistence_err (fst (f (nd_db nd))), nd\<lparr>nd_db := snd (f (nd_db nd))\<rparr>)"
  by (simp add: on_persistence_def on_db_def case_prod_beta)

lemma on_persistence_evidence:
  "on_persistence (append_slash_evidence R B ev) nd =
    (map_err persistence_err (fst (slash_append R B (nd_slash_seq nd) ev (nd_db nd))),
     nd\<lparr>nd_db := snd (slash_append R B (nd_slash_seq nd) ev (nd_db nd)), nd_slash_seq := nd_slash_seq nd + 1\<rparr>)"
  by (simp add: on_persistence_def append_slash_evidence_def on_db_def case_prod_beta)

lemma adopt_step:
  "snd (bind_st (r, s) (\<lambda>_ s. (Ok (), g s))) = (if is_ok r then g s else s)"
  by (cases r) simp_all

lemmas apply_action_simps = on_persistence_db on_persistence_evidence store_macro_checkpoint_def [abs_def]
  store_macro_qc_def [abs_def] update_blob_status_def [abs_def] run_storage_def adopt_step map_err_cases

lemma apply_action_db:
  "nd_db (snd (apply_action L R B a nd)) =
    (case action_op (nd_slash_seq nd) a of None \<Rightarrow> nd_db nd | Some op \<Rightarrow> snd (run_op R B op (nd_db nd)))"
  by (cases a) (simp_all add: apply_action_simps)

lemma apply_action_rest:
  "nd_sm (snd (apply_action L R B a nd)) = nd_sm nd" "nd_dag (snd (apply_action L R B a nd)) = nd_dag nd"
  by (cases a; simp add: apply_action_simps)+

text \<open>A database that takes the writes of macro finality.\<close>

definition accepts_macros :: "'d rocks_lib \<Rightarrow> borsh_lib \<Rightarrow> bool" where
  "accepts_macros R B \<longleftrightarrow> writable R \<and> (\<forall>cp. is_ok (enc_of (bl_macro_cp B) cp)) \<and> (\<forall>qc. is_ok (enc_of (bl_macro_qc B) qc))"

definition beacon_of :: "'x crypto_lib \<Rightarrow> Actions \<Rightarrow> Hash32" where
  "beacon_of L tr = fold (adopt_macro_qc L) (certificates tr) beacon_new"

lemma apply_action_beacon:
  assumes "rocks_ok R view" "accepts_macros R B" "nd_beacon nd = beacon_of L tr"
  shows "nd_beacon (snd (apply_action L R B a nd)) = beacon_of L (tr @ [a])"
proof -
  have "is_ok (fst (macro_put_qc R B qc d))" for qc d
    using assms(2) put_encoded_ok [OF assms(1), where C = "bl_macro_qc B"] by (simp add: accepts_macros_def macro_put_qc_def)
  then show ?thesis
    using assms(3) by (cases a) (simp_all add: apply_action_simps beacon_of_def)
qed

lemma durable_checkpoint:
  assumes "durable n tr A" "abs_op (PutMacroCheckpoint cp) A = Some A'" "Suc (length (adopted tr)) \<le> n"
    and height: "n < 2 ^ 64 \<Longrightarrow> mc_height cp = of_nat (length (adopted tr))"
  shows "durable n (tr @ [PersistMacroCheckpoint cp]) A'"
  unfolding durable_def
proof (intro conjI impI allI)
  fix i
  assume bound: "n < 2 ^ 64" and i: "i < length (adopted (tr @ [PersistMacroCheckpoint cp]))"
  then have "i < 2 ^ 64" "length (adopted tr) < 2 ^ 64"
    using assms(3) by simp_all
  then have "(of_nat i :: Height) = of_nat (length (adopted tr)) \<longleftrightarrow> i = length (adopted tr)"
    by (auto dest: arg_cong [where f = unat] simp: unat_of_nat_small)
  then show "ab_macro_cps A' (of_nat i) = Some (adopted (tr @ [PersistMacroCheckpoint cp]) ! i)"
    using assms(1,2) height [OF bound] i bound by (auto simp: durable_def nth_append less_Suc_eq)
qed (use assms(1,2) in \<open>auto simp: durable_def\<close>)

lemma durable_status:
  assumes "durable n tr A" "abs_op (RaiseStatus b s) A = Some A'"
  shows "durable n (tr @ [UpdateBlobStatus b s]) A'"
proof -
  have "durable n tr A'"
    by (rule durable_op [OF assms]) simp
  moreover have "\<exists>t. ab_statuses A' b = Some t \<and> s \<le> t"
    using assms(2) by (auto split: option.splits)
  ultimately show ?thesis
    by (cases s) (auto simp: durable_def)
qed

text \<open>An action reaches the database before the next one; a checkpoint at its height in the chain.\<close>

lemma apply_action_inv:
  assumes R: "rocks_ok R view" and B: "borsh_ok B" and W: "accepts_macros R B" and inv: "db_inv B view n tr (nd_db nd)"
    and height: "\<And>cp. adopted_by a = Some cp \<Longrightarrow> n < 2 ^ 64 \<Longrightarrow> mc_height cp = of_nat (length (adopted tr))"
    and n: "length (adopted (tr @ [a])) \<le> n"
  shows "db_inv B view n (tr @ [a]) (nd_db (snd (apply_action L R B a nd)))"
proof -
  obtain A where A: "represents B (view (nd_db nd)) A" "durable n tr A"
    using inv by (auto simp: db_inv_def)
  have acked: "\<exists>A'. abs_op op A = Some A' \<and> represents B (view (snd (run_op R B op (nd_db nd)))) A'"
    if "encodable B A op" "abs_op op A \<noteq> None" for op
    using run_op_simulates [OF R B A(1), of op] run_op_ok [OF R _ A(1) that(1)] W that(2)
    by (auto simp: accepts_macros_def elim: refines_cases)
  have quiet: "db_inv B view n (tr @ [a]) (nd_db (snd (apply_action L R B a nd)))" if "adopted_by a = None" "final_report a = None"
  proof -
    have "db_inv B view n tr (nd_db (snd (apply_action L R B a nd)))"
      using db_op [OF R B inv] that inv unfolding apply_action_db by (cases a) (simp_all del: run_op.simps)
    then show ?thesis
      using that by (simp add: db_inv_def durable_def)
  qed
  show ?thesis
  proof (cases a)
    case (PersistMacroCheckpoint cp)
    obtain A' where "abs_op (PutMacroCheckpoint cp) A = Some A'"
        "represents B (view (snd (run_op R B (PutMacroCheckpoint cp) (nd_db nd)))) A'"
      using acked [of "PutMacroCheckpoint cp"] W by (auto simp: accepts_macros_def)
    moreover from this(1) have "durable n (tr @ [a]) A'"
      unfolding PersistMacroCheckpoint by (rule durable_checkpoint [OF A(2)]) (use n height PersistMacroCheckpoint in simp_all)
    ultimately show ?thesis
      unfolding db_inv_def apply_action_db by (auto simp: PersistMacroCheckpoint simp del: run_op.simps)
  next
    case (UpdateBlobStatus b s)
    obtain A' where "abs_op (RaiseStatus b s) A = Some A'"
        "represents B (view (snd (run_op R B (RaiseStatus b s) (nd_db nd)))) A'"
      using acked [of "RaiseStatus b s"] by auto
    moreover from durable_status [OF A(2) this(1)] have "durable n (tr @ [a]) A'"
      unfolding UpdateBlobStatus .
    ultimately show ?thesis
      unfolding db_inv_def apply_action_db by (auto simp: UpdateBlobStatus simp del: run_op.simps)
  qed (use quiet in simp_all)
qed

lemma dispatch_action_fields:
  "nd_db (dispatch_action L R B a nd) = nd_db (snd (apply_action L R B a nd))"
  "nd_beacon (dispatch_action L R B a nd) = nd_beacon (snd (apply_action L R B a nd))"
  "nd_sm (dispatch_action L R B a nd) = nd_sm nd" "nd_dag (dispatch_action L R B a nd) = nd_dag nd"
proof -
  define nd' where "nd' = (if is_broadcast a then (loop_back a nd)\<lparr>nd_net := snd (try_send a (nd_net (loop_back a nd)))\<rparr>
    else loop_back a nd)"
  have same: "nd_db nd' = nd_db nd" "nd_slash_seq nd' = nd_slash_seq nd" "nd_beacon nd' = nd_beacon nd"
      "nd_sm nd' = nd_sm nd" "nd_dag nd' = nd_dag nd"
    by (cases a; simp add: nd'_def)+
  have eq: "dispatch_action L R B a nd = snd (apply_action L R B a nd')"
    by (simp add: dispatch_action_def nd'_def Let_def)
  show "nd_db (dispatch_action L R B a nd) = nd_db (snd (apply_action L R B a nd))"
    unfolding eq apply_action_db same ..
  show "nd_beacon (dispatch_action L R B a nd) = nd_beacon (snd (apply_action L R B a nd))"
    unfolding eq by (cases a; simp add: apply_action_simps same)
  show "nd_sm (dispatch_action L R B a nd) = nd_sm nd" "nd_dag (dispatch_action L R B a nd) = nd_dag nd"
    unfolding eq by (simp_all add: apply_action_rest same)
qed

lemma dispatch_actions_inv:
  assumes R: "rocks_ok R view" and B: "borsh_ok B" and W: "accepts_macros R B"
    and heights: "length (adopted (tr @ acts)) = n" "n < 2 ^ 64 \<longrightarrow> (\<forall>i < n. mc_height (adopted (tr @ acts) ! i) = of_nat i)"
    and inv: "db_inv B view n tr (nd_db nd)" "nd_beacon nd = beacon_of L tr"
  shows "db_inv B view n (tr @ acts) (nd_db (dispatch_actions L R B acts nd)) \<and>
    nd_beacon (dispatch_actions L R B acts nd) = beacon_of L (tr @ acts) \<and>
    nd_sm (dispatch_actions L R B acts nd) = nd_sm nd \<and> nd_dag (dispatch_actions L R B acts nd) = nd_dag nd"
  using heights inv
proof (induction acts arbitrary: tr nd)
  case (Cons a acts)
  let ?nd = "dispatch_action L R B a nd"
  have "mc_height cp = of_nat (length (adopted tr))" if "adopted_by a = Some cp" "n < 2 ^ 64" for cp
    using Cons.prems(1,2) that by (auto dest: spec [of _ "length (adopted tr)"] simp: nth_append)
  moreover have "length (adopted (tr @ [a])) \<le> n"
    using Cons.prems(1) by (auto split: option.splits)
  ultimately have "db_inv B view n (tr @ [a]) (nd_db ?nd)"
    unfolding dispatch_action_fields by (rule apply_action_inv [OF R B W Cons.prems(3)])
  moreover have "dispatch_actions L R B (a # acts) nd = dispatch_actions L R B acts ?nd"
    by (simp add: dispatch_actions_def)
  ultimately show ?case
    using Cons.IH [of "tr @ [a]" ?nd] Cons.prems(1,2) apply_action_beacon [OF R W Cons.prems(4), of a]
    by (simp add: dispatch_action_fields)
qed (simp add: dispatch_actions_def)

section \<open>Blob custody and the database\<close>

text \<open>Custody shares the database and leaves the stored checkpoints and statuses alone.\<close>

definition keeps_db :: "'d rocks_lib \<Rightarrow> borsh_lib \<Rightarrow> 'd \<Rightarrow> 'd \<Rightarrow> bool" where
  "keeps_db R B d d' \<longleftrightarrow> d' = d \<or> (\<exists>op. (\<forall>cp. op \<noteq> PutMacroCheckpoint cp) \<and> d' = snd (run_op R B op d))"

lemma keeps_db_inv:
  "rocks_ok R view \<Longrightarrow> borsh_ok B \<Longrightarrow> keeps_db R B d d' \<Longrightarrow> db_inv B view n tr d \<Longrightarrow> db_inv B view n tr d'"
  using db_op [of R view B n tr d] by (auto simp: keeps_db_def)

lemma drain_db [simp]: "bh_db (snd (drain_pending R B h)) = bh_db h"
  by (simp add: drain_pending_def split: prod.splits)

lemma mark_attached_db: "keeps_db R B (bh_db h) (bh_db (snd (mark_attached R B b h)))"
  unfolding keeps_db_def
  by (rule disjI2, rule exI [of _ "AttachBlob b"]) (simp add: mark_attached_def with_db_def case_prod_beta)

lemma note_in_ledger_db [simp]: "bh_db (snd (note_in_ledger R B cfg c h)) = bh_db h"
  by (simp add: note_in_ledger_def Let_def split: prod.splits)

lemma note_all_db [simp]: "bh_db (snd (note_all R B cfg cs h)) = bh_db h"
proof (induction cs arbitrary: h)
  case (Cons c cs)
  show ?case
    using note_in_ledger_db [of R B cfg c h] Cons
    by (cases "note_in_ledger R B cfg c h"; cases "fst (note_in_ledger R B cfg c h)") auto
qed simp

lemma gossip_all_db [simp]: "bh_db (snd (gossip_all W cs h)) = bh_db h"
proof (induction cs arbitrary: h)
  case (Cons c cs)
  then show ?case
    by (cases "map_err AnyNet (encode_blob_chunk W c)") simp_all
qed simp

lemma ingest_chunk_db: "keeps_db R B (bh_db h) (bh_db (snd (ingest_chunk R B cfg c h)))"
proof -
  let ?op = "run_op R B (PutChunk c) (bh_db h)"
  have "bh_db (snd (ingest_chunk R B cfg c h)) = snd ?op"
    using note_in_ledger_db [of R B cfg c "h\<lparr>bh_db := snd ?op\<rparr>"]
    by (cases "fst ?op"; cases "note_in_ledger R B cfg c (h\<lparr>bh_db := snd ?op\<rparr>)";
        cases "fst (note_in_ledger R B cfg c (h\<lparr>bh_db := snd ?op\<rparr>))")
      (auto simp: ingest_chunk_def with_db_def case_prod_beta)
  then show ?thesis
    unfolding keeps_db_def by blast
qed

lemma publish_rest_db: "bh_db (snd (publish_rest R B W cfg chunks r h)) = bh_db h"
proof -
  have eq: "bh_db (snd (note_all R B cfg chunks (enqueue_pending r h))) = bh_db h"
    by (simp add: enqueue_pending_def)
  obtain res h1 where n: "note_all R B cfg chunks (enqueue_pending r h) = (res, h1)"
    by fastforce
  obtain res' h2 where g: "gossip_all W chunks h1 = (res', h2)"
    by fastforce
  show ?thesis
    using eq gossip_all_db [of W chunks h1] unfolding publish_rest_def n g
    by (cases res; cases res') (simp_all add: g)
qed

lemma stored_db:
  "bh_db (snd (bind_st (map_prod (map_err g) id (with_db f h)) (\<lambda>_. publish_rest R B W cfg chunks r))) = snd (f (bh_db h))"
  using publish_rest_db [of R B W cfg chunks r "h\<lparr>bh_db := snd (f (bh_db h))\<rparr>"]
  by (cases "fst (f (bh_db h))") (simp_all add: with_db_def case_prod_beta)

lemma bind_db:
  assumes "bh_db (snd m) = d" "\<And>a h. bh_db h = d \<Longrightarrow> keeps_db R B d (bh_db (snd (f a h)))"
  shows "keeps_db R B d (bh_db (snd (bind_st m f)))"
  using assms by (cases m; cases "fst m") (auto simp: keeps_db_def)

lemma call_db:
  assumes "bh_db h = d" "\<And>a. keeps_db R B d (bh_db (snd (f a)))"
  shows "keeps_db R B d (bh_db (snd (call r h f)))"
  using assms by (cases r) (auto simp: keeps_db_def)

lemma with_cache_db [simp]: "bh_db (snd (with_cache f h)) = bh_db h"
  by (simp add: with_cache_def split: prod.splits)

lemma expect_snd [simp]: "snd (expect m r) = snd r"
  by (cases r; cases "fst r") auto

lemma blob_ref_commitment_db [simp]: "bh_db (snd (blob_ref_commitment L cfg payload h)) = bh_db h"
  unfolding blob_ref_commitment_def by (rule bind_st_state_invar) simp_all

lemma publish_payload_db: "keeps_db R B (bh_db h) (bh_db (snd (publish_payload L R B W cfg payload h)))"
proof -
  have rest: "(\<lambda>_ h. bind_st (note_all R B cfg chunks (enqueue_pending r h)) (\<lambda>_ h.
      bind_st (gossip_all W chunks h) (\<lambda>_ h. (Ok (br_blob_id r), h)))) =
      (\<lambda>_ :: unit. publish_rest R B W cfg chunks r)" for chunks and r
    by (intro ext) (simp add: publish_rest_def)
  have store: "keeps_db R B d (bh_db (snd (bind_st (map_prod (map_err any_store) id
      (with_db (publish_blob_atomic R B chunks \<lparr> pr_state = publish_state_byte Ready, pr_blob_ref = r \<rparr>) h1))
      (\<lambda>_. publish_rest R B W cfg chunks r))))" if "bh_db h1 = d" for chunks r h1 d
    unfolding stored_db keeps_db_def that
    by (rule disjI2, rule exI [of _ "PublishBlob chunks r"]) simp
  show ?thesis
    unfolding publish_payload_def Let_def
      rest [where r = "\<lparr> br_blob_id = b, br_commitment = c, br_size_bytes = z \<rparr>" for b c z, simplified]
  proof (split if_split, intro conjI impI, goal_cases)
    case 2
    show ?case
    proof (split if_split, intro conjI impI, goal_cases)
      case 2
      show ?case
        by (rule bind_db, simp, rule call_db, assumption, rule bind_db, simp, rule store, assumption)
    qed (simp add: keeps_db_def)
  qed (simp add: keeps_db_def)
qed

end
