(* ===== verification/Node_Runs.thy ===== *)
theory Node_Runs
  imports Node_Facts
begin

text \<open>
  Runs of the process: inputs of the node as one datatype, runs with every action the orchestrator
  dispatched on the way, and the invariant of a run.
\<close>

section \<open>Steps of the process\<close>

text \<open>
  The genesis proposal, one iteration of the orchestrator's loop, an event from the gossip fan-in, one
  iteration of the timer loop, a timer that is due, a submitted payload and a gossiped chunk. \<open>now\<close> is the
  clock of the step.
\<close>

datatype node_input =
    Genesis
  | NextEvent
  | Gossiped Event
  | TimerRequest
  | TimerDue TimerId
  | Submitted bytes
  | ChunkArrived BlobChunk

definition on_custody :: "('d BlobCustodyHandle \<Rightarrow> 'd BlobCustodyHandle) \<Rightarrow> 'd Node \<Rightarrow> 'd Node" where
  "on_custody f nd = store_custody (map_option f (load_custody nd)) nd"

fun node_step :: "nat \<Rightarrow> 'x crypto_lib \<Rightarrow> 'd rocks_lib \<Rightarrow> borsh_lib \<Rightarrow> wire_lib \<Rightarrow> ErasureConfig \<Rightarrow> 'x DevSigner \<Rightarrow>
    ValidatorSet \<Rightarrow> u128 \<Rightarrow> node_input \<Rightarrow> 'd Node \<Rightarrow> (Error, Actions) outcome \<times> 'd Node" where
  "node_step depth L R B W ec signer vset now Genesis nd = orch_genesis depth L R B signer vset now nd"
| "node_step depth L R B W ec signer vset now NextEvent nd = orch_step depth L R B signer vset now nd"
| "node_step depth L R B W ec signer vset now (Gossiped ev) nd = (Ok [], fan_in ev nd)"
| "node_step depth L R B W ec signer vset now TimerRequest nd = (Ok [], timer_loop_step now nd)"
| "node_step depth L R B W ec signer vset now (TimerDue tid) nd = (Ok [], timer_task_step now tid nd)"
| "node_step depth L R B W ec signer vset now (Submitted payload) nd =
     (Ok [], on_custody (\<lambda>h. snd (publish_payload L R B W ec payload h)) nd)"
| "node_step depth L R B W ec signer vset now (ChunkArrived c) nd =
     (Ok [], on_custody (\<lambda>h. snd (ingest_chunk R B ec c h)) nd)"

text \<open>A panic ends the orchestrator, so a run goes on after a success or an error.\<close>

inductive node_run :: "'x crypto_lib \<Rightarrow> 'd rocks_lib \<Rightarrow> borsh_lib \<Rightarrow> wire_lib \<Rightarrow> ErasureConfig \<Rightarrow> 'x DevSigner \<Rightarrow>
    ValidatorSet \<Rightarrow> 'd Node \<Rightarrow> Actions \<Rightarrow> 'd Node \<Rightarrow> bool"
  for L :: "'x crypto_lib" and R :: "'d rocks_lib" and B W ec and signer :: "'x DevSigner" and vset and nd0 :: "'d Node" where
  start: "node_run L R B W ec signer vset nd0 [] nd0"
| step: "node_run L R B W ec signer vset nd0 tr nd \<Longrightarrow>
    node_step depth L R B W ec signer vset now inp nd = (Ok acts, nd') \<Longrightarrow>
    node_run L R B W ec signer vset nd0 (tr @ acts) nd'"
| fail: "node_run L R B W ec signer vset nd0 tr nd \<Longrightarrow>
    node_step depth L R B W ec signer vset now inp nd = (Err e, nd') \<Longrightarrow>
    node_run L R B W ec signer vset nd0 tr nd'"

section \<open>The live DAG\<close>

definition dag_ok :: "'x crypto_lib \<Rightarrow> ValidatorSet \<Rightarrow> LiveDag \<Rightarrow> bool" where
  "dag_ok L vset dag \<longleftrightarrow>
     (\<forall>h v. ld_by_hash dag h = Some v \<longrightarrow> v_hash (cv_vertex v) = h \<and> is_ok (verify_certified_vertex L v vset)) \<and>
     (\<forall>r. \<forall>v \<in> set (ld_vertices_at_round dag r). v_round (cv_vertex v) = r \<and>
        is_ok (verify_certified_vertex L v vset) \<and> ld_by_hash dag (v_hash (cv_vertex v)) \<noteq> None)"

lemma dag_ok_new: "dag_ok L vset live_dag_new"
  by (simp add: dag_ok_def live_dag_new_def ld_vertices_at_round_def)

lemma dag_ok_index:
  assumes "dag_ok L vset dag" "is_ok (verify_certified_vertex L v vset)"
  shows "dag_ok L vset (index_vertex (v_round (cv_vertex v)) v dag)"
proof -
  have "set (ld_vertices_at_round (index_vertex (v_round (cv_vertex v)) v dag) r) =
      (if r = v_round (cv_vertex v) then insert v (set (ld_vertices_at_round dag r)) else set (ld_vertices_at_round dag r))" for r
    by (auto simp: ld_vertices_at_round_def index_vertex_def split: option.splits)
  then show ?thesis
    using assms by (auto simp: dag_ok_def index_vertex_def split: if_splits)
qed

section \<open>The invariant of a run\<close>

definition node_inv :: "'x crypto_lib \<Rightarrow> borsh_lib \<Rightarrow> ('d \<Rightarrow> contents) \<Rightarrow> ValidatorSet \<Rightarrow> Actions \<Rightarrow> 'd Node \<Rightarrow> bool" where
  "node_inv L B view vset tr nd \<longleftrightarrow> macro_inv tr (sm_macros (nd_sm nd)) \<and>
     db_inv B view (length (adopted tr)) tr (nd_db nd) \<and> nd_beacon nd = beacon_of L tr \<and> dag_ok L vset (nd_dag nd)"

lemma node_inv_start:
  "represents B (view d) A \<Longrightarrow> node_inv L B view vset [] (node_start R B cfg erasure me d)"
  by (auto simp: node_inv_def node_start_def state_machine_new_def macro_inv_new db_inv_def durable_def beacon_of_def dag_ok_new)

text \<open>Steps of the other tasks.\<close>

lemma node_inv_frame [simp]:
  "node_inv L B view vset tr (nd\<lparr>nd_events := x1\<rparr>) = node_inv L B view vset tr nd"
  "node_inv L B view vset tr (nd\<lparr>nd_timer_tx := x2\<rparr>) = node_inv L B view vset tr nd"
  "node_inv L B view vset tr (nd\<lparr>nd_timers := x3\<rparr>) = node_inv L B view vset tr nd"
  by (simp_all add: node_inv_def)

lemma task_steps_inv:
  assumes "node_inv L B view vset tr nd"
  shows "node_inv L B view vset tr (fan_in ev nd)" "node_inv L B view vset tr (timer_loop_step now nd)"
    "node_inv L B view vset tr (timer_task_step now tid nd)"
  using assms by (auto simp: fan_in_def timer_loop_step_def timer_task_step_def split: list.splits option.splits)

lemma on_custody_inv:
  assumes R: "rocks_ok R view" and B: "borsh_ok B" and inv: "node_inv L B view vset tr nd"
    and f: "\<And>h. keeps_db R B (bh_db h) (bh_db (f h))"
  shows "node_inv L B view vset tr (on_custody f nd)"
proof (cases "nd_custody nd")
  case None
  then show ?thesis
    using inv by (simp add: on_custody_def load_custody_def store_custody_def node_inv_def)
next
  case (Some h)
  then show ?thesis
    using inv keeps_db_inv [OF R B f [of "h\<lparr>bh_db := nd_db nd\<rparr>"]]
    by (simp add: on_custody_def load_custody_def store_custody_def node_inv_def)
qed

lemma admit_event_inv:
  assumes R: "rocks_ok R view" and B: "borsh_ok B" and inv: "node_inv L B view vset tr nd"
  shows "node_inv L B view vset tr (snd (admit_event L R B vset ev nd))"
proof (cases ev)
  case (CertifiedVertexReceived cv)
  let ?op = "run_op R B (PutVertex cv) (nd_db nd)"
  have db: "db_inv B view (length (adopted tr)) tr (snd ?op)"
    by (rule db_op [OF R B]) (use inv in \<open>simp_all add: node_inv_def\<close>)
  obtain res d where put: "vertex_put R B cv (nd_db nd) = (res, d)"
    by fastforce
  then have "d = snd ?op"
    by (simp add: run_storage_def)
  with db show ?thesis
    using inv put dag_ok_index [of L vset "nd_dag nd" cv] CertifiedVertexReceived
    by (cases res) (auto simp: live_dag_ingest_def node_inv_def)
qed (use inv in simp_all)

text \<open>A call of the machine with the node's ports, and the dispatch of its actions.\<close>

definition shares_db :: "borsh_lib \<Rightarrow> ('d \<Rightarrow> contents) \<Rightarrow> Actions \<Rightarrow> 'd BlobCustodyHandle option \<Rightarrow> bool" where
  "shares_db B view tr c \<longleftrightarrow> (\<forall>h. c = Some h \<longrightarrow> db_inv B view (length (adopted tr)) tr (bh_db h))"

lemma host_stable_node:
  assumes "rocks_ok R view" "borsh_ok B"
  shows "host_stable (shares_db B view tr) (build_host_context L R B signer vset dag beacon now)"
proof -
  have attach: "db_inv B view n tr (bh_db (fold (\<lambda>blob h. snd (mark_attached R B (br_blob_id blob) h)) bs h))"
    if "db_inv B view n tr (bh_db h)" for bs h n
    using that by (induction bs arbitrary: h) (auto intro: keeps_db_inv [OF assms mark_attached_db])
  show ?thesis
    by (auto simp: host_stable_def shares_db_def build_host_context_def custody_drain_def custody_confirm_def
        split: option.splits prod.splits intro!: attach) (metis drain_db snd_conv)
qed

lemma macro_inv_heights:
  assumes "macro_inv tr book" "length (adopted tr) < 2 ^ 64" "i < length (adopted tr)"
  shows "mc_height (adopted tr ! i) = of_nat i"
  using assms by (simp add: macro_inv_def chain_inv_def hash_chain_def)

lemma with_machine_inv:
  assumes R: "rocks_ok R view" and B: "borsh_ok B" and W: "accepts_macros R B" and inv: "node_inv L B view vset tr nd"
    and f: "\<And>ctx st. host_stable (shares_db B view tr) ctx \<Longrightarrow> sm_ok (shares_db B view tr) tr st \<Longrightarrow>
      st_post (\<lambda>a. sm_ok (shares_db B view tr) (tr @ a)) (sm_ok (shares_db B view tr) tr) (f ctx st)"
  shows "st_post (\<lambda>a. node_inv L B view vset (tr @ a)) (node_inv L B view vset tr) (with_machine L R B signer vset now f nd)"
proof -
  let ?ctx = "build_host_context L R B signer vset (nd_dag nd) (nd_beacon nd) now"
  have start: "sm_ok (shares_db B view tr) tr (nd_sm nd, load_custody nd)"
    using inv by (auto simp: sm_ok_def shares_db_def load_custody_def node_inv_def)
  obtain r sm c where res: "f ?ctx (nd_sm nd, load_custody nd) = (r, (sm, c))"
    by (metis prod.exhaust)
  note post = f [OF host_stable_node [OF R B] start, of L signer vset "nd_dag nd" "nd_beacon nd" now, unfolded res]
  let ?nd = "store_custody c (nd\<lparr>nd_sm := sm\<rparr>)"
  have stored: "db_inv B view (length (adopted tr)) tr (nd_db ?nd)" "nd_beacon ?nd = beacon_of L tr" "nd_sm ?nd = sm"
      "dag_ok L vset (nd_dag ?nd)" if "shares_db B view tr c"
    using that inv by (auto simp: store_custody_def shares_db_def node_inv_def split: option.splits)
  show ?thesis
  proof (cases r)
    case (Ok acts)
    with post have macro: "macro_inv (tr @ acts) (sm_macros sm)" and c: "shares_db B view tr c"
      by (simp_all add: sm_ok_def)
    let ?n = "length (adopted (tr @ acts))"
    have db: "db_inv B view ?n tr (nd_db ?nd)"
      using stored(1) [OF c] by (auto simp: db_inv_def durable_def)
    have "?n < 2 ^ 64 \<longrightarrow> (\<forall>i < ?n. mc_height (adopted (tr @ acts) ! i) = of_nat i)"
      using macro_inv_heights [OF macro] by blast
    from dispatch_actions_inv [OF R B W refl this db stored(2) [OF c]]
    show ?thesis
      using macro stored(3,4) [OF c] by (simp add: with_machine_def res Ok node_inv_def)
  next
    case (Err e)
    with post have "macro_inv tr (sm_macros sm)" "shares_db B view tr c"
      by (simp_all add: sm_ok_def)
    then show ?thesis
      using stored by (simp add: with_machine_def res Err node_inv_def)
  qed (simp add: with_machine_def res)
qed

lemma orch_event_inv:
  assumes R: "rocks_ok R view" and B: "borsh_ok B" and W: "accepts_macros R B" and inv: "node_inv L B view vset tr nd"
  shows "st_post (\<lambda>a. node_inv L B view vset (tr @ a)) (node_inv L B view vset tr)
    (orch_event depth L R B signer vset now ev nd)"
proof -
  obtain go nd' where admit: "admit_event L R B vset ev nd = (go, nd')"
    by fastforce
  then have inv': "node_inv L B view vset tr nd'"
    using admit_event_inv [OF R B inv, of ev] by simp
  show ?thesis
    using with_machine_inv [OF R B W inv' step_post] inv' by (cases go) (simp_all add: orch_event_def admit)
qed

lemma node_step_inv:
  assumes R: "rocks_ok R view" and B: "borsh_ok B" and A: "accepts_macros R B" and inv: "node_inv L B view vset tr nd"
  shows "st_post (\<lambda>a. node_inv L B view vset (tr @ a)) (node_inv L B view vset tr)
    (node_step depth L R B W ec signer vset now inp nd)"
proof (cases inp)
  case Genesis
  show ?thesis
    unfolding Genesis node_step.simps orch_genesis_def by (rule with_machine_inv [OF R B A inv genesis_post])
next
  case NextEvent
  show ?thesis
    using inv by (auto simp: NextEvent orch_step_def split: list.splits intro!: orch_event_inv [OF R B A])
qed (use inv task_steps_inv [OF inv] on_custody_inv [OF R B inv publish_payload_db] on_custody_inv [OF R B inv ingest_chunk_db]
    in simp_all)

lemma node_run_inv:
  assumes "rocks_ok R view" "borsh_ok B" "accepts_macros R B" "node_inv L B view vset [] nd0"
    and "node_run L R B W ec signer vset nd0 tr nd"
  shows "node_inv L B view vset tr nd"
  using assms(5)
proof induction
  case start
  show ?case by (rule assms(4))
next
  case (step tr nd depth now inp acts nd')
  then show ?case
    using node_step_inv [OF assms(1-3) step.IH, of depth W ec signer now inp] by simp
next
  case (fail tr nd depth now inp e nd')
  then show ?case
    using node_step_inv [OF assms(1-3) fail.IH, of depth W ec signer now inp] by simp
qed

end
