(* ===== verification/Node_Samples.thy ===== *)
theory Node_Samples
  imports Node_Runs Macro_Samples Bullshark_Properties Storage_Samples
begin

text \<open>
  A run of a node that adopts a checkpoint, for the witnesses: validator 3 of a committee of three, with a
  constant hash, an in-memory database and codecs that accept what the run stores. Two certified vertices
  commit wave 0, the micro certificate fills the window, and a received certificate adopts the checkpoint.
\<close>

section \<open>Codecs\<close>

definition cert_codec :: "CertifiedVertex list \<Rightarrow> CertifiedVertex codec" where
  "cert_codec known = \<lparr>
     enc_of = (\<lambda>v. if v \<in> set known then Ok (be_bytes 8 (v_round (cv_vertex v))) else Err ''unsupported''),
     dec_of = (\<lambda>b. case find (\<lambda>v. be_bytes 8 (v_round (cv_vertex v)) = b) known of Some v \<Rightarrow> Ok v | None \<Rightarrow> Err ''unsupported'') \<rparr>"

definition macro_qc_codec :: "MacroQc codec" where
  "macro_qc_codec = \<lparr>
     enc_of = (\<lambda>q. Ok (be_bytes 32 (mq_checkpoint_hash q) @ be_bytes 96 (as_sig (mq_agg q)) @
       mode_discriminant (mq_mode q) # as_bitmap (mq_agg q))),
     dec_of = (\<lambda>b. if length b < 129 then Err ''unexpected length'' else Ok \<lparr> mq_checkpoint_hash = word_of_be (take 32 b),
       mq_mode = (if b ! 128 = 0 then Mode0Flat else if b ! 128 = 1 then ModeASubnet else ModeBLeaderless),
       mq_agg = \<lparr> as_sig = word_of_be (take 96 (drop 32 b)), as_bitmap = drop 129 b \<rparr> \<rparr>) \<rparr>"

section \<open>The certified vertices\<close>

definition vertex_a :: CertifiedVertex where
  "vertex_a = \<lparr> cv_vertex = \<lparr> v_round = 0, v_author = 1, v_parents = [], v_blobs = [], v_hash = 0 \<rparr>,
     cv_certificate = \<lparr> as_sig = 9, as_bitmap = [1] \<rparr> \<rparr>"

definition vertex_b :: CertifiedVertex where
  "vertex_b = \<lparr> cv_vertex = \<lparr> v_round = 1, v_author = 2, v_parents = [0], v_blobs = [], v_hash = 0 \<rparr>,
     cv_certificate = \<lparr> as_sig = 13, as_bitmap = [1] \<rparr> \<rparr>"

definition node_borsh :: borsh_lib where
  "node_borsh = sample_borsh\<lparr>bl_vertex := cert_codec [vertex_a, vertex_b], bl_macro_qc := macro_qc_codec\<rparr>"

lemma node_codecs: "codec_ok (cert_codec [vertex_a, vertex_b])" "codec_ok macro_qc_codec"
proof -
  have "be_bytes 8 (0 :: u64) \<noteq> be_bytes 8 (1 :: u64)"
    using inj_eq [OF key_inj(9), of 0 1] by simp
  then show "codec_ok (cert_codec [vertex_a, vertex_b])"
    by (auto simp: codec_ok_def cert_codec_def vertex_a_def vertex_b_def)
  have "mode_discriminant m = (case m of Mode0Flat \<Rightarrow> 0 | ModeASubnet \<Rightarrow> 1 | ModeBLeaderless \<Rightarrow> 2)" for m
    by (cases m) simp_all
  then show "codec_ok macro_qc_codec"
    by (auto simp: codec_ok_def macro_qc_codec_def word_of_be_bytes nth_append split: AggregationMode.splits)
qed

lemma borsh_ok_node: "borsh_ok node_borsh"
  using borsh_ok_sample node_codecs by (simp add: borsh_ok_def node_borsh_def)

lemma accepts_node: "accepts_macros mem_rocks node_borsh"
  by (simp add: accepts_macros_def writable_mem node_borsh_def macro_qc_codec_def sample_borsh_def macro_cp_codec_def)

section \<open>The committee\<close>

lemma set3: "vs_entries (sample_set 3) = [sample_entry 1, sample_entry 2, sample_entry 3]"
proof -
  have "[1..<Suc 3] = [1, 2, 3]"
    by code_simp
  then show ?thesis
    by (simp add: sample_set_def)
qed

lemma anchor3:
  assumes "beacon_current ctx = Ok beacon"
  shows "select_anchor tie_lib wave (sample_set 3) ctx = Ok \<lparr> ac_wave = wave, ac_author = 1, ac_anchor_hash = hash_zero \<rparr>"
proof -
  have "ve_id (sample_entry 1) = 1" "ve_id (sample_entry 2) = 2" "ve_id (sample_entry 3) = 3"
    by (simp_all add: sample_entry_def)
  then show ?thesis
    using assms by (simp add: select_anchor_def set3 tie_score f64_cmp_refl word_less_nat_alt)
qed

lemma schedule3:
  "vrf_sortition tie_lib 0 (sample_set 3) h Map.empty = Ok \<lparr> ps_height = h, ps_primary = 1, ps_backup = 2 \<rparr>"
proof -
  define s where "s = vrf_sortition_score 0 (vs_total_stake (sample_set 3)) 100 reputation_neutral"
  have "scored_entries tie_lib 0 (sample_set 3) h Map.empty = [(1, s), (2, s), (3, s)]"
    by (simp add: scored_entries_def set3 sample_entry_def s_def macro_sortition_beta_def blake3_with_dst_def tie_lib_def)
  then show ?thesis
    by (simp add: vrf_sortition_def sort_scored_def f64_cmp_refl word_less_nat_alt)
qed

lemma verify3: "verify_certified_vertex tie_lib vertex_a (sample_set 3) = Ok ()"
  "verify_certified_vertex tie_lib vertex_b (sample_set 3) = Ok ()"
proof -
  have idx: "bitmap_indices [1] 3 = Ok [0]"
    by code_simp
  show "verify_certified_vertex tie_lib vertex_a (sample_set 3) = Ok ()"
    "verify_certified_vertex tie_lib vertex_b (sample_set 3) = Ok ()"
    by (simp_all add: verify_certified_vertex_def vertex_a_def vertex_b_def content_hash_def blake3_with_dst_def tie_lib_def
      set3 u32_try_from_def idx quorum_threshold_def u32_or_zero_def sample_entry_def pk_from_bytes_def verify_aggregate_def
      sample_lib_def sample_digest_def signing_bytes_def sat_sub_def)
qed

section \<open>The three events\<close>

definition node_signer :: "768 word DevSigner" where
  "node_signer = \<lparr> ds_bls = 3, ds_vrf = \<lparr> vk_sk_scalar = 0, vk_nonce = [], vk_pk_compressed = [] \<rparr> \<rparr>"

definition node0 :: "mem_db Node" where
  "node0 = node_start mem_rocks node_borsh macro_cfg None 3 empty_db"

abbreviation dag_b :: LiveDag where
  "dag_b \<equiv> index_vertex 1 vertex_b live_dag_new"

abbreviation dag_ab :: LiveDag where
  "dag_ab \<equiv> index_vertex 0 vertex_a dag_b"

lemma dag_reads:
  "ld_vertices_at_round dag_b 0 = []" "ld_vertices_at_round dag_ab r = (if r = 0 then [vertex_a] else if r = 1 then [vertex_b] else [])"
  "ld_by_hash dag_ab = [0 \<mapsto> vertex_a]"
  by (simp_all add: index_vertex_def ld_vertices_at_round_def live_dag_new_def vertex_a_def vertex_b_def)

lemma admit3:
  "admit_event tie_lib mem_rocks node_borsh (sample_set 3) (CertifiedVertexReceived vertex_b) nd =
     (True, nd\<lparr>nd_dag := index_vertex 1 vertex_b (nd_dag nd), nd_db := snd (vertex_put mem_rocks node_borsh vertex_b (nd_db nd))\<rparr>)"
  "admit_event tie_lib mem_rocks node_borsh (sample_set 3) (CertifiedVertexReceived vertex_a) nd =
     (True, nd\<lparr>nd_dag := index_vertex 0 vertex_a (nd_dag nd), nd_db := snd (vertex_put mem_rocks node_borsh vertex_a (nd_db nd))\<rparr>)"
proof -
  have "fst (vertex_put mem_rocks node_borsh v d) = Ok ()" if "v \<in> {vertex_a, vertex_b}" for v d
    using that by (auto simp: vertex_put_def put_encoded_def node_borsh_def cert_codec_def put_raw_def db_cf_def mem_rocks_def)
  then show "admit_event tie_lib mem_rocks node_borsh (sample_set 3) (CertifiedVertexReceived vertex_b) nd =
     (True, nd\<lparr>nd_dag := index_vertex 1 vertex_b (nd_dag nd), nd_db := snd (vertex_put mem_rocks node_borsh vertex_b (nd_db nd))\<rparr>)"
    "admit_event tie_lib mem_rocks node_borsh (sample_set 3) (CertifiedVertexReceived vertex_a) nd =
     (True, nd\<lparr>nd_dag := index_vertex 0 vertex_a (nd_dag nd), nd_db := snd (vertex_put mem_rocks node_borsh vertex_a (nd_db nd))\<rparr>)"
    by (simp_all add: verify3 live_dag_ingest_def case_prod_beta) (simp_all add: vertex_a_def vertex_b_def)
qed

abbreviation node_ports :: "LiveDag \<Rightarrow> Hash32 \<Rightarrow> mem_db BlobCustodyHandle option HostContext" where
  "node_ports dag beacon \<equiv> build_host_context tie_lib mem_rocks node_borsh node_signer (sample_set 3) dag beacon 0"

lemma host_ports:
  "dag_vertex (node_ports dag beacon) h = Ok (ld_by_hash dag h)"
  "dag_vertices_at_round (node_ports dag beacon) r = Ok (ld_vertices_at_round dag r)"
  "beacon_current (node_ports dag beacon) = Ok beacon"
  "valset_set_for (node_ports dag beacon) 0 = Ok (Some (sample_set 3))"
  by (simp_all add: build_host_context_def cached_set_for_def sample_set_def)

lemma first_event:
  "step 1 tie_lib (CertifiedVertexReceived vertex_b)
     (node_ports dag_b 0)
     (state_machine_new macro_cfg 3, None) =
   (Ok [], ((state_machine_new macro_cfg 3)\<lparr>sm_vertices := record_cert vertex_b (vertex_book_new 3)\<rparr>, None))"
proof -
  have waves: "wave_of_round (v_round (cv_vertex vertex_b)) = 0"
    by (simp add: vertex_b_def wave_of_round_def)
  have commit: "try_commit_wave tie_lib 0 macro_cfg (sample_set 3)
      (node_ports dag_b 0) late = Ok None" for late
    by (simp add: try_commit_wave_def anchor3 [OF host_ports(3)] host_ports wave_first_round_def dag_reads)
  show ?thesis
    by (simp add: Let_def on_vertices_def on_waves_def on_macros_def on_certified_vertex_def maybe_advance_def vc_run_Suc
        maybe_advance_body_def state_machine_new_def vertex_book_new_def record_cert_def bull_on_certified_vertex_def waves
        try_emit_for_wave_def host_ports commit wave_book_new_def anchor_present_def anchor3 [OF host_ports(3)]
        wave_first_round_def dag_reads on_local_micro_qcs_def List.map_filter_def)
qed

definition micro3 :: MicroQc where
  "micro3 = \<lparr> uq_checkpoint_hash = 0, uq_agg = \<lparr> as_sig = placeholder_sig, as_bitmap = [1] \<rparr> \<rparr>"

definition checkpoint3 :: MacroCheckpoint where
  "checkpoint3 = \<lparr> mc_height = 0, mc_epoch = 0, mc_parent = 0, mc_micro_root = 0, mc_hash = 0 \<rparr>"

definition machine2 :: StateMachine where
  "machine2 = \<lparr> sm_cfg = macro_cfg, sm_emitted = {0},
     sm_waves = wave_book_new\<lparr>wb_committed_waves := {0}\<rparr>,
     sm_macros = (macro_book_new 3)\<lparr>mb_candidate := bt_insert 0 checkpoint3 bt_empty, mb_candidate_beacon := bt_insert 0 0 bt_empty\<rparr>,
     sm_vertices = record_cert vertex_a (record_cert vertex_b (vertex_book_new 3)) \<rparr>"

lemma commit3: "try_commit_wave tie_lib 0 macro_cfg (sample_set 3) (node_ports dag_ab 0) late =
    Ok (Some \<lparr> cd_wave = 0, cd_path = Shortcut, cd_anchor_hash = 0 \<rparr>)"
proof -
  have "[1..<Suc (unat (2 :: u32))] = [1, 2]"
    by code_simp
  then have "count_supporters 0 0 2 (node_ports dag_ab 0) = Ok {2}"
    by (simp add: count_supporters_def host_ports dag_reads vertex_reaches_def)
      (simp add: vertex_b_def)
  then show ?thesis
    by (simp add: try_commit_wave_def anchor3 [OF host_ports(3)] host_ports wave_first_round_def dag_reads set3 commit_need_def
        macro_cfg_def default_table_17_1_def) (simp add: vertex_a_def)
qed

lemma parents_a: "v_parents (cv_vertex vertex_a) = []"
  by (simp add: vertex_a_def)

lemma closure3: "closure_of_anchor 0 (node_ports dag_ab 0) = Ok \<lparr> lin_order = [0] \<rparr>"
  by (simp add: closure_of_anchor_def closure_loop.simps host_ports dag_reads parents_a)

lemma micro_try3: "micro_try_finalize 0 [vertex_a] (node_ports dag_ab 0) = Ok (Some micro3)"
proof -
  have "[0..<3] = [0, 1, 2 :: nat]"
    by code_simp
  then show ?thesis
    by (simp add: micro_try_finalize_def host_ports set3 vertex_a_def sample_entry_def micro3_def div_ceil_def set_slot_def)
qed

lemma second_event:
  "step 1 tie_lib (CertifiedVertexReceived vertex_a) (node_ports dag_ab 0)
     ((state_machine_new macro_cfg 3)\<lparr>sm_vertices := record_cert vertex_b (vertex_book_new 3)\<rparr>, None) =
   (Ok [BroadcastMicroQc micro3], (machine2, None))"
proof -
  have waves: "wave_of_round (v_round (cv_vertex vertex_a)) = 0"
    by (simp add: vertex_a_def wave_of_round_def)
  have cp: "build_checkpoint tie_lib 0 0 0 (micro_root_of_ring tie_lib [0]) = checkpoint3"
    by (simp add: build_checkpoint_def checkpoint3_def micro_root_of_ring_def blake3_with_dst_def tie_lib_def)
  have lookups: "lookup_all (node_ports dag_ab 0) [0] = Ok [vertex_a]"
    by (simp add: lookup_all_def host_ports dag_reads List.map_filter_def)
  have hash: "checkpoint_hash_from_linearization tie_lib l = 0" for l
    by (simp add: checkpoint_hash_from_linearization_def blake3_with_dst_def tie_lib_def)
  have macro: "on_local_micro_qcs tie_lib macro_cfg (node_ports dag_ab 0) [BroadcastMicroQc micro3] (macro_book_new 3) =
      (Ok [BroadcastMicroQc micro3], (macro_book_new 3)\<lparr>mb_candidate := bt_insert 0 checkpoint3 bt_empty,
        mb_candidate_beacon := bt_insert 0 0 bt_empty\<rparr>)"
    by (simp add: on_local_micro_qcs_def List.map_filter_def micro_qc_hash_of_def micro3_def push_micro_hash_def Let_def
        macro_set_def host_ports macro_book_new_def cp schedule3 propose_candidate_def hash_zero_def)
  show ?thesis
    by (simp add: Let_def on_vertices_def on_waves_def on_macros_def on_certified_vertex_def maybe_advance_def vc_run_Suc
        maybe_advance_body_def state_machine_new_def vertex_book_new_def record_cert_def bull_on_certified_vertex_def waves
        try_emit_for_wave_def host_ports commit3 wave_book_new_def mark_committed_def emit_checkpoint_def closure3 hash lookups
        micro_try3 macro machine2_def)
qed

definition macro3 :: MacroQc where
  "macro3 = \<lparr> mq_checkpoint_hash = 0, mq_mode = Mode0Flat, mq_agg = \<lparr> as_sig = 5, as_bitmap = [1] \<rparr> \<rparr>"

lemma fields3 [simp]: "mc_hash checkpoint3 = 0" "mc_height checkpoint3 = 0" "mq_checkpoint_hash macro3 = 0"
  by (simp_all add: checkpoint3_def macro3_def)

lemma adopt3:
  "newly_finalized_height (adopt checkpoint3 two_chain_default) = None"
  by (simp add: newly_finalized_height_def adopt_def two_chain_default_def justified_head_height_def Let_def bt_get_list bt_empty_def)

lemma third_event:
  "\<exists>sm. step 1 tie_lib (MacroQcReceived macro3) (node_ports dag_ab 0) (machine2, None) =
   (Ok [PersistMacroCheckpoint checkpoint3, PersistMacroQc macro3, UpdateBlobStatus (blob_id_of_checkpoint checkpoint3) Justified],
     (sm, None))"
proof -
  have upt: "[0..<3] = [0, 1, 2 :: nat]"
    by code_simp
  have marked: "marked_entries (sample_set 3) [1] = [sample_entry 1]"
    by (simp add: marked_entries_def set3 upt bitmap_bit_def test_slot_def)
  have verified: "verify_macro_qc tie_lib (sample_set 3) macro3 checkpoint3"
    by (simp add: verify_macro_qc_def macro3_def checkpoint3_def marked pk_from_entry_def sample_entry_def tie_lib_def pk_from_bytes_def
        sample_lib_def verify_aggregate_def sample_digest_def checkpoint_message_def)
  have single: "bt_insert k v bt_empty = [(k, v)]" for k :: Height and v :: 'v
    by (simp add: bt_empty_def)
  show ?thesis
    using verified by (simp add: on_macros_def on_macro_qc_received_def machine2_def macro_book_new_def macro_set_def host_ports Let_def
        candidate_height_def signers_of_def bump_reputation_def settle_finality_def note_inactivity_leak_on_adoption_def
        record_adoption_def adopt3 leak_compute_def single bt_get_list sat_add_def word_le_nat_alt)
qed

text \<open>A node between two events of the sample run.\<close>

definition idle :: "StateMachine \<Rightarrow> LiveDag \<Rightarrow> mem_db Node \<Rightarrow> bool" where
  "idle sm dag nd \<longleftrightarrow> nd_sm nd = sm \<and> nd_dag nd = dag \<and> nd_beacon nd = 0 \<and> nd_custody nd = None \<and>
     nd_events nd = channel_new 1024"

lemma deliver_idle:
  assumes "idle sm dag nd" "admit_event tie_lib mem_rocks node_borsh (sample_set 3) ev nd = (True, nd')" "idle sm dag' nd'"
    and "step 1 tie_lib ev (node_ports dag' 0) (sm, None) = (Ok acts, (sm', None))"
    and run: "node_run tie_lib mem_rocks node_borsh W ec node_signer (sample_set 3) node0 tr nd"
  shows "node_run tie_lib mem_rocks node_borsh W ec node_signer (sample_set 3) node0 (tr @ acts)
    (dispatch_actions tie_lib mem_rocks node_borsh acts (nd'\<lparr>nd_sm := sm'\<rparr>))"
proof -
  have gossip: "node_run tie_lib mem_rocks node_borsh W ec node_signer (sample_set 3) node0 (tr @ []) (fan_in ev nd)"
    by (rule node_run.step [OF run, of 1 0 "Gossiped ev"]) simp
  have pop: "chan_queue (nd_events (fan_in ev nd)) = [ev]"
      "(fan_in ev nd)\<lparr>nd_events := (nd_events (fan_in ev nd))\<lparr>chan_queue := []\<rparr>\<rparr> = nd"
    using assms(1) by (simp_all add: idle_def fan_in_def try_send_def channel_new_def)
  have machine: "with_machine tie_lib mem_rocks node_borsh node_signer (sample_set 3) 0 (\<lambda>ctx. step 1 tie_lib ev ctx) nd' =
      (Ok acts, dispatch_actions tie_lib mem_rocks node_borsh acts (nd'\<lparr>nd_sm := sm'\<rparr>))"
    using assms(3,4) by (cases nd') (simp add: with_machine_def idle_def load_custody_def store_custody_def)
  show ?thesis
    using node_run.step [OF gossip, of 1 0 NextEvent] assms(2) pop machine by (simp add: orch_step_def orch_event_def)
qed

lemma sample_node_run:
  "\<exists>tr nd. node_run tie_lib mem_rocks node_borsh W ec node_signer (sample_set 3) node0 tr nd \<and> adopted tr = [checkpoint3]"
proof -
  let ?run = "node_run tie_lib mem_rocks node_borsh W ec node_signer (sample_set 3) node0"
  let ?sm0 = "state_machine_new macro_cfg 3"
  let ?sm1 = "?sm0\<lparr>sm_vertices := record_cert vertex_b (vertex_book_new 3)\<rparr>"
  have idle0: "idle ?sm0 live_dag_new node0"
    by (simp add: idle_def node0_def node_start_def beacon_new_def hash_zero_def)
  let ?adm1 = "node0\<lparr>nd_dag := dag_b, nd_db := snd (vertex_put mem_rocks node_borsh vertex_b (nd_db node0))\<rparr>"
  let ?nd1 = "?adm1\<lparr>nd_sm := ?sm1\<rparr>"
  have "admit_event tie_lib mem_rocks node_borsh (sample_set 3) (CertifiedVertexReceived vertex_b) node0 = (True, ?adm1)"
    unfolding admit3(1) using idle0 by (simp add: idle_def)
  moreover have "idle ?sm0 dag_b ?adm1"
    using idle0 by (simp add: idle_def)
  ultimately have "?run ([] @ []) (dispatch_actions tie_lib mem_rocks node_borsh [] ?nd1)"
    by (rule deliver_idle [OF idle0 _ _ first_event node_run.start])
  then have run1: "?run [] ?nd1"
    by (simp add: dispatch_actions_def)
  have idle1: "idle ?sm1 dag_b ?nd1"
    using idle0 by (simp add: idle_def)
  let ?adm2 = "?nd1\<lparr>nd_dag := dag_ab, nd_db := snd (vertex_put mem_rocks node_borsh vertex_a (nd_db ?nd1))\<rparr>"
  let ?nd2 = "dispatch_actions tie_lib mem_rocks node_borsh [BroadcastMicroQc micro3] (?adm2\<lparr>nd_sm := machine2\<rparr>)"
  have "admit_event tie_lib mem_rocks node_borsh (sample_set 3) (CertifiedVertexReceived vertex_a) ?nd1 = (True, ?adm2)"
    unfolding admit3(2) by simp
  moreover have idle2: "idle ?sm1 dag_ab ?adm2" "idle machine2 dag_ab ?nd2"
    using idle1 by (simp_all add: idle_def dispatch_actions_def dispatch_action_def)
  ultimately have run2: "?run ([] @ [BroadcastMicroQc micro3]) ?nd2"
    by (intro deliver_idle [OF idle1 _ _ second_event run1])
  obtain sm where "step 1 tie_lib (MacroQcReceived macro3) (node_ports dag_ab 0) (machine2, None) =
      (Ok [PersistMacroCheckpoint checkpoint3, PersistMacroQc macro3, UpdateBlobStatus (blob_id_of_checkpoint checkpoint3) Justified],
        (sm, None))"
    using third_event by blast
  from deliver_idle [OF idle2(2) _ idle2(2) this run2] show ?thesis
    by fastforce
qed

end
