(* ===== verification/Node_Properties.thy ===== *)
theory Node_Properties
  imports Node_Samples Sample_Committee
begin

text \<open>The node as a whole: what its database, beacon and DAG hold, and what a restart loses.\<close>

section \<open>The live DAG as a port\<close>

interpretation live: dag_port "build_host_context L R B signer vset dag beacon now" for L R B signer vset dag beacon now
  by unfold_locales (simp_all add: build_host_context_def)

lemma node_orders:
  assumes "vs_epoch vset = 0" "vs_entries vset \<noteq> []"
  shows "\<exists>acts st'. emit_for_waves L cfg (build_host_context L R B signer vset dag beacon now) ws actions st = (Ok acts, st')"
  by (rule live.emit_for_waves_returns [where r = "Some vset" and b = beacon])
    (use assms in \<open>simp_all add: build_host_context_def cached_set_for_def\<close>)

section \<open>The chain on disk\<close>

text \<open>
  C2: A node, started on any readable database that accepts the writes of macro finality, through any run:
  the genesis proposal, events in any order, timers, gossip, submitted payloads, chunks, steps that fail.
  Its database holds the chain of the adopted checkpoints, each at its height, from height 0 without gaps,
  linked by parent hashes; the beacon is the hash chain over exactly these checkpoints; a blob that was
  reported final is the blob of a checkpoint with an adopted child, and a status query answers at least
  \<open>Finalized\<close> for it. Every vertex the live DAG offers the ordering layer is certified by the committee and
  filed under its own hash and round.
\<close>

theorem node_chain_durable:
  assumes "rocks_ok R view" "borsh_ok B" "accepts_macros R B" "represents B (view d) A"
    and "node_run L R B W ec signer vset (node_start R B cfg erasure me d) tr nd" "length (adopted tr) < 2 ^ 64"
  shows "(\<forall>i < length (adopted tr).
      macro_checkpoint_at R B (of_nat i) (node_persistence nd) = Ok (Some (adopted tr ! i)) \<and>
      mc_parent (adopted tr ! i) = (if i = 0 then hash_zero else mc_hash (adopted tr ! (i - 1)))) \<and>
    nd_beacon nd = fold (\<lambda>cp b. chain_beacon L b (mc_hash cp)) (adopted tr) hash_zero \<and>
    (\<forall>b \<in> set (final_blobs tr). (\<exists>s. query_blob_status R b nd = Ok s \<and> Finalized \<le> s) \<and>
      (\<exists>i. Suc i < length (adopted tr) \<and> b = blob_id_of_checkpoint (adopted tr ! i))) \<and>
    (\<forall>h v. ld_by_hash (nd_dag nd) h = Some v \<longrightarrow>
      v_hash (cv_vertex v) = h \<and> is_ok (verify_certified_vertex L v vset)) \<and>
    (\<forall>r. \<forall>v \<in> set (ld_vertices_at_round (nd_dag nd) r). v_round (cv_vertex v) = r \<and>
      is_ok (verify_certified_vertex L v vset) \<and> ld_by_hash (nd_dag nd) (v_hash (cv_vertex v)) \<noteq> None)"
proof -
  have inv: "node_inv L B view vset tr nd"
    by (rule node_run_inv [OF assms(1-3) node_inv_start [where view = view and d = d, OF assms(4)] assms(5)])
  then have macro: "macro_inv tr (sm_macros (nd_sm nd))" and dag: "dag_ok L vset (nd_dag nd)" and "nd_beacon nd = beacon_of L tr"
    by (simp_all add: node_inv_def)
  obtain A' where A': "represents B (view (nd_db nd)) A'" "durable (length (adopted tr)) tr A'"
    using inv by (auto simp: node_inv_def db_inv_def)
  have chain: "hash_chain (adopted tr)" and reports: "reports_ok (adopted tr) (final_blobs tr)"
    and certs: "map mq_checkpoint_hash (certificates tr) = map mc_hash (adopted tr)"
    using macro assms(6) by (simp_all add: macro_inv_def chain_inv_def)
  have "nd_beacon nd = fold (\<lambda>h b. chain_beacon L b h) (map mq_checkpoint_hash (certificates tr)) hash_zero"
    using \<open>nd_beacon nd = beacon_of L tr\<close>
    by (simp add: beacon_of_def adopt_macro_qc_def [abs_def] fold_map comp_def beacon_new_def)
  then have "nd_beacon nd = fold (\<lambda>cp b. chain_beacon L b (mc_hash cp)) (adopted tr) hash_zero"
    unfolding certs by (simp add: fold_map comp_def)
  moreover have "macro_checkpoint_at R B (of_nat i) (node_persistence nd) = Ok (Some (adopted tr ! i)) \<and>
      mc_parent (adopted tr ! i) = (if i = 0 then hash_zero else mc_hash (adopted tr ! (i - 1)))" if "i < length (adopted tr)" for i
    using that chain A'(2) assms(6) tip_take [of i "adopted tr"] reads(4) [OF assms(1) A'(1)]
    by (simp add: macro_checkpoint_at_def node_persistence_def durable_def hash_chain_def) (simp add: tip_def)
  moreover have "\<exists>s. query_blob_status R b nd = Ok s \<and> Finalized \<le> s" if "b \<in> set (final_blobs tr)" for b
    using that A'(2) reads(8) [OF assms(1) A'(1), of b]
    by (auto simp: durable_def query_blob_status_def blob_status_def node_persistence_def)
  ultimately show ?thesis
    using reports dag unfolding reports_ok_def dag_ok_def by blast
qed

theorem node_chain_durable_witness:
  "\<exists>nd. macro_checkpoint_at mem_rocks node_borsh 0 (node_persistence nd) = Ok (Some checkpoint3) \<and>
    nd_beacon nd = chain_beacon tie_lib hash_zero 0"
proof -
  fix W ec
  obtain tr nd where run: "node_run tie_lib mem_rocks node_borsh W ec node_signer (sample_set 3) node0 tr nd"
    and adopted: "adopted tr = [checkpoint3]"
    using sample_node_run by blast
  have "length (adopted tr) < 2 ^ 64"
    by (simp add: adopted)
  from node_chain_durable [where view = mem_view and d = empty_db, OF rocks_ok_mem borsh_ok_node accepts_node represents_empty
      run [unfolded node0_def] this]
  show ?thesis
    by (intro exI [of _ nd]) (simp add: adopted)
qed

section \<open>Restarts\<close>

text \<open>What the vertex layer of a node does with a well-formed proposal of round 0.\<close>

definition round_zero_ok :: "'x crypto_lib \<Rightarrow> ValidatorSet \<Rightarrow> VertexProposal \<Rightarrow> bool" where
  "round_zero_ok L vset p \<longleftrightarrow> v_hash (vp_vertex p) = content_hash L (vp_vertex p) \<and> verify_proposal L vset p \<and>
     v_round (vp_vertex p) = 0 \<and> v_parents (vp_vertex p) = []"

definition vote_for :: "'x crypto_lib \<Rightarrow> 'x DevSigner \<Rightarrow> ValidatorId \<Rightarrow> VertexProposal \<Rightarrow> VertexPartial" where
  "vote_for L signer me p = \<lparr> pt_vertex_hash = v_hash (vp_vertex p), pt_round = 0, pt_author = v_author (vp_vertex p),
     pt_voter = me, pt_sig = bls_sign L (ds_bls signer) DST_VERTEX_CERT (signing_bytes L (vp_vertex p)) \<rparr>"

lemma proposal_event:
  assumes "vs_epoch vset = 0"
  shows "fst (orch_event depth L R B signer vset now (VertexProposalReceived p) nd) =
      fst (on_vertex_proposal L p (build_host_context L R B signer vset (nd_dag nd) (nd_beacon nd) now) (sm_vertices (nd_sm nd)))"
    "sm_vertices (nd_sm (snd (orch_event depth L R B signer vset now (VertexProposalReceived p) nd))) =
      snd (on_vertex_proposal L p (build_host_context L R B signer vset (nd_dag nd) (nd_beacon nd) now) (sm_vertices (nd_sm nd)))"
proof -
  obtain r book where res: "on_vertex_proposal L p (build_host_context L R B signer vset (nd_dag nd) (nd_beacon nd) now)
      (sm_vertices (nd_sm nd)) = (r, book)"
    by fastforce
  have sm: "nd_sm (dispatch_actions L R B acts n) = nd_sm n" for acts n
    unfolding dispatch_actions_def by (induction acts arbitrary: n) (simp_all add: dispatch_action_fields)
  show "fst (orch_event depth L R B signer vset now (VertexProposalReceived p) nd) =
      fst (on_vertex_proposal L p (build_host_context L R B signer vset (nd_dag nd) (nd_beacon nd) now) (sm_vertices (nd_sm nd)))"
    "sm_vertices (nd_sm (snd (orch_event depth L R B signer vset now (VertexProposalReceived p) nd))) =
      snd (on_vertex_proposal L p (build_host_context L R B signer vset (nd_dag nd) (nd_beacon nd) now) (sm_vertices (nd_sm nd)))"
    by (cases r; simp add: orch_event_def with_machine_def on_vertices_def vertex_only_def res sm store_custody_def)+
qed

lemma fresh_vote:
  assumes "vs_epoch vset = 0" "round_zero_ok L vset p" "v_author (vp_vertex p) \<noteq> me"
  shows "on_vertex_proposal L p (build_host_context L R B signer vset dag beacon now) (vertex_book_new me) =
    (Ok [BroadcastVertexPartial (vote_for L signer me p)],
     (vertex_book_new me)\<lparr>vb_proposals_seen := [(0, v_author (vp_vertex p)) \<mapsto> [p]], vb_voted := {(0, v_author (vp_vertex p))}\<rparr>)"
  using assms
  by (simp add: on_vertex_proposal_def active_set_def build_host_context_def cached_set_for_def round_zero_ok_def
      vertex_book_new_def round_in_window_def check_parents_and_vote_def cast_vote_def vote_for_def Let_def sat_sub_def)

text \<open>
  C39: A restart forgets the votes of a validator. A running node that has voted for a vertex answers a
  conflicting proposal of the same author and round with evidence. The same node, restarted on the database
  it left, votes for the conflicting proposal: the two partial signatures of one validator name one round
  and author and different vertices.
\<close>

theorem restart_votes_again:
  assumes "vs_epoch vset = 0" "round_zero_ok L vset p" "round_zero_ok L vset q"
    and "v_author (vp_vertex p) \<noteq> me" "v_author (vp_vertex q) = v_author (vp_vertex p)" "v_hash (vp_vertex q) \<noteq> v_hash (vp_vertex p)"
    and running: "orch_event depth L R B signer vset now (VertexProposalReceived p) (node_start R B cfg erasure me d) = (res, nd)"
  shows "res = Ok [BroadcastVertexPartial (vote_for L signer me p)] \<and>
    (\<exists>ev. fst (orch_event depth L R B signer vset now (VertexProposalReceived q) nd) =
      Ok [EmitSlashEvidence (v_author (vp_vertex p)) (EvVertexEquivocation ev)]) \<and>
    fst (orch_event depth L R B signer vset now (VertexProposalReceived q) (node_start R B cfg erasure me (nd_db nd))) =
      Ok [BroadcastVertexPartial (vote_for L signer me q)] \<and>
    pt_voter (vote_for L signer me p) = pt_voter (vote_for L signer me q) \<and>
    pt_round (vote_for L signer me p) = pt_round (vote_for L signer me q) \<and>
    pt_author (vote_for L signer me p) = pt_author (vote_for L signer me q) \<and>
    pt_vertex_hash (vote_for L signer me p) \<noteq> pt_vertex_hash (vote_for L signer me q)"
proof -
  note event = proposal_event [OF assms(1), of depth L R B signer now]
  have book: "sm_vertices (nd_sm (node_start R B cfg erasure me d')) = vertex_book_new me" for d'
    by (simp add: node_start_def state_machine_new_def)
  have "res = Ok [BroadcastVertexPartial (vote_for L signer me p)]"
    using event(1) [of p "node_start R B cfg erasure me d"] running by (simp add: book fresh_vote [OF assms(1,2,4)])
  moreover have "sm_vertices (nd_sm nd) = (vertex_book_new me)\<lparr>vb_proposals_seen := [(0, v_author (vp_vertex p)) \<mapsto> [p]],
      vb_voted := {(0, v_author (vp_vertex p))}\<rparr>"
    using event(2) [of p "node_start R B cfg erasure me d"] running by (simp add: book fresh_vote [OF assms(1,2,4)])
  then have "\<exists>ev. fst (orch_event depth L R B signer vset now (VertexProposalReceived q) nd) =
      Ok [EmitSlashEvidence (v_author (vp_vertex p)) (EvVertexEquivocation ev)]"
    using assms unfolding event(1)
    by (simp add: on_vertex_proposal_def active_set_def build_host_context_def cached_set_for_def round_zero_ok_def
        vertex_book_new_def round_in_window_def Let_def sat_sub_def)
  moreover have "fst (orch_event depth L R B signer vset now (VertexProposalReceived q) (node_start R B cfg erasure me (nd_db nd))) =
      Ok [BroadcastVertexPartial (vote_for L signer me q)]"
    unfolding event(1) book by (simp add: fresh_vote [OF assms(1,3)] assms(4,5))
  ultimately show ?thesis
    using assms(5,6) by (simp add: vote_for_def)
qed

text \<open>Two proposals of validator 2 that differ in their blobs, received by validator 1.\<close>

definition restart_lib :: "768 word crypto_lib" where
  "restart_lib = sample_lib\<lparr>blake3_hash := (\<lambda>bs. ucast (last bs)),
     borsh_signable_vertex := (\<lambda>r a ps bs h. [of_nat (length bs)])\<rparr>"

definition proposal_with :: "BlobRef list \<Rightarrow> VertexProposal" where
  "proposal_with blobs = \<lparr> vp_vertex = \<lparr> v_round = 0, v_author = 2, v_parents = [], v_blobs = blobs,
     v_hash = of_nat (length blobs) \<rparr>, vp_proposer_sig = 6 \<rparr>"

definition some_blob :: BlobRef where
  "some_blob = \<lparr> br_blob_id = 7, br_commitment = 9, br_size_bytes = 2 \<rparr>"

lemma restart_proposals:
  "round_zero_ok restart_lib (sample_set 4) (proposal_with [])"
  "round_zero_ok restart_lib (sample_set 4) (proposal_with [some_blob])"
  by (simp_all add: round_zero_ok_def proposal_with_def content_hash_def blake3_with_dst_def dst_preimage_def signing_bytes_def
      restart_lib_def verify_proposal_def pk_for_def find_entry_def sample_entries sample_entry_def pk_from_bytes_def
      bls_verify_def sample_lib_def sample_digest_def)

theorem restart_votes_again_witness:
  "\<exists>(nd :: mem_db Node) a b. fst (orch_event 1 restart_lib mem_rocks node_borsh node_signer (sample_set 4) 0
      (VertexProposalReceived (proposal_with [])) (node_start mem_rocks node_borsh macro_cfg None 1 empty_db)) =
        Ok [BroadcastVertexPartial a] \<and>
    fst (orch_event 1 restart_lib mem_rocks node_borsh node_signer (sample_set 4) 0
      (VertexProposalReceived (proposal_with [some_blob])) (node_start mem_rocks node_borsh macro_cfg None 1 (nd_db nd))) =
        Ok [BroadcastVertexPartial b] \<and> pt_vertex_hash a \<noteq> pt_vertex_hash b"
proof -
  obtain res nd where run: "orch_event 1 restart_lib mem_rocks node_borsh node_signer (sample_set 4) 0
      (VertexProposalReceived (proposal_with [])) (node_start mem_rocks node_borsh macro_cfg None 1 empty_db) = (res, nd)"
    by fastforce
  have "vs_epoch (sample_set 4) = 0" "v_author (vp_vertex (proposal_with [])) \<noteq> 1"
      "v_author (vp_vertex (proposal_with [some_blob])) = v_author (vp_vertex (proposal_with []))"
      "v_hash (vp_vertex (proposal_with [some_blob])) \<noteq> v_hash (vp_vertex (proposal_with []))"
    by (simp_all add: sample_set_def proposal_with_def)
  note again = restart_votes_again [OF this(1) restart_proposals this(2-4) run]
  then show ?thesis
    unfolding run fst_conv by blast
qed

end
