(* ===== verification/Virtual_Host.thy ===== *)
theory Virtual_Host
  imports State_Machine Dag_View
begin

text \<open>
  The parts of the simulator's host, \<open>apps/sim/src\<close>: the network adversary and the message bus
  (\<open>adversary/network.rs\<close>, \<open>virtual_net.rs\<close>), timers (\<open>virtual_timer.rs\<close>), storage
  (\<open>virtual_persistence.rs\<close>), the validator set, keys (\<open>keys.rs\<close>) and the vertex factory
  (\<open>vertex_factory.rs\<close>). The generator \<open>ChaCha20Rng\<close> of the rand crates is a parameter.
\<close>

section \<open>Randomness\<close>

record 'r rng_lib =
  rng_from_seed :: "bytes \<Rightarrow> 'r"
  gen_u64_upto :: "u64 \<Rightarrow> 'r \<Rightarrow> u64 \<times> 'r"
  gen_unit_f64 :: "'r \<Rightarrow> f64 \<times> 'r"

text \<open>Samples of \<open>gen_range\<close> lie in the given range.\<close>

definition rng_ok :: "'r rng_lib \<Rightarrow> bool" where
  "rng_ok G \<longleftrightarrow> (\<forall>m r. fst (gen_u64_upto G m r) \<le> m) \<and>
     (\<forall>r. f64_le (Fin 0) (fst (gen_unit_f64 G r)) \<and> f64_lt (fst (gen_unit_f64 G r)) (Fin 1))"

section \<open>Messages in flight\<close>

record InFlight =
  fl_recipient :: u32
  fl_event :: Event
  fl_deliver_at :: u64

record NetworkConditions =
  nc_base_delay_ns :: u64
  nc_max_delay_ns :: u64
  nc_drop :: f64
  nc_duplicate :: f64

definition nc_perfect :: NetworkConditions where
  "nc_perfect = \<lparr> nc_base_delay_ns = 0, nc_max_delay_ns = 0, nc_drop = Fin 0, nc_duplicate = Fin 0 \<rparr>"

definition sat_mul :: "('a::len) word \<Rightarrow> 'a word \<Rightarrow> 'a word" where
  "sat_mul a b = (if unat a * unat b < 2 ^ LENGTH('a) then a * b else - 1)"

definition with_round_jitter :: "u64 \<Rightarrow> NetworkConditions" where
  "with_round_jitter ms = (let round_nanos = sat_mul ms 1000000
     in \<lparr> nc_base_delay_ns = round_nanos div 10, nc_max_delay_ns = round_nanos div 5, nc_drop = Fin 0, nc_duplicate = Fin 0 \<rparr>)"

text \<open>A random draw \<open>0..=max\<close>, which leaves the generator alone when \<open>max\<close> is 0.\<close>

definition jitter_nanos :: "'r rng_lib \<Rightarrow> u64 \<Rightarrow> 'r \<Rightarrow> u64 \<times> 'r" where
  "jitter_nanos G mx rng = (if mx = 0 then (0, rng) else gen_u64_upto G mx rng)"

definition perturb :: "'r rng_lib \<Rightarrow> NetworkConditions \<Rightarrow> InFlight \<Rightarrow> 'r \<Rightarrow>
    (InFlight option \<times> InFlight option) \<times> 'r" where
  "perturb G nc msg rng = (case gen_unit_f64 G rng of (p, rng) \<Rightarrow>
     if f64_lt p (nc_drop nc) then ((None, None), rng)
     else case (if 0 < nc_max_delay_ns nc then gen_u64_upto G (nc_max_delay_ns nc) rng else (0, rng)) of (extra, rng) \<Rightarrow>
       let msg = msg\<lparr>fl_deliver_at := fl_deliver_at msg + extra\<rparr> in
       case gen_unit_f64 G rng of (q, rng) \<Rightarrow>
         ((Some msg, if f64_lt q (nc_duplicate nc) then Some msg else None), rng))"

section \<open>Message bus\<close>

record Partition =
  pa_left :: "u32 set"
  pa_right :: "u32 set"
  pa_active :: bool

definition partition_new :: "u32 list \<Rightarrow> u32 list \<Rightarrow> Partition" where
  "partition_new left right = \<lparr> pa_left = set left, pa_right = set right, pa_active = True \<rparr>"

definition heal :: "Partition \<Rightarrow> Partition" where
  "heal p = p\<lparr>pa_active := False\<rparr>"

definition allows :: "Partition \<Rightarrow> u32 \<Rightarrow> u32 \<Rightarrow> bool" where
  "allows p sender recipient \<longleftrightarrow> (if \<not> pa_active p then True
     else sender \<in> pa_left p \<and> recipient \<in> pa_left p \<or> sender \<in> pa_right p \<and> recipient \<in> pa_right p)"

record VirtualNet =
  vn_pending :: "InFlight list"
  vn_conditions :: NetworkConditions
  vn_partition :: "Partition option"

definition virtual_net_new :: VirtualNet where
  "virtual_net_new = \<lparr> vn_pending = [], vn_conditions = nc_perfect, vn_partition = None \<rparr>"

definition set_conditions :: "NetworkConditions \<Rightarrow> VirtualNet \<Rightarrow> VirtualNet" where
  "set_conditions nc net = net\<lparr>vn_conditions := nc\<rparr>"

definition net_set_partition :: "u32 list \<Rightarrow> u32 list \<Rightarrow> VirtualNet \<Rightarrow> VirtualNet" where
  "net_set_partition left right net = net\<lparr>vn_partition := Some (partition_new left right)\<rparr>"

definition net_heal_partition :: "VirtualNet \<Rightarrow> VirtualNet" where
  "net_heal_partition net = net\<lparr>vn_partition := map_option heal (vn_partition net)\<rparr>"

definition partition_active :: "VirtualNet \<Rightarrow> bool" where
  "partition_active net \<longleftrightarrow> (case vn_partition net of None \<Rightarrow> False | Some p \<Rightarrow> pa_active p)"

definition allows_delivery :: "VirtualNet \<Rightarrow> u32 \<Rightarrow> u32 \<Rightarrow> bool" where
  "allows_delivery net sender recipient \<longleftrightarrow>
     (case vn_partition net of None \<Rightarrow> True | Some p \<Rightarrow> allows p sender recipient)"

text \<open>
  \<open>partition_point\<close> on the queue, which is sorted by delivery time: the length of the prefix that
  satisfies the predicate.
\<close>

definition enqueue :: "InFlight \<Rightarrow> VirtualNet \<Rightarrow> VirtualNet" where
  "enqueue msg net = (let pos = length (takeWhile (\<lambda>m. fl_deliver_at m \<le> fl_deliver_at msg) (vn_pending net))
     in net\<lparr>vn_pending := take pos (vn_pending net) @ msg # drop pos (vn_pending net)\<rparr>)"

definition enqueue_opt :: "InFlight option \<Rightarrow> VirtualNet \<Rightarrow> VirtualNet" where
  "enqueue_opt m net = (case m of None \<Rightarrow> net | Some msg \<Rightarrow> enqueue msg net)"

fun drain_messages :: "u64 \<Rightarrow> InFlight list \<Rightarrow> InFlight list \<Rightarrow> InFlight list \<times> InFlight list" where
  "drain_messages now [] out = (out, [])"
| "drain_messages now (m # ms) out =
     (if fl_deliver_at m \<le> now then drain_messages now ms (out @ [m]) else (out, m # ms))"

definition drain_due :: "u64 \<Rightarrow> VirtualNet \<Rightarrow> InFlight list \<times> VirtualNet" where
  "drain_due now net = (case drain_messages now (vn_pending net) [] of (out, rest) \<Rightarrow> (out, net\<lparr>vn_pending := rest\<rparr>))"

text \<open>The event an outbound action becomes at its recipients.\<close>

fun event_of_broadcast :: "Action \<Rightarrow> Event option" where
  "event_of_broadcast (BroadcastMicroQc qc) = Some (MicroQcAssembled qc)"
| "event_of_broadcast (BroadcastMacroProposal p) = Some (MacroProposalReceived p)"
| "event_of_broadcast (BroadcastBlsPartial bp) = Some (BlsPartialReceived bp)"
| "event_of_broadcast (BroadcastMacroQc qc) = Some (MacroQcReceived qc)"
| "event_of_broadcast (BroadcastSubnetAggregate a) = Some (SubnetAggregateReceived a)"
| "event_of_broadcast (BroadcastVertexProposal p) = Some (VertexProposalReceived p)"
| "event_of_broadcast (BroadcastVertexPartial bp) = Some (VertexPartialReceived bp)"
| "event_of_broadcast (BroadcastCertifiedVertex cv) = Some (CertifiedVertexReceived cv)"
| "event_of_broadcast _ = None"

definition send_one :: "'r rng_lib \<Rightarrow> u32 \<Rightarrow> Event \<Rightarrow> u64 \<Rightarrow> u32 \<Rightarrow> VirtualNet \<times> 'r \<Rightarrow> VirtualNet \<times> 'r" where
  "send_one G sender event now recipient = (\<lambda>(net, rng).
     if recipient = sender then (net, rng)
     else if \<not> allows_delivery net sender recipient then (net, rng)
     else case jitter_nanos G (nc_max_delay_ns (vn_conditions net)) rng of (jitter, rng) \<Rightarrow> let
       deliver_at = sat_add (sat_add now (nc_base_delay_ns (vn_conditions net))) jitter;
       msg = \<lparr> fl_recipient = recipient, fl_event = event, fl_deliver_at = deliver_at \<rparr>
     in case perturb G (vn_conditions net) msg rng of ((first, duplicate), rng) \<Rightarrow>
       (enqueue_opt duplicate (enqueue_opt first net), rng))"

definition enqueue_from_action :: "'r rng_lib \<Rightarrow> u32 \<Rightarrow> Action \<Rightarrow> u32 \<Rightarrow> u64 \<Rightarrow> VirtualNet \<times> 'r \<Rightarrow> VirtualNet \<times> 'r" where
  "enqueue_from_action G sender action n now st = (case event_of_broadcast action of
      None \<Rightarrow> st
    | Some event \<Rightarrow> fold (send_one G sender event now) (map of_nat [0..<unat n]) st)"

section \<open>Timers\<close>

text \<open>The heap pops the least pair of time and identity first: a list in that order.\<close>

record VirtualTimer =
  vt_pending :: "(u64 \<times> TimerId) list"
  vt_cancelled :: "TimerId set"

definition virtual_timer_new :: VirtualTimer where
  "virtual_timer_new = \<lparr> vt_pending = [], vt_cancelled = {} \<rparr>"

fun heap_push :: "u64 \<times> TimerId \<Rightarrow> (u64 \<times> TimerId) list \<Rightarrow> (u64 \<times> TimerId) list" where
  "heap_push x [] = [x]"
| "heap_push x (y # ys) = (if fst x < fst y \<or> fst x = fst y \<and> snd x \<le> snd y then x # y # ys else y # heap_push x ys)"

definition timer_schedule :: "u64 \<Rightarrow> TimerId \<Rightarrow> VirtualTimer \<Rightarrow> VirtualTimer" where
  "timer_schedule deliver_at tid t = \<lparr> vt_pending = heap_push (deliver_at, tid) (vt_pending t),
     vt_cancelled = vt_cancelled t - {tid} \<rparr>"

definition virtual_timer_cancel :: "TimerId \<Rightarrow> VirtualTimer \<Rightarrow> VirtualTimer" where
  "virtual_timer_cancel tid t = t\<lparr>vt_cancelled := insert tid (vt_cancelled t)\<rparr>"

fun timer_drain :: "u64 \<Rightarrow> (u64 \<times> TimerId) list \<Rightarrow> TimerId set \<Rightarrow> TimerId list \<Rightarrow> TimerId list \<times> VirtualTimer" where
  "timer_drain now [] cancelled out = (out, \<lparr> vt_pending = [], vt_cancelled = cancelled \<rparr>)"
| "timer_drain now ((due, tid) # ts) cancelled out =
     (if now < due then (out, \<lparr> vt_pending = (due, tid) # ts, vt_cancelled = cancelled \<rparr>)
      else if tid \<in> cancelled then timer_drain now ts (cancelled - {tid}) out
      else timer_drain now ts cancelled (out @ [tid]))"

definition timer_drain_due :: "u64 \<Rightarrow> VirtualTimer \<Rightarrow> TimerId list \<times> VirtualTimer" where
  "timer_drain_due now t = timer_drain now (vt_pending t) (vt_cancelled t) []"

section \<open>Storage\<close>

text \<open>The hash maps of certificates are iterated by the checkers; the order of the iteration is not observed.\<close>

record VirtualPersistence =
  vp_micro_qcs :: "(Hash32, MicroQc) btree"
  vp_macro_cps :: "Height \<rightharpoonup> MacroCheckpoint"
  vp_macro_qcs :: "(Hash32, MacroQc) btree"
  vp_slash_log :: "SlashEvidence list"
  vp_blob_status :: "(BlobId, BlobStatus) btree"

definition virtual_persistence_new :: VirtualPersistence where
  "virtual_persistence_new = \<lparr> vp_micro_qcs = bt_empty, vp_macro_cps = Map.empty, vp_macro_qcs = bt_empty,
     vp_slash_log = [], vp_blob_status = bt_empty \<rparr>"

definition slash_count :: "VirtualPersistence \<Rightarrow> nat" where
  "slash_count p = length (vp_slash_log p)"

definition any_micro_qc :: "VirtualPersistence \<Rightarrow> bool" where
  "any_micro_qc p \<longleftrightarrow> vp_micro_qcs p \<noteq> []"

definition all_micro_qcs :: "VirtualPersistence \<Rightarrow> MicroQc list" where
  "all_micro_qcs p = bt_values (vp_micro_qcs p)"

definition any_macro_qc :: "VirtualPersistence \<Rightarrow> bool" where
  "any_macro_qc p \<longleftrightarrow> vp_macro_qcs p \<noteq> []"

definition all_macro_qcs :: "VirtualPersistence \<Rightarrow> MacroQc list" where
  "all_macro_qcs p = bt_values (vp_macro_qcs p)"

definition vp_update_blob_status :: "BlobId \<Rightarrow> BlobStatus \<Rightarrow> VirtualPersistence \<Rightarrow> VirtualPersistence" where
  "vp_update_blob_status blob status p = p\<lparr>vp_blob_status :=
     (case bt_get (vp_blob_status p) blob of
        None \<Rightarrow> bt_insert blob status (vp_blob_status p)
      | Some entry \<Rightarrow> if entry < status then bt_insert blob status (vp_blob_status p) else vp_blob_status p)\<rparr>"

definition finalized_count :: "VirtualPersistence \<Rightarrow> nat" where
  "finalized_count p = length (filter (\<lambda>s. s = Finalized) (bt_values (vp_blob_status p)))"

definition vp_store_micro_qc :: "MicroQc \<Rightarrow> VirtualPersistence \<Rightarrow> VirtualPersistence" where
  "vp_store_micro_qc qc p = p\<lparr>vp_micro_qcs := bt_insert (uq_checkpoint_hash qc) qc (vp_micro_qcs p)\<rparr>"

definition vp_store_macro_checkpoint :: "MacroCheckpoint \<Rightarrow> VirtualPersistence \<Rightarrow> VirtualPersistence" where
  "vp_store_macro_checkpoint cp p = p\<lparr>vp_macro_cps := (vp_macro_cps p)(mc_height cp \<mapsto> cp)\<rparr>"

definition vp_store_macro_qc :: "MacroQc \<Rightarrow> VirtualPersistence \<Rightarrow> VirtualPersistence" where
  "vp_store_macro_qc qc p = p\<lparr>vp_macro_qcs := bt_insert (mq_checkpoint_hash qc) qc (vp_macro_qcs p)\<rparr>"

definition vp_append_slash_evidence :: "SlashEvidence \<Rightarrow> VirtualPersistence \<Rightarrow> VirtualPersistence" where
  "vp_append_slash_evidence ev p = p\<lparr>vp_slash_log := vp_slash_log p @ [ev]\<rparr>"

section \<open>Validator set and keys\<close>

definition virtual_set_for :: "ValidatorSet \<Rightarrow> Epoch \<Rightarrow> (Error, ValidatorSet option) outcome" where
  "virtual_set_for vset epoch = (if vs_epoch vset = epoch then Ok (Some vset) else Ok None)"

definition virtual_index_of :: "ValidatorSet \<Rightarrow> Epoch \<Rightarrow> ValidatorId \<Rightarrow> (Error, u32 option) outcome" where
  "virtual_index_of vset epoch validator = (if vs_epoch vset \<noteq> epoch then Ok None
     else Ok (map_option (\<lambda>i. case u32_try_from i of None \<Rightarrow> - 1 | Some w \<Rightarrow> w)
       (position (\<lambda>e. ve_id e = validator) (vs_entries vset))))"

record 'x ValidatorKeyRing =
  kr_bls :: "'x list"
  kr_vrf :: "'x VrfKey list"

definition key_label :: "bytes \<Rightarrow> u32 \<Rightarrow> bytes" where
  "key_label seed i = seed @ be_bytes 4 i"

definition derive_keys :: "'x crypto_lib \<Rightarrow> bytes \<Rightarrow> u32 \<Rightarrow> (Error, 'x \<times> 'x VrfKey) outcome" where
  "derive_keys L seed i = (let
     bls_seed = blake3_with_dst L DST_VALIDATOR_BLS_PARTIAL (key_label seed i);
     vrf_seed = blake3_with_dst L DST_MACRO_PROPOSER_SIG (key_label seed i)
   in case sk_from_ikm L (be_bytes 32 bls_seed) of
        Ok sk \<Rightarrow> Ok (sk, vrf_key_from_seed L (be_bytes 32 vrf_seed))
      | Err _ \<Rightarrow> Panic ''sim BLS key derivation must succeed''
      | Panic m \<Rightarrow> Panic m)"

definition key_ring_from_seed :: "'x crypto_lib \<Rightarrow> bytes \<Rightarrow> u32 \<Rightarrow> (Error, 'x ValidatorKeyRing) outcome" where
  "key_ring_from_seed L seed n = bind_out (mapM_out (derive_keys L seed) (map of_nat [0..<unat n])) (\<lambda>ks.
     Ok \<lparr> kr_bls = map fst ks, kr_vrf = map snd ks \<rparr>)"

definition kr_bls_pubkey :: "'x crypto_lib \<Rightarrow> 'x ValidatorKeyRing \<Rightarrow> nat \<Rightarrow> BlsPubkey" where
  "kr_bls_pubkey L ring i = pk_to_bytes L (blst_sk_to_pk L (kr_bls ring ! i))"

definition kr_vrf_pubkey :: "'x ValidatorKeyRing \<Rightarrow> nat \<Rightarrow> VrfPubkey" where
  "kr_vrf_pubkey ring i = word_of_be (vk_pk_compressed (kr_vrf ring ! i))"

section \<open>Vertex factory\<close>

definition validator_id_for_index :: "u32 \<Rightarrow> ValidatorId" where
  "validator_id_for_index index = word_of_be (be_bytes 4 index @ replicate 28 0)"

definition quorum_vertex_count :: "u32 \<Rightarrow> u32" where
  "quorum_vertex_count n = 2 * (sat_sub n 1 div 3) + 1"

definition sim_vertex_hash :: "'x crypto_lib \<Rightarrow> u64 \<Rightarrow> ValidatorId \<Rightarrow> Hash32" where
  "sim_vertex_hash L rnd author = blake3_with_dst L DST_SIM_VERTEX_HASH (be_bytes 8 rnd @ be_bytes 32 author)"

text \<open>The index \<open>(round + i) % n\<close>; the remainder by zero panics.\<close>

definition rotating_index :: "u64 \<Rightarrow> u32 \<Rightarrow> u32 \<Rightarrow> ('e, u32) outcome" where
  "rotating_index rnd n i = (if n = 0 then Panic ''attempt to calculate the remainder with a divisor of zero''
     else Ok (of_nat (unat (rnd + ucast i) mod unat n)))"

definition signer_indices_for_round :: "u64 \<Rightarrow> u32 \<Rightarrow> u32 \<Rightarrow> ('e, u32 list) outcome" where
  "signer_indices_for_round rnd n quorum = mapM_out (rotating_index rnd n) (map of_nat [0..<unat quorum])"

definition valset_count :: "ValidatorSet \<Rightarrow> ('e, u32) outcome" where
  "valset_count vset = (case u32_try_from (length (vs_entries vset)) of
      Some n \<Rightarrow> Ok n | None \<Rightarrow> Panic ''validator count fits u32'')"

definition build_certified_vertex :: "'x crypto_lib \<Rightarrow> u64 \<Rightarrow> u32 \<Rightarrow> Hash32 option \<Rightarrow> ValidatorSet \<Rightarrow> 'x ValidatorKeyRing \<Rightarrow>
    (Error, CertifiedVertex) outcome" where
  "build_certified_vertex L virtual_round proposer_index parent_hash vset ring = (let
     author = validator_id_for_index proposer_index;
     vertex = \<lparr> v_round = virtual_round, v_author = author,
       v_parents = (case parent_hash of None \<Rightarrow> [] | Some h \<Rightarrow> [h]), v_blobs = [], v_hash = 0 \<rparr>
   in bind_out (valset_count vset) (\<lambda>n.
      bind_out (signer_indices_for_round virtual_round n (quorum_vertex_count n)) (\<lambda>indices.
      case build_quorum_cert_with L vertex vset indices (\<lambda>idx.
          if unat idx < length (kr_bls ring) then Ok (kr_bls ring ! unat idx) else Panic ''index out of bounds'') of
        Ok cv \<Rightarrow> Ok (cv\<lparr>cv_vertex := (cv_vertex cv)\<lparr>v_hash := sim_vertex_hash L virtual_round author\<rparr>\<rparr>)
      | Err _ \<Rightarrow> Panic ''sim quorum cert must build''
      | Panic m \<Rightarrow> Panic m)))"

definition build_quorum_vertices_for_round :: "'x crypto_lib \<Rightarrow> u64 \<Rightarrow> ValidatorSet \<Rightarrow> Hash32 option \<Rightarrow> 'x ValidatorKeyRing \<Rightarrow>
    (Error, CertifiedVertex list) outcome" where
  "build_quorum_vertices_for_round L virtual_round vset parent_hash ring =
     bind_out (valset_count vset) (\<lambda>n.
       mapM_out (\<lambda>i. bind_out (rotating_index virtual_round n i) (\<lambda>proposer.
           build_certified_vertex L virtual_round proposer parent_hash vset ring))
         (map of_nat [0..<unat (quorum_vertex_count n)]))"

end
