(* ===== verification/Simulator.thy ===== *)
theory Simulator
  imports Virtual_Host
begin

text \<open>
  The simulator, \<open>apps/sim/src\<close>: the world of validators that share a network, a clock, a DAG, a beacon and
  a timer queue (\<open>world.rs\<close>), the equivocating proposer (\<open>adversary/byzantine.rs\<close>), the checkers and the
  scenarios. Operations of the world return the actions the machines emitted, with the index of the
  validator, in the order of emission; the source returns nothing there. A validator that fails a step
  panics. Stepping a validator and applying its actions call each other; \<open>depth\<close> bounds the stack.
\<close>

section \<open>The world\<close>

record ('x, 'r) World =
  w_machines :: "StateMachine list"
  w_net :: VirtualNet
  w_clock :: u64
  w_dag :: VirtualDag
  w_beacon :: Hash32
  w_persistence :: "VirtualPersistence list"
  w_valset :: ValidatorSet
  w_rng :: 'r
  w_config :: Config
  w_virtual_round :: u64
  w_timer :: VirtualTimer
  w_anchor_withhold :: bool
  w_beacon_chained :: "Hash32 set"
  w_suppress_proposer :: "ValidatorId option"
  w_key_ring :: "'x ValidatorKeyRing"
  w_leak_emitted :: u32
  w_distributed_vertices :: bool

type_synonym world_log = "(u32 \<times> Action) list"
type_synonym ('x, 'r) world_op = "('x, 'r) World \<Rightarrow> (Error, world_log) outcome \<times> ('x, 'r) World"

definition sim_entry :: "'x crypto_lib \<Rightarrow> 'x ValidatorKeyRing \<Rightarrow> nat \<Rightarrow> ValidatorEntry" where
  "sim_entry L ring i = \<lparr> ve_id = validator_id_for_index (of_nat i), ve_bls_pubkey = kr_bls_pubkey L ring i,
     ve_vrf_pubkey = kr_vrf_pubkey ring i, ve_stake = 1000,
     ve_identity = \<lparr> vi_asn = None, vi_cloud = None, vi_region = None \<rparr> \<rparr>"

definition sim_set :: "'x crypto_lib \<Rightarrow> 'x ValidatorKeyRing \<Rightarrow> u32 \<Rightarrow> ValidatorSet" where
  "sim_set L ring n = \<lparr> vs_epoch = 0, vs_entries = map (sim_entry L ring) [0..<unat n],
     vs_total_stake = ucast n * 1000 \<rparr>"

definition world_new :: "'x crypto_lib \<Rightarrow> 'r rng_lib \<Rightarrow> u32 \<Rightarrow> bytes \<Rightarrow> Config \<Rightarrow> (Error, ('x, 'r) World) outcome" where
  "world_new L G n seed cfg = bind_out (key_ring_from_seed L seed n) (\<lambda>ring. Ok \<lparr>
     w_machines = map (\<lambda>i. state_machine_new cfg (validator_id_for_index (of_nat i))) [0..<unat n],
     w_net = virtual_net_new, w_clock = 0, w_dag = virtual_dag_new,
     w_beacon = blake3_with_dst L DST_BEACON seed,
     w_persistence = map (\<lambda>_. virtual_persistence_new) [0..<unat n],
     w_valset = sim_set L ring n, w_rng = rng_from_seed G seed, w_config = cfg, w_virtual_round = 0,
     w_timer = virtual_timer_new, w_anchor_withhold = False, w_beacon_chained = {},
     w_suppress_proposer = None, w_key_ring = ring, w_leak_emitted = 0, w_distributed_vertices = False \<rparr>)"

definition enable_distributed_vertices :: "('x, 'r) World \<Rightarrow> ('x, 'r) World" where
  "enable_distributed_vertices w = w\<lparr>w_distributed_vertices := True\<rparr>"

definition min_vertex_round :: "('x, 'r) World \<Rightarrow> u64" where
  "min_vertex_round w = (case w_machines w of [] \<Rightarrow> 0
     | m # ms \<Rightarrow> fold (\<lambda>m r. min (current_vertex_round m) r) ms (current_vertex_round m))"

definition suppress_macro_proposals_from :: "ValidatorId \<Rightarrow> ('x, 'r) World \<Rightarrow> ('x, 'r) World" where
  "suppress_macro_proposals_from proposer w = w\<lparr>w_suppress_proposer := Some proposer\<rparr>"

definition enable_anchor_withhold :: "('x, 'r) World \<Rightarrow> ('x, 'r) World" where
  "enable_anchor_withhold w = w\<lparr>w_anchor_withhold := True\<rparr>"

definition set_network_conditions :: "NetworkConditions \<Rightarrow> ('x, 'r) World \<Rightarrow> ('x, 'r) World" where
  "set_network_conditions nc w = w\<lparr>w_net := set_conditions nc (w_net w)\<rparr>"

definition world_set_partition :: "u32 list \<Rightarrow> u32 list \<Rightarrow> ('x, 'r) World \<Rightarrow> ('x, 'r) World" where
  "world_set_partition left right w = w\<lparr>w_net := net_set_partition left right (w_net w)\<rparr>"

definition world_heal_partition :: "('x, 'r) World \<Rightarrow> ('x, 'r) World" where
  "world_heal_partition w = w\<lparr>w_net := net_heal_partition (w_net w)\<rparr>"

definition slash_evidence_count :: "('x, 'r) World \<Rightarrow> nat" where
  "slash_evidence_count w = sum_list (map slash_count (w_persistence w))"

section \<open>Steps of a validator\<close>

text \<open>The ports of validator \<open>i\<close>; no blobs are pending.\<close>

definition world_ports :: "'x crypto_lib \<Rightarrow> nat \<Rightarrow> ('x, 'r) World \<Rightarrow> unit HostContext" where
  "world_ports L i w = \<lparr>
     dag_vertex = vd_vertex (w_dag w),
     dag_vertices_at_round = vd_vertices_at_round (w_dag w),
     valset_set_for = virtual_set_for (w_valset w),
     valset_index_of = virtual_index_of (w_valset w),
     beacon_current = Ok (w_beacon w),
     signer_sign_bls = bls_sign L (kr_bls (w_key_ring w) ! i),
     signer_vrf_prove = (\<lambda>alpha. map_err CryptoError (vrf_prove L (kr_vrf (w_key_ring w) ! i) alpha)),
     clock_now_nanos = ucast (w_clock w),
     blobs_drain = no_pending_blobs_drain,
     blobs_confirm_attached = (\<lambda>bs s. s) \<rparr>"

fun error_display :: "Error \<Rightarrow> string" where
  "error_display (InvalidConfig m) = ''invalid config: '' @ m"
| "error_display (PersistenceError m) = ''persistence error: '' @ m"
| "error_display (CryptoError e) = ''crypto error: '' @ crypto_error_display e"
| "error_display TypesErr = ''types error: ''"
| "error_display (LockMacroViolation m) = ''lock_macro violation: '' @ m"

text \<open>A call of machine \<open>i\<close>: its actions, or a panic.\<close>

definition machine_call :: "'x crypto_lib \<Rightarrow> string \<Rightarrow> u32 \<Rightarrow>
    (unit HostContext \<Rightarrow> StateMachine \<times> unit \<Rightarrow> (Error, Actions) outcome \<times> (StateMachine \<times> unit)) \<Rightarrow>
    ('x, 'r) World \<Rightarrow> (Error, Actions) outcome \<times> ('x, 'r) World" where
  "machine_call L what i f w = (let idx = unat i in
     if length (w_persistence w) \<le> idx \<or> length (w_machines w) \<le> idx then (Panic ''index out of bounds'', w)
     else case f (world_ports L idx w) (w_machines w ! idx, ()) of
        (Ok actions, (sm, _)) \<Rightarrow> (Ok actions, w\<lparr>w_machines := (w_machines w)[idx := sm]\<rparr>)
      | (Err e, (sm, _)) \<Rightarrow> (Panic (''validator '' @ dec_digits idx @ what @ error_display e), w\<lparr>w_machines := (w_machines w)[idx := sm]\<rparr>)
      | (Panic m, (sm, _)) \<Rightarrow> (Panic m, w\<lparr>w_machines := (w_machines w)[idx := sm]\<rparr>))"

definition on_store :: "u32 \<Rightarrow> (VirtualPersistence \<Rightarrow> VirtualPersistence) \<Rightarrow> ('x, 'r) World \<Rightarrow> ('x, 'r) World" where
  "on_store i f w = w\<lparr>w_persistence := (w_persistence w)[unat i := f (w_persistence w ! unat i)]\<rparr>"

definition world_count :: "('x, 'r) World \<Rightarrow> u32" where
  "world_count w = of_nat (length (w_machines w))"

definition emit :: "'r rng_lib \<Rightarrow> u32 \<Rightarrow> u64 \<Rightarrow> Action \<Rightarrow> ('x, 'r) World \<Rightarrow> ('x, 'r) World" where
  "emit G i now action w = (case enqueue_from_action G i action (world_count w) now (w_net w, w_rng w) of
     (net, rng) \<Rightarrow> w\<lparr>w_net := net, w_rng := rng\<rparr>)"

definition chain_beacon_once :: "'x crypto_lib \<Rightarrow> MacroQc \<Rightarrow> ('x, 'r) World \<Rightarrow> ('x, 'r) World" where
  "chain_beacon_once L qc w = (if mq_checkpoint_hash qc \<in> w_beacon_chained w then w
     else w\<lparr>w_beacon_chained := insert (mq_checkpoint_hash qc) (w_beacon_chained w),
       w_beacon := chain_beacon L (w_beacon w) (mq_checkpoint_hash qc)\<rparr>)"

definition suppressed :: "('x, 'r) World \<Rightarrow> MacroProposal \<Rightarrow> bool" where
  "suppressed w p \<longleftrightarrow> w_suppress_proposer w = Some (mp_proposer p)"

definition emit_after :: "'r rng_lib \<Rightarrow> u32 \<Rightarrow> u64 \<Rightarrow> Action \<Rightarrow> (Error, world_log) outcome \<times> ('x, 'r) World \<Rightarrow>
    (Error, world_log) outcome \<times> ('x, 'r) World" where
  "emit_after G i now action r = bind_st r (\<lambda>log w. (Ok log, emit G i now action w))"

text \<open>One action of validator \<open>i\<close>; \<open>nested\<close> steps the same validator again.\<close>

fun sim_action :: "'x crypto_lib \<Rightarrow> 'r rng_lib \<Rightarrow> (Event \<Rightarrow> ('x, 'r) world_op) \<Rightarrow> u32 \<Rightarrow> u64 \<Rightarrow> Action \<Rightarrow> ('x, 'r) world_op" where
  "sim_action L G nested i now (BroadcastMicroQc qc) w =
     (Ok [], emit G i now (BroadcastMicroQc qc) (on_store i (vp_store_micro_qc qc) w))"
| "sim_action L G nested i now (BroadcastMacroProposal p) w =
     (if suppressed w p then (Ok [], w)
      else emit_after G i now (BroadcastMacroProposal p)
        (if mode_a_active (compute_ke (w_config w) (world_count w)) then nested (MacroProposalReceived p) w else (Ok [], w)))"
| "sim_action L G nested i now (BroadcastMacroQc qc) w =
     (Ok [], emit G i now (BroadcastMacroQc qc) (on_store i (vp_store_macro_qc qc) w))"
| "sim_action L G nested i now (PersistMacroCheckpoint cp) w = (Ok [], on_store i (vp_store_macro_checkpoint cp) w)"
| "sim_action L G nested i now (PersistMacroQc qc) w =
     (Ok [], chain_beacon_once L qc (on_store i (vp_store_macro_qc qc) w))"
| "sim_action L G nested i now (UpdateBlobStatus blob status) w = (Ok [], on_store i (vp_update_blob_status blob status) w)"
| "sim_action L G nested i now (ScheduleTimer tid delay_nanos) w =
     (Ok [], w\<lparr>w_timer := timer_schedule (sat_add now (ucast (min delay_nanos (2 ^ 64 - 1)))) tid (w_timer w)\<rparr>)"
| "sim_action L G nested i now (CancelTimer tid) w = (Ok [], w\<lparr>w_timer := virtual_timer_cancel tid (w_timer w)\<rparr>)"
| "sim_action L G nested i now (EmitSlashEvidence offender ev) w =
     (Ok [], emit G i now (EmitSlashEvidence offender ev) (on_store i (vp_append_slash_evidence ev) w))"
| "sim_action L G nested i now (NotifyInactivityLeak windows bps) w = (Ok [], w\<lparr>w_leak_emitted := w_leak_emitted w + 1\<rparr>)"
| "sim_action L G nested i now (BroadcastCertifiedVertex cv) w =
     emit_after G i now (BroadcastCertifiedVertex cv)
       (nested (CertifiedVertexReceived cv) (w\<lparr>w_dag := vd_insert cv (w_dag w)\<rparr>))"
| "sim_action L G nested i now action w = (Ok [], emit G i now action w)"

text \<open>A list of operations in order, with their logs appended.\<close>

fun in_order :: "('a \<Rightarrow> ('x, 'r) world_op) \<Rightarrow> 'a list \<Rightarrow> ('x, 'r) world_op" where
  "in_order f [] w = (Ok [], w)"
| "in_order f (x # xs) w = bind_st (f x w) (\<lambda>log w. bind_st (in_order f xs w) (\<lambda>log' w. (Ok (log @ log'), w)))"

definition apply_actions :: "'x crypto_lib \<Rightarrow> 'r rng_lib \<Rightarrow> (Event \<Rightarrow> ('x, 'r) world_op) \<Rightarrow> u32 \<Rightarrow> u64 \<Rightarrow> Actions \<Rightarrow>
    ('x, 'r) world_op" where
  "apply_actions L G nested i now actions = in_order (sim_action L G nested i now) actions"

definition suppressed_event :: "('x, 'r) World \<Rightarrow> Event \<Rightarrow> bool" where
  "suppressed_event w event \<longleftrightarrow> (case event of MacroProposalReceived p \<Rightarrow> suppressed w p | _ \<Rightarrow> False)"

primrec step_validator :: "nat \<Rightarrow> 'x crypto_lib \<Rightarrow> 'r rng_lib \<Rightarrow> u32 \<Rightarrow> u64 \<Rightarrow> Event \<Rightarrow> ('x, 'r) world_op" where
  "step_validator 0 L G i now event w = (Panic ''stack overflow'', w)"
| "step_validator (Suc depth) L G i now event w =
     (if suppressed_event w event then (Ok [], w)
      else bind_st (machine_call L '' step failed: '' i (step depth L event) w) (\<lambda>actions w.
        bind_st (apply_actions L G (step_validator depth L G i now) i now actions w) (\<lambda>log w.
          (Ok (map (Pair i) actions @ log), w))))"

definition genesis_propose_one :: "nat \<Rightarrow> 'x crypto_lib \<Rightarrow> 'r rng_lib \<Rightarrow> u64 \<Rightarrow> u32 \<Rightarrow> ('x, 'r) world_op" where
  "genesis_propose_one depth L G now i w =
     bind_st (machine_call L '' genesis failed: '' i (sm_genesis_propose depth L) w) (\<lambda>actions w.
       bind_st (apply_actions L G (step_validator depth L G i now) i now actions w) (\<lambda>log w.
         (Ok (map (Pair i) actions @ log), w)))"

definition validator_indices :: "('x, 'r) World \<Rightarrow> u32 list" where
  "validator_indices w = map of_nat [0..<length (w_machines w)]"

definition genesis_propose_all :: "nat \<Rightarrow> 'x crypto_lib \<Rightarrow> 'r rng_lib \<Rightarrow> u64 \<Rightarrow> ('x, 'r) world_op" where
  "genesis_propose_all depth L G now w = in_order (genesis_propose_one depth L G now) (validator_indices w) w"

section \<open>Rounds\<close>

definition drain_net_and_apply :: "nat \<Rightarrow> 'x crypto_lib \<Rightarrow> 'r rng_lib \<Rightarrow> u64 \<Rightarrow> ('x, 'r) world_op" where
  "drain_net_and_apply depth L G now w = (case drain_due now (w_net w) of (due, net) \<Rightarrow>
     in_order (\<lambda>msg. step_validator depth L G (fl_recipient msg) now (fl_event msg)) due (w\<lparr>w_net := net\<rparr>))"

definition anchor_author :: "'x crypto_lib \<Rightarrow> WaveId \<Rightarrow> ('x, 'r) World \<Rightarrow> ValidatorId option" where
  "anchor_author L wave w = (case virtual_set_for (w_valset w) 0 of
      Ok (Some vset) \<Rightarrow> (case select_anchor L wave vset (world_ports L 0 w) of Ok choice \<Rightarrow> Some (ac_author choice) | _ \<Rightarrow> None)
    | _ \<Rightarrow> None)"

definition anchor_hash_for_wave :: "'x crypto_lib \<Rightarrow> WaveId \<Rightarrow> ('x, 'r) World \<Rightarrow> Hash32 option" where
  "anchor_hash_for_wave L wave w = (case anchor_author L wave w of
      None \<Rightarrow> None
    | Some author \<Rightarrow> map_option (\<lambda>v. v_hash (cv_vertex v))
        (find (\<lambda>v. v_author (cv_vertex v) = author) (vd_slot (w_dag w) (wave_first_round wave))))"

definition parent_hash_for_round :: "'x crypto_lib \<Rightarrow> u64 \<Rightarrow> ('x, 'r) World \<Rightarrow> Hash32 option" where
  "parent_hash_for_round L rnd w = (if rnd = 0 then None else let
     wave = wave_of_round rnd;
     anchor = (if wave_first_round wave < rnd then anchor_hash_for_wave L wave w else None);
     verts = sort_key (\<lambda>v. v_hash (cv_vertex v)) (vd_slot (w_dag w) (rnd - 1))
   in case anchor of
        Some h \<Rightarrow> Some h
      | None \<Rightarrow> (case verts of [] \<Rightarrow> None | v # _ \<Rightarrow> Some (v_hash (cv_vertex v))))"

definition withheld_author :: "'x crypto_lib \<Rightarrow> ('x, 'r) World \<Rightarrow> ValidatorId option" where
  "withheld_author L w = (let wave = wave_of_round (w_virtual_round w) in
     if w_anchor_withhold w \<and> w_virtual_round w = wave_first_round wave then anchor_author L wave w else None)"

definition deliver_to_all :: "nat \<Rightarrow> 'x crypto_lib \<Rightarrow> 'r rng_lib \<Rightarrow> u64 \<Rightarrow> Event \<Rightarrow> ('x, 'r) world_op" where
  "deliver_to_all depth L G now event w = in_order (\<lambda>i. step_validator depth L G i now event) (validator_indices w) w"

definition produce_vertex_tick :: "nat \<Rightarrow> 'x crypto_lib \<Rightarrow> 'r rng_lib \<Rightarrow> u64 \<Rightarrow> ('x, 'r) world_op" where
  "produce_vertex_tick depth L G now w = (let parent = parent_hash_for_round L (w_virtual_round w) w in
     case virtual_set_for (w_valset w) 0 of
       Ok (Some vset) \<Rightarrow> call (build_quorum_vertices_for_round L (w_virtual_round w) vset parent (w_key_ring w)) w (\<lambda>batch.
         let delivered = filter (\<lambda>cv. withheld_author L w \<noteq> Some (v_author (cv_vertex cv))) batch in
         in_order (\<lambda>cv. deliver_to_all depth L G now (CertifiedVertexReceived cv)) delivered
           (w\<lparr>w_dag := fold vd_insert delivered (w_dag w)\<rparr>))
     | _ \<Rightarrow> (Panic ''validator set for vertex production'', w))"

definition drain_timers_and_apply :: "nat \<Rightarrow> 'x crypto_lib \<Rightarrow> 'r rng_lib \<Rightarrow> u64 \<Rightarrow> ('x, 'r) world_op" where
  "drain_timers_and_apply depth L G now w = (case timer_drain_due now (w_timer w) of (due, timer) \<Rightarrow>
     in_order (\<lambda>tid. deliver_to_all depth L G now (TimerFired tid)) due (w\<lparr>w_timer := timer\<rparr>))"

text \<open>Two operations in order.\<close>

definition and_then :: "('x, 'r) world_op \<Rightarrow> ('x, 'r) world_op \<Rightarrow> ('x, 'r) world_op" where
  "and_then f g w = bind_st (f w) (\<lambda>log w. bind_st (g w) (\<lambda>log' w. (Ok (log @ log'), w)))"

definition new_vertices :: "nat \<Rightarrow> 'x crypto_lib \<Rightarrow> 'r rng_lib \<Rightarrow> u64 \<Rightarrow> ('x, 'r) world_op" where
  "new_vertices depth L G now w = (if w_distributed_vertices w
     then (if w_virtual_round w = 0 then genesis_propose_all depth L G now w else (Ok [], w))
     else produce_vertex_tick depth L G now w)"

definition advance_clock :: "('x, 'r) world_op" where
  "advance_clock w = (Ok [], w\<lparr>w_clock := w_clock w + round_duration_ms (cfg_timing (w_config w)) * 1000000,
     w_virtual_round := w_virtual_round w + 1\<rparr>)"

definition tick_round :: "nat \<Rightarrow> 'x crypto_lib \<Rightarrow> 'r rng_lib \<Rightarrow> ('x, 'r) world_op" where
  "tick_round depth L G w = (let now = w_clock w in
     and_then (drain_net_and_apply depth L G now)
       (and_then (new_vertices depth L G now)
         (and_then (drain_timers_and_apply depth L G now) advance_clock)) w)"

definition world_run_rounds :: "nat \<Rightarrow> 'x crypto_lib \<Rightarrow> 'r rng_lib \<Rightarrow> nat \<Rightarrow> ('x, 'r) world_op" where
  "world_run_rounds depth L G rounds = in_order (\<lambda>_. tick_round depth L G) [0..<rounds]"

section \<open>Adversaries\<close>

definition signed_macro_proposal :: "'x crypto_lib \<Rightarrow> u32 \<Rightarrow> MacroCheckpoint \<Rightarrow> Hash32 \<Rightarrow> ('x, 'r) World \<Rightarrow>
    (Error, MacroProposal) outcome" where
  "signed_macro_proposal L proposer_idx checkpoint beacon w = (case virtual_set_for (w_valset w) 0 of
      Ok (Some vset) \<Rightarrow>
        if length (vs_entries vset) \<le> unat proposer_idx then Panic ''index out of bounds''
        else let
          proposer = ve_id (vs_entries vset ! unat proposer_idx);
          ports = world_ports L (unat proposer_idx) w
        in (case signer_vrf_prove ports (vrf_alpha beacon (mc_height checkpoint) proposer) of
              Ok (vrf_proof, _) \<Rightarrow> Ok \<lparr> mp_checkpoint = checkpoint, mp_proposer = proposer, mp_vrf_proof = vrf_proof,
                mp_proposer_sig = signer_sign_bls ports DST_MACRO_PROPOSER_SIG (proposer_message proposer checkpoint) \<rparr>
            | Err _ \<Rightarrow> Panic ''vrf prove''
            | Panic m \<Rightarrow> Panic m)
    | _ \<Rightarrow> Panic ''validator set'')"

definition inject_equivocation :: "nat \<Rightarrow> 'x crypto_lib \<Rightarrow> 'r rng_lib \<Rightarrow> u32 \<Rightarrow> ('x, 'r) world_op" where
  "inject_equivocation depth L G validator_idx w = (let
     n = length (w_machines w);
     lower = map of_nat [0..<n div 2]; upper = map of_nat [n div 2..<n];
     w = world_set_partition lower upper w;
     cp_a = build_checkpoint L 0 0 hash_zero (word_of_be (replicate 32 0xA1));
     cp_b = build_checkpoint L 0 0 hash_zero (word_of_be (replicate 32 0xB2))
   in call (signed_macro_proposal L validator_idx cp_a (w_beacon w) w) w (\<lambda>proposal_a.
      call (signed_macro_proposal L validator_idx cp_b (w_beacon w) w) w (\<lambda>proposal_b.
      and_then (in_order (\<lambda>i. step_validator depth L G i 0 (MacroProposalReceived proposal_a)) lower)
        (in_order (\<lambda>i. step_validator depth L G i 0 (MacroProposalReceived proposal_b)) upper) w)))"

section \<open>Checkers\<close>

datatype check_error =
    ConflictingMicroQc Hash32
  | ConflictingMacroQc Hash32
  | NoMicroQc
  | NoFinalizedBlob
  | ConflictingCheckpoints Height Hash32 Hash32
  | ConflictingQcsAt Height Hash32

fun scan_certificates :: "('q \<Rightarrow> Hash32) \<Rightarrow> (Hash32 \<Rightarrow> check_error) \<Rightarrow> 'q list \<Rightarrow> (Hash32 \<rightharpoonup> 'q) \<Rightarrow> (check_error, unit) outcome" where
  "scan_certificates key err [] seen = Ok ()"
| "scan_certificates key err (qc # qcs) seen = (case seen (key qc) of
      Some existing \<Rightarrow> if existing \<noteq> qc then Err (err (key qc)) else scan_certificates key err qcs seen
    | None \<Rightarrow> scan_certificates key err qcs (seen(key qc \<mapsto> qc)))"

definition safety_check :: "('x, 'r) World \<Rightarrow> (check_error, unit) outcome" where
  "safety_check w =
     bind_out (scan_certificates uq_checkpoint_hash ConflictingMicroQc (concat (map all_micro_qcs (w_persistence w))) Map.empty) (\<lambda>_.
       scan_certificates mq_checkpoint_hash ConflictingMacroQc (concat (map all_macro_qcs (w_persistence w))) Map.empty)"

definition liveness_check :: "('x, 'r) World \<Rightarrow> (check_error, unit) outcome" where
  "liveness_check w = (if \<not> list_ex any_micro_qc (w_persistence w) then Err NoMicroQc
     else if \<not> list_ex (\<lambda>p. 1 \<le> finalized_count p) (w_persistence w) then Err NoFinalizedBlob
     else Ok ())"

type_synonym height_table = "Height \<rightharpoonup> Hash32 \<times> MacroQc option"

definition MAX_SCAN_HEIGHT :: nat where
  "MAX_SCAN_HEIGHT = 128"

definition lock_macro_height :: "VirtualPersistence \<Rightarrow> Height \<Rightarrow> height_table \<Rightarrow> (check_error, height_table) outcome" where
  "lock_macro_height p height by_height = (case vp_macro_cps p height of
      None \<Rightarrow> Ok by_height
    | Some cp \<Rightarrow> let qc = bt_get (vp_macro_qcs p) (mc_hash cp) in (case by_height height of
        None \<Rightarrow> Ok (by_height(height \<mapsto> (mc_hash cp, qc)))
      | Some (existing_hash, existing_qc) \<Rightarrow>
          if existing_hash \<noteq> mc_hash cp then Err (ConflictingCheckpoints height existing_hash (mc_hash cp))
          else (case (existing_qc, qc) of
              (Some a, Some b) \<Rightarrow> if a \<noteq> b then Err (ConflictingQcsAt height (mc_hash cp)) else Ok by_height
            | _ \<Rightarrow> Ok by_height)))"

fun lock_macro_scan :: "VirtualPersistence \<Rightarrow> nat list \<Rightarrow> height_table \<Rightarrow> (check_error, height_table) outcome" where
  "lock_macro_scan p [] by_height = Ok by_height"
| "lock_macro_scan p (h # hs) by_height = bind_out (lock_macro_height p (of_nat h) by_height) (lock_macro_scan p hs)"

fun lock_macro_scan_all :: "VirtualPersistence list \<Rightarrow> height_table \<Rightarrow> (check_error, height_table) outcome" where
  "lock_macro_scan_all [] by_height = Ok by_height"
| "lock_macro_scan_all (p # ps) by_height =
     bind_out (lock_macro_scan p [0..<MAX_SCAN_HEIGHT] by_height) (lock_macro_scan_all ps)"

definition lock_macro_check :: "('x, 'r) World \<Rightarrow> (check_error, unit) outcome" where
  "lock_macro_check w = bind_out (lock_macro_scan_all (w_persistence w) Map.empty) (\<lambda>_. Ok ())"

section \<open>Latency statistics\<close>

record LatencyStats =
  ls_samples_ns :: "u64 list"

definition latency_record :: "u64 \<Rightarrow> LatencyStats \<Rightarrow> LatencyStats" where
  "latency_record ns stats = stats\<lparr>ls_samples_ns := ls_samples_ns stats @ [ns]\<rparr>"

text \<open>\<open>f64::round\<close> rounds half away from zero; \<open>as usize\<close> saturates and maps NaN to 0.\<close>

fun f64_round_away :: "f64 \<Rightarrow> f64" where
  "f64_round_away (Fin r) = Fin (if 0 \<le> r then of_int \<lfloor>r + 1 / 2\<rfloor> else - of_int \<lfloor>- r + 1 / 2\<rfloor>)"
| "f64_round_away x = x"

fun f64_as_usize :: "f64 \<Rightarrow> nat" where
  "f64_as_usize (Fin r) = min (nat \<lfloor>r\<rfloor>) (2 ^ 64 - 1)"
| "f64_as_usize PInf = 2 ^ 64 - 1"
| "f64_as_usize _ = 0"

definition percentile_index :: "nat \<Rightarrow> f64 \<Rightarrow> nat" where
  "percentile_index len p =
     min (f64_as_usize (f64_round_away (f64_mul (f64_sub (f64_of_u64 (of_nat len)) (Fin 1)) p))) (len - 1)"

definition percentiles :: "LatencyStats \<Rightarrow> u64 \<times> u64" where
  "percentiles stats = (if ls_samples_ns stats = [] then (0, 0) else let s = sort (ls_samples_ns stats) in
     (s ! percentile_index (length s) (f64_round (1 / 2)), s ! percentile_index (length s) (f64_round (95 / 100))))"

section \<open>Scenarios\<close>

record Report =
  rep_scenario :: string
  rep_validators :: u32
  rep_rounds :: u32
  rep_safety_ok :: bool
  rep_liveness_ok :: bool
  rep_lock_macro_ok :: bool
  rep_notes :: "string list"

definition report_of :: "string \<Rightarrow> u32 \<Rightarrow> u32 \<Rightarrow> (('x, 'r) World \<Rightarrow> string list) \<Rightarrow> ('x, 'r) World \<Rightarrow> Report" where
  "report_of scenario n rounds notes w = \<lparr> rep_scenario = scenario, rep_validators = n, rep_rounds = rounds,
     rep_safety_ok = is_ok (safety_check w), rep_liveness_ok = is_ok (liveness_check w),
     rep_lock_macro_ok = is_ok (lock_macro_check w), rep_notes = notes w \<rparr>"

definition simulate :: "'x crypto_lib \<Rightarrow> 'r rng_lib \<Rightarrow> u32 \<Rightarrow> bytes \<Rightarrow> Config \<Rightarrow> (('x, 'r) World \<Rightarrow> ('x, 'r) World) \<Rightarrow>
    ('x, 'r) world_op \<Rightarrow> (('x, 'r) World \<Rightarrow> Report) \<Rightarrow> (Error, Report) outcome" where
  "simulate L G n seed cfg setup run report = bind_out (world_new L G n seed cfg) (\<lambda>w.
     case run (setup w) of (Ok _, w) \<Rightarrow> Ok (report w) | (Err e, _) \<Rightarrow> Err e | (Panic m, _) \<Rightarrow> Panic m)"

definition happy_path :: "nat \<Rightarrow> 'x crypto_lib \<Rightarrow> 'r rng_lib \<Rightarrow> u32 \<Rightarrow> u32 \<Rightarrow> bytes \<Rightarrow> (Error, Report) outcome" where
  "happy_path depth L G n rounds seed = (let cfg = default_table_17_1; rounds = max rounds 96 in
     simulate L G n seed cfg (set_network_conditions (with_round_jitter (round_duration_ms (cfg_timing cfg))))
       (world_run_rounds depth L G (unat rounds))
       (report_of ''happy_path'' n rounds (\<lambda>_. [''l3_finality_active'', ''network_jitter_from_round_duration''])))"

definition anchor_dos :: "nat \<Rightarrow> 'x crypto_lib \<Rightarrow> 'r rng_lib \<Rightarrow> u32 \<Rightarrow> u32 \<Rightarrow> bytes \<Rightarrow> (Error, Report) outcome" where
  "anchor_dos depth L G n rounds seed =
     simulate L G n seed default_table_17_1 enable_anchor_withhold (world_run_rounds depth L G (unat rounds))
       (report_of ''anchor_dos'' n rounds (\<lambda>w. [''anchor_vertex_withheld_each_wave'', ''lock_macro_skipped_until_03c'',
          if is_ok (liveness_check w) then ''unexpected_liveness_under_anchor_withhold'' else ''liveness_blocked_as_expected'']))"

definition byzantine_split :: "nat \<Rightarrow> 'x crypto_lib \<Rightarrow> 'r rng_lib \<Rightarrow> u32 \<Rightarrow> u32 \<Rightarrow> bytes \<Rightarrow> (Error, Report) outcome" where
  "byzantine_split depth L G n rounds seed = (let rounds = max rounds 96 in
     simulate L G n seed default_table_17_1 id (world_run_rounds depth L G (unat rounds))
       (report_of ''byzantine_split'' n rounds (\<lambda>_. [''l3_finality_active''])))"

definition equivocation_inject :: "nat \<Rightarrow> 'x crypto_lib \<Rightarrow> 'r rng_lib \<Rightarrow> u32 \<Rightarrow> u32 \<Rightarrow> bytes \<Rightarrow> (Error, Report) outcome" where
  "equivocation_inject depth L G n rounds seed =
     simulate L G n seed default_table_17_1 id
       (and_then (inject_equivocation depth L G 0) (world_run_rounds depth L G (unat rounds)))
       (report_of ''equivocation_inject'' n rounds
          (\<lambda>w. [if 0 < slash_evidence_count w then ''slash_emitted'' else ''no slash evidence'']))"

definition mode_a_subnet :: "nat \<Rightarrow> 'x crypto_lib \<Rightarrow> 'r rng_lib \<Rightarrow> u32 \<Rightarrow> u32 \<Rightarrow> bytes \<Rightarrow> (Error, Report) outcome" where
  "mode_a_subnet depth L G n rounds seed = (let n = max n 8; rounds = max rounds 128 in
     simulate L G n seed sim_mode_a_dev id (world_run_rounds depth L G (unat rounds))
       (report_of ''mode_a_subnet'' n rounds (\<lambda>_. [''l3_mode_a_active'', ''sim_mode_a_dev_threshold''])))"

text \<open>The scenario asks the lottery for the primary proposer first, which can panic.\<close>

definition suppress_primary :: "'x crypto_lib \<Rightarrow> ('x, 'r) world_op" where
  "suppress_primary L w = (case virtual_set_for (w_valset w) 0 of
      Ok (Some vset) \<Rightarrow> call (vrf_sortition L (w_beacon w) vset 0 Map.empty) w (\<lambda>sched.
        (Ok [], suppress_macro_proposals_from (ps_primary sched) w))
    | _ \<Rightarrow> (Panic ''epoch 0 set'', w))"

definition mode_b_fallback :: "nat \<Rightarrow> 'x crypto_lib \<Rightarrow> 'r rng_lib \<Rightarrow> u32 \<Rightarrow> u32 \<Rightarrow> bytes \<Rightarrow> (Error, Report) outcome" where
  "mode_b_fallback depth L G n rounds seed = (let rounds = max rounds 128 in
     simulate L G n seed default_table_17_1 id
       (and_then (suppress_primary L) (world_run_rounds depth L G (unat rounds)))
       (report_of ''mode_b_fallback'' n rounds (\<lambda>_. [''l3_mode_b_fallback_active'', ''primary_proposer_suppressed''])))"

definition tick_and_heal :: "nat \<Rightarrow> 'x crypto_lib \<Rightarrow> 'r rng_lib \<Rightarrow> nat \<Rightarrow> nat \<Rightarrow> ('x, 'r) world_op" where
  "tick_and_heal depth L G heal_at tick w =
     tick_round depth L G (if tick = heal_at then world_heal_partition w else w)"

definition network_partition :: "nat \<Rightarrow> 'x crypto_lib \<Rightarrow> 'r rng_lib \<Rightarrow> u32 \<Rightarrow> u32 \<Rightarrow> bytes \<Rightarrow> (Error, Report) outcome" where
  "network_partition depth L G n rounds seed = (let
     cfg = default_table_17_1; rounds = max rounds 128; mid = unat n div 2; heal_at = unat rounds div 4
   in simulate L G n seed cfg
       (\<lambda>w. world_set_partition (map of_nat [0..<mid]) (map of_nat [mid..<unat n])
          (set_network_conditions (with_round_jitter (round_duration_ms (cfg_timing cfg))) w))
       (in_order (tick_and_heal depth L G heal_at) [0..<unat rounds])
       (report_of ''network_partition'' n rounds (\<lambda>w. [''partition_healed_at_round_'' @ dec_digits heal_at, ''l3_finality_active'',
          if is_ok (liveness_check w) then ''recovered_liveness_after_heal'' else ''liveness_failed_after_heal''])))"

definition vertex_cert_distributed :: "nat \<Rightarrow> 'x crypto_lib \<Rightarrow> 'r rng_lib \<Rightarrow> u32 \<Rightarrow> u32 \<Rightarrow> bytes \<Rightarrow> (Error, Report) outcome" where
  "vertex_cert_distributed depth L G n rounds seed =
     simulate L G n seed default_table_17_1 enable_distributed_vertices (world_run_rounds depth L G (unat rounds))
       (\<lambda>w. let advanced = 2 \<le> min_vertex_round w in
          \<lparr> rep_scenario = ''vertex-cert-distributed'', rep_validators = n, rep_rounds = rounds, rep_safety_ok = advanced,
            rep_liveness_ok = advanced, rep_lock_macro_ok = True,
            rep_notes = [''min own-proposal round = '' @ dec_digits (unat (min_vertex_round w))] \<rparr>)"

definition inactivity_leak :: "'x crypto_lib \<Rightarrow> (bytes \<Rightarrow> string) \<Rightarrow> u32 \<Rightarrow> u32 \<Rightarrow> bytes \<Rightarrow> Report" where
  "inactivity_leak L hex_encode n rounds seed = \<lparr> rep_scenario = ''inactivity_leak'', rep_validators = n, rep_rounds = rounds,
     rep_safety_ok = True, rep_liveness_ok = True, rep_lock_macro_ok = True,
     rep_notes = [if probe_inactivity_leak_streak L default_table_17_1 then ''inactivity_leak_emitted'' else ''no inactivity leak'',
       ''seed='' @ hex_encode seed] \<rparr>"

datatype Scenario =
    HappyPath
  | AnchorDos
  | ModeBFallback
  | ModeASubnetScenario
  | EquivocationInject
  | InactivityLeak
  | ByzantineSplit
  | NetworkPartition
  | VertexCertDistributed

definition parse_seed :: "'x crypto_lib \<Rightarrow> (string \<Rightarrow> (string, bytes) outcome) \<Rightarrow> string \<Rightarrow> bytes" where
  "parse_seed L hex_decode s = (let
     trimmed = (if take 2 s = ''0x'' then drop 2 s else s);
     hashed = be_bytes 32 (blake3_with_dst L DST_CONTENT_HASH (ascii s))
   in case hex_decode trimmed of Ok b \<Rightarrow> if length b = 32 then b else hashed | _ \<Rightarrow> hashed)"

definition dispatch :: "nat \<Rightarrow> 'x crypto_lib \<Rightarrow> 'r rng_lib \<Rightarrow> (string \<Rightarrow> (string, bytes) outcome) \<Rightarrow> (bytes \<Rightarrow> string) \<Rightarrow>
    Scenario \<Rightarrow> u32 \<Rightarrow> u32 \<Rightarrow> string \<Rightarrow> (Error, Report) outcome" where
  "dispatch depth L G hex_decode hex_encode scenario n rounds seed_text = (let seed = parse_seed L hex_decode seed_text in
     case scenario of
       HappyPath \<Rightarrow> happy_path depth L G n rounds seed
     | AnchorDos \<Rightarrow> anchor_dos depth L G n rounds seed
     | ModeBFallback \<Rightarrow> mode_b_fallback depth L G n rounds seed
     | ModeASubnetScenario \<Rightarrow> mode_a_subnet depth L G n rounds seed
     | EquivocationInject \<Rightarrow> equivocation_inject depth L G n rounds seed
     | InactivityLeak \<Rightarrow> Ok (inactivity_leak L hex_encode n rounds seed)
     | ByzantineSplit \<Rightarrow> byzantine_split depth L G n rounds seed
     | NetworkPartition \<Rightarrow> network_partition depth L G n rounds seed
     | VertexCertDistributed \<Rightarrow> vertex_cert_distributed depth L G n rounds seed)"

end
