(* ===== verification/Sim_Facts.thy ===== *)
theory Sim_Facts
  imports Simulator Machine_Facts
begin

text \<open>
  Facts about the simulator: the message bus as an ordered queue, what applied actions leave in the storage
  of a validator, and the invariant of a world.
\<close>

section \<open>The message bus\<close>

definition net_sorted :: "VirtualNet \<Rightarrow> bool" where
  "net_sorted net \<longleftrightarrow> sorted (map fl_deliver_at (vn_pending net))"

text \<open>A queue sorted by time splits at any time into the due messages and the others.\<close>

lemma sorted_split:
  assumes "sorted (map fl_deliver_at ms)"
  shows "takeWhile (\<lambda>x. fl_deliver_at x \<le> d) ms = filter (\<lambda>x. fl_deliver_at x \<le> d) ms"
    "dropWhile (\<lambda>x. fl_deliver_at x \<le> d) ms = filter (\<lambda>x. d < fl_deliver_at x) ms"
proof -
  have "takeWhile (\<lambda>x. fl_deliver_at x \<le> d) ms = filter (\<lambda>x. fl_deliver_at x \<le> d) ms \<and>
      dropWhile (\<lambda>x. fl_deliver_at x \<le> d) ms = filter (\<lambda>x. d < fl_deliver_at x) ms"
    using assms
  proof (induction ms)
    case (Cons a ms)
    then show ?case
    proof (cases "fl_deliver_at a \<le> d")
      case False
      then have "\<forall>x \<in> set ms. d < fl_deliver_at x"
        using Cons.prems by fastforce
      then have "filter (\<lambda>x. d < fl_deliver_at x) ms = ms" "filter (\<lambda>x. fl_deliver_at x \<le> d) ms = []"
        by (auto simp: filter_id_conv filter_empty_conv)
      with False show ?thesis
        by simp
    qed simp
  qed simp
  then show "takeWhile (\<lambda>x. fl_deliver_at x \<le> d) ms = filter (\<lambda>x. fl_deliver_at x \<le> d) ms"
    "dropWhile (\<lambda>x. fl_deliver_at x \<le> d) ms = filter (\<lambda>x. d < fl_deliver_at x) ms"
    by blast+
qed

text \<open>A message is queued behind the messages that are due no later, and before the others.\<close>

lemma enqueue_pending:
  assumes "net_sorted net"
  shows "vn_pending (enqueue m net) = filter (\<lambda>x. fl_deliver_at x \<le> fl_deliver_at m) (vn_pending net) @
    m # filter (\<lambda>x. fl_deliver_at m < fl_deliver_at x) (vn_pending net)"
  using assms unfolding enqueue_def Let_def net_sorted_def takeWhile_eq_take [symmetric] dropWhile_eq_drop [symmetric]
  by (simp add: sorted_split)

lemma enqueue_frame [simp]:
  "vn_conditions (enqueue m net) = vn_conditions net" "vn_partition (enqueue m net) = vn_partition net"
  "vn_conditions (enqueue_opt mo net) = vn_conditions net" "vn_partition (enqueue_opt mo net) = vn_partition net"
  by (simp_all add: enqueue_def enqueue_opt_def Let_def split: option.splits)

lemma sorted_enqueue: "net_sorted net \<Longrightarrow> net_sorted (enqueue m net)"
  by (auto simp: net_sorted_def enqueue_pending sorted_append intro: sorted_filter)

lemma sorted_enqueue_opt: "net_sorted net \<Longrightarrow> net_sorted (enqueue_opt mo net)"
  by (simp add: enqueue_opt_def sorted_enqueue split: option.splits)

lemma sorted_send: "net_sorted (fst st) \<Longrightarrow> net_sorted (fst (send_one G s ev now r st))"
  by (auto simp: send_one_def Let_def sorted_enqueue_opt split: prod.splits)

lemma sorted_enqueue_from_action:
  "net_sorted net \<Longrightarrow> net_sorted (fst (enqueue_from_action G s a n now (net, rng)))"
proof -
  have "net_sorted (fst st) \<Longrightarrow> net_sorted (fst (fold (send_one G s ev now) rs st))" for ev rs st
    by (induction rs arbitrary: st) (simp_all add: sorted_send)
  then show "net_sorted net \<Longrightarrow> ?thesis"
    by (simp add: enqueue_from_action_def split: option.splits)
qed

text \<open>Draining takes exactly the due messages, in the order of the queue.\<close>

lemma drain_due_exact:
  assumes "net_sorted net"
  shows "drain_due now net = (filter (\<lambda>m. fl_deliver_at m \<le> now) (vn_pending net),
    net\<lparr>vn_pending := filter (\<lambda>m. now < fl_deliver_at m) (vn_pending net)\<rparr>)"
proof -
  have "drain_messages now ms out = (out @ takeWhile (\<lambda>m. fl_deliver_at m \<le> now) ms, dropWhile (\<lambda>m. fl_deliver_at m \<le> now) ms)" for ms out
    by (induction now ms out rule: drain_messages.induct) simp_all
  then show ?thesis
    using assms by (simp add: drain_due_def net_sorted_def sorted_split)
qed

lemma sorted_drain: "net_sorted net \<Longrightarrow> net_sorted (snd (drain_due now net))"
  by (simp add: drain_due_exact net_sorted_def sorted_filter)

section \<open>A queue of due items\<close>

text \<open>
  The interface of a queue that is drained by time: an item goes behind the items that are due no later, and
  draining takes the due items from the front.
\<close>

locale due_queue =
  fixes items :: "'q \<Rightarrow> 'a list"
    and due :: "'a \<Rightarrow> u64"
    and push :: "'a \<Rightarrow> 'q \<Rightarrow> 'q"
    and drain :: "u64 \<Rightarrow> 'q \<Rightarrow> 'a list \<times> 'q"
    and invar :: "'q \<Rightarrow> bool"
  assumes invar_sorted: "invar q \<Longrightarrow> sorted (map due (items q))"
    and items_push: "invar q \<Longrightarrow> items (push x q) = filter (\<lambda>y. due y \<le> due x) (items q) @ x # filter (\<lambda>y. due x < due y) (items q)"
    and drained: "invar q \<Longrightarrow> fst (drain t q) = filter (\<lambda>y. due y \<le> t) (items q)"
    and items_drain: "invar q \<Longrightarrow> items (snd (drain t q)) = filter (\<lambda>y. t < due y) (items q)"
    and invar_push: "invar q \<Longrightarrow> invar (push x q)"
    and invar_drain: "invar q \<Longrightarrow> invar (snd (drain t q))"
begin

lemma invar_pushes: "invar q \<Longrightarrow> invar (fold push xs q)"
  by (induction xs arbitrary: q) (simp_all add: invar_push)

text \<open>The queue is a stable sort of what was pushed.\<close>

lemma push_sort: "invar q \<Longrightarrow> items (push x q) = sort_key due (items q @ [x])"
proof -
  assume q: "invar q"
  have "mset (items (push x q)) = mset (items q @ [x])"
    using q multiset_partition [of "mset (items q)" "\<lambda>y. due y \<le> due x"] by (simp add: items_push not_le)
  moreover have "filter (\<lambda>y. due k = due y) (items (push x q)) = filter (\<lambda>y. due k = due y) (items q @ [x])" for k
  proof -
    have "filter (\<lambda>y. due k = due y) (filter (\<lambda>y. due y \<le> d) ys) = (if due k \<le> d then filter (\<lambda>y. due k = due y) ys else [])"
      "filter (\<lambda>y. due k = due y) (filter (\<lambda>y. d < due y) ys) = (if due k \<le> d then [] else filter (\<lambda>y. due k = due y) ys)" for d ys
      by (induction ys) auto
    then show ?thesis
      using q by (auto simp: items_push simp del: filter_filter)
  qed
  ultimately show ?thesis
    using invar_sorted [OF invar_push [OF q]] by (intro properties_for_sort_key [symmetric]) auto
qed

lemma stable: "filter (\<lambda>y. due k = due y) (sort_key due ys) = filter (\<lambda>y. due k = due y) ys"
  using sort_key_stable [of due "due k" ys] by (simp add: eq_commute)

lemma pushes_sort: "invar q \<Longrightarrow> items (fold push xs q) = sort_key due (items q @ xs)"
proof (induction xs arbitrary: q)
  case Nil
  then show ?case
    by (simp add: sort_key_id_if_sorted invar_sorted)
next
  case (Cons x xs)
  have "sort_key due (sort_key due (items q @ [x]) @ xs) = sort_key due ((items q @ [x]) @ xs)"
    by (rule properties_for_sort_key) (simp_all add: stable)
  then show ?case
    using Cons.IH [OF invar_push [OF Cons.prems]] by (simp add: push_sort [OF Cons.prems])
qed

lemma drain_pushes: "invar q \<Longrightarrow> fst (drain t (fold push xs q)) = sort_key due (filter (\<lambda>y. due y \<le> t) (items q @ xs))"
  by (simp add: drained invar_pushes pushes_sort filter_sort)

end

interpretation bus: due_queue vn_pending fl_deliver_at enqueue drain_due net_sorted
proof
  show "net_sorted q \<Longrightarrow> sorted (map fl_deliver_at (vn_pending q))" for q
    by (simp add: net_sorted_def)
  show "net_sorted q \<Longrightarrow> net_sorted (snd (drain_due t q))" for q t
    by (rule sorted_drain)
qed (simp_all add: enqueue_pending drain_due_exact sorted_enqueue)

section \<open>Storage\<close>

definition log_of :: "u32 \<Rightarrow> world_log \<Rightarrow> Actions" where
  "log_of i lg = map snd (filter (\<lambda>x. fst x = i) lg)"

lemma log_of_append [simp]: "log_of i (lg @ lg') = log_of i lg @ log_of i lg'" "log_of i [] = []"
  by (simp_all add: log_of_def)

lemma log_of_own [simp]: "log_of j (map (Pair i) acts) = (if j = i then acts else [])"
  by (simp add: log_of_def filter_map comp_def)

text \<open>What an action does to the storage of the validator that emitted it.\<close>

fun store_effect :: "Action \<Rightarrow> VirtualPersistence \<Rightarrow> VirtualPersistence" where
  "store_effect (BroadcastMicroQc qc) p = vp_store_micro_qc qc p"
| "store_effect (BroadcastMacroQc qc) p = vp_store_macro_qc qc p"
| "store_effect (PersistMacroCheckpoint cp) p = vp_store_macro_checkpoint cp p"
| "store_effect (PersistMacroQc qc) p = vp_store_macro_qc qc p"
| "store_effect (UpdateBlobStatus b s) p = vp_update_blob_status b s p"
| "store_effect (EmitSlashEvidence v ev) p = vp_append_slash_evidence ev p"
| "store_effect _ p = p"

text \<open>
  The storage of a validator that emitted the actions \<open>tr\<close>, of which \<open>ps\<close> are still to be applied: the
  checkpoints of the chain by height and no others, a certificate for each and the final statuses.
\<close>

definition stored_chain :: "Actions \<Rightarrow> Actions \<Rightarrow> VirtualPersistence \<Rightarrow> bool" where
  "stored_chain tr ps p \<longleftrightarrow>
     (\<forall>k < length (adopted tr). adopted tr ! k \<in> set (adopted ps) \<or> vp_macro_cps p (of_nat k) = Some (adopted tr ! k)) \<and>
     (\<forall>h cp. vp_macro_cps p h = Some cp \<longrightarrow> unat h < length (adopted tr) \<and> cp = adopted tr ! unat h)"

definition store_inv :: "Actions \<Rightarrow> Actions \<Rightarrow> VirtualPersistence \<Rightarrow> bool" where
  "store_inv tr ps p \<longleftrightarrow> set (adopted ps) \<subseteq> set (adopted tr) \<and> set (certificates ps) \<subseteq> set (certificates tr) \<and>
     (length (adopted tr) < 2 ^ 64 \<longrightarrow> stored_chain tr ps p) \<and>
     (\<forall>h q. bt_get (vp_macro_qcs p) h = Some q \<longrightarrow> mq_checkpoint_hash q = h) \<and>
     (\<forall>q \<in> set (certificates tr). q \<in> set (certificates ps) \<or> bt_get (vp_macro_qcs p) (mq_checkpoint_hash q) \<noteq> None) \<and>
     (\<forall>b \<in> set (final_blobs tr). b \<in> set (final_blobs ps) \<or> (\<exists>s. bt_get (vp_blob_status p) b = Some s \<and> Finalized \<le> s))"

lemma store_inv_new: "store_inv [] [] virtual_persistence_new"
  by (simp add: store_inv_def stored_chain_def virtual_persistence_new_def)

lemma stored_chain_emit:
  "stored_chain tr ps p \<Longrightarrow> stored_chain (tr @ acts) (acts @ ps) p"
  by (auto simp: stored_chain_def nth_append intro: trans_less_add1)

lemma store_inv_emit: "store_inv tr ps p \<Longrightarrow> store_inv (tr @ acts) (acts @ ps) p"
  by (auto simp: store_inv_def stored_chain_emit)

lemma stored_chain_checkpoint:
  assumes "stored_chain tr (PersistMacroCheckpoint cp # ps) p" "cp \<in> set (adopted tr)" "length (adopted tr) < 2 ^ 64"
    and heights: "\<And>k. k < length (adopted tr) \<Longrightarrow> mc_height (adopted tr ! k) = of_nat k"
  shows "stored_chain tr ps (vp_store_macro_checkpoint cp p)"
proof -
  obtain k where k: "k < length (adopted tr)" "cp = adopted tr ! k"
    using assms(2) by (metis in_set_conv_nth)
  have small: "unat (of_nat j :: Height) = j" if "j < length (adopted tr)" for j
    using that assms(3) by (simp add: unat_of_nat_small)
  have height: "mc_height cp = of_nat k"
    using heights [OF k(1)] k(2) by simp
  have other: "adopted tr ! j \<noteq> cp" "(of_nat j :: Height) \<noteq> of_nat k" if "j < length (adopted tr)" "j \<noteq> k" for j
  proof -
    show "(of_nat j :: Height) \<noteq> of_nat k"
      using small [OF that(1)] small [OF k(1)] that(2) by metis
    then show "adopted tr ! j \<noteq> cp"
      using height heights [OF that(1)] by metis
  qed
  have "adopted tr ! j \<in> set (adopted ps) \<or> vp_macro_cps (vp_store_macro_checkpoint cp p) (of_nat j) = Some (adopted tr ! j)"
    if "j < length (adopted tr)" for j
    using assms(1) that other [OF that] k(2) [symmetric]
    by (cases "j = k") (auto simp: stored_chain_def vp_store_macro_checkpoint_def height)
  moreover have "unat h < length (adopted tr) \<and> c = adopted tr ! unat h"
    if "vp_macro_cps (vp_store_macro_checkpoint cp p) h = Some c" for h c
    using assms(1) that small [OF k(1)] k(1) k(2) [symmetric]
    by (cases "h = of_nat k") (simp_all add: stored_chain_def vp_store_macro_checkpoint_def height)
  ultimately show ?thesis
    unfolding stored_chain_def by blast
qed

text \<open>Storage that only gains certificates and raises statuses keeps the invariant.\<close>

lemma store_inv_grow:
  assumes "store_inv tr ps p" "vp_macro_cps p' = vp_macro_cps p"
    and "\<And>h q. bt_get (vp_macro_qcs p') h = Some q \<Longrightarrow> mq_checkpoint_hash q = h"
    and "\<And>h. bt_get (vp_macro_qcs p) h \<noteq> None \<Longrightarrow> bt_get (vp_macro_qcs p') h \<noteq> None"
    and "\<And>b s. bt_get (vp_blob_status p) b = Some s \<Longrightarrow> \<exists>t. bt_get (vp_blob_status p') b = Some t \<and> s \<le> t"
  shows "store_inv tr ps p'"
proof -
  have "\<exists>t. bt_get (vp_blob_status p') b = Some t \<and> Finalized \<le> t" if "bt_get (vp_blob_status p) b = Some s" "Finalized \<le> s" for b s
    using assms(5) [OF that(1)] that(2) by (meson order_trans)
  then show ?thesis
    using assms(1-4) unfolding store_inv_def stored_chain_def assms(2) by blast
qed

lemma store_inv_quiet: "quiet [a] \<Longrightarrow> store_inv tr (a # ps) p = store_inv tr ps p"
  by (simp add: store_inv_def stored_chain_def)

lemma store_inv_frame [simp]:
  "store_inv tr ps (p\<lparr>vp_micro_qcs := x\<rparr>) = store_inv tr ps p"
  "store_inv tr ps (p\<lparr>vp_slash_log := y\<rparr>) = store_inv tr ps p"
  by (simp_all add: store_inv_def stored_chain_def)

text \<open>Applying the next action.\<close>

lemma store_inv_qc:
  assumes "store_inv tr ps p"
  shows "store_inv tr ps (vp_store_macro_qc qc p)"
  by (rule store_inv_grow [OF assms]) (use assms in \<open>auto simp: vp_store_macro_qc_def store_inv_def split: if_splits\<close>)

lemma update_status:
  "\<exists>t. bt_get (vp_blob_status (vp_update_blob_status b s p)) b = Some t \<and> s \<le> t"
  "bt_get (vp_blob_status p) c = Some u \<Longrightarrow> \<exists>t. bt_get (vp_blob_status (vp_update_blob_status b s p)) c = Some t \<and> u \<le> t"
  by (auto simp: vp_update_blob_status_def split: option.splits)

lemma store_inv_status:
  assumes "store_inv tr (UpdateBlobStatus b s # ps) p"
  shows "store_inv tr ps (vp_update_blob_status b s p)"
proof -
  have "store_inv tr (UpdateBlobStatus b s # ps) (vp_update_blob_status b s p)"
    by (rule store_inv_grow [OF assms]) (use assms update_status(2) in \<open>auto simp: store_inv_def vp_update_blob_status_def\<close>)
  then show ?thesis
    using update_status(1) [of b s p] by (cases s) (auto simp: store_inv_def stored_chain_def)
qed

lemma store_inv_apply:
  assumes "store_inv tr (a # ps) p"
    and heights: "length (adopted tr) < 2 ^ 64 \<Longrightarrow> \<forall>k < length (adopted tr). mc_height (adopted tr ! k) = of_nat k"
  shows "store_inv tr ps (store_effect a p)"
proof (cases a)
  case (PersistMacroCheckpoint cp)
  then show ?thesis
    using assms stored_chain_checkpoint [of tr cp ps p]
    by (auto simp: store_inv_def) (auto simp: vp_store_macro_checkpoint_def)
next
  case (PersistMacroQc qc)
  define p' where "p' = vp_store_macro_qc qc p"
  have "store_inv tr (a # ps) p'"
    unfolding p'_def by (rule store_inv_qc [OF assms(1)])
  moreover have "bt_get (vp_macro_qcs p') (mq_checkpoint_hash qc) \<noteq> None"
    by (simp add: p'_def vp_store_macro_qc_def)
  ultimately have "store_inv tr ps p'"
    unfolding PersistMacroQc store_inv_def stored_chain_def by simp metis
  then show ?thesis
    by (simp add: PersistMacroQc p'_def)
next
  case (UpdateBlobStatus b s)
  then show ?thesis
    using store_inv_status assms(1) by simp
next
  case (BroadcastMacroQc qc)
  then show ?thesis
    using assms(1) by (simp add: store_inv_quiet store_inv_qc)
qed (use assms(1) in \<open>simp_all add: store_inv_quiet vp_store_micro_qc_def vp_append_slash_evidence_def\<close>)

end
