(* ===== verification/Sim_Runs.thy ===== *)
theory Sim_Runs
  imports Sim_Facts
begin

text \<open>
  Runs of the simulator: the calls of a scenario as one datatype, runs with the actions of every validator,
  and the invariant of a world. Actions that were emitted and not yet applied, because the application of an
  earlier action stepped the validator again, are accounted for per validator.
\<close>

section \<open>The invariant\<close>

definition chains_inv :: "world_log \<Rightarrow> (u32 \<Rightarrow> Actions) \<Rightarrow> ('x, 'r) World \<Rightarrow> bool" where
  "chains_inv lg pend w \<longleftrightarrow> (\<forall>i. unat i < length (w_machines w) \<longrightarrow>
     macro_inv (log_of i lg) (sm_macros (w_machines w ! unat i)) \<and> store_inv (log_of i lg) (pend i) (w_persistence w ! unat i))"

text \<open>The beacon is chained once per checkpoint that some validator adopted.\<close>

definition beacon_chain :: "'x crypto_lib \<Rightarrow> Hash32 \<Rightarrow> Hash32 set \<Rightarrow> Hash32 \<Rightarrow> bool" where
  "beacon_chain L b0 hashes b \<longleftrightarrow>
     (\<exists>hs. distinct hs \<and> set hs = hashes \<and> b = fold (\<lambda>h b. chain_beacon L b h) hs b0)"

definition chained_inv :: "world_log \<Rightarrow> (u32 \<Rightarrow> Actions) \<Rightarrow> nat \<Rightarrow> Hash32 set \<Rightarrow> bool" where
  "chained_inv lg pend n hashes \<longleftrightarrow>
     (\<forall>i. unat i < n \<longrightarrow> (\<forall>q \<in> set (certificates (log_of i lg)).
        q \<in> set (certificates (pend i)) \<or> mq_checkpoint_hash q \<in> hashes)) \<and>
     (\<forall>h \<in> hashes. \<exists>i q. unat i < n \<and> q \<in> set (certificates (log_of i lg)) \<and> mq_checkpoint_hash q = h)"

definition world_inv :: "'x crypto_lib \<Rightarrow> Hash32 \<Rightarrow> nat \<Rightarrow> world_log \<Rightarrow> (u32 \<Rightarrow> Actions) \<Rightarrow> ('x, 'r) World \<Rightarrow> bool" where
  "world_inv L b0 n lg pend w \<longleftrightarrow> length (w_machines w) = n \<and> length (w_persistence w) = n \<and>
     chains_inv lg pend w \<and> beacon_chain L b0 (w_beacon_chained w) (w_beacon w) \<and>
     chained_inv lg pend n (w_beacon_chained w) \<and> vd_inv (w_dag w) \<and> net_sorted (w_net w)"

lemma world_inv_frame [simp]:
  "world_inv L b0 n lg pend (w\<lparr>w_timer := x1\<rparr>) = world_inv L b0 n lg pend w"
  "world_inv L b0 n lg pend (w\<lparr>w_leak_emitted := x2\<rparr>) = world_inv L b0 n lg pend w"
  "world_inv L b0 n lg pend (w\<lparr>w_clock := x3, w_virtual_round := x4\<rparr>) = world_inv L b0 n lg pend w"
  "world_inv L b0 n lg pend (w\<lparr>w_suppress_proposer := x5\<rparr>) = world_inv L b0 n lg pend w"
  "world_inv L b0 n lg pend (w\<lparr>w_anchor_withhold := x6\<rparr>) = world_inv L b0 n lg pend w"
  "world_inv L b0 n lg pend (w\<lparr>w_distributed_vertices := x7\<rparr>) = world_inv L b0 n lg pend w"
  by (simp_all add: world_inv_def chains_inv_def)

lemma world_inv_net: "world_inv L b0 n lg pend w \<Longrightarrow> net_sorted net \<Longrightarrow> world_inv L b0 n lg pend (w\<lparr>w_net := net, w_rng := r\<rparr>)"
  "world_inv L b0 n lg pend w \<Longrightarrow> net_sorted net \<Longrightarrow> world_inv L b0 n lg pend (w\<lparr>w_net := net\<rparr>)"
  by (simp_all add: world_inv_def chains_inv_def)

lemma world_inv_sorted: "world_inv L b0 n lg pend w \<Longrightarrow> net_sorted (w_net w)"
  by (simp add: world_inv_def)

lemma world_inv_emit: "world_inv L b0 n lg pend w \<Longrightarrow> world_inv L b0 n lg pend (emit G i now a w)"
  using sorted_enqueue_from_action [of "w_net w" G i a "world_count w" now "w_rng w"] world_inv_net(1)
  by (auto simp: emit_def world_inv_def split: prod.splits) (simp_all add: chains_inv_def)

lemma world_inv_dag: "world_inv L b0 n lg pend w \<Longrightarrow> world_inv L b0 n lg pend (w\<lparr>w_dag := fold vd_insert vs (w_dag w)\<rparr>)"
proof -
  have "vd_inv d \<Longrightarrow> vd_inv (fold vd_insert vs d)" for d
    by (induction vs arbitrary: d) (simp_all add: vd_inv_insert)
  then show "world_inv L b0 n lg pend w \<Longrightarrow> ?thesis"
    by (simp add: world_inv_def chains_inv_def)
qed

lemma world_inv_heights:
  assumes "world_inv L b0 n lg pend w" "unat i < n" "length (adopted (log_of i lg)) < 2 ^ 64"
  shows "\<forall>k < length (adopted (log_of i lg)). mc_height (adopted (log_of i lg) ! k) = of_nat k"
  using assms by (simp add: world_inv_def chains_inv_def macro_inv_def chain_inv_def hash_chain_def)

section \<open>Applying actions\<close>

text \<open>An action without nested steps acts on the storage of its validator and, for a certificate, on the beacon.\<close>

definition chains_after :: "Action \<Rightarrow> Hash32 set \<Rightarrow> Hash32 set" where
  "chains_after a hashes = (case certificate_by a of None \<Rightarrow> hashes | Some qc \<Rightarrow> insert (mq_checkpoint_hash qc) hashes)"

lemma beacon_chain_once:
  assumes "beacon_chain L b0 (w_beacon_chained w) (w_beacon w)"
  shows "beacon_chain L b0 (insert (mq_checkpoint_hash qc) (w_beacon_chained w)) (w_beacon (chain_beacon_once L qc w))"
proof -
  obtain hs where hs: "distinct hs" "set hs = w_beacon_chained w" "w_beacon w = fold (\<lambda>h b. chain_beacon L b h) hs b0"
    using assms by (auto simp: beacon_chain_def)
  show ?thesis
  proof (cases "mq_checkpoint_hash qc \<in> w_beacon_chained w")
    case True
    then show ?thesis
      using assms by (simp add: chain_beacon_once_def insert_absorb)
  next
    case False
    then show ?thesis
      using hs unfolding beacon_chain_def
      by (intro exI [of _ "hs @ [mq_checkpoint_hash qc]"]) (simp add: chain_beacon_once_def)
  qed
qed

lemma chained_inv_apply:
  assumes "chained_inv lg pend n hashes" "pend i = a # ps" "unat i < n" "set (certificates (pend i)) \<subseteq> set (certificates (log_of i lg))"
  shows "chained_inv lg (pend(i := ps)) n (chains_after a hashes)"
proof (cases "certificate_by a")
  case None
  then have "certificates ((pend(i := ps)) j) = certificates (pend j)" for j
    using assms(2) by simp
  with assms(1) None show ?thesis
    unfolding chained_inv_def chains_after_def by simp
next
  case (Some qc)
  then have "qc \<in> set (certificates (log_of i lg))"
    using assms(2,4) by simp
  moreover have "q \<in> set (certificates ((pend(i := ps)) j)) \<or> mq_checkpoint_hash q \<in> insert (mq_checkpoint_hash qc) hashes"
    if "unat j < n" "q \<in> set (certificates (log_of j lg))" for j q
  proof -
    have "q \<in> set (certificates (pend j)) \<or> mq_checkpoint_hash q \<in> hashes"
      using assms(1) that unfolding chained_inv_def by blast
    then show ?thesis
      using assms(2) Some by auto
  qed
  moreover have "\<exists>j q. unat j < n \<and> q \<in> set (certificates (log_of j lg)) \<and> mq_checkpoint_hash q = h" if "h \<in> hashes" for h
    using assms(1) that by (simp add: chained_inv_def)
  ultimately show ?thesis
    using assms(3) unfolding chained_inv_def chains_after_def Some by auto
qed

lemma chains_inv_apply:
  assumes inv: "world_inv L b0 n lg pend w" and i: "unat i < n" "pend i = a # ps"
    and w': "w_machines w' = w_machines w" "w_persistence w' = (w_persistence w)[unat i := store_effect a (w_persistence w ! unat i)]"
  shows "chains_inv lg (pend(i := ps)) w'"
proof -
  have "store_inv (log_of i lg) ps (store_effect a (w_persistence w ! unat i))"
    by (rule store_inv_apply) (use inv i world_inv_heights [OF inv i(1)] in \<open>auto simp: world_inv_def chains_inv_def\<close>)
  then show ?thesis
    using inv i w' by (auto simp: world_inv_def chains_inv_def nth_list_update dest: unsigned_word_eqI)
qed

lemma emit_fields [simp]:
  "w_machines (emit G i now b v) = w_machines v" "w_persistence (emit G i now b v) = w_persistence v"
  "w_dag (emit G i now b v) = w_dag v" "w_beacon (emit G i now b v) = w_beacon v"
  "w_beacon_chained (emit G i now b v) = w_beacon_chained v"
  by (simp_all add: emit_def case_prod_beta)

lemma sorted_emit: "net_sorted (w_net v) \<Longrightarrow> net_sorted (w_net (emit G i now b v))"
  using sorted_enqueue_from_action [of "w_net v" G i b "world_count v" now "w_rng v"]
  by (simp add: emit_def case_prod_beta)

definition nests :: "Action \<Rightarrow> bool" where
  "nests a \<longleftrightarrow> (case a of BroadcastMacroProposal p \<Rightarrow> True | BroadcastCertifiedVertex cv \<Rightarrow> True | _ \<Rightarrow> False)"

lemma plain_action:
  assumes "\<not> nests a"
  shows "fst (sim_action L G nested i now a w) = Ok []"
    "w_machines (snd (sim_action L G nested i now a w)) = w_machines w"
    "w_persistence (snd (sim_action L G nested i now a w)) = (w_persistence w)[unat i := store_effect a (w_persistence w ! unat i)]"
    "w_beacon_chained (snd (sim_action L G nested i now a w)) = chains_after a (w_beacon_chained w)"
    "w_dag (snd (sim_action L G nested i now a w)) = w_dag w"
    "w_beacon (snd (sim_action L G nested i now a w)) =
      (case certificate_by a of None \<Rightarrow> w_beacon w | Some qc \<Rightarrow> w_beacon (chain_beacon_once L qc w))"
    "net_sorted (w_net w) \<Longrightarrow> net_sorted (w_net (snd (sim_action L G nested i now a w)))"
  using assms
  by (cases a; simp add: nests_def on_store_def chain_beacon_once_def chains_after_def sorted_emit insert_absorb)+

lemma plain_action_inv:
  assumes inv: "world_inv L b0 n lg pend w" and i: "unat i < n" "pend i = a # ps"
    and a: "sim_action L G nested i now a w = (Ok lg', w')" "\<not> nests a"
  shows "world_inv L b0 n (lg @ lg') (pend(i := ps)) w'"
proof -
  note w' = plain_action [OF a(2), where L = L and G = G and nested = nested and i = i and now = now and w = w,
      unfolded a(1) fst_conv snd_conv]
  have "set (certificates (pend i)) \<subseteq> set (certificates (log_of i lg))"
    using inv i(1) by (auto simp: world_inv_def chains_inv_def store_inv_def)
  then have "chained_inv lg (pend(i := ps)) n (w_beacon_chained w')"
    unfolding w'(4) using inv i by (intro chained_inv_apply) (simp_all add: world_inv_def)
  moreover have "beacon_chain L b0 (w_beacon_chained w') (w_beacon w')"
    unfolding w'(4,6) chains_after_def using inv beacon_chain_once [of L b0 w]
    by (simp add: world_inv_def split: option.splits)
  ultimately show ?thesis
    using inv chains_inv_apply [OF inv i w'(2,3)] w'(1,2,3,5,7) by (simp add: world_inv_def)
qed

text \<open>An operation that returns keeps the invariant, whatever is pending.\<close>

definition keeps :: "'x crypto_lib \<Rightarrow> Hash32 \<Rightarrow> nat \<Rightarrow> ('x, 'r) world_op \<Rightarrow> bool" where
  "keeps L b0 n f \<longleftrightarrow> (\<forall>lg pend w lg' w'. world_inv L b0 n lg pend w \<longrightarrow> f w = (Ok lg', w') \<longrightarrow>
     world_inv L b0 n (lg @ lg') pend w')"

lemma keepsD: "keeps L b0 n f \<Longrightarrow> world_inv L b0 n lg pend w \<Longrightarrow> f w = (Ok lg', w') \<Longrightarrow> world_inv L b0 n (lg @ lg') pend w'"
  unfolding keeps_def by blast

lemma world_inv_quiet:
  assumes "world_inv L b0 n lg pend w" "pend i = a # ps" "quiet [a]"
  shows "world_inv L b0 n lg (pend(i := ps)) w"
proof -
  have "store_inv tr ((pend(i := ps)) j) p = store_inv tr (pend j) p" for tr j p
    using store_inv_quiet [OF assms(3)] assms(2) by simp
  moreover have "certificates ((pend(i := ps)) j) = certificates (pend j)" for j
    using assms(2,3) by simp
  ultimately show ?thesis
    using assms(1) unfolding world_inv_def chains_inv_def chained_inv_def by simp
qed

lemma emit_after_Ok:
  "emit_after G i now a r = (Ok lg', w') \<longleftrightarrow> (\<exists>w. r = (Ok lg', w) \<and> w' = emit G i now a w)"
  by (auto simp: emit_after_def outcome_simps)

lemma sim_action_inv:
  assumes nested: "\<And>ev. keeps L b0 n (nested ev)" and inv: "world_inv L b0 n lg pend w"
    and i: "unat i < n" "pend i = a # ps" and a: "sim_action L G nested i now a w = (Ok lg', w')"
  shows "world_inv L b0 n (lg @ lg') (pend(i := ps)) w'"
proof (cases "nests a")
  case False
  then show ?thesis
    using plain_action_inv [OF inv i a] by simp
next
  case True
  then have "quiet [a]"
    by (auto simp: nests_def split: Action.splits)
  note inv' = world_inv_quiet [OF inv i(2) this]
  from True consider (proposal) p where "a = BroadcastMacroProposal p" | (vertex) cv where "a = BroadcastCertifiedVertex cv"
    by (auto simp: nests_def split: Action.splits)
  then show ?thesis
  proof cases
    case proposal
    then show ?thesis
      using a inv' keepsD [OF nested inv'] by (auto simp: emit_after_Ok split: if_splits intro!: world_inv_emit)
  next
    case vertex
    have "world_inv L b0 n lg (pend(i := ps)) (w\<lparr>w_dag := vd_insert cv (w_dag w)\<rparr>)"
      using world_inv_dag [OF inv', of "[cv]"] by simp
    from keepsD [OF nested this] vertex a show ?thesis
      by (auto simp: emit_after_Ok intro!: world_inv_emit)
  qed
qed

lemma apply_actions_inv:
  assumes nested: "\<And>ev. keeps L b0 n (nested ev)" and i: "unat i < n"
  shows "world_inv L b0 n lg pend w \<Longrightarrow> pend i = acts @ ps \<Longrightarrow> apply_actions L G nested i now acts w = (Ok lg', w') \<Longrightarrow>
    world_inv L b0 n (lg @ lg') (pend(i := ps)) w'"
proof (induction acts arbitrary: lg pend w lg')
  case Nil
  then show ?case
    by (simp add: apply_actions_def fun_upd_idem)
next
  case (Cons a acts)
  obtain lg1 w1 lg2 where run: "sim_action L G nested i now a w = (Ok lg1, w1)"
      "apply_actions L G nested i now acts w1 = (Ok lg2, w')" "lg' = lg1 @ lg2"
    using Cons.prems(3) by (auto simp: apply_actions_def outcome_simps)
  have "world_inv L b0 n (lg @ lg1) (pend(i := acts @ ps)) w1"
    by (rule sim_action_inv [OF nested Cons.prems(1) i _ run(1)]) (simp add: Cons.prems(2))
  from Cons.IH [OF this _ run(2)] show ?case
    unfolding run(3) fun_upd_upd append_assoc by simp
qed

section \<open>Steps and rounds\<close>

lemma machine_call_inv:
  assumes inv: "world_inv L b0 n lg pend w" and call: "machine_call L what i f w = (Ok acts, w')"
    and f: "\<And>ctx st tr. host_stable (\<lambda>_. True) ctx \<Longrightarrow> sm_ok (\<lambda>_. True) tr st \<Longrightarrow>
      st_post (\<lambda>a. sm_ok (\<lambda>_. True) (tr @ a)) (sm_ok (\<lambda>_. True) tr) (f ctx st)"
  shows "unat i < n \<and> world_inv L b0 n (lg @ map (Pair i) acts) (pend(i := acts @ pend i)) w'"
proof -
  have n: "length (w_machines w) = n" "length (w_persistence w) = n" and chains: "chains_inv lg pend w"
    using inv by (simp_all add: world_inv_def)
  have i: "unat i < n"
    using call n by (auto simp: machine_call_def Let_def split: if_splits)
  obtain sm u where res: "f (world_ports L (unat i) w) (w_machines w ! unat i, ()) = (Ok acts, (sm, u))"
      "w' = w\<lparr>w_machines := (w_machines w)[unat i := sm]\<rparr>"
    using call i n by (auto simp: machine_call_def Let_def split: prod.splits outcome.splits)
  have "macro_inv (log_of i lg) (sm_macros (w_machines w ! unat i))"
    using chains i n unfolding chains_inv_def by blast
  then have "macro_inv (log_of i lg @ acts) (sm_macros sm)"
    using f [of "world_ports L (unat i) w" "log_of i lg" "(w_machines w ! unat i, ())"] res(1)
    by (simp add: host_stable_def sm_ok_def)
  then have "chains_inv (lg @ map (Pair i) acts) (pend(i := acts @ pend i)) w'"
    using chains n i res(2) by (auto simp: chains_inv_def nth_list_update store_inv_emit dest: unsigned_word_eqI)
  moreover have "chained_inv (lg @ map (Pair i) acts) (pend(i := acts @ pend i)) n (w_beacon_chained w)"
  proof -
    have "set (certificates (log_of j lg)) \<subseteq> set (certificates (log_of j (lg @ map (Pair i) acts)))" for j
      by simp
    moreover have "q \<in> set (certificates (log_of j lg)) \<or> q \<in> set (certificates ((pend(i := acts @ pend i)) j))"
      if "q \<in> set (certificates (log_of j (lg @ map (Pair i) acts)))" for j q
      using that by (auto split: if_splits)
    moreover have "set (certificates (pend j)) \<subseteq> set (certificates ((pend(i := acts @ pend i)) j))" for j
      by simp
    ultimately show ?thesis
      using inv unfolding world_inv_def chained_inv_def by blast
  qed
  ultimately show ?thesis
    using inv i res(2) by (simp add: world_inv_def)
qed

text \<open>A call of a machine followed by the application of its actions.\<close>

lemma call_and_apply:
  assumes nested: "\<And>ev. keeps L b0 n (nested ev)"
    and f: "\<And>ctx st tr. host_stable (\<lambda>_. True) ctx \<Longrightarrow> sm_ok (\<lambda>_. True) tr st \<Longrightarrow>
      st_post (\<lambda>a. sm_ok (\<lambda>_. True) (tr @ a)) (sm_ok (\<lambda>_. True) tr) (f ctx st)"
  shows "keeps L b0 n (\<lambda>w. bind_st (machine_call L what i f w) (\<lambda>actions w.
    bind_st (apply_actions L G nested i now actions w) (\<lambda>lg w. (Ok (map (Pair i) actions @ lg), w))))"
  unfolding keeps_def
proof (intro allI impI)
  fix lg pend w lg' w'
  assume inv: "world_inv L b0 n lg pend w" and "bind_st (machine_call L what i f w) (\<lambda>actions w.
    bind_st (apply_actions L G nested i now actions w) (\<lambda>lg w. (Ok (map (Pair i) actions @ lg), w))) = (Ok lg', w')"
  then obtain acts w1 lg1 where run: "machine_call L what i f w = (Ok acts, w1)"
      "apply_actions L G nested i now acts w1 = (Ok lg1, w')" "lg' = map (Pair i) acts @ lg1"
    by (auto simp: outcome_simps)
  have "unat i < n" "world_inv L b0 n (lg @ map (Pair i) acts) (pend(i := acts @ pend i)) w1"
    using machine_call_inv [OF inv run(1) f] by auto
  from apply_actions_inv [OF nested this _ run(2), of "pend i"] run(3) show "world_inv L b0 n (lg @ lg') pend w'"
    by simp
qed

lemma keeps_step_validator: "keeps L b0 n (step_validator depth L G i now ev)"
proof (induction depth arbitrary: ev)
  case 0
  show ?case
    by (simp add: keeps_def)
next
  case (Suc depth)
  have "keeps L b0 n (\<lambda>w. bind_st (machine_call L '' step failed: '' i (step depth L ev) w) (\<lambda>actions w.
      bind_st (apply_actions L G (step_validator depth L G i now) i now actions w) (\<lambda>lg w.
        (Ok (map (Pair i) actions @ lg), w))))"
    by (rule call_and_apply [OF Suc.IH step_post])
  then show ?case
    by (auto simp: keeps_def)
qed

lemma keeps_genesis: "keeps L b0 n (genesis_propose_one depth L G now i)"
  unfolding genesis_propose_one_def [abs_def] by (rule call_and_apply [OF keeps_step_validator genesis_post])

lemma keeps_and_then:
  assumes "keeps L b0 n f" "keeps L b0 n g"
  shows "keeps L b0 n (and_then f g)"
  unfolding keeps_def
proof (intro allI impI)
  fix lg pend w lg' w'
  assume inv: "world_inv L b0 n lg pend w" and "and_then f g w = (Ok lg', w')"
  then obtain lg1 w1 lg2 where run: "f w = (Ok lg1, w1)" "g w1 = (Ok lg2, w')" "lg' = lg1 @ lg2"
    by (auto simp: and_then_def outcome_simps)
  from keepsD [OF assms(2) keepsD [OF assms(1) inv run(1)] run(2)] run(3)
  show "world_inv L b0 n (lg @ lg') pend w'"
    by simp
qed

lemma keeps_in_order: "(\<And>x. keeps L b0 n (f x)) \<Longrightarrow> keeps L b0 n (in_order f xs)"
proof (induction xs)
  case (Cons x xs)
  then have "keeps L b0 n (in_order f xs)" "keeps L b0 n (f x)"
    by simp_all
  then show ?case
    using keeps_and_then [of L b0 n "f x" "in_order f xs"] by (simp add: and_then_def [abs_def] keeps_def)
qed (simp add: keeps_def)

lemma keeps_pre:
  assumes "\<And>lg pend w. world_inv L b0 n lg pend w \<Longrightarrow> world_inv L b0 n lg pend (g w)" "\<And>w. keeps L b0 n (f w)"
  shows "keeps L b0 n (\<lambda>w. f w (g w))"
  using assms unfolding keeps_def by blast

lemma keeps_deliver: "keeps L b0 n (deliver_to_all depth L G now ev)"
  unfolding deliver_to_all_def [abs_def] by (rule keeps_pre [where g = "\<lambda>w. w"]) (auto intro: keeps_in_order keeps_step_validator)

lemma keeps_drain_net: "keeps L b0 n (drain_net_and_apply depth L G now)"
proof -
  have "keeps L b0 n (\<lambda>w. in_order (\<lambda>msg. step_validator depth L G (fl_recipient msg) now (fl_event msg))
      (fst (drain_due now (w_net w))) (w\<lparr>w_net := snd (drain_due now (w_net w))\<rparr>))"
    by (rule keeps_pre) (auto intro!: keeps_in_order keeps_step_validator world_inv_net sorted_drain dest: world_inv_sorted)
  then show ?thesis
    by (simp add: drain_net_and_apply_def [abs_def] case_prod_beta)
qed

lemma keeps_drain_timers: "keeps L b0 n (drain_timers_and_apply depth L G now)"
proof -
  have "keeps L b0 n (\<lambda>w. in_order (\<lambda>tid. deliver_to_all depth L G now (TimerFired tid))
      (fst (timer_drain_due now (w_timer w))) (w\<lparr>w_timer := snd (timer_drain_due now (w_timer w))\<rparr>))"
    by (rule keeps_pre) (auto intro!: keeps_in_order keeps_deliver)
  then show ?thesis
    by (simp add: drain_timers_and_apply_def [abs_def] case_prod_beta)
qed

lemma keeps_produce: "keeps L b0 n (produce_vertex_tick depth L G now)"
  unfolding keeps_def
proof (intro allI impI)
  fix lg pend lg' and w w' :: "('a, 'b) World"
  assume inv: "world_inv L b0 n lg pend w" and "produce_vertex_tick depth L G now w = (Ok lg', w')"
  then obtain vs where "in_order (\<lambda>cv. deliver_to_all depth L G now (CertifiedVertexReceived cv)) vs
      (w\<lparr>w_dag := fold vd_insert vs (w_dag w)\<rparr>) = (Ok lg', w')"
    by (auto simp: produce_vertex_tick_def Let_def call_Ok_iff split: outcome.splits option.splits)
  from keepsD [OF keeps_in_order [OF keeps_deliver] world_inv_dag [OF inv] this]
  show "world_inv L b0 n (lg @ lg') pend w'" .
qed

lemma keeps_new_vertices: "keeps L b0 n (new_vertices depth L G now)"
proof -
  have "keeps L b0 n (genesis_propose_all depth L G now)"
    unfolding genesis_propose_all_def [abs_def] by (rule keeps_pre [where g = "\<lambda>w. w"]) (auto intro: keeps_in_order keeps_genesis)
  then show ?thesis
    using keeps_produce [of L b0 n depth G now] by (auto simp: keeps_def new_vertices_def)
qed

lemma keeps_advance: "keeps L b0 n advance_clock"
  by (auto simp: keeps_def advance_clock_def)

lemma keeps_tick: "keeps L b0 n (tick_round depth L G)"
  unfolding tick_round_def [abs_def] Let_def
  by (intro keeps_pre [where g = "\<lambda>w. w" and f = "\<lambda>w. and_then (drain_net_and_apply depth L G (w_clock w))
        (and_then (new_vertices depth L G (w_clock w)) (and_then (drain_timers_and_apply depth L G (w_clock w)) advance_clock))"])
    (simp_all add: keeps_and_then keeps_drain_net keeps_new_vertices keeps_drain_timers keeps_advance)

section \<open>Runs\<close>

text \<open>
  What scenarios and tests do with a world: rounds, deliveries to one validator (\<open>deliver_proposal\<close>), messages and vertices
  put into the network and the DAG, the equivocating proposer, and the settings of the adversary.
\<close>

datatype world_input =
    Tick
  | Deliver u32 Event u64
  | Equivocate u32
  | EnqueueRaw InFlight
  | InsertVertex CertifiedVertex
  | Conditions NetworkConditions
  | Split "u32 list" "u32 list"
  | Heal
  | SuppressFrom ValidatorId
  | WithholdAnchors
  | Distribute

fun world_step :: "nat \<Rightarrow> 'x crypto_lib \<Rightarrow> 'r rng_lib \<Rightarrow> world_input \<Rightarrow> ('x, 'r) world_op" where
  "world_step depth L G Tick w = tick_round depth L G w"
| "world_step depth L G (Deliver i ev now) w = step_validator depth L G i now ev w"
| "world_step depth L G (Equivocate i) w = inject_equivocation depth L G i w"
| "world_step depth L G (EnqueueRaw msg) w = (Ok [], w\<lparr>w_net := enqueue msg (w_net w)\<rparr>)"
| "world_step depth L G (InsertVertex cv) w = (Ok [], w\<lparr>w_dag := vd_insert cv (w_dag w)\<rparr>)"
| "world_step depth L G (Conditions nc) w = (Ok [], set_network_conditions nc w)"
| "world_step depth L G (Split left right) w = (Ok [], world_set_partition left right w)"
| "world_step depth L G Heal w = (Ok [], world_heal_partition w)"
| "world_step depth L G (SuppressFrom v) w = (Ok [], suppress_macro_proposals_from v w)"
| "world_step depth L G WithholdAnchors w = (Ok [], enable_anchor_withhold w)"
| "world_step depth L G Distribute w = (Ok [], enable_distributed_vertices w)"

text \<open>A panic ends the simulation.\<close>

inductive world_run :: "'x crypto_lib \<Rightarrow> 'r rng_lib \<Rightarrow> ('x, 'r) World \<Rightarrow> world_log \<Rightarrow> ('x, 'r) World \<Rightarrow> bool"
  for L :: "'x crypto_lib" and G :: "'r rng_lib" and w0 :: "('x, 'r) World" where
  start: "world_run L G w0 [] w0"
| step: "world_run L G w0 lg w \<Longrightarrow> world_step depth L G inp w = (Ok lg', w') \<Longrightarrow> world_run L G w0 (lg @ lg') w'"

lemma keeps_equivocation: "keeps L b0 n (inject_equivocation depth L G v)"
  unfolding keeps_def
proof (intro allI impI)
  fix lg pend lg' and w w' :: "('a, 'b) World"
  assume inv: "world_inv L b0 n lg pend w" and "inject_equivocation depth L G v w = (Ok lg', w')"
  then obtain left right pa pb where run: "and_then (in_order (\<lambda>i. step_validator depth L G i 0 (MacroProposalReceived pa)) left)
      (in_order (\<lambda>i. step_validator depth L G i 0 (MacroProposalReceived pb)) right) (world_set_partition left right w) = (Ok lg', w')"
    by (auto simp: inject_equivocation_def Let_def call_Ok_iff)
  have split: "world_inv L b0 n lg pend (world_set_partition left right w)"
    using inv by (simp add: world_set_partition_def net_set_partition_def net_sorted_def world_inv_def chains_inv_def)
  have "keeps L b0 n (and_then (in_order (\<lambda>i. step_validator depth L G i 0 (MacroProposalReceived pa)) left)
      (in_order (\<lambda>i. step_validator depth L G i 0 (MacroProposalReceived pb)) right))"
    by (intro keeps_and_then keeps_in_order keeps_step_validator)
  from keepsD [OF this split run] show "world_inv L b0 n (lg @ lg') pend w'" .
qed

lemma net_settings [simp]:
  "net_sorted (set_conditions nc net) = net_sorted net" "net_sorted (net_set_partition left right net) = net_sorted net"
  "net_sorted (net_heal_partition net) = net_sorted net"
  by (simp_all add: net_sorted_def set_conditions_def net_set_partition_def net_heal_partition_def)

lemma keeps_world_step: "keeps L b0 n (world_step depth L G inp)"
proof (cases inp)
  case Tick
  then show ?thesis
    using keeps_tick [of L b0 n depth G] by (simp add: keeps_def)
next
  case (Deliver i ev now)
  then show ?thesis
    using keeps_step_validator [of L b0 n depth G i now ev] by (simp add: keeps_def)
next
  case (Equivocate i)
  then show ?thesis
    using keeps_equivocation [of L b0 n depth G i] by (simp add: keeps_def)
next
  case (InsertVertex cv)
  then show ?thesis
    by (auto simp: keeps_def intro: world_inv_dag [where vs = "[cv]", simplified])
qed (auto simp: keeps_def set_network_conditions_def world_set_partition_def world_heal_partition_def
    suppress_macro_proposals_from_def enable_anchor_withhold_def enable_distributed_vertices_def
    intro!: world_inv_net sorted_enqueue intro: world_inv_sorted)

lemma world_new_inv:
  assumes "world_new L G n seed cfg = Ok w0"
  shows "world_inv L (blake3_with_dst L DST_BEACON seed) (unat n) [] (\<lambda>_. []) w0"
proof -
  obtain ring where "w0 = \<lparr> w_machines = map (\<lambda>i. state_machine_new cfg (validator_id_for_index (of_nat i))) [0..<unat n],
     w_net = virtual_net_new, w_clock = 0, w_dag = virtual_dag_new, w_beacon = blake3_with_dst L DST_BEACON seed,
     w_persistence = map (\<lambda>_. virtual_persistence_new) [0..<unat n],
     w_valset = sim_set L ring n, w_rng = rng_from_seed G seed, w_config = cfg, w_virtual_round = 0,
     w_timer = virtual_timer_new, w_anchor_withhold = False, w_beacon_chained = {},
     w_suppress_proposer = None, w_key_ring = ring, w_leak_emitted = 0, w_distributed_vertices = False \<rparr>"
    using assms by (auto simp: world_new_def outcome_simps)
  then show ?thesis
    by (simp add: world_inv_def chains_inv_def state_machine_new_def macro_inv_new store_inv_new beacon_chain_def chained_inv_def
        vd_inv_new net_sorted_def virtual_net_new_def)
qed

lemma world_run_inv:
  assumes "world_run L G w0 lg w" "world_inv L b0 n [] pend w0"
  shows "world_inv L b0 n lg pend w"
  using assms(1)
proof induction
  case start
  show ?case by (rule assms(2))
next
  case (step lg w depth inp lg' w')
  then show ?case
    using keepsD [OF keeps_world_step] by blast
qed

text \<open>The rounds of a scenario are such a run.\<close>

lemma world_run_trans: "world_run L G w1 lg' w2 \<Longrightarrow> world_run L G w0 lg w1 \<Longrightarrow> world_run L G w0 (lg @ lg') w2"
  by (induction rule: world_run.induct) (auto simp flip: append_assoc intro: world_run.step)

lemma in_order_run:
  assumes "\<And>x w lg w'. f x w = (Ok lg, w') \<Longrightarrow> world_run L G w lg w'"
  shows "in_order f xs w = (Ok lg, w') \<Longrightarrow> world_run L G w lg w'"
proof (induction xs arbitrary: w lg)
  case (Cons x xs)
  then obtain lg1 w1 lg2 where "f x w = (Ok lg1, w1)" "in_order f xs w1 = (Ok lg2, w')" "lg = lg1 @ lg2"
    by (auto simp: outcome_simps)
  then show ?case
    using world_run_trans Cons.IH assms by blast
qed (simp add: world_run.start)

lemma world_run_one: "world_step depth L G inp w = (Ok lg, w') \<Longrightarrow> world_run L G w lg w'"
  using world_run.step [OF world_run.start] by simp

lemma rounds_run: "world_run_rounds depth L G k w = (Ok lg, w') \<Longrightarrow> world_run L G w lg w'"
  unfolding world_run_rounds_def by (rule in_order_run) (use world_run_one [where inp = Tick] in auto)

section \<open>The checker of macro finality\<close>

definition table_from :: "VirtualPersistence set \<Rightarrow> height_table \<Rightarrow> bool" where
  "table_from P t \<longleftrightarrow> (\<forall>h x q. t h = Some (x, q) \<longrightarrow>
     (\<exists>p \<in> P. \<exists>cp. vp_macro_cps p h = Some cp \<and> x = mc_hash cp \<and> q = bt_get (vp_macro_qcs p) (mc_hash cp)))"

definition conflict :: "VirtualPersistence \<Rightarrow> VirtualPersistence \<Rightarrow> Height \<Rightarrow> bool" where
  "conflict p p' h \<longleftrightarrow> (\<exists>cp cp'. vp_macro_cps p h = Some cp \<and> vp_macro_cps p' h = Some cp' \<and> (mc_hash cp \<noteq> mc_hash cp' \<or>
     (\<exists>q q'. bt_get (vp_macro_qcs p) (mc_hash cp) = Some q \<and> bt_get (vp_macro_qcs p') (mc_hash cp) = Some q' \<and> q \<noteq> q')))"

text \<open>One height of one validator: the table keeps its entries, and a failure shows a conflict with an earlier validator.\<close>

definition records :: "VirtualPersistence \<Rightarrow> Height \<Rightarrow> height_table \<Rightarrow> bool" where
  "records p h t \<longleftrightarrow> (\<forall>cp. vp_macro_cps p h = Some cp \<longrightarrow> (\<exists>q. t h = Some (mc_hash cp, q)))"

lemma lock_macro_height_cases:
  assumes "table_from P t"
  obtains t' where "lock_macro_height p h t = Ok t'" "t \<subseteq>\<^sub>m t'" "records p h t'" "table_from (insert p P) t'"
  | e p' where "lock_macro_height p h t = Err e" "p' \<in> P" "conflict p' p h"
proof (cases "vp_macro_cps p h")
  case None
  then show ?thesis
    using assms that(1) by (auto simp: lock_macro_height_def records_def table_from_def)
next
  case (Some cp)
  show ?thesis
  proof (cases "t h")
    case None
    then show ?thesis
      using assms Some by (intro that(1) [of "t(h \<mapsto> (mc_hash cp, bt_get (vp_macro_qcs p) (mc_hash cp)))"])
        (auto simp: lock_macro_height_def records_def table_from_def map_le_def)
  next
    case entry: (Some x)
    obtain hash q where x: "x = (hash, q)"
      by fastforce
    obtain p' cp' where p': "p' \<in> P" "vp_macro_cps p' h = Some cp'" "hash = mc_hash cp'" "q = bt_get (vp_macro_qcs p') (mc_hash cp')"
      using assms entry x unfolding table_from_def by blast
    show ?thesis
    proof (cases "hash = mc_hash cp \<and> (q = None \<or> bt_get (vp_macro_qcs p) (mc_hash cp) = None \<or> q = bt_get (vp_macro_qcs p) (mc_hash cp))")
      case True
      then show ?thesis
        using assms Some entry x by (intro that(1) [of t])
          (auto simp: lock_macro_height_def records_def table_from_def split: option.splits)
    next
      case False
      then have "conflict p' p h"
        using p' Some unfolding conflict_def by (cases "hash = mc_hash cp") auto
      moreover have "\<exists>e. lock_macro_height p h t = Err e"
        using False Some entry x by (auto simp: lock_macro_height_def Let_def split: option.splits)
      ultimately show ?thesis
        using that(2) p'(1) by blast
    qed
  qed
qed

lemma records_le: "records p h t \<Longrightarrow> t \<subseteq>\<^sub>m t' \<Longrightarrow> records p h t'"
  unfolding records_def map_le_def by (metis domI)

lemma lock_macro_scan_cases:
  assumes "table_from P t"
  shows "(\<exists>t'. lock_macro_scan p hs t = Ok t' \<and> t \<subseteq>\<^sub>m t' \<and> (\<forall>h \<in> set hs. records p (of_nat h) t') \<and> table_from (insert p P) t') \<or>
    (\<exists>e. lock_macro_scan p hs t = Err e \<and> (\<exists>p' \<in> insert p P. \<exists>h \<in> set hs. conflict p' p (of_nat h)))"
  using assms
proof (induction hs arbitrary: P t)
  case Nil
  then show ?case
    by (auto simp: table_from_def)
next
  case (Cons h hs)
  from Cons.prems show ?case
  proof (cases rule: lock_macro_height_cases [of P t p "of_nat h"])
    case (1 t1)
    from Cons.IH [OF 1(4)] show ?thesis
      using 1 map_le_trans [OF 1(2)] records_le [OF 1(3)] by (auto simp: insert_absorb2)
  qed auto
qed

lemma lock_macro_scan_all_cases:
  assumes "table_from P t"
  shows "(\<exists>t'. lock_macro_scan_all ps t = Ok t' \<and> t \<subseteq>\<^sub>m t' \<and> (\<forall>p \<in> set ps. \<forall>h < MAX_SCAN_HEIGHT. records p (of_nat h) t')) \<or>
    (\<exists>e. lock_macro_scan_all ps t = Err e \<and>
      (\<exists>p \<in> set ps. \<exists>p' \<in> set ps \<union> P. \<exists>h < MAX_SCAN_HEIGHT. conflict p' p (of_nat h)))"
  using assms
proof (induction ps arbitrary: P t)
  case (Cons p ps)
  from lock_macro_scan_cases [OF Cons.prems, of p "[0..<MAX_SCAN_HEIGHT]"] show ?case
  proof (elim disjE exE conjE)
    fix t1
    assume 1: "lock_macro_scan p [0..<MAX_SCAN_HEIGHT] t = Ok t1" "t \<subseteq>\<^sub>m t1" "table_from (insert p P) t1"
      "\<forall>h \<in> set [0..<MAX_SCAN_HEIGHT]. records p (of_nat h) t1"
    from Cons.IH [OF 1(3)] show ?thesis
      using 1(1,4) map_le_trans [OF 1(2)] records_le [of p _ t1] by auto
  qed auto
qed simp

text \<open>The check passes only if all validators agree below the scanned height, and fails only on a conflict.\<close>

lemma lock_macro_check_exact:
  "(is_ok (lock_macro_check w) \<longrightarrow> (\<forall>p \<in> set (w_persistence w). \<forall>p' \<in> set (w_persistence w). \<forall>h < MAX_SCAN_HEIGHT. \<forall>cp cp'.
      vp_macro_cps p (of_nat h) = Some cp \<and> vp_macro_cps p' (of_nat h) = Some cp' \<longrightarrow> mc_hash cp = mc_hash cp')) \<and>
   (\<not> is_ok (lock_macro_check w) \<longrightarrow> (\<exists>p \<in> set (w_persistence w). \<exists>p' \<in> set (w_persistence w). \<exists>h < MAX_SCAN_HEIGHT. conflict p' p (of_nat h)))"
proof -
  have "table_from {} Map.empty"
    by (simp add: table_from_def)
  from lock_macro_scan_all_cases [OF this, of "w_persistence w"] show ?thesis
  proof (elim disjE exE conjE)
    fix t assume t: "lock_macro_scan_all (w_persistence w) Map.empty = Ok t"
      "\<forall>p \<in> set (w_persistence w). \<forall>h < MAX_SCAN_HEIGHT. records p (of_nat h) t"
    have "mc_hash cp = mc_hash cp'" if both: "p \<in> set (w_persistence w)" "p' \<in> set (w_persistence w)" "h < MAX_SCAN_HEIGHT"
        "vp_macro_cps p (of_nat h) = Some cp" "vp_macro_cps p' (of_nat h) = Some cp'" for p p' h cp cp'
    proof -
      obtain q q' where "t (of_nat h) = Some (mc_hash cp, q)" "t (of_nat h) = Some (mc_hash cp', q')"
        using t(2) both unfolding records_def by blast
      then show ?thesis
        by simp
    qed
    moreover have "is_ok (lock_macro_check w)"
      using t(1) by (simp add: lock_macro_check_def)
    ultimately show ?thesis
      by blast
  next
    fix e assume "lock_macro_scan_all (w_persistence w) Map.empty = Err e"
      "\<exists>p \<in> set (w_persistence w). \<exists>p' \<in> set (w_persistence w) \<union> {}. \<exists>h < MAX_SCAN_HEIGHT. conflict p' p (of_nat h)"
    then show ?thesis
      by (simp add: lock_macro_check_def)
  qed
qed

end
