(* ===== verification/Sim_Samples.thy ===== *)
theory Sim_Samples
  imports Sim_Runs Macro_Samples Bullshark_Properties
begin

text \<open>
  A run of the simulator for the witnesses: three validators with a constant hash. Two vertices are put into the DAG,
  validator 2 receives one of them, commits wave 0, and adopts the checkpoint of its micro certificate when it receives a
  certificate for it.
\<close>

section \<open>Parameters\<close>

text \<open>A generator that always draws the maximum.\<close>

definition top_rng :: "unit rng_lib" where
  "top_rng = \<lparr> rng_from_seed = (\<lambda>_. ()), gen_u64_upto = (\<lambda>m r. (m, r)), gen_unit_f64 = (\<lambda>r. (Fin 0, r)) \<rparr>"

lemma top_rng_ok: "rng_ok top_rng"
  by (simp add: rng_ok_def top_rng_def f64_le_def)

definition ring_w :: "768 word ValidatorKeyRing" where
  "ring_w = \<lparr> kr_bls = [0, 0, 0], kr_vrf = (let k = vrf_key_from_seed tie_lib (be_bytes 32 (0 :: Hash32)) in [k, k, k]) \<rparr>"

definition entry_w :: "ValidatorId \<Rightarrow> ValidatorEntry" where
  "entry_w v = \<lparr> ve_id = v, ve_bls_pubkey = 0, ve_vrf_pubkey = word_of_be (vk_pk_compressed (kr_vrf ring_w ! 0)), ve_stake = 1000,
     ve_identity = \<lparr> vi_asn = None, vi_cloud = None, vi_region = None \<rparr> \<rparr>"

definition me_w :: ValidatorId where
  "me_w = 2 ^ 225"

lemma me_w_order: "2 ^ 224 < me_w" "me_w \<noteq> 0" "me_w \<noteq> 2 ^ 224"
  by (simp_all add: me_w_def)

definition set_w :: ValidatorSet where
  "set_w = \<lparr> vs_epoch = 0, vs_entries = [entry_w 0, entry_w (2 ^ 224), entry_w me_w], vs_total_stake = 3000 \<rparr>"

definition world_w :: "(768 word, unit) World" where
  "world_w = \<lparr> w_machines = [state_machine_new macro_cfg 0, state_machine_new macro_cfg (2 ^ 224), state_machine_new macro_cfg me_w],
     w_net = virtual_net_new, w_clock = 0, w_dag = virtual_dag_new, w_beacon = 0,
     w_persistence = [virtual_persistence_new, virtual_persistence_new, virtual_persistence_new], w_valset = set_w, w_rng = (), w_config = macro_cfg, w_virtual_round = 0,
     w_timer = virtual_timer_new, w_anchor_withhold = False, w_beacon_chained = {},
     w_suppress_proposer = None, w_key_ring = ring_w, w_leak_emitted = 0, w_distributed_vertices = False \<rparr>"

lemma upt3: "[0..<3] = [0, 1, 2 :: nat]"
  by code_simp

lemma ids_w: "validator_id_for_index 0 = 0" "validator_id_for_index 1 = 2 ^ 224" "validator_id_for_index 2 = me_w"
proof -
  have zeros: "(push_bit 8 ^^ k) w = push_bit (8 * k) w" for k and w :: ValidatorId
    by (induction k) (simp_all add: push_bit_push_bit add.commute)
  have "be_bytes 4 (0 :: u32) = [0, 0, 0, 0]" "be_bytes 4 (1 :: u32) = [0, 0, 0, 1]" "be_bytes 4 (2 :: u32) = [0, 0, 0, 2]"
    by code_simp+
  then show "validator_id_for_index 0 = 0" "validator_id_for_index 1 = 2 ^ 224" "validator_id_for_index 2 = me_w"
    by (simp_all add: validator_id_for_index_def word_of_be_def zeros me_w_def)
qed

lemma keys_w: "key_ring_from_seed tie_lib [] 3 = Ok ring_w"
proof -
  have zero: "word_of_be (be_bytes 32 (0 :: Hash32)) = (0 :: 768 word)"
    by code_simp
  have "derive_keys tie_lib [] i = Ok (0, vrf_key_from_seed tie_lib (be_bytes 32 (0 :: Hash32)))" for i
    by (simp add: derive_keys_def blake3_with_dst_def tie_lib_def sk_from_ikm_def sample_lib_def zero)
  then show ?thesis
    by (simp add: key_ring_from_seed_def upt3 ring_w_def Let_def)
qed

lemma hash_w: "blake3_with_dst tie_lib dst bs = 0"
  by (simp add: blake3_with_dst_def tie_lib_def)

lemma new_w: "world_new tie_lib top_rng 3 [] macro_cfg = Ok world_w"
proof -
  have "sim_entry tie_lib ring_w i = entry_w (validator_id_for_index (of_nat i))" if "i < 3" for i
    using that less_Suc_eq [of i 2] less_2_cases_iff [of i]
    by (auto simp: sim_entry_def entry_w_def kr_bls_pubkey_def kr_vrf_pubkey_def ring_w_def Let_def tie_lib_def sample_lib_def pk_to_bytes_def)
  then have "sim_set tie_lib ring_w 3 = set_w"
    by (simp add: sim_set_def set_w_def upt3 ids_w [simplified])
  then show ?thesis
    by (simp add: world_new_def keys_w upt3 world_w_def top_rng_def ids_w [simplified] hash_w)
qed

section \<open>The vertices and the wave\<close>

definition vertex_x :: CertifiedVertex where
  "vertex_x = \<lparr> cv_vertex = \<lparr> v_round = 0, v_author = 0, v_parents = [], v_blobs = [], v_hash = 0 \<rparr>,
     cv_certificate = \<lparr> as_sig = 0, as_bitmap = [1] \<rparr> \<rparr>"

definition vertex_y :: CertifiedVertex where
  "vertex_y = \<lparr> cv_vertex = \<lparr> v_round = 1, v_author = 2 ^ 224, v_parents = [0], v_blobs = [], v_hash = 0 \<rparr>,
     cv_certificate = \<lparr> as_sig = 0, as_bitmap = [1] \<rparr> \<rparr>"

definition dag_w :: VirtualDag where
  "dag_w = vd_insert vertex_x (vd_insert vertex_y virtual_dag_new)"

lemma dag_reads_w:
  "vd_vertices_at_round dag_w r = Ok (if r = 0 then [vertex_x] else if r = 1 then [vertex_y] else [])"
  "vd_vertex dag_w h = Ok (if h = 0 then Some vertex_x else None)"
  by (simp_all add: dag_w_def vd_insert_def virtual_dag_new_def vd_vertices_at_round_def vd_vertex_def vertex_x_def vertex_y_def Let_def)

text \<open>Ports of validator 2 in a world with this DAG, the fresh beacon and the sample committee.\<close>

definition ports_w :: "unit HostContext \<Rightarrow> bool" where
  "ports_w ctx \<longleftrightarrow> dag_vertex ctx = vd_vertex dag_w \<and> dag_vertices_at_round ctx = vd_vertices_at_round dag_w \<and>
     beacon_current ctx = Ok 0 \<and> valset_set_for ctx 0 = Ok (Some set_w)"

lemma entries_w: "vs_entries set_w = [entry_w 0, entry_w (2 ^ 224), entry_w me_w]" "ve_id (entry_w v) = v"
  by (simp_all add: set_w_def entry_w_def)

lemma anchor_w:
  assumes "beacon_current ctx = Ok b"
  shows "select_anchor tie_lib wave set_w ctx = Ok \<lparr> ac_wave = wave, ac_author = 0, ac_anchor_hash = hash_zero \<rparr>"
proof -
  have "anchor_score tie_lib b wave total_stake (entry_w v) = vrf_sortition_score 0 total_stake 1000 (Fin 1)" for total_stake v
    by (simp add: anchor_score_def sortition_beta_def hash_w entry_w_def)
  then show ?thesis
    using assms by (simp add: select_anchor_def entries_w f64_cmp_refl me_w_def)
qed

lemma schedule_w: "vrf_sortition tie_lib 0 set_w h Map.empty = Ok \<lparr> ps_height = h, ps_primary = 0, ps_backup = 2 ^ 224 \<rparr>"
proof -
  define c where "c = vrf_sortition_score 0 (vs_total_stake set_w) 1000 reputation_neutral"
  have "scored_entries tie_lib 0 set_w h Map.empty = [(0, c), (2 ^ 224, c), (me_w, c)]"
    by (simp add: scored_entries_def set_w_def entry_w_def c_def macro_sortition_beta_def hash_w)
  then show ?thesis
    by (simp add: vrf_sortition_def sort_scored_def f64_cmp_refl me_w_def)
qed

definition micro_w :: MicroQc where
  "micro_w = \<lparr> uq_checkpoint_hash = 0, uq_agg = \<lparr> as_sig = placeholder_sig, as_bitmap = [1] \<rparr> \<rparr>"

definition checkpoint_w :: MacroCheckpoint where
  "checkpoint_w = \<lparr> mc_height = 0, mc_epoch = 0, mc_parent = 0, mc_micro_root = 0, mc_hash = 0 \<rparr>"

lemma commit_w:
  assumes "ports_w ctx"
  shows "try_commit_wave tie_lib 0 macro_cfg set_w ctx late = Ok (Some \<lparr> cd_wave = 0, cd_path = Shortcut, cd_anchor_hash = 0 \<rparr>)"
proof -
  have ports: "dag_vertex ctx = vd_vertex dag_w" "dag_vertices_at_round ctx = vd_vertices_at_round dag_w" "beacon_current ctx = Ok 0"
    using assms by (simp_all add: ports_w_def)
  have "[1..<Suc (unat (2 :: u32))] = [1, 2]"
    by code_simp
  then have "count_supporters 0 0 2 ctx = Ok {2 ^ 224}"
    by (simp add: count_supporters_def ports dag_reads_w vertex_reaches_def) (simp add: vertex_y_def)
  then show ?thesis
    by (simp add: try_commit_wave_def anchor_w [OF ports(3)] ports dag_reads_w wave_first_round_def entries_w commit_need_def
        macro_cfg_def default_table_17_1_def) (simp add: vertex_x_def)
qed

definition machine_w :: StateMachine where
  "machine_w = \<lparr> sm_cfg = macro_cfg, sm_emitted = {0}, sm_waves = wave_book_new\<lparr>wb_committed_waves := {0}\<rparr>,
     sm_macros = (macro_book_new me_w)\<lparr>mb_candidate := bt_insert 0 checkpoint_w bt_empty, mb_candidate_beacon := bt_insert 0 0 bt_empty\<rparr>,
     sm_vertices = record_cert vertex_x (vertex_book_new me_w) \<rparr>"

lemma micro_macro_w:
  assumes "ports_w ctx"
  shows "on_local_micro_qcs tie_lib macro_cfg ctx [BroadcastMicroQc micro_w] (macro_book_new me_w) =
    (Ok [BroadcastMicroQc micro_w], (macro_book_new me_w)\<lparr>mb_candidate := bt_insert 0 checkpoint_w bt_empty,
      mb_candidate_beacon := bt_insert 0 0 bt_empty\<rparr>)"
proof -
  have "build_checkpoint tie_lib 0 0 0 (micro_root_of_ring tie_lib [0]) = checkpoint_w"
    by (simp add: build_checkpoint_def checkpoint_w_def micro_root_of_ring_def hash_w)
  then show ?thesis
    using assms by (simp add: on_local_micro_qcs_def List.map_filter_def micro_qc_hash_of_def micro_w_def push_micro_hash_def Let_def
        macro_set_def ports_w_def macro_book_new_def schedule_w propose_candidate_def hash_zero_def me_w_order [simplified])
qed

lemma vertex_event_w:
  assumes "ports_w ctx"
  shows "step 1 tie_lib (CertifiedVertexReceived vertex_x) ctx (state_machine_new macro_cfg me_w, ()) =
    (Ok [BroadcastMicroQc micro_w], (machine_w, ()))"
proof -
  have ports: "dag_vertex ctx = vd_vertex dag_w" "dag_vertices_at_round ctx = vd_vertices_at_round dag_w" "beacon_current ctx = Ok 0"
      "valset_set_for ctx 0 = Ok (Some set_w)"
    using assms by (simp_all add: ports_w_def)
  have waves: "wave_of_round (v_round (cv_vertex vertex_x)) = 0" and parents: "v_parents (cv_vertex vertex_x) = []"
    by (simp_all add: vertex_x_def wave_of_round_def)
  have closure: "closure_of_anchor 0 ctx = Ok \<lparr> lin_order = [0] \<rparr>"
    by (simp add: closure_of_anchor_def closure_loop.simps ports dag_reads_w parents)
  have lookups: "lookup_all ctx [0] = Ok [vertex_x]"
    by (simp add: lookup_all_def ports dag_reads_w List.map_filter_def)
  have final: "micro_try_finalize 0 [vertex_x] ctx = Ok (Some micro_w)"
    by (simp add: micro_try_finalize_def ports entries_w upt3 vertex_x_def micro_w_def div_ceil_def set_slot_def me_w_order [simplified] eq_commute [of 0 me_w])
  have hash: "checkpoint_hash_from_linearization tie_lib l = 0" for l
    by (simp add: checkpoint_hash_from_linearization_def hash_w)
  show ?thesis
    by (simp add: Let_def on_vertices_def on_waves_def on_macros_def on_certified_vertex_def maybe_advance_def vc_run_Suc
        maybe_advance_body_def state_machine_new_def vertex_book_new_def record_cert_def bull_on_certified_vertex_def waves
        try_emit_for_wave_def ports commit_w [OF assms] wave_book_new_def mark_committed_def emit_checkpoint_def closure hash lookups
        final micro_macro_w [OF assms] machine_w_def)
qed

section \<open>The certificate\<close>

definition macro_w :: MacroQc where
  "macro_w = \<lparr> mq_checkpoint_hash = 0, mq_mode = Mode0Flat, mq_agg = \<lparr> as_sig = 0, as_bitmap = [1] \<rparr> \<rparr>"

lemma fields_w [simp]: "mc_hash checkpoint_w = 0" "mc_height checkpoint_w = 0" "mq_checkpoint_hash macro_w = 0"
  by (simp_all add: checkpoint_w_def macro_w_def)

definition adoption_w :: Actions where
  "adoption_w = [PersistMacroCheckpoint checkpoint_w, PersistMacroQc macro_w, UpdateBlobStatus (blob_id_of_checkpoint checkpoint_w) Justified]"

lemma certificate_event_w:
  assumes "ports_w ctx"
  shows "\<exists>sm. step 1 tie_lib (MacroQcReceived macro_w) ctx (machine_w, ()) = (Ok adoption_w, (sm, ()))"
proof -
  have marked: "marked_entries set_w [1] = [entry_w 0]"
    by (simp add: marked_entries_def entries_w upt3 bitmap_bit_def test_slot_def)
  have verified: "verify_macro_qc tie_lib set_w macro_w checkpoint_w"
    by (simp add: verify_macro_qc_def macro_w_def checkpoint_w_def marked pk_from_entry_def entry_w_def tie_lib_def pk_from_bytes_def
        sample_lib_def verify_aggregate_def)
  have single: "bt_insert k v bt_empty = [(k, v)]" for k :: Height and v :: 'v
    by (simp add: bt_empty_def)
  have "newly_finalized_height (adopt checkpoint_w two_chain_default) = None"
    by (simp add: newly_finalized_height_def adopt_def two_chain_default_def justified_head_height_def Let_def bt_get_list bt_empty_def)
  then show ?thesis
    using verified assms by (simp add: on_macros_def on_macro_qc_received_def machine_w_def macro_book_new_def macro_set_def ports_w_def Let_def
        candidate_height_def signers_of_def bump_reputation_def settle_finality_def note_inactivity_leak_on_adoption_def
        record_adoption_def leak_compute_def single bt_get_list sat_add_def word_le_nat_alt adoption_w_def)
qed

section \<open>The run\<close>

lemma plain_action_valset: "\<not> nests a \<Longrightarrow> w_valset (snd (sim_action L G nested i now a w)) = w_valset w"
  by (cases a) (simp_all add: nests_def on_store_def chain_beacon_once_def emit_def case_prod_beta)

lemma plain_actions:
  "list_all (\<lambda>a. \<not> nests a) acts \<Longrightarrow> \<exists>w'. apply_actions L G nested i now acts w = (Ok [], w') \<and> w_machines w' = w_machines w \<and>
    length (w_persistence w') = length (w_persistence w) \<and> w_dag w' = w_dag w \<and> w_valset w' = w_valset w \<and>
    (certificates acts = [] \<longrightarrow> w_beacon w' = w_beacon w)"
proof (induction acts arbitrary: w)
  case Nil
  then show ?case
    by (simp add: apply_actions_def)
next
  case (Cons a acts)
  then have a: "\<not> nests a"
    by simp
  define w1 where "w1 = snd (sim_action L G nested i now a w)"
  have run: "sim_action L G nested i now a w = (Ok [], w1)"
    using plain_action(1) [OF a, of L G nested i now w] by (simp add: w1_def prod_eq_iff)
  note w1 = plain_action(2,3,5,6) [OF a, where L = L and G = G and nested = nested and i = i and now = now and w = w, folded w1_def]
    plain_action_valset [OF a, where L = L and G = G and nested = nested and i = i and now = now and w = w, folded w1_def]
  obtain w' where "apply_actions L G nested i now acts w1 = (Ok [], w')" "w_machines w' = w_machines w1"
      "length (w_persistence w') = length (w_persistence w1)" "w_dag w' = w_dag w1" "w_valset w' = w_valset w1"
      "certificates acts = [] \<longrightarrow> w_beacon w' = w_beacon w1"
    using Cons by fastforce
  then show ?case
    using run w1 by (intro exI [of _ w']) (auto simp: apply_actions_def split: option.splits)
qed

text \<open>A world of the sample run, with validator 2 in a given state.\<close>

definition ready :: "StateMachine \<Rightarrow> (768 word, unit) World \<Rightarrow> bool" where
  "ready sm w \<longleftrightarrow> length (w_machines w) = 3 \<and> length (w_persistence w) = 3 \<and> w_machines w ! 2 = sm \<and>
     w_dag w = dag_w \<and> w_valset w = set_w \<and> w_beacon w = 0"

lemma ready_ports: "ready sm w \<Longrightarrow> ports_w (world_ports tie_lib i w)"
  by (simp add: ready_def ports_w_def world_ports_def virtual_set_for_def) (simp add: set_w_def)

lemma deliver_w:
  assumes "ready sm w" "\<not> suppressed_event w ev" "list_all (\<lambda>a. \<not> nests a) acts"
    and step: "step 1 tie_lib ev (world_ports tie_lib 2 w) (sm, ()) = (Ok acts, (sm', ()))"
  shows "\<exists>w'. step_validator 2 tie_lib top_rng 2 0 ev w = (Ok (map (Pair 2) acts), w') \<and> (certificates acts = [] \<longrightarrow> ready sm' w')"
proof -
  let ?w = "w\<lparr>w_machines := (w_machines w)[2 := sm']\<rparr>"
  have call: "machine_call tie_lib '' step failed: '' 2 (step 1 tie_lib ev) w = (Ok acts, ?w)"
    using assms(1) step by (simp add: machine_call_def ready_def)
  obtain w' where w': "apply_actions tie_lib top_rng (step_validator 1 tie_lib top_rng 2 0) 2 0 acts ?w = (Ok [], w')"
      "w_machines w' = w_machines ?w" "length (w_persistence w') = length (w_persistence ?w)" "w_dag w' = w_dag ?w"
      "w_valset w' = w_valset ?w" "certificates acts = [] \<longrightarrow> w_beacon w' = w_beacon ?w"
    using plain_actions [OF assms(3)] by blast
  have two: "(2 :: nat) = Suc 1"
    by simp
  have "step_validator 2 tie_lib top_rng 2 0 ev w = (Ok (map (Pair 2) acts), w')"
    unfolding two step_validator.simps using assms(2) call w'(1) by simp
  then show ?thesis
    using w' assms(1) by (simp add: ready_def)
qed

lemma sample_world_run:
  "\<exists>lg w. world_run tie_lib top_rng world_w lg w \<and> lg = map (Pair 2) (BroadcastMicroQc micro_w # adoption_w)"
proof -
  have plain: "list_all (\<lambda>a. \<not> nests a) [BroadcastMicroQc micro_w]" "list_all (\<lambda>a. \<not> nests a) adoption_w"
    by (simp_all add: nests_def adoption_w_def)
  let ?w1 = "world_w\<lparr>w_dag := vd_insert vertex_y virtual_dag_new\<rparr>"
  let ?w2 = "world_w\<lparr>w_dag := dag_w\<rparr>"
  have "world_run tie_lib top_rng world_w [] ?w1"
    by (rule world_run_one [where inp = "InsertVertex vertex_y"]) (simp add: world_w_def)
  moreover have "world_run tie_lib top_rng ?w1 [] ?w2"
    by (rule world_run_one [where inp = "InsertVertex vertex_x"]) (simp add: world_w_def dag_w_def)
  ultimately have two: "world_run tie_lib top_rng world_w [] ?w2"
    using world_run_trans by fastforce
  have fresh: "ready (state_machine_new macro_cfg me_w) ?w2"
    by (simp add: ready_def world_w_def)
  obtain w3 where w3: "step_validator 2 tie_lib top_rng 2 0 (CertifiedVertexReceived vertex_x) ?w2 = (Ok [(2, BroadcastMicroQc micro_w)], w3)"
      "ready machine_w w3"
    using deliver_w [OF fresh _ plain(1) vertex_event_w [OF ready_ports [OF fresh]]] by (auto simp: suppressed_event_def)
  have "\<not> suppressed_event w3 (MacroQcReceived macro_w)"
    by (simp add: suppressed_event_def)
  then obtain w4 where w4: "step_validator 2 tie_lib top_rng 2 0 (MacroQcReceived macro_w) w3 = (Ok (map (Pair 2) adoption_w), w4)"
    using certificate_event_w [OF ready_ports [OF w3(2)]] deliver_w [OF w3(2) _ plain(2)] by blast
  have "world_run tie_lib top_rng ?w2 [(2, BroadcastMicroQc micro_w)] w3" "world_run tie_lib top_rng w3 (map (Pair 2) adoption_w) w4"
    using w3(1) w4 world_run_one [where inp = "Deliver 2 (CertifiedVertexReceived vertex_x) 0" and depth = 2]
      world_run_one [where inp = "Deliver 2 (MacroQcReceived macro_w) 0" and depth = 2] by simp_all
  from world_run_trans [OF this(2) world_run_trans [OF this(1) two]] show ?thesis
    by auto
qed

end
