(* ===== verification/Sim_Properties.thy ===== *)
theory Sim_Properties
  imports Sim_Samples
begin

text \<open>The simulated network and whole runs of the simulator.\<close>

section \<open>The network\<close>

text \<open>A message sent over a network that loses and repeats nothing.\<close>

definition lossless :: "NetworkConditions \<Rightarrow> bool" where
  "lossless nc \<longleftrightarrow> nc_drop nc = Fin 0 \<and> nc_duplicate nc = Fin 0"

lemma unit_not_negative:
  assumes "rng_ok G"
  shows "\<not> f64_lt (fst (gen_unit_f64 G r)) (Fin 0)"
proof -
  have "f64_le (Fin 0) (fst (gen_unit_f64 G r))"
    using assms by (simp add: rng_ok_def)
  then show ?thesis
    by (cases "fst (gen_unit_f64 G r)") (auto simp: f64_le_def)
qed

lemma sat_add_exact: "unat a + unat b < 2 ^ 64 \<Longrightarrow> sat_add a b = a + b \<and> unat (sat_add a b) = unat a + unat b" for a b :: u64
  by (simp add: sat_add_def word_le_nat_alt unat_word_ariths)

lemma send_one_lossless:
  assumes G: "rng_ok G" and "lossless (vn_conditions net)"
    and fits: "unat now + unat (nc_base_delay_ns (vn_conditions net)) + 2 * unat (nc_max_delay_ns (vn_conditions net)) < 2 ^ 64"
    and r: "r \<noteq> s" "allows_delivery net s r"
  shows "\<exists>m rng'. send_one G s ev now r (net, rng) = (enqueue m net, rng') \<and> fl_recipient m = r \<and> fl_event m = ev \<and>
    unat now + unat (nc_base_delay_ns (vn_conditions net)) \<le> unat (fl_deliver_at m) \<and>
    unat (fl_deliver_at m) \<le> unat now + unat (nc_base_delay_ns (vn_conditions net)) + 2 * unat (nc_max_delay_ns (vn_conditions net))"
proof -
  let ?base = "nc_base_delay_ns (vn_conditions net)" and ?max = "nc_max_delay_ns (vn_conditions net)"
  have draw: "unat (fst (gen_u64_upto G ?max g)) \<le> unat ?max" for g
    using G by (simp add: rng_ok_def word_le_nat_alt)
  obtain j g1 where j: "jitter_nanos G ?max rng = (j, g1)"
    by fastforce
  then have "unat j \<le> unat ?max"
    using draw [of rng] by (auto simp: jitter_nanos_def split: if_splits)
  obtain p g2 where p: "gen_unit_f64 G g1 = (p, g2)"
    by fastforce
  obtain x g3 where x: "(if 0 < ?max then gen_u64_upto G ?max g2 else (0, g2)) = (x, g3)"
    by fastforce
  then have "unat x \<le> unat ?max"
    using draw [of g2] by (auto split: if_splits)
  obtain q g4 where q: "gen_unit_f64 G g3 = (q, g4)"
    by fastforce
  have keep: "\<not> f64_lt p (Fin 0)" "\<not> f64_lt q (Fin 0)"
    using unit_not_negative [OF G, of g1] unit_not_negative [OF G, of g3] p q by simp_all
  let ?at = "sat_add (sat_add now ?base) j + x"
  have "unat ?at = unat now + unat ?base + unat j + unat x"
    using fits \<open>unat j \<le> unat ?max\<close> \<open>unat x \<le> unat ?max\<close> sat_add_exact [of now ?base] sat_add_exact [of "sat_add now ?base" j]
    by (simp add: unat_word_ariths)
  moreover have "send_one G s ev now r (net, rng) = (enqueue \<lparr> fl_recipient = r, fl_event = ev, fl_deliver_at = ?at \<rparr> net, g4)"
    using r keep assms(2) x by (simp add: send_one_def j perturb_def p q lossless_def enqueue_opt_def Let_def split: if_splits)
  ultimately show ?thesis
    using \<open>unat j \<le> unat ?max\<close> \<open>unat x \<le> unat ?max\<close> by (intro exI) (auto simp del: fold_simps)
qed

text \<open>What a broadcast puts on the bus.\<close>

definition copies :: "VirtualNet \<Rightarrow> u32 \<Rightarrow> Event \<Rightarrow> u64 \<Rightarrow> u32 list \<Rightarrow> InFlight list \<Rightarrow> bool" where
  "copies net s ev now rs ms \<longleftrightarrow> map fl_recipient ms = filter (\<lambda>r. r \<noteq> s \<and> allows_delivery net s r) rs \<and>
     (\<forall>m \<in> set ms. fl_event m = ev \<and> unat now + unat (nc_base_delay_ns (vn_conditions net)) \<le> unat (fl_deliver_at m) \<and>
       unat (fl_deliver_at m) \<le> unat now + unat (nc_base_delay_ns (vn_conditions net)) + 2 * unat (nc_max_delay_ns (vn_conditions net)))"

lemma send_all_lossless:
  assumes G: "rng_ok G" and "lossless (vn_conditions net)"
    and "unat now + unat (nc_base_delay_ns (vn_conditions net)) + 2 * unat (nc_max_delay_ns (vn_conditions net)) < 2 ^ 64"
  shows "\<exists>ms. copies net s ev now rs ms \<and> fst (fold (send_one G s ev now) rs (net, rng)) = fold enqueue ms net"
  using assms(2,3)
proof (induction rs arbitrary: net rng)
  case Nil
  then show ?case
    by (intro exI [of _ "[]"]) (simp add: copies_def)
next
  case (Cons r rs)
  show ?case
  proof (cases "r \<noteq> s \<and> allows_delivery net s r")
    case False
    then have "send_one G s ev now r (net, rng) = (net, rng)"
      by (auto simp: send_one_def)
    with Cons False show ?thesis
      by (auto simp: copies_def)
  next
    case True
    then obtain m rng' where m: "send_one G s ev now r (net, rng) = (enqueue m net, rng')" "copies net s ev now [r] [m]"
      using send_one_lossless [OF G Cons.prems, of r s ev rng] by (auto simp: copies_def)
    have same: "copies (enqueue m net) s ev now rs ms = copies net s ev now rs ms" for ms
      by (simp add: copies_def allows_delivery_def)
    obtain ms where "copies net s ev now rs ms" "fst (fold (send_one G s ev now) rs (enqueue m net, rng')) = fold enqueue ms (enqueue m net)"
      using Cons.IH [of "enqueue m net" rng'] Cons.prems unfolding same by auto
    then show ?thesis
      using m True by (intro exI [of _ "m # ms"]) (simp add: copies_def)
  qed
qed

text \<open>
  C40: A broadcast over a simulated network without loss or repetition puts exactly one copy on the bus for every validator
  other than the sender on the sender's side of the partition, and none for anybody else. Each copy is due no earlier
  than the base delay and no later than the base delay and twice the configured maximum of the extra delay. At any
  time the bus hands out the copies and the older messages that are due, as a stable sort by their times, and keeps the rest.
\<close>

theorem broadcast_delivery:
  assumes "rng_ok G" "net_sorted net" "lossless (vn_conditions net)" "event_of_broadcast a = Some ev"
    and "unat now + unat (nc_base_delay_ns (vn_conditions net)) + 2 * unat (nc_max_delay_ns (vn_conditions net)) < 2 ^ 64"
    and "enqueue_from_action G s a n now (net, rng) = (net', rng')"
  shows "\<exists>ms. map fl_recipient ms = filter (\<lambda>r. r \<noteq> s \<and> allows_delivery net s r) (map of_nat [0..<unat n]) \<and>
    (\<forall>m \<in> set ms. fl_event m = ev \<and> unat now + unat (nc_base_delay_ns (vn_conditions net)) \<le> unat (fl_deliver_at m) \<and>
      unat (fl_deliver_at m) \<le> unat now + unat (nc_base_delay_ns (vn_conditions net)) + 2 * unat (nc_max_delay_ns (vn_conditions net))) \<and>
    (\<forall>t. fst (drain_due t net') = sort_key fl_deliver_at (filter (\<lambda>m. fl_deliver_at m \<le> t) (vn_pending net @ ms)) \<and>
      vn_pending (snd (drain_due t net')) = sort_key fl_deliver_at (filter (\<lambda>m. t < fl_deliver_at m) (vn_pending net @ ms)))"
proof -
  obtain ms where ms: "copies net s ev now (map of_nat [0..<unat n]) ms" "net' = fold enqueue ms net"
    using send_all_lossless [OF assms(1,3,5), of s ev "map of_nat [0..<unat n]" rng] assms(4,6)
    by (auto simp: enqueue_from_action_def)
  have "fst (drain_due t net') = sort_key fl_deliver_at (filter (\<lambda>m. fl_deliver_at m \<le> t) (vn_pending net @ ms))" for t
    unfolding ms(2) by (rule bus.drain_pushes [OF assms(2)])
  moreover have "vn_pending (snd (drain_due t net')) = sort_key fl_deliver_at (filter (\<lambda>m. t < fl_deliver_at m) (vn_pending net @ ms))" for t
    unfolding ms(2) by (simp only: bus.items_drain bus.invar_pushes assms(2) bus.pushes_sort filter_sort)
  ultimately show ?thesis
    using ms(1) unfolding copies_def by blast
qed

text \<open>A generator that always draws the maximum: the copy is late by twice the configured maximum.\<close>

abbreviation jittery :: VirtualNet where
  "jittery \<equiv> virtual_net_new\<lparr>vn_conditions := \<lparr> nc_base_delay_ns = 2, nc_max_delay_ns = 20, nc_drop = Fin 0, nc_duplicate = Fin 0 \<rparr>\<rparr>"

lemma jittery_late: "fst (drain_due 46 (fst (enqueue_from_action top_rng 0 (BroadcastMicroQc micro_w) 2 5 (jittery, ())))) = []"
proof -
  have "[0..<2] = [0, 1 :: nat]"
    by code_simp
  then show ?thesis
    by (simp add: enqueue_from_action_def send_one_def allows_delivery_def virtual_net_new_def jitter_nanos_def perturb_def top_rng_def
        enqueue_opt_def enqueue_def drain_due_def sat_add_def)
qed

theorem broadcast_delivery_witness:
  "\<exists>m. fst (drain_due 47 (fst (enqueue_from_action top_rng 0 (BroadcastMicroQc micro_w) 2 5 (jittery, ())))) = [m] \<and>
    fl_recipient m = 1 \<and> fl_event m = MicroQcAssembled micro_w \<and>
    fst (drain_due 46 (fst (enqueue_from_action top_rng 0 (BroadcastMicroQc micro_w) 2 5 (jittery, ())))) = []"
proof -
  obtain net' rng' where run: "enqueue_from_action top_rng 0 (BroadcastMicroQc micro_w) 2 5 (jittery, ()) = (net', rng')"
    by (rule prod.exhaust)
  have "net_sorted jittery" "lossless (vn_conditions jittery)"
    by (simp_all add: net_sorted_def virtual_net_new_def lossless_def)
  moreover have "unat (5 :: u64) + unat (nc_base_delay_ns (vn_conditions jittery)) + 2 * unat (nc_max_delay_ns (vn_conditions jittery)) < 2 ^ 64"
    by simp
  ultimately obtain ms where ms: "map fl_recipient ms = filter (\<lambda>r. r \<noteq> 0 \<and> allows_delivery jittery 0 r) (map of_nat [0..<unat (2 :: u32)])"
      "\<forall>m \<in> set ms. fl_event m = MicroQcAssembled micro_w \<and> 7 \<le> unat (fl_deliver_at m) \<and> unat (fl_deliver_at m) \<le> 47"
      "fst (drain_due 47 net') = sort_key fl_deliver_at (filter (\<lambda>m. fl_deliver_at m \<le> 47) ms)"
    using broadcast_delivery [OF top_rng_ok _ _ _ _ run, of "MicroQcAssembled micro_w"] by (auto simp: virtual_net_new_def)
  have "[0..<2] = [0, 1 :: nat]"
    by code_simp
  then have "map fl_recipient ms = [1]"
    using ms(1) by (simp add: allows_delivery_def virtual_net_new_def)
  then obtain m where "ms = [m]" "fl_recipient m = 1"
    by (auto simp: map_eq_Cons_conv)
  then show ?thesis
    using ms(2,3) run jittery_late by (simp add: word_le_nat_alt)
qed

section \<open>The ports of a simulated validator\<close>

interpretation world: dag_port "world_ports L i w" for L i w
  by unfold_locales (simp_all add: world_ports_def vd_vertex_def vd_vertices_at_round_def)

lemma world_orders:
  assumes "vs_epoch (w_valset w) = 0" "vs_entries (w_valset w) \<noteq> []"
  shows "\<exists>acts st'. emit_for_waves L cfg (world_ports L i w) ws actions st = (Ok acts, st')"
  by (rule world.emit_for_waves_returns [where r = "Some (w_valset w)" and b = "w_beacon w"])
    (use assms in \<open>simp_all add: world_ports_def virtual_set_for_def\<close>)

section \<open>Whole runs\<close>

lemma stored_exactly:
  assumes "store_inv tr [] p" "length (adopted tr) < 2 ^ 64"
  shows "vp_macro_cps p h = (if unat h < length (adopted tr) then Some (adopted tr ! unat h) else None)"
proof -
  have chain: "stored_chain tr [] p"
    using assms by (simp add: store_inv_def)
  show ?thesis
  proof (cases "unat h < length (adopted tr)")
    case True
    moreover have "(of_nat (unat h) :: Height) = h"
      by simp
    ultimately show ?thesis
      using chain unfolding stored_chain_def by (metis adopted_simps(1) empty_iff empty_set)
  next
    case False
    then show ?thesis
      using chain unfolding stored_chain_def by (metis not_None_eq)
  qed
qed

text \<open>The chain of one validator: hash-linked, on its storage by height and nothing else there, certified, and reported final.\<close>

definition chain_kept :: "Actions \<Rightarrow> VirtualPersistence \<Rightarrow> bool" where
  "chain_kept tr p \<longleftrightarrow> (let cps = adopted tr in
     (\<forall>h. vp_macro_cps p h = (if unat h < length cps then Some (cps ! unat h) else None)) \<and>
     (\<forall>k < length cps. mc_parent (cps ! k) = (if k = 0 then hash_zero else mc_hash (cps ! (k - 1))) \<and>
       (\<exists>q. bt_get (vp_macro_qcs p) (mc_hash (cps ! k)) = Some q \<and> mq_checkpoint_hash q = mc_hash (cps ! k))) \<and>
     (\<forall>b \<in> set (final_blobs tr). (\<exists>s. bt_get (vp_blob_status p) b = Some s \<and> Finalized \<le> s) \<and>
       (\<exists>k. Suc k < length cps \<and> b = blob_id_of_checkpoint (cps ! k))))"

lemma chain_keptI:
  assumes macro: "macro_inv tr book" and store: "store_inv tr [] p" and small: "length (adopted tr) < 2 ^ 64"
  shows "chain_kept tr p"
proof -
  have chain: "hash_chain (adopted tr)" and reports: "reports_ok (adopted tr) (final_blobs tr)"
    and certs: "map mq_checkpoint_hash (certificates tr) = map mc_hash (adopted tr)"
    using macro small by (simp_all add: macro_inv_def chain_inv_def)
  have "mc_parent (adopted tr ! k) = (if k = 0 then hash_zero else mc_hash (adopted tr ! (k - 1)))" if "k < length (adopted tr)" for k
    using that chain tip_take [of k "adopted tr"] by (simp add: hash_chain_def) (simp add: tip_def)
  moreover have "\<exists>q. bt_get (vp_macro_qcs p) (mc_hash (adopted tr ! k)) = Some q \<and> mq_checkpoint_hash q = mc_hash (adopted tr ! k)"
    if k: "k < length (adopted tr)" for k
  proof -
    have "k < length (certificates tr)" "mq_checkpoint_hash (certificates tr ! k) = mc_hash (adopted tr ! k)"
      using k certs by (metis length_map, metis length_map nth_map)
    then have "bt_get (vp_macro_qcs p) (mc_hash (adopted tr ! k)) \<noteq> None"
      using store nth_mem [of k "certificates tr"] unfolding store_inv_def by (metis certificates_simps(1) empty_iff empty_set)
    then show ?thesis
      using store unfolding store_inv_def by blast
  qed
  moreover have "\<exists>s. bt_get (vp_blob_status p) b = Some s \<and> Finalized \<le> s" if "b \<in> set (final_blobs tr)" for b
    using store that by (simp add: store_inv_def)
  ultimately show ?thesis
    using stored_exactly [OF store small] reports unfolding chain_kept_def Let_def reports_ok_def by blast
qed

lemma chained_hashes:
  assumes "chained_inv lg (\<lambda>_. []) n hashes" "\<And>i. unat i < n \<Longrightarrow> map mq_checkpoint_hash (certificates (log_of i lg)) = map mc_hash (adopted (log_of i lg))"
  shows "hashes = {mc_hash cp | cp i. unat i < n \<and> cp \<in> set (adopted (log_of i lg))}"
proof -
  have "mq_checkpoint_hash ` set (certificates (log_of i lg)) = mc_hash ` set (adopted (log_of i lg))" if "unat i < n" for i
    using assms(2) [OF that] by (metis image_set)
  then show ?thesis
    using assms(1) unfolding chained_inv_def by (simp add: set_eq_iff image_iff) (metis (no_types, lifting))
qed

lemma run_chains:
  assumes "world_new L G n seed cfg = Ok w0" "world_run L G w0 lg w" "\<forall>i. length (adopted (log_of i lg)) < 2 ^ 64"
  shows "length (w_persistence w) = unat n"
    "unat i < unat n \<Longrightarrow> chain_kept (log_of i lg) (w_persistence w ! unat i)"
    "beacon_chain L (blake3_with_dst L DST_BEACON seed) {mc_hash cp | cp i. unat i < unat n \<and> cp \<in> set (adopted (log_of i lg))} (w_beacon w)"
proof -
  have inv: "world_inv L (blake3_with_dst L DST_BEACON seed) (unat n) lg (\<lambda>_. []) w"
    by (rule world_run_inv [OF assms(2) world_new_inv [OF assms(1)]])
  then show "length (w_persistence w) = unat n"
    by (simp add: world_inv_def)
  have each: "macro_inv (log_of i lg) (sm_macros (w_machines w ! unat i)) \<and> store_inv (log_of i lg) [] (w_persistence w ! unat i)"
    if "unat i < unat n" for i
    using inv that by (simp add: world_inv_def chains_inv_def)
  then show "unat i < unat n \<Longrightarrow> chain_kept (log_of i lg) (w_persistence w ! unat i)"
    using chain_keptI assms(3) by blast
  have "w_beacon_chained w = {mc_hash cp | cp i. unat i < unat n \<and> cp \<in> set (adopted (log_of i lg))}"
    by (rule chained_hashes) (use inv each in \<open>simp_all add: world_inv_def macro_inv_def\<close>)
  then show "beacon_chain L (blake3_with_dst L DST_BEACON seed)
      {mc_hash cp | cp i. unat i < unat n \<and> cp \<in> set (adopted (log_of i lg))} (w_beacon w)"
    using inv by (simp add: world_inv_def)
qed

lemma kept_at:
  assumes "chain_kept tr p" "h < MAX_SCAN_HEIGHT"
  shows "vp_macro_cps p (of_nat h) = Some cp \<longleftrightarrow> h < length (adopted tr) \<and> cp = adopted tr ! h"
proof -
  have "unat (of_nat h :: Height) = h"
    using assms(2) by (intro unat_of_nat_small) (simp add: MAX_SCAN_HEIGHT_def)
  moreover have "vp_macro_cps p (of_nat h) = (if unat (of_nat h :: Height) < length (adopted tr) then Some (adopted tr ! unat (of_nat h :: Height)) else None)"
    using assms(1) unfolding chain_kept_def Let_def by blast
  ultimately show ?thesis
    by auto
qed

text \<open>
  C3: Any run of the simulator that does not panic, from a fresh world of any size: rounds, deliveries to single validators,
  messages and vertices injected by an adversary, equivocating proposers, losses, delays, partitions. The storage of
  every validator holds exactly the checkpoints it adopted, each at its height, linked by parent hashes and certified, and
  what it reported final has that status and an adopted child. The shared beacon was chained once for each checkpoint that any
  validator adopted. The checker \<open>lock_macro\<close> accepts the world only if any two validators adopted the same checkpoint at every common
  height below 128, and rejects it only if two validators hold different checkpoints or certificates at such a height.
\<close>

theorem simulated_chains:
  assumes "world_new L G n seed cfg = Ok w0" "world_run L G w0 lg w" "\<forall>i. length (adopted (log_of i lg)) < 2 ^ 64"
  shows "(\<forall>i. unat i < unat n \<longrightarrow> chain_kept (log_of i lg) (w_persistence w ! unat i)) \<and>
    (\<exists>hs. distinct hs \<and> set hs = {mc_hash cp | cp i. unat i < unat n \<and> cp \<in> set (adopted (log_of i lg))} \<and>
      w_beacon w = fold (\<lambda>h b. chain_beacon L b h) hs (blake3_with_dst L DST_BEACON seed)) \<and>
    (is_ok (lock_macro_check w) \<longrightarrow> (\<forall>i j. unat i < unat n \<and> unat j < unat n \<longrightarrow> (\<forall>k < 128.
      k < length (adopted (log_of i lg)) \<and> k < length (adopted (log_of j lg)) \<longrightarrow>
      mc_hash (adopted (log_of i lg) ! k) = mc_hash (adopted (log_of j lg) ! k)))) \<and>
    (\<not> is_ok (lock_macro_check w) \<longrightarrow> (\<exists>i < unat n. \<exists>j < unat n. \<exists>k < 128.
      conflict (w_persistence w ! i) (w_persistence w ! j) (of_nat k)))"
proof -
  note run = run_chains [OF assms]
  note check = lock_macro_check_exact [of w]
  have "mc_hash (adopted (log_of i lg) ! k) = mc_hash (adopted (log_of j lg) ! k)"
    if "is_ok (lock_macro_check w)" "unat i < unat n" "unat j < unat n" "k < 128" "k < length (adopted (log_of i lg))" "k < length (adopted (log_of j lg))"
    for i j k
  proof -
    have k: "k < MAX_SCAN_HEIGHT"
      using that(4) by (simp add: MAX_SCAN_HEIGHT_def)
    have "w_persistence w ! unat i \<in> set (w_persistence w)" "w_persistence w ! unat j \<in> set (w_persistence w)"
      using that(2,3) run(1) by simp_all
    moreover have "vp_macro_cps (w_persistence w ! unat i) (of_nat k) = Some (adopted (log_of i lg) ! k)"
        "vp_macro_cps (w_persistence w ! unat j) (of_nat k) = Some (adopted (log_of j lg) ! k)"
      using that(5,6) kept_at [OF run(2) [OF that(2)] k] kept_at [OF run(2) [OF that(3)] k] by simp_all
    ultimately show ?thesis
      using check that(1) k by blast
  qed
  moreover have "\<exists>i < unat n. \<exists>j < unat n. \<exists>k < 128. conflict (w_persistence w ! i) (w_persistence w ! j) (of_nat k)"
    if "\<not> is_ok (lock_macro_check w)"
    using check that run(1) unfolding MAX_SCAN_HEIGHT_def by (metis in_set_conv_nth)
  ultimately show ?thesis
    using run(2,3) unfolding beacon_chain_def by blast
qed

theorem simulated_chains_witness:
  "\<exists>w :: (768 word, unit) World. vp_macro_cps (w_persistence w ! 2) 0 = Some checkpoint_w \<and> vp_macro_cps (w_persistence w ! 0) 0 = None \<and>
    w_beacon w = chain_beacon tie_lib 0 0"
proof -
  obtain lg w where run: "world_run tie_lib top_rng world_w lg w" and lg: "lg = map (Pair 2) (BroadcastMicroQc micro_w # adoption_w)"
    using sample_world_run by blast
  have adopted: "adopted (log_of i lg) = (if i = 2 then [checkpoint_w] else [])" for i
    unfolding lg log_of_own by (simp add: adoption_w_def)
  have small: "\<forall>i. length (adopted (log_of i lg)) < 2 ^ 64"
    by (simp add: adopted)
  note sim = simulated_chains [OF new_w run small]
  then have kept: "unat i < unat (3 :: u32) \<Longrightarrow> chain_kept (log_of i lg) (w_persistence w ! unat i)" for i
    by blast
  have "chain_kept (log_of 2 lg) (w_persistence w ! 2)" "chain_kept (log_of 0 lg) (w_persistence w ! 0)"
    using kept [of 2] kept [of 0] by simp_all
  moreover have "w_beacon w = chain_beacon tie_lib 0 0"
  proof -
    have hashes: "{mc_hash cp | cp i. unat i < unat (3 :: u32) \<and> cp \<in> set (adopted (log_of i lg))} = {0}"
      by (auto simp: adopted split: if_splits intro!: exI [of _ checkpoint_w] exI [of _ "2 :: u32"])
    obtain hs where hs: "distinct hs" "set hs = {0}" "w_beacon w = fold (\<lambda>h b. chain_beacon tie_lib b h) hs (blake3_with_dst tie_lib DST_BEACON [])"
      using sim [THEN conjunct2, THEN conjunct1] unfolding hashes by blast
    then have "length hs = 1"
      using distinct_card [of hs] by simp
    then have "hs = [0]"
      using hs(2) by (cases hs) auto
    then show ?thesis
      using hs(3) by (simp add: hash_w)
  qed
  ultimately show ?thesis
    by (intro exI [of _ w]) (simp add: chain_kept_def adopted)
qed

end
