(* ===== verification/Spec2Isabelle.thy ===== *)
theory Spec2Isabelle
  imports Vertex_Properties Bullshark_Properties Wave_Agreement State_Machine Macro_Properties Slashing_Properties
    Erasure_Properties Storage_Properties Gossip_Properties Node_Blob_Properties Node_Properties Sim_Properties
begin

text \<open>
  A verification development for the consensus core of lua-dag, a DAG-based Byzantine fault tolerant
  ledger written in Rust.

  \<^bold>\<open>The program.\<close> Validators certify vertices of a DAG round by round (\<open>consensus/src/vertex_cert\<close>),
  order the certified DAG by waves with one anchor each (\<open>consensus/src/bullshark\<close>), emit a micro
  certificate per committed anchor, bundle micro certificates into macro checkpoints that are proposed,
  voted on, certified and finalized by a two-chain rule (\<open>consensus/src/macro_fin\<close>), and accuse each
  other of equivocation and conflicting votes (\<open>consensus/src/slashing\<close>). One state machine
  (\<open>consensus/src/state_machine.rs\<close>) feeds events to these layers and collects their actions; the host
  gives it ports for the DAG, the validator set, the beacon, signing, the clock and pending blobs.

  \<^bold>\<open>The theories.\<close>
  \<^item> \<open>Lua_Prelude\<close>: machine integers, outcomes of fallible calls (value, error, panic), sequencing of
    calls that change state, ordered maps (locale \<open>ordered_map\<close>, interpreted on sorted association lists),
    signer bitmaps.
  \<^item> \<open>Proto_Types\<close> (\<open>crates/types\<close>), \<open>Float64\<close> (\<open>f64\<close> as rationals with infinities, rounding half to even),
    \<open>Crypto_Lib\<close> (\<open>crates/crypto\<close> over a record of third-party primitives), \<open>Consensus_Base\<close>
    (configuration, events, actions, ports, reputation, sortition scores).
  \<^item> \<open>Dag_Cert\<close> (\<open>dag/src/cert.rs\<close>, \<open>signing.rs\<close>): certificates of vertices; locale \<open>quorum_rule\<close>.
  \<^item> \<open>Vertex_Cert\<close> with \<open>Vertex_Runs\<close> and \<open>Vertex_Properties\<close>: the vertex layer, its run invariant and
    theorems.
  \<^item> \<open>Bullshark\<close> with \<open>Bullshark_Facts\<close>, \<open>Dag_View\<close> (the simulator's DAG, which interprets the locale
    \<open>dag_port\<close>), \<open>Bullshark_Properties\<close> and \<open>Wave_Agreement\<close> (validators with views of one certified DAG, by
    intersection of the supporters of a wave with the parents of later vertices): the ordering layer.
  \<^item> \<open>Slashing\<close> and \<open>Slashing_Properties\<close>: vote history, detectors, evidence verifiers, penalties.
  \<^item> \<open>Macro_State\<close> and \<open>Macro_Fin\<close> with \<open>Macro_Runs\<close> (the chain of adopted checkpoints), \<open>Macro_Votes\<close> (what
    a validator signs), \<open>Macro_Rules\<close> (lottery, aggregates, leak), \<open>Macro_Progress\<close>
    (the two-chain rule holds adopted checkpoints and own votes only), \<open>Macro_Samples\<close> (a concrete run) and
    \<open>Macro_Properties\<close>: the macro layer.
  \<^item> \<open>State_Machine\<close>: the composition of the layers; \<open>Machine_Facts\<close>: what a step does to the chain of adopted
    checkpoints and to the host, shared by the node and the simulator.
  \<^item> \<open>Gf256\<close>, \<open>Reed_Solomon\<close>, \<open>Blob_Custody\<close> (\<open>dag/src/erasure\<close>, \<open>blob\<close>, \<open>da\<close>) with \<open>Gf_Linear\<close>, \<open>Rs_Codec\<close> and
    \<open>Erasure_Properties\<close>: field arithmetic, coding, the custody ledger and availability challenges.
  \<^item> \<open>Storage\<close> (\<open>crates/storage\<close>) and \<open>Blob_Store\<close> (\<open>node/src/blob/rocks_store.rs\<close>) with \<open>Storage_Facts\<close>,
    \<open>Storage_Samples\<close> and \<open>Storage_Properties\<close>: typed stores over RocksDB and their specification as maps.
  \<^item> \<open>Gossip\<close> (\<open>crates/net\<close>) and \<open>Gossip_Properties\<close>: topics, wire messages, peer scores, the swarm task.
  \<^item> \<open>Node_Blobs\<close> (\<open>node/src/blob/mod.rs\<close>) with \<open>Node_Blob_Facts\<close> and \<open>Node_Blob_Properties\<close>: publication,
    attachment and recovery of blobs.
  \<^item> \<open>Node\<close> (\<open>node/src\<close>: \<open>live_dag\<close>, \<open>host_context\<close>, \<open>signer\<close>, \<open>devnet_keys\<close>, \<open>action_applier\<close>, \<open>timer\<close>,
    \<open>orchestrator\<close>, \<open>query\<close> and the wiring of \<open>runtime\<close>) with \<open>Node_Facts\<close>, \<open>Node_Runs\<close>, \<open>Node_Samples\<close> and
    \<open>Node_Properties\<close>: the process, its tasks as steps on one state; it interprets \<open>dag_port\<close> on the live DAG.
  \<^item> \<open>Virtual_Host\<close> and \<open>Simulator\<close> (\<open>apps/sim/src\<close>: network and adversary, timers, storage, keys, vertex factory,
    world, checkers, scenarios) with \<open>Sim_Facts\<close> (locale \<open>due_queue\<close>, interpreted on the message bus), \<open>Sim_Runs\<close>,
    \<open>Sim_Samples\<close> and \<open>Sim_Properties\<close>: many validators on one simulated network.
  \<^item> \<open>Sample_Committee\<close>: a concrete signature scheme, hash and committee on which theorems are
    instantiated.

  \<^bold>\<open>Correspondence.\<close> A struct is a record with the fields of the source, an enum a datatype, a
  \<open>u64\<close> newtype a 64-bit word (the release profile wraps), a 32-byte newtype a 256-bit word, a
  \<open>HashMap\<close> that is only read and written by key a map, a \<open>BTreeMap\<close> or an iterated map a sorted
  association list, a set a set. A handler that mutates its book returns the outcome together with the
  book it leaves, because the Rust code keeps its changes when it returns an error. Panics (indexing,
  division by zero, \<open>clamp\<close>) are outcomes. BLAKE3, SHA-2, blst, curve25519-dalek and borsh are fields of
  the record \<open>crypto_lib\<close>; what a theorem needs of them is a hypothesis (\<open>bls_aggregation\<close>: aggregates of
  valid signatures over distinct keys verify) that \<open>Sample_Committee\<close> shows satisfiable. RocksDB, the
  codecs of the stored types and of the wire are records of functions too: \<open>rocks_ok\<close> says that a write
  that is acknowledged is read back and one that is not changes nothing, \<open>codec_ok\<close>, \<open>borsh_ok\<close> and
  \<open>wire_ok\<close> that decoding gives back what was encoded; \<open>writable\<close>, \<open>accepts_blobs\<close> and \<open>accepts_macros\<close> that
  writes are taken. \<open>Storage_Samples\<close> and \<open>Node_Samples\<close> show them satisfiable. Channels are bounded queues,
  the generator of the simulator is the record \<open>rng_lib\<close> (\<open>rng_ok\<close>: samples lie in the requested range),
  and the process-wide matrix cache of the erasure code is passed along (\<open>cache_ok\<close> is its invariant).

  \<^bold>\<open>Depth and fuel.\<close> The mutually recursive round functions of \<open>vertex_cert\<close> take a stack depth;
  \<open>handlers_return\<close> shows that a depth linear in the certified rounds ahead suffices when the quorum
  exceeds one, and \<open>small_committee_diverges\<close> that no depth suffices otherwise. In the simulator, stepping
  a validator and applying its actions call each other: \<open>step_validator\<close> takes the remaining depth, and
  running out of it is the panic of a stack overflow. The graph searches of
  \<open>bullshark\<close> terminate on the number of unvisited hashes. Everything else is structural.

  \<^bold>\<open>What the theorems show.\<close> Vertex layer: agreement on certified vertices, no double votes or
  equivocation, the exact voting rule (it counts repeated parents), certificates that verify, termination,
  progress, bounded memory. Ordering: the linearization is the causal history; for views of one certified DAG
  of \<open>3f + 1\<close> validators with quorum parents, what the shortcut commits is contained in every later commit, and
  commits of one wave under one beacon are the same (containment is not shown for the slow path); micro
  certificates are exact and unique, timers stay consistent. Macro layer: adopted checkpoints form one hash
  chain, finality needs an adopted child and follows from it for a validator that voted for no other checkpoint
  of the two heights, one signature per height for well-formed proposals and a double vote after one proposal
  with a wrong content hash, certificates and quorums, the proposer lottery, the inactivity leak. Slashing: vote
  evidence is found and verified exactly, equivocation evidence can be forged. Blobs: any \<open>k\<close> shards decode
  to the payload, availability, challenges, and acknowledged publications survive crashes until they are
  attached (publishing again makes an attached blob pending again). Storage: the
  stores implement typed maps. Gossip: what is broadcast arrives as the announced event. Node: over whole
  runs of the process the adopted chain, its beacon and final statuses are on disk and the live DAG is
  certified; a restart forgets the votes. Simulator: over whole runs of a world, whatever the adversary does, every
  validator stores exactly its hash chain, the shared beacon is chained once per checkpoint, and the checker of
  macro finality accepts only agreement; the bus delivers one copy per allowed recipient within its delays.

  \<^bold>\<open>Not modelled.\<close> Transport, identity and dialling are libp2p; the JSON-RPC envelope, metrics, tracing,
  shutdown signals and the layering of configuration files and environment are axum, prometheus, tokio,
  clap and toml around calls that are modelled; the command line prints. Of the simulator, argument parsing
  and the replay helper, which runs a scenario twice and compares the JSON, are left out.
\<close>

end
